(* ===== verification/Prelude.thy ===== *)
theory Prelude
  imports Main "HOL-Library.Word" "HOL-Library.List_Lexorder" "HOL-Library.Char_ord"
begin

text \<open>
  What every component shares: the names of Rust's machine integers and result type, checked and
  saturating arithmetic, strings as UTF-8 byte sequences with the counts and the ASCII tests the
  code applies to them, decimal printing, association lists as keyed containers, and the
  collections of rewrite rules the component proofs use.

  A Rust \<open>String\<close> is its UTF-8 byte sequence, so \<^typ>\<open>string\<close> (a list of 8-bit characters) is
  exactly its contents: \<open>len()\<close> is \<^const>\<open>length\<close>, comparison is the lexicographic order of the
  bytes, and the counts of code points and of UTF-16 units are computed from the lead bytes.
\<close>

named_theorems validators \<open>definitions of the validation predicates of stored records\<close>
named_theorems phase_defs \<open>definitions of the phase tables of stored records\<close>
named_theorems inv_defs \<open>definitions of component invariants\<close>

section \<open>Machine integers and results\<close>

type_synonym u8 = "8 word"
type_synonym u16 = "16 word"
type_synonym u64 = "64 word"
type_synonym ('e, 'a) result = "'e + 'a"

abbreviation Ok :: "'a \<Rightarrow> ('e, 'a) result" where
  "Ok \<equiv> Inr"

abbreviation Err :: "'e \<Rightarrow> ('e, 'a) result" where
  "Err \<equiv> Inl"

text \<open>Rust's question mark operator: continue with the value, or return the error.\<close>

definition and_then :: "('e, 'a) result \<Rightarrow> ('a \<Rightarrow> ('e, 'b) result) \<Rightarrow> ('e, 'b) result" where
  "and_then r f = (case r of Err e \<Rightarrow> Err e | Ok a \<Rightarrow> f a)"

definition map_err :: "('e \<Rightarrow> 'f) \<Rightarrow> ('e, 'a) result \<Rightarrow> ('f, 'a) result" where
  "map_err g r = (case r of Err e \<Rightarrow> Err (g e) | Ok a \<Rightarrow> Ok a)"

definition is_ok :: "('e, 'a) result \<Rightarrow> bool" where
  "is_ok r = (case r of Err _ \<Rightarrow> False | Ok _ \<Rightarrow> True)"

lemma and_then_simps [simp]:
  "and_then (Err e) f = Err e"
  "and_then (Ok a) f = f a"
  by (simp_all add: and_then_def)

lemma and_then_eq_Ok [simp]: "and_then r f = Ok b \<longleftrightarrow> (\<exists>a. r = Ok a \<and> f a = Ok b)"
  by (cases r) simp_all

lemma map_err_simps [simp]:
  "map_err g (Err e) = Err (g e)"
  "map_err g (Ok a) = Ok a"
  by (simp_all add: map_err_def)

lemma map_err_eq_Ok [simp]: "map_err g r = Ok a \<longleftrightarrow> r = Ok a"
  by (cases r) simp_all

lemma is_ok_simps [simp]:
  "\<not> is_ok (Err e)"
  "is_ok (Ok a)"
  by (simp_all add: is_ok_def)

lemma is_ok_iff: "is_ok r \<longleftrightarrow> (\<exists>a. r = Ok a)"
  by (cases r) simp_all

text \<open>\<open>checked_add\<close>: \<open>None\<close> where the sum does not fit the width.\<close>

definition checked_add :: "'a::len word \<Rightarrow> 'a word \<Rightarrow> 'a word option" where
  "checked_add a b = (if unat a + unat b < 2 ^ LENGTH('a) then Some (a + b) else None)"

lemma checked_add_Some_iff:
  "checked_add a b = Some c \<longleftrightarrow> unat a + unat b = unat (c :: 'a::len word)"
proof
  assume "checked_add a b = Some c"
  then show "unat a + unat b = unat c"
    by (auto simp: checked_add_def unat_word_ariths split: if_splits)
next
  assume eq: "unat a + unat b = unat c"
  then have "unat a + unat b < 2 ^ LENGTH('a)"
    using unsigned_less [of c, where 'a = nat] by simp
  moreover from this eq have "a + b = c"
    by (metis unat_add_lem word_unat_eq_iff)
  ultimately show "checked_add a b = Some c"
    by (simp add: checked_add_def)
qed

text \<open>\<open>checked_sub\<close>: \<open>None\<close> where the difference would be negative.\<close>

definition checked_sub :: "'a::len word \<Rightarrow> 'a word \<Rightarrow> 'a word option" where
  "checked_sub a b = (if b \<le> a then Some (a - b) else None)"

lemma checked_sub_Some_iff: "checked_sub a b = Some c \<longleftrightarrow> unat a = unat b + unat (c :: 'a::len word)"
  by (auto simp: checked_sub_def word_le_nat_alt unat_sub_if_size intro: word_unat_eq_iff [THEN iffD2])

section \<open>Strings\<close>

text \<open>Bytes 128 to 191 continue a UTF-8 sequence; every other byte starts a code point, and a
  lead byte of 240 or more starts one that takes two UTF-16 units.\<close>

definition utf8_continuation :: "char \<Rightarrow> bool" where
  "utf8_continuation c \<longleftrightarrow> 128 \<le> (of_char c :: nat) \<and> (of_char c :: nat) < 192"

definition chars_count :: "string \<Rightarrow> nat" where
  "chars_count s = length (filter (\<lambda>c. \<not> utf8_continuation c) s)"

definition utf16_units :: "char \<Rightarrow> nat" where
  "utf16_units c = (if utf8_continuation c then 0 else if 240 \<le> (of_char c :: nat) then 2 else 1)"

definition utf16_count :: "string \<Rightarrow> nat" where
  "utf16_count s = sum_list (map utf16_units s)"

definition is_ascii_digit :: "char \<Rightarrow> bool" where
  "is_ascii_digit c \<longleftrightarrow> 48 \<le> (of_char c :: nat) \<and> (of_char c :: nat) \<le> 57"

definition is_ascii_hexdigit :: "char \<Rightarrow> bool" where
  "is_ascii_hexdigit c \<longleftrightarrow> is_ascii_digit c \<or> 97 \<le> (of_char c :: nat) \<and> (of_char c :: nat) \<le> 102
     \<or> 65 \<le> (of_char c :: nat) \<and> (of_char c :: nat) \<le> 70"

definition is_ascii_uppercase :: "char \<Rightarrow> bool" where
  "is_ascii_uppercase c \<longleftrightarrow> 65 \<le> (of_char c :: nat) \<and> (of_char c :: nat) \<le> 90"

definition to_ascii_lowercase :: "string \<Rightarrow> string" where
  "to_ascii_lowercase s =
     map (\<lambda>c. if is_ascii_uppercase c then char_of ((of_char c :: nat) + 32) else c) s"

definition ends_with :: "string \<Rightarrow> string \<Rightarrow> bool" where
  "ends_with s suf \<longleftrightarrow> length suf \<le> length s \<and> drop (length s - length suf) s = suf"

definition strip_suffix :: "string \<Rightarrow> string \<Rightarrow> string option" where
  "strip_suffix s suf = (if ends_with s suf then Some (take (length s - length suf) s) else None)"

lemma ends_with_append [simp]: "ends_with (s @ suf) suf"
  by (simp add: ends_with_def)

lemma strip_suffix_append [simp]: "strip_suffix (s @ suf) suf = Some s"
  by (simp add: strip_suffix_def)

lemma ends_withD: "ends_with s suf \<Longrightarrow> \<exists>p. s = p @ suf"
  by (metis append_take_drop_id ends_with_def)

text \<open>Decimal printing and Rust's zero-padded \<open>{:0w}\<close> format.\<close>

definition digit_char :: "nat \<Rightarrow> char" where
  "digit_char n = char_of (48 + n)"

fun dec :: "nat \<Rightarrow> string" where
  "dec n = (if n < 10 then [digit_char n] else dec (n div 10) @ [digit_char (n mod 10)])"

declare dec.simps [simp del]

definition pad :: "nat \<Rightarrow> nat \<Rightarrow> string" where
  "pad w n = replicate (w - length (dec n)) (CHR ''0'') @ dec n"

text \<open>Joining with a separator, as \<open>[..].join(sep)\<close>.\<close>

fun join_with :: "string \<Rightarrow> string list \<Rightarrow> string" where
  "join_with sep [] = []"
| "join_with sep [x] = x"
| "join_with sep (x # y # zs) = x @ sep @ join_with sep (y # zs)"

lemma of_char_digit [simp]: "n < 10 \<Longrightarrow> (of_char (digit_char n) :: nat) = 48 + n"
  by (simp add: digit_char_def)

lemma is_ascii_digit_digit_char [simp]: "n < 10 \<Longrightarrow> is_ascii_digit (digit_char n)"
  by (simp add: is_ascii_digit_def)

lemma digit_char_0: "digit_char 0 = CHR ''0''"
  by code_simp

lemma digit_char_less_iff [simp]:
  "m < 10 \<Longrightarrow> n < 10 \<Longrightarrow> digit_char m < digit_char n \<longleftrightarrow> m < n"
  by (simp add: less_char_def)

lemma digit_char_eq_iff [simp]:
  "m < 10 \<Longrightarrow> n < 10 \<Longrightarrow> digit_char m = digit_char n \<longleftrightarrow> m = n"
  by (metis add_left_cancel of_char_digit)

lemma length_dec: "0 < length (dec n)"
  by (subst dec.simps) simp

lemma dec_1 [simp]: "n < 10 \<Longrightarrow> dec n = [digit_char n]"
  by (subst dec.simps) simp

lemma dec_step: "10 \<le> n \<Longrightarrow> dec n = dec (n div 10) @ [digit_char (n mod 10)]"
  by (subst dec.simps) simp

lemma dec_inj: "dec m = dec n \<Longrightarrow> m = n"
proof (induction m arbitrary: n rule: less_induct)
  case (less m)
  have small: "dec a \<noteq> dec b" if "a < 10" "10 \<le> b" for a b
  proof
    assume "dec a = dec b"
    then have "length (dec (b div 10)) = 0" using that by (simp add: dec_step)
    with length_dec [of "b div 10"] show False by simp
  qed
  show ?case
  proof (cases "m < 10")
    case True
    with small [of m n] less.prems have "n < 10" by force
    with True less.prems show ?thesis by simp
  next
    case False
    with small [of n m] less.prems have n: "10 \<le> n" by force
    with False less.prems have eq: "dec (m div 10) = dec (n div 10)" "m mod 10 = n mod 10"
      by (simp_all add: dec_step)
    have "m div 10 = n div 10" by (rule less.IH [OF _ eq(1)]) (use False in simp)
    with eq(2) show ?thesis by (metis div_mult_mod_eq)
  qed
qed

lemma dec_eq_iff [simp]: "dec m = dec n \<longleftrightarrow> m = n"
  using dec_inj by blast

lemma pad_1: "n < 10 \<Longrightarrow> pad (Suc 0) n = [digit_char n]"
  by (simp add: pad_def)

lemma pad_Suc:
  assumes "0 < w"
  shows "pad (Suc w) n = pad w (n div 10) @ [digit_char (n mod 10)]"
proof (cases "n < 10")
  case True
  with assms show ?thesis
    by (cases w) (simp_all add: pad_def digit_char_0 replicate_append_same)
next
  case False
  then show ?thesis
    by (simp add: pad_def dec_step)
qed

lemma length_pad: "0 < w \<Longrightarrow> n < 10 ^ w \<Longrightarrow> length (pad w n) = w"
proof (induction w arbitrary: n)
  case (Suc w)
  show ?case
  proof (cases "w = 0")
    case True
    with Suc.prems show ?thesis
      by (simp add: pad_def)
  next
    case False
    with Suc have "length (pad w (n div 10)) = w"
      by (simp add: div_less_iff_less_mult mult.commute)
    with False show ?thesis
      by (simp add: pad_Suc)
  qed
qed simp

lemma pad_2: "n < 100 \<Longrightarrow> pad 2 n = [digit_char (n div 10), digit_char (n mod 10)]"
  using pad_Suc [of 1 n] by (simp add: pad_1 numeral_2_eq_2)

lemma pad_3:
  "n < 1000 \<Longrightarrow> pad 3 n = [digit_char (n div 100), digit_char (n div 10 mod 10), digit_char (n mod 10)]"
  using pad_Suc [of 2 n] by (simp add: pad_2 numeral_3_eq_3 div_mult2_eq [symmetric])

lemma pad_4:
  "n < 10000 \<Longrightarrow> pad 4 n = [digit_char (n div 1000), digit_char (n div 100 mod 10),
     digit_char (n div 10 mod 10), digit_char (n mod 10)]"
  using pad_Suc [of 3 n] by (simp add: pad_3 div_mult2_eq [symmetric])

text \<open>On byte strings of equal length, lexicographic order goes by the first block that differs;
  zero-padded numbers of one width are ordered as numbers.\<close>

lemma less_append_iff:
  fixes u v x y :: string
  assumes "length u = length v"
  shows "u @ x < v @ y \<longleftrightarrow> u < v \<or> u = v \<and> x < y"
  using assms by (induction u v rule: list_induct2) auto

lemma radix_less_iff:
  fixes b :: nat
  assumes "r < b" and "r' < b"
  shows "q * b + r < q' * b + r' \<longleftrightarrow> q < q' \<or> q = q' \<and> r < r'"
proof -
  have below: "p * b + s < p' * b + s'" if "p < p'" "s < b" for p p' s s'
  proof -
    from that(1) have "Suc p * b \<le> p' * b"
      by (intro mult_le_mono1) simp
    with that(2) show ?thesis by simp
  qed
  show ?thesis
    using below [of q q' r r'] below [of q' q r' r] assms by (cases q q' rule: linorder_cases) auto
qed

lemma div_mod_less_iff:
  fixes b :: nat
  assumes "0 < b"
  shows "m < n \<longleftrightarrow> m div b < n div b \<or> m div b = n div b \<and> m mod b < n mod b"
  using radix_less_iff [of "m mod b" b "n mod b" "m div b" "n div b"] assms by simp

lemma pad_less_iff:
  assumes "0 < w" and "m < 10 ^ w" and "n < 10 ^ w"
  shows "pad w m < pad w n \<longleftrightarrow> m < n"
  using assms
proof (induction w arbitrary: m n)
  case (Suc w)
  show ?case
  proof (cases "w = 0")
    case True
    with Suc.prems show ?thesis
      by (simp add: pad_def)
  next
    case False
    let ?m = "m div 10" and ?n = "n div 10"
    from Suc.prems have bounds: "?m < 10 ^ w" "?n < 10 ^ w"
      by (simp_all add: div_less_iff_less_mult mult.commute)
    with False have len: "length (pad w ?m) = length (pad w ?n)"
      by (simp add: length_pad)
    have eq: "pad w ?m = pad w ?n \<Longrightarrow> ?m = ?n"
      using Suc.IH [of ?m ?n] Suc.IH [of ?n ?m] False bounds by force
    have "pad (Suc w) m < pad (Suc w) n \<longleftrightarrow>
        ?m < ?n \<or> pad w ?m = pad w ?n \<and> m mod 10 < n mod 10"
      using False bounds by (simp add: pad_Suc less_append_iff [OF len] Suc.IH)
    also have "\<dots> \<longleftrightarrow> ?m < ?n \<or> ?m = ?n \<and> m mod 10 < n mod 10"
      using eq by metis
    also have "\<dots> \<longleftrightarrow> m < n"
      by (simp add: div_mod_less_iff [of 10 m n])
    finally show ?thesis .
  qed
qed simp

text \<open>The index of the first element with a property, as \<open>Iterator::position\<close>.\<close>

fun position :: "('a \<Rightarrow> bool) \<Rightarrow> 'a list \<Rightarrow> nat option" where
  "position P [] = None"
| "position P (x # xs) = (if P x then Some 0 else map_option Suc (position P xs))"

lemma position_None_iff: "position P xs = None \<longleftrightarrow> (\<forall>x \<in> set xs. \<not> P x)"
  by (induction xs) auto

lemma position_Some:
  "position P xs = Some i \<Longrightarrow> i < length xs \<and> P (xs ! i) \<and> (\<forall>x \<in> set (take i xs). \<not> P x)"
proof (induction xs arbitrary: i)
  case (Cons x xs)
  then show ?case by (cases i) (auto split: if_splits)
qed simp

section \<open>Association lists as keyed containers\<close>

text \<open>Rust's \<open>HashMap\<close> and a directory listing: keys are distinct, the order carries no
  meaning. Insertion replaces the value of a present key in place.\<close>

fun upd :: "'k \<Rightarrow> 'v \<Rightarrow> ('k \<times> 'v) list \<Rightarrow> ('k \<times> 'v) list" where
  "upd k v [] = [(k, v)]"
| "upd k v ((k', v') # xs) = (if k = k' then (k, v) # xs else (k', v') # upd k v xs)"

definition del :: "'k \<Rightarrow> ('k \<times> 'v) list \<Rightarrow> ('k \<times> 'v) list" where
  "del k xs = filter (\<lambda>(k', _). k' \<noteq> k) xs"

definition keys :: "('k \<times> 'v) list \<Rightarrow> 'k list" where
  "keys xs = map fst xs"

lemma map_of_upd [simp]: "map_of (upd k v xs) = (map_of xs)(k \<mapsto> v)"
  by (induction k v xs rule: upd.induct) auto

lemma map_of_del [simp]: "map_of (del k xs) = (map_of xs)(k := None)"
  by (induction xs) (auto simp: del_def)

lemma set_keys_upd [simp]: "set (keys (upd k v xs)) = insert k (set (keys xs))"
  by (induction k v xs rule: upd.induct) (auto simp: keys_def)

lemma distinct_keys_upd [simp]: "distinct (keys xs) \<Longrightarrow> distinct (keys (upd k v xs))"
proof (induction k v xs rule: upd.induct)
  case (2 k v k' v' xs)
  then show ?case
    using set_keys_upd [of k v xs] by (auto simp: keys_def)
qed (simp add: keys_def)

end
