(* ===== verification/Json.thy ===== *)
theory Json
  imports Prelude "HOL-Library.Monad_Syntax" Complex_Main
begin

text \<open>
  JSON values as the program handles them through \<open>serde_json::Value\<close>, and the behaviour of the
  derived \<open>Serialize\<close> and \<open>Deserialize\<close> implementations the sources rely on: structs as objects
  with closed field sets (or as arrays of their fields), unit variants as strings (or as an object
  with one null field), and optional fields. A number is a non-negative 64-bit integer, a negative
  integer or a finite float; a finite float is a rational number. An object is the sorted
  association list of a \<open>BTreeMap\<close>.
\<close>

section \<open>Values\<close>

datatype number = PosInt u64 | NegInt int | Float rat

datatype json = JNull | JBool bool | JNumber number | JString string | JArray "json list"
  | JObject "(string \<times> json) list"

text \<open>\<open>Map::insert\<close>: replaces the value of a present key, keeps the keys in order.\<close>

fun jput :: "string \<Rightarrow> json \<Rightarrow> (string \<times> json) list \<Rightarrow> (string \<times> json) list" where
  "jput k v [] = [(k, v)]"
| "jput k v ((k', v') # fs) =
     (if k = k' then (k, v) # fs else if k < k' then (k, v) # (k', v') # fs
      else (k', v') # jput k v fs)"

definition mk_fields :: "(string \<times> json) list \<Rightarrow> (string \<times> json) list" where
  "mk_fields kvs = foldr (\<lambda>(k, v). jput k v) kvs []"

definition mk_object :: "(string \<times> json) list \<Rightarrow> json" where
  "mk_object kvs = JObject (mk_fields kvs)"

text \<open>\<open>Value::get\<close> with a string key, \<open>as_object\<close>, \<open>as_array\<close>, \<open>as_u64\<close>, \<open>as_str\<close>, \<open>as_bool\<close>.\<close>

fun get :: "json \<Rightarrow> string \<Rightarrow> json option" where
  "get (JObject fs) k = map_of fs k"
| "get _ k = None"

fun as_object :: "json \<Rightarrow> (string \<times> json) list option" where
  "as_object (JObject fs) = Some fs"
| "as_object _ = None"

fun as_array :: "json \<Rightarrow> json list option" where
  "as_array (JArray xs) = Some xs"
| "as_array _ = None"

fun as_u64 :: "json \<Rightarrow> u64 option" where
  "as_u64 (JNumber (PosInt n)) = Some n"
| "as_u64 _ = None"

fun as_str :: "json \<Rightarrow> string option" where
  "as_str (JString s) = Some s"
| "as_str _ = None"

fun as_bool :: "json \<Rightarrow> bool option" where
  "as_bool (JBool b) = Some b"
| "as_bool _ = None"

text \<open>\<open>object.remove(key)\<close> and \<open>value[key] = v\<close> on an object value.\<close>

fun remove_key :: "string \<Rightarrow> json \<Rightarrow> json" where
  "remove_key k (JObject fs) = JObject (del k fs)"
| "remove_key k v = v"

fun set_key :: "string \<Rightarrow> json \<Rightarrow> json \<Rightarrow> json" where
  "set_key k x (JObject fs) = JObject (jput k x fs)"
| "set_key k x v = v"

text \<open>\<open>value[key]\<close>: null where there is no such field.\<close>

definition idx :: "json \<Rightarrow> string \<Rightarrow> json" where
  "idx v k = (case get v k of None \<Rightarrow> JNull | Some x \<Rightarrow> x)"

section \<open>Derived deserialisation\<close>

definition as_u8 :: "json \<Rightarrow> u8 option" where
  "as_u8 v = Option.bind (as_u64 v) (\<lambda>n. if n \<le> 255 then Some (ucast n) else None)"

text \<open>An \<open>Option<T>\<close>: null is the absent value.\<close>

definition as_option :: "(json \<Rightarrow> 'a option) \<Rightarrow> json \<Rightarrow> 'a option option" where
  "as_option f v = (if v = JNull then Some None else map_option Some (f v))"

text \<open>The fields of a struct with a closed field set.\<close>

definition struct_fields :: "string list \<Rightarrow> json \<Rightarrow> (string \<times> json) list option" where
  "struct_fields names v = (case v of
     JObject fs \<Rightarrow> if set (map fst fs) \<subseteq> set names then Some fs else None
   | JArray vs \<Rightarrow> if length vs = length names then Some (zip names vs) else None
   | _ \<Rightarrow> None)"

definition field :: "string \<Rightarrow> (json \<Rightarrow> 'a option) \<Rightarrow> (string \<times> json) list \<Rightarrow> 'a option" where
  "field k f fs = Option.bind (map_of fs k) f"

definition opt_field :: "string \<Rightarrow> (json \<Rightarrow> 'a option) \<Rightarrow> (string \<times> json) list \<Rightarrow> 'a option option" where
  "opt_field k f fs = (case map_of fs k of None \<Rightarrow> Some None | Some v \<Rightarrow> as_option f v)"

text \<open>A unit variant of an enum.\<close>

fun variant_tag :: "json \<Rightarrow> string option" where
  "variant_tag (JString s) = Some s"
| "variant_tag (JObject [(k, JNull)]) = Some k"
| "variant_tag _ = None"

definition as_enum :: "('a \<Rightarrow> string) \<Rightarrow> 'a list \<Rightarrow> json \<Rightarrow> 'a option" where
  "as_enum name variants v =
     Option.bind (variant_tag v) (\<lambda>s. List.find (\<lambda>x. name x = s) variants)"

section \<open>Derived serialisation\<close>

definition of_u64 :: "u64 \<Rightarrow> json" where
  "of_u64 n = JNumber (PosInt n)"

definition of_u8 :: "u8 \<Rightarrow> json" where
  "of_u8 n = JNumber (PosInt (ucast n))"

definition of_option :: "('a \<Rightarrow> json) \<Rightarrow> 'a option \<Rightarrow> json" where
  "of_option f v = (case v of None \<Rightarrow> JNull | Some x \<Rightarrow> f x)"

section \<open>Lemmas\<close>

lemma map_of_jput [simp]: "map_of (jput k v fs) = (map_of fs)(k \<mapsto> v)"
  by (induction k v fs rule: jput.induct) auto

lemma map_of_mk_fields [simp]: "map_of (mk_fields kvs) = map_of kvs"
  by (induction kvs) (auto simp: mk_fields_def)

lemma keys_jput [simp]: "fst ` set (jput k v fs) = insert k (fst ` set fs)"
  by (induction k v fs rule: jput.induct) auto

lemma keys_mk_fields [simp]: "fst ` set (mk_fields kvs) = fst ` set kvs"
  by (induction kvs) (simp_all add: mk_fields_def split_beta)

lemma sorted_jput: "sorted_wrt (<) (map fst fs) \<Longrightarrow> sorted_wrt (<) (map fst (jput k v fs))"
proof (induction k v fs rule: jput.induct)
  case (2 k v k' v' fs)
  then show ?case by (auto simp: less_trans dest: order_less_trans)
qed simp

lemma sorted_mk_fields: "sorted_wrt (<) (map fst (mk_fields kvs))"
  by (induction kvs) (auto simp: mk_fields_def sorted_jput)

lemma get_mk_object [simp]: "get (mk_object kvs) k = map_of kvs k"
  by (simp add: mk_object_def)

lemma idx_mk_object [simp]: "idx (mk_object kvs) k = (case map_of kvs k of None \<Rightarrow> JNull | Some v \<Rightarrow> v)"
  by (simp add: idx_def)

lemma struct_fields_mk_object [simp]:
  "struct_fields names (mk_object kvs) =
     (if fst ` set kvs \<subseteq> set names then Some (mk_fields kvs) else None)"
  by (simp add: struct_fields_def mk_object_def)

lemma scalar_roundtrip [simp]:
  "as_u64 (of_u64 n) = Some n" "as_u8 (of_u8 b) = Some b" "as_str (JString s) = Some s"
proof -
  have "unat (ucast b :: u64) = unat b"
    by (simp add: unsigned_ucast_eq take_bit_nat_eq_self unsigned_less [THEN less_trans])
  moreover have "unat b \<le> 255"
    using unsigned_less [where 'a = nat, of b] by simp
  ultimately have "(ucast b :: u64) \<le> 255"
    by (simp add: word_le_nat_alt)
  moreover have "ucast (ucast b :: u64) = b"
    by transfer (simp add: take_bit_take_bit)
  ultimately show "as_u8 (of_u8 b) = Some b" by (simp add: as_u8_def of_u8_def)
qed (simp_all add: of_u64_def)

lemma of_not_null [simp]: "of_u64 n \<noteq> JNull" "of_u8 b \<noteq> JNull" "mk_object kvs \<noteq> JNull"
  by (simp_all add: of_u64_def of_u8_def mk_object_def)

lemma option_roundtrip:
  assumes "\<And>x. v = Some x \<Longrightarrow> f (g x) = Some x" and "\<And>x. v = Some x \<Longrightarrow> g x \<noteq> JNull"
  shows "as_option f (of_option g v) = Some v"
  using assms by (cases v) (auto simp: as_option_def of_option_def)

lemma option_roundtrip_simps [simp]:
  "as_option as_bool (of_option JBool b) = Some b"
  "as_option as_u64 (of_option of_u64 n) = Some n"
  "as_option as_str (of_option JString s) = Some s"
  by (simp_all add: option_roundtrip)

lemma enum_roundtrip:
  assumes "x \<in> set variants" and "inj_on name (set variants)"
  shows "as_enum name variants (JString (name x)) = Some x"
proof -
  from assms obtain i where i: "List.find (\<lambda>y. name y = name x) variants = Some i"
    by (cases "List.find (\<lambda>y. name y = name x) variants") (auto simp: find_None_iff)
  then have "i \<in> set variants" "name i = name x"
    by (auto simp: find_Some_iff)
  with assms have "i = x" by (auto dest: inj_onD)
  with i show ?thesis by (simp add: as_enum_def)
qed

end
