(* ===== verification/Clock.thy ===== *)
theory Clock
  imports Prelude
begin

text \<open>
  The wall clock of \<open>src/native/src/clock.rs\<close> (\<open>leap\<close>, \<open>from_epoch_duration\<close>) and the
  timestamp check of \<open>src/native/src/operation_store.rs\<close> (\<open>valid_timestamp\<close>) that every
  receipt applies to what the clock produced.

  The year loop is a recursion on the remaining days and the month loop a recursion on the rest of
  the month table, which returns \<open>None\<close> where the code would index past its end. The lemmas show
  that the index never leaves the table, that the printed fields are the civil date of the day
  number, that the receipts accept every printed timestamp, and that later times print
  lexicographically later strings, which is what the receipts compare.
\<close>

section \<open>The clock\<close>

datatype ClockError = BeforeEpoch | ClockOutOfRange

text \<open>\<open>std::time::Duration\<close>: whole seconds (64 bits) and nanoseconds below one second.\<close>

record duration =
  as_secs :: nat
  subsec_nanos :: nat

definition wf_duration :: "duration \<Rightarrow> bool" where
  "wf_duration d \<longleftrightarrow> as_secs d < 2 ^ 64 \<and> subsec_nanos d < 1000000000"

definition as_millis :: "duration \<Rightarrow> nat" where
  "as_millis d = as_secs d * 1000 + subsec_nanos d div 1000000"

definition subsec_millis :: "duration \<Rightarrow> nat" where
  "subsec_millis d = subsec_nanos d div 1000000"

record ClockSnapshot =
  epoch_ms :: nat
  utc :: string

definition leap :: "nat \<Rightarrow> bool" where
  "leap year \<longleftrightarrow> 4 dvd year \<and> (\<not> 100 dvd year \<or> 400 dvd year)"

definition year_length :: "nat \<Rightarrow> nat" where
  "year_length year = (if leap year then 366 else 365)"

function year_loop :: "nat \<Rightarrow> nat \<Rightarrow> nat \<times> nat" where
  "year_loop days year =
     (if days < year_length year then (year, days)
      else year_loop (days - year_length year) (Suc year))"
  by pat_completeness auto
termination
  by (relation "measure fst") (auto simp: year_length_def)

declare year_loop.simps [simp del]

definition month_lengths :: "nat \<Rightarrow> nat list" where
  "month_lengths year =
     [31, if leap year then 29 else 28, 31, 30, 31, 30, 31, 31, 30, 31, 30, 31]"

fun month_loop :: "nat \<Rightarrow> nat list \<Rightarrow> nat \<Rightarrow> (nat \<times> nat) option" where
  "month_loop days [] month = None"
| "month_loop days (m # ms) month =
     (if m \<le> days then month_loop (days - m) ms (Suc month) else Some (month, days))"

definition format_utc :: "nat \<Rightarrow> nat \<Rightarrow> nat \<Rightarrow> nat \<Rightarrow> nat \<Rightarrow> string" where
  "format_utc year month days time ms =
     pad 4 year @ ''-'' @ pad 2 (month + 1) @ ''-'' @ pad 2 (days + 1) @ ''T'' @
     pad 2 (time div 3600) @ '':'' @ pad 2 (time div 60 mod 60) @ '':'' @ pad 2 (time mod 60) @
     ''.'' @ pad 3 ms @ ''Z''"

text \<open>A month index outside the table is a panic, here \<open>None\<close>; the outer result is the
  function's own.\<close>

definition from_epoch_duration :: "duration \<Rightarrow> (ClockError, ClockSnapshot) result option" where
  "from_epoch_duration d =
     (if 2 ^ 64 \<le> as_millis d then Some (Err ClockOutOfRange)
      else if 2932896 < as_secs d div 86400 then Some (Err ClockOutOfRange)
      else let (year, days) = year_loop (as_secs d div 86400) 1970 in
        if 9999 < year then Some (Err ClockOutOfRange)
        else (case month_loop days (month_lengths year) 0 of
                None \<Rightarrow> None
              | Some (month, days) \<Rightarrow>
                  Some (Ok \<lparr>epoch_ms = as_millis d,
                            utc = format_utc year month days (as_secs d mod 86400)
                                    (subsec_millis d)\<rparr>)))"

section \<open>The receipts' timestamp check\<close>

text \<open>The decimal value of the bytes \<open>start..end\<close>. The code folds in 16 bits; it only reads up to
  four bytes that are digits, see \<open>decimal_bound\<close>.\<close>

definition decimal :: "string \<Rightarrow> nat" where
  "decimal s = foldl (\<lambda>value byte. value * 10 + (of_char byte - 48)) 0 s"

definition number_at :: "string \<Rightarrow> nat \<Rightarrow> nat \<Rightarrow> nat" where
  "number_at bytes start stop = decimal (take (stop - start) (drop start bytes))"

definition timestamp_byte_ok :: "nat \<Rightarrow> char \<Rightarrow> bool" where
  "timestamp_byte_ok index byte =
     (if index = 4 \<or> index = 7 then byte = CHR ''-''
      else if index = 10 then byte = CHR ''T''
      else if index = 13 \<or> index = 16 then byte = CHR '':''
      else is_ascii_digit byte)"

definition days_in_month :: "nat \<Rightarrow> nat \<Rightarrow> nat" where
  "days_in_month year month =
     (if month \<in> {1, 3, 5, 7, 8, 10, 12} then 31
      else if month \<in> {4, 6, 9, 11} then 30
      else if month = 2 then
        (if 400 dvd year \<or> 4 dvd year \<and> \<not> 100 dvd year then 29 else 28)
      else 0)"

definition valid_timestamp :: "string \<Rightarrow> bool" where
  "valid_timestamp bytes =
     (if length bytes < 20 \<or> last bytes \<noteq> CHR ''Z'' then False
      else if \<not> list_all (\<lambda>i. timestamp_byte_ok i (bytes ! i)) [0..<19] then False
      else if length bytes \<noteq> 20 \<and>
          (bytes ! 19 \<noteq> CHR ''.'' \<or> length bytes < 22 \<or>
           \<not> list_all is_ascii_digit (take (length bytes - 1 - 20) (drop 20 bytes))) then False
      else let year = number_at bytes 0 4; month = number_at bytes 5 7; day = number_at bytes 8 10 in
        1 \<le> day \<and> day \<le> days_in_month year month \<and>
        number_at bytes 11 13 \<le> 23 \<and> number_at bytes 14 16 \<le> 59 \<and> number_at bytes 17 19 \<le> 59)"

section \<open>The civil date of a day number\<close>

text \<open>The number of days before 1 January of a year, in closed form, and the number of days
  from 1 January 1970 to a date: what the two loops invert.\<close>

definition days_before_year :: "nat \<Rightarrow> nat" where
  "days_before_year y = 365 * y + (y + 3) div 4 + (y + 399) div 400 - (y + 99) div 100"

definition days_before_month :: "nat \<Rightarrow> nat \<Rightarrow> nat" where
  "days_before_month y m = sum_list (take m (month_lengths y))"

definition day_number :: "nat \<Rightarrow> nat \<Rightarrow> nat \<Rightarrow> nat" where
  "day_number y m d = days_before_year y + days_before_month y m + d"

lemma ceil_div_Suc:
  fixes b :: nat
  assumes "0 < b"
  shows "Suc (y + (b - 1)) div b = (y + (b - 1)) div b + (if b dvd y then 1 else 0)"
proof -
  from assms have "Suc (y + (b - 1)) mod b = y mod b"
    by (simp add: Suc_diff_1)
  then show ?thesis
    by (simp add: div_Suc dvd_eq_mod_eq_0)
qed

lemma days_before_year_Suc: "days_before_year (Suc y) = days_before_year y + year_length y"
proof -
  define i j k where "i = (if 4 dvd y then 1 else 0 :: nat)"
    and "j = (if 100 dvd y then 1 else 0 :: nat)" and "k = (if 400 dvd y then 1 else 0 :: nat)"
  have step: "(Suc y + 3) div 4 = (y + 3) div 4 + i" "(Suc y + 99) div 100 = (y + 99) div 100 + j"
    "(Suc y + 399) div 400 = (y + 399) div 400 + k"
    using ceil_div_Suc [of 4 y] ceil_div_Suc [of 100 y] ceil_div_Suc [of 400 y]
    by (simp_all add: i_def j_def k_def)
  have dvd: "100 dvd y \<Longrightarrow> 4 dvd y" "400 dvd y \<Longrightarrow> 100 dvd y"
    using dvd_trans [of 4 100 y] dvd_trans [of 100 400 y] by auto
  have "(y + 99) div 100 \<le> (y + 3) div 4"
    by arith
  moreover have "j \<le> i"
    using dvd(1) by (simp add: i_def j_def)
  moreover have "365 * Suc y + (a + i) + (b + k) - (c + j) = 365 * y + a + b - c + (365 + (i - j) + k)"
    if "c \<le> a" "j \<le> i" for a b c
    using that by simp
  ultimately have "days_before_year (Suc y) = days_before_year y + (365 + (i - j) + k)"
    unfolding days_before_year_def step by blast
  moreover have bools: "365 + ((if P then 1 else 0) - (if Q then 1 else 0)) + (if R then 1 else 0) =
      (if P \<and> (\<not> Q \<or> R) then 366 else 365 :: nat)" if "Q \<Longrightarrow> P" "R \<Longrightarrow> Q" for P Q R
    using that by (cases P; cases Q; cases R) simp_all
  moreover have "365 + (i - j) + k = year_length y"
    using bools [of "100 dvd y" "4 dvd y" "400 dvd y", OF dvd]
    unfolding year_length_def leap_def i_def j_def k_def .
  ultimately show ?thesis by simp
qed

lemma days_before_year_mono: "y < y' \<Longrightarrow> days_before_year y + year_length y \<le> days_before_year y'"
proof (induction y')
  case (Suc y')
  then show ?case
    by (cases "y = y'") (auto simp: days_before_year_Suc)
qed simp

lemma sum_month_lengths: "sum_list (month_lengths y) = year_length y"
  by (simp add: month_lengths_def year_length_def)

lemma length_month_lengths [simp]: "length (month_lengths y) = 12"
  by (simp add: month_lengths_def)

lemma days_before_month_Suc:
  "m < 12 \<Longrightarrow> days_before_month y (Suc m) = days_before_month y m + month_lengths y ! m"
  by (simp add: days_before_month_def take_Suc_conv_app_nth)

lemma days_before_month_mono:
  "m < m' \<Longrightarrow> m' \<le> 12 \<Longrightarrow> days_before_month y m + month_lengths y ! m \<le> days_before_month y m'"
proof (induction m')
  case (Suc m')
  then show ?case
    by (cases "m = m'") (auto simp: days_before_month_Suc)
qed simp

lemma days_before_month_less:
  assumes "m < 12" and "r < month_lengths y ! m"
  shows "days_before_month y m + r < year_length y"
proof -
  have "days_before_month y m + month_lengths y ! m \<le> days_before_month y 12"
    using assms(1) by (intro days_before_month_mono) auto
  also have "\<dots> = year_length y"
    by (simp add: days_before_month_def sum_month_lengths)
  finally show ?thesis using assms(2) by simp
qed

lemma year_loop_spec:
  "year_loop days y0 = (y, r) \<Longrightarrow>
     days_before_year y0 + days = days_before_year y + r \<and> r < year_length y \<and> y0 \<le> y"
proof (induction days y0 rule: year_loop.induct)
  case (1 days y0)
  show ?case
  proof (cases "days < year_length y0")
    case True
    with "1.prems" show ?thesis
      by (simp add: year_loop.simps [of days y0])
  next
    case False
    with "1.prems" have "year_loop (days - year_length y0) (Suc y0) = (y, r)"
      by (simp add: year_loop.simps [of days y0])
    from "1.IH" [OF False this] False show ?thesis
      by (simp add: days_before_year_Suc)
  qed
qed

lemma month_loop_Some:
  "month_loop d ms k = Some (m, r) \<Longrightarrow>
     k \<le> m \<and> m < k + length ms \<and> d = sum_list (take (m - k) ms) + r \<and> r < ms ! (m - k)"
proof (induction d ms k rule: month_loop.induct)
  case (2 d n ms k)
  show ?case
  proof (cases "n \<le> d")
    case True
    with "2.prems" have "month_loop (d - n) ms (Suc k) = Some (m, r)"
      by simp
    note IH = "2.IH" [OF True this]
    then have "m - k = Suc (m - Suc k)" by auto
    with IH True show ?thesis by auto
  next
    case False
    with "2.prems" show ?thesis by simp
  qed
qed simp

lemma month_loop_total: "d < sum_list ms \<Longrightarrow> \<exists>m r. month_loop d ms k = Some (m, r)"
  by (induction d ms k rule: month_loop.induct) auto

text \<open>The two loops together: the date they compute has the day number they started from.\<close>

lemma civil_date:
  assumes "year_loop days 1970 = (y, q)"
  obtains m r where "month_loop q (month_lengths y) 0 = Some (m, r)" "m < 12"
    "r < month_lengths y ! m" "day_number y m r = days_before_year 1970 + days"
proof -
  from year_loop_spec [OF assms] have q: "q < year_length y"
    and sum: "days_before_year 1970 + days = days_before_year y + q" by auto
  from q obtain m r where ml: "month_loop q (month_lengths y) 0 = Some (m, r)"
    using month_loop_total sum_month_lengths by metis
  from month_loop_Some [OF ml] sum show ?thesis
    by (intro that [OF ml]) (auto simp: day_number_def days_before_month_def)
qed

lemma year_in_range:
  assumes "year_loop days 1970 = (y, q)" and "days \<le> 2932896"
  shows "1970 \<le> y" and "y \<le> 9999"
proof -
  note spec = year_loop_spec [OF assms(1)]
  from spec show "1970 \<le> y" by simp
  show "y \<le> 9999"
  proof (rule ccontr)
    assume "\<not> y \<le> 9999"
    then have "days_before_year 9999 + year_length 9999 \<le> days_before_year y"
      by (intro days_before_year_mono) simp
    moreover have "days_before_year 9999 + year_length 9999 = days_before_year 1970 + 2932897"
      by (simp add: days_before_year_def year_length_def leap_def)
    ultimately show False
      using spec assms(2) by linarith
  qed
qed

lemma no_millis_overflow: "wf_duration d \<Longrightarrow> as_secs d div 86400 \<le> 2932896 \<Longrightarrow> as_millis d < 2 ^ 64"
  by (auto simp: wf_duration_def as_millis_def)

text \<open>The civil date fields the clock prints for a duration in range.\<close>

lemma from_epoch_duration_fields:
  assumes "wf_duration d" and "as_secs d div 86400 \<le> 2932896"
  obtains y m r where
    "from_epoch_duration d = Some (Ok \<lparr>epoch_ms = as_millis d,
       utc = format_utc y m r (as_secs d mod 86400) (subsec_millis d)\<rparr>)"
    "1970 \<le> y" "y \<le> 9999" "m < 12" "r < month_lengths y ! m"
    "day_number y m r = days_before_year 1970 + as_secs d div 86400"
proof -
  obtain y q where loop: "year_loop (as_secs d div 86400) 1970 = (y, q)"
    by (cases "year_loop (as_secs d div 86400) 1970")
  obtain m r where ml: "month_loop q (month_lengths y) 0 = Some (m, r)"
    and rest: "m < 12" "r < month_lengths y ! m"
      "day_number y m r = days_before_year 1970 + as_secs d div 86400"
    using civil_date [OF loop] .
  show ?thesis
    using no_millis_overflow [OF assms] assms(2) year_in_range [OF loop assms(2)] loop ml rest
    by (intro that [of y m r]) (simp_all add: from_epoch_duration_def)
qed

section \<open>The printed timestamp\<close>

lemma decimal_snoc [simp]: "n < 10 \<Longrightarrow> decimal (s @ [digit_char n]) = decimal s * 10 + n"
  by (simp add: decimal_def)

lemma decimal_bound: "list_all is_ascii_digit s \<Longrightarrow> decimal s < 10 ^ length s"
proof (induction s rule: rev_induct)
  case (snoc c s)
  then have "decimal s < 10 ^ length s" and "of_char c - 48 < (10 :: nat)"
    by (auto simp: is_ascii_digit_def)
  moreover have "decimal (s @ [c]) = decimal s * 10 + (of_char c - 48)"
    by (simp add: decimal_def)
  ultimately show ?case by simp
qed (simp add: decimal_def)

lemma decimal_pad: "0 < w \<Longrightarrow> n < 10 ^ w \<Longrightarrow> decimal (pad w n) = n"
proof (induction w arbitrary: n)
  case (Suc w)
  show ?case
  proof (cases "w = 0")
    case True
    with Suc.prems show ?thesis
      by (simp add: pad_1 decimal_def)
  next
    case False
    with Suc have "decimal (pad w (n div 10)) = n div 10"
      by (simp add: div_less_iff_less_mult mult.commute)
    with False show ?thesis
      by (simp add: pad_Suc)
  qed
qed simp

lemma month_length_eq: "m < 12 \<Longrightarrow> month_lengths y ! m = days_in_month y (Suc m)"
proof -
  assume "m < 12"
  then have "m \<in> {0, 1, 2, 3, 4, 5, 6, 7, 8, 9, 10, 11}"
    unfolding insert_iff empty_iff by arith
  moreover have "leap y \<longleftrightarrow> 400 dvd y \<or> 4 dvd y \<and> \<not> 100 dvd y"
    using dvd_trans [of 4 400 y] by (auto simp: leap_def)
  ultimately show ?thesis
    by (auto simp: month_lengths_def days_in_month_def)
qed

lemma days_in_month_le: "days_in_month y m \<le> 31"
  by (simp add: days_in_month_def)

lemma time_bounds:
  "t < 86400 \<Longrightarrow> t div 3600 \<le> 23" "t div 60 mod 60 \<le> 59" "t mod 60 \<le> (59 :: nat)"
  using mod_less_divisor [of 60 t] mod_less_divisor [of 60 "t div 60"] by simp_all

lemma time_bounds_100:
  "t < 86400 \<Longrightarrow> t div 3600 < 100" "t div 60 mod 60 < 100" "t mod 60 < (100 :: nat)"
  using mod_less_divisor [of 60 t] mod_less_divisor [of 60 "t div 60"] by simp_all

lemma format_utc_bytes:
  assumes "y < 10000" and "m < 12" and "r < 31" and "t < 86400" and "ms < 1000"
  shows "format_utc y m r t ms =
    [digit_char (y div 1000), digit_char (y div 100 mod 10), digit_char (y div 10 mod 10),
     digit_char (y mod 10), CHR ''-'', digit_char ((m + 1) div 10), digit_char ((m + 1) mod 10),
     CHR ''-'', digit_char ((r + 1) div 10), digit_char ((r + 1) mod 10), CHR ''T'',
     digit_char (t div 3600 div 10), digit_char (t div 3600 mod 10), CHR '':'',
     digit_char (t div 60 mod 60 div 10), digit_char (t div 60 mod 60 mod 10), CHR '':'',
     digit_char (t mod 60 div 10), digit_char (t mod 60 mod 10), CHR ''.'',
     digit_char (ms div 100), digit_char (ms div 10 mod 10), digit_char (ms mod 10), CHR ''Z'']"
proof -
  note time_bounds_100(1) [OF assms(4)] time_bounds_100(2,3) [of t]
  with assms show ?thesis
    by (simp only: format_utc_def pad_2 pad_3 pad_4) (simp add: pad_2)
qed

text \<open>The receipts accept what the clock prints.\<close>

lemma number_at_append [simp]:
  "number_at (a @ b @ c) (length a) (length a + length b) = decimal b"
  by (simp add: number_at_def)

lemma format_utc_numbers:
  assumes "y < 10000" and "m < 12" and "r < 31" and "t < 86400" and "ms < 1000"
  shows "number_at (format_utc y m r t ms) 0 4 = y"
    and "number_at (format_utc y m r t ms) 5 7 = Suc m"
    and "number_at (format_utc y m r t ms) 8 10 = Suc r"
    and "number_at (format_utc y m r t ms) 11 13 = t div 3600"
    and "number_at (format_utc y m r t ms) 14 16 = t div 60 mod 60"
    and "number_at (format_utc y m r t ms) 17 19 = t mod 60"
proof -
  note t = time_bounds_100(1) [OF assms(4)] time_bounds_100(2,3) [of t]
  note len = length_pad [of 4 y] length_pad [of 2 "Suc m"] length_pad [of 2 "Suc r"]
    length_pad [of 2 "t div 3600"] length_pad [of 2 "t div 60 mod 60"] length_pad [of 2 "t mod 60"]
  show "number_at (format_utc y m r t ms) 0 4 = y"
    and "number_at (format_utc y m r t ms) 5 7 = Suc m"
    and "number_at (format_utc y m r t ms) 8 10 = Suc r"
    and "number_at (format_utc y m r t ms) 11 13 = t div 3600"
    and "number_at (format_utc y m r t ms) 14 16 = t div 60 mod 60"
    and "number_at (format_utc y m r t ms) 17 19 = t mod 60"
    using len assms t decimal_pad [of 4 y] decimal_pad [of 2 "Suc m"] decimal_pad [of 2 "Suc r"]
      decimal_pad [of 2 "t div 3600"] decimal_pad [of 2 "t div 60 mod 60"]
      decimal_pad [of 2 "t mod 60"]
    by (simp_all add: number_at_def format_utc_def)
qed

lemma timestamp_shape:
  assumes "list_all (\<lambda>d. d < 10) [y1, y2, y3, y4, o1, o2, d1, d2, h1, h2, m1, m2, s1, s2]"
  shows "list_all (\<lambda>i. timestamp_byte_ok i
    ((digit_char y1 # digit_char y2 # digit_char y3 # digit_char y4 # CHR ''-'' #
      digit_char o1 # digit_char o2 # CHR ''-'' # digit_char d1 # digit_char d2 # CHR ''T'' #
      digit_char h1 # digit_char h2 # CHR '':'' # digit_char m1 # digit_char m2 # CHR '':'' #
      digit_char s1 # digit_char s2 # rest) ! i)) [0..<19]"
proof -
  have "[0..<19] = [0, 1, 2, 3, 4, 5, 6, 7, 8, 9, 10, 11, 12, 13, 14, 15, 16, 17, 18 :: nat]"
    by code_simp
  with assms show ?thesis
    by (simp add: timestamp_byte_ok_def)
qed

lemma valid_timestamp_format_utc:
  assumes "y < 10000" and "m < 12" and "r < month_lengths y ! m" and "t < 86400" and "ms < 1000"
  shows "valid_timestamp (format_utc y m r t ms)"
proof -
  have r: "Suc r \<le> days_in_month y (Suc m)"
    using assms by (simp add: month_length_eq)
  then have r31: "r < 31"
    using days_in_month_le [of y "Suc m"] by simp
  note bytes = format_utc_bytes [OF assms(1,2) r31 assms(4,5)]
  note numbers = format_utc_numbers [OF assms(1,2) r31 assms(4,5)]
  have len: "length (format_utc y m r t ms) = 24" "last (format_utc y m r t ms) = CHR ''Z''"
    by (simp_all add: bytes)
  have digits: "(y div 1000) < 10" "(m + 1) div 10 < 10" "(r + 1) div 10 < 10" "ms div 100 < 10"
      "t div 3600 div 10 < 10" "t div 60 mod 60 div 10 < 10" "t mod 60 div 10 < 10"
    using assms r31 by simp_all
  have "list_all (\<lambda>i. timestamp_byte_ok i (format_utc y m r t ms ! i)) [0..<19]"
    unfolding bytes by (rule timestamp_shape) (use digits in simp)
  moreover have "format_utc y m r t ms ! 19 = CHR ''.''"
    "list_all is_ascii_digit (take 3 (drop 20 (format_utc y m r t ms)))"
    using digits(4) unfolding bytes by simp_all
  ultimately show ?thesis
    using r len numbers time_bounds [of t] assms(4) by (simp add: valid_timestamp_def Let_def)
qed

lemma pad_block_less:
  assumes "0 < w" and "m < 10 ^ w" and "n < 10 ^ w"
  shows "pad w m @ x < pad w n @ y \<longleftrightarrow> m < n \<or> m = n \<and> x < y"
proof -
  have "length (pad w m) = length (pad w n)"
    using assms by (simp add: length_pad)
  moreover have "pad w m = pad w n \<longleftrightarrow> m = n"
    using decimal_pad [OF assms(1,2)] decimal_pad [OF assms(1,3)] by metis
  ultimately show ?thesis
    using less_append_iff [of "pad w m" "pad w n" x y] pad_less_iff [OF assms] by simp
qed

lemma time_of_day_less:
  "t < t' \<longleftrightarrow> t div 3600 < t' div 3600 \<or> t div 3600 = t' div 3600 \<and>
     (t div 60 mod 60 < t' div 60 mod 60 \<or> t div 60 mod 60 = t' div 60 mod 60 \<and>
        t mod 60 < (t' mod 60 :: nat))"
proof -
  define q q' where "q = t div 60" and "q' = t' div 60"
  have h: "t div 3600 = q div 60" "t' div 3600 = q' div 60"
    unfolding q_def q'_def by (simp_all add: div_mult2_eq [symmetric])
  have "q = q' \<longleftrightarrow> q div 60 = q' div 60 \<and> q mod 60 = q' mod 60"
    by (metis div_mult_mod_eq)
  then show ?thesis
    using div_mod_less_iff [of 60 t t'] div_mod_less_iff [of 60 q q']
    unfolding h q_def [symmetric] q'_def [symmetric] by auto
qed

lemma padded_fields_less:
  assumes "y < 10000" "y' < 10000" "m < 100" "m' < 100" "r < 100" "r' < 100" "h < 100" "h' < 100"
    "i < 100" "i' < 100" "s < 100" "s' < 100" "ms < 1000" "ms' < 1000"
  shows "pad 4 y @ ''-'' @ pad 2 m @ ''-'' @ pad 2 r @ ''T'' @ pad 2 h @ '':'' @ pad 2 i @ '':'' @
      pad 2 s @ ''.'' @ pad 3 ms @ ''Z'' <
    pad 4 y' @ ''-'' @ pad 2 m' @ ''-'' @ pad 2 r' @ ''T'' @ pad 2 h' @ '':'' @ pad 2 i' @ '':'' @
      pad 2 s' @ ''.'' @ pad 3 ms' @ ''Z'' \<longleftrightarrow>
    y < y' \<or> y = y' \<and> (m < m' \<or> m = m' \<and> (r < r' \<or> r = r' \<and> (h < h' \<or> h = h' \<and>
      (i < i' \<or> i = i' \<and> (s < s' \<or> s = s' \<and> ms < ms')))))"
  using assms by (simp add: pad_block_less)

text \<open>Fixed-width fields, most significant first: the strings are ordered as the fields are.\<close>

lemma format_utc_less:
  assumes "y < 10000" "m < 12" "r < 31" "t < 86400" "ms < 1000"
    and "y' < 10000" "m' < 12" "r' < 31" "t' < 86400" "ms' < 1000"
  shows "format_utc y m r t ms < format_utc y' m' r' t' ms' \<longleftrightarrow>
    y < y' \<or> y = y' \<and> (m < m' \<or> m = m' \<and> (r < r' \<or> r = r' \<and> (t < t' \<or> t = t' \<and> ms < ms')))"
proof -
  note b = time_bounds_100(1) [OF assms(4)] time_bounds_100(1) [OF assms(9)]
    time_bounds_100(2,3) [of t] time_bounds_100(2,3) [of t']
  have eq: "t = t'" if "t div 3600 = t' div 3600" "t div 60 mod 60 = t' div 60 mod 60"
      "t mod 60 = t' mod 60"
  proof -
    from that have "\<not> t < t'" "\<not> t' < t"
      by (simp_all only: time_of_day_less [of t t'] time_of_day_less [of t' t]) simp_all
    then show ?thesis by simp
  qed
  have small: "m + 1 < 100" "m' + 1 < 100" "r + 1 < 100" "r' + 1 < 100"
    using assms by simp_all
  have "format_utc y m r t ms < format_utc y' m' r' t' ms' \<longleftrightarrow>
      y < y' \<or> y = y' \<and> (m + 1 < m' + 1 \<or> m + 1 = m' + 1 \<and> (r + 1 < r' + 1 \<or> r + 1 = r' + 1 \<and>
        (t div 3600 < t' div 3600 \<or> t div 3600 = t' div 3600 \<and>
        (t div 60 mod 60 < t' div 60 mod 60 \<or> t div 60 mod 60 = t' div 60 mod 60 \<and>
        (t mod 60 < t' mod 60 \<or> t mod 60 = t' mod 60 \<and> ms < ms')))))"
    unfolding format_utc_def by (intro padded_fields_less assms small b)
  then show ?thesis
    using eq time_of_day_less [of t t'] by auto
qed

lemma day_number_strict:
  assumes "y < y' \<or> y = y' \<and> (m < m' \<or> m = m' \<and> r < r')"
    and "m < 12" "r < month_lengths y ! m" "m' < 12"
  shows "day_number y m r < day_number y' m' r'"
  using assms(1)
proof (elim disjE conjE)
  assume "y < y'"
  then have "days_before_year y + year_length y \<le> days_before_year y'"
    by (rule days_before_year_mono)
  with days_before_month_less [OF assms(2,3)] show ?thesis
    by (simp add: day_number_def)
next
  assume "y = y'" "m < m'"
  moreover from this have "days_before_month y m + month_lengths y ! m \<le> days_before_month y m'"
    using assms by (intro days_before_month_mono) auto
  ultimately show ?thesis
    using assms(3) by (simp add: day_number_def)
qed (simp add: day_number_def)

lemma day_number_less_iff:
  assumes "m < 12" "r < month_lengths y ! m" "m' < 12" "r' < month_lengths y' ! m'"
  shows "day_number y m r < day_number y' m' r' \<longleftrightarrow>
    y < y' \<or> y = y' \<and> (m < m' \<or> m = m' \<and> r < r')"
  using day_number_strict [of y y' m m' r r'] day_number_strict [of y' y m' m r' r] assms
  by (metis linorder_neqE_nat less_asym')

lemma day_number_inj:
  assumes "m < 12" "r < month_lengths y ! m" "m' < 12" "r' < month_lengths y' ! m'"
    and "day_number y m r = day_number y' m' r'"
  shows "y = y' \<and> m = m' \<and> r = r'"
  using day_number_less_iff [of m r y m' r' y'] day_number_less_iff [of m' r' y' m r y] assms
  by (metis less_irrefl linorder_neqE_nat)

lemma month_length_31: "m < 12 \<Longrightarrow> r < month_lengths y ! m \<Longrightarrow> r < 31"
  using days_in_month_le [of y "Suc m"] by (simp add: month_length_eq)

lemma subsec_millis_less: "wf_duration d \<Longrightarrow> subsec_millis d < 1000"
  by (auto simp: wf_duration_def subsec_millis_def)

lemma as_millis_less_iff:
  assumes "wf_duration d" and "wf_duration d'"
  shows "as_millis d < as_millis d' \<longleftrightarrow>
    as_secs d < as_secs d' \<or> as_secs d = as_secs d' \<and> subsec_millis d < subsec_millis d'"
  using radix_less_iff [of "subsec_millis d" 1000 "subsec_millis d'" "as_secs d" "as_secs d'"]
    subsec_millis_less [OF assms(1)] subsec_millis_less [OF assms(2)]
  by (simp add: as_millis_def subsec_millis_def)

lemma clock_utc_fields:
  assumes "wf_duration d" and "as_secs d div 86400 \<le> 2932896"
    and "from_epoch_duration d = Some (Ok s)"
  obtains y m r where "utc s = format_utc y m r (as_secs d mod 86400) (subsec_millis d)"
    "y \<le> 9999" "m < 12" "r < month_lengths y ! m"
    "day_number y m r = days_before_year 1970 + as_secs d div 86400"
proof (rule from_epoch_duration_fields [OF assms(1,2)])
  fix y m r
  assume "from_epoch_duration d = Some (Ok \<lparr>epoch_ms = as_millis d,
      utc = format_utc y m r (as_secs d mod 86400) (subsec_millis d)\<rparr>)"
    and "y \<le> 9999" "m < 12" "r < month_lengths y ! m"
    "day_number y m r = days_before_year 1970 + as_secs d div 86400"
  with assms(3) show ?thesis
    by (intro that [of y m r]) auto
qed

lemma clock_strict:
  assumes d: "wf_duration d" "as_secs d div 86400 \<le> 2932896"
    and d': "wf_duration d'" "as_secs d' div 86400 \<le> 2932896"
    and s: "from_epoch_duration d = Some (Ok s)" and s': "from_epoch_duration d' = Some (Ok s')"
    and less: "as_millis d < as_millis d'"
  shows "utc s < utc s'"
proof -
  let ?D = "as_secs d div 86400" and ?t = "as_secs d mod 86400" and ?ms = "subsec_millis d"
  let ?D' = "as_secs d' div 86400" and ?t' = "as_secs d' mod 86400" and ?ms' = "subsec_millis d'"
  obtain y m r where f: "utc s = format_utc y m r ?t ?ms" "y \<le> 9999" "m < 12"
      "r < month_lengths y ! m" "day_number y m r = days_before_year 1970 + ?D"
    using clock_utc_fields [OF d s] .
  obtain y' m' r' where f': "utc s' = format_utc y' m' r' ?t' ?ms'" "y' \<le> 9999" "m' < 12"
      "r' < month_lengths y' ! m'" "day_number y' m' r' = days_before_year 1970 + ?D'"
    using clock_utc_fields [OF d' s'] .
  have eq: "?D = ?D' \<Longrightarrow> y = y' \<and> m = m' \<and> r = r'"
    using f f' by (intro day_number_inj) auto
  from less have "?D < ?D' \<or> ?D = ?D' \<and> (?t < ?t' \<or> ?t = ?t' \<and> ?ms < ?ms')"
    using as_millis_less_iff [OF d(1) d'(1)] div_mod_less_iff [of 86400 "as_secs d" "as_secs d'"]
    by (metis div_mult_mod_eq zero_less_numeral)
  then show ?thesis
    using f f' eq day_number_less_iff [of m r y m' r' y'] month_length_31 [of m r y]
      month_length_31 [of m' r' y'] subsec_millis_less [OF d(1)] subsec_millis_less [OF d'(1)]
    by (auto simp: format_utc_less)
qed

section \<open>Properties\<close>

text \<open>C33: for every duration up to the end of the year 9999 the clock returns (no panic, no
  error), its milliseconds are the duration's, and the string it prints is \<open>format_utc\<close> of the
  civil date whose day number is the duration's day, at the duration's second and millisecond of
  the day; and the receipts accept that string.\<close>

theorem clock_prints_civil_date:
  assumes "wf_duration d" and "as_secs d div 86400 \<le> 2932896"
  shows "\<exists>y m r. from_epoch_duration d = Some (Ok \<lparr>epoch_ms = as_millis d,
       utc = format_utc y m r (as_secs d mod 86400) (subsec_millis d)\<rparr>) \<and>
     1970 \<le> y \<and> y \<le> 9999 \<and> m < 12 \<and> r < days_in_month y (Suc m) \<and>
     day_number y m r = day_number 1970 0 0 + as_secs d div 86400 \<and>
     valid_timestamp (format_utc y m r (as_secs d mod 86400) (subsec_millis d))"
proof -
  obtain y m r where *: "from_epoch_duration d = Some (Ok \<lparr>epoch_ms = as_millis d,
       utc = format_utc y m r (as_secs d mod 86400) (subsec_millis d)\<rparr>)"
    "1970 \<le> y" "y \<le> 9999" "m < 12" "r < month_lengths y ! m"
    "day_number y m r = days_before_year 1970 + as_secs d div 86400"
    using from_epoch_duration_fields [OF assms] .
  moreover have "valid_timestamp (format_utc y m r (as_secs d mod 86400) (subsec_millis d))"
    using * subsec_millis_less [OF assms(1)] by (intro valid_timestamp_format_utc) auto
  ultimately show ?thesis
    by (intro exI [of _ y] exI [of _ m] exI [of _ r])
      (simp add: month_length_eq day_number_def [of 1970] days_before_month_def)
qed

theorem clock_prints_civil_date_witness:
  "\<exists>y m r. from_epoch_duration \<lparr>as_secs = 1700000000, subsec_nanos = 5000000\<rparr> =
       Some (Ok \<lparr>epoch_ms = 1700000000005, utc = format_utc y m r 80000 5\<rparr>) \<and>
     day_number y m r = day_number 1970 0 0 + 19675"
  using clock_prints_civil_date [of "\<lparr>as_secs = 1700000000, subsec_nanos = 5000000\<rparr>"]
  by (auto simp: wf_duration_def as_millis_def subsec_millis_def)

text \<open>The printed strings are ordered as the times are: of two durations in range, one prints
  a lexicographically smaller string exactly if it has fewer milliseconds. A receipt that compares
  its timestamps as strings therefore orders them as the clock does.\<close>

lemma clock_order:
  assumes "wf_duration d" and "as_secs d div 86400 \<le> 2932896"
    and "wf_duration d'" and "as_secs d' div 86400 \<le> 2932896"
    and "from_epoch_duration d = Some (Ok s)" and "from_epoch_duration d' = Some (Ok s')"
  shows "utc s < utc s' \<longleftrightarrow> as_millis d < as_millis d'"
proof (cases "as_millis d" "as_millis d'" rule: linorder_cases)
  case less
  with assms show ?thesis using clock_strict by blast
next
  case equal
  then have "as_secs d = as_secs d'" "subsec_millis d = subsec_millis d'"
    using as_millis_less_iff [OF assms(1,3)] as_millis_less_iff [OF assms(3,1)] by auto
  then have "from_epoch_duration d = from_epoch_duration d'"
    using equal by (simp only: from_epoch_duration_def)
  with assms equal show ?thesis by simp
next
  case greater
  then have "utc s' < utc s"
    using clock_strict assms by blast
  with greater show ?thesis by auto
qed

end
