(* ===== verification/Receipt_Types.thy ===== *)
theory Receipt_Types
  imports Clock
begin

text \<open>
  The vocabulary of the durable operation receipts of \<open>src/native/src/operation_store.rs\<close>: the
  error type, the limits, the identifier checks every receipt family applies, and the closed
  inventory of generic OBS requests that may be journaled (\<open>GenericKind\<close>) with its two policy
  classes. SHA-256 is a parameter wherever it is used.
\<close>

section \<open>Errors and limits\<close>

datatype StoreError =
    InvalidIdentifier | InvalidTimestamp | InvalidReceipt | UnsafePath | Missing | Corrupt
  | ReceiptTooLarge | InventoryLimit | EndpointMismatch | Conflict | IdentityExhausted
  | Unavailable | DurabilityUncertain

definition MAX_RECEIPT_BYTES :: nat where
  "MAX_RECEIPT_BYTES = 16384"

definition MAX_RECEIPTS :: nat where
  "MAX_RECEIPTS = 1024"

definition DISPLAY_RECEIPTS :: nat where
  "DISPLAY_RECEIPTS = 64"

definition MAX_SAFE_INTEGER :: u64 where
  "MAX_SAFE_INTEGER = 9007199254740991"

section \<open>Identifier checks\<close>

definition valid_hash :: "string \<Rightarrow> bool" where
  "valid_hash v \<longleftrightarrow> length v = 64 \<and>
     list_all (\<lambda>b. is_ascii_digit b \<or> 97 \<le> (of_char b :: nat) \<and> (of_char b :: nat) \<le> 102) v"

definition bounded_identity :: "string \<Rightarrow> bool" where
  "bounded_identity v \<longleftrightarrow> 1 \<le> utf16_count v \<and> utf16_count v \<le> 256"

definition nil_uuid :: string where
  "nil_uuid = ''00000000-0000-0000-0000-000000000000''"

definition max_uuid :: string where
  "max_uuid = ''ffffffff-ffff-ffff-ffff-ffffffffffff''"

definition valid_uuid :: "string \<Rightarrow> bool" where
  "valid_uuid v \<longleftrightarrow> v = nil_uuid \<or> v = max_uuid \<or>
     length v = 36 \<and>
     list_all (\<lambda>(i, b). if i \<in> {8, 13, 18, 23} then b = CHR ''-'' else is_ascii_hexdigit b)
       (enumerate 0 v) \<and>
     49 \<le> (of_char (v ! 14) :: nat) \<and> (of_char (v ! 14) :: nat) \<le> 56 \<and>
     v ! 19 \<in> {CHR ''8'', CHR ''9'', CHR ''a'', CHR ''b'', CHR ''A'', CHR ''B''}"

text \<open>The order of the inventory: by lower-cased identifier, then by the case of the first
  byte that differs, lower case before upper case.\<close>

datatype ordering = Less | Equal | Greater

definition cmp_of :: "'a::linorder \<Rightarrow> 'a \<Rightarrow> ordering" where
  "cmp_of a b = (if a < b then Less else if a = b then Equal else Greater)"

definition then_with :: "ordering \<Rightarrow> ordering \<Rightarrow> ordering" where
  "then_with a b = (if a = Equal then b else a)"

fun first_case_difference :: "string \<Rightarrow> string \<Rightarrow> ordering" where
  "first_case_difference (a # as) (b # bs) =
     (if a \<noteq> b then cmp_of (is_ascii_uppercase a) (is_ascii_uppercase b)
      else first_case_difference as bs)"
| "first_case_difference _ _ = Equal"

definition uuid_collation :: "string \<Rightarrow> string \<Rightarrow> ordering" where
  "uuid_collation a b =
     then_with (cmp_of (to_ascii_lowercase a) (to_ascii_lowercase b)) (first_case_difference a b)"

section \<open>The closed inventory of journaled requests\<close>

datatype (plugins only: code) GenericKind =
    OpaqueRequest | OpaqueBatch | VendorRequest | HotkeyName | HotkeySequence |
    ManualRecordStart | ManualRecordToggle | NamedOutputStart | NamedOutputStop |
    NamedOutputToggle | ManualRecordStop | StreamStart | VirtualCamStart | ReplayBufferStart |
    StreamToggle | VirtualCamToggle | ReplayBufferToggle | StreamStop | VirtualCamStop |
    ReplayBufferStop | StudioModeEnabled | InputPropertiesDialog | InputFiltersDialog |
    InputInteractDialog | VideoMixProjector | SourceProjector | RecordPause | RecordResume |
    RecordPauseToggle | RecordFileSplit | RecordChapter | BroadcastCustomEvent |
    CurrentSceneTransitionSettings | CreateSourceFilter | SourceFilterSettings |
    InputPropertiesButton | SaveSourceScreenshot | CreateInput | InputSettings |
    SceneItemTransform | PersistentData | CurrentSceneCollection | CreateSceneCollection |
    CurrentProfile | CreateProfile | RemoveProfile | StreamServiceSettings | RecordDirectory |
    OutputSettings | VideoSettings | ProfileParameter | MediaInputCursor |
    MediaInputCursorOffset | MediaInputAction | InputAudioTracks | InputMuteToggle |
    InputVolume | StreamCaption | SaveReplayBuffer | CreateScene | RemoveScene |
    RemoveSceneItem | RemoveSourceFilter | SourceFilterName | SourceFilterIndex | RemoveInput |
    InputName | DuplicateSceneItem | SceneName | CreateSceneItem | SceneItemEnabled |
    CurrentProgramScene | CurrentPreviewScene | TriggerStudioModeTransition |
    CurrentSceneTransition | SceneSceneTransitionOverride | TBarPosition |
    CurrentSceneTransitionDuration | InputMute | InputAudioBalance | InputAudioSyncOffset |
    InputAudioMonitorType | InputDeinterlaceFieldOrder | InputDeinterlaceMode | SceneItemIndex |
    SceneItemLocked | SceneItemBlendMode | SourceFilterEnabled

primrec request_type :: "GenericKind \<Rightarrow> string" where
  "request_type OpaqueRequest = ''OpaqueRequest''"
| "request_type OpaqueBatch = ''RequestBatch''"
| "request_type VendorRequest = ''CallVendorRequest''"
| "request_type HotkeyName = ''TriggerHotkeyByName''"
| "request_type HotkeySequence = ''TriggerHotkeyByKeySequence''"
| "request_type ManualRecordStart = ''StartRecord''"
| "request_type ManualRecordToggle = ''ToggleRecord''"
| "request_type NamedOutputStart = ''StartOutput''"
| "request_type NamedOutputStop = ''StopOutput''"
| "request_type NamedOutputToggle = ''ToggleOutput''"
| "request_type ManualRecordStop = ''StopRecord''"
| "request_type StreamStart = ''StartStream''"
| "request_type VirtualCamStart = ''StartVirtualCam''"
| "request_type ReplayBufferStart = ''StartReplayBuffer''"
| "request_type StreamToggle = ''ToggleStream''"
| "request_type VirtualCamToggle = ''ToggleVirtualCam''"
| "request_type ReplayBufferToggle = ''ToggleReplayBuffer''"
| "request_type StreamStop = ''StopStream''"
| "request_type VirtualCamStop = ''StopVirtualCam''"
| "request_type ReplayBufferStop = ''StopReplayBuffer''"
| "request_type StudioModeEnabled = ''SetStudioModeEnabled''"
| "request_type InputPropertiesDialog = ''OpenInputPropertiesDialog''"
| "request_type InputFiltersDialog = ''OpenInputFiltersDialog''"
| "request_type InputInteractDialog = ''OpenInputInteractDialog''"
| "request_type VideoMixProjector = ''OpenVideoMixProjector''"
| "request_type SourceProjector = ''OpenSourceProjector''"
| "request_type RecordPause = ''PauseRecord''"
| "request_type RecordResume = ''ResumeRecord''"
| "request_type RecordPauseToggle = ''ToggleRecordPause''"
| "request_type RecordFileSplit = ''SplitRecordFile''"
| "request_type RecordChapter = ''CreateRecordChapter''"
| "request_type BroadcastCustomEvent = ''BroadcastCustomEvent''"
| "request_type CurrentSceneTransitionSettings = ''SetCurrentSceneTransitionSettings''"
| "request_type CreateSourceFilter = ''CreateSourceFilter''"
| "request_type SourceFilterSettings = ''SetSourceFilterSettings''"
| "request_type InputPropertiesButton = ''PressInputPropertiesButton''"
| "request_type SaveSourceScreenshot = ''SaveSourceScreenshot''"
| "request_type CreateInput = ''CreateInput''"
| "request_type InputSettings = ''SetInputSettings''"
| "request_type SceneItemTransform = ''SetSceneItemTransform''"
| "request_type PersistentData = ''SetPersistentData''"
| "request_type CurrentSceneCollection = ''SetCurrentSceneCollection''"
| "request_type CreateSceneCollection = ''CreateSceneCollection''"
| "request_type CurrentProfile = ''SetCurrentProfile''"
| "request_type CreateProfile = ''CreateProfile''"
| "request_type RemoveProfile = ''RemoveProfile''"
| "request_type StreamServiceSettings = ''SetStreamServiceSettings''"
| "request_type RecordDirectory = ''SetRecordDirectory''"
| "request_type OutputSettings = ''SetOutputSettings''"
| "request_type VideoSettings = ''SetVideoSettings''"
| "request_type ProfileParameter = ''SetProfileParameter''"
| "request_type MediaInputCursor = ''SetMediaInputCursor''"
| "request_type MediaInputCursorOffset = ''OffsetMediaInputCursor''"
| "request_type MediaInputAction = ''TriggerMediaInputAction''"
| "request_type InputAudioTracks = ''SetInputAudioTracks''"
| "request_type InputMuteToggle = ''ToggleInputMute''"
| "request_type InputVolume = ''SetInputVolume''"
| "request_type StreamCaption = ''SendStreamCaption''"
| "request_type SaveReplayBuffer = ''SaveReplayBuffer''"
| "request_type CreateScene = ''CreateScene''"
| "request_type RemoveScene = ''RemoveScene''"
| "request_type RemoveSceneItem = ''RemoveSceneItem''"
| "request_type RemoveSourceFilter = ''RemoveSourceFilter''"
| "request_type SourceFilterName = ''SetSourceFilterName''"
| "request_type SourceFilterIndex = ''SetSourceFilterIndex''"
| "request_type RemoveInput = ''RemoveInput''"
| "request_type InputName = ''SetInputName''"
| "request_type DuplicateSceneItem = ''DuplicateSceneItem''"
| "request_type SceneName = ''SetSceneName''"
| "request_type CreateSceneItem = ''CreateSceneItem''"
| "request_type SceneItemEnabled = ''SetSceneItemEnabled''"
| "request_type CurrentProgramScene = ''SetCurrentProgramScene''"
| "request_type CurrentPreviewScene = ''SetCurrentPreviewScene''"
| "request_type TriggerStudioModeTransition = ''TriggerStudioModeTransition''"
| "request_type CurrentSceneTransition = ''SetCurrentSceneTransition''"
| "request_type SceneSceneTransitionOverride = ''SetSceneSceneTransitionOverride''"
| "request_type TBarPosition = ''SetTBarPosition''"
| "request_type CurrentSceneTransitionDuration = ''SetCurrentSceneTransitionDuration''"
| "request_type InputMute = ''SetInputMute''"
| "request_type InputAudioBalance = ''SetInputAudioBalance''"
| "request_type InputAudioSyncOffset = ''SetInputAudioSyncOffset''"
| "request_type InputAudioMonitorType = ''SetInputAudioMonitorType''"
| "request_type InputDeinterlaceFieldOrder = ''SetInputDeinterlaceFieldOrder''"
| "request_type InputDeinterlaceMode = ''SetInputDeinterlaceMode''"
| "request_type SceneItemIndex = ''SetSceneItemIndex''"
| "request_type SceneItemLocked = ''SetSceneItemLocked''"
| "request_type SceneItemBlendMode = ''SetSceneItemBlendMode''"
| "request_type SourceFilterEnabled = ''SetSourceFilterEnabled''"

definition all_generic_kinds :: "GenericKind list" where
  "all_generic_kinds =
     [OpaqueRequest, OpaqueBatch, VendorRequest, HotkeyName, HotkeySequence, ManualRecordStart,
     ManualRecordToggle, NamedOutputStart, NamedOutputStop, NamedOutputToggle, ManualRecordStop,
     StreamStart, VirtualCamStart, ReplayBufferStart, StreamToggle, VirtualCamToggle,
     ReplayBufferToggle, StreamStop, VirtualCamStop, ReplayBufferStop, StudioModeEnabled,
     InputPropertiesDialog, InputFiltersDialog, InputInteractDialog, VideoMixProjector,
     SourceProjector, RecordPause, RecordResume, RecordPauseToggle, RecordFileSplit,
     RecordChapter, BroadcastCustomEvent, CurrentSceneTransitionSettings, CreateSourceFilter,
     SourceFilterSettings, InputPropertiesButton, SaveSourceScreenshot, CreateInput,
     InputSettings, SceneItemTransform, PersistentData, CurrentSceneCollection,
     CreateSceneCollection, CurrentProfile, CreateProfile, RemoveProfile, StreamServiceSettings,
     RecordDirectory, OutputSettings, VideoSettings, ProfileParameter, MediaInputCursor,
     MediaInputCursorOffset, MediaInputAction, InputAudioTracks, InputMuteToggle, InputVolume,
     StreamCaption, SaveReplayBuffer, CreateScene, RemoveScene, RemoveSceneItem,
     RemoveSourceFilter, SourceFilterName, SourceFilterIndex, RemoveInput, InputName,
     DuplicateSceneItem, SceneName, CreateSceneItem, SceneItemEnabled, CurrentProgramScene,
     CurrentPreviewScene, TriggerStudioModeTransition, CurrentSceneTransition,
     SceneSceneTransitionOverride, TBarPosition, CurrentSceneTransitionDuration, InputMute,
     InputAudioBalance, InputAudioSyncOffset, InputAudioMonitorType, InputDeinterlaceFieldOrder,
     InputDeinterlaceMode, SceneItemIndex, SceneItemLocked, SceneItemBlendMode,
     SourceFilterEnabled]"

definition advanced_only :: "GenericKind \<Rightarrow> bool" where
  "advanced_only k \<longleftrightarrow> k \<in> {OpaqueRequest, OpaqueBatch, VendorRequest, HotkeyName, HotkeySequence,
     InputPropertiesButton, ManualRecordStart, ManualRecordToggle, NamedOutputStart,
     NamedOutputStop, NamedOutputToggle}"

definition incompatible_with_guarded_reentry :: "GenericKind \<Rightarrow> bool" where
  "incompatible_with_guarded_reentry k \<longleftrightarrow>
     advanced_only k \<or> k \<in> {StreamStart, StreamStop, StreamToggle}"

text \<open>Every kind is listed, and no two kinds share a wire name, so the wire name in a stored
  receipt determines the kind.\<close>

lemma all_generic_kinds_complete: "k \<in> set all_generic_kinds"
  by (cases k) (simp_all add: all_generic_kinds_def)

lemma distinct_request_types: "distinct (map request_type all_generic_kinds)"
  by code_simp

lemma request_type_inj: "request_type j = request_type k \<Longrightarrow> j = k"
  using distinct_request_types all_generic_kinds_complete by (metis distinct_map inj_on_def)

lemma advanced_incompatible: "advanced_only k \<Longrightarrow> incompatible_with_guarded_reentry k"
  by (simp add: incompatible_with_guarded_reentry_def)

lemma valid_hash_length: "valid_hash h \<Longrightarrow> length h = 64"
  by (simp add: valid_hash_def)

lemma valid_uuid_length: "valid_uuid v \<Longrightarrow> length v = 36"
  by (auto simp: valid_uuid_def nil_uuid_def max_uuid_def)

lemma uuid_collation_refl [simp]: "uuid_collation a a = Equal"
proof -
  have "first_case_difference a a = Equal" by (induction a) auto
  then show ?thesis by (simp add: uuid_collation_def then_with_def cmp_of_def)
qed

end
