(* ===== verification/Receipt_Family.thy ===== *)
theory Receipt_Family
  imports Receipt_Types
begin

text \<open>
  What the five receipt families of \<open>src/native/src/operation_store.rs\<close> have in common: the header
  fields and their checks, and the contract of a family as an interface. A family has a validity
  check and a guarded update; the update returns only valid receipts and never changes who the
  receipt belongs to. A workflow family also advances: every update moves the receipt to a
  strictly later stage, so a receipt is updated at most a fixed number of times. The clients of
  the contract are sequences of updates (\<open>run_updates\<close>), and the facts about them are proved once
  here and read off the interpretations in the family's theory.
\<close>

section \<open>The header\<close>

record receipt_head =
  version :: u8
  operation_id :: string
  endpoint_hash :: string
  generation :: u64
  created_at :: string
  updated_at :: string
  postcondition_observed :: bool

text \<open>The header checks every family makes, and those every family but the first makes.\<close>

definition head_ok :: "u8 \<Rightarrow> 'a receipt_head_scheme \<Rightarrow> bool" where
  "head_ok v r \<longleftrightarrow> version r = v \<and> valid_uuid (operation_id r) \<and> valid_hash (endpoint_hash r) \<and>
     \<not> generation r > MAX_SAFE_INTEGER \<and> valid_timestamp (created_at r) \<and>
     valid_timestamp (updated_at r)"

definition workflow_head_ok :: "u8 \<Rightarrow> 'a receipt_head_scheme \<Rightarrow> bool" where
  "workflow_head_ok v r \<longleftrightarrow>
     head_ok v r \<and> \<not> updated_at r < created_at r \<and> \<not> postcondition_observed r"

text \<open>Two receipts describe the same operation: everything but the update time and the outcome.\<close>

definition same_operation :: "'a receipt_head_scheme \<Rightarrow> 'a receipt_head_scheme \<Rightarrow> bool" where
  "same_operation r s \<longleftrightarrow> version r = version s \<and> operation_id r = operation_id s \<and>
     endpoint_hash r = endpoint_hash s \<and> generation r = generation s \<and> created_at r = created_at s"

lemma same_operation_refl [simp]: "same_operation r r"
  by (simp add: same_operation_def)

lemma same_operation_trans [trans]:
  "same_operation r s \<Longrightarrow> same_operation s t \<Longrightarrow> same_operation r t"
  by (simp add: same_operation_def)

lemma same_operationD:
  assumes "same_operation r s"
  shows "operation_id s = operation_id r" and "endpoint_hash s = endpoint_hash r"
    and "created_at s = created_at r" and "generation s = generation r" and "version s = version r"
  using assms by (simp_all add: same_operation_def)

lemma head_ok_uuid: "head_ok v r \<Longrightarrow> valid_uuid (operation_id r)"
  by (simp add: head_ok_def)

section \<open>Sequences of updates\<close>

fun run_updates :: "('r \<Rightarrow> 'u \<Rightarrow> string \<Rightarrow> (StoreError, 'r) result) \<Rightarrow> 'r \<Rightarrow> ('u \<times> string) list \<Rightarrow>
    (StoreError, 'r) result" where
  "run_updates updated r [] = Ok r"
| "run_updates updated r ((u, t) # us) = and_then (updated r u t) (\<lambda>r'. run_updates updated r' us)"

section \<open>The contract of a family\<close>

locale receipt_family =
  fixes checked :: "'r receipt_head_scheme \<Rightarrow> (StoreError, 'r receipt_head_scheme) result"
    and updated :: "'r receipt_head_scheme \<Rightarrow> 'u \<Rightarrow> string \<Rightarrow>
      (StoreError, 'r receipt_head_scheme) result"
    and family_version :: u8
  assumes checked_same: "checked r = Ok s \<Longrightarrow> s = r"
    and checked_head: "checked r = Ok r \<Longrightarrow> head_ok family_version r"
    and updated_checked: "updated r u t = Ok s \<Longrightarrow> checked s = Ok s"
    and updated_same: "updated r u t = Ok s \<Longrightarrow> same_operation r s"
    and updated_time: "updated r u t = Ok s \<Longrightarrow> updated_at s = t"
begin

lemma run_checked:
  "checked r = Ok r \<Longrightarrow> run_updates updated r us = Ok s \<Longrightarrow> checked s = Ok s"
proof (induction us arbitrary: r)
  case (Cons u us)
  obtain x t where u: "u = (x, t)" by (cases u)
  with Cons.prems obtain r' where "updated r x t = Ok r'" "run_updates updated r' us = Ok s"
    by auto
  then show ?case using Cons.IH updated_checked by blast
qed simp

lemma run_same: "run_updates updated r us = Ok s \<Longrightarrow> same_operation r s"
proof (induction us arbitrary: r)
  case (Cons u us)
  obtain x t where u: "u = (x, t)" by (cases u)
  with Cons.prems obtain r' where r': "updated r x t = Ok r'" "run_updates updated r' us = Ok s"
    by auto
  from updated_same [OF r'(1)] Cons.IH [OF r'(2)] show ?case
    by (rule same_operation_trans)
qed simp

lemma run_version:
  assumes "checked r = Ok r" and "run_updates updated r us = Ok s"
  shows "version s = family_version"
  using checked_head [OF run_checked [OF assms]] by (simp add: head_ok_def)

end

text \<open>A workflow family: its updates only move forward, through at most \<open>last_stage\<close> stages, and a
  receipt in a final stage accepts no update.\<close>

locale workflow_family = receipt_family checked updated family_version
  for checked :: "'r receipt_head_scheme \<Rightarrow> (StoreError, 'r receipt_head_scheme) result"
    and updated :: "'r receipt_head_scheme \<Rightarrow> 'u \<Rightarrow> string \<Rightarrow>
      (StoreError, 'r receipt_head_scheme) result"
    and family_version :: u8 +
  fixes stage :: "'r receipt_head_scheme \<Rightarrow> nat"
    and last_stage :: nat
  assumes updated_advances: "checked r = Ok r \<Longrightarrow> updated r u t = Ok s \<Longrightarrow> stage r < stage s"
    and stage_bound: "checked r = Ok r \<Longrightarrow> stage r \<le> last_stage"
    and updated_in_order: "updated r u t = Ok s \<Longrightarrow> created_at r \<le> t"
begin

lemma run_advances:
  "checked r = Ok r \<Longrightarrow> run_updates updated r us = Ok s \<Longrightarrow> stage r + length us \<le> stage s"
proof (induction us arbitrary: r)
  case (Cons u us)
  obtain x t where u: "u = (x, t)" by (cases u)
  with Cons.prems obtain r' where r': "updated r x t = Ok r'" "run_updates updated r' us = Ok s"
    by auto
  from updated_advances [OF Cons.prems(1) r'(1)] Cons.IH [OF updated_checked [OF r'(1)] r'(2)]
  show ?case by simp
qed simp

lemma run_length:
  assumes "checked r = Ok r" and "run_updates updated r us = Ok s"
  shows "length us \<le> last_stage - stage r"
  using run_advances [OF assms] stage_bound [OF run_checked [OF assms]] by simp

lemma final_is_final: "checked r = Ok r \<Longrightarrow> stage r = last_stage \<Longrightarrow> \<exists>e. updated r u t = Err e"
  using updated_advances [of r u t] stage_bound updated_checked
  by (cases "updated r u t") fastforce+

lemma run_never_returns:
  assumes "checked r = Ok r" and "run_updates updated r us = Ok s" and "us \<noteq> []"
  shows "stage s \<noteq> stage r"
  using run_advances [OF assms(1,2)] assms(3) by (cases us) auto

end

end
