(* ===== verification/Receipts.thy ===== *)
theory Receipts
  imports Receipt_Family
begin

text \<open>
  The three single-step receipt families of \<open>src/native/src/operation_store.rs\<close>: the version 1
  operation receipt (\<open>Record\<close>, \<open>OperationReceipt\<close>), the version 2 generic request receipt
  (\<open>GenericRecord\<close>, \<open>GenericReceipt\<close>) and the version 3 manual restore batch (\<open>RestoreRecord\<close>,
  \<open>RestoreReceipt\<close>), with their checks and the record half of their updates; the storage half is
  in the theory of the store. Versions 2 and 3 are workflow families, version 1 accepts any phase
  change and is a family only.
\<close>

section \<open>Version 1: operation receipts\<close>

datatype OperationKind = StageScene | TakeScene | RecordStart | RecordStop

datatype Phase = Prepared | Dispatching | Accepted | Observed | NotDispatched | Unknown

definition is_uncertain :: "Phase \<Rightarrow> bool" where
  "is_uncertain p \<longleftrightarrow> p = Dispatching \<or> p = Accepted \<or> p = Unknown"

primrec phase_name :: "Phase \<Rightarrow> string" where
  "phase_name Prepared = ''prepared''"
| "phase_name Dispatching = ''dispatching''"
| "phase_name Accepted = ''accepted''"
| "phase_name Observed = ''observed''"
| "phase_name NotDispatched = ''not-dispatched''"
| "phase_name Unknown = ''unknown''"

record OperationRecord = receipt_head +
  kind :: OperationKind
  collection_hash :: "string option"
  scene_uuid :: "string option"
  stage_id :: "string option"
  take_id :: "string option"
  phase :: Phase
  request_dispatched :: "bool option"
  request_accepted :: "bool option"
  rendered_composition :: string

definition opt_all :: "('a \<Rightarrow> bool) \<Rightarrow> 'a option \<Rightarrow> bool" where
  "opt_all P v = (case v of None \<Rightarrow> True | Some x \<Rightarrow> P x)"

definition checked :: "OperationRecord \<Rightarrow> (StoreError, OperationRecord) result" where
  "checked r =
     (if head_ok 1 r \<and> opt_all valid_hash (collection_hash r) \<and> opt_all valid_uuid (stage_id r) \<and>
         opt_all bounded_identity (scene_uuid r) \<and> opt_all bounded_identity (take_id r) \<and>
         rendered_composition r = ''unverified''
      then Ok r else Err InvalidReceipt)"

record PrepareDetails =
  scene_collection :: "string option"
  d_scene_uuid :: "string option"
  d_stage_id :: "string option"
  d_take_id :: "string option"

text \<open>The record a preparation writes; \<open>hash\<close> stands for SHA-256 in hexadecimal.\<close>

definition prepared_record :: "(string \<Rightarrow> string) \<Rightarrow> string \<Rightarrow> string \<Rightarrow> OperationKind \<Rightarrow> u64 \<Rightarrow>
    string \<Rightarrow> PrepareDetails \<Rightarrow> OperationRecord" where
  "prepared_record hash endpoint oid k gen t d =
     \<lparr>version = 1, operation_id = oid, endpoint_hash = endpoint, generation = gen,
      created_at = t, updated_at = t, postcondition_observed = False,
      kind = k, collection_hash = map_option hash (scene_collection d),
      scene_uuid = d_scene_uuid d, stage_id = d_stage_id d, take_id = d_take_id d,
      phase = Prepared, request_dispatched = Some False, request_accepted = None,
      rendered_composition = ''unverified''\<rparr>"

record OperationUpdate =
  u_phase :: Phase
  u_request_dispatched :: "bool option option"
  u_request_accepted :: "bool option option"
  u_postcondition_observed :: "bool option"

definition new_update :: "Phase \<Rightarrow> OperationUpdate" where
  "new_update p = \<lparr>u_phase = p, u_request_dispatched = None, u_request_accepted = None,
     u_postcondition_observed = None\<rparr>"

definition or_else :: "'a option \<Rightarrow> 'a \<Rightarrow> 'a" where
  "or_else v d = (case v of None \<Rightarrow> d | Some x \<Rightarrow> x)"

definition updated :: "OperationRecord \<Rightarrow> OperationUpdate \<Rightarrow> string \<Rightarrow>
    (StoreError, OperationRecord) result" where
  "updated r u t =
     checked (r\<lparr>phase := u_phase u, updated_at := t,
       request_dispatched := or_else (u_request_dispatched u) (request_dispatched r),
       request_accepted := or_else (u_request_accepted u) (request_accepted r),
       postcondition_observed := or_else (u_postcondition_observed u) (postcondition_observed r)\<rparr>)"

lemma checked_Ok_iff [simp]: "checked r = Ok s \<longleftrightarrow> s = r \<and> checked r \<noteq> Err InvalidReceipt"
  by (auto simp: checked_def)

lemma checked_Err: "checked r = Err e \<Longrightarrow> e = InvalidReceipt"
  by (auto simp: checked_def split: if_splits)

interpretation v1: receipt_family checked updated 1
  by unfold_locales
    (auto simp: checked_def updated_def head_ok_def same_operation_def split: if_splits)

section \<open>Version 2: generic requests\<close>

datatype GenericPhase =
  G_Prepared | G_Dispatching | G_Accepted | G_Rejected | G_NotDispatched | G_Unknown

record GenericRecord = receipt_head +
  g_kind :: string
  g_request_type :: GenericKind
  g_phase :: GenericPhase
  g_request_dispatched :: "bool option"
  g_request_accepted :: "bool option"
  g_rendered_composition :: string

primrec generic_disposition :: "GenericPhase \<Rightarrow> bool option \<times> bool option" where
  "generic_disposition G_Prepared = (Some False, None)"
| "generic_disposition G_NotDispatched = (Some False, None)"
| "generic_disposition G_Dispatching = (None, None)"
| "generic_disposition G_Unknown = (None, None)"
| "generic_disposition G_Accepted = (Some True, Some True)"
| "generic_disposition G_Rejected = (Some True, Some False)"

definition checked_generic :: "GenericRecord \<Rightarrow> (StoreError, GenericRecord) result" where
  "checked_generic r =
     (if workflow_head_ok 2 r \<and> g_kind r = ''request'' \<and>
         (g_request_dispatched r, g_request_accepted r) = generic_disposition (g_phase r) \<and>
         g_rendered_composition r = ''unverified''
      then Ok r else Err InvalidReceipt)"

definition prepared_generic :: "string \<Rightarrow> string \<Rightarrow> GenericKind \<Rightarrow> u64 \<Rightarrow> string \<Rightarrow> GenericRecord" where
  "prepared_generic endpoint oid k gen t =
     \<lparr>version = 2, operation_id = oid, endpoint_hash = endpoint, generation = gen,
      created_at = t, updated_at = t, postcondition_observed = False,
      g_kind = ''request'', g_request_type = k, g_phase = G_Prepared,
      g_request_dispatched = Some False, g_request_accepted = None,
      g_rendered_composition = ''unverified''\<rparr>"

definition generic_transition :: "GenericPhase \<Rightarrow> GenericPhase \<Rightarrow> bool" where
  "generic_transition p q \<longleftrightarrow>
     p = G_Prepared \<and> q \<in> {G_Dispatching, G_NotDispatched} \<or>
     p = G_Dispatching \<and> q \<in> {G_Accepted, G_Rejected, G_NotDispatched, G_Unknown}"

definition updated_generic :: "GenericRecord \<Rightarrow> GenericPhase \<Rightarrow> string \<Rightarrow>
    (StoreError, GenericRecord) result" where
  "updated_generic r p t =
     (if \<not> generic_transition (g_phase r) p then Err Conflict
      else checked_generic (r\<lparr>g_phase := p, updated_at := t,
        g_request_dispatched := fst (generic_disposition p),
        g_request_accepted := snd (generic_disposition p)\<rparr>))"

definition generic_blocking :: "GenericRecord \<Rightarrow> bool" where
  "generic_blocking r \<longleftrightarrow> g_phase r = G_Dispatching \<or> g_phase r = G_Unknown"

primrec generic_stage_of :: "GenericPhase \<Rightarrow> nat" where
  "generic_stage_of G_Prepared = 0"
| "generic_stage_of G_Dispatching = 1"
| "generic_stage_of G_Accepted = 2"
| "generic_stage_of G_Rejected = 2"
| "generic_stage_of G_NotDispatched = 2"
| "generic_stage_of G_Unknown = 2"

lemma checked_generic_Ok_iff [simp]:
  "checked_generic r = Ok s \<longleftrightarrow> s = r \<and> checked_generic r \<noteq> Err InvalidReceipt"
  by (auto simp: checked_generic_def)

lemma updated_genericE:
  assumes "updated_generic r p t = Ok s"
  shows "generic_transition (g_phase r) p" and "checked_generic s = Ok s"
    and "s = r\<lparr>g_phase := p, updated_at := t, g_request_dispatched := fst (generic_disposition p),
        g_request_accepted := snd (generic_disposition p)\<rparr>"
  using assms by (auto simp: updated_generic_def split: if_splits)

interpretation v2: workflow_family checked_generic updated_generic 2
  "\<lambda>r. generic_stage_of (g_phase r)" 2
proof unfold_locales
  fix r s :: GenericRecord and p t
  assume *: "updated_generic r p t = Ok s"
  note s = updated_genericE [OF *]
  from s show "checked_generic s = Ok s" "same_operation r s" "updated_at s = t"
    by (simp_all add: same_operation_def)
  from s(2) have "\<not> updated_at s < created_at s"
    by (auto simp: checked_generic_def workflow_head_ok_def split: if_splits)
  with s(3) show "created_at r \<le> t" by simp
  from s(1,3) show "generic_stage_of (g_phase r) < generic_stage_of (g_phase s)"
    by (auto simp: generic_transition_def)
next
  fix r s :: GenericRecord
  show "checked_generic r = Ok s \<Longrightarrow> s = r" by simp
  show "checked_generic r = Ok r \<Longrightarrow> head_ok 2 r"
    by (auto simp: checked_generic_def workflow_head_ok_def split: if_splits)
  show "generic_stage_of (g_phase r) \<le> 2" by (cases "g_phase r") simp_all
qed

section \<open>Version 3: manual restore batches\<close>

datatype RestorePhase = R_Prepared | R_Dispatching | R_Acknowledged | R_NotDispatched | R_Unknown

record RestoreCounts =
  rc_successful :: u64
  rc_failed :: u64

record RestoreRecord = receipt_head +
  r_kind :: string
  r_phase :: RestorePhase
  r_execution_type :: u8
  r_halt_on_failure :: bool
  r_request_count :: u64
  r_request_dispatched :: "bool option"
  r_batch_acknowledged :: "bool option"
  r_successful_requests :: "u64 option"
  r_failed_requests :: "u64 option"
  r_rendered_composition :: string

primrec restore_disposition :: "RestorePhase \<Rightarrow> bool option \<times> bool option" where
  "restore_disposition R_Prepared = (Some False, None)"
| "restore_disposition R_NotDispatched = (Some False, None)"
| "restore_disposition R_Dispatching = (None, None)"
| "restore_disposition R_Unknown = (None, None)"
| "restore_disposition R_Acknowledged = (Some True, Some True)"

definition restore_counts_ok :: "RestorePhase \<Rightarrow> u64 option \<Rightarrow> u64 option \<Rightarrow> u64 \<Rightarrow> bool" where
  "restore_counts_ok p yes no n =
     (if p = R_Acknowledged then
        (case (yes, no) of (Some a, Some b) \<Rightarrow> checked_add a b = Some n | _ \<Rightarrow> False)
      else yes = None \<and> no = None)"

definition checked_restore :: "RestoreRecord \<Rightarrow> (StoreError, RestoreRecord) result" where
  "checked_restore r =
     (if r_kind r = ''manual-restore-batch'' \<and> r_execution_type r = 0 \<and> \<not> r_halt_on_failure r \<and>
         r_request_count r \<noteq> 0 \<and> \<not> r_request_count r > MAX_SAFE_INTEGER \<and>
         restore_counts_ok (r_phase r) (r_successful_requests r) (r_failed_requests r)
           (r_request_count r) \<and>
         (r_request_dispatched r, r_batch_acknowledged r) = restore_disposition (r_phase r) \<and>
         workflow_head_ok 3 r \<and> r_rendered_composition r = ''unverified''
      then Ok r else Err InvalidReceipt)"

definition prepared_restore :: "string \<Rightarrow> string \<Rightarrow> u64 \<Rightarrow> u64 \<Rightarrow> string \<Rightarrow> RestoreRecord" where
  "prepared_restore endpoint oid gen n t =
     \<lparr>version = 3, operation_id = oid, endpoint_hash = endpoint, generation = gen,
      created_at = t, updated_at = t, postcondition_observed = False,
      r_kind = ''manual-restore-batch'', r_phase = R_Prepared, r_execution_type = 0,
      r_halt_on_failure = False, r_request_count = n, r_request_dispatched = Some False,
      r_batch_acknowledged = None, r_successful_requests = None, r_failed_requests = None,
      r_rendered_composition = ''unverified''\<rparr>"

definition restore_transition :: "RestorePhase \<Rightarrow> RestorePhase \<Rightarrow> bool" where
  "restore_transition p q \<longleftrightarrow>
     p = R_Prepared \<and> q \<in> {R_Dispatching, R_NotDispatched} \<or>
     p = R_Dispatching \<and> q \<in> {R_Acknowledged, R_NotDispatched, R_Unknown}"

definition updated_restore :: "RestoreRecord \<Rightarrow> RestorePhase \<times> RestoreCounts option \<Rightarrow> string \<Rightarrow>
    (StoreError, RestoreRecord) result" where
  "updated_restore r u t = (case u of (p, counts) \<Rightarrow>
     if \<not> restore_transition (r_phase r) p then Err Conflict
     else checked_restore (r\<lparr>r_phase := p, updated_at := t,
       r_successful_requests := map_option rc_successful counts,
       r_failed_requests := map_option rc_failed counts,
       r_request_dispatched := fst (restore_disposition p),
       r_batch_acknowledged := snd (restore_disposition p)\<rparr>))"

definition restore_blocking :: "RestoreRecord \<Rightarrow> bool" where
  "restore_blocking r \<longleftrightarrow> r_phase r = R_Dispatching \<or> r_phase r = R_Unknown"

primrec restore_stage_of :: "RestorePhase \<Rightarrow> nat" where
  "restore_stage_of R_Prepared = 0"
| "restore_stage_of R_Dispatching = 1"
| "restore_stage_of R_Acknowledged = 2"
| "restore_stage_of R_NotDispatched = 2"
| "restore_stage_of R_Unknown = 2"

lemma checked_restore_Ok_iff [simp]:
  "checked_restore r = Ok s \<longleftrightarrow> s = r \<and> checked_restore r \<noteq> Err InvalidReceipt"
  by (auto simp: checked_restore_def)

lemma updated_restoreE:
  assumes "updated_restore r (p, c) t = Ok s"
  shows "restore_transition (r_phase r) p" and "checked_restore s = Ok s"
    and "s = r\<lparr>r_phase := p, updated_at := t,
       r_successful_requests := map_option rc_successful c,
       r_failed_requests := map_option rc_failed c,
       r_request_dispatched := fst (restore_disposition p),
       r_batch_acknowledged := snd (restore_disposition p)\<rparr>"
  using assms by (auto simp: updated_restore_def split: if_splits)

interpretation v3: workflow_family checked_restore updated_restore 3
  "\<lambda>r. restore_stage_of (r_phase r)" 2
proof unfold_locales
  fix r s :: RestoreRecord and u t
  assume *: "updated_restore r u t = Ok s"
  obtain p c where u: "u = (p, c)" by (cases u)
  note s = updated_restoreE [OF * [unfolded u]]
  from s show "checked_restore s = Ok s" "same_operation r s" "updated_at s = t"
    by (simp_all add: same_operation_def)
  from s(2) have "\<not> updated_at s < created_at s"
    by (auto simp: checked_restore_def workflow_head_ok_def split: if_splits)
  with s(3) show "created_at r \<le> t" by simp
  from s(1,3) show "restore_stage_of (r_phase r) < restore_stage_of (r_phase s)"
    by (auto simp: restore_transition_def)
next
  fix r s :: RestoreRecord
  show "checked_restore r = Ok s \<Longrightarrow> s = r" by simp
  show "checked_restore r = Ok r \<Longrightarrow> head_ok 3 r"
    by (auto simp: checked_restore_def workflow_head_ok_def split: if_splits)
  show "restore_stage_of (r_phase r) \<le> 2" by (cases "r_phase r") simp_all
qed

section \<open>Properties\<close>

text \<open>A valid request identifier and a valid hash, for the witnesses.\<close>

definition sample_uuid :: string where
  "sample_uuid = ''123e4567-e89b-42d3-a456-426614174000''"

definition sample_hash :: string where
  "sample_hash = replicate 64 (CHR ''0'')"

lemma sample_valid: "valid_uuid sample_uuid" "valid_hash sample_hash"
  "valid_timestamp ''2026-01-02T03:04:05.678Z''" "valid_timestamp ''2026-01-02T03:04:06.000Z''"
  by code_simp+

lemma sample_order: "''2026-01-02T03:04:05.678Z'' < ''2026-01-02T03:04:06.000Z''"
  by code_simp

lemmas sample = sample_valid sample_order sample_order [THEN less_imp_le]
  sample_order [THEN order_less_not_sym]

text \<open>What an update of a valid generic receipt does, on every branch. A phase change outside
  the six of the transition table is a conflict; a time that is not a timestamp or lies before
  the creation is an invalid receipt; otherwise the update succeeds and only the phase, the time
  and the two dispatch facts of the new phase change.\<close>

lemma generic_update_branches:
  assumes "checked_generic r = Ok r"
  shows "updated_generic r p t =
    (if \<not> (g_phase r = G_Prepared \<and> p \<in> {G_Dispatching, G_NotDispatched} \<or>
          g_phase r = G_Dispatching \<and> p \<in> {G_Accepted, G_Rejected, G_NotDispatched, G_Unknown})
     then Err Conflict
     else if \<not> valid_timestamp t \<or> t < created_at r then Err InvalidReceipt
     else Ok (r\<lparr>g_phase := p, updated_at := t,
       g_request_dispatched :=
         (if p = G_NotDispatched then Some False
          else if p \<in> {G_Accepted, G_Rejected} then Some True else None),
       g_request_accepted :=
         (if p = G_Accepted then Some True else if p = G_Rejected then Some False else None)\<rparr>))"
proof -
  from assms have "head_ok 2 r" "\<not> postcondition_observed r" "g_kind r = ''request''"
    "g_rendered_composition r = ''unverified''"
    by (auto simp: checked_generic_def workflow_head_ok_def split: if_splits)
  then show ?thesis
    by (cases p) (simp_all add: updated_generic_def generic_transition_def checked_generic_def
        workflow_head_ok_def head_ok_def)
qed

lemma generic_update_branches_example:
  "updated_generic (prepared_generic sample_hash sample_uuid StreamStart 7 ''2026-01-02T03:04:05.678Z'')
     G_Dispatching ''2026-01-02T03:04:06.000Z'' =
   Ok ((prepared_generic sample_hash sample_uuid StreamStart 7 ''2026-01-02T03:04:05.678Z'')
     \<lparr>g_phase := G_Dispatching, updated_at := ''2026-01-02T03:04:06.000Z'',
      g_request_dispatched := None, g_request_accepted := None\<rparr>)"
proof -
  let ?r = "prepared_generic sample_hash sample_uuid StreamStart 7 ''2026-01-02T03:04:05.678Z''"
  have "checked_generic ?r = Ok ?r"
    using sample by (simp add: checked_generic_def workflow_head_ok_def head_ok_def
        prepared_generic_def MAX_SAFE_INTEGER_def)
  from generic_update_branches [OF this, of G_Dispatching "''2026-01-02T03:04:06.000Z''"] sample
  show ?thesis by (simp add: prepared_generic_def)
qed

text \<open>A dispatched restore batch is acknowledged exactly when the counts of successes and
  failures add up, without overflowing 64 bits, to the number of requests sent, and the time is a
  valid timestamp not before the creation.\<close>

lemma restore_acknowledged_exact:
  assumes "checked_restore r = Ok r" and "r_phase r = R_Dispatching"
  shows "is_ok (updated_restore r (R_Acknowledged, counts) t) \<longleftrightarrow>
    (\<exists>c. counts = Some c \<and> unat (rc_successful c) + unat (rc_failed c) = unat (r_request_count r)) \<and>
    valid_timestamp t \<and> created_at r \<le> t"
proof -
  from assms have "head_ok 3 r" "\<not> postcondition_observed r" "r_kind r = ''manual-restore-batch''"
    "r_rendered_composition r = ''unverified''" "r_execution_type r = 0" "\<not> r_halt_on_failure r"
    "r_request_count r \<noteq> 0" "\<not> r_request_count r > MAX_SAFE_INTEGER"
    by (auto simp: checked_restore_def workflow_head_ok_def split: if_splits)
  with assms(2) show ?thesis
    by (cases counts) (auto simp: updated_restore_def restore_transition_def checked_restore_def
        restore_counts_ok_def checked_add_Some_iff workflow_head_ok_def head_ok_def)
qed

end
