(* ===== verification/Apply_Receipt.thy ===== *)
theory Apply_Receipt
  imports Receipts
begin

text \<open>
  The version 4 receipt of the Apply Scene workflow (\<open>ApplyStageRecord\<close>, \<open>ApplyRecord\<close>,
  \<open>ApplyReceipt\<close> of \<open>src/native/src/operation_store.rs\<close>): a first stage that creates inputs, a
  second that changes them, each with its request count and its facts, and the guarded updates
  between the seven phases. The receipt is a workflow family; beyond that the theory shows exactly
  which updates a valid receipt accepts, and that no update ever lets the change stage start
  before every creation succeeded.
\<close>

section \<open>Stages\<close>

datatype ApplyPhase =
  A_Prepared | A_DispatchingCreations | A_Continuation | A_DispatchingChanges
| A_Closed | A_Aborted | A_Unknown

datatype ApplyStagePhase =
  S_NotNeeded | S_Prepared | S_Dispatching | S_Acknowledged | S_NotDispatched | S_Unknown

record ApplyCounts =
  ac_successful :: u64
  ac_failed :: u64
  ac_skipped :: u64

record ApplyStageRecord =
  s_execution_type :: u8
  s_halt_on_failure :: bool
  s_request_count :: u64
  s_phase :: ApplyStagePhase
  s_request_dispatched :: "bool option"
  s_batch_acknowledged :: "bool option"
  s_counts :: "ApplyCounts option"
  s_not_attempted :: "u64 option"

definition new_stage :: "u64 \<Rightarrow> bool \<Rightarrow> ApplyStageRecord" where
  "new_stage count halt =
     \<lparr>s_execution_type = 0, s_halt_on_failure = halt, s_request_count = count,
      s_phase = (if count = 0 then S_NotNeeded else S_Prepared),
      s_request_dispatched = Some False, s_batch_acknowledged = None, s_counts = None,
      s_not_attempted = (if count = 0 then Some 0 else None)\<rparr>"

primrec stage_disposition :: "ApplyStagePhase \<Rightarrow> bool option \<times> bool option" where
  "stage_disposition S_NotNeeded = (Some False, None)"
| "stage_disposition S_NotDispatched = (Some False, None)"
| "stage_disposition S_Prepared = (Some False, None)"
| "stage_disposition S_Dispatching = (None, None)"
| "stage_disposition S_Unknown = (None, None)"
| "stage_disposition S_Acknowledged = (Some True, Some True)"

definition set_stage :: "ApplyStageRecord \<Rightarrow> ApplyStagePhase \<Rightarrow> ApplyCounts option \<Rightarrow>
    ApplyStageRecord" where
  "set_stage s p counts =
     s\<lparr>s_phase := p, s_counts := counts,
       s_not_attempted :=
         (if p = S_NotNeeded \<or> p = S_NotDispatched then Some (s_request_count s) else None),
       s_request_dispatched := fst (stage_disposition p),
       s_batch_acknowledged := snd (stage_disposition p)\<rparr>"

definition counts_add_up :: "ApplyCounts \<Rightarrow> u64 \<Rightarrow> bool" where
  "counts_add_up c n \<longleftrightarrow>
     Option.bind (checked_add (ac_successful c) (ac_failed c)) (\<lambda>v. checked_add v (ac_skipped c))
       = Some n"

definition counts_ok :: "bool \<Rightarrow> ApplyCounts \<Rightarrow> u64 \<Rightarrow> bool" where
  "counts_ok halt c n \<longleftrightarrow> counts_add_up c n \<and>
     (if halt then ac_failed c \<le> 1 \<and> (ac_failed c \<noteq> 0 \<or> ac_skipped c = 0) else ac_skipped c = 0)"

definition stage_facts :: "bool \<Rightarrow> ApplyStageRecord \<Rightarrow> bool" where
  "stage_facts halt s = (case s_phase s of
     S_NotNeeded \<Rightarrow> s_request_dispatched s = Some False \<and> s_batch_acknowledged s = None \<and>
       s_counts s = None \<and> s_not_attempted s = Some (s_request_count s)
   | S_NotDispatched \<Rightarrow> s_request_dispatched s = Some False \<and> s_batch_acknowledged s = None \<and>
       s_counts s = None \<and> s_not_attempted s = Some (s_request_count s)
   | S_Prepared \<Rightarrow> s_request_dispatched s = Some False \<and> s_batch_acknowledged s = None \<and>
       s_counts s = None \<and> s_not_attempted s = None
   | S_Dispatching \<Rightarrow> s_request_dispatched s = None \<and> s_batch_acknowledged s = None \<and>
       s_counts s = None \<and> s_not_attempted s = None
   | S_Unknown \<Rightarrow> s_request_dispatched s = None \<and> s_batch_acknowledged s = None \<and>
       s_counts s = None \<and> s_not_attempted s = None
   | S_Acknowledged \<Rightarrow> s_request_dispatched s = Some True \<and> s_batch_acknowledged s = Some True \<and>
       s_not_attempted s = None \<and>
       (case s_counts s of None \<Rightarrow> False | Some c \<Rightarrow> counts_ok halt c (s_request_count s)))"

definition stage_valid :: "bool \<Rightarrow> ApplyStageRecord \<Rightarrow> bool" where
  "stage_valid halt s \<longleftrightarrow>
     s_execution_type s = 0 \<and> s_halt_on_failure s = halt \<and>
     s_request_count s \<le> MAX_SAFE_INTEGER \<and>
     (s_request_count s = 0 \<longleftrightarrow> s_phase s = S_NotNeeded) \<and> stage_facts halt s"

section \<open>Receipts\<close>

record ApplyRecord = receipt_head +
  a_kind :: string
  a_phase :: ApplyPhase
  creations :: ApplyStageRecord
  changes :: "ApplyStageRecord option"
  a_rendered_composition :: string

definition successful_creations :: "ApplyRecord \<Rightarrow> bool" where
  "successful_creations r \<longleftrightarrow>
     s_phase (creations r) = S_NotNeeded \<or>
     s_phase (creations r) = S_Acknowledged \<and>
     (case s_counts (creations r) of None \<Rightarrow> False | Some c \<Rightarrow> ac_failed c = 0 \<and> ac_skipped c = 0)"

definition changes_in :: "ApplyRecord \<Rightarrow> ApplyStagePhase set \<Rightarrow> bool" where
  "changes_in r ps = (case changes r of None \<Rightarrow> False | Some s \<Rightarrow> s_phase s \<in> ps)"

definition apply_layout :: "ApplyRecord \<Rightarrow> bool" where
  "apply_layout r = (case a_phase r of
     A_Prepared \<Rightarrow> s_phase (creations r) \<in> {S_Prepared, S_NotNeeded} \<and> changes r = None
   | A_DispatchingCreations \<Rightarrow> s_phase (creations r) = S_Dispatching \<and> changes r = None
   | A_Continuation \<Rightarrow> successful_creations r \<and> changes r = None
   | A_DispatchingChanges \<Rightarrow> successful_creations r \<and> changes_in r {S_Dispatching}
   | A_Closed \<Rightarrow> successful_creations r \<and> changes_in r {S_Acknowledged, S_NotNeeded}
   | A_Aborted \<Rightarrow> (case changes r of
       None \<Rightarrow> s_phase (creations r) \<in> {S_Acknowledged, S_NotDispatched, S_NotNeeded}
     | Some s \<Rightarrow> successful_creations r \<and> s_phase s = S_NotDispatched)
   | A_Unknown \<Rightarrow> s_phase (creations r) = S_Unknown \<and> changes r = None \<or>
       successful_creations r \<and> changes_in r {S_Unknown})"

definition checked_apply :: "ApplyRecord \<Rightarrow> (StoreError, ApplyRecord) result" where
  "checked_apply r =
     (if a_kind r = ''apply-scene-workflow'' \<and> workflow_head_ok 4 r \<and>
         a_rendered_composition r = ''unverified'' \<and>
         stage_valid True (creations r) \<and> opt_all (stage_valid False) (changes r) \<and> apply_layout r
      then Ok r else Err InvalidReceipt)"

definition prepared_apply :: "string \<Rightarrow> string \<Rightarrow> u64 \<Rightarrow> u64 \<Rightarrow> string \<Rightarrow> ApplyRecord" where
  "prepared_apply endpoint oid gen creation_count t =
     \<lparr>version = 4, operation_id = oid, endpoint_hash = endpoint, generation = gen,
      created_at = t, updated_at = t, postcondition_observed = False,
      a_kind = ''apply-scene-workflow'', a_phase = A_Prepared,
      creations = new_stage creation_count True, changes = None,
      a_rendered_composition = ''unverified''\<rparr>"

datatype ApplyUpdate =
  Ready | DispatchCreations | CreationsAcknowledged ApplyCounts | CreationsNotDispatched
| CreationsUnknown | DispatchChanges u64 | ChangesAcknowledged ApplyCounts | ChangesNotDispatched
| ChangesUnknown | Close | Abort

definition set_changes :: "ApplyRecord \<Rightarrow> ApplyPhase \<Rightarrow> ApplyStagePhase \<Rightarrow> ApplyCounts option \<Rightarrow>
    (StoreError, ApplyRecord) result" where
  "set_changes r p sp counts = (case changes r of
     None \<Rightarrow> Err Conflict
   | Some s \<Rightarrow> Ok (r\<lparr>a_phase := p, changes := Some (set_stage s sp counts)\<rparr>))"

text \<open>The match of \<open>ApplyReceipt::updated\<close>, before the final check; its last arm is the conflict.\<close>

definition apply_step :: "ApplyRecord \<Rightarrow> ApplyUpdate \<Rightarrow> (StoreError, ApplyRecord) result" where
  "apply_step r u = (case (a_phase r, u) of
     (A_Prepared, Ready) \<Rightarrow>
       (if s_phase (creations r) = S_NotNeeded then Ok (r\<lparr>a_phase := A_Continuation\<rparr>)
        else Err Conflict)
   | (A_Prepared, DispatchCreations) \<Rightarrow>
       (if s_request_count (creations r) > 0
        then Ok (r\<lparr>a_phase := A_DispatchingCreations,
                   creations := set_stage (creations r) S_Dispatching None\<rparr>)
        else Err Conflict)
   | (A_DispatchingCreations, CreationsAcknowledged c) \<Rightarrow>
       Ok (r\<lparr>a_phase := (if ac_failed c = 0 \<and> ac_skipped c = 0 then A_Continuation else A_Aborted),
             creations := set_stage (creations r) S_Acknowledged (Some c)\<rparr>)
   | (A_DispatchingCreations, CreationsNotDispatched) \<Rightarrow>
       Ok (r\<lparr>a_phase := A_Aborted, creations := set_stage (creations r) S_NotDispatched None\<rparr>)
   | (A_DispatchingCreations, CreationsUnknown) \<Rightarrow>
       Ok (r\<lparr>a_phase := A_Unknown, creations := set_stage (creations r) S_Unknown None\<rparr>)
   | (A_Continuation, DispatchChanges n) \<Rightarrow>
       (if n > 0
        then Ok (r\<lparr>a_phase := A_DispatchingChanges,
                   changes := Some (set_stage (new_stage n False) S_Dispatching None)\<rparr>)
        else Err Conflict)
   | (A_DispatchingChanges, ChangesAcknowledged c) \<Rightarrow> set_changes r A_Closed S_Acknowledged (Some c)
   | (A_DispatchingChanges, ChangesNotDispatched) \<Rightarrow> set_changes r A_Aborted S_NotDispatched None
   | (A_DispatchingChanges, ChangesUnknown) \<Rightarrow> set_changes r A_Unknown S_Unknown None
   | (A_Continuation, Close) \<Rightarrow>
       Ok (r\<lparr>a_phase := A_Closed, changes := Some (new_stage 0 False)\<rparr>)
   | (A_Prepared, Abort) \<Rightarrow>
       Ok (r\<lparr>a_phase := A_Aborted,
             creations := (if s_phase (creations r) = S_Prepared
                           then set_stage (creations r) S_NotDispatched None else creations r)\<rparr>)
   | (A_Continuation, Abort) \<Rightarrow>
       Ok (r\<lparr>a_phase := A_Aborted,
             creations := (if s_phase (creations r) = S_Prepared
                           then set_stage (creations r) S_NotDispatched None else creations r)\<rparr>)
   | _ \<Rightarrow> Err Conflict)"

definition updated_apply :: "ApplyRecord \<Rightarrow> ApplyUpdate \<Rightarrow> string \<Rightarrow>
    (StoreError, ApplyRecord) result" where
  "updated_apply r u t = and_then (apply_step (r\<lparr>updated_at := t\<rparr>) u) checked_apply"

definition apply_dispatching :: "ApplyRecord \<Rightarrow> bool" where
  "apply_dispatching r \<longleftrightarrow> a_phase r \<in> {A_DispatchingCreations, A_DispatchingChanges}"

definition apply_blocking :: "ApplyRecord \<Rightarrow> bool" where
  "apply_blocking r \<longleftrightarrow> a_phase r \<notin> {A_Closed, A_Aborted}"

definition apply_live :: "ApplyRecord \<Rightarrow> bool" where
  "apply_live r \<longleftrightarrow> a_phase r \<in> {A_Prepared, A_DispatchingCreations, A_Continuation, A_DispatchingChanges}"

primrec apply_stage_of :: "ApplyPhase \<Rightarrow> nat" where
  "apply_stage_of A_Prepared = 0"
| "apply_stage_of A_DispatchingCreations = 1"
| "apply_stage_of A_Continuation = 2"
| "apply_stage_of A_DispatchingChanges = 3"
| "apply_stage_of A_Closed = 4"
| "apply_stage_of A_Aborted = 4"
| "apply_stage_of A_Unknown = 4"

section \<open>The receipt is a workflow family\<close>

lemma checked_apply_Ok_iff [simp]:
  "checked_apply r = Ok s \<longleftrightarrow> s = r \<and> checked_apply r \<noteq> Err InvalidReceipt"
  by (auto simp: checked_apply_def)

lemma apply_step_head:
  assumes "apply_step r u = Ok s"
  shows "same_operation r s" and "updated_at s = updated_at r"
    and "apply_stage_of (a_phase r) < apply_stage_of (a_phase s)"
  using assms
  by (cases "a_phase r"; cases u;
      auto simp: apply_step_def set_changes_def same_operation_def split: if_splits option.splits)+

lemma updated_applyE:
  assumes "updated_apply r u t = Ok s"
  shows "apply_step (r\<lparr>updated_at := t\<rparr>) u = Ok s" and "checked_apply s = Ok s"
  using assms by (auto simp: updated_apply_def)

interpretation v4: workflow_family checked_apply updated_apply 4
  "\<lambda>r. apply_stage_of (a_phase r)" 4
proof unfold_locales
  fix r s :: ApplyRecord and u t
  assume *: "updated_apply r u t = Ok s"
  note s = updated_applyE [OF *] and head = apply_step_head [OF updated_applyE(1) [OF *]]
  from s show "checked_apply s = Ok s" by simp
  from head show "same_operation r s" "updated_at s = t"
    by (simp_all add: same_operation_def)
  from head show "apply_stage_of (a_phase r) < apply_stage_of (a_phase s)" by simp
  from s(2) have "\<not> updated_at s < created_at s"
    by (auto simp: checked_apply_def workflow_head_ok_def split: if_splits)
  with head show "created_at r \<le> t" by (simp add: same_operation_def)
next
  fix r s :: ApplyRecord
  show "checked_apply r = Ok s \<Longrightarrow> s = r" by simp
  show "checked_apply r = Ok r \<Longrightarrow> head_ok 4 r"
    by (auto simp: checked_apply_def workflow_head_ok_def split: if_splits)
  show "apply_stage_of (a_phase r) \<le> 4" by (cases "a_phase r") simp_all
qed

section \<open>Which updates a valid receipt accepts\<close>

definition apply_allowed :: "ApplyRecord \<Rightarrow> ApplyUpdate \<Rightarrow> bool" where
  "apply_allowed r u = (case (a_phase r, u) of
     (A_Prepared, Ready) \<Rightarrow> s_request_count (creations r) = 0
   | (A_Prepared, DispatchCreations) \<Rightarrow> s_request_count (creations r) \<noteq> 0
   | (A_Prepared, Abort) \<Rightarrow> True
   | (A_DispatchingCreations, CreationsAcknowledged c) \<Rightarrow>
       counts_ok True c (s_request_count (creations r))
   | (A_DispatchingCreations, CreationsNotDispatched) \<Rightarrow> True
   | (A_DispatchingCreations, CreationsUnknown) \<Rightarrow> True
   | (A_Continuation, DispatchChanges n) \<Rightarrow> n \<noteq> 0 \<and> n \<le> MAX_SAFE_INTEGER
   | (A_Continuation, Close) \<Rightarrow> True
   | (A_Continuation, Abort) \<Rightarrow> True
   | (A_DispatchingChanges, ChangesAcknowledged c) \<Rightarrow>
       (case changes r of None \<Rightarrow> False | Some s \<Rightarrow> counts_ok False c (s_request_count s))
   | (A_DispatchingChanges, ChangesNotDispatched) \<Rightarrow> True
   | (A_DispatchingChanges, ChangesUnknown) \<Rightarrow> True
   | _ \<Rightarrow> False)"

lemma stage_valid_count: "stage_valid h s \<Longrightarrow> s_request_count s = 0 \<longleftrightarrow> s_phase s = S_NotNeeded"
  by (simp add: stage_valid_def)

lemma set_stage_valid:
  assumes "stage_valid h s" and "s_request_count s \<noteq> 0"
  shows "stage_valid h (set_stage s p None) \<longleftrightarrow> p \<noteq> S_Acknowledged \<and> p \<noteq> S_NotNeeded"
    and "stage_valid h (set_stage s S_Acknowledged (Some c)) \<longleftrightarrow> counts_ok h c (s_request_count s)"
  using assms by (cases p; auto simp: stage_valid_def set_stage_def stage_facts_def)+

lemma new_stage_valid: "stage_valid h (new_stage n h) \<longleftrightarrow> n \<le> MAX_SAFE_INTEGER"
  by (auto simp: stage_valid_def new_stage_def stage_facts_def)

lemma new_stage_dispatch_valid:
  "n \<noteq> 0 \<Longrightarrow> stage_valid h (set_stage (new_stage n h) S_Dispatching None) \<longleftrightarrow> n \<le> MAX_SAFE_INTEGER"
  by (auto simp: stage_valid_def new_stage_def stage_facts_def set_stage_def)

lemma set_stage_simps [simp]:
  "s_phase (set_stage s p c) = p" "s_counts (set_stage s p c) = c"
  "s_request_count (set_stage s p c) = s_request_count s"
  "s_phase (new_stage n h) = (if n = 0 then S_NotNeeded else S_Prepared)"
  by (simp_all add: set_stage_def new_stage_def)

lemma workflow_head_ok_time:
  "workflow_head_ok v r \<Longrightarrow>
     workflow_head_ok v (r\<lparr>updated_at := t\<rparr>) \<longleftrightarrow> valid_timestamp t \<and> created_at r \<le> t"
  by (auto simp: workflow_head_ok_def head_ok_def)

text \<open>The record fields an update does not touch keep the header check.\<close>

lemma workflow_head_ok_apply [simp]:
  "workflow_head_ok v (r\<lparr>a_phase := p\<rparr>) \<longleftrightarrow> workflow_head_ok v r"
  "workflow_head_ok v (r\<lparr>creations := c\<rparr>) \<longleftrightarrow> workflow_head_ok v r"
  "workflow_head_ok v (r\<lparr>changes := d\<rparr>) \<longleftrightarrow> workflow_head_ok v r"
  for r :: ApplyRecord
  by (simp_all add: workflow_head_ok_def head_ok_def)

text \<open>With the header settled, the final check of an update is about its stages and layout.\<close>

definition apply_body_ok :: "ApplyRecord \<Rightarrow> bool" where
  "apply_body_ok r \<longleftrightarrow>
     stage_valid True (creations r) \<and> opt_all (stage_valid False) (changes r) \<and> apply_layout r"

lemma updated_apply_is_ok:
  assumes "checked_apply r = Ok r"
  shows "is_ok (updated_apply r u t) \<longleftrightarrow>
    valid_timestamp t \<and> created_at r \<le> t \<and>
    (\<exists>s. apply_step (r\<lparr>updated_at := t\<rparr>) u = Ok s \<and> apply_body_ok s)"
proof -
  from assms have kind: "a_kind r = ''apply-scene-workflow''" "a_rendered_composition r = ''unverified''"
    and head: "workflow_head_ok 4 r"
    by (auto simp: checked_apply_def split: if_splits)
  have "a_kind s = ''apply-scene-workflow'' \<and> a_rendered_composition s = ''unverified'' \<and>
      (workflow_head_ok 4 s \<longleftrightarrow> valid_timestamp t \<and> created_at r \<le> t)"
    if "apply_step (r\<lparr>updated_at := t\<rparr>) u = Ok s" for s
    using that kind workflow_head_ok_time [OF head, of t]
    by (cases "a_phase r"; cases u;
        auto simp: apply_step_def set_changes_def split: if_splits option.splits)
  then show ?thesis
    by (auto simp: is_ok_iff updated_apply_def checked_apply_def apply_body_ok_def)
qed

lemma apply_step_body_ok:
  assumes "apply_body_ok r"
  shows "(\<exists>s. apply_step (r\<lparr>updated_at := t\<rparr>) u = Ok s \<and> apply_body_ok s) \<longleftrightarrow> apply_allowed r u"
proof -
  from assms have stages: "stage_valid True (creations r)" "opt_all (stage_valid False) (changes r)"
    and layout: "apply_layout r" by (simp_all add: apply_body_ok_def)
  note count = stage_valid_count [OF stages(1)]
  note set = set_stage_valid [OF stages(1)]
  show ?thesis
  proof (cases "a_phase r")
    case A_Prepared
    with layout have "s_phase (creations r) = S_Prepared \<or> s_phase (creations r) = S_NotNeeded"
      and "changes r = None" by (simp_all add: apply_layout_def)
    with A_Prepared stages count set show ?thesis
      by (cases u; simp add: apply_step_def apply_allowed_def apply_body_ok_def apply_layout_def
          successful_creations_def opt_all_def; auto simp: word_gt_0)
  next
    case A_DispatchingCreations
    with layout have "s_phase (creations r) = S_Dispatching" and "changes r = None"
      by (simp_all add: apply_layout_def)
    with A_DispatchingCreations stages count set show ?thesis
      by (cases u; simp add: apply_step_def apply_allowed_def apply_body_ok_def apply_layout_def
          successful_creations_def opt_all_def; auto simp: counts_ok_def)
  next
    case A_Continuation
    with layout have "successful_creations r" and "changes r = None"
      by (simp_all add: apply_layout_def)
    with A_Continuation stages count show ?thesis
      by (cases u; simp add: apply_step_def apply_allowed_def apply_body_ok_def apply_layout_def
          successful_creations_def opt_all_def changes_in_def new_stage_valid
          new_stage_dispatch_valid word_gt_0)
        auto
  next
    case A_DispatchingChanges
    with layout obtain c where "successful_creations r" and c: "changes r = Some c"
        "s_phase c = S_Dispatching"
      by (auto simp: apply_layout_def changes_in_def split: option.splits)
    moreover from c stages have "stage_valid False c" by (simp add: opt_all_def)
    moreover from this c have "s_request_count c \<noteq> 0" by (simp add: stage_valid_count)
    ultimately show ?thesis
      using A_DispatchingChanges stages set_stage_valid [of False c]
      by (cases u; simp add: apply_step_def apply_allowed_def apply_body_ok_def apply_layout_def
          successful_creations_def opt_all_def changes_in_def set_changes_def)
  qed (cases u; simp add: apply_step_def apply_allowed_def)+
qed

section \<open>Properties\<close>

text \<open>The updates a valid receipt accepts are exactly those of the phase table, with counts
  that add up under the stage's failure policy, a change count within the safe integers, and a
  valid time not before the creation; the final check of the new receipt refuses nothing else.\<close>

lemma apply_update_exact:
  assumes "checked_apply r = Ok r"
  shows "is_ok (updated_apply r u t) \<longleftrightarrow>
    apply_allowed r u \<and> valid_timestamp t \<and> created_at r \<le> t"
proof -
  from assms have "apply_body_ok r"
    by (auto simp: checked_apply_def apply_body_ok_def split: if_splits)
  from updated_apply_is_ok [OF assms] apply_step_body_ok [OF this] show ?thesis by auto
qed

text \<open>In every receipt reached by updates from a prepared one, a change stage is recorded only
  if no creation was needed or all creations were sent and succeeded: changes never start after a
  failed, skipped, unsent or unknown creation.\<close>

lemma changes_only_after_creations:
  assumes "checked_apply (prepared_apply endpoint oid gen n t) = Ok (prepared_apply endpoint oid gen n t)"
    and "run_updates updated_apply (prepared_apply endpoint oid gen n t) us = Ok r"
    and "changes r = Some s"
  shows "s_request_count (creations r) = 0 \<or>
    s_request_dispatched (creations r) = Some True \<and>
    s_batch_acknowledged (creations r) = Some True \<and>
    s_counts (creations r) =
      Some \<lparr>ac_successful = s_request_count (creations r), ac_failed = 0, ac_skipped = 0\<rparr>"
proof -
  from v4.run_checked [OF assms(1,2)] have valid: "stage_valid True (creations r)" "apply_layout r"
    by (auto simp: checked_apply_def split: if_splits)
  from valid(2) assms(3) have "successful_creations r"
    by (auto simp: apply_layout_def changes_in_def split: ApplyPhase.splits)
  then consider "s_phase (creations r) = S_NotNeeded"
    | c where "s_phase (creations r) = S_Acknowledged" "s_counts (creations r) = Some c"
      "ac_failed c = 0" "ac_skipped c = 0"
    by (auto simp: successful_creations_def split: option.splits)
  then show ?thesis
  proof cases
    case 1
    with valid(1) show ?thesis by (simp add: stage_valid_def)
  next
    case (2 c)
    with valid(1) show ?thesis
      by (auto simp: stage_valid_def stage_facts_def counts_ok_def counts_add_up_def
          checked_add_def split: if_splits intro!: ApplyCounts.equality)
  qed
qed

end
