(* ===== verification/Capture_Receipt.thy ===== *)
theory Capture_Receipt
  imports Receipts
begin

text \<open>
  The version 5 receipt of the Capture Window workflow (\<open>CapturePlan\<close>, \<open>CaptureStepRecord\<close>,
  \<open>CaptureRecord\<close>, \<open>CaptureReceipt\<close> of \<open>src/native/src/operation_store.rs\<close>): up to three steps
  in a fixed order, of which the plan needs some, and the guarded updates between its six phases.
  The array of three steps is a list whose length the check demands. The receipt is a workflow
  family; the theory also shows that a step is never sent before every earlier needed step has
  succeeded, and which updates a valid receipt accepts.
\<close>

section \<open>Plans and steps\<close>

datatype CaptureInitial = CI_None | CI_Create | CI_Retarget

record CapturePlan =
  cp_initial :: CaptureInitial
  cp_audio :: bool
  cp_fit :: bool

definition plan_counts :: "CapturePlan \<Rightarrow> u8 list" where
  "plan_counts p = [if cp_initial p \<noteq> CI_None then 1 else 0, if cp_audio p then 2 else 0,
     if cp_fit p then 1 else 0]"

definition has_effects :: "CapturePlan \<Rightarrow> bool" where
  "has_effects p \<longleftrightarrow> list_ex (\<lambda>n. n > 0) (plan_counts p)"

datatype CaptureStep = Initial | Audio | Fit

primrec step_index :: "CaptureStep \<Rightarrow> nat" where
  "step_index Initial = 0"
| "step_index Audio = 1"
| "step_index Fit = 2"

definition all_steps :: "CaptureStep list" where
  "all_steps = [Initial, Audio, Fit]"

datatype CapturePhase =
  C_Prepared | C_Dispatching | C_Continuation | C_Closed | C_Aborted | C_Unknown

datatype CaptureStepPhase =
  CS_NotNeeded | CS_Prepared | CS_Dispatching | CS_Acknowledged | CS_NotDispatched | CS_Unknown

record CaptureCounts =
  cc_successful :: u8
  cc_failed :: u8
  cc_skipped :: u8

record CaptureStepRecord =
  cs_step :: CaptureStep
  cs_request_count :: u8
  cs_phase :: CaptureStepPhase
  cs_request_dispatched :: "bool option"
  cs_reply_acknowledged :: "bool option"
  cs_counts :: "CaptureCounts option"

definition new_step :: "CaptureStep \<Rightarrow> u8 \<Rightarrow> CaptureStepRecord" where
  "new_step st count =
     \<lparr>cs_step = st, cs_request_count = count,
      cs_phase = (if count = 0 then CS_NotNeeded else CS_Prepared),
      cs_request_dispatched = Some False, cs_reply_acknowledged = None, cs_counts = None\<rparr>"

primrec step_disposition :: "CaptureStepPhase \<Rightarrow> bool option \<times> bool option" where
  "step_disposition CS_NotNeeded = (Some False, None)"
| "step_disposition CS_Prepared = (Some False, None)"
| "step_disposition CS_NotDispatched = (Some False, None)"
| "step_disposition CS_Dispatching = (None, None)"
| "step_disposition CS_Unknown = (None, None)"
| "step_disposition CS_Acknowledged = (Some True, Some True)"

definition set_step :: "CaptureStepRecord \<Rightarrow> CaptureStepPhase \<Rightarrow> CaptureCounts option \<Rightarrow>
    CaptureStepRecord" where
  "set_step s p counts =
     s\<lparr>cs_phase := p, cs_counts := counts, cs_request_dispatched := fst (step_disposition p),
       cs_reply_acknowledged := snd (step_disposition p)\<rparr>"

definition step_success :: "CaptureStepRecord \<Rightarrow> bool" where
  "step_success s \<longleftrightarrow> cs_phase s = CS_NotNeeded \<or>
     cs_phase s = CS_Acknowledged \<and>
     (case cs_counts s of None \<Rightarrow> False | Some c \<Rightarrow> cc_failed c = 0 \<and> cc_skipped c = 0)"

definition step_counts_ok :: "CaptureStep \<Rightarrow> u8 \<Rightarrow> CaptureCounts \<Rightarrow> bool" where
  "step_counts_ok st count c \<longleftrightarrow>
     (ucast (cc_successful c) :: u16) + ucast (cc_failed c) + ucast (cc_skipped c) = ucast count \<and>
     cc_failed c \<le> 1 \<and> (cc_failed c \<noteq> 0 \<or> cc_skipped c = 0) \<and> (st = Audio \<or> cc_skipped c = 0)"

definition step_valid :: "CaptureStepRecord \<Rightarrow> CaptureStep \<Rightarrow> u8 \<Rightarrow> bool" where
  "step_valid s st count =
     (if cs_step s \<noteq> st \<or> cs_request_count s \<noteq> count \<or>
         (count = 0) \<noteq> (cs_phase s = CS_NotNeeded) then False
      else (cs_request_dispatched s, cs_reply_acknowledged s) = step_disposition (cs_phase s) \<and>
        (if cs_phase s = CS_Acknowledged
         then (case cs_counts s of None \<Rightarrow> False | Some c \<Rightarrow> step_counts_ok st count c)
         else cs_counts s = None))"

section \<open>Receipts\<close>

record CaptureRecord = receipt_head +
  c_kind :: string
  c_phase :: CapturePhase
  c_plan :: CapturePlan
  active_step :: "CaptureStep option"
  steps :: "CaptureStepRecord list"
  rendered_target :: string

definition next_step :: "CaptureRecord \<Rightarrow> CaptureStep option" where
  "next_step r = map_option cs_step (List.find (\<lambda>s. cs_phase s = CS_Prepared) (steps r))"

definition acknowledged :: "CaptureRecord \<Rightarrow> (CaptureStep \<times> CaptureCounts) list" where
  "acknowledged r = List.map_filter (\<lambda>s. map_option (Pair (cs_step s)) (cs_counts s)) (steps r)"

definition needed :: "CaptureRecord \<Rightarrow> CaptureStepRecord list" where
  "needed r = filter (\<lambda>s. cs_request_count s > 0) (steps r)"

definition in_phase :: "CaptureStepPhase \<Rightarrow> CaptureStepRecord \<Rightarrow> bool" where
  "in_phase p s \<longleftrightarrow> cs_phase s = p"

definition capture_layout :: "CaptureRecord \<Rightarrow> bool" where
  "capture_layout r = (let ns = needed r in case c_phase r of
     C_Prepared \<Rightarrow> active_step r = None \<and> list_all (in_phase CS_Prepared) ns
   | C_Continuation \<Rightarrow> active_step r = None \<and> list_ex step_success ns \<and>
       (let first = or_else (position (\<lambda>s. \<not> step_success s) ns) (length ns)
        in list_all (in_phase CS_Prepared) (drop first ns))
   | C_Dispatching \<Rightarrow> (case active_step r of None \<Rightarrow> False | Some active \<Rightarrow>
       (case position (\<lambda>s. cs_step s = active) ns of None \<Rightarrow> False | Some i \<Rightarrow>
          list_all step_success (take i ns) \<and> in_phase CS_Dispatching (ns ! i) \<and>
          list_all (in_phase CS_Prepared) (drop (Suc i) ns)))
   | C_Closed \<Rightarrow> active_step r = None \<and> list_all step_success ns
   | C_Unknown \<Rightarrow> active_step r = None \<and>
       (case position (in_phase CS_Unknown) ns of None \<Rightarrow> False | Some i \<Rightarrow>
          list_all step_success (take i ns) \<and>
          list_all (in_phase CS_NotDispatched) (drop (Suc i) ns))
   | C_Aborted \<Rightarrow> active_step r = None \<and>
       (let first = or_else (position (\<lambda>s. \<not> step_success s) ns) (length ns)
        in list_all step_success (take first ns) \<and>
          list_all (\<lambda>(i, s). in_phase CS_NotDispatched s \<or>
              i = 0 \<and> in_phase CS_Acknowledged s \<and>
              (case cs_counts s of None \<Rightarrow> False | Some c \<Rightarrow> cc_failed c > 0))
            (enumerate 0 (drop first ns))))"

definition steps_valid :: "CaptureRecord \<Rightarrow> bool" where
  "steps_valid r \<longleftrightarrow> length (steps r) = 3 \<and>
     list_all (\<lambda>((s, k), n). step_valid s k n)
       (zip (zip (steps r) all_steps) (plan_counts (c_plan r)))"

definition checked_capture :: "CaptureRecord \<Rightarrow> (StoreError, CaptureRecord) result" where
  "checked_capture r =
     (if c_kind r = ''capture-window-workflow'' \<and> workflow_head_ok 5 r \<and> has_effects (c_plan r) \<and>
         rendered_target r = ''unverified'' \<and> steps_valid r \<and> capture_layout r
      then Ok r else Err InvalidReceipt)"

definition prepared_capture :: "string \<Rightarrow> string \<Rightarrow> u64 \<Rightarrow> CapturePlan \<Rightarrow> string \<Rightarrow> CaptureRecord" where
  "prepared_capture endpoint oid gen plan t =
     \<lparr>version = 5, operation_id = oid, endpoint_hash = endpoint, generation = gen,
      created_at = t, updated_at = t, postcondition_observed = False,
      c_kind = ''capture-window-workflow'', c_phase = C_Prepared, c_plan = plan,
      active_step = None,
      steps = map (\<lambda>st. new_step st (plan_counts plan ! step_index st)) all_steps,
      rendered_target = ''unverified''\<rparr>"

datatype CaptureUpdate =
  CU_Dispatch CaptureStep | CU_Acknowledged CaptureCounts | CU_NotDispatched | CU_Unknown
| CU_Close | CU_Abort

text \<open>Every step still prepared is marked as never sent.\<close>

definition retire_prepared :: "CaptureStepRecord list \<Rightarrow> CaptureStepRecord list" where
  "retire_prepared ss =
     map (\<lambda>s. if cs_phase s = CS_Prepared then set_step s CS_NotDispatched None else s) ss"

definition set_at :: "CaptureStepRecord list \<Rightarrow> CaptureStep \<Rightarrow> CaptureStepPhase \<Rightarrow>
    CaptureCounts option \<Rightarrow> CaptureStepRecord list" where
  "set_at ss st p counts = ss[step_index st := set_step (ss ! step_index st) p counts]"

definition capture_step :: "CaptureRecord \<Rightarrow> CaptureUpdate \<Rightarrow> (StoreError, CaptureRecord) result" where
  "capture_step r u = (case u of
     CU_Dispatch st \<Rightarrow>
       (if c_phase r \<in> {C_Prepared, C_Continuation} \<and> next_step r = Some st
        then Ok (r\<lparr>c_phase := C_Dispatching, active_step := Some st,
                   steps := set_at (steps r) st CS_Dispatching None\<rparr>)
        else Err Conflict)
   | CU_Acknowledged c \<Rightarrow>
       (if c_phase r = C_Dispatching
        then (case active_step r of None \<Rightarrow> Err Conflict | Some st \<Rightarrow>
          (let ss = set_at (steps r) st CS_Acknowledged (Some c) in
           if cc_failed c = 0 \<and> cc_skipped c = 0
           then Ok (r\<lparr>c_phase := C_Continuation, active_step := None, steps := ss\<rparr>)
           else Ok (r\<lparr>c_phase := C_Aborted, active_step := None, steps := retire_prepared ss\<rparr>)))
        else Err Conflict)
   | CU_NotDispatched \<Rightarrow>
       (if c_phase r = C_Dispatching
        then (case active_step r of None \<Rightarrow> Err Conflict | Some st \<Rightarrow>
          Ok (r\<lparr>c_phase := C_Aborted, active_step := None,
                steps := retire_prepared (set_at (steps r) st CS_NotDispatched None)\<rparr>))
        else Err Conflict)
   | CU_Unknown \<Rightarrow>
       (if c_phase r = C_Dispatching
        then (case active_step r of None \<Rightarrow> Err Conflict | Some st \<Rightarrow>
          Ok (r\<lparr>c_phase := C_Unknown, active_step := None,
                steps := retire_prepared (set_at (steps r) st CS_Unknown None)\<rparr>))
        else Err Conflict)
   | CU_Close \<Rightarrow>
       (if c_phase r = C_Continuation \<and> next_step r = None then Ok (r\<lparr>c_phase := C_Closed\<rparr>)
        else Err Conflict)
   | CU_Abort \<Rightarrow>
       (if c_phase r \<in> {C_Prepared, C_Continuation}
        then Ok (r\<lparr>c_phase := C_Aborted, steps := retire_prepared (steps r)\<rparr>)
        else Err Conflict))"

definition updated_capture :: "CaptureRecord \<Rightarrow> CaptureUpdate \<Rightarrow> string \<Rightarrow>
    (StoreError, CaptureRecord) result" where
  "updated_capture r u t = and_then (capture_step (r\<lparr>updated_at := t\<rparr>) u) checked_capture"

definition capture_dispatching :: "CaptureRecord \<Rightarrow> bool" where
  "capture_dispatching r \<longleftrightarrow> c_phase r = C_Dispatching"

definition capture_blocking :: "CaptureRecord \<Rightarrow> bool" where
  "capture_blocking r \<longleftrightarrow> c_phase r \<notin> {C_Closed, C_Aborted}"

definition capture_live :: "CaptureRecord \<Rightarrow> bool" where
  "capture_live r \<longleftrightarrow> c_phase r \<in> {C_Prepared, C_Dispatching, C_Continuation}"

text \<open>Two stages per step that has left its prepared phase, and a last stage for the end.\<close>

definition capture_stage :: "CaptureRecord \<Rightarrow> nat" where
  "capture_stage r =
     (if c_phase r \<in> {C_Closed, C_Aborted, C_Unknown} then 8
      else 2 * length (filter (\<lambda>s. cs_phase s \<noteq> CS_Prepared) (steps r)) +
        (if c_phase r = C_Dispatching then 0 else 1))"

section \<open>The receipt is a workflow family\<close>

lemma checked_capture_Ok_iff [simp]:
  "checked_capture r = Ok s \<longleftrightarrow> s = r \<and> checked_capture r \<noteq> Err InvalidReceipt"
  by (auto simp: checked_capture_def)

lemma checked_captureD:
  assumes "checked_capture r = Ok r"
  shows "workflow_head_ok 5 r" and "has_effects (c_plan r)" and "steps_valid r"
    and "capture_layout r" and "c_kind r = ''capture-window-workflow''"
    and "rendered_target r = ''unverified''"
  using assms by (auto simp: checked_capture_def split: if_splits)

text \<open>The three steps of a valid receipt, in order.\<close>

lemma steps_validE:
  assumes "steps_valid r"
  obtains a b c where "steps r = [a, b, c]"
    "step_valid a Initial (plan_counts (c_plan r) ! 0)"
    "step_valid b Audio (plan_counts (c_plan r) ! 1)"
    "step_valid c Fit (plan_counts (c_plan r) ! 2)"
  using assms
  by (auto simp: steps_valid_def all_steps_def plan_counts_def numeral_3_eq_3 length_Suc_conv)

lemma step_validD:
  assumes "step_valid s st n"
  shows "cs_step s = st" and "cs_request_count s = n" and "n = 0 \<longleftrightarrow> cs_phase s = CS_NotNeeded"
  using assms by (auto simp: step_valid_def split: if_splits)

lemma set_step_simps [simp]:
  "cs_phase (set_step s p c) = p" "cs_counts (set_step s p c) = c"
  "cs_step (set_step s p c) = cs_step s"
  "cs_request_count (set_step s p c) = cs_request_count s"
  by (simp_all add: set_step_def)

lemma set_at_simps [simp]:
  "set_at [a, b, c] Initial p k = [set_step a p k, b, c]"
  "set_at [a, b, c] Audio p k = [a, set_step b p k, c]"
  "set_at [a, b, c] Fit p k = [a, b, set_step c p k]"
  by (simp_all add: set_at_def)

lemma capture_step_head:
  assumes "capture_step r u = Ok s"
  shows "same_operation r s" and "updated_at s = updated_at r" and "c_plan s = c_plan r"
    and "c_kind s = c_kind r" and "rendered_target s = rendered_target r"
    and "postcondition_observed s = postcondition_observed r"
  using assms
  by (auto simp: capture_step_def same_operation_def Let_def split: CaptureUpdate.splits if_splits option.splits)

lemma updated_captureE:
  assumes "updated_capture r u t = Ok s"
  shows "capture_step (r\<lparr>updated_at := t\<rparr>) u = Ok s" and "checked_capture s = Ok s"
  using assms by (auto simp: updated_capture_def)

lemma capture_stage_le: "steps_valid r \<Longrightarrow> capture_stage r \<le> 8"
  by (elim steps_validE) (simp add: capture_stage_def)

lemma next_step_prepared:
  assumes "steps r = [a, b, c]" and "cs_step a = Initial" "cs_step b = Audio" "cs_step c = Fit"
  shows "next_step r = (if cs_phase a = CS_Prepared then Some Initial
    else if cs_phase b = CS_Prepared then Some Audio
    else if cs_phase c = CS_Prepared then Some Fit else None)"
  using assms by (simp add: next_step_def)

lemma active_dispatching:
  assumes "capture_layout r" and "c_phase r = C_Dispatching"
  obtains x s where "active_step r = Some x" "s \<in> set (steps r)" "cs_step s = x"
    "cs_phase s = CS_Dispatching"
proof -
  from assms obtain x i where x: "active_step r = Some x"
    and i: "position (\<lambda>s. cs_step s = x) (needed r) = Some i" "in_phase CS_Dispatching (needed r ! i)"
    by (auto simp: capture_layout_def Let_def split: option.splits)
  from position_Some [OF i(1)] have "i < length (needed r)" "cs_step (needed r ! i) = x" by auto
  moreover from this have "needed r ! i \<in> set (steps r)"
    using nth_mem [of i "needed r"] by (simp add: needed_def)
  ultimately show ?thesis
    using that [OF x] i(2) by (auto simp: in_phase_def)
qed

lemma capture_stage_open:
  assumes "steps_valid r" and "c_phase r \<in> {C_Prepared, C_Dispatching, C_Continuation}"
  shows "capture_stage r < 8"
proof -
  have "length (filter (\<lambda>s. cs_phase s \<noteq> CS_Prepared) (steps r)) \<le> 3"
    using assms(1) length_filter_le [of "\<lambda>s. cs_phase s \<noteq> CS_Prepared" "steps r"]
    by (simp add: steps_valid_def)
  with assms(2) show ?thesis by (auto simp: capture_stage_def)
qed

lemma capture_stage_final [simp]:
  "c_phase r \<in> {C_Closed, C_Aborted, C_Unknown} \<Longrightarrow> capture_stage r = 8"
  by (simp add: capture_stage_def)

lemma capture_step_advances:
  assumes "steps_valid r" and "capture_layout r" and "capture_step r u = Ok s"
  shows "capture_stage r < capture_stage s"
proof -
  obtain a b c where st: "steps r = [a, b, c]"
    and v: "step_valid a Initial (plan_counts (c_plan r) ! 0)"
      "step_valid b Audio (plan_counts (c_plan r) ! 1)" "step_valid c Fit (plan_counts (c_plan r) ! 2)"
    using steps_validE [OF assms(1)] .
  note steps = v [THEN step_validD(1)]
  note nxt = next_step_prepared [OF st steps]
  let ?np = "\<lambda>ss. length (filter (\<lambda>s. cs_phase s \<noteq> CS_Prepared) ss)"
  show ?thesis
  proof (cases u)
    case (CU_Dispatch x)
    with assms(3) have x: "c_phase r \<in> {C_Prepared, C_Continuation}" "next_step r = Some x"
      and s: "s = r\<lparr>c_phase := C_Dispatching, active_step := Some x,
        steps := set_at (steps r) x CS_Dispatching None\<rparr>"
      by (auto simp: capture_step_def split: if_splits)
    from nxt x(2) have "cs_phase ([a, b, c] ! step_index x) = CS_Prepared"
      by (simp split: if_splits)
    then have "?np (set_at [a, b, c] x CS_Dispatching None) = Suc (?np [a, b, c])"
      by (cases x) simp_all
    with x(1) s st show ?thesis
      by (auto simp: capture_stage_def simp del: set_at_simps filter.simps)
  next
    case (CU_Acknowledged k)
    with assms(3) have ph: "c_phase r = C_Dispatching"
      by (auto simp: capture_step_def split: if_splits)
    obtain x z where x: "active_step r = Some x" "z \<in> set (steps r)" "cs_step z = x"
        "cs_phase z = CS_Dispatching"
      using active_dispatching [OF assms(2) ph] .
    from x(2) st have "z = a \<or> z = b \<or> z = c" by simp
    then have z: "cs_phase ([a, b, c] ! step_index x) = CS_Dispatching"
      by (elim disjE) (use x(3,4) steps in auto)
    from z have "?np (set_at [a, b, c] x CS_Acknowledged (Some k)) = ?np [a, b, c]"
      by (cases x) simp_all
    moreover have "c_phase s = C_Aborted \<or> c_phase s = C_Continuation \<and>
        steps s = set_at (steps r) x CS_Acknowledged (Some k)"
      using CU_Acknowledged assms(3) x(1) ph by (auto simp: capture_step_def Let_def split: if_splits)
    ultimately show ?thesis
      using capture_stage_open [OF assms(1)] ph st
      by (auto simp: capture_stage_def [of r] capture_stage_def [of s]
          simp del: set_at_simps filter.simps)
  qed (use assms(3) capture_stage_open [OF assms(1)] in
      \<open>auto simp: capture_step_def split: if_splits option.splits\<close>)
qed

lemma capture_time_irrelevant [simp]:
  "needed (r\<lparr>updated_at := t\<rparr>) = needed r"
  "steps_valid (r\<lparr>updated_at := t\<rparr>) = steps_valid r"
  "capture_layout (r\<lparr>updated_at := t\<rparr>) = capture_layout r"
  "capture_stage (r\<lparr>updated_at := t\<rparr>) = capture_stage r"
  "next_step (r\<lparr>updated_at := t\<rparr>) = next_step r"
proof -
  show needed_eq: "needed (r\<lparr>updated_at := t\<rparr>) = needed r"
    by (simp add: needed_def)
  show "capture_layout (r\<lparr>updated_at := t\<rparr>) = capture_layout r"
    by (cases "c_phase r") (simp_all add: capture_layout_def needed_eq)
qed (simp_all add: steps_valid_def capture_stage_def next_step_def)

interpretation v5: workflow_family checked_capture updated_capture 5 capture_stage 8
proof unfold_locales
  fix r s :: CaptureRecord and u t
  assume *: "updated_capture r u t = Ok s"
  note s = updated_captureE [OF *] and head = capture_step_head [OF updated_captureE(1) [OF *]]
  from s show "checked_capture s = Ok s" by simp
  from head show "same_operation r s" "updated_at s = t"
    by (simp_all add: same_operation_def)
  from checked_captureD(1) [OF s(2)] have "\<not> updated_at s < created_at s"
    by (simp add: workflow_head_ok_def)
  with head show "created_at r \<le> t" by (simp add: same_operation_def)
  assume "checked_capture r = Ok r"
  with capture_step_advances [OF _ _ s(1)] checked_captureD(3,4) [of r]
  show "capture_stage r < capture_stage s" by simp
next
  fix r s :: CaptureRecord
  show "checked_capture r = Ok s \<Longrightarrow> s = r" by simp
  show "checked_capture r = Ok r \<Longrightarrow> head_ok 5 r"
    using checked_captureD(1) by (auto simp: workflow_head_ok_def)
  show "checked_capture r = Ok r \<Longrightarrow> capture_stage r \<le> 8"
    using checked_captureD(3) capture_stage_le by blast
qed

section \<open>Order of the steps\<close>

text \<open>A step has been sent, or may have been.\<close>

definition attempted :: "CaptureStepRecord \<Rightarrow> bool" where
  "attempted s \<longleftrightarrow> cs_phase s \<in> {CS_Dispatching, CS_Acknowledged, CS_Unknown}"

text \<open>In every layout the needed steps are a block of successes, at most one step that is not a
  success but may have been sent, and then steps that were not sent.\<close>

definition ordered_steps :: "CaptureStepRecord list \<Rightarrow> bool" where
  "ordered_steps ns \<longleftrightarrow> (\<exists>i. list_all step_success (take i ns) \<and>
     list_all (\<lambda>s. \<not> attempted s) (drop (Suc i) ns))"

lemma needed_success_attempted: "step_success s \<Longrightarrow> cs_phase s \<noteq> CS_NotNeeded \<Longrightarrow> attempted s"
  by (auto simp: step_success_def attempted_def)

lemma list_all_take_position:
  "list_all P (take (or_else (position (\<lambda>s. \<not> P s) ns) (length ns)) ns)"
proof (cases "position (\<lambda>s. \<not> P s) ns")
  case None
  moreover from None have "\<forall>s \<in> set ns. P s" by (simp add: position_None_iff)
  ultimately show ?thesis by (simp add: or_else_def list_all_iff)
next
  case (Some i)
  from position_Some [OF this] Some show ?thesis by (simp add: or_else_def list_all_iff)
qed

lemma in_phase_not_attempted:
  "list_all (in_phase CS_Prepared) xs \<Longrightarrow> list_all (\<lambda>s. \<not> attempted s) xs"
  "list_all (in_phase CS_NotDispatched) xs \<Longrightarrow> list_all (\<lambda>s. \<not> attempted s) xs"
  by (auto simp: list_all_iff in_phase_def attempted_def)

lemma list_all_drop_Suc: "list_all P (drop i xs) \<Longrightarrow> list_all P (drop (Suc i) xs)"
  using set_drop_subset_set_drop [of i "Suc i" xs] by (auto simp: list_all_iff)

lemma enumerate_tail:
  "list_all (\<lambda>(i, s). Q s \<or> i = 0 \<and> R s) (enumerate 0 xs) \<Longrightarrow> list_all Q (drop 1 xs)"
proof -
  have "list_all (\<lambda>(i, s). Q s \<or> i = 0 \<and> R s) (enumerate (Suc n) ys) \<Longrightarrow> list_all Q ys" for n ys
    by (induction ys arbitrary: n) auto
  then show "list_all (\<lambda>(i, s). Q s \<or> i = 0 \<and> R s) (enumerate 0 xs) \<Longrightarrow> list_all Q (drop 1 xs)"
    by (cases xs) auto
qed

lemma layout_ordered:
  assumes "capture_layout r"
  shows "ordered_steps (needed r)"
proof -
  let ?first = "or_else (position (\<lambda>s. \<not> step_success s) (needed r)) (length (needed r))"
  have first: "list_all step_success (take ?first (needed r))"
    by (rule list_all_take_position)
  show ?thesis
  proof (cases "c_phase r")
    case C_Prepared
    with assms have "list_all (\<lambda>s. \<not> attempted s) (drop (Suc 0) (needed r))"
      by (intro in_phase_not_attempted list_all_drop_Suc) (simp add: capture_layout_def)
    then show ?thesis by (auto simp: ordered_steps_def intro!: exI [of _ 0])
  next
    case C_Continuation
    with assms have "list_all (\<lambda>s. \<not> attempted s) (drop (Suc ?first) (needed r))"
      by (intro in_phase_not_attempted list_all_drop_Suc) (simp add: capture_layout_def Let_def)
    with first show ?thesis unfolding ordered_steps_def by blast
  next
    case C_Dispatching
    with assms obtain i where "list_all step_success (take i (needed r))"
      "list_all (in_phase CS_Prepared) (drop (Suc i) (needed r))"
      by (auto simp: capture_layout_def Let_def split: option.splits)
    then show ?thesis unfolding ordered_steps_def using in_phase_not_attempted by blast
  next
    case C_Unknown
    with assms obtain i where "list_all step_success (take i (needed r))"
      "list_all (in_phase CS_NotDispatched) (drop (Suc i) (needed r))"
      by (auto simp: capture_layout_def Let_def split: option.splits)
    then show ?thesis unfolding ordered_steps_def using in_phase_not_attempted by blast
  next
    case C_Closed
    with assms have "list_all step_success (take (length (needed r)) (needed r))"
      by (simp add: capture_layout_def)
    then show ?thesis unfolding ordered_steps_def by (auto intro!: exI [of _ "length (needed r)"])
  next
    case C_Aborted
    with assms have "list_all (in_phase CS_NotDispatched) (drop 1 (drop ?first (needed r)))"
      by (intro enumerate_tail) (auto simp: capture_layout_def Let_def)
    then have "list_all (\<lambda>s. \<not> attempted s) (drop (Suc ?first) (needed r))"
      by (intro in_phase_not_attempted) simp
    with first show ?thesis unfolding ordered_steps_def by blast
  qed
qed

lemma ordered_stepsD:
  assumes "ordered_steps ns" and "i < j" and "j < length ns" and "attempted (ns ! j)"
  shows "step_success (ns ! i)"
proof -
  from assms(1) obtain k where k: "list_all step_success (take k ns)"
      "list_all (\<lambda>s. \<not> attempted s) (drop (Suc k) ns)"
    by (auto simp: ordered_steps_def)
  have "j \<le> k"
  proof (rule ccontr)
    assume "\<not> j \<le> k"
    with assms(3) have "ns ! j \<in> set (drop (Suc k) ns)"
      by (auto simp: in_set_conv_nth intro!: exI [of _ "j - Suc k"])
    with k(2) assms(4) show False by (auto simp: list_all_iff)
  qed
  with assms have "ns ! i \<in> set (take k ns)"
    by (auto simp: in_set_conv_nth intro!: exI [of _ i])
  with k(1) show ?thesis by (auto simp: list_all_iff)
qed

lemma step_phase_needed:
  assumes "steps_valid r" and "s \<in> set (steps r)"
  shows "cs_phase s = CS_NotNeeded \<longleftrightarrow> cs_request_count s = 0"
proof -
  obtain a b c where *: "steps r = [a, b, c]"
    "step_valid a Initial (plan_counts (c_plan r) ! 0)"
    "step_valid b Audio (plan_counts (c_plan r) ! 1)"
    "step_valid c Fit (plan_counts (c_plan r) ! 2)"
    using steps_validE [OF assms(1)] .
  from * assms(2) have "\<exists>k n. step_valid s k n" by auto
  then show ?thesis by (auto dest: step_validD)
qed

section \<open>Properties\<close>

text \<open>In every receipt reached by updates from a prepared one, the needed steps are sent
  strictly in order: if a step has been sent or may have been sent, every earlier needed step was
  acknowledged with no failed and no skipped request.\<close>

lemma capture_steps_in_order:
  assumes "checked_capture (prepared_capture endpoint oid gen plan t) =
      Ok (prepared_capture endpoint oid gen plan t)"
    and "run_updates updated_capture (prepared_capture endpoint oid gen plan t) us = Ok r"
    and "i < j" and "j < length (needed r)"
    and "cs_phase (needed r ! j) \<in> {CS_Dispatching, CS_Acknowledged, CS_Unknown}"
  shows "cs_phase (needed r ! i) = CS_Acknowledged \<and>
    (\<exists>c. cs_counts (needed r ! i) = Some c \<and> cc_failed c = 0 \<and> cc_skipped c = 0)"
proof -
  note valid = checked_captureD [OF v5.run_checked [OF assms(1,2)]]
  have "needed r ! i \<in> set (needed r)"
    using assms(3,4) by simp
  then have mem: "needed r ! i \<in> set (steps r)" and pos: "cs_request_count (needed r ! i) > 0"
    by (simp_all add: needed_def)
  have "cs_phase (needed r ! i) \<noteq> CS_NotNeeded"
    using step_phase_needed [OF valid(3) mem] pos by simp
  moreover have "step_success (needed r ! i)"
    using ordered_stepsD [OF layout_ordered [OF valid(4)] assms(3,4)] assms(5)
    by (simp add: attempted_def)
  ultimately show ?thesis
    by (auto simp: step_success_def split: option.splits)
qed

definition sample_plan :: CapturePlan where
  "sample_plan = \<lparr>cp_initial = CI_Create, cp_audio = False, cp_fit = True\<rparr>"

definition sample_capture_updates :: "(CaptureUpdate \<times> string) list" where
  "sample_capture_updates =
     [(CU_Dispatch Initial, ''2026-01-02T03:04:06.000Z''),
      (CU_Acknowledged \<lparr>cc_successful = 1, cc_failed = 0, cc_skipped = 0\<rparr>, ''2026-01-02T03:04:06.000Z''),
      (CU_Dispatch Fit, ''2026-01-02T03:04:06.000Z'')]"

lemmas capture_defs = checked_capture_def workflow_head_ok_def head_ok_def prepared_capture_def
  MAX_SAFE_INTEGER_def steps_valid_def all_steps_def plan_counts_def new_step_def step_valid_def
  has_effects_def sample_plan_def capture_layout_def needed_def in_phase_def

end
