(* ===== verification/Receipt_Json.thy ===== *)
theory Receipt_Json
  imports Json Apply_Receipt Capture_Receipt
begin

text \<open>
  The stored form of the five receipt families of \<open>src/native/src/operation_store.rs\<close>: \<open>to_value\<close>
  and \<open>from_value\<close> of each family, with the derived serialisation of their records, and
  \<open>StoredReceipt\<close> with the version dispatch of \<open>read_stored\<close> and the display form \<open>summary\<close>. The
  text of a JSON value is not modelled here: the store's theory takes \<open>serde_json\<close>'s printer and
  parser as a parameter.
\<close>

section \<open>Version 1\<close>

primrec kind_name :: "OperationKind \<Rightarrow> string" where
  "kind_name StageScene = ''stage-scene''"
| "kind_name TakeScene = ''take-scene''"
| "kind_name RecordStart = ''record-start''"
| "kind_name RecordStop = ''record-stop''"

definition all_kinds :: "OperationKind list" where
  "all_kinds = [StageScene, TakeScene, RecordStart, RecordStop]"

definition all_phases :: "Phase list" where
  "all_phases = [Prepared, Dispatching, Accepted, Observed, NotDispatched, Unknown]"

text \<open>\<open>skip_serializing_if = Option::is_none\<close>.\<close>

definition if_some :: "string \<Rightarrow> string option \<Rightarrow> (string \<times> json) list" where
  "if_some k v = (case v of None \<Rightarrow> [] | Some s \<Rightarrow> [(k, JString s)])"

definition operation_value :: "OperationRecord \<Rightarrow> json" where
  "operation_value r = mk_object
     ([(''version'', of_u8 (version r)), (''operationId'', JString (operation_id r)),
       (''kind'', JString (kind_name (kind r))), (''endpointHash'', JString (endpoint_hash r)),
       (''generation'', of_u64 (generation r)), (''createdAt'', JString (created_at r)),
       (''updatedAt'', JString (updated_at r)), (''phase'', JString (phase_name (phase r))),
       (''requestDispatched'', of_option JBool (request_dispatched r)),
       (''requestAccepted'', of_option JBool (request_accepted r)),
       (''postconditionObserved'', JBool (postcondition_observed r)),
       (''renderedComposition'', JString (rendered_composition r))] @
      if_some ''collectionHash'' (collection_hash r) @ if_some ''sceneUuid'' (scene_uuid r) @
      if_some ''stageId'' (stage_id r) @ if_some ''takeId'' (take_id r))"

definition operation_required :: "string list" where
  "operation_required = [''version'', ''operationId'', ''kind'', ''endpointHash'', ''generation'',
     ''createdAt'', ''updatedAt'', ''phase'', ''requestDispatched'', ''requestAccepted'',
     ''postconditionObserved'', ''renderedComposition'']"

definition operation_optional :: "string list" where
  "operation_optional = [''collectionHash'', ''sceneUuid'', ''stageId'', ''takeId'']"

text \<open>A JSON number such as \<open>1.0\<close> counts as the integer it denotes.\<close>

definition integral :: "u64 \<Rightarrow> json \<Rightarrow> u64 option" where
  "integral maximum v =
     Option.bind (case v of
         JNumber (PosInt n) \<Rightarrow> Some n
       | JNumber (Float q) \<Rightarrow>
           if q \<ge> 0 \<and> q = of_int \<lfloor>q\<rfloor> \<and> q \<le> of_nat (unat maximum) then Some (of_int \<lfloor>q\<rfloor>) else None
       | _ \<Rightarrow> None)
       (\<lambda>n. if n \<le> maximum then Some n else None)"

definition operation_record :: "json \<Rightarrow> OperationRecord option" where
  "operation_record v = do {
     fs \<leftarrow> struct_fields (operation_required @ operation_optional) v;
     ver \<leftarrow> field ''version'' as_u8 fs;
     oid \<leftarrow> field ''operationId'' as_str fs;
     k \<leftarrow> field ''kind'' (as_enum kind_name all_kinds) fs;
     eh \<leftarrow> field ''endpointHash'' as_str fs;
     ch \<leftarrow> opt_field ''collectionHash'' as_str fs;
     su \<leftarrow> opt_field ''sceneUuid'' as_str fs;
     si \<leftarrow> opt_field ''stageId'' as_str fs;
     ti \<leftarrow> opt_field ''takeId'' as_str fs;
     gen \<leftarrow> field ''generation'' as_u64 fs;
     ca \<leftarrow> field ''createdAt'' as_str fs;
     ua \<leftarrow> field ''updatedAt'' as_str fs;
     p \<leftarrow> field ''phase'' (as_enum phase_name all_phases) fs;
     rd \<leftarrow> opt_field ''requestDispatched'' as_bool fs;
     ra \<leftarrow> opt_field ''requestAccepted'' as_bool fs;
     po \<leftarrow> field ''postconditionObserved'' as_bool fs;
     rc \<leftarrow> field ''renderedComposition'' as_str fs;
     Some \<lparr>version = ver, operation_id = oid, endpoint_hash = eh, generation = gen,
       created_at = ca, updated_at = ua, postcondition_observed = po, kind = k,
       collection_hash = ch, scene_uuid = su, stage_id = si, take_id = ti, phase = p,
       request_dispatched = rd, request_accepted = ra, rendered_composition = rc\<rparr> }"

definition checked_opt :: "('r \<Rightarrow> (StoreError, 'r) result) \<Rightarrow> 'r option \<Rightarrow> (StoreError, 'r) result" where
  "checked_opt check r = (case r of None \<Rightarrow> Err InvalidReceipt | Some x \<Rightarrow> check x)"

definition operation_from_value :: "json \<Rightarrow> (StoreError, OperationRecord) result" where
  "operation_from_value v = (case v of
     JObject fs \<Rightarrow>
       (if list_ex (\<lambda>k. map_of fs k = None) operation_required then Err InvalidReceipt
        else if list_ex (\<lambda>k. map_of fs k = Some JNull) operation_optional then Err InvalidReceipt
        else (case Option.bind (map_of fs ''version'') (integral 1) of
            None \<Rightarrow> Err InvalidReceipt
          | Some ver \<Rightarrow> (case Option.bind (map_of fs ''generation'') (integral MAX_SAFE_INTEGER) of
              None \<Rightarrow> Err InvalidReceipt
            | Some gen \<Rightarrow> checked_opt checked (operation_record (JObject
                (jput ''generation'' (of_u64 gen) (jput ''version'' (of_u64 ver) fs)))))))
   | _ \<Rightarrow> Err InvalidReceipt)"

section \<open>Version 2\<close>

primrec generic_phase_name :: "GenericPhase \<Rightarrow> string" where
  "generic_phase_name G_Prepared = ''prepared''"
| "generic_phase_name G_Dispatching = ''dispatching''"
| "generic_phase_name G_Accepted = ''accepted''"
| "generic_phase_name G_Rejected = ''rejected''"
| "generic_phase_name G_NotDispatched = ''not-dispatched''"
| "generic_phase_name G_Unknown = ''unknown''"

definition all_generic_phases :: "GenericPhase list" where
  "all_generic_phases = [G_Prepared, G_Dispatching, G_Accepted, G_Rejected, G_NotDispatched, G_Unknown]"

definition generic_value :: "GenericRecord \<Rightarrow> json" where
  "generic_value r = mk_object
     [(''version'', of_u8 (version r)), (''operationId'', JString (operation_id r)),
      (''kind'', JString (g_kind r)), (''requestType'', JString (request_type (g_request_type r))),
      (''endpointHash'', JString (endpoint_hash r)), (''generation'', of_u64 (generation r)),
      (''createdAt'', JString (created_at r)), (''updatedAt'', JString (updated_at r)),
      (''phase'', JString (generic_phase_name (g_phase r))),
      (''requestDispatched'', of_option JBool (g_request_dispatched r)),
      (''requestAccepted'', of_option JBool (g_request_accepted r)),
      (''postconditionObserved'', JBool (postcondition_observed r)),
      (''renderedComposition'', JString (g_rendered_composition r))]"

definition generic_fields :: "string list" where
  "generic_fields = [''version'', ''operationId'', ''kind'', ''requestType'', ''endpointHash'',
     ''generation'', ''createdAt'', ''updatedAt'', ''phase'', ''requestDispatched'',
     ''requestAccepted'', ''postconditionObserved'', ''renderedComposition'']"

definition generic_record :: "json \<Rightarrow> GenericRecord option" where
  "generic_record v = do {
     fs \<leftarrow> struct_fields generic_fields v;
     ver \<leftarrow> field ''version'' as_u8 fs;
     oid \<leftarrow> field ''operationId'' as_str fs;
     k \<leftarrow> field ''kind'' as_str fs;
     rt \<leftarrow> field ''requestType'' (as_enum request_type all_generic_kinds) fs;
     eh \<leftarrow> field ''endpointHash'' as_str fs;
     gen \<leftarrow> field ''generation'' as_u64 fs;
     ca \<leftarrow> field ''createdAt'' as_str fs;
     ua \<leftarrow> field ''updatedAt'' as_str fs;
     p \<leftarrow> field ''phase'' (as_enum generic_phase_name all_generic_phases) fs;
     rd \<leftarrow> opt_field ''requestDispatched'' as_bool fs;
     ra \<leftarrow> opt_field ''requestAccepted'' as_bool fs;
     po \<leftarrow> field ''postconditionObserved'' as_bool fs;
     rc \<leftarrow> field ''renderedComposition'' as_str fs;
     Some \<lparr>version = ver, operation_id = oid, endpoint_hash = eh, generation = gen,
       created_at = ca, updated_at = ua, postcondition_observed = po, g_kind = k,
       g_request_type = rt, g_phase = p, g_request_dispatched = rd, g_request_accepted = ra,
       g_rendered_composition = rc\<rparr> }"

definition missing_key :: "string list \<Rightarrow> json \<Rightarrow> bool" where
  "missing_key ks v \<longleftrightarrow> list_ex (\<lambda>k. get v k = None) ks"

definition generic_from_value :: "json \<Rightarrow> (StoreError, GenericRecord) result" where
  "generic_from_value v =
     (if missing_key [''requestDispatched'', ''requestAccepted''] v then Err InvalidReceipt
      else checked_opt checked_generic (generic_record v))"

section \<open>Version 3\<close>

primrec restore_phase_name :: "RestorePhase \<Rightarrow> string" where
  "restore_phase_name R_Prepared = ''prepared''"
| "restore_phase_name R_Dispatching = ''dispatching''"
| "restore_phase_name R_Acknowledged = ''acknowledged''"
| "restore_phase_name R_NotDispatched = ''not-dispatched''"
| "restore_phase_name R_Unknown = ''unknown''"

definition all_restore_phases :: "RestorePhase list" where
  "all_restore_phases = [R_Prepared, R_Dispatching, R_Acknowledged, R_NotDispatched, R_Unknown]"

definition restore_value :: "RestoreRecord \<Rightarrow> json" where
  "restore_value r = mk_object
     [(''version'', of_u8 (version r)), (''operationId'', JString (operation_id r)),
      (''kind'', JString (r_kind r)), (''endpointHash'', JString (endpoint_hash r)),
      (''generation'', of_u64 (generation r)), (''createdAt'', JString (created_at r)),
      (''updatedAt'', JString (updated_at r)),
      (''phase'', JString (restore_phase_name (r_phase r))),
      (''executionType'', of_u8 (r_execution_type r)),
      (''haltOnFailure'', JBool (r_halt_on_failure r)),
      (''requestCount'', of_u64 (r_request_count r)),
      (''requestDispatched'', of_option JBool (r_request_dispatched r)),
      (''batchAcknowledged'', of_option JBool (r_batch_acknowledged r)),
      (''successfulRequests'', of_option of_u64 (r_successful_requests r)),
      (''failedRequests'', of_option of_u64 (r_failed_requests r)),
      (''postconditionObserved'', JBool (postcondition_observed r)),
      (''renderedComposition'', JString (r_rendered_composition r))]"

definition restore_fields :: "string list" where
  "restore_fields = [''version'', ''operationId'', ''kind'', ''endpointHash'', ''generation'',
     ''createdAt'', ''updatedAt'', ''phase'', ''executionType'', ''haltOnFailure'',
     ''requestCount'', ''requestDispatched'', ''batchAcknowledged'', ''successfulRequests'',
     ''failedRequests'', ''postconditionObserved'', ''renderedComposition'']"

definition restore_record :: "json \<Rightarrow> RestoreRecord option" where
  "restore_record v = do {
     fs \<leftarrow> struct_fields restore_fields v;
     ver \<leftarrow> field ''version'' as_u8 fs;
     oid \<leftarrow> field ''operationId'' as_str fs;
     k \<leftarrow> field ''kind'' as_str fs;
     eh \<leftarrow> field ''endpointHash'' as_str fs;
     gen \<leftarrow> field ''generation'' as_u64 fs;
     ca \<leftarrow> field ''createdAt'' as_str fs;
     ua \<leftarrow> field ''updatedAt'' as_str fs;
     p \<leftarrow> field ''phase'' (as_enum restore_phase_name all_restore_phases) fs;
     et \<leftarrow> field ''executionType'' as_u8 fs;
     hf \<leftarrow> field ''haltOnFailure'' as_bool fs;
     n \<leftarrow> field ''requestCount'' as_u64 fs;
     rd \<leftarrow> opt_field ''requestDispatched'' as_bool fs;
     ba \<leftarrow> opt_field ''batchAcknowledged'' as_bool fs;
     yes \<leftarrow> opt_field ''successfulRequests'' as_u64 fs;
     no \<leftarrow> opt_field ''failedRequests'' as_u64 fs;
     po \<leftarrow> field ''postconditionObserved'' as_bool fs;
     rc \<leftarrow> field ''renderedComposition'' as_str fs;
     Some \<lparr>version = ver, operation_id = oid, endpoint_hash = eh, generation = gen,
       created_at = ca, updated_at = ua, postcondition_observed = po, r_kind = k, r_phase = p,
       r_execution_type = et, r_halt_on_failure = hf, r_request_count = n,
       r_request_dispatched = rd, r_batch_acknowledged = ba, r_successful_requests = yes,
       r_failed_requests = no, r_rendered_composition = rc\<rparr> }"

definition restore_from_value :: "json \<Rightarrow> (StoreError, RestoreRecord) result" where
  "restore_from_value v =
     (if missing_key [''requestDispatched'', ''batchAcknowledged'', ''successfulRequests'',
          ''failedRequests''] v
      then Err InvalidReceipt else checked_opt checked_restore (restore_record v))"

section \<open>Round trips of versions 1 to 3\<close>

lemma field_roundtrip: "map_of fs k = Some v \<Longrightarrow> field k f fs = f v"
  by (simp add: field_def)

lemma opt_field_roundtrip: "map_of fs k = Some v \<Longrightarrow> opt_field k f fs = as_option f v"
  by (simp add: opt_field_def)

lemma opt_field_missing: "map_of fs k = None \<Longrightarrow> opt_field k f fs = Some None"
  by (simp add: opt_field_def)

lemma small_enums [simp]:
  "as_enum kind_name all_kinds (JString (kind_name k)) = Some k"
  "as_enum phase_name all_phases (JString (phase_name p)) = Some p"
  "as_enum generic_phase_name all_generic_phases (JString (generic_phase_name g)) = Some g"
  "as_enum restore_phase_name all_restore_phases (JString (restore_phase_name q)) = Some q"
  by (cases k; simp add: as_enum_def all_kinds_def; fail)
    (cases p; simp add: as_enum_def all_phases_def; fail |
     cases g; simp add: as_enum_def all_generic_phases_def; fail |
     cases q; simp add: as_enum_def all_restore_phases_def; fail)+

lemma kind_enum [simp]: "as_enum request_type all_generic_kinds (JString (request_type k)) = Some k"
  by (rule enum_roundtrip) (auto simp: all_generic_kinds_complete inj_on_def dest: request_type_inj)

lemma generic_roundtrip: "generic_record (generic_value r) = Some r"
  by (simp add: generic_record_def generic_value_def generic_fields_def field_roundtrip opt_field_roundtrip)

lemma restore_roundtrip: "restore_record (restore_value r) = Some r"
  by (simp add: restore_record_def restore_value_def restore_fields_def field_roundtrip opt_field_roundtrip)

lemma generic_from_to: "generic_from_value (generic_value r) = checked_generic r"
  by (simp add: generic_from_value_def generic_roundtrip checked_opt_def)
    (simp add: missing_key_def generic_value_def)

lemma restore_from_to: "restore_from_value (restore_value r) = checked_restore r"
  by (simp add: restore_from_value_def restore_roundtrip checked_opt_def)
    (simp add: missing_key_def restore_value_def)

section \<open>Version 4\<close>

primrec apply_phase_name :: "ApplyPhase \<Rightarrow> string" where
  "apply_phase_name A_Prepared = ''prepared''"
| "apply_phase_name A_DispatchingCreations = ''dispatching-creations''"
| "apply_phase_name A_Continuation = ''continuation''"
| "apply_phase_name A_DispatchingChanges = ''dispatching-changes''"
| "apply_phase_name A_Closed = ''closed''"
| "apply_phase_name A_Aborted = ''aborted''"
| "apply_phase_name A_Unknown = ''unknown''"

definition all_apply_phases :: "ApplyPhase list" where
  "all_apply_phases = [A_Prepared, A_DispatchingCreations, A_Continuation, A_DispatchingChanges,
     A_Closed, A_Aborted, A_Unknown]"

primrec stage_phase_name :: "ApplyStagePhase \<Rightarrow> string" where
  "stage_phase_name S_NotNeeded = ''not-needed''"
| "stage_phase_name S_Prepared = ''prepared''"
| "stage_phase_name S_Dispatching = ''dispatching''"
| "stage_phase_name S_Acknowledged = ''acknowledged''"
| "stage_phase_name S_NotDispatched = ''not-dispatched''"
| "stage_phase_name S_Unknown = ''unknown''"

definition all_stage_phases :: "ApplyStagePhase list" where
  "all_stage_phases = [S_NotNeeded, S_Prepared, S_Dispatching, S_Acknowledged, S_NotDispatched, S_Unknown]"

definition apply_counts_value :: "ApplyCounts \<Rightarrow> json" where
  "apply_counts_value c = mk_object [(''successful'', of_u64 (ac_successful c)),
     (''failed'', of_u64 (ac_failed c)), (''skipped'', of_u64 (ac_skipped c))]"

definition apply_counts_record :: "json \<Rightarrow> ApplyCounts option" where
  "apply_counts_record v = do {
     fs \<leftarrow> struct_fields [''successful'', ''failed'', ''skipped''] v;
     a \<leftarrow> field ''successful'' as_u64 fs;
     b \<leftarrow> field ''failed'' as_u64 fs;
     c \<leftarrow> field ''skipped'' as_u64 fs;
     Some \<lparr>ac_successful = a, ac_failed = b, ac_skipped = c\<rparr> }"

definition stage_value :: "ApplyStageRecord \<Rightarrow> json" where
  "stage_value s = mk_object
     [(''executionType'', of_u8 (s_execution_type s)),
      (''haltOnFailure'', JBool (s_halt_on_failure s)),
      (''requestCount'', of_u64 (s_request_count s)),
      (''phase'', JString (stage_phase_name (s_phase s))),
      (''requestDispatched'', of_option JBool (s_request_dispatched s)),
      (''batchAcknowledged'', of_option JBool (s_batch_acknowledged s)),
      (''counts'', of_option apply_counts_value (s_counts s)),
      (''notAttempted'', of_option of_u64 (s_not_attempted s))]"

definition stage_fields :: "string list" where
  "stage_fields = [''executionType'', ''haltOnFailure'', ''requestCount'', ''phase'',
     ''requestDispatched'', ''batchAcknowledged'', ''counts'', ''notAttempted'']"

definition stage_record :: "json \<Rightarrow> ApplyStageRecord option" where
  "stage_record v = do {
     fs \<leftarrow> struct_fields stage_fields v;
     et \<leftarrow> field ''executionType'' as_u8 fs;
     hf \<leftarrow> field ''haltOnFailure'' as_bool fs;
     n \<leftarrow> field ''requestCount'' as_u64 fs;
     p \<leftarrow> field ''phase'' (as_enum stage_phase_name all_stage_phases) fs;
     rd \<leftarrow> opt_field ''requestDispatched'' as_bool fs;
     ba \<leftarrow> opt_field ''batchAcknowledged'' as_bool fs;
     c \<leftarrow> opt_field ''counts'' apply_counts_record fs;
     na \<leftarrow> opt_field ''notAttempted'' as_u64 fs;
     Some \<lparr>s_execution_type = et, s_halt_on_failure = hf, s_request_count = n, s_phase = p,
       s_request_dispatched = rd, s_batch_acknowledged = ba, s_counts = c,
       s_not_attempted = na\<rparr> }"

definition apply_value :: "ApplyRecord \<Rightarrow> json" where
  "apply_value r = mk_object
     [(''version'', of_u8 (version r)), (''operationId'', JString (operation_id r)),
      (''kind'', JString (a_kind r)), (''endpointHash'', JString (endpoint_hash r)),
      (''generation'', of_u64 (generation r)), (''createdAt'', JString (created_at r)),
      (''updatedAt'', JString (updated_at r)),
      (''phase'', JString (apply_phase_name (a_phase r))),
      (''creations'', stage_value (creations r)),
      (''changes'', of_option stage_value (changes r)),
      (''postconditionObserved'', JBool (postcondition_observed r)),
      (''renderedComposition'', JString (a_rendered_composition r))]"

definition apply_fields :: "string list" where
  "apply_fields = [''version'', ''operationId'', ''kind'', ''endpointHash'', ''generation'',
     ''createdAt'', ''updatedAt'', ''phase'', ''creations'', ''changes'',
     ''postconditionObserved'', ''renderedComposition'']"

definition apply_record :: "json \<Rightarrow> ApplyRecord option" where
  "apply_record v = do {
     fs \<leftarrow> struct_fields apply_fields v;
     ver \<leftarrow> field ''version'' as_u8 fs;
     oid \<leftarrow> field ''operationId'' as_str fs;
     k \<leftarrow> field ''kind'' as_str fs;
     eh \<leftarrow> field ''endpointHash'' as_str fs;
     gen \<leftarrow> field ''generation'' as_u64 fs;
     ca \<leftarrow> field ''createdAt'' as_str fs;
     ua \<leftarrow> field ''updatedAt'' as_str fs;
     p \<leftarrow> field ''phase'' (as_enum apply_phase_name all_apply_phases) fs;
     cr \<leftarrow> field ''creations'' stage_record fs;
     ch \<leftarrow> opt_field ''changes'' stage_record fs;
     po \<leftarrow> field ''postconditionObserved'' as_bool fs;
     rc \<leftarrow> field ''renderedComposition'' as_str fs;
     Some \<lparr>version = ver, operation_id = oid, endpoint_hash = eh, generation = gen,
       created_at = ca, updated_at = ua, postcondition_observed = po, a_kind = k, a_phase = p,
       creations = cr, changes = ch, a_rendered_composition = rc\<rparr> }"

text \<open>The stages whose optional fields have to be present: the creations, and the changes unless
  they are null.\<close>

definition stages_to_check :: "json \<Rightarrow> json list" where
  "stages_to_check v = (case get v ''creations'' of None \<Rightarrow> [] | Some s \<Rightarrow> [s]) @
     (case get v ''changes'' of None \<Rightarrow> [] | Some s \<Rightarrow> if s = JNull then [] else [s])"

definition apply_from_value :: "json \<Rightarrow> (StoreError, ApplyRecord) result" where
  "apply_from_value v =
     (if get v ''changes'' = None then Err InvalidReceipt
      else if list_ex (missing_key [''requestDispatched'', ''batchAcknowledged'', ''counts'',
          ''notAttempted'']) (stages_to_check v)
      then Err InvalidReceipt else checked_opt checked_apply (apply_record v))"

section \<open>Version 5\<close>

primrec initial_name :: "CaptureInitial \<Rightarrow> string" where
  "initial_name CI_None = ''none''"
| "initial_name CI_Create = ''create''"
| "initial_name CI_Retarget = ''retarget''"

primrec step_name :: "CaptureStep \<Rightarrow> string" where
  "step_name Initial = ''initial''"
| "step_name Audio = ''audio''"
| "step_name Fit = ''fit''"

primrec capture_phase_name :: "CapturePhase \<Rightarrow> string" where
  "capture_phase_name C_Prepared = ''prepared''"
| "capture_phase_name C_Dispatching = ''dispatching''"
| "capture_phase_name C_Continuation = ''continuation''"
| "capture_phase_name C_Closed = ''closed''"
| "capture_phase_name C_Aborted = ''aborted''"
| "capture_phase_name C_Unknown = ''unknown''"

primrec step_phase_name :: "CaptureStepPhase \<Rightarrow> string" where
  "step_phase_name CS_NotNeeded = ''not-needed''"
| "step_phase_name CS_Prepared = ''prepared''"
| "step_phase_name CS_Dispatching = ''dispatching''"
| "step_phase_name CS_Acknowledged = ''acknowledged''"
| "step_phase_name CS_NotDispatched = ''not-dispatched''"
| "step_phase_name CS_Unknown = ''unknown''"

definition all_initials :: "CaptureInitial list" where
  "all_initials = [CI_None, CI_Create, CI_Retarget]"

definition all_capture_phases :: "CapturePhase list" where
  "all_capture_phases = [C_Prepared, C_Dispatching, C_Continuation, C_Closed, C_Aborted, C_Unknown]"

definition all_step_phases :: "CaptureStepPhase list" where
  "all_step_phases = [CS_NotNeeded, CS_Prepared, CS_Dispatching, CS_Acknowledged,
     CS_NotDispatched, CS_Unknown]"

definition plan_value :: "CapturePlan \<Rightarrow> json" where
  "plan_value p = mk_object [(''initial'', JString (initial_name (cp_initial p))),
     (''audio'', JBool (cp_audio p)), (''fit'', JBool (cp_fit p))]"

definition plan_record :: "json \<Rightarrow> CapturePlan option" where
  "plan_record v = do {
     fs \<leftarrow> struct_fields [''initial'', ''audio'', ''fit''] v;
     i \<leftarrow> field ''initial'' (as_enum initial_name all_initials) fs;
     a \<leftarrow> field ''audio'' as_bool fs;
     f \<leftarrow> field ''fit'' as_bool fs;
     Some \<lparr>cp_initial = i, cp_audio = a, cp_fit = f\<rparr> }"

definition capture_counts_value :: "CaptureCounts \<Rightarrow> json" where
  "capture_counts_value c = mk_object [(''successful'', of_u8 (cc_successful c)),
     (''failed'', of_u8 (cc_failed c)), (''skipped'', of_u8 (cc_skipped c))]"

definition capture_counts_record :: "json \<Rightarrow> CaptureCounts option" where
  "capture_counts_record v = do {
     fs \<leftarrow> struct_fields [''successful'', ''failed'', ''skipped''] v;
     a \<leftarrow> field ''successful'' as_u8 fs;
     b \<leftarrow> field ''failed'' as_u8 fs;
     c \<leftarrow> field ''skipped'' as_u8 fs;
     Some \<lparr>cc_successful = a, cc_failed = b, cc_skipped = c\<rparr> }"

definition step_value :: "CaptureStepRecord \<Rightarrow> json" where
  "step_value s = mk_object
     [(''step'', JString (step_name (cs_step s))), (''requestCount'', of_u8 (cs_request_count s)),
      (''phase'', JString (step_phase_name (cs_phase s))),
      (''requestDispatched'', of_option JBool (cs_request_dispatched s)),
      (''replyAcknowledged'', of_option JBool (cs_reply_acknowledged s)),
      (''counts'', of_option capture_counts_value (cs_counts s))]"

definition step_record :: "json \<Rightarrow> CaptureStepRecord option" where
  "step_record v = do {
     fs \<leftarrow> struct_fields [''step'', ''requestCount'', ''phase'', ''requestDispatched'',
       ''replyAcknowledged'', ''counts''] v;
     st \<leftarrow> field ''step'' (as_enum step_name all_steps) fs;
     n \<leftarrow> field ''requestCount'' as_u8 fs;
     p \<leftarrow> field ''phase'' (as_enum step_phase_name all_step_phases) fs;
     rd \<leftarrow> opt_field ''requestDispatched'' as_bool fs;
     ra \<leftarrow> opt_field ''replyAcknowledged'' as_bool fs;
     c \<leftarrow> opt_field ''counts'' capture_counts_record fs;
     Some \<lparr>cs_step = st, cs_request_count = n, cs_phase = p, cs_request_dispatched = rd,
       cs_reply_acknowledged = ra, cs_counts = c\<rparr> }"

text \<open>An array of fixed length: every element has to be read.\<close>

fun read_all :: "('a \<Rightarrow> 'b option) \<Rightarrow> 'a list \<Rightarrow> 'b list option" where
  "read_all f [] = Some []"
| "read_all f (x # xs) = do { y \<leftarrow> f x; ys \<leftarrow> read_all f xs; Some (y # ys) }"

definition fixed_array :: "nat \<Rightarrow> (json \<Rightarrow> 'a option) \<Rightarrow> json \<Rightarrow> 'a list option" where
  "fixed_array n f v = do { xs \<leftarrow> as_array v; if length xs = n then read_all f xs else None }"

definition capture_value :: "CaptureRecord \<Rightarrow> json" where
  "capture_value r = mk_object
     [(''version'', of_u8 (version r)), (''operationId'', JString (operation_id r)),
      (''kind'', JString (c_kind r)), (''endpointHash'', JString (endpoint_hash r)),
      (''generation'', of_u64 (generation r)), (''createdAt'', JString (created_at r)),
      (''updatedAt'', JString (updated_at r)),
      (''phase'', JString (capture_phase_name (c_phase r))), (''plan'', plan_value (c_plan r)),
      (''activeStep'', of_option (\<lambda>s. JString (step_name s)) (active_step r)),
      (''steps'', JArray (map step_value (steps r))),
      (''postconditionObserved'', JBool (postcondition_observed r)),
      (''renderedTarget'', JString (rendered_target r))]"

definition capture_fields :: "string list" where
  "capture_fields = [''version'', ''operationId'', ''kind'', ''endpointHash'', ''generation'',
     ''createdAt'', ''updatedAt'', ''phase'', ''plan'', ''activeStep'', ''steps'',
     ''postconditionObserved'', ''renderedTarget'']"

definition capture_record :: "json \<Rightarrow> CaptureRecord option" where
  "capture_record v = do {
     fs \<leftarrow> struct_fields capture_fields v;
     ver \<leftarrow> field ''version'' as_u8 fs;
     oid \<leftarrow> field ''operationId'' as_str fs;
     k \<leftarrow> field ''kind'' as_str fs;
     eh \<leftarrow> field ''endpointHash'' as_str fs;
     gen \<leftarrow> field ''generation'' as_u64 fs;
     ca \<leftarrow> field ''createdAt'' as_str fs;
     ua \<leftarrow> field ''updatedAt'' as_str fs;
     p \<leftarrow> field ''phase'' (as_enum capture_phase_name all_capture_phases) fs;
     pl \<leftarrow> field ''plan'' plan_record fs;
     ac \<leftarrow> opt_field ''activeStep'' (as_enum step_name all_steps) fs;
     ss \<leftarrow> field ''steps'' (fixed_array 3 step_record) fs;
     po \<leftarrow> field ''postconditionObserved'' as_bool fs;
     rt \<leftarrow> field ''renderedTarget'' as_str fs;
     Some \<lparr>version = ver, operation_id = oid, endpoint_hash = eh, generation = gen,
       created_at = ca, updated_at = ua, postcondition_observed = po, c_kind = k, c_phase = p,
       c_plan = pl, active_step = ac, steps = ss, rendered_target = rt\<rparr> }"

definition capture_from_value :: "json \<Rightarrow> (StoreError, CaptureRecord) result" where
  "capture_from_value v =
     (if get v ''activeStep'' = None then Err InvalidReceipt
      else (case Option.bind (get v ''steps'') as_array of
          None \<Rightarrow> Err InvalidReceipt
        | Some rows \<Rightarrow>
            if length rows \<noteq> 3 then Err InvalidReceipt
            else if list_ex (missing_key [''requestDispatched'', ''replyAcknowledged'', ''counts'']) rows
            then Err InvalidReceipt else checked_opt checked_capture (capture_record v)))"

section \<open>Round trips\<close>

lemma more_enums [simp]:
  "as_enum apply_phase_name all_apply_phases (JString (apply_phase_name a)) = Some a"
  "as_enum stage_phase_name all_stage_phases (JString (stage_phase_name b)) = Some b"
  "as_enum initial_name all_initials (JString (initial_name c)) = Some c"
  "as_enum step_name all_steps (JString (step_name d)) = Some d"
  "as_enum capture_phase_name all_capture_phases (JString (capture_phase_name e)) = Some e"
  "as_enum step_phase_name all_step_phases (JString (step_phase_name f)) = Some f"
  by (cases a; simp add: as_enum_def all_apply_phases_def; fail)
    (cases b; simp add: as_enum_def all_stage_phases_def; fail |
     cases c; simp add: as_enum_def all_initials_def; fail |
     cases d; simp add: as_enum_def all_steps_def; fail |
     cases e; simp add: as_enum_def all_capture_phases_def; fail |
     cases f; simp add: as_enum_def all_step_phases_def; fail)+

lemmas fields_roundtrip = field_roundtrip opt_field_roundtrip

lemma apply_counts_roundtrip [simp]: "apply_counts_record (apply_counts_value c) = Some c"
  by (simp add: apply_counts_record_def apply_counts_value_def fields_roundtrip)

lemma capture_counts_roundtrip [simp]: "capture_counts_record (capture_counts_value c) = Some c"
  by (simp add: capture_counts_record_def capture_counts_value_def fields_roundtrip)

lemma plan_roundtrip [simp]: "plan_record (plan_value p) = Some p"
  by (simp add: plan_record_def plan_value_def fields_roundtrip)

lemma values_not_null [simp]:
  "apply_counts_value c \<noteq> JNull" "capture_counts_value d \<noteq> JNull" "stage_value s \<noteq> JNull"
  by (simp_all add: apply_counts_value_def capture_counts_value_def stage_value_def)

lemma stage_roundtrip [simp]: "stage_record (stage_value s) = Some s"
  by (simp add: stage_record_def stage_value_def stage_fields_def fields_roundtrip option_roundtrip)

lemma step_roundtrip [simp]: "step_record (step_value s) = Some s"
  by (simp add: step_record_def step_value_def fields_roundtrip option_roundtrip)

lemma read_all_map: "(\<And>x. f (g x) = Some x) \<Longrightarrow> read_all f (map g xs) = Some xs"
  by (induction xs) simp_all

lemma apply_roundtrip: "apply_record (apply_value r) = Some r"
  by (simp add: apply_record_def apply_value_def apply_fields_def fields_roundtrip option_roundtrip)

lemma capture_roundtrip: "length (steps r) = 3 \<Longrightarrow> capture_record (capture_value r) = Some r"
  by (simp add: capture_record_def capture_value_def capture_fields_def fields_roundtrip
      option_roundtrip fixed_array_def read_all_map)


lemma integral_in_range: "n \<le> maximum \<Longrightarrow> integral maximum (of_u64 n) = Some n"
  by (simp add: integral_def of_u64_def)

lemma if_some_keys: "fst ` set (if_some k v) \<subseteq> {k}"
  by (cases v) (simp_all add: if_some_def)

lemma map_of_if_some: "map_of (if_some k v) = (\<lambda>k'. if k' = k then map_option JString v else None)"
  by (cases v) (auto simp: if_some_def)

text \<open>What the fields of a version 1 value are.\<close>

definition operation_body :: "OperationRecord \<Rightarrow> (string \<times> json) list" where
  "operation_body r =
     [(''version'', of_u8 (version r)), (''operationId'', JString (operation_id r)),
      (''kind'', JString (kind_name (kind r))), (''endpointHash'', JString (endpoint_hash r)),
      (''generation'', of_u64 (generation r)), (''createdAt'', JString (created_at r)),
      (''updatedAt'', JString (updated_at r)), (''phase'', JString (phase_name (phase r))),
      (''requestDispatched'', of_option JBool (request_dispatched r)),
      (''requestAccepted'', of_option JBool (request_accepted r)),
      (''postconditionObserved'', JBool (postcondition_observed r)),
      (''renderedComposition'', JString (rendered_composition r))]"

definition operation_extra :: "OperationRecord \<Rightarrow> (string \<times> json) list" where
  "operation_extra r =
     if_some ''collectionHash'' (collection_hash r) @ if_some ''sceneUuid'' (scene_uuid r) @
     if_some ''stageId'' (stage_id r) @ if_some ''takeId'' (take_id r)"

lemma operation_value_split: "operation_value r = mk_object (operation_body r @ operation_extra r)"
  by (simp add: operation_value_def operation_body_def operation_extra_def)

lemma operation_lookup:
  "map_of (operation_body r @ operation_extra r) k =
     (case map_of (operation_body r) k of Some v \<Rightarrow> Some v | None \<Rightarrow>
        if k = ''collectionHash'' then map_option JString (collection_hash r)
        else if k = ''sceneUuid'' then map_option JString (scene_uuid r)
        else if k = ''stageId'' then map_option JString (stage_id r)
        else if k = ''takeId'' then map_option JString (take_id r) else None)"
  by (simp add: operation_extra_def map_add_def map_of_if_some split: option.splits)

lemma operation_keys:
  "fst ` set (operation_body r @ operation_extra r) \<subseteq> set (operation_required @ operation_optional)"
proof -
  have "fst ` set (operation_body r) \<subseteq> set operation_required"
    by (simp add: operation_body_def operation_required_def)
  moreover have "fst ` set (operation_extra r) \<subseteq> set operation_optional"
    unfolding operation_extra_def set_append image_Un
    by (intro Un_least order_trans [OF if_some_keys]) (simp_all add: operation_optional_def)
  ultimately show ?thesis by auto
qed

lemma opt_string_field:
  "map_of fs k = map_option JString v \<Longrightarrow> opt_field k as_str fs = Some v"
  by (cases v) (simp_all add: opt_field_def as_option_def)

lemma operation_record_lookup:
  assumes "struct_fields (operation_required @ operation_optional) (JObject fs) = Some fs"
    and "version r = 1"
    and "\<And>k. map_of fs k = (if k = ''version'' then Some (of_u64 1)
      else map_of (operation_body r @ operation_extra r) k)"
  shows "operation_record (JObject fs) = Some r"
proof -
  have one: "as_u8 (of_u64 1) = Some 1"
    by (simp add: as_u8_def)
  have lookup: "map_of fs k = (if k = ''version'' then Some (of_u64 1) else
      case map_of (operation_body r) k of Some v \<Rightarrow> Some v | None \<Rightarrow>
        if k = ''collectionHash'' then map_option JString (collection_hash r)
        else if k = ''sceneUuid'' then map_option JString (scene_uuid r)
        else if k = ''stageId'' then map_option JString (stage_id r)
        else if k = ''takeId'' then map_option JString (take_id r) else None)" for k
    using assms(3) operation_lookup by simp
  have opt: "opt_field ''collectionHash'' as_str fs = Some (collection_hash r)"
      "opt_field ''sceneUuid'' as_str fs = Some (scene_uuid r)"
      "opt_field ''stageId'' as_str fs = Some (stage_id r)"
      "opt_field ''takeId'' as_str fs = Some (take_id r)"
    by (rule opt_string_field, simp add: lookup operation_body_def)+
  show ?thesis
    using assms(2) unfolding operation_record_def assms(1)
    by (simp add: fields_roundtrip opt) (simp add: lookup operation_body_def fields_roundtrip one)
qed

lemma operation_from_to:
  assumes "checked r = Ok r"
  shows "operation_from_value (operation_value r) = Ok r"
proof -
  let ?kvs = "operation_body r @ operation_extra r"
  let ?fs = "jput ''generation'' (of_u64 (generation r)) (jput ''version'' (of_u64 1) (mk_fields ?kvs))"
  from assms have v: "version r = 1" "generation r \<le> MAX_SAFE_INTEGER"
    using v1.checked_head [OF assms] by (simp_all add: head_ok_def not_less)
  have lookup: "map_of (mk_fields ?kvs) k = map_of ?kvs k" for k by simp
  have required: "\<not> list_ex (\<lambda>k. map_of (mk_fields ?kvs) k = None) operation_required"
    unfolding lookup operation_lookup by (simp add: operation_required_def operation_body_def)
  have optional: "\<not> list_ex (\<lambda>k. map_of (mk_fields ?kvs) k = Some JNull) operation_optional"
    unfolding lookup operation_lookup by (simp add: operation_optional_def operation_body_def)
  have version: "Option.bind (map_of (mk_fields ?kvs) ''version'') (integral 1) = Some 1"
    using integral_in_range [of 1 1] v(1)
    unfolding lookup operation_lookup by (simp add: operation_body_def of_u8_def of_u64_def)
  have generation: "Option.bind (map_of (mk_fields ?kvs) ''generation'') (integral MAX_SAFE_INTEGER)
      = Some (generation r)"
    using integral_in_range [OF v(2)]
    unfolding lookup operation_lookup by (simp add: operation_body_def)
  have "struct_fields (operation_required @ operation_optional) (JObject ?fs) = Some ?fs"
    using operation_keys [of r] by (simp add: struct_fields_def) (simp add: operation_required_def)
  moreover have "map_of ?fs k = (if k = ''version'' then Some (of_u64 1) else map_of ?kvs k)" for k
    unfolding map_of_jput map_of_mk_fields operation_lookup
    by (simp add: operation_body_def)
  ultimately have "operation_record (JObject ?fs) = Some r"
    using v(1) by (intro operation_record_lookup)
  with assms show ?thesis
    unfolding operation_from_value_def operation_value_split mk_object_def
    using required optional version generation by (simp add: checked_opt_def del: map_of_mk_fields)
qed

lemma missing_stage_value [simp]:
  "\<not> missing_key [''requestDispatched'', ''batchAcknowledged'', ''counts'', ''notAttempted''] (stage_value s)"
  by (simp add: missing_key_def stage_value_def)

lemma apply_from_to: "apply_from_value (apply_value r) = checked_apply r"
proof -
  have "get (apply_value r) ''changes'' = Some (of_option stage_value (changes r))"
      "get (apply_value r) ''creations'' = Some (stage_value (creations r))"
    by (simp_all add: apply_value_def)
  then show ?thesis
    by (cases "changes r") (simp_all add: apply_from_value_def stages_to_check_def of_option_def
        apply_roundtrip checked_opt_def)
qed

lemma missing_step_value [simp]:
  "\<not> missing_key [''requestDispatched'', ''replyAcknowledged'', ''counts''] (step_value s)"
  by (simp add: missing_key_def step_value_def)

lemma capture_from_to:
  assumes "length (steps r) = 3"
  shows "capture_from_value (capture_value r) = checked_capture r"
proof -
  have "get (capture_value r) ''steps'' = Some (JArray (map step_value (steps r)))"
      "get (capture_value r) ''activeStep'' = Some (of_option (\<lambda>s. JString (step_name s)) (active_step r))"
    by (simp_all add: capture_value_def)
  with assms show ?thesis
    by (simp add: capture_from_value_def capture_roundtrip checked_opt_def list_ex_iff)
qed


section \<open>Stored receipts\<close>

datatype StoredReceipt = V1 OperationRecord | Generic GenericRecord | Restore RestoreRecord
  | Apply ApplyRecord | Capture CaptureRecord

primrec stored_dispatching :: "StoredReceipt \<Rightarrow> bool" where
  "stored_dispatching (V1 r) \<longleftrightarrow> phase r = Dispatching"
| "stored_dispatching (Generic r) \<longleftrightarrow> g_phase r = G_Dispatching"
| "stored_dispatching (Restore r) \<longleftrightarrow> r_phase r = R_Dispatching"
| "stored_dispatching (Apply r) \<longleftrightarrow> apply_dispatching r"
| "stored_dispatching (Capture r) \<longleftrightarrow> capture_dispatching r"

primrec known_live_in_flight :: "StoredReceipt \<Rightarrow> bool" where
  "known_live_in_flight (V1 r) \<longleftrightarrow> phase r = Dispatching \<or> phase r = Accepted"
| "known_live_in_flight (Generic r) \<longleftrightarrow> g_phase r = G_Dispatching"
| "known_live_in_flight (Restore r) \<longleftrightarrow> r_phase r = R_Dispatching"
| "known_live_in_flight (Apply r) \<longleftrightarrow> apply_live r"
| "known_live_in_flight (Capture r) \<longleftrightarrow> capture_live r"

primrec stored_id :: "StoredReceipt \<Rightarrow> string" where
  "stored_id (V1 r) = operation_id r"
| "stored_id (Generic r) = operation_id r"
| "stored_id (Restore r) = operation_id r"
| "stored_id (Apply r) = operation_id r"
| "stored_id (Capture r) = operation_id r"

primrec stored_endpoint :: "StoredReceipt \<Rightarrow> string" where
  "stored_endpoint (V1 r) = endpoint_hash r"
| "stored_endpoint (Generic r) = endpoint_hash r"
| "stored_endpoint (Restore r) = endpoint_hash r"
| "stored_endpoint (Apply r) = endpoint_hash r"
| "stored_endpoint (Capture r) = endpoint_hash r"

primrec stored_created :: "StoredReceipt \<Rightarrow> string" where
  "stored_created (V1 r) = created_at r"
| "stored_created (Generic r) = created_at r"
| "stored_created (Restore r) = created_at r"
| "stored_created (Apply r) = created_at r"
| "stored_created (Capture r) = created_at r"

primrec stored_blocking :: "StoredReceipt \<Rightarrow> bool" where
  "stored_blocking (V1 r) \<longleftrightarrow> is_uncertain (phase r)"
| "stored_blocking (Generic r) \<longleftrightarrow> generic_blocking r"
| "stored_blocking (Restore r) \<longleftrightarrow> restore_blocking r"
| "stored_blocking (Apply r) \<longleftrightarrow> apply_blocking r"
| "stored_blocking (Capture r) \<longleftrightarrow> capture_blocking r"

primrec stored_value :: "StoredReceipt \<Rightarrow> json" where
  "stored_value (V1 r) = operation_value r"
| "stored_value (Generic r) = generic_value r"
| "stored_value (Restore r) = restore_value r"
| "stored_value (Apply r) = apply_value r"
| "stored_value (Capture r) = capture_value r"

text \<open>The check each family applies to what it stores.\<close>

primrec stored_checked :: "StoredReceipt \<Rightarrow> bool" where
  "stored_checked (V1 r) \<longleftrightarrow> checked r = Ok r"
| "stored_checked (Generic r) \<longleftrightarrow> checked_generic r = Ok r"
| "stored_checked (Restore r) \<longleftrightarrow> checked_restore r = Ok r"
| "stored_checked (Apply r) \<longleftrightarrow> checked_apply r = Ok r"
| "stored_checked (Capture r) \<longleftrightarrow> checked_capture r = Ok r"

text \<open>\<open>value["version"] == n\<close>: a missing field or a value that is not an object compares as null,
  and only an integer equals an integer.\<close>

definition version_is :: "u64 \<Rightarrow> json \<Rightarrow> bool" where
  "version_is n v \<longleftrightarrow> get v ''version'' = Some (JNumber (PosInt n))"

definition corrupt :: "('a \<Rightarrow> StoredReceipt) \<Rightarrow> (StoreError, 'a) result \<Rightarrow>
    (StoreError, StoredReceipt) result" where
  "corrupt c r = (case r of Err _ \<Rightarrow> Err Corrupt | Ok x \<Rightarrow> Ok (c x))"

definition stored_from_value :: "json \<Rightarrow> (StoreError, StoredReceipt) result" where
  "stored_from_value v =
     (if version_is 5 v then corrupt Capture (capture_from_value v)
      else if version_is 4 v then corrupt Apply (apply_from_value v)
      else if version_is 3 v then corrupt Restore (restore_from_value v)
      else if version_is 2 v then corrupt Generic (generic_from_value v)
      else corrupt V1 (operation_from_value v))"

lemma stored_version:
  "get (stored_value s) ''version'' = Some (of_u8 (case s of V1 r \<Rightarrow> version r | Generic r \<Rightarrow> version r
     | Restore r \<Rightarrow> version r | Apply r \<Rightarrow> version r | Capture r \<Rightarrow> version r))"
  by (cases s) (simp_all add: operation_value_def generic_value_def restore_value_def apply_value_def
      capture_value_def)

lemma capture_checked_steps: "checked_capture r = Ok r \<Longrightarrow> length (steps r) = 3"
  using checked_captureD(3) by (auto simp: steps_valid_def)

lemma stored_head:
  assumes "stored_checked s"
  shows "valid_uuid (stored_id s)" and "valid_hash (stored_endpoint s)"
    and "valid_timestamp (stored_created s)"
  using assms v1.checked_head v2.checked_head v3.checked_head v4.checked_head v5.checked_head
  by (cases s; simp add: head_ok_def)+

lemma stored_roundtrip:
  assumes "stored_checked s"
  shows "stored_from_value (stored_value s) = Ok s"
proof (cases s)
  case (V1 r)
  with assms have r: "checked r = Ok r" by simp
  have "version_is n (stored_value s) \<longleftrightarrow> n = 1" for n
    using stored_version [of s] v1.checked_head [OF r] V1
    by (auto simp: version_is_def of_u8_def head_ok_def)
  with operation_from_to [OF r] V1 show ?thesis
    by (simp add: stored_from_value_def corrupt_def)
next
  case (Generic r)
  with assms have r: "checked_generic r = Ok r" by simp
  have "version_is n (stored_value s) \<longleftrightarrow> n = 2" for n
    using stored_version [of s] v2.checked_head [OF r] Generic
    by (auto simp: version_is_def of_u8_def head_ok_def)
  with generic_from_to [of r] Generic r show ?thesis
    by (simp add: stored_from_value_def corrupt_def)
next
  case (Restore r)
  with assms have r: "checked_restore r = Ok r" by simp
  have "version_is n (stored_value s) \<longleftrightarrow> n = 3" for n
    using stored_version [of s] v3.checked_head [OF r] Restore
    by (auto simp: version_is_def of_u8_def head_ok_def)
  with restore_from_to [of r] Restore r show ?thesis
    by (simp add: stored_from_value_def corrupt_def)
next
  case (Apply r)
  with assms have r: "checked_apply r = Ok r" by simp
  have "version_is n (stored_value s) \<longleftrightarrow> n = 4" for n
    using stored_version [of s] v4.checked_head [OF r] Apply
    by (auto simp: version_is_def of_u8_def head_ok_def)
  with apply_from_to [of r] Apply r show ?thesis
    by (simp add: stored_from_value_def corrupt_def)
next
  case (Capture r)
  with assms have r: "checked_capture r = Ok r" by simp
  have "version_is n (stored_value s) \<longleftrightarrow> n = 5" for n
    using stored_version [of s] v5.checked_head [OF r] Capture
    by (auto simp: version_is_def of_u8_def head_ok_def)
  with capture_from_to [OF capture_checked_steps [OF r]] Capture r show ?thesis
    by (simp add: stored_from_value_def corrupt_def)
qed


lemma checked_opt_Ok [simp]: "checked_opt check v = Ok r \<longleftrightarrow> (\<exists>x. v = Some x \<and> check x = Ok r)"
  by (cases v) (simp_all add: checked_opt_def)

lemma corrupt_Ok [simp]: "corrupt c r = Ok s \<longleftrightarrow> (\<exists>x. r = Ok x \<and> s = c x)"
  by (cases r) (auto simp: corrupt_def)

lemma from_value_checked:
  "operation_from_value v = Ok a \<Longrightarrow> checked a = Ok a"
  "generic_from_value v = Ok b \<Longrightarrow> checked_generic b = Ok b"
  "restore_from_value v = Ok c \<Longrightarrow> checked_restore c = Ok c"
  "apply_from_value v = Ok d \<Longrightarrow> checked_apply d = Ok d"
  "capture_from_value v = Ok e \<Longrightarrow> checked_capture e = Ok e"
  by (auto simp: operation_from_value_def generic_from_value_def restore_from_value_def
      apply_from_value_def capture_from_value_def split: if_splits option.splits json.splits)

lemma stored_from_value_checked: "stored_from_value v = Ok s \<Longrightarrow> stored_checked s"
  unfolding stored_from_value_def
  using from_value_checked [of v] by (auto simp del: checked_Ok_iff checked_generic_Ok_iff
      checked_restore_Ok_iff checked_apply_Ok_iff checked_capture_Ok_iff split: if_splits)

section \<open>Display\<close>

text \<open>The status a receipt is displayed with; \<open>None\<close> stands for the arms the source declares
  unreachable.\<close>

fun display_status :: "StoredReceipt \<Rightarrow> string option" where
  "display_status (V1 r) = Some (if is_uncertain (phase r) then ''unknown'' else phase_name (phase r))"
| "display_status (Capture r) = Some (if capture_blocking r then ''unknown''
     else if c_phase r = C_Closed then ''closed'' else ''aborted'')"
| "display_status (Apply r) = Some (if apply_blocking r then ''unknown''
     else if a_phase r = A_Closed then ''closed'' else ''aborted'')"
| "display_status (Restore r) = (if restore_blocking r then Some ''unknown'' else
     (case r_phase r of R_Prepared \<Rightarrow> Some ''prepared'' | R_Acknowledged \<Rightarrow> Some ''acknowledged''
      | R_NotDispatched \<Rightarrow> Some ''not-dispatched'' | _ \<Rightarrow> None))"
| "display_status (Generic r) = (if generic_blocking r then Some ''unknown'' else
     (case g_phase r of G_Prepared \<Rightarrow> Some ''prepared'' | G_Accepted \<Rightarrow> Some ''accepted''
      | G_Rejected \<Rightarrow> Some ''rejected'' | G_NotDispatched \<Rightarrow> Some ''not-dispatched'' | _ \<Rightarrow> None))"

fun next_check :: "StoredReceipt \<Rightarrow> string" where
  "next_check (V1 r) = (if is_uncertain (phase r)
     then ''Inspect fresh OBS state; this receipt does not authorize replay or prove a rendered result''
     else ''Current OBS state and rendered composition require separate inspection'')"
| "next_check (Capture r) = ''Capture acknowledgement is not a rendered target, rollback, continuation or replay authority. Inspect OBS independently; unfinished history refuses restart.''"
| "next_check (Apply r) = ''Stage acknowledgement is not a postcondition, rendered result, continuation or replay authority. Inspect OBS independently; unfinished history refuses restart.''"
| "next_check (Restore r) = ''Batch acknowledgement counts individual results; restored fields and rendered composition require independent inspection. No replay authority.''"
| "next_check (Generic r) = ''Acceptance is not observation or replay authority; inspect current OBS state independently''"

definition stored_summary :: "StoredReceipt \<Rightarrow> json option" where
  "stored_summary s = map_option (\<lambda>st.
     set_key ''nextCheck'' (JString (next_check s))
       (set_key ''status'' (JString st) (remove_key ''endpointHash'' (stored_value s))))
     (display_status s)"

lemma stored_value_object: "\<exists>kvs. stored_value s = mk_object kvs"
  by (cases s) (auto simp: operation_value_def generic_value_def restore_value_def apply_value_def
      capture_value_def)

lemma display_status_total:
  "\<exists>st. display_status s = Some st \<and> (st = ''unknown'' \<longleftrightarrow> stored_blocking s)"
proof (cases s)
  case (V1 r)
  then show ?thesis by (cases "phase r") (simp_all add: is_uncertain_def)
next
  case (Generic r)
  then show ?thesis by (cases "g_phase r") (simp_all add: generic_blocking_def)
next
  case (Restore r)
  then show ?thesis by (cases "r_phase r") (simp_all add: restore_blocking_def)
qed auto

section \<open>Properties\<close>

text \<open>C28: the stored form loses nothing. A receipt that passes its family's check, or that was
  read from any stored value, is valid, and reading back the value it is written as gives the
  same receipt of the same family; so no family's receipt is ever read as another family's.\<close>

theorem stored_value_roundtrip:
  assumes "stored_checked s \<or> stored_from_value v = Ok s"
  shows "stored_checked s \<and> stored_from_value (stored_value s) = Ok s"
  using assms stored_from_value_checked stored_roundtrip by blast

theorem stored_value_roundtrip_witness:
  "stored_from_value (stored_value (Generic (prepared_generic sample_hash sample_uuid StreamStart 7
     ''2026-01-02T03:04:05.678Z''))) = Ok (Generic (prepared_generic sample_hash sample_uuid StreamStart 7
     ''2026-01-02T03:04:05.678Z''))"
proof -
  let ?r = "prepared_generic sample_hash sample_uuid StreamStart 7 ''2026-01-02T03:04:05.678Z''"
  have "stored_checked (Generic ?r)"
    using sample by (simp add: checked_generic_def workflow_head_ok_def head_ok_def
        prepared_generic_def MAX_SAFE_INTEGER_def)
  then show ?thesis using stored_value_roundtrip [of "Generic ?r"] by blast
qed

text \<open>The display form of a receipt always exists (the arms marked unreachable are never
  taken), shows the status \<open>unknown\<close> exactly for the receipts that block admission, and never
  contains the endpoint hash.\<close>

lemma summary_total_and_blocking:
  "\<exists>v. stored_summary s = Some v \<and> get v ''endpointHash'' = None \<and>
     (get v ''status'' = Some (JString ''unknown'') \<longleftrightarrow> stored_blocking s)"
proof -
  obtain kvs where v: "stored_value s = mk_object kvs" using stored_value_object by blast
  obtain st where "display_status s = Some st" "st = ''unknown'' \<longleftrightarrow> stored_blocking s"
    using display_status_total by blast
  then show ?thesis by (simp add: stored_summary_def v mk_object_def)
qed

end
