(* ===== verification/Namespace.thy ===== *)
theory Namespace
  imports Receipt_Json
begin

text \<open>
  The file-system checks of \<open>src/native/src/operation_store.rs\<close>: directory and file metadata, the
  walk over the components of a path, the identity of the state directory, and the bounded read of
  one receipt file. What the operating system answers is an input of these functions (an
  observation), so that every answer, also a racing or hostile one, is covered; a file that is left
  alone gives the observation \<open>undisturbed\<close>. The Unix build is modelled. The layout check of the
  read view also takes a mutex; a mutex poisoned by a panicking thread is not modelled.
\<close>

unbundle bit_operations_syntax

section \<open>Metadata\<close>

record metadata =
  is_dir :: bool
  is_file :: bool
  is_symlink :: bool
  mode :: "32 word"
  nlink :: u64
  dev :: u64
  ino :: u64
  size_of :: u64
  modified :: "nat option"

text \<open>The answer of \<open>symlink_metadata\<close>.\<close>

datatype lookup = Found metadata | NotFound | Failed

definition same_identity :: "metadata \<Rightarrow> metadata \<Rightarrow> bool" where
  "same_identity a b \<longleftrightarrow> dev a = dev b \<and> ino a = ino b"

definition validate_regular :: "metadata \<Rightarrow> (StoreError, unit) result" where
  "validate_regular m =
     (if \<not> is_file m \<or> is_symlink m then Err UnsafePath
      else if nlink m \<noteq> 1 \<or> mode m AND 18 \<noteq> 0 then Err UnsafePath else Ok ())"

primrec directory_metadata :: "lookup \<Rightarrow> (StoreError, metadata option) result" where
  "directory_metadata (Found m) =
     (if \<not> is_dir m \<or> is_symlink m then Err UnsafePath
      else if mode m AND 18 \<noteq> 0 then Err UnsafePath else Ok (Some m))"
| "directory_metadata NotFound = Ok None"
| "directory_metadata Failed = Err Unavailable"

section \<open>Paths\<close>

datatype path_component = Prefix | RootDir | CurDir | ParentDir | Normal

text \<open>The walk: what each prefix of the path was seen as, until a missing one.\<close>

fun chain_walk :: "bool \<Rightarrow> bool \<Rightarrow> (path_component \<times> lookup) list \<Rightarrow> (StoreError, unit) result" where
  "chain_walk allowed missing [] = Ok ()"
| "chain_walk allowed missing ((c, seen) # rest) =
     (if c \<notin> {Prefix, RootDir, Normal} then Err UnsafePath
      else if missing then chain_walk allowed missing rest
      else (case seen of
          Found m \<Rightarrow> if is_dir m \<and> \<not> is_symlink m then chain_walk allowed missing rest
            else Err UnsafePath
        | NotFound \<Rightarrow> if allowed then chain_walk allowed True rest else Err Unavailable
        | Failed \<Rightarrow> Err Unavailable))"

definition validate_chain :: "bool \<Rightarrow> (path_component \<times> lookup) list \<Rightarrow> bool \<Rightarrow>
    (StoreError, unit) result" where
  "validate_chain absolute components missing_allowed =
     (if \<not> absolute then Err UnsafePath else chain_walk missing_allowed False components)"

section \<open>The layout of the store\<close>

record layout_identity =
  root_id :: "metadata option"
  directory_id :: "metadata option"

record layout_seen =
  absolute :: bool
  components :: "(path_component \<times> lookup) list"
  root_seen :: lookup
  directory_seen :: lookup

definition identity_kept :: "metadata option \<Rightarrow> metadata option \<Rightarrow> bool" where
  "identity_kept expected current = (case expected of None \<Rightarrow> True | Some e \<Rightarrow>
     (case current of None \<Rightarrow> False | Some c \<Rightarrow> same_identity e c))"

definition validate_layout :: "layout_identity \<Rightarrow> layout_seen \<Rightarrow> (StoreError, bool) result" where
  "validate_layout expected seen =
     and_then (validate_chain (absolute seen) (components seen) True) (\<lambda>_.
     and_then (directory_metadata (root_seen seen)) (\<lambda>root.
     and_then (directory_metadata (directory_seen seen)) (\<lambda>directory.
       if identity_kept (root_id expected) root \<and> identity_kept (directory_id expected) directory
       then Ok (directory \<noteq> None) else Err UnsafePath)))"

section \<open>Reading one file\<close>

text \<open>The text form of JSON values, \<open>serde_json\<close>'s printer and parser, with the byte length.\<close>

record 'b text_codec =
  print :: "json \<Rightarrow> 'b option"
  parse :: "'b \<Rightarrow> json option"
  byte_len :: "'b \<Rightarrow> nat"

record 'b stored_file =
  meta :: metadata
  contents :: 'b

text \<open>What a read sees: the path before, the opened file, its bytes, and the path afterwards;
  \<open>None\<close> is a failing call.\<close>

record 'b read_seen =
  seen_before :: lookup
  seen_opened :: "metadata option"
  seen_bytes :: "'b option"
  seen_after :: "metadata option"

definition read_bytes :: "'b text_codec \<Rightarrow> 'b read_seen \<Rightarrow> (StoreError, 'b) result" where
  "read_bytes tx seen = (case seen_before seen of
     NotFound \<Rightarrow> Err Missing
   | Failed \<Rightarrow> Err Unavailable
   | Found before \<Rightarrow>
       and_then (validate_regular before) (\<lambda>_.
       if unat (size_of before) > MAX_RECEIPT_BYTES then Err ReceiptTooLarge
       else (case seen_opened seen of None \<Rightarrow> Err Unavailable | Some opened \<Rightarrow>
         and_then (validate_regular opened) (\<lambda>_.
         if \<not> same_identity before opened then Err UnsafePath
         else (case seen_bytes seen of None \<Rightarrow> Err Unavailable | Some bytes \<Rightarrow>
           if byte_len tx bytes > MAX_RECEIPT_BYTES then Err ReceiptTooLarge
           else (case seen_after seen of None \<Rightarrow> Err Unavailable | Some after \<Rightarrow>
             and_then (validate_regular after) (\<lambda>_.
             if \<not> same_identity opened after \<or> size_of opened \<noteq> size_of after \<or>
                modified opened \<noteq> modified after
             then Err Conflict else Ok bytes)))))))"

definition undisturbed :: "'b stored_file option \<Rightarrow> 'b read_seen" where
  "undisturbed f = (case f of
     None \<Rightarrow> \<lparr>seen_before = NotFound, seen_opened = None, seen_bytes = None, seen_after = None\<rparr>
   | Some x \<Rightarrow> \<lparr>seen_before = Found (meta x), seen_opened = Some (meta x),
       seen_bytes = Some (contents x), seen_after = Some (meta x)\<rparr>)"

definition read_stored :: "'b text_codec \<Rightarrow> 'b read_seen \<Rightarrow> (StoreError, StoredReceipt) result" where
  "read_stored tx seen = and_then (read_bytes tx seen) (\<lambda>bytes.
     case parse tx bytes of None \<Rightarrow> Err Corrupt | Some v \<Rightarrow> stored_from_value v)"

definition operation_from_json :: "'b text_codec \<Rightarrow> 'b \<Rightarrow> (StoreError, OperationRecord) result" where
  "operation_from_json tx bytes =
     (if byte_len tx bytes > MAX_RECEIPT_BYTES then Err ReceiptTooLarge
      else (case parse tx bytes of None \<Rightarrow> Err Corrupt | Some v \<Rightarrow> operation_from_value v))"

definition read_receipt :: "'b text_codec \<Rightarrow> 'b read_seen \<Rightarrow> (StoreError, OperationRecord) result" where
  "read_receipt tx seen = and_then (read_bytes tx seen) (\<lambda>bytes.
     map_err (\<lambda>_. Corrupt) (operation_from_json tx bytes))"

text \<open>What the store relies on of the text form: a valid receipt is printed, and its text parses
  to the same value.\<close>

definition faithful_text :: "'b text_codec \<Rightarrow> bool" where
  "faithful_text tx \<longleftrightarrow> (\<forall>s. stored_checked s \<longrightarrow>
     (\<exists>b. print tx (stored_value s) = Some b \<and> parse tx b = Some (stored_value s)))"

section \<open>Lemmas\<close>

lemma validate_regular_Ok [simp]:
  "validate_regular m = Ok u \<longleftrightarrow> is_file m \<and> \<not> is_symlink m \<and> nlink m = 1 \<and> mode m AND 18 = 0"
  by (auto simp: validate_regular_def)

lemma directory_metadata_Ok:
  "directory_metadata l = Ok d \<longleftrightarrow> l = NotFound \<and> d = None \<or>
     (\<exists>m. l = Found m \<and> d = Some m \<and> is_dir m \<and> \<not> is_symlink m \<and> mode m AND 18 = 0)"
  by (cases l) auto

text \<open>A read succeeds only on one unchanged private regular file within the size limit, and then
  returns what was read from it.\<close>

lemma read_bytes_Ok:
  assumes "read_bytes tx seen = Ok bytes"
  obtains m m' m'' where "seen_before seen = Found m" "seen_opened seen = Some m'"
    "seen_after seen = Some m''" "seen_bytes seen = Some bytes"
    "validate_regular m = Ok ()" "validate_regular m' = Ok ()" "validate_regular m'' = Ok ()"
    "same_identity m m'" "same_identity m' m''" "size_of m' = size_of m''"
    "byte_len tx bytes \<le> MAX_RECEIPT_BYTES"
  using assms
  by (auto simp: read_bytes_def split: lookup.splits option.splits if_splits)

lemma read_bytes_undisturbed:
  "read_bytes tx (undisturbed (Some f)) = Ok b \<longleftrightarrow>
     b = contents f \<and> validate_regular (meta f) = Ok () \<and>
     unat (size_of (meta f)) \<le> MAX_RECEIPT_BYTES \<and> byte_len tx (contents f) \<le> MAX_RECEIPT_BYTES"
  by (auto simp: read_bytes_def undisturbed_def same_identity_def)

lemma read_bytes_missing [simp]: "read_bytes tx (undisturbed None) = Err Missing"
  by (simp add: read_bytes_def undisturbed_def)

lemma read_stored_checked: "read_stored tx seen = Ok s \<Longrightarrow> stored_checked s"
  by (auto simp: read_stored_def dest: stored_from_value_checked split: option.splits)

lemma read_receipt_checked: "read_receipt tx seen = Ok r \<Longrightarrow> checked r = Ok r"
  by (auto simp: read_receipt_def operation_from_json_def dest: from_value_checked(1)
      simp del: checked_Ok_iff split: option.splits if_splits)

lemma validate_layout_pinned:
  assumes "validate_layout expected seen = Ok present" and "directory_id expected = Some d"
  shows "present \<and> (\<exists>m. directory_seen seen = Found m \<and> same_identity d m)"
  using assms
  by (auto simp: validate_layout_def identity_kept_def directory_metadata_Ok
      split: if_splits option.splits)

end
