(* ===== verification/Store.thy ===== *)
theory Store
  imports Namespace
begin

text \<open>
  The durable receipt store of \<open>src/native/src/operation_store.rs\<close>: \<open>BackendStore\<close>, the single
  writer, and \<open>OperationView\<close>, the reader that shares its directory, its pinned directory
  identities and its poison flag. The directory is an association list from names to files. Each
  operation takes what the operating system answered during it as an argument (\<open>view_io\<close>,
  \<open>persist_io\<close>), so a theorem with no hypothesis on that argument covers every failure; \<open>healthy\<close>
  answers are those of a file system that does what it is asked and is left alone.
\<close>

section \<open>State\<close>

record 'b backend =
  b_endpoint :: string
  b_identity :: layout_identity
  sequence :: u64
  process_id :: nat
  poisoned :: bool
  ns_identity :: layout_identity
  disk :: "(string \<times> 'b stored_file) list"

definition receipt_name :: "string \<Rightarrow> string" where
  "receipt_name oid = oid @ ''.json''"

text \<open>What one inspection of the directory sees: the layout at its start and at its end, whether
  the directory opens, the names if they differ from what the directory holds, and the reads that
  are disturbed.\<close>

record 'b view_io =
  layout_start :: layout_seen
  layout_end :: layout_seen
  list_opens :: bool
  listing :: "(StoreError, string) result list option"
  disturbed :: "string \<Rightarrow> 'b read_seen option"

definition seen_file :: "'b view_io \<Rightarrow> 'b backend \<Rightarrow> string \<Rightarrow> 'b read_seen" where
  "seen_file io b name = (case disturbed io name of Some seen \<Rightarrow> seen
     | None \<Rightarrow> undisturbed (map_of (disk b) name))"

definition seen_names :: "'b view_io \<Rightarrow> 'b backend \<Rightarrow> (StoreError, string) result list" where
  "seen_names io b = (case listing io of None \<Rightarrow> map Ok (keys (disk b)) | Some l \<Rightarrow> l)"

section \<open>Opening the store\<close>

record open_io =
  root_absolute :: bool
  root_components :: "(path_component \<times> lookup) list"
  directory_components :: "(path_component \<times> lookup) list"
  open_root :: lookup
  open_directory :: lookup

text \<open>\<open>hash\<close> stands for SHA-256 in hexadecimal; the files are those already in the directory.\<close>

definition new_store :: "(string \<Rightarrow> string) \<Rightarrow> open_io \<Rightarrow> nat \<Rightarrow> (string \<times> 'b stored_file) list \<Rightarrow>
    string \<Rightarrow> (StoreError, 'b backend) result" where
  "new_store hash io pid files endpoint =
     and_then (validate_chain (root_absolute io) (root_components io) True) (\<lambda>_.
     and_then (validate_chain (root_absolute io) (directory_components io) True) (\<lambda>_.
     and_then (directory_metadata (open_root io)) (\<lambda>root.
     and_then (directory_metadata (open_directory io)) (\<lambda>directory.
       let identity = \<lparr>root_id = root, directory_id = directory\<rparr> in
       Ok \<lparr>b_endpoint = hash endpoint, b_identity = identity, sequence = 0, process_id = pid,
           poisoned = False, ns_identity = identity, disk = files\<rparr>))))"

section \<open>Reading\<close>

definition view_layout :: "'b backend \<Rightarrow> layout_seen \<Rightarrow> (StoreError, bool) result" where
  "view_layout b seen = validate_layout (ns_identity b) seen"

definition read_operation :: "'b text_codec \<Rightarrow> 'b view_io \<Rightarrow> 'b backend \<Rightarrow> string \<Rightarrow>
    (StoreError, OperationRecord) result" where
  "read_operation tx io b oid =
     (if \<not> valid_uuid oid then Err InvalidIdentifier
      else and_then (view_layout b (layout_start io)) (\<lambda>present.
        if \<not> present then Err Missing
        else and_then (read_receipt tx (seen_file io b (receipt_name oid))) (\<lambda>r.
          if operation_id r \<noteq> oid then Err Corrupt
          else if endpoint_hash r \<noteq> b_endpoint b then Err EndpointMismatch
          else and_then (view_layout b (layout_end io)) (\<lambda>_. Ok r))))"

text \<open>The names of the receipts: other names are skipped, one receipt too many is refused.\<close>

fun collect_names :: "(StoreError, string) result list \<Rightarrow> string list \<Rightarrow> (StoreError, string list) result" where
  "collect_names [] names = Ok names"
| "collect_names (Err e # rest) names = Err e"
| "collect_names (Ok n # rest) names =
     (if \<not> ends_with n ''.json'' then collect_names rest names
      else if Suc (length names) > MAX_RECEIPTS then Err InventoryLimit
      else collect_names rest (names @ [n]))"

text \<open>Every receipt is read and checked; those of other endpoints are left out.\<close>

fun load_receipts :: "'b text_codec \<Rightarrow> 'b view_io \<Rightarrow> 'b backend \<Rightarrow> string list \<Rightarrow>
    (StoreError, StoredReceipt list) result" where
  "load_receipts tx io b [] = Ok []"
| "load_receipts tx io b (n # names) =
     (case strip_suffix n ''.json'' of None \<Rightarrow> Err Corrupt | Some oid \<Rightarrow>
        if \<not> valid_uuid oid then Err Corrupt
        else and_then (read_stored tx (seen_file io b n)) (\<lambda>s.
          if stored_id s \<noteq> oid then Err Corrupt
          else and_then (load_receipts tx io b names) (\<lambda>ss.
            Ok (if stored_endpoint s = b_endpoint b then s # ss else ss))))"

definition inventory_order :: "StoredReceipt \<Rightarrow> StoredReceipt \<Rightarrow> ordering" where
  "inventory_order a b = then_with (cmp_of (stored_created b) (stored_created a))
     (uuid_collation (stored_id a) (stored_id b))"

text \<open>\<open>sort_by\<close>: stable.\<close>

fun insert_by :: "('a \<Rightarrow> 'a \<Rightarrow> ordering) \<Rightarrow> 'a \<Rightarrow> 'a list \<Rightarrow> 'a list" where
  "insert_by cmp x [] = [x]"
| "insert_by cmp x (y # ys) = (if cmp x y = Greater then y # insert_by cmp x ys else x # y # ys)"

definition sort_by :: "('a \<Rightarrow> 'a \<Rightarrow> ordering) \<Rightarrow> 'a list \<Rightarrow> 'a list" where
  "sort_by cmp xs = foldr (insert_by cmp) xs []"

definition inventory :: "'b text_codec \<Rightarrow> 'b view_io \<Rightarrow> 'b backend \<Rightarrow>
    (StoreError, StoredReceipt list) result" where
  "inventory tx io b =
     (if poisoned b then Err DurabilityUncertain
      else and_then (view_layout b (layout_start io)) (\<lambda>present.
        if \<not> present then Ok []
        else if \<not> list_opens io then Err Unavailable
        else and_then (collect_names (seen_names io b) []) (\<lambda>names.
          and_then (load_receipts tx io b names) (\<lambda>ss.
          and_then (view_layout b (layout_end io)) (\<lambda>_.
          Ok (sort_by inventory_order ss))))))"

fun count_names :: "(StoreError, string) result list \<Rightarrow> nat \<Rightarrow> (StoreError, nat) result" where
  "count_names [] n = Ok n"
| "count_names (Err e # rest) n = Err e"
| "count_names (Ok s # rest) n =
     (if ends_with s ''.json'' then
        if Suc n > MAX_RECEIPTS then Err InventoryLimit else count_names rest (Suc n)
      else count_names rest n)"

definition capacity_used :: "'b view_io \<Rightarrow> 'b backend \<Rightarrow> (StoreError, nat) result" where
  "capacity_used io b =
     and_then (view_layout b (layout_start io)) (\<lambda>present.
       if \<not> present then Ok 0
       else if \<not> list_opens io then Err Unavailable
       else and_then (count_names (seen_names io b) 0) (\<lambda>n.
         and_then (view_layout b (layout_end io)) (\<lambda>_. Ok n)))"

definition read_any :: "'b text_codec \<Rightarrow> 'b view_io \<Rightarrow> 'b backend \<Rightarrow> string \<Rightarrow> (StoreError, json) result" where
  "read_any tx io b oid =
     (if \<not> valid_uuid oid then Err InvalidIdentifier
      else and_then (inventory tx io b) (\<lambda>ss.
        case List.find (\<lambda>s. stored_id s = oid) ss of
          None \<Rightarrow> Err Missing | Some s \<Rightarrow> Ok (stored_value s)))"

section \<open>Admission\<close>

record admission =
  blocking :: bool
  generic_v2_present :: bool
  total :: nat

fun is_v1 :: "StoredReceipt \<Rightarrow> bool" where
  "is_v1 (V1 r) = True"
| "is_v1 _ = False"

definition admission_except :: "'b text_codec \<Rightarrow> 'b view_io \<Rightarrow> 'b backend \<Rightarrow> string option \<Rightarrow>
    (StoreError, admission) result" where
  "admission_except tx io b own = and_then (inventory tx io b) (\<lambda>ss.
     Ok \<lparr>blocking = list_ex (\<lambda>s. Some (stored_id s) \<noteq> own \<and> stored_blocking s) ss,
         generic_v2_present = list_ex (\<lambda>s. \<not> is_v1 s) ss, total = length ss\<rparr>)"

definition view_admission :: "'b text_codec \<Rightarrow> 'b view_io \<Rightarrow> 'b backend \<Rightarrow> (StoreError, admission) result" where
  "view_admission tx io b = admission_except tx io b None"

definition generic_history :: "(GenericKind \<Rightarrow> bool) \<Rightarrow> StoredReceipt \<Rightarrow> bool" where
  "generic_history P s = (case s of
     Generic r \<Rightarrow> P (g_request_type r) \<and> g_phase r \<noteq> G_NotDispatched | _ \<Rightarrow> False)"

definition guarded_reentry_allowed :: "'b text_codec \<Rightarrow> 'b view_io \<Rightarrow> 'b backend \<Rightarrow>
    (StoreError, bool) result" where
  "guarded_reentry_allowed tx io b = and_then (inventory tx io b) (\<lambda>ss.
     Ok (\<not> list_ex (generic_history incompatible_with_guarded_reentry) ss))"

definition production_connection_allowed :: "'b text_codec \<Rightarrow> 'b view_io \<Rightarrow> 'b backend \<Rightarrow>
    (StoreError, bool) result" where
  "production_connection_allowed tx io b = and_then (inventory tx io b) (\<lambda>ss.
     Ok (\<not> list_ex (generic_history advanced_only) ss))"

definition is_dispatching :: "'b text_codec \<Rightarrow> 'b view_io \<Rightarrow> 'b backend \<Rightarrow> string \<Rightarrow>
    (StoreError, bool) result" where
  "is_dispatching tx io b oid = and_then (inventory tx io b) (\<lambda>ss.
     Ok (list_ex (\<lambda>s. stored_id s = oid \<and> stored_dispatching s) ss))"

definition admission_with_live_ids :: "'b text_codec \<Rightarrow> 'b view_io \<Rightarrow> 'b backend \<Rightarrow> string option \<Rightarrow>
    string list \<Rightarrow> (StoreError, admission) result" where
  "admission_with_live_ids tx io b own live = and_then (inventory tx io b) (\<lambda>ss.
     if list_ex (\<lambda>i. \<not> list_ex (\<lambda>s. stored_id s = i) ss) live then Err Missing
     else if (case own of None \<Rightarrow> False
        | Some o1 \<Rightarrow> \<not> list_ex (\<lambda>s. stored_id s = o1 \<and> stored_dispatching s) ss) then Err Conflict
     else Ok \<lparr>blocking = list_ex (\<lambda>s. stored_blocking s \<and> Some (stored_id s) \<noteq> own \<and>
            \<not> (stored_id s \<in> set live \<and> known_live_in_flight s)) ss,
          generic_v2_present = list_ex (\<lambda>s. \<not> is_v1 s) ss, total = length ss\<rparr>)"

section \<open>Display\<close>

record observed_summary =
  operations :: "json option list"
  os_total :: nat
  truncated :: bool

definition try_summary :: "'b text_codec \<Rightarrow> 'b view_io \<Rightarrow> 'b backend \<Rightarrow>
    (StoreError, observed_summary) result" where
  "try_summary tx io b = and_then (inventory tx io b) (\<lambda>ss.
     let ops = map stored_summary
       (take DISPLAY_RECEIPTS (filter stored_blocking ss @ filter (\<lambda>s. \<not> stored_blocking s) ss))
     in Ok \<lparr>operations = ops, os_total = length ss, truncated = length ss > length ops\<rparr>)"

text \<open>\<open>None\<close> is the panic of an arm declared unreachable.\<close>

definition view_summary :: "'b text_codec \<Rightarrow> 'b view_io \<Rightarrow> 'b backend \<Rightarrow> json option" where
  "view_summary tx io b = (case try_summary tx io b of
     Ok s \<Rightarrow> map_option (\<lambda>vs. mk_object [(''status'', JString ''observed''),
         (''operations'', JArray vs), (''total'', of_u64 (of_nat (os_total s))),
         (''truncated'', JBool (truncated s))]) (read_all (\<lambda>v. v) (operations s))
   | Err e \<Rightarrow> Some (mk_object [(''status'', JString ''unknown''), (''operations'', JArray []),
       (''reason'', JString ''receipt_unavailable''),
       (''nextCheck'', JString ''Operation receipts could not be inspected; do not infer that no operation is pending'')]))"

definition mark_uncertain :: "'b backend \<Rightarrow> 'b backend" where
  "mark_uncertain b = b\<lparr>poisoned := True\<rparr>"

section \<open>Writing\<close>

text \<open>What one publication sees, in order: \<open>ensure_layout\<close> (the layout, the creation of the
  directory, the path without missing components, and the directories), the destination, the
  temporary file (opened, inspected, written and synced), the layout, the renaming, the layout, the
  two directories opened and synced, and the layout.\<close>

record 'b persist_io =
  ensure_seen :: layout_seen
  create_ok :: bool
  created_absolute :: bool
  created_components :: "(path_component \<times> lookup) list"
  created_root :: lookup
  created_directory :: lookup
  destination_fails :: bool
  open_ok :: bool
  stage_seen_ok :: bool
  write_ok :: bool
  removed_ok :: bool
  partial_file :: "'b stored_file"
  staged_layout :: layout_seen
  rename_ok :: bool
  new_meta :: metadata
  published_layout :: layout_seen
  sync_directory :: "metadata option \<times> bool"
  sync_root :: "metadata option \<times> bool"
  final_layout :: layout_seen

definition ensure_layout :: "'b persist_io \<Rightarrow> 'b backend \<Rightarrow> (StoreError, unit) result \<times> 'b backend" where
  "ensure_layout io b =
     (case validate_layout (b_identity b) (ensure_seen io) of Err e \<Rightarrow> (Err e, b) | Ok _ \<Rightarrow>
      if \<not> create_ok io then (Err Unavailable, b)
      else (case validate_chain (created_absolute io) (created_components io) False of
          Err e \<Rightarrow> (Err e, b)
        | Ok _ \<Rightarrow> (case directory_metadata (created_root io) of Err e \<Rightarrow> (Err e, b) | Ok rt \<Rightarrow>
            (let b1 = b\<lparr>b_identity := (b_identity b)\<lparr>root_id := rt\<rparr>\<rparr> in
             case directory_metadata (created_directory io) of Err e \<Rightarrow> (Err e, b1) | Ok directory \<Rightarrow>
               (let identity = \<lparr>root_id = rt, directory_id = directory\<rparr>
                in (Ok (), b1\<lparr>b_identity := identity, ns_identity := identity\<rparr>))))))"

definition destination_check :: "'b persist_io \<Rightarrow> 'b backend \<Rightarrow> string \<Rightarrow> bool \<Rightarrow>
    (StoreError, unit) result" where
  "destination_check io b oid replacing =
     (if destination_fails io then Err Unavailable
      else (case map_of (disk b) (receipt_name oid) of
          Some f \<Rightarrow> and_then (validate_regular (meta f)) (\<lambda>_.
            if \<not> replacing then Err Conflict else Ok ())
        | None \<Rightarrow> if replacing then Err Missing else Ok ()))"

definition temporary_name :: "string \<Rightarrow> nat \<Rightarrow> u64 \<Rightarrow> string" where
  "temporary_name oid pid n = oid @ ''.'' @ dec pid @ ''.'' @ dec (unat n) @ ''.tmp''"

text \<open>Dropping an unpublished temporary file removes it, unless that fails too.\<close>

definition drop_staged :: "'b persist_io \<Rightarrow> string \<Rightarrow> 'b backend \<Rightarrow> 'b backend" where
  "drop_staged io tmp b =
     (if removed_ok io then b else b\<lparr>disk := upd tmp (partial_file io) (disk b)\<rparr>)"

definition synced :: "metadata option \<Rightarrow> metadata option \<times> bool \<Rightarrow> bool" where
  "synced expected seen = (case seen of (None, _) \<Rightarrow> False
     | (Some opened, ok) \<Rightarrow> (case expected of None \<Rightarrow> False | Some e \<Rightarrow> same_identity e opened) \<and> ok)"

definition publish :: "'b persist_io \<Rightarrow> string \<Rightarrow> 'b \<Rightarrow> 'b backend \<Rightarrow>
    (StoreError, unit) result \<times> 'b backend" where
  "publish io oid bytes b =
     (let tmp = temporary_name oid (process_id b) (sequence b) in
      if \<not> open_ok io \<or> map_of (disk b) tmp \<noteq> None then (Err Unavailable, b)
      else if \<not> stage_seen_ok io
        then (Err Unavailable, b\<lparr>disk := upd tmp (partial_file io) (disk b)\<rparr>)
      else if \<not> write_ok io then (Err Unavailable, drop_staged io tmp b)
      else (case validate_layout (b_identity b) (staged_layout io) of
          Err e \<Rightarrow> (Err e, drop_staged io tmp b)
        | Ok _ \<Rightarrow>
            if \<not> rename_ok io then (Err Unavailable, drop_staged io tmp b)
            else (if is_ok (validate_layout (b_identity b) (published_layout io)) \<and>
                     synced (directory_id (b_identity b)) (sync_directory io) \<and>
                     synced (root_id (b_identity b)) (sync_root io) \<and>
                     is_ok (validate_layout (b_identity b) (final_layout io))
                  then Ok () else Err DurabilityUncertain,
                  b\<lparr>disk := upd (receipt_name oid) \<lparr>meta = new_meta io, contents = bytes\<rparr> (disk b)\<rparr>)))"

definition persist_value :: "'b text_codec \<Rightarrow> 'b persist_io \<Rightarrow> string \<Rightarrow> json \<Rightarrow> bool \<Rightarrow> 'b backend \<Rightarrow>
    (StoreError, unit) result \<times> 'b backend" where
  "persist_value tx io oid v replacing b =
     (case print tx v of None \<Rightarrow> (Err InvalidReceipt, b) | Some bytes \<Rightarrow>
      if byte_len tx bytes > MAX_RECEIPT_BYTES then (Err ReceiptTooLarge, b)
      else (case ensure_layout io b of (Err e, b1) \<Rightarrow> (Err e, b1) | (Ok _, b1) \<Rightarrow>
        (case destination_check io b1 oid replacing of Err e \<Rightarrow> (Err e, b1) | Ok _ \<Rightarrow>
          (case checked_add (sequence b1) 1 of None \<Rightarrow> (Err IdentityExhausted, b1) | Some n \<Rightarrow>
            publish io oid bytes (b1\<lparr>sequence := n\<rparr>)))))"

section \<open>Operations of the writer\<close>

text \<open>The receipt is returned once it is published; otherwise the error of the publication.\<close>

definition returning :: "'r \<Rightarrow> (StoreError, unit) result \<times> 'b backend \<Rightarrow>
    (StoreError, 'r) result \<times> 'b backend" where
  "returning r out = (and_then (fst out) (\<lambda>_. Ok r), snd out)"

definition check_endpoint :: "'b backend \<Rightarrow> OperationRecord \<Rightarrow> (StoreError, unit) result" where
  "check_endpoint b r = (if endpoint_hash r = b_endpoint b then Ok () else Err EndpointMismatch)"

definition persist :: "'b text_codec \<Rightarrow> 'b persist_io \<Rightarrow> OperationRecord \<Rightarrow> bool \<Rightarrow> 'b backend \<Rightarrow>
    (StoreError, unit) result \<times> 'b backend" where
  "persist tx io r replacing b = (case check_endpoint b r of Err e \<Rightarrow> (Err e, b)
     | Ok _ \<Rightarrow> persist_value tx io (operation_id r) (operation_value r) replacing b)"

definition prepare :: "'b text_codec \<Rightarrow> 'b persist_io \<Rightarrow> (string \<Rightarrow> string) \<Rightarrow> string \<Rightarrow> OperationKind \<Rightarrow>
    u64 \<Rightarrow> string \<Rightarrow> PrepareDetails \<Rightarrow> 'b backend \<Rightarrow> (StoreError, OperationRecord) result \<times> 'b backend" where
  "prepare tx io hash oid k gen t d b =
     (if \<not> valid_uuid oid then (Err InvalidIdentifier, b)
      else if \<not> valid_timestamp t then (Err InvalidTimestamp, b)
      else (case checked (prepared_record hash (b_endpoint b) oid k gen t d) of
          Err e \<Rightarrow> (Err e, b) | Ok r \<Rightarrow> returning r (persist tx io r False b)))"

definition update :: "'b text_codec \<Rightarrow> 'b view_io \<Rightarrow> 'b persist_io \<Rightarrow> OperationRecord \<Rightarrow> OperationUpdate \<Rightarrow>
    string \<Rightarrow> 'b backend \<Rightarrow> (StoreError, OperationRecord) result \<times> 'b backend" where
  "update tx vio io r u t b =
     (if \<not> valid_timestamp t then (Err InvalidTimestamp, b)
      else (case check_endpoint b r of Err e \<Rightarrow> (Err e, b) | Ok _ \<Rightarrow>
        (case read_operation tx vio b (operation_id r) of Err e \<Rightarrow> (Err e, b) | Ok actual \<Rightarrow>
          if actual \<noteq> r then (Err Conflict, b)
          else (case updated r u t of Err e \<Rightarrow> (Err e, b)
            | Ok r' \<Rightarrow> returning r' (persist tx io r' True b)))))"

definition prepare_generic :: "'b text_codec \<Rightarrow> 'b persist_io \<Rightarrow> string \<Rightarrow> GenericKind \<Rightarrow> u64 \<Rightarrow> string \<Rightarrow>
    'b backend \<Rightarrow> (StoreError, GenericRecord) result \<times> 'b backend" where
  "prepare_generic tx io oid k gen t b =
     (case checked_generic (prepared_generic (b_endpoint b) oid k gen t) of Err e \<Rightarrow> (Err e, b)
      | Ok r \<Rightarrow> returning r (persist_value tx io oid (generic_value r) False b))"

definition prepare_restore :: "'b text_codec \<Rightarrow> 'b persist_io \<Rightarrow> string \<Rightarrow> u64 \<Rightarrow> u64 \<Rightarrow> string \<Rightarrow>
    'b backend \<Rightarrow> (StoreError, RestoreRecord) result \<times> 'b backend" where
  "prepare_restore tx io oid gen n t b =
     (case checked_restore (prepared_restore (b_endpoint b) oid gen n t) of Err e \<Rightarrow> (Err e, b)
      | Ok r \<Rightarrow> returning r (persist_value tx io oid (restore_value r) False b))"

definition prepare_apply :: "'b text_codec \<Rightarrow> 'b persist_io \<Rightarrow> string \<Rightarrow> u64 \<Rightarrow> u64 \<Rightarrow> string \<Rightarrow>
    'b backend \<Rightarrow> (StoreError, ApplyRecord) result \<times> 'b backend" where
  "prepare_apply tx io oid gen n t b =
     (case checked_apply (prepared_apply (b_endpoint b) oid gen n t) of Err e \<Rightarrow> (Err e, b)
      | Ok r \<Rightarrow> returning r (persist_value tx io oid (apply_value r) False b))"

definition prepare_capture :: "'b text_codec \<Rightarrow> 'b persist_io \<Rightarrow> string \<Rightarrow> u64 \<Rightarrow> CapturePlan \<Rightarrow> string \<Rightarrow>
    'b backend \<Rightarrow> (StoreError, CaptureRecord) result \<times> 'b backend" where
  "prepare_capture tx io oid gen plan t b =
     (case checked_capture (prepared_capture (b_endpoint b) oid gen plan t) of Err e \<Rightarrow> (Err e, b)
      | Ok r \<Rightarrow> returning r (persist_value tx io oid (capture_value r) False b))"

text \<open>The guard every later family's update starts with: the receipt belongs to this endpoint and
  is what the file holds now.\<close>

definition current_receipt :: "'b text_codec \<Rightarrow> 'b view_io \<Rightarrow> 'b backend \<Rightarrow> StoredReceipt \<Rightarrow>
    (StoreError, unit) result" where
  "current_receipt tx vio b s =
     (if stored_endpoint s \<noteq> b_endpoint b then Err EndpointMismatch
      else and_then (read_stored tx (seen_file vio b (receipt_name (stored_id s)))) (\<lambda>actual.
        if actual = s then Ok () else Err Conflict))"

definition update_generic :: "'b text_codec \<Rightarrow> 'b view_io \<Rightarrow> 'b persist_io \<Rightarrow> GenericRecord \<Rightarrow>
    GenericPhase \<Rightarrow> string \<Rightarrow> 'b backend \<Rightarrow> (StoreError, GenericRecord) result \<times> 'b backend" where
  "update_generic tx vio io r p t b =
     (case current_receipt tx vio b (Generic r) of Err e \<Rightarrow> (Err e, b) | Ok _ \<Rightarrow>
       (case updated_generic r p t of Err e \<Rightarrow> (Err e, b) | Ok r' \<Rightarrow>
         returning r' (persist_value tx io (operation_id r') (generic_value r') True b)))"

definition update_restore :: "'b text_codec \<Rightarrow> 'b view_io \<Rightarrow> 'b persist_io \<Rightarrow> RestoreRecord \<Rightarrow>
    RestorePhase \<Rightarrow> RestoreCounts option \<Rightarrow> string \<Rightarrow> 'b backend \<Rightarrow>
    (StoreError, RestoreRecord) result \<times> 'b backend" where
  "update_restore tx vio io r p counts t b =
     (case current_receipt tx vio b (Restore r) of Err e \<Rightarrow> (Err e, b) | Ok _ \<Rightarrow>
       (case updated_restore r (p, counts) t of Err e \<Rightarrow> (Err e, b) | Ok r' \<Rightarrow>
         returning r' (persist_value tx io (operation_id r') (restore_value r') True b)))"

definition update_apply :: "'b text_codec \<Rightarrow> 'b view_io \<Rightarrow> 'b persist_io \<Rightarrow> ApplyRecord \<Rightarrow> ApplyUpdate \<Rightarrow>
    string \<Rightarrow> 'b backend \<Rightarrow> (StoreError, ApplyRecord) result \<times> 'b backend" where
  "update_apply tx vio io r u t b =
     (case current_receipt tx vio b (Apply r) of Err e \<Rightarrow> (Err e, b) | Ok _ \<Rightarrow>
       (case updated_apply r u t of Err e \<Rightarrow> (Err e, b) | Ok r' \<Rightarrow>
         returning r' (persist_value tx io (operation_id r') (apply_value r') True b)))"

definition update_capture :: "'b text_codec \<Rightarrow> 'b view_io \<Rightarrow> 'b persist_io \<Rightarrow> CaptureRecord \<Rightarrow>
    CaptureUpdate \<Rightarrow> string \<Rightarrow> 'b backend \<Rightarrow> (StoreError, CaptureRecord) result \<times> 'b backend" where
  "update_capture tx vio io r u t b =
     (case current_receipt tx vio b (Capture r) of Err e \<Rightarrow> (Err e, b) | Ok _ \<Rightarrow>
       (case updated_capture r u t of Err e \<Rightarrow> (Err e, b) | Ok r' \<Rightarrow>
         returning r' (persist_value tx io (operation_id r') (capture_value r') True b)))"

section \<open>What a publication does to the directory\<close>

lemma ends_with_json_tmp: "\<not> ends_with (temporary_name oid pid n) ''.json''"
proof -
  have "\<exists>pre. temporary_name oid pid n = pre @ ''.tmp''"
    by (auto simp: temporary_name_def)
  then obtain pre where "temporary_name oid pid n = pre @ ''.tmp''" ..
  then show ?thesis
    by (auto dest!: ends_withD simp: append_eq_append_conv2 append_eq_Cons_conv Cons_eq_append_conv)
qed

lemma receipt_name_json [simp]: "ends_with (receipt_name oid) ''.json''"
  by (simp add: receipt_name_def)

lemma receipt_name_inj [simp]: "receipt_name a = receipt_name b \<longleftrightarrow> a = b"
  by (simp add: receipt_name_def)

text \<open>The receipts of a directory, as a map from file names.\<close>

definition json_files :: "'b backend \<Rightarrow> string \<Rightarrow> 'b stored_file option" where
  "json_files b n = (if ends_with n ''.json'' then map_of (disk b) n else None)"

lemma json_files_tmp [simp]:
  "json_files (b\<lparr>disk := upd (temporary_name oid pid n) f (disk b)\<rparr>) = json_files b"
  using ends_with_json_tmp by (auto simp: json_files_def fun_eq_iff)

lemma json_files_put:
  "json_files (b\<lparr>disk := upd (receipt_name oid) f (disk b)\<rparr>) = (json_files b)(receipt_name oid \<mapsto> f)"
  by (auto simp: json_files_def fun_eq_iff)

lemma json_files_state [simp]:
  "json_files (b\<lparr>sequence := n\<rparr>) = json_files b" "json_files (b\<lparr>poisoned := p\<rparr>) = json_files b"
  by (simp_all add: json_files_def fun_eq_iff)

lemma drop_staged_json [simp]: "json_files (drop_staged io (temporary_name oid pid n) b) = json_files b"
  by (simp add: drop_staged_def)

lemma ensure_layout_keeps:
  assumes "ensure_layout io b = (res, b1)"
  shows "disk b1 = disk b" and "sequence b1 = sequence b" and "b_endpoint b1 = b_endpoint b"
    and "poisoned b1 = poisoned b" and "process_id b1 = process_id b"
  using assms by (auto simp: ensure_layout_def Let_def split: sum.splits if_splits)

text \<open>The three outcomes of a publication: nothing visible changed, or exactly one receipt was
  put in place and the result is success or uncertainty.\<close>

definition unpublished :: "'b backend \<Rightarrow> 'b backend \<Rightarrow> bool" where
  "unpublished b b' \<longleftrightarrow> json_files b' = json_files b \<and> b_endpoint b' = b_endpoint b \<and>
     poisoned b' = poisoned b \<and> sequence b \<le> sequence b'"

definition published :: "'b text_codec \<Rightarrow> string \<Rightarrow> json \<Rightarrow> 'b backend \<Rightarrow> 'b backend \<Rightarrow> bool" where
  "published tx oid v b b' \<longleftrightarrow> (\<exists>m bytes. print tx v = Some bytes \<and>
       byte_len tx bytes \<le> MAX_RECEIPT_BYTES \<and>
       json_files b' = (json_files b)(receipt_name oid \<mapsto> \<lparr>meta = m, contents = bytes\<rparr>)) \<and>
     b_endpoint b' = b_endpoint b \<and> poisoned b' = poisoned b \<and> sequence b < sequence b'"

lemma chain_walk_errors: "chain_walk a m cs = Err e \<Longrightarrow> e = UnsafePath \<or> e = Unavailable"
  by (induction a m cs rule: chain_walk.induct) (auto split: if_splits lookup.splits)

lemma layout_errors:
  "validate_chain a cs m = Err e \<Longrightarrow> e = UnsafePath \<or> e = Unavailable"
  "directory_metadata l = Err e \<Longrightarrow> e = UnsafePath \<or> e = Unavailable"
  "validate_layout ids seen = Err e \<Longrightarrow> e = UnsafePath \<or> e = Unavailable"
proof -
  show chain: "validate_chain a cs m = Err e \<Longrightarrow> e = UnsafePath \<or> e = Unavailable" for a cs m e
    using chain_walk_errors by (auto simp: validate_chain_def split: if_splits)
  show directory: "directory_metadata l = Err e \<Longrightarrow> e = UnsafePath \<or> e = Unavailable" for l e
    by (cases l) (auto split: if_splits)
  show "validate_layout ids seen = Err e \<Longrightarrow> e = UnsafePath \<or> e = Unavailable"
    using chain directory by (auto simp: validate_layout_def and_then_def split: sum.splits if_splits)
qed

lemma ensure_layout_errors:
  "ensure_layout io b = (Err e, b1) \<Longrightarrow> e = UnsafePath \<or> e = Unavailable"
  by (auto simp: ensure_layout_def Let_def dest: layout_errors split: sum.splits if_splits)

lemma destination_check_errors:
  "destination_check io b oid replacing = Err e \<Longrightarrow> e \<noteq> DurabilityUncertain"
  by (auto simp: destination_check_def validate_regular_def and_then_def
      split: option.splits if_splits sum.splits)

lemma publish_cases:
  assumes "publish io oid bytes b = (res, b')"
  shows "(\<exists>e. res = Err e \<and> e \<noteq> DurabilityUncertain) \<and> json_files b' = json_files b \<or>
     (res = Ok () \<or> res = Err DurabilityUncertain) \<and>
     json_files b' = (json_files b)(receipt_name oid \<mapsto> \<lparr>meta = new_meta io, contents = bytes\<rparr>)"
proof (cases "validate_layout (b_identity b) (staged_layout io)")
  case (Inl e)
  from layout_errors(3) [OF this] have "e \<noteq> DurabilityUncertain" by auto
  with assms Inl show ?thesis
    by (auto simp: publish_def Let_def split: if_split_asm)
next
  case (Inr present)
  let ?tmp = "temporary_name oid (process_id b) (sequence b)"
  show ?thesis
  proof (cases "open_ok io \<and> map_of (disk b) ?tmp = None \<and> stage_seen_ok io \<and> write_ok io \<and> rename_ok io")
    case True
    then have "b' = b\<lparr>disk := upd (receipt_name oid) \<lparr>meta = new_meta io, contents = bytes\<rparr> (disk b)\<rparr>"
        "res = Ok () \<or> res = Err DurabilityUncertain"
      using assms Inr by (simp_all add: publish_def Let_def split: if_split_asm)
    then show ?thesis by (simp add: json_files_put)
  next
    case False
    then have "res = Err Unavailable"
        "b' = b \<or> b' = b\<lparr>disk := upd ?tmp (partial_file io) (disk b)\<rparr> \<or> b' = drop_staged io ?tmp b"
      using assms Inr by (auto simp: publish_def Let_def split: if_split_asm)
    then show ?thesis by (elim disjE) simp_all
  qed
qed

lemma publish_keeps:
  assumes "publish io oid bytes b = (res, b')"
  shows "b_endpoint b' = b_endpoint b" and "poisoned b' = poisoned b" and "sequence b' = sequence b"
    and "ns_identity b' = ns_identity b"
  using assms by (auto simp: publish_def Let_def drop_staged_def split: if_splits sum.splits)

lemma checked_add_one: "checked_add a 1 = Some c \<Longrightarrow> a < (c :: u64)"
  by (simp add: checked_add_Some_iff word_less_nat_alt)

lemma json_files_cong: "disk a = disk b \<Longrightarrow> json_files a = json_files b"
  by (simp add: json_files_def fun_eq_iff)

lemma persist_value_cases:
  assumes "persist_value tx io oid v replacing b = (res, b')"
  shows "(\<exists>e. res = Err e \<and> e \<noteq> DurabilityUncertain) \<and> unpublished b b' \<or>
    (res = Ok () \<or> res = Err DurabilityUncertain) \<and> published tx oid v b b' \<and>
    (replacing \<longleftrightarrow> json_files b (receipt_name oid) \<noteq> None)"
proof (cases "print tx v")
  case None
  with assms show ?thesis by (auto simp: persist_value_def unpublished_def)
next
  case (Some bytes)
  obtain r1 b1 where ens: "ensure_layout io b = (r1, b1)" by (cases "ensure_layout io b")
  note keeps = ensure_layout_keeps [OF ens]
  note json = json_files_cong [OF keeps(1)]
  show ?thesis
  proof (cases "byte_len tx bytes > MAX_RECEIPT_BYTES \<or> \<not> is_ok r1 \<or>
      \<not> is_ok (destination_check io b1 oid replacing) \<or> checked_add (sequence b1) 1 = None")
    case True
    have "\<exists>e. res = Err e \<and> e \<noteq> DurabilityUncertain \<and> (b' = b \<or> b' = b1)"
    proof (cases r1)
      case (Inl e)
      with assms Some ens ensure_layout_errors [of io b e] show ?thesis
        by (auto simp: persist_value_def split: if_split_asm)
    next
      case (Inr u)
      show ?thesis
      proof (cases "destination_check io b1 oid replacing")
        case (Inl e)
        then have "persist_value tx io oid v replacing b =
            (if byte_len tx bytes > MAX_RECEIPT_BYTES then (Err ReceiptTooLarge, b) else (Err e, b1))"
          using Some ens Inr by (simp add: persist_value_def)
        with assms destination_check_errors [OF Inl] show ?thesis
          by (auto split: if_splits)
      next
        case (Inr u')
        with assms Some ens \<open>r1 = Ok u\<close> True show ?thesis
          by (auto simp: persist_value_def split: if_splits)
      qed
    qed
    with keeps json show ?thesis by (auto simp: unpublished_def)
  next
    case False
    then obtain n where n: "checked_add (sequence b1) 1 = Some n" by auto
    from False have ok: "r1 = Ok ()" "destination_check io b1 oid replacing = Ok ()"
      by (auto simp: is_ok_iff)
    let ?b2 = "b1\<lparr>sequence := n\<rparr>"
    have pub: "publish io oid bytes ?b2 = (res, b')"
      using assms Some ens n ok False by (simp add: persist_value_def)
    have b2: "json_files ?b2 = json_files b" "sequence b < sequence ?b2"
      using json checked_add_one [OF n] keeps(2) by simp_all
    have dest: "replacing \<longleftrightarrow> json_files b (receipt_name oid) \<noteq> None"
      using ok(2) keeps(1)
      by (auto simp: destination_check_def json_files_def split: if_splits option.splits)
    from publish_keeps [OF pub] publish_cases [OF pub] b2 keeps False Some dest show ?thesis
      by (auto simp: unpublished_def published_def)
  qed
qed

section \<open>Properties\<close>

text \<open>A private directory, a private file, and a file system that answers every call with success,
  for the witnesses; the text form is the value itself.\<close>

definition sample_directory :: metadata where
  "sample_directory = \<lparr>is_dir = True, is_file = False, is_symlink = False, mode = 448, nlink = 2,
     dev = 1, ino = 2, size_of = 64, modified = None\<rparr>"

definition sample_regular :: metadata where
  "sample_regular = \<lparr>is_dir = False, is_file = True, is_symlink = False, mode = 384, nlink = 1,
     dev = 1, ino = 9, size_of = 200, modified = None\<rparr>"

definition sample_layout :: layout_seen where
  "sample_layout = \<lparr>absolute = True,
     components = [(RootDir, Found sample_directory), (Normal, Found sample_directory)],
     root_seen = Found sample_directory, directory_seen = Found sample_directory\<rparr>"

definition sample_view :: "json view_io" where
  "sample_view = \<lparr>layout_start = sample_layout, layout_end = sample_layout, list_opens = True,
     listing = None, disturbed = (\<lambda>_. None)\<rparr>"

definition sample_persist :: "json persist_io" where
  "sample_persist = \<lparr>ensure_seen = sample_layout, create_ok = True, created_absolute = True,
     created_components = components sample_layout, created_root = Found sample_directory,
     created_directory = Found sample_directory, destination_fails = False, open_ok = True,
     stage_seen_ok = True, write_ok = True, removed_ok = True,
     partial_file = \<lparr>meta = sample_regular, contents = JNull\<rparr>, staged_layout = sample_layout,
     rename_ok = True, new_meta = sample_regular, published_layout = sample_layout,
     sync_directory = (Some sample_directory, True), sync_root = (Some sample_directory, True),
     final_layout = sample_layout\<rparr>"

definition sample_text :: "json text_codec" where
  "sample_text = \<lparr>print = Some, parse = Some, byte_len = (\<lambda>_. 200)\<rparr>"

definition sample_store :: "json backend" where
  "sample_store = \<lparr>b_endpoint = sample_hash,
     b_identity = \<lparr>root_id = Some sample_directory, directory_id = Some sample_directory\<rparr>,
     sequence = 0, process_id = 42, poisoned = False,
     ns_identity = \<lparr>root_id = Some sample_directory, directory_id = Some sample_directory\<rparr>,
     disk = []\<rparr>"

lemma sample_text_faithful: "faithful_text sample_text"
  by (simp add: faithful_text_def sample_text_def)

text \<open>A file system that does what it is asked: the directories are private and keep their
  identity, and every call succeeds.\<close>

definition healthy_persist :: "'b persist_io \<Rightarrow> 'b backend \<Rightarrow> metadata \<Rightarrow> metadata \<Rightarrow> bool" where
  "healthy_persist io b rt d \<longleftrightarrow>
     is_ok (validate_layout (b_identity b) (ensure_seen io)) \<and> create_ok io \<and>
     validate_chain (created_absolute io) (created_components io) False = Ok () \<and>
     directory_metadata (created_root io) = Ok (Some rt) \<and>
     directory_metadata (created_directory io) = Ok (Some d) \<and>
     \<not> destination_fails io \<and> open_ok io \<and> stage_seen_ok io \<and> write_ok io \<and> rename_ok io \<and>
     list_all (\<lambda>l. is_ok (validate_layout \<lparr>root_id = Some rt, directory_id = Some d\<rparr> l))
       [staged_layout io, published_layout io, final_layout io] \<and>
     sync_directory io = (Some d, True) \<and> sync_root io = (Some rt, True)"

lemma persist_healthy:
  assumes "healthy_persist io b rt d" and "print tx v = Some bytes"
    and "byte_len tx bytes \<le> MAX_RECEIPT_BYTES" and "checked_add (sequence b) 1 = Some n"
    and "map_of (disk b) (temporary_name oid (process_id b) n) = None"
    and "if replacing then \<exists>f. map_of (disk b) (receipt_name oid) = Some f \<and> validate_regular (meta f) = Ok ()
      else map_of (disk b) (receipt_name oid) = None"
  shows "persist_value tx io oid v replacing b = (Ok (),
    b\<lparr>b_identity := \<lparr>root_id = Some rt, directory_id = Some d\<rparr>,
      ns_identity := \<lparr>root_id = Some rt, directory_id = Some d\<rparr>, sequence := n,
      disk := upd (receipt_name oid) \<lparr>meta = new_meta io, contents = bytes\<rparr> (disk b)\<rparr>)"
proof -
  let ?ids = "\<lparr>root_id = Some rt, directory_id = Some d\<rparr>"
  let ?b1 = "b\<lparr>b_identity := ?ids, ns_identity := ?ids\<rparr>"
  note healthy = assms(1) [unfolded healthy_persist_def list.pred_inject]
  from healthy obtain p where "validate_layout (b_identity b) (ensure_seen io) = Ok p"
    by (auto simp: is_ok_iff)
  with healthy have ensure: "ensure_layout io b = (Ok (), ?b1)"
    by (simp add: ensure_layout_def Let_def)
  have dest: "destination_check io ?b1 oid replacing = Ok ()"
    using healthy assms(6) by (auto simp: destination_check_def split: if_splits)
  from healthy obtain p' where staged: "validate_layout ?ids (staged_layout io) = Ok p'"
    by (auto simp: is_ok_iff)
  have "publish io oid bytes (?b1\<lparr>sequence := n\<rparr>) = (Ok (),
      ?b1\<lparr>sequence := n, disk := upd (receipt_name oid) \<lparr>meta = new_meta io, contents = bytes\<rparr> (disk b)\<rparr>)"
    using healthy staged assms(5) by (simp add: publish_def Let_def synced_def same_identity_def)
  with assms(2-4) ensure dest show ?thesis by (simp add: persist_value_def)
qed

lemma sample_directory_private [simp]:
  "directory_metadata (Found sample_directory) = Ok (Some sample_directory)"
  "is_dir sample_directory" "\<not> is_symlink sample_directory"
  by (simp_all add: sample_directory_def)

lemma sample_layout_ok [simp]:
  "validate_layout \<lparr>root_id = Some sample_directory, directory_id = Some sample_directory\<rparr> sample_layout = Ok True"
  by (simp add: validate_layout_def validate_chain_def sample_layout_def identity_kept_def
      same_identity_def del: directory_metadata.simps)

lemma sample_healthy: "healthy_persist sample_persist sample_store sample_directory sample_directory"
  by (simp add: healthy_persist_def sample_persist_def sample_store_def validate_chain_def
      del: directory_metadata.simps) (simp add: sample_layout_def)

lemma sample_sequence: "checked_add (0 :: u64) 1 = Some 1"
  by (simp add: checked_add_def)

lemma sample_persisted:
  "persist_value sample_text sample_persist oid v False sample_store = (Ok (),
     sample_store\<lparr>sequence := 1, disk := [(receipt_name oid, \<lparr>meta = sample_regular, contents = v\<rparr>)]\<rparr>)"
proof -
  have *: "sequence sample_store = 0" "disk sample_store = []" "print sample_text v = Some v"
      "byte_len sample_text v \<le> MAX_RECEIPT_BYTES" "new_meta sample_persist = sample_regular"
      "b_identity sample_store = \<lparr>root_id = Some sample_directory, directory_id = Some sample_directory\<rparr>"
      "ns_identity sample_store = \<lparr>root_id = Some sample_directory, directory_id = Some sample_directory\<rparr>"
    by (simp_all add: sample_store_def sample_text_def MAX_RECEIPT_BYTES_def sample_persist_def)
  show ?thesis
    using persist_healthy [OF sample_healthy *(3,4), of 1 oid False] sample_sequence *
    by (simp add: sample_store_def)
qed

text \<open>C5: a publication is atomic and its error says which side it is on. Whatever the file system
  answers, either the result is an error other than \<open>DurabilityUncertain\<close> and the receipt files
  are exactly as before, or the result is success or \<open>DurabilityUncertain\<close> and exactly the named
  receipt was put in place, with the printed value as its content and within the size limit; a new
  receipt never replaces one and an update never creates one.\<close>

theorem persist_atomic:
  assumes "persist_value tx io oid v replacing b = (res, b')"
  shows "(\<exists>e. res = Err e \<and> e \<noteq> DurabilityUncertain) \<and> json_files b' = json_files b \<or>
    (res = Ok () \<or> res = Err DurabilityUncertain) \<and>
    (replacing \<longleftrightarrow> json_files b (receipt_name oid) \<noteq> None) \<and>
    (\<exists>m bytes. print tx v = Some bytes \<and> byte_len tx bytes \<le> MAX_RECEIPT_BYTES \<and>
      json_files b' = (json_files b)(receipt_name oid \<mapsto> \<lparr>meta = m, contents = bytes\<rparr>))"
  using persist_value_cases [OF assms] by (auto simp: unpublished_def published_def)

theorem persist_atomic_witness:
  "\<exists>b'. persist_value sample_text sample_persist sample_uuid JNull False sample_store = (Ok (), b') \<and>
     (\<exists>m. json_files b' = (json_files sample_store)(receipt_name sample_uuid \<mapsto>
       \<lparr>meta = m, contents = JNull\<rparr>))"
proof -
  from persist_atomic [OF sample_persisted [of sample_uuid JNull]] sample_persisted [of sample_uuid JNull]
  show ?thesis by (auto simp: sample_text_def)
qed

text \<open>A publication does succeed. When the file system does what it is asked, the value
  prints within the size limit, the publication counter is not exhausted, the temporary name is
  free, and the receipt is absent (a new one) or a private regular file (an update), the result is
  success, the receipt is in place, and the pinned directory identities are those just seen.\<close>

lemma persist_succeeds:
  assumes "healthy_persist io b rt d" and "print tx v = Some bytes"
    and "byte_len tx bytes \<le> MAX_RECEIPT_BYTES" and "unat (sequence b) + 1 < 2 ^ 64"
    and "map_of (disk b) (temporary_name oid (process_id b) (sequence b + 1)) = None"
    and "if replacing then \<exists>f. map_of (disk b) (receipt_name oid) = Some f \<and> validate_regular (meta f) = Ok ()
      else map_of (disk b) (receipt_name oid) = None"
  shows "\<exists>b'. persist_value tx io oid v replacing b = (Ok (), b') \<and>
    map_of (disk b') = (map_of (disk b))(receipt_name oid \<mapsto> \<lparr>meta = new_meta io, contents = bytes\<rparr>) \<and>
    directory_id (ns_identity b') = Some d"
proof -
  have "checked_add (sequence b) 1 = Some (sequence b + 1)"
    using assms(4) by (simp add: checked_add_def)
  from persist_healthy [OF assms(1-3) this assms(5,6)] show ?thesis by simp
qed

end
