(* ===== verification/Ledger.thy ===== *)
theory Ledger
  imports Store
begin

text \<open>
  What the receipt store promises, as an abstract ledger: a map from operation identifiers to
  receipts that grows by freshly prepared receipts and changes only by accepted updates of what it
  holds. The five receipt families reach the disk through the same two patterns, stated here as an
  interface (\<open>store_family\<close>) and interpreted on the operations of \<open>BackendStore\<close> in
  \<open>src/native/src/operation_store.rs\<close>; every operation of the store then is a step of the ledger,
  whatever the file system answers.
\<close>

section \<open>The abstract ledger\<close>

type_synonym ledger = "string \<Rightarrow> StoredReceipt option"

definition receipt_in :: "'b text_codec \<Rightarrow> 'b stored_file \<Rightarrow> StoredReceipt option" where
  "receipt_in tx f = (case parse tx (contents f) of None \<Rightarrow> None | Some v \<Rightarrow>
     (case stored_from_value v of Err _ \<Rightarrow> None | Ok s \<Rightarrow> Some s))"

text \<open>The receipt of an operation: what its file holds, if that names the operation.\<close>

definition ledger :: "'b text_codec \<Rightarrow> 'b backend \<Rightarrow> ledger" where
  "ledger tx b oid = (case json_files b (receipt_name oid) of None \<Rightarrow> None | Some f \<Rightarrow>
     (case receipt_in tx f of None \<Rightarrow> None | Some s \<Rightarrow> if stored_id s = oid then Some s else None))"

primrec fresh_receipt :: "StoredReceipt \<Rightarrow> bool" where
  "fresh_receipt (V1 r) \<longleftrightarrow> phase r = Prepared"
| "fresh_receipt (Generic r) \<longleftrightarrow> g_phase r = G_Prepared"
| "fresh_receipt (Restore r) \<longleftrightarrow> r_phase r = R_Prepared"
| "fresh_receipt (Apply r) \<longleftrightarrow> a_phase r = A_Prepared"
| "fresh_receipt (Capture r) \<longleftrightarrow> c_phase r = C_Prepared"

inductive successor :: "StoredReceipt \<Rightarrow> StoredReceipt \<Rightarrow> bool" where
  v1: "updated r u t = Ok r' \<Longrightarrow> successor (V1 r) (V1 r')"
| generic: "updated_generic r p t = Ok r' \<Longrightarrow> successor (Generic r) (Generic r')"
| restore: "updated_restore r w t = Ok r' \<Longrightarrow> successor (Restore r) (Restore r')"
| applied: "updated_apply r x t = Ok r' \<Longrightarrow> successor (Apply r) (Apply r')"
| capture: "updated_capture r y t = Ok r' \<Longrightarrow> successor (Capture r) (Capture r')"

inductive_cases successorE: "successor s s'"

inductive ledger_step :: "ledger \<Rightarrow> ledger \<Rightarrow> bool" where
  same: "ledger_step L L"
| enter: "L (stored_id s) = None \<Longrightarrow> fresh_receipt s \<Longrightarrow> stored_checked s \<Longrightarrow>
    ledger_step L (L(stored_id s \<mapsto> s))"
| advance: "L (stored_id s) = Some s \<Longrightarrow> successor s s' \<Longrightarrow> ledger_step L (L(stored_id s \<mapsto> s'))"

lemma successor_same:
  assumes "successor s s'"
  shows "stored_checked s'" and "stored_id s' = stored_id s"
    and "stored_endpoint s' = stored_endpoint s" and "stored_created s' = stored_created s"
  using assms
  by (auto elim!: successorE dest: v1.updated_checked v2.updated_checked v3.updated_checked v4.updated_checked
      v5.updated_checked v1.updated_same v2.updated_same v3.updated_same v4.updated_same
      v5.updated_same simp: same_operation_def
      simp del: checked_Ok_iff checked_generic_Ok_iff checked_restore_Ok_iff checked_apply_Ok_iff
      checked_capture_Ok_iff)

section \<open>The ledger of a directory\<close>

lemma ledger_checked: "ledger tx b oid = Some s \<Longrightarrow> stored_checked s \<and> stored_id s = oid"
  by (auto simp: ledger_def receipt_in_def dest: stored_from_value_checked
      split: option.splits if_splits sum.splits)

lemma ledger_cong: "json_files b' = json_files b \<Longrightarrow> ledger tx b' = ledger tx b"
  by (simp add: ledger_def fun_eq_iff)

lemma receipt_in_printed:
  assumes "faithful_text tx" and "stored_checked s" and "print tx (stored_value s) = Some bytes"
    and "contents f = bytes"
  shows "receipt_in tx f = Some s"
  using assms stored_roundtrip [of s] by (auto simp: faithful_text_def receipt_in_def)

lemma ledger_published:
  assumes "faithful_text tx" and "stored_checked s"
    and "published tx (stored_id s) (stored_value s) b b'"
  shows "ledger tx b' = (ledger tx b)(stored_id s \<mapsto> s)"
proof -
  from assms(3) obtain m bytes where p: "print tx (stored_value s) = Some bytes"
    and j: "json_files b' = (json_files b)(receipt_name (stored_id s) \<mapsto> \<lparr>meta = m, contents = bytes\<rparr>)"
    by (auto simp: published_def)
  have r: "receipt_in tx \<lparr>meta = m, contents = bytes\<rparr> = Some s"
    by (rule receipt_in_printed [OF assms(1,2) p]) simp
  show ?thesis
  proof (rule ext)
    fix oid
    show "ledger tx b' oid = ((ledger tx b)(stored_id s \<mapsto> s)) oid"
    proof (cases "oid = stored_id s")
      case True
      with r show ?thesis by (simp add: ledger_def j)
    next
      case False
      then show ?thesis by (simp add: ledger_def j)
    qed
  qed
qed

lemma ledger_unpublished: "unpublished b b' \<Longrightarrow> ledger tx b' = ledger tx b"
  by (rule ledger_cong) (simp add: unpublished_def)

text \<open>An undisturbed read is a read of the ledger.\<close>

lemma operation_as_stored:
  assumes "operation_from_value v = Ok r"
  shows "stored_from_value v = Ok (V1 r)"
proof -
  from assms obtain fs ver where fs: "v = JObject fs"
      and ver: "Option.bind (map_of fs ''version'') (integral 1) = Some ver"
    by (cases v) (auto simp: operation_from_value_def split: if_split_asm option.split_asm)
  have "n \<le> 1" if "version_is n v" for n
    using that ver unfolding fs version_is_def get.simps
    by (simp add: integral_def split: if_split_asm)
  from this [of 5] this [of 4] this [of 3] this [of 2]
  have "\<not> version_is 5 v" "\<not> version_is 4 v" "\<not> version_is 3 v" "\<not> version_is 2 v"
    by (auto simp: word_le_nat_alt)
  with assms show ?thesis by (simp add: stored_from_value_def corrupt_def)
qed

lemma read_receipt_as_stored: "read_receipt tx seen = Ok r \<Longrightarrow> read_stored tx seen = Ok (V1 r)"
  by (auto simp: read_receipt_def read_stored_def operation_from_json_def
      dest: operation_as_stored split: option.splits if_splits)

lemma read_stored_ledger:
  assumes "disturbed vio (receipt_name (stored_id s)) = None"
    and "read_stored tx (seen_file vio b (receipt_name (stored_id s))) = Ok s"
  shows "ledger tx b (stored_id s) = Some s"
proof (cases "map_of (disk b) (receipt_name (stored_id s))")
  case None
  with assms show ?thesis by (simp add: seen_file_def read_stored_def)
next
  case (Some f)
  with assms have "read_stored tx (undisturbed (Some f)) = Ok s" by (simp add: seen_file_def)
  then have "receipt_in tx f = Some s"
    by (auto simp: read_stored_def read_bytes_undisturbed receipt_in_def split: option.splits)
  with Some show ?thesis by (simp add: ledger_def json_files_def)
qed

section \<open>The interface of a family to the store\<close>

locale store_family =
  fixes wrap :: "'r \<Rightarrow> StoredReceipt"
    and prepare_op :: "'b text_codec \<Rightarrow> 'b persist_io \<Rightarrow> 'p \<Rightarrow> 'b backend \<Rightarrow>
      (StoreError, 'r) result \<times> 'b backend"
    and update_op :: "'b text_codec \<Rightarrow> 'b view_io \<Rightarrow> 'b persist_io \<Rightarrow> 'r \<Rightarrow> 'u \<Rightarrow> string \<Rightarrow> 'b backend \<Rightarrow>
      (StoreError, 'r) result \<times> 'b backend"
  assumes prepare_writes: "prepare_op tx io p b = (res, b') \<Longrightarrow>
      (\<exists>e. res = Err e \<and> e \<noteq> DurabilityUncertain \<and> b' = b) \<or>
      (\<exists>r out. persist_value tx io (stored_id (wrap r)) (stored_value (wrap r)) False b = (out, b') \<and>
        res = and_then out (\<lambda>_. Ok r) \<and> fresh_receipt (wrap r) \<and> stored_checked (wrap r) \<and>
        stored_endpoint (wrap r) = b_endpoint b)"
    and update_writes: "update_op tx vio io r u t b = (res, b') \<Longrightarrow>
      (\<exists>e. res = Err e \<and> e \<noteq> DurabilityUncertain \<and> b' = b) \<or>
      (\<exists>r' out. persist_value tx io (stored_id (wrap r)) (stored_value (wrap r')) True b = (out, b') \<and>
        res = and_then out (\<lambda>_. Ok r') \<and> successor (wrap r) (wrap r') \<and>
        stored_endpoint (wrap r) = b_endpoint b \<and>
        read_stored tx (seen_file vio b (receipt_name (stored_id (wrap r)))) = Ok (wrap r))"
begin

lemma prepare_outcome:
  assumes "faithful_text tx" and "prepare_op tx io p b = (res, b')"
  shows "(\<exists>e. res = Err e \<and> e \<noteq> DurabilityUncertain) \<and> ledger tx b' = ledger tx b \<or>
    (\<exists>r. (res = Ok r \<or> res = Err DurabilityUncertain) \<and> fresh_receipt (wrap r) \<and>
      stored_checked (wrap r) \<and> stored_endpoint (wrap r) = b_endpoint b \<and>
      ledger tx b (stored_id (wrap r)) = None \<and>
      ledger tx b' = (ledger tx b)(stored_id (wrap r) \<mapsto> wrap r))"
  using prepare_writes [OF assms(2)]
proof (elim disjE exE conjE)
  fix r out
  assume w: "persist_value tx io (stored_id (wrap r)) (stored_value (wrap r)) False b = (out, b')"
    and res: "res = and_then out (\<lambda>_. Ok r)" and ok: "fresh_receipt (wrap r)"
      "stored_checked (wrap r)" "stored_endpoint (wrap r) = b_endpoint b"
  from persist_value_cases [OF w] show ?thesis
  proof (elim disjE conjE exE)
    fix e
    assume "out = Err e" "e \<noteq> DurabilityUncertain" "unpublished b b'"
    then show ?thesis using res by (simp add: ledger_unpublished)
  qed (use res ok ledger_published [OF assms(1) ok(2)] in \<open>auto simp: ledger_def\<close>)
qed simp

lemma prepare_simulates:
  assumes "faithful_text tx" and "prepare_op tx io p b = (res, b')"
  shows "ledger_step (ledger tx b) (ledger tx b')"
  using prepare_outcome [OF assms]
  by (elim disjE conjE exE) (auto intro: ledger_step.enter ledger_step.same)

lemma update_outcome:
  assumes "faithful_text tx" and "disturbed vio = (\<lambda>_. None)"
    and "update_op tx vio io r u t b = (res, b')"
  shows "(\<exists>e. res = Err e \<and> e \<noteq> DurabilityUncertain) \<and> ledger tx b' = ledger tx b \<or>
    (\<exists>r'. (res = Ok r' \<or> res = Err DurabilityUncertain) \<and> successor (wrap r) (wrap r') \<and>
      ledger tx b (stored_id (wrap r)) = Some (wrap r) \<and>
      ledger tx b' = (ledger tx b)(stored_id (wrap r) \<mapsto> wrap r'))"
  using update_writes [OF assms(3)]
proof (elim disjE exE conjE)
  fix r' out
  assume w: "persist_value tx io (stored_id (wrap r)) (stored_value (wrap r')) True b = (out, b')"
    and res: "res = and_then out (\<lambda>_. Ok r')" and succ: "successor (wrap r) (wrap r')"
    and rd: "read_stored tx (seen_file vio b (receipt_name (stored_id (wrap r)))) = Ok (wrap r)"
  note same = successor_same [OF succ]
  have now: "ledger tx b (stored_id (wrap r)) = Some (wrap r)"
    using rd assms(2) by (intro read_stored_ledger) simp_all
  from persist_value_cases [OF w] show ?thesis
  proof (elim disjE conjE exE)
    fix e
    assume "out = Err e" "e \<noteq> DurabilityUncertain" "unpublished b b'"
    then show ?thesis using res by (simp add: ledger_unpublished)
  next
    assume "out = Ok ()" "published tx (stored_id (wrap r)) (stored_value (wrap r')) b b'"
    then show ?thesis
      using res succ now ledger_published [OF assms(1) same(1), unfolded same(2)] by auto
  next
    assume "out = Err DurabilityUncertain" "published tx (stored_id (wrap r)) (stored_value (wrap r')) b b'"
    then show ?thesis
      using res succ now ledger_published [OF assms(1) same(1), unfolded same(2)] by auto
  qed
qed simp

lemma prepare_endpoint: "prepare_op tx io p b = (res, b') \<Longrightarrow> b_endpoint b' = b_endpoint b"
  by (drule prepare_writes) (auto dest!: persist_value_cases simp: unpublished_def published_def)

lemma update_endpoint: "update_op tx vio io r u t b = (res, b') \<Longrightarrow> b_endpoint b' = b_endpoint b"
  by (drule update_writes) (auto dest!: persist_value_cases simp: unpublished_def published_def)

lemma update_simulates:
  assumes "faithful_text tx" and "disturbed vio = (\<lambda>_. None)"
    and "update_op tx vio io r u t b = (res, b')"
  shows "ledger_step (ledger tx b) (ledger tx b')"
  using update_outcome [OF assms]
  by (elim disjE conjE exE) (auto intro: ledger_step.advance ledger_step.same)

end

text \<open>The families whose updates only move forward: a receipt that has been updated cannot be
  updated again from its old state.\<close>

locale forward_family = store_family wrap prepare_op update_op
  for wrap :: "'r \<Rightarrow> StoredReceipt"
    and prepare_op :: "'b text_codec \<Rightarrow> 'b persist_io \<Rightarrow> 'p \<Rightarrow> 'b backend \<Rightarrow>
      (StoreError, 'r) result \<times> 'b backend"
    and update_op :: "'b text_codec \<Rightarrow> 'b view_io \<Rightarrow> 'b persist_io \<Rightarrow> 'r \<Rightarrow> 'u \<Rightarrow> string \<Rightarrow> 'b backend \<Rightarrow>
      (StoreError, 'r) result \<times> 'b backend" +
  assumes successor_differs: "stored_checked (wrap r) \<Longrightarrow> successor (wrap r) (wrap r') \<Longrightarrow> wrap r' \<noteq> wrap r"
begin

lemma update_once:
  assumes "faithful_text tx" and "disturbed vio = (\<lambda>_. None)" and "disturbed vio' = (\<lambda>_. None)"
    and "update_op tx vio io r u t b = (res, b')" and "is_ok res \<or> res = Err DurabilityUncertain"
  shows "\<exists>e. update_op tx vio' io' r u' t' b' = (Err e, b')"
proof -
  obtain res2 b'' where second: "update_op tx vio' io' r u' t' b' = (res2, b'')"
    by (cases "update_op tx vio' io' r u' t' b'")
  from update_outcome [OF assms(1,2,4)] assms(5) obtain r' where r': "successor (wrap r) (wrap r')"
      "ledger tx b (stored_id (wrap r)) = Some (wrap r)"
      "ledger tx b' (stored_id (wrap r)) = Some (wrap r')"
    by auto
  from successor_differs [OF _ r'(1)] ledger_checked [OF r'(2)] have "wrap r' \<noteq> wrap r" by simp
  then have "read_stored tx (seen_file vio' b' (receipt_name (stored_id (wrap r)))) \<noteq> Ok (wrap r)"
    using read_stored_ledger [of vio' "wrap r" tx b'] assms(3) r'(3) by auto
  with update_writes [OF second] second show ?thesis by auto
qed

end

section \<open>The five families\<close>

lemma returning_eq:
  "returning r out = (res, b') \<longleftrightarrow> (\<exists>o1. out = (o1, b') \<and> res = and_then o1 (\<lambda>_. Ok r))"
  by (cases out) (auto simp: returning_def)

lemma checked_cases:
  "checked a = Ok a \<or> checked a = Err InvalidReceipt"
  "checked_generic b = Ok b \<or> checked_generic b = Err InvalidReceipt"
  "checked_restore c = Ok c \<or> checked_restore c = Err InvalidReceipt"
  "checked_apply d = Ok d \<or> checked_apply d = Err InvalidReceipt"
  "checked_capture e = Ok e \<or> checked_capture e = Err InvalidReceipt"
  by (auto simp: checked_def checked_generic_def checked_restore_def checked_apply_def
      checked_capture_def)

lemma current_receipt_Ok:
  "current_receipt tx vio b s = Ok u \<longleftrightarrow> stored_endpoint s = b_endpoint b \<and>
     read_stored tx (seen_file vio b (receipt_name (stored_id s))) = Ok s"
  by (auto simp: current_receipt_def)

text \<open>The two patterns of the later families, for any check and any update.\<close>

lemma prepare_pattern:
  assumes "(case chk of Err e \<Rightarrow> (Err e, b) | Ok r \<Rightarrow> returning r (persist_value tx io oid (val r) False b)) = (res, b')"
    and "chk = Ok r0 \<or> chk = Err InvalidReceipt"
  shows "(res = Err InvalidReceipt \<and> b' = b) \<or> chk = Ok r0 \<and>
    (\<exists>out. persist_value tx io oid (val r0) False b = (out, b') \<and> res = and_then out (\<lambda>_. Ok r0))"
  using assms by (cases chk) (auto simp: returning_eq)

lemma update_pattern:
  assumes "(case cur of Err e \<Rightarrow> (Err e, b) | Ok _ \<Rightarrow> (case new of Err e \<Rightarrow> (Err e, b) | Ok r' \<Rightarrow>
      returning r' (persist_value tx io (oid r') (val r') True b))) = (res, b')"
    and "cur \<noteq> Err DurabilityUncertain" and "new \<noteq> Err DurabilityUncertain"
  shows "(\<exists>e. res = Err e \<and> e \<noteq> DurabilityUncertain \<and> b' = b) \<or> (\<exists>r' out u. cur = Ok u \<and> new = Ok r' \<and>
    persist_value tx io (oid r') (val r') True b = (out, b') \<and> res = and_then out (\<lambda>_. Ok r'))"
  using assms by (cases cur; cases new) (auto simp: returning_eq)

lemma corrupt_certain: "corrupt c r \<noteq> Err DurabilityUncertain"
  by (cases r) (simp_all add: corrupt_def)

lemma read_certain:
  "read_bytes tx seen \<noteq> Err DurabilityUncertain" "read_stored tx seen \<noteq> Err DurabilityUncertain"
  "read_receipt tx seen \<noteq> Err DurabilityUncertain"
proof -
  have chain: "and_then r f = Err e \<longleftrightarrow> r = Err e \<or> (\<exists>a. r = Ok a \<and> f a = Err e)" for r f e
    by (cases r) auto
  show bytes: "read_bytes tx seen \<noteq> Err DurabilityUncertain"
    by (simp add: read_bytes_def chain validate_regular_def split: lookup.split option.split)
  have "stored_from_value v \<noteq> Err DurabilityUncertain" for v
    by (simp add: stored_from_value_def corrupt_certain)
  with bytes show "read_stored tx seen \<noteq> Err DurabilityUncertain"
    by (simp add: read_stored_def chain split: option.split)
  have "map_err (\<lambda>_. Corrupt) r \<noteq> Err DurabilityUncertain" for r :: "(StoreError, OperationRecord) result"
    by (cases r) simp_all
  with bytes show "read_receipt tx seen \<noteq> Err DurabilityUncertain"
    by (simp add: read_receipt_def chain)
qed

lemma current_receipt_certain: "current_receipt tx vio b s \<noteq> Err DurabilityUncertain"
proof (cases "read_stored tx (seen_file vio b (receipt_name (stored_id s)))")
  case (Inl e)
  with read_certain(2) show ?thesis by (auto simp: current_receipt_def)
qed (simp add: current_receipt_def)

lemma read_operation_certain: "read_operation tx vio b oid \<noteq> Err DurabilityUncertain"
proof (cases "view_layout b (layout_start vio)")
  case (Inl e)
  with layout_errors(3) [of "ns_identity b" "layout_start vio" e] show ?thesis
    by (auto simp: read_operation_def view_layout_def)
next
  case (Inr p)
  have "view_layout b (layout_end vio) \<noteq> Err DurabilityUncertain"
    using layout_errors(3) [of "ns_identity b" "layout_end vio" DurabilityUncertain]
    by (auto simp: view_layout_def)
  then show ?thesis
    using Inr read_certain(3) [of tx "seen_file vio b (receipt_name oid)"]
    by (cases "read_receipt tx (seen_file vio b (receipt_name oid))"; cases "view_layout b (layout_end vio)")
      (auto simp: read_operation_def)
qed

lemma checked_certain:
  "checked r1 \<noteq> Err DurabilityUncertain" "checked_generic r2 \<noteq> Err DurabilityUncertain"
  "checked_restore r3 \<noteq> Err DurabilityUncertain" "checked_apply r4 \<noteq> Err DurabilityUncertain"
  "checked_capture r5 \<noteq> Err DurabilityUncertain"
  by (simp_all add: checked_def checked_generic_def checked_restore_def checked_apply_def
      checked_capture_def)

lemma step_certain:
  "apply_step r u \<noteq> Err DurabilityUncertain" "capture_step c w \<noteq> Err DurabilityUncertain"
proof -
  show "apply_step r u \<noteq> Err DurabilityUncertain"
    by (cases "a_phase r"; cases u) (simp_all add: apply_step_def set_changes_def split: option.split)
  show "capture_step c w \<noteq> Err DurabilityUncertain"
    by (cases w) (simp_all add: capture_step_def Let_def split: option.split)
qed

lemma updated_certain:
  "updated r1 u1 t \<noteq> Err DurabilityUncertain" "updated_generic r2 p t \<noteq> Err DurabilityUncertain"
  "updated_restore r3 w t \<noteq> Err DurabilityUncertain" "updated_apply r4 x t \<noteq> Err DurabilityUncertain"
  "updated_capture r5 y t \<noteq> Err DurabilityUncertain"
proof -
  show "updated r1 u1 t \<noteq> Err DurabilityUncertain"
    unfolding updated_def by (rule checked_certain)
  show "updated_generic r2 p t \<noteq> Err DurabilityUncertain"
    by (simp add: updated_generic_def checked_certain)
  show "updated_restore r3 w t \<noteq> Err DurabilityUncertain"
    by (simp add: updated_restore_def checked_certain split: prod.split)
  show "updated_apply r4 x t \<noteq> Err DurabilityUncertain"
    using step_certain(1) [of "r4\<lparr>updated_at := t\<rparr>" x] checked_certain(4)
    by (cases "apply_step (r4\<lparr>updated_at := t\<rparr>) x") (auto simp: updated_apply_def)
  show "updated_capture r5 y t \<noteq> Err DurabilityUncertain"
    using step_certain(2) [of "r5\<lparr>updated_at := t\<rparr>" y] checked_certain(5)
    by (cases "capture_step (r5\<lparr>updated_at := t\<rparr>) y") (auto simp: updated_capture_def)
qed

lemma update_law:
  assumes "current_receipt tx vio b (wrap r) = Ok v" and "successor (wrap r) (wrap r')"
    and "persist_value tx io (stored_id (wrap r')) (stored_value (wrap r')) True b = (out, b')"
    and "res = and_then out (\<lambda>_. Ok r')"
  shows "\<exists>r' out. persist_value tx io (stored_id (wrap r)) (stored_value (wrap r')) True b = (out, b') \<and>
    res = and_then out (\<lambda>_. Ok r') \<and> successor (wrap r) (wrap r') \<and>
    stored_endpoint (wrap r) = b_endpoint b \<and>
    read_stored tx (seen_file vio b (receipt_name (stored_id (wrap r)))) = Ok (wrap r)"
  using assms successor_same(2) [OF assms(2)] by (auto simp: current_receipt_Ok)

interpretation generic: store_family Generic
  "\<lambda>tx io (oid, k, gen, t). prepare_generic tx io oid k gen t" update_generic
proof unfold_locales
  fix tx :: "'b text_codec" and io p and b b' :: "'b backend" and res
  assume *: "(case p of (oid, k, gen, t) \<Rightarrow> prepare_generic tx io oid k gen t) b = (res, b')"
  obtain oid k gen t where p: "p = (oid, k, gen, t)" by (cases p)
  let ?r = "prepared_generic (b_endpoint b) oid k gen t"
  have head: "operation_id ?r = oid" "endpoint_hash ?r = b_endpoint b" "fresh_receipt (Generic ?r)"
    by (simp_all add: prepared_generic_def)
  have "(res = Err InvalidReceipt \<and> b' = b) \<or> checked_generic ?r = Ok ?r \<and>
    (\<exists>out. persist_value tx io oid (generic_value ?r) False b = (out, b') \<and> res = and_then out (\<lambda>_. Ok ?r))"
    using * by (intro prepare_pattern checked_cases) (simp add: p prepare_generic_def)
  with head show "(\<exists>e. res = Err e \<and> e \<noteq> DurabilityUncertain \<and> b' = b) \<or>
      (\<exists>r out. persist_value tx io (stored_id (Generic r)) (stored_value (Generic r)) False b = (out, b') \<and>
        res = and_then out (\<lambda>_. Ok r) \<and> fresh_receipt (Generic r) \<and> stored_checked (Generic r) \<and>
        stored_endpoint (Generic r) = b_endpoint b)"
    by (elim disjE conjE exE) (auto simp del: checked_generic_Ok_iff)
next
  fix tx :: "'b text_codec" and vio io r u t and b b' :: "'b backend" and res
  assume *: "update_generic tx vio io r u t b = (res, b')"
  from * have "(\<exists>e. res = Err e \<and> e \<noteq> DurabilityUncertain \<and> b' = b) \<or> (\<exists>r' out v. current_receipt tx vio b (Generic r) = Ok v \<and>
      updated_generic r u t = Ok r' \<and> persist_value tx io (operation_id r') (generic_value r') True b = (out, b') \<and>
      res = and_then out (\<lambda>_. Ok r'))"
    by (intro update_pattern current_receipt_certain updated_certain(2)) (simp add: update_generic_def)
  then show "(\<exists>e. res = Err e \<and> e \<noteq> DurabilityUncertain \<and> b' = b) \<or>
      (\<exists>r' out. persist_value tx io (stored_id (Generic r)) (stored_value (Generic r')) True b = (out, b') \<and>
        res = and_then out (\<lambda>_. Ok r') \<and> successor (Generic r) (Generic r') \<and>
        stored_endpoint (Generic r) = b_endpoint b \<and>
        read_stored tx (seen_file vio b (receipt_name (stored_id (Generic r)))) = Ok (Generic r))"
    using update_law [of tx vio b Generic, OF _ successor.generic] by fastforce
qed

interpretation restore: store_family Restore
  "\<lambda>tx io (oid, gen, n, t). prepare_restore tx io oid gen n t" "\<lambda>tx vio io r (p, c). update_restore tx vio io r p c"
proof unfold_locales
  fix tx :: "'b text_codec" and io p and b b' :: "'b backend" and res
  assume *: "(case p of (oid, gen, n, t) \<Rightarrow> prepare_restore tx io oid gen n t) b = (res, b')"
  obtain oid gen n t where p: "p = (oid, gen, n, t)" by (cases p)
  let ?r = "prepared_restore (b_endpoint b) oid gen n t"
  have head: "operation_id ?r = oid" "endpoint_hash ?r = b_endpoint b" "fresh_receipt (Restore ?r)"
    by (simp_all add: prepared_restore_def)
  have "(res = Err InvalidReceipt \<and> b' = b) \<or> checked_restore ?r = Ok ?r \<and>
    (\<exists>out. persist_value tx io oid (restore_value ?r) False b = (out, b') \<and> res = and_then out (\<lambda>_. Ok ?r))"
    using * by (intro prepare_pattern checked_cases) (simp add: p prepare_restore_def)
  with head show "(\<exists>e. res = Err e \<and> e \<noteq> DurabilityUncertain \<and> b' = b) \<or>
      (\<exists>r out. persist_value tx io (stored_id (Restore r)) (stored_value (Restore r)) False b = (out, b') \<and>
        res = and_then out (\<lambda>_. Ok r) \<and> fresh_receipt (Restore r) \<and> stored_checked (Restore r) \<and>
        stored_endpoint (Restore r) = b_endpoint b)"
    by (elim disjE conjE exE) (auto simp del: checked_restore_Ok_iff)
next
  fix tx :: "'b text_codec" and vio io r u t and b b' :: "'b backend" and res
  assume *: "(case u of (p, c) \<Rightarrow> update_restore tx vio io r p c) t b = (res, b')"
  obtain p c where u: "u = (p, c)" by (cases u)
  from * have "(\<exists>e. res = Err e \<and> e \<noteq> DurabilityUncertain \<and> b' = b) \<or> (\<exists>r' out v. current_receipt tx vio b (Restore r) = Ok v \<and>
      updated_restore r u t = Ok r' \<and> persist_value tx io (operation_id r') (restore_value r') True b = (out, b') \<and>
      res = and_then out (\<lambda>_. Ok r'))"
    unfolding u prod.case update_restore_def by (rule update_pattern [OF _ current_receipt_certain updated_certain(3)])
  then show "(\<exists>e. res = Err e \<and> e \<noteq> DurabilityUncertain \<and> b' = b) \<or>
      (\<exists>r' out. persist_value tx io (stored_id (Restore r)) (stored_value (Restore r')) True b = (out, b') \<and>
        res = and_then out (\<lambda>_. Ok r') \<and> successor (Restore r) (Restore r') \<and>
        stored_endpoint (Restore r) = b_endpoint b \<and>
        read_stored tx (seen_file vio b (receipt_name (stored_id (Restore r)))) = Ok (Restore r))"
    using update_law [of tx vio b Restore, OF _ successor.restore] by fastforce
qed

interpretation applied: store_family Apply
  "\<lambda>tx io (oid, gen, n, t). prepare_apply tx io oid gen n t" update_apply
proof unfold_locales
  fix tx :: "'b text_codec" and io p and b b' :: "'b backend" and res
  assume *: "(case p of (oid, gen, n, t) \<Rightarrow> prepare_apply tx io oid gen n t) b = (res, b')"
  obtain oid gen n t where p: "p = (oid, gen, n, t)" by (cases p)
  let ?r = "prepared_apply (b_endpoint b) oid gen n t"
  have head: "operation_id ?r = oid" "endpoint_hash ?r = b_endpoint b" "fresh_receipt (Apply ?r)"
    by (simp_all add: prepared_apply_def)
  have "(res = Err InvalidReceipt \<and> b' = b) \<or> checked_apply ?r = Ok ?r \<and>
    (\<exists>out. persist_value tx io oid (apply_value ?r) False b = (out, b') \<and> res = and_then out (\<lambda>_. Ok ?r))"
    using * by (intro prepare_pattern checked_cases) (simp add: p prepare_apply_def)
  with head show "(\<exists>e. res = Err e \<and> e \<noteq> DurabilityUncertain \<and> b' = b) \<or>
      (\<exists>r out. persist_value tx io (stored_id (Apply r)) (stored_value (Apply r)) False b = (out, b') \<and>
        res = and_then out (\<lambda>_. Ok r) \<and> fresh_receipt (Apply r) \<and> stored_checked (Apply r) \<and>
        stored_endpoint (Apply r) = b_endpoint b)"
    by (elim disjE conjE exE) (auto simp del: checked_apply_Ok_iff)
next
  fix tx :: "'b text_codec" and vio io r u t and b b' :: "'b backend" and res
  assume *: "update_apply tx vio io r u t b = (res, b')"
  from * have "(\<exists>e. res = Err e \<and> e \<noteq> DurabilityUncertain \<and> b' = b) \<or> (\<exists>r' out v. current_receipt tx vio b (Apply r) = Ok v \<and>
      updated_apply r u t = Ok r' \<and> persist_value tx io (operation_id r') (apply_value r') True b = (out, b') \<and>
      res = and_then out (\<lambda>_. Ok r'))"
    by (intro update_pattern current_receipt_certain updated_certain(4)) (simp add: update_apply_def)
  then show "(\<exists>e. res = Err e \<and> e \<noteq> DurabilityUncertain \<and> b' = b) \<or>
      (\<exists>r' out. persist_value tx io (stored_id (Apply r)) (stored_value (Apply r')) True b = (out, b') \<and>
        res = and_then out (\<lambda>_. Ok r') \<and> successor (Apply r) (Apply r') \<and>
        stored_endpoint (Apply r) = b_endpoint b \<and>
        read_stored tx (seen_file vio b (receipt_name (stored_id (Apply r)))) = Ok (Apply r))"
    using update_law [of tx vio b Apply, OF _ successor.applied] by fastforce
qed

interpretation captured: store_family Capture
  "\<lambda>tx io (oid, gen, plan, t). prepare_capture tx io oid gen plan t" update_capture
proof unfold_locales
  fix tx :: "'b text_codec" and io p and b b' :: "'b backend" and res
  assume *: "(case p of (oid, gen, plan, t) \<Rightarrow> prepare_capture tx io oid gen plan t) b = (res, b')"
  obtain oid gen plan t where p: "p = (oid, gen, plan, t)" by (cases p)
  let ?r = "prepared_capture (b_endpoint b) oid gen plan t"
  have head: "operation_id ?r = oid" "endpoint_hash ?r = b_endpoint b" "fresh_receipt (Capture ?r)"
    by (simp_all add: prepared_capture_def)
  have "(res = Err InvalidReceipt \<and> b' = b) \<or> checked_capture ?r = Ok ?r \<and>
    (\<exists>out. persist_value tx io oid (capture_value ?r) False b = (out, b') \<and> res = and_then out (\<lambda>_. Ok ?r))"
    using * by (intro prepare_pattern checked_cases) (simp add: p prepare_capture_def)
  with head show "(\<exists>e. res = Err e \<and> e \<noteq> DurabilityUncertain \<and> b' = b) \<or>
      (\<exists>r out. persist_value tx io (stored_id (Capture r)) (stored_value (Capture r)) False b = (out, b') \<and>
        res = and_then out (\<lambda>_. Ok r) \<and> fresh_receipt (Capture r) \<and> stored_checked (Capture r) \<and>
        stored_endpoint (Capture r) = b_endpoint b)"
    by (elim disjE conjE exE) (auto simp del: checked_capture_Ok_iff)
next
  fix tx :: "'b text_codec" and vio io r u t and b b' :: "'b backend" and res
  assume *: "update_capture tx vio io r u t b = (res, b')"
  from * have "(\<exists>e. res = Err e \<and> e \<noteq> DurabilityUncertain \<and> b' = b) \<or> (\<exists>r' out v. current_receipt tx vio b (Capture r) = Ok v \<and>
      updated_capture r u t = Ok r' \<and> persist_value tx io (operation_id r') (capture_value r') True b = (out, b') \<and>
      res = and_then out (\<lambda>_. Ok r'))"
    by (intro update_pattern current_receipt_certain updated_certain(5)) (simp add: update_capture_def)
  then show "(\<exists>e. res = Err e \<and> e \<noteq> DurabilityUncertain \<and> b' = b) \<or>
      (\<exists>r' out. persist_value tx io (stored_id (Capture r)) (stored_value (Capture r')) True b = (out, b') \<and>
        res = and_then out (\<lambda>_. Ok r') \<and> successor (Capture r) (Capture r') \<and>
        stored_endpoint (Capture r) = b_endpoint b \<and>
        read_stored tx (seen_file vio b (receipt_name (stored_id (Capture r)))) = Ok (Capture r))"
    using update_law [of tx vio b Capture, OF _ successor.capture] by fastforce
qed

lemma update_operation_pattern:
  assumes "update tx vio io r u t b = (res, b')"
  shows "(\<exists>e. res = Err e \<and> e \<noteq> DurabilityUncertain \<and> b' = b) \<or> (\<exists>r' out. endpoint_hash r = b_endpoint b \<and>
    read_operation tx vio b (operation_id r) = Ok r \<and> updated r u t = Ok r' \<and>
    persist_value tx io (operation_id r') (operation_value r') True b = (out, b') \<and>
    res = and_then out (\<lambda>_. Ok r'))"
proof (cases "valid_timestamp t \<and> endpoint_hash r = b_endpoint b \<and>
    read_operation tx vio b (operation_id r) = Ok r \<and> is_ok (updated r u t)")
  case True
  then obtain r' where r': "updated r u t = Ok r'" by (auto simp: is_ok_iff)
  with v1.updated_same [OF r', THEN same_operationD(2)] True assms show ?thesis
    by (simp add: update_def check_endpoint_def persist_def returning_eq)
next
  case False
  then show ?thesis
  proof (cases "read_operation tx vio b (operation_id r)")
    case (Inl e)
    with read_operation_certain [of tx vio b] have
      "\<exists>e'. update tx vio io r u t b = (Err e', b) \<and> e' \<noteq> DurabilityUncertain"
      by (auto simp: update_def check_endpoint_def)
    with assms show ?thesis by auto
  next
    case (Inr x)
    with False updated_certain(1) [of r u t] have
      "\<exists>e'. update tx vio io r u t b = (Err e', b) \<and> e' \<noteq> DurabilityUncertain"
      by (cases "updated r u t") (auto simp: update_def check_endpoint_def)
    with assms show ?thesis by auto
  qed
qed

interpretation operation: store_family V1
  "\<lambda>tx io (hash, oid, k, gen, t, d). prepare tx io hash oid k gen t d" update
proof unfold_locales
  fix tx :: "'b text_codec" and io p and b b' :: "'b backend" and res
  assume *: "(case p of (hash, oid, k, gen, t, d) \<Rightarrow> prepare tx io hash oid k gen t d) b = (res, b')"
  obtain hash oid k gen t d where p: "p = (hash, oid, k, gen, t, d)" by (cases p)
  let ?r = "prepared_record hash (b_endpoint b) oid k gen t d"
  have head: "operation_id ?r = oid" "endpoint_hash ?r = b_endpoint b" "fresh_receipt (V1 ?r)"
    by (simp_all add: prepared_record_def)
  have "(\<exists>e. res = Err e \<and> e \<noteq> DurabilityUncertain \<and> b' = b) \<or> checked ?r = Ok ?r \<and>
    (\<exists>out. persist_value tx io oid (operation_value ?r) False b = (out, b') \<and> res = and_then out (\<lambda>_. Ok ?r))"
    using * checked_cases(1) [of ?r]
    by (elim disjE) (auto simp: p prepare_def persist_def check_endpoint_def returning_eq head
        dest: sym [where s = "Err InvalidReceipt"] split: if_split_asm simp del: checked_Ok_iff)
  with head show "(\<exists>e. res = Err e \<and> e \<noteq> DurabilityUncertain \<and> b' = b) \<or>
      (\<exists>r out. persist_value tx io (stored_id (V1 r)) (stored_value (V1 r)) False b = (out, b') \<and>
        res = and_then out (\<lambda>_. Ok r) \<and> fresh_receipt (V1 r) \<and> stored_checked (V1 r) \<and>
        stored_endpoint (V1 r) = b_endpoint b)"
    by (elim disjE conjE exE) (auto simp del: checked_Ok_iff)
next
  fix tx :: "'b text_codec" and vio io r u t and b b' :: "'b backend" and res
  assume *: "update tx vio io r u t b = (res, b')"
  have "current_receipt tx vio b (V1 r) = Ok ()"
    if "read_operation tx vio b (operation_id r) = Ok r" "endpoint_hash r = b_endpoint b"
  proof -
    have "read_receipt tx (seen_file vio b (receipt_name (operation_id r))) = Ok r"
      using that(1) by (auto simp: read_operation_def split: if_split_asm)
    from read_receipt_as_stored [OF this] that(2) show ?thesis
      by (simp add: current_receipt_Ok)
  qed
  with update_operation_pattern [OF *] show "(\<exists>e. res = Err e \<and> e \<noteq> DurabilityUncertain \<and> b' = b) \<or>
      (\<exists>r' out. persist_value tx io (stored_id (V1 r)) (stored_value (V1 r')) True b = (out, b') \<and>
        res = and_then out (\<lambda>_. Ok r') \<and> successor (V1 r) (V1 r') \<and>
        stored_endpoint (V1 r) = b_endpoint b \<and>
        read_stored tx (seen_file vio b (receipt_name (stored_id (V1 r)))) = Ok (V1 r))"
    using update_law [of tx vio b V1, OF _ successor.v1] by fastforce
qed

lemma forward_advances:
  assumes "stored_checked s" and "successor s s'" and "\<not> is_v1 s"
  shows "s' \<noteq> s"
  using assms(2)
proof cases
  case (generic r p t r')
  with assms v2.updated_advances [of r p t r'] show ?thesis by auto
next
  case (restore r w t r')
  with assms v3.updated_advances [of r w t r'] show ?thesis by auto
next
  case (applied r x t r')
  with assms v4.updated_advances [of r x t r'] show ?thesis by auto
next
  case (capture r y t r')
  with assms v5.updated_advances [of r y t r'] show ?thesis by auto
qed (use assms in simp)

interpretation generic: forward_family Generic
  "\<lambda>tx io (oid, k, gen, t). prepare_generic tx io oid k gen t" update_generic
  by unfold_locales (simp only: forward_advances is_v1.simps not_False_eq_True)

interpretation restore: forward_family Restore
  "\<lambda>tx io (oid, gen, n, t). prepare_restore tx io oid gen n t"
  "\<lambda>tx vio io r (p, c). update_restore tx vio io r p c"
  by unfold_locales (simp only: forward_advances is_v1.simps not_False_eq_True)

interpretation applied: forward_family Apply
  "\<lambda>tx io (oid, gen, n, t). prepare_apply tx io oid gen n t" update_apply
  by unfold_locales (simp only: forward_advances is_v1.simps not_False_eq_True)

interpretation captured: forward_family Capture
  "\<lambda>tx io (oid, gen, plan, t). prepare_capture tx io oid gen plan t" update_capture
  by unfold_locales (simp only: forward_advances is_v1.simps not_False_eq_True)

section \<open>Steps of the store\<close>

text \<open>Any operation of the writer, with any answer of the file system to its writes; the reads of
  an update see the directory as it is (there is one writer). Marking the store uncertain is the
  broker's poison flag.\<close>

inductive store_step :: "'b text_codec \<Rightarrow> 'b backend \<Rightarrow> 'b backend \<Rightarrow> bool" for tx where
  mark: "store_step tx b (mark_uncertain b)"
| prepare_v1: "prepare tx io hash oid k gen t d b = (res1, b') \<Longrightarrow> store_step tx b b'"
| prepare_v2: "prepare_generic tx io oid gk gen t b = (res2, b') \<Longrightarrow> store_step tx b b'"
| prepare_v3: "prepare_restore tx io oid gen n t b = (res3, b') \<Longrightarrow> store_step tx b b'"
| prepare_v4: "prepare_apply tx io oid gen n t b = (res4, b') \<Longrightarrow> store_step tx b b'"
| prepare_v5: "prepare_capture tx io oid gen plan t b = (res5, b') \<Longrightarrow> store_step tx b b'"
| update_v1: "disturbed vio = (\<lambda>_. None) \<Longrightarrow> update tx vio io r1 u1 t b = (res1, b') \<Longrightarrow> store_step tx b b'"
| update_v2: "disturbed vio = (\<lambda>_. None) \<Longrightarrow> update_generic tx vio io r2 p2 t b = (res2, b') \<Longrightarrow>
    store_step tx b b'"
| update_v3: "disturbed vio = (\<lambda>_. None) \<Longrightarrow> update_restore tx vio io r3 p3 c3 t b = (res3, b') \<Longrightarrow>
    store_step tx b b'"
| update_v4: "disturbed vio = (\<lambda>_. None) \<Longrightarrow> update_apply tx vio io r4 u4 t b = (res4, b') \<Longrightarrow>
    store_step tx b b'"
| update_v5: "disturbed vio = (\<lambda>_. None) \<Longrightarrow> update_capture tx vio io r5 u5 t b = (res5, b') \<Longrightarrow>
    store_step tx b b'"

lemma step_simulates:
  assumes "faithful_text tx" and "store_step tx b b'"
  shows "ledger_step (ledger tx b) (ledger tx b')"
  using assms(2)
proof cases
  case mark
  then have "ledger tx b' = ledger tx b" by (intro ledger_cong) (simp add: mark_uncertain_def)
  then show ?thesis by (simp add: ledger_step.same)
next
  case (prepare_v1 io hash oid k gen t d res1)
  then show ?thesis
    using operation.prepare_simulates [OF assms(1), of io "(hash, oid, k, gen, t, d)"] by simp
next
  case (prepare_v2 io oid gk gen t res2)
  then show ?thesis
    using generic.prepare_simulates [OF assms(1), of io "(oid, gk, gen, t)"] by simp
next
  case (prepare_v3 io oid gen n t res3)
  then show ?thesis
    using restore.prepare_simulates [OF assms(1), of io "(oid, gen, n, t)"] by simp
next
  case (prepare_v4 io oid gen n t res4)
  then show ?thesis
    using applied.prepare_simulates [OF assms(1), of io "(oid, gen, n, t)"] by simp
next
  case (prepare_v5 io oid gen plan t res5)
  then show ?thesis
    using captured.prepare_simulates [OF assms(1), of io "(oid, gen, plan, t)"] by simp
next
  case (update_v3 vio io r3 p3 c3 t res3)
  then show ?thesis
    using restore.update_simulates [OF assms(1) update_v3(1), of io r3 "(p3, c3)"] by simp
qed (rule operation.update_simulates [OF assms(1)] generic.update_simulates [OF assms(1)]
    applied.update_simulates [OF assms(1)] captured.update_simulates [OF assms(1)]; assumption)+

lemma step_endpoint: "store_step tx b b' \<Longrightarrow> b_endpoint b' = b_endpoint b"
proof (induction rule: store_step.induct)
  case (prepare_v1 io hash oid k gen t d b res1 b')
  then show ?case using operation.prepare_endpoint [of tx io "(hash, oid, k, gen, t, d)"] by simp
next
  case (prepare_v2 io oid gk gen t b res2 b')
  then show ?case using generic.prepare_endpoint [of tx io "(oid, gk, gen, t)"] by simp
next
  case (prepare_v3 io oid gen n t b res3 b')
  then show ?case using restore.prepare_endpoint [of tx io "(oid, gen, n, t)"] by simp
next
  case (prepare_v4 io oid gen n t b res4 b')
  then show ?case using applied.prepare_endpoint [of tx io "(oid, gen, n, t)"] by simp
next
  case (prepare_v5 io oid gen plan t b res5 b')
  then show ?case using captured.prepare_endpoint [of tx io "(oid, gen, plan, t)"] by simp
next
  case (update_v3 vio io r3 p3 c3 t b res3 b')
  then show ?case using restore.update_endpoint [of tx vio io r3 "(p3, c3)"] by simp
qed (auto simp: mark_uncertain_def dest: operation.update_endpoint generic.update_endpoint
    applied.update_endpoint captured.update_endpoint)

lemma run_endpoint: "(store_step tx)\<^sup>*\<^sup>* b b' \<Longrightarrow> b_endpoint b' = b_endpoint b"
  by (induction rule: rtranclp_induct) (auto dest: step_endpoint)

lemma run_simulates:
  assumes "faithful_text tx" and "(store_step tx)\<^sup>*\<^sup>* b b'"
  shows "ledger_step\<^sup>*\<^sup>* (ledger tx b) (ledger tx b')"
  using assms(2)
proof induction
  case (step b' b'')
  then show ?case using step_simulates [OF assms(1)] by (simp add: rtranclp.rtrancl_into_rtrancl)
qed simp

section \<open>History\<close>

text \<open>A settled receipt of a workflow family: its outcome is recorded, known or unknown.\<close>

primrec settled :: "StoredReceipt \<Rightarrow> bool" where
  "settled (V1 r) \<longleftrightarrow> False"
| "settled (Generic r) \<longleftrightarrow> g_phase r \<notin> {G_Prepared, G_Dispatching}"
| "settled (Restore r) \<longleftrightarrow> r_phase r \<notin> {R_Prepared, R_Dispatching}"
| "settled (Apply r) \<longleftrightarrow> a_phase r \<in> {A_Closed, A_Aborted, A_Unknown}"
| "settled (Capture r) \<longleftrightarrow> c_phase r \<in> {C_Closed, C_Aborted, C_Unknown}"

lemma settled_final:
  assumes "settled s" and "stored_checked s"
  shows "\<not> successor s s'"
proof
  assume "successor s s'"
  then show False
  proof cases
    case (generic r p t r')
    with assms(1) updated_genericE(1) show False by (fastforce simp: generic_transition_def)
  next
    case (restore r w t r')
    obtain p c where "w = (p, c)" by (cases w)
    with restore assms(1) updated_restoreE(1) show False by (fastforce simp: restore_transition_def)
  next
    case (applied r x t r')
    with assms have "apply_stage_of (a_phase r) = 4" by auto
    with applied assms(2) v4.final_is_final [of r x t] show False by auto
  next
    case (capture r y t r')
    with assms have "capture_stage r = 8" by auto
    with capture assms(2) v5.final_is_final [of r y t] show False by auto
  qed (use assms in simp)
qed

definition same_receipt :: "StoredReceipt \<Rightarrow> StoredReceipt \<Rightarrow> bool" where
  "same_receipt s s' \<longleftrightarrow> stored_id s' = stored_id s \<and> stored_endpoint s' = stored_endpoint s \<and>
     stored_created s' = stored_created s \<and> (settled s \<longrightarrow> s' = s)"

lemma ledger_step_keeps:
  assumes "ledger_step L L'" and "L oid = Some s" and "stored_checked s"
  shows "\<exists>s'. L' oid = Some s' \<and> stored_checked s' \<and> same_receipt s s'"
  using assms
proof cases
  case (advance x x')
  show ?thesis
  proof (cases "stored_id x = oid")
    case True
    with advance assms(2) have "x = s" by simp
    with advance True successor_same [of s x'] settled_final [OF _ assms(3)] show ?thesis
      by (auto simp: same_receipt_def)
  qed (use advance assms(2,3) in \<open>auto simp: same_receipt_def\<close>)
qed (auto simp: same_receipt_def)

lemma same_receipt_trans: "same_receipt a b \<Longrightarrow> same_receipt b c \<Longrightarrow> same_receipt a c"
  by (auto simp: same_receipt_def)

lemma ledger_run_keeps:
  assumes "ledger_step\<^sup>*\<^sup>* L L'" and "L oid = Some s" and "stored_checked s"
  shows "\<exists>s'. L' oid = Some s' \<and> stored_checked s' \<and> same_receipt s s'"
  using assms(1)
proof induction
  case base
  with assms show ?case by (auto simp: same_receipt_def)
next
  case (step L' L'')
  then show ?case using ledger_step_keeps same_receipt_trans by meson
qed

section \<open>Properties\<close>

text \<open>C6: the store implements the ledger. Every run of store operations, with any answers of the
  file system to the writes, is a run of ledger steps on what the directory holds: receipts enter
  as freshly prepared ones under an unused identifier, and change only by an accepted update of
  the receipt that is there.\<close>

theorem store_refines_ledger:
  assumes "faithful_text tx" and "(store_step tx)\<^sup>*\<^sup>* b b'"
  shows "ledger_step\<^sup>*\<^sup>* (ledger tx b) (ledger tx b')"
  using assms by (rule run_simulates)

definition sample_generic :: GenericRecord where
  "sample_generic = prepared_generic sample_hash sample_uuid StreamStart 7 ''2026-01-02T03:04:05.678Z''"

text \<open>The sample store with one generic receipt of the sample operation on disk.\<close>

definition sample_store_with :: "GenericRecord \<Rightarrow> json backend" where
  "sample_store_with r = sample_store\<lparr>sequence := 1,
     disk := [(receipt_name sample_uuid, \<lparr>meta = sample_regular, contents = generic_value r\<rparr>)]\<rparr>"

lemma sample_generic_checked: "checked_generic sample_generic = Ok sample_generic"
  using sample by (simp add: checked_generic_def workflow_head_ok_def head_ok_def sample_generic_def
      prepared_generic_def MAX_SAFE_INTEGER_def)

lemma sample_prepare:
  "prepare_generic sample_text sample_persist sample_uuid StreamStart 7 ''2026-01-02T03:04:05.678Z''
     sample_store = (Ok sample_generic, (sample_store_with sample_generic))"
proof -
  have "prepared_generic (b_endpoint sample_store) sample_uuid StreamStart 7 ''2026-01-02T03:04:05.678Z''
      = sample_generic"
    by (simp add: sample_generic_def sample_store_def)
  with sample_generic_checked show ?thesis
    by (simp add: prepare_generic_def returning_def sample_persisted sample_store_with_def
        del: checked_generic_Ok_iff)
qed

lemma sample_prepare_step: "store_step sample_text sample_store (sample_store_with sample_generic)"
  by (rule store_step.prepare_v2 [OF sample_prepare])

theorem store_refines_ledger_witness:
  "ledger_step\<^sup>*\<^sup>* (ledger sample_text sample_store) (ledger sample_text (sample_store_with sample_generic))"
  using store_refines_ledger [OF sample_text_faithful, of sample_store "sample_store_with sample_generic"]
    sample_prepare_step by blast



lemma sample_ledger:
  assumes "checked_generic r = Ok r" and "operation_id r = sample_uuid"
  shows "ledger sample_text (sample_store_with r) sample_uuid = Some (Generic r)"
proof -
  have "receipt_in sample_text \<lparr>meta = sample_regular, contents = generic_value r\<rparr> = Some (Generic r)"
    by (rule receipt_in_printed [OF sample_text_faithful])
      (use assms in \<open>simp_all add: sample_text_def del: checked_generic_Ok_iff\<close>)
  with assms(2) show ?thesis by (simp add: ledger_def json_files_def sample_store_with_def)
qed

lemma sample_generic_head [simp]:
  "operation_id sample_generic = sample_uuid" "endpoint_hash sample_generic = sample_hash"
  by (simp_all add: sample_generic_def prepared_generic_def)


end
