(* ===== verification/Inventory.thy ===== *)
theory Inventory
  imports Ledger "HOL-Library.Multiset"
begin

text \<open>
  What an inspection of the receipt directory reports (\<open>OperationView\<close> of
  \<open>src/native/src/operation_store.rs\<close>): a successful inventory is exactly the part of the ledger
  that belongs to the endpoint, newest first; the answers derived from it (admission, re-entry,
  display) follow. A directory whose names and files are seen as they are is a quiet inspection.
\<close>

section \<open>Sorting\<close>

lemma mset_insert_by [simp]: "mset (insert_by cmp x xs) = add_mset x (mset xs)"
  by (induction xs) auto

lemma mset_sort_by [simp]: "mset (sort_by cmp xs) = mset xs"
  by (induction xs) (simp_all add: sort_by_def)

lemma set_sort_by [simp]: "set (sort_by cmp xs) = set xs"
  using mset_sort_by by (metis set_mset_mset)

lemma length_sort_by [simp]: "length (sort_by cmp xs) = length xs"
  using mset_sort_by by (metis size_mset)

lemma sorted_insert_by:
  assumes "\<And>a b c. cmp a b \<noteq> Greater \<Longrightarrow> cmp b c \<noteq> Greater \<Longrightarrow> cmp a c \<noteq> Greater"
    and "\<And>a b. cmp a b = Greater \<Longrightarrow> cmp b a \<noteq> Greater"
    and "sorted_wrt (\<lambda>a b. cmp a b \<noteq> Greater) xs"
  shows "sorted_wrt (\<lambda>a b. cmp a b \<noteq> Greater) (insert_by cmp x xs)"
  using assms(3)
proof (induction xs)
  case (Cons y ys)
  have "set (insert_by cmp x ys) = insert x (set ys)"
    using mset_insert_by [of cmp x ys] by (metis set_mset_add_mset_insert set_mset_mset)
  note set = this
  show ?case
  proof (cases "cmp x y = Greater")
    case True
    with Cons assms(2) [OF True] show ?thesis by (simp add: set)
  next
    case False
    have "cmp x z \<noteq> Greater" if "z \<in> set ys" for z
      using assms(1) [OF False] Cons.prems that by simp
    with False Cons.prems show ?thesis by simp
  qed
qed simp

lemma sorted_sort_by:
  assumes "\<And>a b c. cmp a b \<noteq> Greater \<Longrightarrow> cmp b c \<noteq> Greater \<Longrightarrow> cmp a c \<noteq> Greater"
    and "\<And>a b. cmp a b = Greater \<Longrightarrow> cmp b a \<noteq> Greater"
  shows "sorted_wrt (\<lambda>a b. cmp a b \<noteq> Greater) (sort_by cmp xs)"
proof (induction xs)
  case (Cons x xs)
  from sorted_insert_by [OF assms this] show ?case by (simp add: sort_by_def)
qed (simp add: sort_by_def)

section \<open>The order of the inventory\<close>

lemma cmp_of_simps [simp]:
  "cmp_of a b = Equal \<longleftrightarrow> a = b" "cmp_of a b = Less \<longleftrightarrow> a < b" "cmp_of a b = Greater \<longleftrightarrow> b < a"
  by (auto simp: cmp_of_def)

lemma then_with_simps:
  "then_with a b = Equal \<longleftrightarrow> a = Equal \<and> b = Equal"
  "then_with a b = Greater \<longleftrightarrow> a = Greater \<or> a = Equal \<and> b = Greater"
  by (auto simp: then_with_def)

lemma shift_inj:
  assumes "is_ascii_uppercase a" and "is_ascii_uppercase b"
    and "char_of ((of_char a :: nat) + 32) = (char_of ((of_char b :: nat) + 32) :: char)"
  shows "a = b"
proof -
  have "(of_char (char_of ((of_char c :: nat) + 32) :: char) :: nat) = of_char c + 32"
    if "is_ascii_uppercase c" for c
    using that by (simp add: is_ascii_uppercase_def)
  with assms have "(of_char a :: nat) = of_char b" by (metis add_right_cancel)
  then show ?thesis by simp
qed

text \<open>Between two identifiers equal up to case, the first difference compares their case
  patterns.\<close>

lemma first_case_difference_patterns:
  assumes "to_ascii_lowercase a = to_ascii_lowercase b"
  shows "first_case_difference a b = cmp_of (map is_ascii_uppercase a) (map is_ascii_uppercase b)"
proof -
  have "length a = length b"
    using arg_cong [OF assms, of length] by (simp add: to_ascii_lowercase_def)
  then show ?thesis
    using assms
  proof (induction a b rule: list_induct2)
    case (Cons x xs y ys)
    from Cons.prems have "x = y \<or> is_ascii_uppercase x \<noteq> is_ascii_uppercase y"
      using shift_inj [of x y] by (auto simp: to_ascii_lowercase_def split: if_splits)
    with Cons show ?case by (auto simp: to_ascii_lowercase_def cmp_of_def)
  qed (simp add: cmp_of_def)
qed

lemma same_patterns_same:
  assumes "to_ascii_lowercase a = to_ascii_lowercase b"
    and "map is_ascii_uppercase a = map is_ascii_uppercase b"
  shows "a = b"
proof -
  have "length a = length b" using arg_cong [OF assms(2), of length] by simp
  then show ?thesis
    using assms
  proof (induction a b rule: list_induct2)
    case (Cons x xs y ys)
    then show ?case using shift_inj [of x y] by (auto simp: to_ascii_lowercase_def split: if_splits)
  qed simp
qed

lemma inventory_order_Greater:
  "inventory_order a b = Greater \<longleftrightarrow>
     stored_created a < stored_created b \<or> stored_created a = stored_created b \<and>
     (to_ascii_lowercase (stored_id b) < to_ascii_lowercase (stored_id a) \<or>
      to_ascii_lowercase (stored_id b) = to_ascii_lowercase (stored_id a) \<and>
      map is_ascii_uppercase (stored_id b) < map is_ascii_uppercase (stored_id a))"
  by (auto simp: inventory_order_def uuid_collation_def then_with_simps
      first_case_difference_patterns)

lemma inventory_order_trans:
  "inventory_order a b \<noteq> Greater \<Longrightarrow> inventory_order b c \<noteq> Greater \<Longrightarrow> inventory_order a c \<noteq> Greater"
  unfolding inventory_order_Greater by (auto dest: less_trans)

lemma inventory_order_total: "inventory_order a b = Greater \<Longrightarrow> inventory_order b a \<noteq> Greater"
  unfolding inventory_order_Greater by (auto dest: less_trans)

lemma sorted_inventory:
  "sorted_wrt (\<lambda>a b. inventory_order a b \<noteq> Greater) (sort_by inventory_order ss)"
  by (rule sorted_sort_by) (use inventory_order_trans inventory_order_total in blast)+

section \<open>What a quiet inspection reads\<close>

definition quiet :: "'b view_io \<Rightarrow> bool" where
  "quiet io \<longleftrightarrow> listing io = None \<and> disturbed io = (\<lambda>_. None)"

lemma collect_names_Ok:
  "collect_names (map Ok ns) acc = Ok names \<Longrightarrow> names = acc @ filter (\<lambda>n. ends_with n ''.json'') ns"
proof (induction ns arbitrary: acc)
  case (Cons n ns)
  from Cons.prems Cons.IH [of acc] Cons.IH [of "acc @ [n]"] show ?case by (simp split: if_splits)
qed simp

lemma load_receipts_set:
  assumes "load_receipts tx io b names = Ok ss"
  shows "set ss = {s. (\<exists>n \<in> set names. read_stored tx (seen_file io b n) = Ok s) \<and>
      stored_endpoint s = b_endpoint b}"
    and "\<And>n. n \<in> set names \<Longrightarrow> \<exists>s. read_stored tx (seen_file io b n) = Ok s \<and> n = receipt_name (stored_id s)"
  using assms
proof (induction names arbitrary: ss)
  case (Cons n names)
  {
    case 1
    then show ?case using Cons.IH by (auto split: option.splits if_splits)
  next
    case 2
    then show ?case
      using Cons.IH(2)
      by (auto simp: strip_suffix_def receipt_name_def split: option.splits if_splits dest!: ends_withD)
  }
qed simp_all

lemma collect_names_bound:
  "collect_names xs acc = Ok names \<Longrightarrow> length acc \<le> MAX_RECEIPTS \<Longrightarrow> length names \<le> MAX_RECEIPTS"
  by (induction xs acc rule: collect_names.induct) (auto split: if_splits)

lemma load_receipts_length: "load_receipts tx io b names = Ok ss \<Longrightarrow> length ss \<le> length names"
  by (induction names arbitrary: ss) (auto split: option.splits if_splits intro: le_SucI)

lemma find_unique:
  assumes "x \<in> set xs" and "P x" and "\<And>y. y \<in> set xs \<Longrightarrow> P y \<Longrightarrow> y = x"
  shows "List.find P xs = Some x"
proof (cases "List.find P xs")
  case None
  with assms(1,2) show ?thesis by (simp add: find_None_iff)
next
  case (Some y)
  then have "y \<in> set xs" "P y" by (auto simp: find_Some_iff)
  with assms(3) Some show ?thesis by simp
qed

text \<open>What a successful inventory went through.\<close>

lemma inventoryE:
  assumes "inventory tx io b = Ok ss"
  obtains (absent) "\<not> poisoned b" "view_layout b (layout_start io) = Ok False" "ss = []"
  | (present) names ss0 where "\<not> poisoned b" "view_layout b (layout_start io) = Ok True"
      "collect_names (seen_names io b) [] = Ok names" "load_receipts tx io b names = Ok ss0"
      "ss = sort_by inventory_order ss0"
  using assms by (auto simp: inventory_def split: if_splits)

lemma inventory_checked: "inventory tx io b = Ok ss \<Longrightarrow> s \<in> set ss \<Longrightarrow> stored_checked s"
  by (erule inventoryE) (auto dest!: load_receipts_set(1) dest: read_stored_checked)

lemma inventory_length: "inventory tx io b = Ok ss \<Longrightarrow> length ss \<le> MAX_RECEIPTS"
  by (erule inventoryE) (auto dest!: load_receipts_length collect_names_bound)

text \<open>The directory's identity is pinned once it has been seen; then it cannot seem absent.\<close>

definition pinned :: "'b backend \<Rightarrow> bool" where
  "pinned b \<longleftrightarrow> directory_id (ns_identity b) \<noteq> None"

lemma ledger_file:
  "ledger tx b oid = Some s \<Longrightarrow> \<exists>f. map_of (disk b) (receipt_name oid) = Some f \<and> receipt_in tx f = Some s"
  by (cases "map_of (disk b) (receipt_name oid)")
    (auto simp: ledger_def json_files_def split: option.split_asm if_split_asm)

lemma inventory_ledger:
  assumes "quiet io" and "pinned b" and "inventory tx io b = Ok ss"
  shows "s \<in> set ss \<longleftrightarrow> ledger tx b (stored_id s) = Some s \<and> stored_endpoint s = b_endpoint b"
proof -
  from assms(2) obtain d where d: "directory_id (ns_identity b) = Some d" by (auto simp: pinned_def)
  from assms(3) obtain names ss0 where names: "collect_names (seen_names io b) [] = Ok names"
      and load: "load_receipts tx io b names = Ok ss0" and ss: "ss = sort_by inventory_order ss0"
  proof (cases rule: inventoryE)
    case absent
    with validate_layout_pinned [of "ns_identity b" _ False, OF _ d] show ?thesis
      unfolding view_layout_def by blast
  qed
  have names_eq: "names = filter (\<lambda>n. ends_with n ''.json'') (keys (disk b))"
    using names assms(1) collect_names_Ok [of "keys (disk b)" "[]"] by (simp add: quiet_def seen_names_def)
  have read: "ledger tx b (stored_id x) = Some x"
    if "read_stored tx (seen_file io b (receipt_name (stored_id x))) = Ok x" for x
    using that assms(1) by (intro read_stored_ledger) (simp_all add: quiet_def)
  note loaded = load_receipts_set [OF load]
  show ?thesis
  proof
    assume "s \<in> set ss"
    then obtain n where n: "n \<in> set names" "read_stored tx (seen_file io b n) = Ok s"
        "stored_endpoint s = b_endpoint b"
      by (auto simp: ss loaded(1))
    with loaded(2) [OF n(1)] read show "ledger tx b (stored_id s) = Some s \<and> stored_endpoint s = b_endpoint b"
      by auto
  next
    assume s: "ledger tx b (stored_id s) = Some s \<and> stored_endpoint s = b_endpoint b"
    then obtain f where "map_of (disk b) (receipt_name (stored_id s)) = Some f"
      using ledger_file by blast
    then have "receipt_name (stored_id s) \<in> set (keys (disk b))"
      using map_of_SomeD by (force simp: keys_def)
    then have n: "receipt_name (stored_id s) \<in> set names" by (simp add: names_eq)
    from loaded(2) [OF n] obtain x where x: "read_stored tx (seen_file io b (receipt_name (stored_id s))) = Ok x"
        "stored_id x = stored_id s" by auto
    from read [of x, unfolded x(2), OF x(1)] s have "x = s" by (metis option.inject)
    with n x(1) s show "s \<in> set ss" unfolding ss set_sort_by loaded(1) by blast
  qed
qed

section \<open>Properties\<close>

text \<open>A successful inspection of a directory that is left alone reports exactly the receipts
  of the ledger that belong to the endpoint, each of them valid, at most 1024, newest first and
  for equal creation times by identifier (lower-cased, then lower case first).\<close>

lemma inventory_exact:
  assumes "quiet io" and "pinned b" and "inventory tx io b = Ok ss"
  shows "set ss = {s. ledger tx b (stored_id s) = Some s \<and> stored_endpoint s = b_endpoint b} \<and>
    (\<forall>s \<in> set ss. stored_checked s) \<and> length ss \<le> 1024 \<and>
    sorted_wrt (\<lambda>x y. stored_created x > stored_created y \<or> stored_created x = stored_created y \<and>
      (to_ascii_lowercase (stored_id x) < to_ascii_lowercase (stored_id y) \<or>
       to_ascii_lowercase (stored_id x) = to_ascii_lowercase (stored_id y) \<and>
       map is_ascii_uppercase (stored_id x) \<le> map is_ascii_uppercase (stored_id y))) ss"
proof -
  have "sorted_wrt (\<lambda>a b. inventory_order a b \<noteq> Greater) ss"
    using assms(3) by (cases rule: inventoryE) (simp_all add: sorted_inventory)
  then have "sorted_wrt (\<lambda>x y. stored_created x > stored_created y \<or> stored_created x = stored_created y \<and>
      (to_ascii_lowercase (stored_id x) < to_ascii_lowercase (stored_id y) \<or>
       to_ascii_lowercase (stored_id x) = to_ascii_lowercase (stored_id y) \<and>
       map is_ascii_uppercase (stored_id x) \<le> map is_ascii_uppercase (stored_id y))) ss"
    by (rule sorted_wrt_mono_rel [rotated]) (auto simp: inventory_order_Greater)
  then show ?thesis
    using inventory_ledger [OF assms] inventory_checked [OF assms(3)] inventory_length [OF assms(3)]
    by (auto simp: MAX_RECEIPTS_def)
qed


lemma sample_quiet: "quiet sample_view"
  by (simp add: quiet_def sample_view_def)

lemma sample_pinned: "pinned (sample_store_with r)"
  by (simp add: pinned_def sample_store_with_def sample_store_def)

lemma sample_regular_ok: "validate_regular sample_regular = Ok ()"
  by (simp add: sample_regular_def)

lemma sample_read:
  assumes "checked_generic r = Ok r"
  shows "read_stored sample_text (undisturbed (Some \<lparr>meta = sample_regular, contents = generic_value r\<rparr>)) =
    Ok (Generic r)"
proof -
  have "read_bytes sample_text (undisturbed (Some \<lparr>meta = sample_regular, contents = generic_value r\<rparr>)) =
      Ok (generic_value r)"
    using sample_regular_ok by (simp add: read_bytes_undisturbed del: validate_regular_Ok)
      (simp add: sample_regular_def sample_text_def MAX_RECEIPT_BYTES_def)
  moreover have "stored_from_value (generic_value r) = Ok (Generic r)"
    using stored_roundtrip [of "Generic r"] assms by (simp del: checked_generic_Ok_iff)
  ultimately show ?thesis by (simp add: read_stored_def sample_text_def)
qed

lemma sample_state:
  "\<not> poisoned (sample_store_with r)" "b_endpoint (sample_store_with r) = sample_hash"
  "keys (disk (sample_store_with r)) = [receipt_name sample_uuid]"
  "seen_file sample_view (sample_store_with r) (receipt_name sample_uuid) =
    undisturbed (Some \<lparr>meta = sample_regular, contents = generic_value r\<rparr>)"
  "view_layout (sample_store_with r) (layout_start sample_view) = Ok True"
  "view_layout (sample_store_with r) (layout_end sample_view) = Ok True" "list_opens sample_view"
  by (simp_all add: sample_store_with_def sample_store_def keys_def seen_file_def sample_view_def
      view_layout_def)

lemma sample_inventory:
  assumes "checked_generic r = Ok r" and "operation_id r = sample_uuid" and "endpoint_hash r = sample_hash"
  shows "inventory sample_text sample_view (sample_store_with r) = Ok [Generic r]"
proof -
  have "seen_names sample_view (sample_store_with r) = [Ok (receipt_name sample_uuid)]"
    using sample_state(3) by (simp add: seen_names_def sample_view_def)
  moreover have "load_receipts sample_text sample_view (sample_store_with r) [receipt_name sample_uuid] =
      Ok [Generic r]"
    using sample_state(2,4) [of r] sample_read [OF assms(1)] assms(2,3) sample_valid(1)
    by (simp add: receipt_name_def)
  ultimately show ?thesis
    using sample_state by (simp add: inventory_def sort_by_def MAX_RECEIPTS_def del: load_receipts.simps)
qed

lemmas sample_listed = sample_inventory [OF sample_generic_checked sample_generic_head]

text \<open>A generic receipt whose outcome is unknown, for the witnesses.\<close>

definition sample_unknown :: GenericRecord where
  "sample_unknown = sample_generic\<lparr>g_phase := G_Unknown, g_request_dispatched := None,
     g_request_accepted := None\<rparr>"

lemma sample_unknown_ok:
  "checked_generic sample_unknown = Ok sample_unknown" "operation_id sample_unknown = sample_uuid"
  "endpoint_hash sample_unknown = sample_hash" "g_phase sample_unknown = G_Unknown"
  "incompatible_with_guarded_reentry (g_request_type sample_unknown)"
  using sample by (simp_all add: checked_generic_def workflow_head_ok_def head_ok_def sample_unknown_def
      sample_generic_def prepared_generic_def MAX_SAFE_INTEGER_def incompatible_with_guarded_reentry_def)

text \<open>A receipt of this endpoint that the ledger holds and whose outcome is settled is in every
  later quiet inventory.\<close>

lemma settled_stays_listed:
  assumes "faithful_text tx" and "(store_step tx)\<^sup>*\<^sup>* b b'" and "ledger tx b (stored_id s) = Some s"
    and "settled s" and "stored_endpoint s = b_endpoint b" and "quiet io" and "pinned b'"
    and "inventory tx io b' = Ok ss"
  shows "s \<in> set ss"
proof -
  have "ledger tx b' (stored_id s) = Some s"
    using ledger_run_keeps [OF run_simulates [OF assms(1,2)] assms(3)] ledger_checked [OF assms(3)] assms(4)
    by (auto simp: same_receipt_def)
  with inventory_ledger [OF assms(6-8)] run_endpoint [OF assms(2)] assms(5) show ?thesis by simp
qed



text \<open>A request that is incompatible with guarded re-entry and that was answered, or whose
  outcome is unknown, forbids re-entry for good; and whenever re-entry is allowed, so is the
  weaker Production connection.\<close>

lemma reentry_barrier:
  assumes "faithful_text tx" and "(store_step tx)\<^sup>*\<^sup>* b b'"
    and "ledger tx b (operation_id r) = Some (Generic r)"
    and "incompatible_with_guarded_reentry (g_request_type r)"
    and "g_phase r \<in> {G_Accepted, G_Rejected, G_Unknown}" and "endpoint_hash r = b_endpoint b"
    and "quiet io" and "pinned b'"
  shows "guarded_reentry_allowed tx io b' \<noteq> Ok True \<and>
    (guarded_reentry_allowed tx io' b'' = Ok True \<longrightarrow> production_connection_allowed tx io' b'' = Ok True)"
proof
  show "guarded_reentry_allowed tx io b' \<noteq> Ok True"
  proof (cases "inventory tx io b'")
    case (Inr ss)
    have "Generic r \<in> set ss"
      by (rule settled_stays_listed [OF assms(1,2) _ _ _ assms(7,8) Inr]) (use assms(3,5,6) in auto)
    with assms(4,5) Inr show ?thesis
      by (auto simp: guarded_reentry_allowed_def list_ex_iff generic_history_def
          intro!: bexI [of _ "Generic r"])
  qed (simp add: guarded_reentry_allowed_def)
  show "guarded_reentry_allowed tx io' b'' = Ok True \<longrightarrow> production_connection_allowed tx io' b'' = Ok True"
    by (auto simp: guarded_reentry_allowed_def production_connection_allowed_def list_ex_iff
        generic_history_def dest: advanced_incompatible split: StoredReceipt.splits)
qed

text \<open>What was prepared can be read back: after a successful preparation, an inspection of
  the directory as it is either fails as a whole or returns exactly the prepared receipt.\<close>

lemma prepare_then_read:
  assumes "faithful_text tx" and "prepare_generic tx pio oid k gen t b = (Ok r, b')"
    and "quiet io" and "pinned b'" and "inventory tx io b' = Ok ss"
  shows "read_any tx io b' oid = Ok (generic_value r)"
proof -
  from generic.prepare_outcome [OF assms(1), of pio "(oid, k, gen, t)" b "Ok r" b'] assms(2)
  have r: "checked_generic r = Ok r" "endpoint_hash r = b_endpoint b"
      "ledger tx b' (operation_id r) = Some (Generic r)"
    by auto
  have b': "b_endpoint b' = b_endpoint b"
    using generic.prepare_endpoint [of tx pio "(oid, k, gen, t)" b "Ok r" b'] assms(2) by simp
  from assms(2) have "r = prepared_generic (b_endpoint b) oid k gen t"
    by (auto simp: prepare_generic_def returning_def split: sum.splits)
  then have oid: "operation_id r = oid" by (simp add: prepared_generic_def)
  have uuid: "valid_uuid oid"
    using v2.checked_head [OF r(1)] oid by (simp add: head_ok_def)
  have mem: "Generic r \<in> set ss"
    using inventory_ledger [OF assms(3-5), of "Generic r"] r b' by simp
  have unique: "s = Generic r" if "s \<in> set ss" "stored_id s = oid" for s
    using that inventory_ledger [OF assms(3-5), of s] r(3) oid by (metis option.inject)
  have "List.find (\<lambda>s. stored_id s = oid) ss = Some (Generic r)"
    by (rule find_unique [OF mem _ unique]) (simp_all add: oid)
  with uuid assms(5) show ?thesis by (simp add: read_any_def)
qed

lemma prepare_then_read_example:
  "read_any sample_text sample_view (sample_store_with sample_generic) sample_uuid =
     Ok (generic_value sample_generic)"
  by (rule prepare_then_read [OF sample_text_faithful sample_prepare sample_quiet sample_pinned sample_listed])

text \<open>A receipt state is spent by its update. Once an update of a generic receipt succeeded,
  or ended in durability uncertainty, every further update from the same old state is refused and
  changes nothing, whatever its new phase, time and file-system answers.\<close>

lemma update_not_replayed:
  assumes "faithful_text tx" and "disturbed vio = (\<lambda>_. None)" and "disturbed vio' = (\<lambda>_. None)"
    and "update_generic tx vio io r p t b = (res, b')"
    and "is_ok res \<or> res = Err DurabilityUncertain"
  shows "\<exists>e. update_generic tx vio' io' r p' t' b' = (Err e, b')"
  using assms by (rule generic.update_once)

lemma sample_dispatch:
  "\<exists>r' b'. update_generic sample_text sample_view sample_persist sample_generic G_Dispatching
     ''2026-01-02T03:04:06.000Z'' (sample_store_with sample_generic) = (Ok r', b')"
proof -
  let ?b = "sample_store_with sample_generic"
  have current: "current_receipt sample_text sample_view ?b (Generic sample_generic) = Ok ()"
    using sample_state(2,4) [of sample_generic] sample_read [OF sample_generic_checked]
    by (simp add: current_receipt_Ok)
  obtain r' where r': "updated_generic sample_generic G_Dispatching ''2026-01-02T03:04:06.000Z'' = Ok r'"
    using sample by (simp add: updated_generic_def generic_transition_def sample_generic_def
        prepared_generic_def checked_generic_def workflow_head_ok_def head_ok_def MAX_SAFE_INTEGER_def)
  have oid: "operation_id r' = sample_uuid"
    using v2.updated_same [OF r'] by (simp add: same_operation_def)
  have healthy: "healthy_persist sample_persist ?b sample_directory sample_directory"
    using sample_healthy by (simp add: healthy_persist_def sample_store_with_def)
  have "temporary_name sample_uuid (process_id ?b) 2 \<noteq> receipt_name sample_uuid"
    using ends_with_json_tmp [of sample_uuid "process_id ?b" 2] receipt_name_json [of sample_uuid] by metis
  then have free: "map_of (disk ?b) (temporary_name sample_uuid (process_id ?b) 2) = None"
    by (simp add: sample_store_with_def)
  have there: "if True then \<exists>f. map_of (disk ?b) (receipt_name sample_uuid) = Some f \<and> validate_regular (meta f) = Ok ()
      else map_of (disk ?b) (receipt_name sample_uuid) = None"
    using sample_regular_ok by (simp add: sample_store_with_def)
  have fits: "print sample_text (generic_value r') = Some (generic_value r')"
      "byte_len sample_text (generic_value r') \<le> MAX_RECEIPT_BYTES"
    by (simp_all add: sample_text_def MAX_RECEIPT_BYTES_def)
  have "checked_add (sequence ?b) 1 = Some 2"
    by (simp add: sample_store_with_def checked_add_def)
  note persist_healthy [OF healthy fits this free there]
  with current r' oid show ?thesis by (auto simp: update_generic_def returning_eq)
qed

text \<open>The displayed summary never hides an unresolved receipt behind a resolved one: of the at
  most 64 receipts shown, the blocking ones come first, the total counts all, and the truncation
  flag is set exactly when some are left out; the displayed value always exists.\<close>

lemma summary_shows_blocking_first:
  assumes "inventory tx io b = Ok ss"
  shows "\<exists>s. try_summary tx io b = Ok s \<and> os_total s = length ss \<and>
    operations s = map stored_summary (take 64 (filter stored_blocking ss @ filter (\<lambda>x. \<not> stored_blocking x) ss)) \<and>
    truncated s = (64 < length ss) \<and> view_summary tx io b \<noteq> None"
proof -
  have len: "length (filter stored_blocking ss) + length (filter (\<lambda>x. \<not> stored_blocking x) ss) = length ss"
    by (rule sum_length_filter_compl)
  have "read_all (\<lambda>v. v) (map stored_summary xs) \<noteq> None" for xs
  proof (induction xs)
    case (Cons x xs)
    obtain v where "stored_summary x = Some v"
      using display_status_total [of x] by (auto simp: stored_summary_def)
    with Cons show ?case by (auto simp: bind_eq_None_conv)
  qed simp
  then have "view_summary tx io b \<noteq> None"
    using assms by (simp add: view_summary_def try_summary_def Let_def del: take_append map_append)
  with assms len show ?thesis
    by (auto simp: try_summary_def Let_def DISPLAY_RECEIPTS_def)
qed


lemma summary_shows_blocking_first_example:
  "\<exists>s. try_summary sample_text sample_view (sample_store_with sample_unknown) = Ok s \<and> os_total s = 1 \<and>
     \<not> truncated s"
  using summary_shows_blocking_first [OF sample_inventory [OF sample_unknown_ok(1-3)]] by auto

end
