(* ===== verification/Session_Reply.thy ===== *)
theory Session_Reply
  imports Json "HOL-Library.Multiset"
begin

text \<open>
  The vocabulary of one OBS connection and the reading of its replies, from
  \<open>src/native/src/session.rs\<close> (and the closed set of reads of \<open>observation.rs\<close>): the errors a
  request can end with, the kinds of commands and their lanes, the frames that are sent, and the
  validation of single and batch replies. The readback of a transform is handed to its own
  component (\<open>capture\<close>, a parameter here). Times are instants of the monotonic clock.
\<close>

section \<open>Errors\<close>

datatype Invalidation = Inv_Shutdown | OwnerDropped | ActorStopped | Disconnected | MalformedMessage
  | EventOverflow | EventConsumerDropped | CancelledAfterDispatch | DeadlineAfterDispatch
  | SocketWriteFailed | ResponseIdentityMismatch | Inv_IdentityExhausted

datatype BeforeDispatch = StaleConnection | Closed Invalidation | InvalidRequest | Capacity
  | ByteCapacity | Deadline | BD_Cancelled | BD_IdentityExhausted | GuardRefused string

datatype RequestError = BeforeDispatch BeforeDispatch | Req_Rejected u64 | RejectedDetailed u64 string
  | Req_Unknown Invalidation

definition rejection_code :: "RequestError \<Rightarrow> u64 option" where
  "rejection_code e = (case e of Req_Rejected c \<Rightarrow> Some c | RejectedDetailed c _ \<Rightarrow> Some c | _ \<Rightarrow> None)"

definition obs_failure_message :: "RequestError \<Rightarrow> string \<Rightarrow> string option" where
  "obs_failure_message e request_type = map_option (\<lambda>code.
     ''OBS request '' @ request_type @ '' failed with code '' @ dec (unat code) @
     (case e of RejectedDetailed _ comment \<Rightarrow> '': '' @ comment | _ \<Rightarrow> [])) (rejection_code e)"

section \<open>Reads\<close>

datatype (plugins only: code size) ReadRequest =
  RR_SceneCollectionList | RR_SceneList | RR_VideoSettings | RR_InputList | RR_InputKindList
  | RR_SceneItemList | RR_SceneItemTransform | RR_GroupSceneItemList | RR_SourceScreenshot
  | RR_StudioModeEnabled | RR_CurrentProgramScene | RR_CurrentPreviewScene | RR_RecordStatus
  | RR_StreamStatus | RR_ReplayBufferStatus | RR_VirtualCamStatus | RR_OutputList
  | RR_OutputStatus | RR_InputSettings | RR_SourceFilterList | RR_InputMute | RR_InputVolume
  | RR_InputAudioTracks | RR_RecordDirectory | RR_Stats | RR_ProfileParameter | RR_Version
  | RR_HotkeyList | RR_SourceActive | RR_SceneItemId | RR_SceneTransitionList
  | RR_CurrentSceneTransition | RR_PersistentData | RR_ProfileList | RR_StreamServiceSettings
  | RR_SourceFilterKindList | RR_SourceFilterDefaultSettings | RR_SourceFilter | RR_SpecialInputs
  | RR_InputDefaultSettings | RR_InputAudioBalance | RR_InputAudioSyncOffset
  | RR_InputAudioMonitorType | RR_MediaInputStatus | RR_LastReplayBufferReplay | RR_OutputSettings
  | RR_MonitorList | RR_CanvasList | RR_InputDeinterlaceFieldOrder | RR_InputDeinterlaceMode
  | RR_SceneItemEnabled | RR_SceneItemIndex | RR_SceneItemLocked | RR_SceneItemBlendMode
  | RR_SceneItemSource | RR_GroupList | RR_SceneSceneTransitionOverride | RR_TransitionKindList
  | RR_CurrentSceneTransitionCursor

primrec read_name :: "ReadRequest \<Rightarrow> string" where
  "read_name RR_SceneCollectionList = ''GetSceneCollectionList''"
| "read_name RR_SceneList = ''GetSceneList''"
| "read_name RR_VideoSettings = ''GetVideoSettings''"
| "read_name RR_InputList = ''GetInputList''"
| "read_name RR_InputKindList = ''GetInputKindList''"
| "read_name RR_SceneItemList = ''GetSceneItemList''"
| "read_name RR_SceneItemTransform = ''GetSceneItemTransform''"
| "read_name RR_GroupSceneItemList = ''GetGroupSceneItemList''"
| "read_name RR_SourceScreenshot = ''GetSourceScreenshot''"
| "read_name RR_StudioModeEnabled = ''GetStudioModeEnabled''"
| "read_name RR_CurrentProgramScene = ''GetCurrentProgramScene''"
| "read_name RR_CurrentPreviewScene = ''GetCurrentPreviewScene''"
| "read_name RR_RecordStatus = ''GetRecordStatus''"
| "read_name RR_StreamStatus = ''GetStreamStatus''"
| "read_name RR_ReplayBufferStatus = ''GetReplayBufferStatus''"
| "read_name RR_VirtualCamStatus = ''GetVirtualCamStatus''"
| "read_name RR_OutputList = ''GetOutputList''"
| "read_name RR_OutputStatus = ''GetOutputStatus''"
| "read_name RR_InputSettings = ''GetInputSettings''"
| "read_name RR_SourceFilterList = ''GetSourceFilterList''"
| "read_name RR_InputMute = ''GetInputMute''"
| "read_name RR_InputVolume = ''GetInputVolume''"
| "read_name RR_InputAudioTracks = ''GetInputAudioTracks''"
| "read_name RR_RecordDirectory = ''GetRecordDirectory''"
| "read_name RR_Stats = ''GetStats''"
| "read_name RR_ProfileParameter = ''GetProfileParameter''"
| "read_name RR_Version = ''GetVersion''"
| "read_name RR_HotkeyList = ''GetHotkeyList''"
| "read_name RR_SourceActive = ''GetSourceActive''"
| "read_name RR_SceneItemId = ''GetSceneItemId''"
| "read_name RR_SceneTransitionList = ''GetSceneTransitionList''"
| "read_name RR_CurrentSceneTransition = ''GetCurrentSceneTransition''"
| "read_name RR_PersistentData = ''GetPersistentData''"
| "read_name RR_ProfileList = ''GetProfileList''"
| "read_name RR_StreamServiceSettings = ''GetStreamServiceSettings''"
| "read_name RR_SourceFilterKindList = ''GetSourceFilterKindList''"
| "read_name RR_SourceFilterDefaultSettings = ''GetSourceFilterDefaultSettings''"
| "read_name RR_SourceFilter = ''GetSourceFilter''"
| "read_name RR_SpecialInputs = ''GetSpecialInputs''"
| "read_name RR_InputDefaultSettings = ''GetInputDefaultSettings''"
| "read_name RR_InputAudioBalance = ''GetInputAudioBalance''"
| "read_name RR_InputAudioSyncOffset = ''GetInputAudioSyncOffset''"
| "read_name RR_InputAudioMonitorType = ''GetInputAudioMonitorType''"
| "read_name RR_MediaInputStatus = ''GetMediaInputStatus''"
| "read_name RR_LastReplayBufferReplay = ''GetLastReplayBufferReplay''"
| "read_name RR_OutputSettings = ''GetOutputSettings''"
| "read_name RR_MonitorList = ''GetMonitorList''"
| "read_name RR_CanvasList = ''GetCanvasList''"
| "read_name RR_InputDeinterlaceFieldOrder = ''GetInputDeinterlaceFieldOrder''"
| "read_name RR_InputDeinterlaceMode = ''GetInputDeinterlaceMode''"
| "read_name RR_SceneItemEnabled = ''GetSceneItemEnabled''"
| "read_name RR_SceneItemIndex = ''GetSceneItemIndex''"
| "read_name RR_SceneItemLocked = ''GetSceneItemLocked''"
| "read_name RR_SceneItemBlendMode = ''GetSceneItemBlendMode''"
| "read_name RR_SceneItemSource = ''GetSceneItemSource''"
| "read_name RR_GroupList = ''GetGroupList''"
| "read_name RR_SceneSceneTransitionOverride = ''GetSceneSceneTransitionOverride''"
| "read_name RR_TransitionKindList = ''GetTransitionKindList''"
| "read_name RR_CurrentSceneTransitionCursor = ''GetCurrentSceneTransitionCursor''"

section \<open>Commands\<close>

datatype StopControl = SC_StopRecord | SC_RecordStatus

definition stop_control_type :: "StopControl \<Rightarrow> string" where
  "stop_control_type c = (case c of SC_StopRecord \<Rightarrow> ''StopRecord'' | SC_RecordStatus \<Rightarrow> ''GetRecordStatus'')"

datatype SafetyStopRequest = Stream | VirtualCam | ReplayBuffer

definition safety_stop_type :: "SafetyStopRequest \<Rightarrow> string" where
  "safety_stop_type k = (case k of Stream \<Rightarrow> ''StopStream'' | VirtualCam \<Rightarrow> ''StopVirtualCam''
     | ReplayBuffer \<Rightarrow> ''StopReplayBuffer'')"

datatype CommandKind = K_Single string | K_Observation ReadRequest | K_ReservedControl StopControl
  | K_SafetyStop SafetyStopRequest | K_ManualRecordStop | K_Transform | K_Batch "string list" bool

datatype Lane = NormalLane | OwnedStopLane | SafetyStopLane

definition slot :: "Lane \<Rightarrow> nat" where
  "slot l = (case l of NormalLane \<Rightarrow> 0 | OwnedStopLane \<Rightarrow> 1 | SafetyStopLane \<Rightarrow> 2)"

fun lane :: "CommandKind \<Rightarrow> Lane" where
  "lane (K_ReservedControl _) = OwnedStopLane"
| "lane (K_SafetyStop _) = SafetyStopLane"
| "lane K_ManualRecordStop = SafetyStopLane"
| "lane _ = NormalLane"

text \<open>The request type a single reply must name.\<close>

fun single_type :: "CommandKind \<Rightarrow> string option" where
  "single_type (K_Single t) = Some t"
| "single_type (K_Observation r) = Some (read_name r)"
| "single_type K_Transform = Some ''GetSceneItemTransform''"
| "single_type (K_ReservedControl c) = Some (stop_control_type c)"
| "single_type (K_SafetyStop k) = Some (safety_stop_type k)"
| "single_type K_ManualRecordStop = Some ''StopRecord''"
| "single_type (K_Batch _ _) = None"

section \<open>Frames\<close>

text \<open>\<open>is_ascii_alphanumeric\<close>.\<close>

definition is_ascii_alphanumeric :: "char \<Rightarrow> bool" where
  "is_ascii_alphanumeric c \<longleftrightarrow> is_ascii_digit c \<or> is_ascii_uppercase c \<or>
     97 \<le> (of_char c :: nat) \<and> (of_char c :: nat) \<le> 122"

definition valid_request_type :: "string \<Rightarrow> bool" where
  "valid_request_type t \<longleftrightarrow> t \<noteq> [] \<and> length t \<le> 128 \<and> list_all is_ascii_alphanumeric t"

definition request_id_text :: "u64 \<Rightarrow> u64 \<Rightarrow> string" where
  "request_id_text token n = dec (unat token) @ '':'' @ dec (unat n)"

definition single_frame :: "string \<Rightarrow> string \<Rightarrow> json \<Rightarrow> json" where
  "single_frame rid t data = mk_object [(''op'', of_u64 6), (''d'',
     (let d = mk_object [(''requestId'', JString rid), (''requestType'', JString t)]
      in if data = JNull then d else set_key ''requestData'' data d))]"

record BatchRequest =
  b_request_type :: string
  b_request_data :: "json option"

definition batch_item :: "nat \<Rightarrow> BatchRequest \<Rightarrow> json" where
  "batch_item i r =
     (let item = mk_object [(''requestType'', JString (b_request_type r)), (''requestId'', JString (dec i))]
      in case b_request_data r of None \<Rightarrow> item | Some data \<Rightarrow> set_key ''requestData'' data item)"

datatype Execution = SerialRealtime | SerialFrame

definition execution_code :: "Execution \<Rightarrow> u8" where
  "execution_code e = (case e of SerialRealtime \<Rightarrow> 0 | SerialFrame \<Rightarrow> 1)"

definition batch_frame :: "string \<Rightarrow> bool \<Rightarrow> Execution \<Rightarrow> BatchRequest list \<Rightarrow> json" where
  "batch_frame rid halt e rs = mk_object [(''op'', of_u64 8), (''d'', mk_object
     [(''requestId'', JString rid), (''haltOnFailure'', JBool halt), (''executionType'', of_u8 (execution_code e)),
      (''requests'', JArray (map (\<lambda>(i, r). batch_item i r) (enumerate 0 rs)))])]"

section \<open>Replies\<close>

record BatchResult =
  br_request_type :: string
  br_ok :: bool
  br_code :: u64
  br_comment :: "string option"
  br_response :: json

datatype 'p ReplyData = Single_Reply json | Batch_Reply "BatchResult list" | Transform_Reply 'p

text \<open>The data of a successful reply: an absent or null value reads as the empty object.\<close>

definition response_data :: "json \<Rightarrow> json" where
  "response_data v = (case get v ''responseData'' of None \<Rightarrow> mk_object []
     | Some x \<Rightarrow> if x = JNull then mk_object [] else x)"

text \<open>An index is printed canonically: of the texts that parse as it, only its decimal form counts.\<close>

definition canonical_index :: "nat \<Rightarrow> string \<Rightarrow> nat option" where
  "canonical_index n rid = List.find (\<lambda>i. dec i = rid) [0 ..< n]"

text \<open>The status code of a batch result: an unsigned integer, also when written as a float.\<close>

fun status_code :: "json \<Rightarrow> u64 option" where
  "status_code (JNumber (PosInt n)) = Some n"
| "status_code (JNumber (Float q)) =
     (if 0 \<le> q \<and> q < 2 ^ 64 \<and> of_int \<lfloor>q\<rfloor> = q then Some (of_int \<lfloor>q\<rfloor>) else None)"
| "status_code _ = None"

definition batch_entry :: "string list \<Rightarrow> BatchResult option list \<Rightarrow> json \<Rightarrow>
    (Invalidation, nat \<times> BatchResult) result" where
  "batch_entry types ordered r =
     (if as_object r = None \<or> as_object (idx r ''requestStatus'') = None then Err MalformedMessage
      else (case Option.bind (as_str (idx r ''requestId'')) (canonical_index (length ordered)) of
          None \<Rightarrow> Err ResponseIdentityMismatch
        | Some i \<Rightarrow> (case as_str (idx r ''requestType'') of
            None \<Rightarrow> Err MalformedMessage
          | Some t \<Rightarrow>
              if t \<noteq> types ! i \<or> ordered ! i \<noteq> None then Err ResponseIdentityMismatch
              else (let status = idx r ''requestStatus'' in
                case as_bool (idx status ''result'') of None \<Rightarrow> Err MalformedMessage
                | Some good \<Rightarrow> (case status_code (idx status ''code'') of None \<Rightarrow> Err MalformedMessage
                  | Some c \<Rightarrow> Ok (i, \<lparr>br_request_type = t, br_ok = good, br_code = c,
                      br_comment = as_str (idx status ''comment''), br_response = response_data r\<rparr>))))))"

fun place_results :: "string list \<Rightarrow> json list \<Rightarrow> BatchResult option list \<Rightarrow>
    (Invalidation, BatchResult option list) result" where
  "place_results types [] ordered = Ok ordered"
| "place_results types (r # rs) ordered = and_then (batch_entry types ordered r) (\<lambda>(i, x).
     place_results types rs (ordered[i := Some x]))"

definition batch_response :: "json \<Rightarrow> string \<Rightarrow> string list \<Rightarrow> bool \<Rightarrow>
    (Invalidation, BatchResult list) result" where
  "batch_response data rid types halt =
     (if as_str (idx data ''requestId'') \<noteq> Some rid then Err ResponseIdentityMismatch
      else (case Option.bind (get data ''results'') as_array of
          None \<Rightarrow> Err MalformedMessage
        | Some rs \<Rightarrow>
            if rs = [] \<or> length rs > length types \<or> \<not> halt \<and> length rs \<noteq> length types
            then Err ResponseIdentityMismatch
            else and_then (place_results types rs (replicate (length rs) None)) (\<lambda>ordered.
              if None \<in> set ordered then Err ResponseIdentityMismatch
              else (let results = map the ordered; failure = position (\<lambda>x. \<not> br_ok x) results in
                if halt \<and> (case failure of None \<Rightarrow> length results \<noteq> length types
                     | Some i \<Rightarrow> i + 1 \<noteq> length results)
                then Err ResponseIdentityMismatch else Ok results))))"

definition response :: "(string \<Rightarrow> json \<Rightarrow> nat \<Rightarrow> 'p) \<Rightarrow> json \<Rightarrow> CommandKind \<Rightarrow> string \<Rightarrow> nat \<Rightarrow> bool \<Rightarrow> string \<Rightarrow>
    (Invalidation, (RequestError, 'p ReplyData) result option) result" where
  "response capture data k rid deadline batch raw =
     (case (k, batch) of
        (K_Batch types halt, True) \<Rightarrow> and_then (batch_response data rid types halt) (\<lambda>rs. Ok (Some (Ok (Batch_Reply rs))))
      | (K_Batch _ _, False) \<Rightarrow> Err ResponseIdentityMismatch
      | (_, True) \<Rightarrow> Err ResponseIdentityMismatch
      | (_, False) \<Rightarrow>
          if as_str (idx data ''requestId'') \<noteq> Some rid then Ok None
          else if as_str (idx data ''requestType'') \<noteq> single_type k then Err ResponseIdentityMismatch
          else (let status = idx data ''requestStatus'' in
            case as_u64 (idx status ''code'') of None \<Rightarrow> Err MalformedMessage
            | Some code \<Rightarrow> (case as_bool (idx status ''result'') of None \<Rightarrow> Err MalformedMessage
              | Some success \<Rightarrow>
                  (let comment = Option.bind (get status ''comment'') as_str in
                   if success then Ok (Some (Ok (if k = K_Transform
                       then Transform_Reply (capture raw (response_data data) deadline)
                       else Single_Reply (response_data data))))
                   else (case comment of
                       Some text \<Rightarrow>
                         if text = [] then Ok (Some (Err (Req_Rejected code)))
                         else if length text > 64 * 1024 then Err MalformedMessage
                         else Ok (Some (Err (RejectedDetailed code text)))
                     | None \<Rightarrow> Ok (Some (Err (Req_Rejected code))))))))"

section \<open>Indices\<close>

lemma canonical_index_Some: "canonical_index n rid = Some i \<longleftrightarrow> i < n \<and> rid = dec i"
proof
  assume "canonical_index n rid = Some i"
  then show "i < n \<and> rid = dec i" by (auto simp: canonical_index_def find_Some_iff)
next
  assume i: "i < n \<and> rid = dec i"
  then have "List.find (\<lambda>j. dec j = rid) [0 ..< n] \<noteq> None" by (auto simp: find_None_iff)
  then obtain j where j: "List.find (\<lambda>j. dec j = rid) [0 ..< n] = Some j" by auto
  then have "dec j = rid" by (auto simp: find_Some_iff)
  with i dec_inj have "j = i" by auto
  with j show "canonical_index n rid = Some i" by (simp add: canonical_index_def)
qed

section \<open>Placing results\<close>

text \<open>Entry \<open>r\<close> of a batch reply carries result \<open>x\<close> of request \<open>i\<close>.\<close>

definition carries :: "json \<Rightarrow> nat \<Rightarrow> BatchResult \<Rightarrow> bool" where
  "carries r i x \<longleftrightarrow> as_str (idx r ''requestId'') = Some (dec i) \<and>
     as_str (idx r ''requestType'') = Some (br_request_type x) \<and>
     as_bool (idx (idx r ''requestStatus'') ''result'') = Some (br_ok x) \<and>
     status_code (idx (idx r ''requestStatus'') ''code'') = Some (br_code x) \<and>
     br_comment x = as_str (idx (idx r ''requestStatus'') ''comment'') \<and> br_response x = response_data r"

lemma batch_entry_Ok:
  "batch_entry types ordered r = Ok (i, x) \<Longrightarrow>
     i < length ordered \<and> carries r i x \<and> br_request_type x = types ! i \<and> ordered ! i = None"
  by (auto simp: batch_entry_def canonical_index_Some carries_def Let_def bind_eq_Some_conv
      split: if_splits option.splits)

lemma place_results_sound:
  assumes "place_results types rs ordered = Ok ordered'"
  shows "length ordered' = length ordered \<and>
    (\<forall>i < length ordered. \<forall>x. ordered' ! i = Some x \<longrightarrow>
       ordered ! i = Some x \<or> br_request_type x = types ! i \<and> (\<exists>r \<in> set rs. carries r i x))"
  using assms
proof (induction types rs ordered rule: place_results.induct)
  case (2 types r rs ordered)
  then obtain i x where ix: "batch_entry types ordered r = Ok (i, x)"
      and rest: "place_results types rs (ordered[i := Some x]) = Ok ordered'"
    by auto
  from batch_entry_Ok [OF ix] have c: "carries r i x" "br_request_type x = types ! i" "i < length ordered"
    by simp_all
  from 2(1) [OF rest] have IH: "length ordered' = length ordered"
    "\<And>j y. j < length ordered \<Longrightarrow> ordered' ! j = Some y \<Longrightarrow>
       ordered[i := Some x] ! j = Some y \<or> br_request_type y = types ! j \<and> (\<exists>r \<in> set rs. carries r j y)"
    by auto
  show ?case
  proof (intro conjI allI impI)
    fix j y assume j: "j < length ordered" "ordered' ! j = Some y"
    from IH(2) [OF j] show "ordered ! j = Some y \<or>
        br_request_type y = types ! j \<and> (\<exists>r' \<in> set (r # rs). carries r' j y)"
      using c by (cases "i = j") auto
  qed (rule IH(1))
qed simp

lemma batch_response_Ok:
  assumes "batch_response data rid types halt = Ok results"
  obtains rs ordered where "as_str (idx data ''requestId'') = Some rid"
    "get data ''results'' = Some (JArray rs)" "rs \<noteq> []" "length rs \<le> length types"
    "halt \<or> length rs = length types" "place_results types rs (replicate (length rs) None) = Ok ordered"
    "ordered = map Some results"
    "\<not> halt \<or> (case position (\<lambda>x. \<not> br_ok x) results of None \<Rightarrow> length results = length types
       | Some i \<Rightarrow> i + 1 = length results)"
proof -
  have arr: "as_array v = Some xs \<longleftrightarrow> v = JArray xs" for v xs by (cases v) auto
  from assms have rid: "as_str (idx data ''requestId'') = Some rid"
    by (simp add: batch_response_def split: if_splits)
  from assms rid obtain rs where rs: "Option.bind (get data ''results'') as_array = Some rs"
    by (cases "Option.bind (get data ''results'') as_array") (simp_all add: batch_response_def)
  then have got: "get data ''results'' = Some (JArray rs)" by (auto simp: bind_eq_Some_conv arr)
  from assms rid rs have sized: "rs \<noteq> []" "length rs \<le> length types" "halt \<or> length rs = length types"
    by (auto simp: batch_response_def split: if_splits)
  from assms rid rs sized obtain ordered where
      placed: "place_results types rs (replicate (length rs) None) = Ok ordered"
    by (cases "place_results types rs (replicate (length rs) None)")
      (auto simp: batch_response_def split: if_splits)
  from assms rid rs sized placed have full: "None \<notin> set ordered" "results = map the ordered"
      "\<not> halt \<or> (case position (\<lambda>x. \<not> br_ok x) results of None \<Rightarrow> length results = length types
       | Some i \<Rightarrow> i + 1 = length results)"
    by (auto simp: batch_response_def Let_def split: if_splits option.splits)
  note * = rid got sized placed full
  have "map Some (map the ordered) = ordered"
    using full(1) by (induction ordered) auto
  with * that show thesis by metis
qed

section \<open>Any order of results\<close>

text \<open>A reply entry as OBS writes it.\<close>

definition entry_value :: "nat \<Rightarrow> BatchResult \<Rightarrow> json" where
  "entry_value i x = mk_object ([(''requestId'', JString (dec i)), (''requestType'', JString (br_request_type x)),
     (''requestStatus'', mk_object ([(''result'', JBool (br_ok x)), (''code'', of_u64 (br_code x))] @
        (case br_comment x of None \<Rightarrow> [] | Some c \<Rightarrow> [(''comment'', JString c)]))),
     (''responseData'', br_response x)])"

lemma as_object_mk_object [simp]: "as_object (mk_object kvs) \<noteq> None"
  by (simp add: mk_object_def)

lemma entry_value_entry:
  assumes "i < length ordered" and "ordered ! i = None" and "br_request_type x = types ! i"
    and "br_response x \<noteq> JNull"
  shows "batch_entry types ordered (entry_value i x) = Ok (i, x)"
proof -
  have "canonical_index (length ordered) (dec i) = Some i" using assms(1) by (simp add: canonical_index_Some)
  with assms(2-4) show ?thesis
    by (cases x; cases "br_comment x")
      (auto simp: batch_entry_def entry_value_def response_data_def of_u64_def Let_def)
qed

lemma place_entries:
  assumes "distinct is" and "\<forall>i \<in> set is. i < length ordered \<and> ordered ! i = None"
    and "length ordered \<le> length xs" and "\<forall>i < length ordered. br_request_type (xs ! i) = types ! i"
    and "\<forall>x \<in> set xs. br_response x \<noteq> JNull"
  shows "\<exists>ordered'. place_results types (map (\<lambda>i. entry_value i (xs ! i)) is) ordered = Ok ordered' \<and>
    length ordered' = length ordered \<and>
    (\<forall>i < length ordered. ordered' ! i = (if i \<in> set is then Some (xs ! i) else ordered ! i))"
  using assms
proof (induction "is" arbitrary: ordered)
  case (Cons i "is")
  let ?o = "ordered[i := Some (xs ! i)]"
  have i: "i < length ordered" "ordered ! i = None" using Cons.prems(2) by auto
  then have e: "batch_entry types ordered (entry_value i (xs ! i)) = Ok (i, xs ! i)"
    using Cons.prems by (intro entry_value_entry) auto
  from Cons.prems have "\<exists>ordered'. place_results types (map (\<lambda>i. entry_value i (xs ! i)) is) ?o = Ok ordered' \<and>
      length ordered' = length ?o \<and> (\<forall>j < length ?o. ordered' ! j = (if j \<in> set is then Some (xs ! j) else ?o ! j))"
    by (intro Cons.IH) (auto simp: nth_list_update)
  with e i Cons.prems(1) show ?case by (auto simp: nth_list_update)
qed simp

section \<open>Properties\<close>

text \<open>A batch reply that is accepted is fully identified. It answers this batch, every result
  belongs to the request at its position (its index in canonical form and its request type match)
  and is carried by an entry of the reply, none is missing, and a batch that halts on failure ends
  with its only failure or is complete.\<close>

lemma batch_reply_identified:
  assumes "batch_response data rid types halt = Ok results"
  shows "as_str (idx data ''requestId'') = Some rid \<and>
    (\<exists>rs. get data ''results'' = Some (JArray rs) \<and> length rs = length results \<and>
      (\<forall>i < length results. br_request_type (results ! i) = types ! i \<and> (\<exists>r \<in> set rs. carries r i (results ! i)))) \<and>
    0 < length results \<and> length results \<le> length types \<and>
    (length results = length types \<or> halt \<and> \<not> br_ok (last results)) \<and>
    (halt \<longrightarrow> list_all br_ok (butlast results))"
proof -
  from assms obtain rs ordered where r: "as_str (idx data ''requestId'') = Some rid"
      "get data ''results'' = Some (JArray rs)" "rs \<noteq> []" "length rs \<le> length types"
      "halt \<or> length rs = length types" "place_results types rs (replicate (length rs) None) = Ok ordered"
      "ordered = map Some results"
      "\<not> halt \<or> (case position (\<lambda>x. \<not> br_ok x) results of None \<Rightarrow> length results = length types
         | Some i \<Rightarrow> i + 1 = length results)"
    by (rule batch_response_Ok)
  note placed = place_results_sound [OF r(6)]
  with r(7) have len: "length results = length rs" by simp
  have "br_request_type (results ! i) = types ! i \<and> (\<exists>r \<in> set rs. carries r i (results ! i))"
    if "i < length results" for i
    using placed that r(7) len by force
  moreover have "(length results = length types \<or> halt \<and> \<not> br_ok (last results)) \<and>
      (halt \<longrightarrow> list_all br_ok (butlast results))"
  proof (cases "position (\<lambda>x. \<not> br_ok x) results")
    case None
    then have "\<forall>x \<in> set results. br_ok x" by (simp add: position_None_iff)
    then have "list_all br_ok (butlast results)" by (auto simp: list_all_iff dest: in_set_butlastD)
    with None r(5,8) len show ?thesis by auto
  next
    case (Some i)
    from position_Some [OF Some] have i: "i < length results" "\<not> br_ok (results ! i)"
        "\<forall>x \<in> set (take i results). br_ok x" by auto
    show ?thesis
    proof (cases halt)
      case True
      with r(8) Some have "i = length results - 1" by simp
      moreover from i(1) have "results \<noteq> []" by auto
      ultimately have "\<not> br_ok (last results)" "list_all br_ok (butlast results)"
        using i(2,3) by (auto simp: last_conv_nth butlast_conv_take list_all_iff)
      with True show ?thesis by simp
    qed (use r(5) len in simp)
  qed
  ultimately show ?thesis using r(1-4) len by auto
qed

definition sample_result :: "string \<Rightarrow> BatchResult" where
  "sample_result t = \<lparr>br_request_type = t, br_ok = True, br_code = 100, br_comment = None,
     br_response = mk_object []\<rparr>"

text \<open>The order in which OBS reports the results of a batch does not matter. A reply that
  carries one entry for each request, in any order, is read back as the results in the order of the
  requests.\<close>

lemma batch_reply_any_order:
  assumes "mset is = mset [0 ..< length xs]" and "xs \<noteq> []"
    and "map br_request_type xs = types" and "\<forall>x \<in> set xs. br_response x \<noteq> JNull"
    and "halt \<longrightarrow> list_all br_ok (butlast xs)"
  shows "batch_response (mk_object [(''requestId'', JString rid),
      (''results'', JArray (map (\<lambda>i. entry_value i (xs ! i)) is))]) rid types halt = Ok xs"
proof -
  let ?rs = "map (\<lambda>i. entry_value i (xs ! i)) is"
  from assms(1) have "is": "length is = length xs" "distinct is" "set is = {0 ..< length xs}"
    using mset_eq_length [OF assms(1)] mset_eq_setD [OF assms(1)] mset_eq_imp_distinct_iff [OF assms(1)]
    by simp_all
  obtain ordered where o: "place_results types ?rs (replicate (length is) None) = Ok ordered"
      "length ordered = length xs" "\<forall>i < length xs. ordered ! i = Some (xs ! i)"
    using place_entries [of "is" "replicate (length is) None" xs types] "is" assms(3,4) by auto
  then have ordered: "ordered = map Some xs" by (auto intro: nth_equalityI)
  have halting: "case position (\<lambda>x. \<not> br_ok x) xs of None \<Rightarrow> True | Some i \<Rightarrow> i + 1 = length xs" if halt
  proof (cases "position (\<lambda>x. \<not> br_ok x) xs")
    case (Some i)
    from position_Some [OF Some] have i: "i < length xs" "\<not> br_ok (xs ! i)" by auto
    have "i + 1 = length xs"
    proof (rule ccontr)
      assume "i + 1 \<noteq> length xs"
      with i(1) have "i < length (butlast xs)" by simp
      then have "xs ! i \<in> set (butlast xs)" using nth_mem nth_butlast by metis
      with assms(5) that i(2) show False by (simp add: list_all_iff)
    qed
    with Some show ?thesis by simp
  qed simp
  have types: "length types = length xs" using assms(3) by auto
  have "is \<noteq> []" using "is"(1) assms(2) by auto
  with o(1) ordered types "is"(1) halting show ?thesis
    by (cases "position (\<lambda>x. \<not> br_ok x) xs") (auto simp: batch_response_def Let_def comp_def)
qed

definition all_reads :: "ReadRequest list" where
  "all_reads =
     [RR_SceneCollectionList, RR_SceneList, RR_VideoSettings, RR_InputList, RR_InputKindList,
      RR_SceneItemList, RR_SceneItemTransform, RR_GroupSceneItemList, RR_SourceScreenshot,
      RR_StudioModeEnabled, RR_CurrentProgramScene, RR_CurrentPreviewScene, RR_RecordStatus,
      RR_StreamStatus, RR_ReplayBufferStatus, RR_VirtualCamStatus, RR_OutputList,
      RR_OutputStatus, RR_InputSettings, RR_SourceFilterList, RR_InputMute, RR_InputVolume,
      RR_InputAudioTracks, RR_RecordDirectory, RR_Stats, RR_ProfileParameter, RR_Version,
      RR_HotkeyList, RR_SourceActive, RR_SceneItemId, RR_SceneTransitionList,
      RR_CurrentSceneTransition, RR_PersistentData, RR_ProfileList, RR_StreamServiceSettings,
      RR_SourceFilterKindList, RR_SourceFilterDefaultSettings, RR_SourceFilter, RR_SpecialInputs,
      RR_InputDefaultSettings, RR_InputAudioBalance, RR_InputAudioSyncOffset,
      RR_InputAudioMonitorType, RR_MediaInputStatus, RR_LastReplayBufferReplay,
      RR_OutputSettings, RR_MonitorList, RR_CanvasList, RR_InputDeinterlaceFieldOrder,
      RR_InputDeinterlaceMode, RR_SceneItemEnabled, RR_SceneItemIndex, RR_SceneItemLocked,
      RR_SceneItemBlendMode, RR_SceneItemSource, RR_GroupList, RR_SceneSceneTransitionOverride,
      RR_TransitionKindList, RR_CurrentSceneTransitionCursor]"

lemma all_reads_UNIV: "r \<in> set all_reads"
  by (cases r) (simp_all add: all_reads_def)

lemma read_name_inj: "inj read_name"
proof -
  have "distinct (map read_name all_reads)" by code_simp
  then have "inj_on read_name (set all_reads)" by (simp add: distinct_map)
  then show ?thesis using all_reads_UNIV by (simp add: inj_on_def)
qed

text \<open>The closed set of observations is a set of reads: every one of them is a distinct, valid
  request whose name starts with Get, so giving up waiting for its reply never abandons an effect.\<close>

lemma observations_are_reads:
  "inj read_name \<and> take 3 (read_name r) = ''Get'' \<and> valid_request_type (read_name r)"
proof -
  have "list_all (\<lambda>n. take 3 n = ''Get'' \<and> valid_request_type n) (map read_name all_reads)" by code_simp
  with all_reads_UNIV [of r] read_name_inj show ?thesis by (auto simp: list_all_iff)
qed

end
