(* ===== verification/Broker.thy ===== *)
theory Broker
  imports Inventory Session_Reply
begin

text \<open>
  The receipt broker of \<open>src/native/src/receipt_broker.rs\<close>: one store shared through bounded typed
  scopes. Each call runs under the broker's mutex, so it is one step on the broker's state; the
  file-system answers of its successive inspections are numbered (\<open>ios 0\<close>, \<open>ios 1\<close>, ...). A mutex
  poisoned by a panicking thread is not modelled, and reclaiming the store (\<open>into_store\<close>) is told
  whether other handles exist.
\<close>

section \<open>State\<close>

datatype ScopeKind = Take | Stage | CriticalRecord | GenericScope GenericKind
  | SafetyStop SafetyStopRequest | ManualRecordStopScope | RestoreBatch | ApplyScene | CaptureWindow

fun is_public_stop :: "ScopeKind \<Rightarrow> bool" where
  "is_public_stop (SafetyStop _) = True"
| "is_public_stop ManualRecordStopScope = True"
| "is_public_stop _ = False"

record scope =
  sc_kind :: ScopeKind
  sc_ids :: "string list"
  stop_reserved :: bool

record 'b broker =
  store :: "'b backend"
  scopes :: "(u64 \<times> scope) list"
  next_id :: u64
  br_poisoned :: bool

definition MAX_SCOPES :: nat where
  "MAX_SCOPES = 34"

definition new_broker :: "'b backend \<Rightarrow> 'b broker" where
  "new_broker b = \<lparr>store = b, scopes = [], next_id = 0, br_poisoned = False\<rparr>"

text \<open>Proof of what happened is lost: the broker and every view of the store refuse from now on.\<close>

definition poison :: "'b broker \<Rightarrow> 'b broker" where
  "poison br = br\<lparr>br_poisoned := True, store := mark_uncertain (store br)\<rparr>"

type_synonym 'b ios = "nat \<Rightarrow> 'b view_io"

section \<open>Admission\<close>

definition broker_admission :: "'b text_codec \<Rightarrow> 'b ios \<Rightarrow> 'b broker \<Rightarrow> (StoreError, admission) result" where
  "broker_admission tx ios br =
     (if br_poisoned br then Err DurabilityUncertain else view_admission tx (ios 0) (store br))"

definition live_ids :: "'b broker \<Rightarrow> string list" where
  "live_ids br = concat (map (sc_ids \<circ> snd) (scopes br))"

definition safety_admission :: "'b text_codec \<Rightarrow> 'b view_io \<Rightarrow> 'b broker \<Rightarrow> string option \<Rightarrow>
    (StoreError, admission) result \<times> 'b broker" where
  "safety_admission tx io br own =
     (case admission_with_live_ids tx io (store br) own (live_ids br) of
        Err e \<Rightarrow> (Err e, if e \<noteq> Conflict then poison br else br)
      | Ok a \<Rightarrow> (Ok a, br))"

section \<open>Scopes\<close>

text \<open>The first gate of a new scope: no unresolved receipt, except live loans for a public stop.\<close>

definition scope_admission :: "'b text_codec \<Rightarrow> 'b ios \<Rightarrow> ScopeKind \<Rightarrow> 'b broker \<Rightarrow>
    (StoreError, unit) result \<times> 'b broker" where
  "scope_admission tx ios k br =
     (if is_public_stop k then
        if list_ex (\<lambda>(_, s). is_public_stop (sc_kind s)) (scopes br) then (Err Conflict, br)
        else (case safety_admission tx (ios 0) br None of
            (Err e, br') \<Rightarrow> (Err e, br')
          | (Ok a, br') \<Rightarrow> if blocking a then (Err Conflict, br') else (Ok (), br'))
      else (case view_admission tx (ios 0) (store br) of
          Err e \<Rightarrow> (Err e, br)
        | Ok a \<Rightarrow> if blocking a then (Err Conflict, br) else (Ok (), br)))"

text \<open>The second: one Take at a time, with room for its start and its stop.\<close>

definition take_admission :: "'b ios \<Rightarrow> ScopeKind \<Rightarrow> 'b broker \<Rightarrow> (StoreError, unit) result" where
  "take_admission ios k br =
     (if k \<noteq> Take then Ok ()
      else if list_ex (\<lambda>(_, s). sc_kind s = Take) (scopes br) then Err InventoryLimit
      else and_then (capacity_used (ios 1) (store br)) (\<lambda>used.
        if used + 2 > MAX_RECEIPTS then Err InventoryLimit else Ok ()))"

definition open_scope :: "'b text_codec \<Rightarrow> 'b ios \<Rightarrow> ScopeKind \<Rightarrow> 'b broker \<Rightarrow>
    (StoreError, u64) result \<times> 'b broker" where
  "open_scope tx ios k br =
     (if br_poisoned br then (Err DurabilityUncertain, br)
      else if length (scopes br) \<ge> MAX_SCOPES then (Err Conflict, br)
      else (case scope_admission tx ios k br of (Err e, br1) \<Rightarrow> (Err e, br1) | (Ok _, br1) \<Rightarrow>
        (case take_admission ios k br1 of Err e \<Rightarrow> (Err e, br1) | Ok _ \<Rightarrow>
          (case checked_add (next_id br1) 1 of None \<Rightarrow> (Err IdentityExhausted, br1) | Some n \<Rightarrow>
            (Ok n, br1\<lparr>next_id := n,
               scopes := upd n \<lparr>sc_kind = k, sc_ids = [], stop_reserved = (k = Take)\<rparr> (scopes br1)\<rparr>)))))"

definition drop_port :: "u64 \<Rightarrow> 'b broker \<Rightarrow> 'b broker" where
  "drop_port n br = br\<lparr>scopes := del n (scopes br)\<rparr>"

definition into_store :: "bool \<Rightarrow> 'b broker \<Rightarrow> 'b broker + 'b backend" where
  "into_store sole br = (if sole \<and> \<not> br_poisoned br then Inr (store br) else Inl br)"

section \<open>The dispatch fence\<close>

definition fence_scope :: "u64 \<Rightarrow> 'b broker \<Rightarrow> (StoreError, scope) result" where
  "fence_scope n br =
     (if br_poisoned br then Err DurabilityUncertain
      else (case map_of (scopes br) n of None \<Rightarrow> Err Conflict | Some s \<Rightarrow> Ok s))"

definition is_kind :: "ScopeKind \<Rightarrow> u64 \<Rightarrow> 'b broker \<Rightarrow> (StoreError, bool) result" where
  "is_kind k n br = and_then (fence_scope n br) (\<lambda>s. Ok (sc_kind s = k))"

definition safety_stop_kind :: "u64 \<Rightarrow> 'b broker \<Rightarrow> (StoreError, SafetyStopRequest option) result" where
  "safety_stop_kind n br = and_then (fence_scope n br) (\<lambda>s.
     Ok (case sc_kind s of SafetyStop k \<Rightarrow> Some k | _ \<Rightarrow> None))"

definition fence_admission :: "'b text_codec \<Rightarrow> 'b ios \<Rightarrow> u64 \<Rightarrow> 'b broker \<Rightarrow>
    (StoreError, admission) result \<times> 'b broker" where
  "fence_admission tx ios n br = (case fence_scope n br of Err e \<Rightarrow> (Err e, br) | Ok s \<Rightarrow>
     if is_public_stop (sc_kind s) then safety_admission tx (ios 0) br None
     else (view_admission tx (ios 0) (store br), br))"

definition permits :: "'b text_codec \<Rightarrow> 'b ios \<Rightarrow> u64 \<Rightarrow> string \<Rightarrow> 'b broker \<Rightarrow>
    (StoreError, bool) result \<times> 'b broker" where
  "permits tx ios n own br =
     (if br_poisoned br then (Err DurabilityUncertain, br)
      else (case map_of (scopes br) n of None \<Rightarrow> (Err Conflict, br) | Some s \<Rightarrow>
        if own \<notin> set (sc_ids s) then (Err Conflict, br)
        else if is_public_stop (sc_kind s) then
          (case safety_admission tx (ios 0) br (Some own) of (res, br') \<Rightarrow>
            (and_then res (\<lambda>a. Ok (\<not> blocking a)), br'))
        else (and_then (is_dispatching tx (ios 0) (store br) own) (\<lambda>d.
            if \<not> d then Ok False
            else and_then (admission_except tx (ios 1) (store br) (Some own)) (\<lambda>a.
              Ok (\<not> blocking a))), br)))"

section \<open>Ports\<close>

text \<open>\<open>ReceiptPort::apply\<close>: an error that leaves the state of the directory in doubt poisons.\<close>

definition doubtful :: "StoreError \<Rightarrow> bool" where
  "doubtful e \<longleftrightarrow> e \<in> {DurabilityUncertain, Unavailable, UnsafePath, Corrupt}"

definition port_apply :: "'b text_codec \<Rightarrow> 'b view_io \<Rightarrow> (StoreError, 'r) result \<times> 'b broker \<Rightarrow>
    (StoreError, 'r) result \<times> 'b broker" where
  "port_apply tx io out = (case out of
     (Ok r, br) \<Rightarrow> (Ok r, br)
   | (Err e, br) \<Rightarrow> (Err e,
       if doubtful e \<or> \<not> is_ok (view_admission tx io (store br)) then poison br else br))"

definition safety_kind :: "SafetyStopRequest \<Rightarrow> GenericKind" where
  "safety_kind k = (case k of Stream \<Rightarrow> StreamStop | VirtualCam \<Rightarrow> VirtualCamStop
     | ReplayBuffer \<Rightarrow> ReplayBufferStop)"

fun scope_matches_generic :: "ScopeKind \<Rightarrow> GenericKind \<Rightarrow> bool" where
  "scope_matches_generic (GenericScope expected) k \<longleftrightarrow> expected = k"
| "scope_matches_generic (SafetyStop expected) k \<longleftrightarrow> safety_kind expected = k"
| "scope_matches_generic ManualRecordStopScope k \<longleftrightarrow> k = ManualRecordStop"
| "scope_matches_generic _ k \<longleftrightarrow> False"

fun scope_matches_operation :: "ScopeKind \<Rightarrow> OperationKind \<Rightarrow> bool" where
  "scope_matches_operation Take k \<longleftrightarrow> k = RecordStart \<or> k = RecordStop"
| "scope_matches_operation CriticalRecord k \<longleftrightarrow> k = RecordStart \<or> k = RecordStop"
| "scope_matches_operation Stage k \<longleftrightarrow> k = StageScene \<or> k = TakeScene"
| "scope_matches_operation _ k \<longleftrightarrow> False"

definition reserved :: "'b broker \<Rightarrow> nat" where
  "reserved br = length (filter (\<lambda>(_, s). stop_reserved s) (scopes br))"

definition insert_id :: "string \<Rightarrow> string list \<Rightarrow> string list" where
  "insert_id i ids = (if i \<in> set ids then ids else i # ids)"

text \<open>The result of a store operation, back in the broker; on success the scope is updated.\<close>

definition in_store :: "'b broker \<Rightarrow> (StoreError, 'r) result \<times> 'b backend \<Rightarrow> u64 \<Rightarrow> scope \<Rightarrow>
    (StoreError, 'r) result \<times> 'b broker" where
  "in_store br out n s = (case out of
     (Err e, b) \<Rightarrow> (Err e, br\<lparr>store := b\<rparr>)
   | (Ok r, b) \<Rightarrow> (Ok r, br\<lparr>store := b, scopes := upd n s (scopes br)\<rparr>))"

definition room_for :: "'b view_io \<Rightarrow> nat \<Rightarrow> scope \<Rightarrow> 'b broker \<Rightarrow> (StoreError, unit) result" where
  "room_for io extra s br = and_then (capacity_used io (store br)) (\<lambda>used.
     if used + reserved br + extra > MAX_RECEIPTS then Err InventoryLimit
     else if length (sc_ids s) \<ge> MAX_RECEIPTS then Err InventoryLimit else Ok ())"

text \<open>A Take that starts again needs room for its stop again; a stop uses the room reserved for it.\<close>

definition restarting :: "OperationKind \<Rightarrow> scope \<Rightarrow> bool" where
  "restarting k s \<longleftrightarrow> sc_kind s = Take \<and> k = RecordStart \<and> \<not> stop_reserved s"

definition receipts_needed :: "OperationKind \<Rightarrow> scope \<Rightarrow> nat" where
  "receipts_needed k s =
     1 - (if k = RecordStop \<and> stop_reserved s then 1 else 0) + (if restarting k s then 1 else 0)"

definition reserved_after :: "OperationKind \<Rightarrow> scope \<Rightarrow> bool" where
  "reserved_after k s =
     (if k = RecordStop then False else if restarting k s then True else stop_reserved s)"

definition port_prepare :: "'b text_codec \<Rightarrow> 'b ios \<Rightarrow> 'b persist_io \<Rightarrow> (string \<Rightarrow> string) \<Rightarrow> u64 \<Rightarrow> string \<Rightarrow>
    OperationKind \<Rightarrow> u64 \<Rightarrow> string \<Rightarrow> PrepareDetails \<Rightarrow> 'b broker \<Rightarrow>
    (StoreError, OperationRecord) result \<times> 'b broker" where
  "port_prepare tx ios pio hash n oid k gen t d br = port_apply tx (ios 1)
     (case map_of (scopes br) n of None \<Rightarrow> (Err Conflict, br) | Some s \<Rightarrow>
        if \<not> scope_matches_operation (sc_kind s) k then (Err Conflict, br)
        else if br_poisoned br \<and> k \<noteq> RecordStop then (Err DurabilityUncertain, br)
        else (case room_for (ios 0) (receipts_needed k s) s br of Err e \<Rightarrow> (Err e, br) | Ok _ \<Rightarrow>
          in_store br (prepare tx pio hash oid k gen t d (store br)) n
            (s\<lparr>sc_ids := insert_id oid (sc_ids s), stop_reserved := reserved_after k s\<rparr>)))"

definition owns :: "'b broker \<Rightarrow> u64 \<Rightarrow> (ScopeKind \<Rightarrow> bool) \<Rightarrow> string \<Rightarrow> bool" where
  "owns br n P oid = (case map_of (scopes br) n of None \<Rightarrow> False
     | Some s \<Rightarrow> P (sc_kind s) \<and> oid \<in> set (sc_ids s))"

text \<open>An update through a port: the scope owns the receipt; the store decides the rest.\<close>

definition port_store :: "'b broker \<Rightarrow> (StoreError, 'r) result \<times> 'b backend \<Rightarrow>
    (StoreError, 'r) result \<times> 'b broker" where
  "port_store br out = (fst out, br\<lparr>store := snd out\<rparr>)"

definition port_update :: "'b text_codec \<Rightarrow> 'b ios \<Rightarrow> 'b persist_io \<Rightarrow> u64 \<Rightarrow> OperationRecord \<Rightarrow>
    OperationUpdate \<Rightarrow> string \<Rightarrow> 'b broker \<Rightarrow> (StoreError, OperationRecord) result \<times> 'b broker" where
  "port_update tx ios pio n r u t br = port_apply tx (ios 1)
     (if \<not> owns br n (\<lambda>_. True) (operation_id r) then (Err Conflict, br)
      else port_store br (update tx (ios 0) pio r u t (store br)))"

definition port_prepare_generic :: "'b text_codec \<Rightarrow> 'b ios \<Rightarrow> 'b persist_io \<Rightarrow> u64 \<Rightarrow> string \<Rightarrow>
    GenericKind \<Rightarrow> u64 \<Rightarrow> string \<Rightarrow> 'b broker \<Rightarrow> (StoreError, GenericRecord) result \<times> 'b broker" where
  "port_prepare_generic tx ios pio n oid k gen t br = port_apply tx (ios 2)
     (case map_of (scopes br) n of None \<Rightarrow> (Err Conflict, br) | Some s \<Rightarrow>
        if \<not> scope_matches_generic (sc_kind s) k then (Err Conflict, br)
        else if br_poisoned br then (Err DurabilityUncertain, br)
        else (case (if is_public_stop (sc_kind s)
                 then (case safety_admission tx (ios 0) br None of
                     (Err e, br') \<Rightarrow> (Err e, br')
                   | (Ok a, br') \<Rightarrow> if blocking a then (Err Conflict, br') else (Ok (), br'))
                 else (Ok (), br)) of
            (Err e, br') \<Rightarrow> (Err e, br')
          | (Ok _, br') \<Rightarrow> (case room_for (ios 1) 1 s br' of Err e \<Rightarrow> (Err e, br') | Ok _ \<Rightarrow>
              in_store br' (prepare_generic tx pio oid k gen t (store br')) n
                (s\<lparr>sc_ids := insert_id oid (sc_ids s)\<rparr>))))"

definition port_update_generic :: "'b text_codec \<Rightarrow> 'b ios \<Rightarrow> 'b persist_io \<Rightarrow> u64 \<Rightarrow> GenericRecord \<Rightarrow>
    GenericPhase \<Rightarrow> string \<Rightarrow> 'b broker \<Rightarrow> (StoreError, GenericRecord) result \<times> 'b broker" where
  "port_update_generic tx ios pio n r p t br = port_apply tx (ios 1)
     (if \<not> owns br n (\<lambda>k. scope_matches_generic k (g_request_type r)) (operation_id r)
      then (Err Conflict, br)
      else port_store br (update_generic tx (ios 0) pio r p t (store br)))"

text \<open>The preparation of the three workflow families: the scope is of the family's kind.\<close>

definition workflow_prepare :: "'b text_codec \<Rightarrow> 'b ios \<Rightarrow> u64 \<Rightarrow> ScopeKind \<Rightarrow> string \<Rightarrow>
    ('b backend \<Rightarrow> (StoreError, 'r) result \<times> 'b backend) \<Rightarrow> 'b broker \<Rightarrow>
    (StoreError, 'r) result \<times> 'b broker" where
  "workflow_prepare tx ios n kd oid prep br = port_apply tx (ios 1)
     (case map_of (scopes br) n of None \<Rightarrow> (Err Conflict, br) | Some s \<Rightarrow>
        if sc_kind s \<noteq> kd then (Err Conflict, br)
        else if br_poisoned br then (Err DurabilityUncertain, br)
        else (case room_for (ios 0) 1 s br of Err e \<Rightarrow> (Err e, br) | Ok _ \<Rightarrow>
          in_store br (prep (store br)) n (s\<lparr>sc_ids := insert_id oid (sc_ids s)\<rparr>)))"

definition workflow_update :: "'b text_codec \<Rightarrow> 'b ios \<Rightarrow> u64 \<Rightarrow> ScopeKind \<Rightarrow> string \<Rightarrow>
    ('b backend \<Rightarrow> (StoreError, 'r) result \<times> 'b backend) \<Rightarrow> 'b broker \<Rightarrow>
    (StoreError, 'r) result \<times> 'b broker" where
  "workflow_update tx ios n kd oid upd_op br = port_apply tx (ios 1)
     (if \<not> owns br n (\<lambda>k. k = kd) oid then (Err Conflict, br)
      else port_store br (upd_op (store br)))"

definition port_prepare_restore :: "'b text_codec \<Rightarrow> 'b ios \<Rightarrow> 'b persist_io \<Rightarrow> u64 \<Rightarrow> string \<Rightarrow> u64 \<Rightarrow> u64 \<Rightarrow>
    string \<Rightarrow> 'b broker \<Rightarrow> (StoreError, RestoreRecord) result \<times> 'b broker" where
  "port_prepare_restore tx ios pio n oid gen m t br =
     workflow_prepare tx ios n RestoreBatch oid (prepare_restore tx pio oid gen m t) br"

definition port_update_restore :: "'b text_codec \<Rightarrow> 'b ios \<Rightarrow> 'b persist_io \<Rightarrow> u64 \<Rightarrow> RestoreRecord \<Rightarrow>
    RestorePhase \<Rightarrow> RestoreCounts option \<Rightarrow> string \<Rightarrow> 'b broker \<Rightarrow>
    (StoreError, RestoreRecord) result \<times> 'b broker" where
  "port_update_restore tx ios pio n r p c t br =
     workflow_update tx ios n RestoreBatch (operation_id r) (update_restore tx (ios 0) pio r p c t) br"

definition port_prepare_capture :: "'b text_codec \<Rightarrow> 'b ios \<Rightarrow> 'b persist_io \<Rightarrow> u64 \<Rightarrow> string \<Rightarrow> u64 \<Rightarrow>
    CapturePlan \<Rightarrow> string \<Rightarrow> 'b broker \<Rightarrow> (StoreError, CaptureRecord) result \<times> 'b broker" where
  "port_prepare_capture tx ios pio n oid gen plan t br =
     workflow_prepare tx ios n CaptureWindow oid (prepare_capture tx pio oid gen plan t) br"

definition port_update_capture :: "'b text_codec \<Rightarrow> 'b ios \<Rightarrow> 'b persist_io \<Rightarrow> u64 \<Rightarrow> CaptureRecord \<Rightarrow>
    CaptureUpdate \<Rightarrow> string \<Rightarrow> 'b broker \<Rightarrow> (StoreError, CaptureRecord) result \<times> 'b broker" where
  "port_update_capture tx ios pio n r u t br =
     workflow_update tx ios n CaptureWindow (operation_id r) (update_capture tx (ios 0) pio r u t) br"

definition port_prepare_apply :: "'b text_codec \<Rightarrow> 'b ios \<Rightarrow> 'b persist_io \<Rightarrow> u64 \<Rightarrow> string \<Rightarrow> u64 \<Rightarrow> u64 \<Rightarrow>
    string \<Rightarrow> 'b broker \<Rightarrow> (StoreError, ApplyRecord) result \<times> 'b broker" where
  "port_prepare_apply tx ios pio n oid gen m t br =
     workflow_prepare tx ios n ApplyScene oid (prepare_apply tx pio oid gen m t) br"

definition port_update_apply :: "'b text_codec \<Rightarrow> 'b ios \<Rightarrow> 'b persist_io \<Rightarrow> u64 \<Rightarrow> ApplyRecord \<Rightarrow>
    ApplyUpdate \<Rightarrow> string \<Rightarrow> 'b broker \<Rightarrow> (StoreError, ApplyRecord) result \<times> 'b broker" where
  "port_update_apply tx ios pio n r u t br =
     workflow_update tx ios n ApplyScene (operation_id r) (update_apply tx (ios 0) pio r u t) br"

section \<open>What the store's operations do to the receipt files\<close>

definition entries_kept :: "'b backend \<Rightarrow> 'b backend \<Rightarrow> bool" where
  "entries_kept b b' \<longleftrightarrow> (distinct (keys (disk b)) \<longrightarrow> distinct (keys (disk b'))) \<and>
     (poisoned b \<longrightarrow> poisoned b')"

definition receipts_of :: "'b backend \<Rightarrow> string set" where
  "receipts_of b = dom (json_files b)"

text \<open>A preparation adds the named receipt, an update adds none; an error other than
  \<open>DurabilityUncertain\<close> changes nothing.\<close>

definition enters :: "string \<Rightarrow> ('b backend \<Rightarrow> (StoreError, 'r) result \<times> 'b backend) \<Rightarrow> bool" where
  "enters oid f \<longleftrightarrow> (\<forall>b res b'. f b = (res, b') \<longrightarrow> entries_kept b b' \<and>
     ((\<exists>e. res = Err e \<and> e \<noteq> DurabilityUncertain) \<and> receipts_of b' = receipts_of b \<or>
      ((\<exists>r. res = Ok r) \<or> res = Err DurabilityUncertain) \<and> receipt_name oid \<notin> receipts_of b \<and>
      receipts_of b' = insert (receipt_name oid) (receipts_of b)))"

definition replaces :: "('b backend \<Rightarrow> (StoreError, 'r) result \<times> 'b backend) \<Rightarrow> bool" where
  "replaces f \<longleftrightarrow> (\<forall>b res b'. f b = (res, b') \<longrightarrow> entries_kept b b' \<and> receipts_of b' = receipts_of b)"

lemma ensure_layout_entries: "ensure_layout io b = (res, b') \<Longrightarrow> entries_kept b b'"
  using ensure_layout_keeps [of io b res b'] by (simp add: entries_kept_def)

lemma publish_entries:
  assumes "publish io oid bytes b = (res, b')"
  shows "entries_kept b b'"
proof -
  have "distinct (keys (disk b)) \<Longrightarrow> distinct (keys (disk b'))"
    using assms by (auto simp: publish_def Let_def drop_staged_def split: if_splits sum.splits)
  with publish_keeps(2) [OF assms] show ?thesis by (auto simp: entries_kept_def)
qed

lemma entries_kept_trans: "entries_kept a b \<Longrightarrow> entries_kept b c \<Longrightarrow> entries_kept a c"
  by (simp add: entries_kept_def)

lemma entries_kept_refl [simp]: "entries_kept b b"
  by (simp add: entries_kept_def)

lemma entries_kept_sequence [simp]: "entries_kept (b\<lparr>sequence := n\<rparr>) c = entries_kept b c"
  by (simp add: entries_kept_def)

lemma persist_value_entries:
  assumes "persist_value tx io oid v replacing b = (res, b')"
  shows "entries_kept b b'"
proof -
  obtain r1 b1 where e: "ensure_layout io b = (r1, b1)" by (cases "ensure_layout io b")
  have "b' = b \<or> b' = b1 \<or> (\<exists>bytes n. publish io oid bytes (b1\<lparr>sequence := n\<rparr>) = (res, b'))"
    using assms e by (auto simp: persist_value_def split: option.splits if_splits sum.splits)
  then show ?thesis
    using ensure_layout_entries [OF e] publish_entries entries_kept_trans
    by (metis entries_kept_refl entries_kept_sequence)
qed

lemma persist_value_receipts:
  assumes "persist_value tx io oid v replacing b = (res, b')"
  shows "(\<exists>e. res = Err e \<and> e \<noteq> DurabilityUncertain) \<and> receipts_of b' = receipts_of b \<or>
    (res = Ok () \<or> res = Err DurabilityUncertain) \<and>
    (replacing \<longleftrightarrow> receipt_name oid \<in> receipts_of b) \<and>
    receipts_of b' = insert (receipt_name oid) (receipts_of b)"
  using persist_value_cases [OF assms]
  by (auto simp: receipts_of_def unpublished_def published_def)

lemma enters_pattern:
  assumes "\<And>b. chk b \<noteq> Err DurabilityUncertain"
  shows "enters oid (\<lambda>b. case chk b of Err e \<Rightarrow> (Err e, b)
    | Ok r \<Rightarrow> returning r (persist_value tx io oid (val r) False b))"
  unfolding enters_def
proof (intro allI impI)
  fix b res b'
  assume *: "(case chk b of Err e \<Rightarrow> (Err e, b)
    | Ok r \<Rightarrow> returning r (persist_value tx io oid (val r) False b)) = (res, b')"
  show "entries_kept b b' \<and>
     ((\<exists>e. res = Err e \<and> e \<noteq> DurabilityUncertain) \<and> receipts_of b' = receipts_of b \<or>
      ((\<exists>r. res = Ok r) \<or> res = Err DurabilityUncertain) \<and> receipt_name oid \<notin> receipts_of b \<and>
      receipts_of b' = insert (receipt_name oid) (receipts_of b))"
  proof (cases "chk b")
    case (Inl e)
    with * have "res = Err e \<and> b' = b" by simp
    moreover from assms [of b] Inl have "e \<noteq> DurabilityUncertain" by auto
    ultimately show ?thesis by simp
  next
    case (Inr r)
    with * obtain out where out: "persist_value tx io oid (val r) False b = (out, b')"
        "res = and_then out (\<lambda>_. Ok r)"
      by (auto simp: returning_eq)
    from persist_value_receipts [OF out(1)] persist_value_entries [OF out(1)] out(2) show ?thesis
      by auto
  qed
qed

lemma prepare_enters:
  "enters oid (prepare tx io hash oid k gen t d)" "enters oid (prepare_generic tx io oid gk gen t)"
  "enters oid (prepare_restore tx io oid gen n t)" "enters oid (prepare_apply tx io oid gen n t)"
  "enters oid (prepare_capture tx io oid gen plan t)"
proof -
  let ?chk = "\<lambda>b. if \<not> valid_uuid oid then Err InvalidIdentifier
    else if \<not> valid_timestamp t then Err InvalidTimestamp
    else checked (prepared_record hash (b_endpoint b) oid k gen t d)"
  have "prepare tx io hash oid k gen t d = (\<lambda>b. case ?chk b of Err e \<Rightarrow> (Err e, b)
    | Ok r \<Rightarrow> returning r (persist_value tx io oid (operation_value r) False b))"
  proof
    fix b
    show "prepare tx io hash oid k gen t d b = (case ?chk b of Err e \<Rightarrow> (Err e, b)
      | Ok r \<Rightarrow> returning r (persist_value tx io oid (operation_value r) False b))"
      using checked_cases(1) [of "prepared_record hash (b_endpoint b) oid k gen t d"]
      by (auto simp: prepare_def persist_def check_endpoint_def prepared_record_def
          simp del: checked_Ok_iff)
  qed
  then show "enters oid (prepare tx io hash oid k gen t d)"
    using enters_pattern [of ?chk oid tx io operation_value] checked_certain(1) by simp
  show "enters oid (prepare_generic tx io oid gk gen t)"
    unfolding prepare_generic_def [abs_def] by (rule enters_pattern) (rule checked_certain)
  show "enters oid (prepare_restore tx io oid gen n t)"
    unfolding prepare_restore_def [abs_def] by (rule enters_pattern) (rule checked_certain)
  show "enters oid (prepare_apply tx io oid gen n t)"
    unfolding prepare_apply_def [abs_def] by (rule enters_pattern) (rule checked_certain)
  show "enters oid (prepare_capture tx io oid gen plan t)"
    unfolding prepare_capture_def [abs_def] by (rule enters_pattern) (rule checked_certain)
qed

context store_family
begin

lemma update_replaces: "replaces (update_op tx vio io r u t)"
  unfolding replaces_def
proof (intro allI impI)
  fix b res b'
  assume "update_op tx vio io r u t b = (res, b')"
  from update_writes [OF this] show "entries_kept b b' \<and> receipts_of b' = receipts_of b"
  proof (elim disjE exE conjE)
    fix r' out
    assume "persist_value tx io (stored_id (wrap r)) (stored_value (wrap r')) True b = (out, b')"
    from persist_value_receipts [OF this] persist_value_entries [OF this] show ?thesis by auto
  qed simp
qed

lemma update_certain:
  "update_op tx vio io r u t b = (Err e, b') \<Longrightarrow> e \<noteq> DurabilityUncertain \<Longrightarrow> json_files b' = json_files b"
  by (drule update_writes) (auto dest!: persist_value_cases simp: unpublished_def published_def)

end

lemmas store_replaces = operation.update_replaces generic.update_replaces applied.update_replaces
  captured.update_replaces

lemma restore_replaces: "replaces (update_restore tx vio io r p c t)"
  using restore.update_replaces [of tx vio io r "(p, c)" t] by simp

section \<open>Effects\<close>

text \<open>Everything a call of the broker can do, in terms of the receipt files and the scopes.\<close>

inductive effect :: "'b broker \<Rightarrow> 'b broker \<Rightarrow> bool" for br where
  same: "effect br br"
| grant: "length (scopes br) < MAX_SCOPES \<Longrightarrow> next_id br < n \<Longrightarrow> \<not> br_poisoned br \<Longrightarrow>
    (k = Take \<longrightarrow> \<not> list_ex (\<lambda>(_, s). sc_kind s = Take) (scopes br) \<and>
      card (receipts_of (store br)) + 2 \<le> MAX_RECEIPTS) \<Longrightarrow>
    (is_public_stop k \<longrightarrow> \<not> list_ex (\<lambda>(_, s). is_public_stop (sc_kind s)) (scopes br)) \<Longrightarrow>
    effect br (br\<lparr>next_id := n,
      scopes := upd n \<lparr>sc_kind = k, sc_ids = [], stop_reserved = (k = Take)\<rparr> (scopes br)\<rparr>)"
| remove: "effect br (drop_port n br)"
| unchanged: "entries_kept (store br) b' \<Longrightarrow> receipts_of b' = receipts_of (store br) \<Longrightarrow>
    effect br (br\<lparr>store := b'\<rparr>)"
| doubt: "entries_kept (store br) b' \<Longrightarrow> receipts_of (store br) \<subseteq> receipts_of b' \<Longrightarrow>
    effect br (poison (br\<lparr>store := b'\<rparr>))"
| entered: "map_of (scopes br) n = Some s \<Longrightarrow> entries_kept (store br) b' \<Longrightarrow>
    receipts_of b' = insert (receipt_name oid) (receipts_of (store br)) \<Longrightarrow>
    sc_kind s' = sc_kind s \<Longrightarrow> sc_ids s' = insert_id oid (sc_ids s) \<Longrightarrow>
    (stop_reserved s' \<longrightarrow> stop_reserved s \<or> sc_kind s = Take) \<Longrightarrow>
    br' = br\<lparr>store := b', scopes := upd n s' (scopes br)\<rparr> \<Longrightarrow>
    card (receipts_of b') + reserved br' \<le> MAX_RECEIPTS \<Longrightarrow> effect br br'"
| poisons: "effect br br' \<Longrightarrow> effect br (poison br')"

text \<open>A listing that shows the directory as it is; a directory seen as absent holds nothing.\<close>

definition truthful :: "'b view_io \<Rightarrow> 'b backend \<Rightarrow> bool" where
  "truthful io b \<longleftrightarrow> quiet io \<and> (view_layout b (layout_start io) = Ok False \<longrightarrow> receipts_of b = {})"

lemma count_names_Ok:
  "count_names (map Ok ns) n = Ok m \<Longrightarrow> m = n + length (filter (\<lambda>x. ends_with x ''.json'') ns)"
proof (induction ns arbitrary: n)
  case (Cons x ns)
  from Cons.prems Cons.IH [of n] Cons.IH [of "Suc n"] show ?case by (simp split: if_splits)
qed simp

lemma receipts_of_keys:
  assumes "distinct (keys (disk b))"
  shows "receipts_of b = set (filter (\<lambda>x. ends_with x ''.json'') (keys (disk b)))"
    and "card (receipts_of b) = length (filter (\<lambda>x. ends_with x ''.json'') (keys (disk b)))"
proof -
  have "n \<in> receipts_of b \<longleftrightarrow> n \<in> set (keys (disk b)) \<and> ends_with n ''.json''" for n
    using map_of_eq_None_iff [of "disk b" n]
    by (auto simp: receipts_of_def json_files_def keys_def dom_def split: if_splits)
  then show "receipts_of b = set (filter (\<lambda>x. ends_with x ''.json'') (keys (disk b)))" by auto
  then show "card (receipts_of b) = length (filter (\<lambda>x. ends_with x ''.json'') (keys (disk b)))"
    using assms by (simp only: distinct_card distinct_filter)
qed

lemma capacity_used_exact:
  assumes "truthful io b" and "distinct (keys (disk b))" and "capacity_used io b = Ok n"
  shows "n = card (receipts_of b)"
proof -
  from assms(3) obtain present where present: "view_layout b (layout_start io) = Ok present"
    by (auto simp: capacity_used_def)
  show ?thesis
  proof (cases present)
    case True
    with assms present count_names_Ok [of "keys (disk b)" 0] receipts_of_keys(2) [OF assms(2)]
    show ?thesis by (auto simp: capacity_used_def truthful_def quiet_def seen_names_def split: if_splits)
  next
    case False
    with assms present show ?thesis by (simp add: capacity_used_def truthful_def)
  qed
qed

lemma count_filter_upd:
  "map_of xs k = Some v0 \<Longrightarrow>
     length (filter P (upd k v xs)) + (if P (k, v0) then 1 else 0) =
     length (filter P xs) + (if P (k, v) then 1 else 0)"
  by (induction k v xs rule: upd.induct) (auto split: if_splits)

lemma count_filter_upd_new:
  "map_of xs k = None \<Longrightarrow>
     length (filter P (upd k v xs)) = length (filter P xs) + (if P (k, v) then 1 else 0)"
  by (induction k v xs rule: upd.induct) (auto split: if_splits)

lemma reserved_upd:
  assumes "map_of (scopes br) n = Some s"
  shows "reserved (br\<lparr>store := b, scopes := upd n s' (scopes br)\<rparr>) + (if stop_reserved s then 1 else 0) =
    reserved br + (if stop_reserved s' then 1 else 0)"
  using count_filter_upd [OF assms, of "\<lambda>(_, s). stop_reserved s" s'] by (simp add: reserved_def)

section \<open>Every call is an effect\<close>

lemma safety_admission_effect:
  assumes "safety_admission tx io br own = (res, br')"
  shows "br' = br \<or> br' = poison br \<and> (\<exists>e. res = Err e)"
proof -
  have "snd (safety_admission tx io br own) = br \<or> snd (safety_admission tx io br own) = poison br \<and>
      (\<exists>e. fst (safety_admission tx io br own) = Err e)"
    by (cases "admission_with_live_ids tx io (store br) own (live_ids br)")
      (simp_all add: safety_admission_def)
  with assms show ?thesis by simp
qed

lemma open_scope_effect:
  assumes "open_scope tx ios k br = (res, br')" and "\<And>i. truthful (ios i) (store br)"
    and "distinct (keys (disk (store br)))"
  shows "effect br br'"
proof (cases "scope_admission tx ios k br")
  case (Pair adm br1)
  have br1: "br1 = br \<or> br1 = poison br \<and> (\<exists>e. adm = Err e)"
    using Pair safety_admission_effect [of tx "ios 0" br None]
    by (auto simp: scope_admission_def split: if_splits sum.splits prod.splits)
  show ?thesis
  proof (cases "\<exists>n. res = Ok n")
    case True
    then obtain n u u' where ok: "\<not> br_poisoned br" "length (scopes br) < MAX_SCOPES" "adm = Ok u"
        "take_admission ios k br1 = Ok u'" "checked_add (next_id br1) 1 = Some n"
        and br': "br' = br1\<lparr>next_id := n,
          scopes := upd n \<lparr>sc_kind = k, sc_ids = [], stop_reserved = (k = Take)\<rparr> (scopes br1)\<rparr>"
      using assms(1) Pair
      by (auto simp: open_scope_def split: if_splits sum.splits option.splits)
    from br1 ok(3) have [simp]: "br1 = br" by auto
    have take: "k = Take \<longrightarrow> \<not> list_ex (\<lambda>(_, s). sc_kind s = Take) (scopes br) \<and>
        card (receipts_of (store br)) + 2 \<le> MAX_RECEIPTS"
      using ok(4) capacity_used_exact [OF assms(2) assms(3), of 1]
      by (auto simp: take_admission_def split: if_splits)
    have public: "is_public_stop k \<longrightarrow> \<not> list_ex (\<lambda>(_, s). is_public_stop (sc_kind s)) (scopes br)"
      using Pair ok(3) by (auto simp: scope_admission_def split: if_splits)
    from effect.grant [OF ok(2) checked_add_one [OF ok(5), simplified] ok(1) take public] show ?thesis
      by (simp add: br')
  next
    case False
    then have "br' = br \<or> br' = br1"
      using assms(1) Pair by (auto simp: open_scope_def split: if_splits sum.splits option.splits)
    with br1 show ?thesis by (auto intro: effect.same effect.poisons)
  qed
qed

text \<open>The outcome of the inner action of a port: an effect, at the latest once it is poisoned.\<close>

definition settles :: "'b broker \<Rightarrow> (StoreError, 'r) result \<times> 'b broker \<Rightarrow> bool" where
  "settles br out \<longleftrightarrow> effect br (poison (snd out)) \<and>
     (fst out \<noteq> Err DurabilityUncertain \<longrightarrow> effect br (snd out))"

lemma settles_same [simp]: "settles br (res, br)"
  by (simp add: settles_def effect.same effect.poisons)

lemma port_apply_effect:
  assumes "settles br out"
  shows "effect br (snd (port_apply tx io out))"
proof (cases out)
  case (Pair res br1)
  with assms show ?thesis
    by (cases res) (auto simp: settles_def port_apply_def doubtful_def)
qed

lemma room_for_Ok:
  assumes "room_for io extra s br = Ok u" and "truthful io (store br)" and "distinct (keys (disk (store br)))"
  shows "card (receipts_of (store br)) + reserved br + extra \<le> MAX_RECEIPTS"
  using assms(1) capacity_used_exact [OF assms(2,3)] by (auto simp: room_for_def split: if_splits)

lemma in_store_settles:
  assumes "enters oid f" and "map_of (scopes br) n = Some s" and "sc_kind s' = sc_kind s"
    and "sc_ids s' = insert_id oid (sc_ids s)" and "stop_reserved s' \<longrightarrow> stop_reserved s \<or> sc_kind s = Take"
    and "card (receipts_of (store br)) + 1 + reserved br + (if stop_reserved s' then 1 else 0) \<le>
      MAX_RECEIPTS + (if stop_reserved s then 1 else 0)"
  shows "settles br (in_store br (f (store br)) n s')"
proof -
  obtain res b' where f: "f (store br) = (res, b')" by (cases "f (store br)")
  with assms(1) have kept: "entries_kept (store br) b'" by (auto simp: enters_def)
  have cases: "(\<exists>e. res = Err e \<and> e \<noteq> DurabilityUncertain) \<and> receipts_of b' = receipts_of (store br) \<or>
      ((\<exists>r. res = Ok r) \<or> res = Err DurabilityUncertain) \<and>
      receipts_of b' = insert (receipt_name oid) (receipts_of (store br))"
    using assms(1) f unfolding enters_def by blast
  let ?br' = "br\<lparr>store := b', scopes := upd n s' (scopes br)\<rparr>"
  have "card (insert (receipt_name oid) (receipts_of (store br))) \<le> Suc (card (receipts_of (store br)))"
    by (rule card_insert_le_m1) simp_all
  then have room: "card (insert (receipt_name oid) (receipts_of (store br))) + reserved ?br' \<le> MAX_RECEIPTS"
    using reserved_upd [OF assms(2), of s' b'] assms(6) by simp
  show ?thesis
  proof (cases res)
    case (Inl e)
    have "receipts_of (store br) \<subseteq> receipts_of b'" using cases by auto
    moreover have "e \<noteq> DurabilityUncertain \<Longrightarrow> receipts_of b' = receipts_of (store br)"
      using cases Inl by auto
    ultimately show ?thesis
      using effect.doubt [OF kept] effect.unchanged [OF kept] Inl f
      by (auto simp: settles_def in_store_def)
  next
    case (Inr r)
    with cases have r: "receipts_of b' = insert (receipt_name oid) (receipts_of (store br))" by auto
    from effect.entered [OF assms(2) kept r assms(3,4,5) refl] room r
    have "effect br ?br'" by simp
    with Inr f show ?thesis by (simp add: settles_def in_store_def effect.poisons)
  qed
qed

lemma port_store_settles:
  assumes "replaces f"
  shows "settles br (port_store br (f (store br)))"
proof -
  have "entries_kept (store br) (snd (f (store br)))" "receipts_of (snd (f (store br))) = receipts_of (store br)"
    using assms by (auto simp: replaces_def prod_eq_iff)
  then show ?thesis
    by (simp add: settles_def port_store_def effect.unchanged effect.poisons)
qed

lemma port_prepare_effect:
  assumes "truthful (ios 0) (store br)" and "distinct (keys (disk (store br)))"
  shows "effect br (snd (port_prepare tx ios pio hash n oid k gen t d br))"
  unfolding port_prepare_def
proof (rule port_apply_effect, cases "map_of (scopes br) n")
  case (Some s)
  let ?s' = "s\<lparr>sc_ids := insert_id oid (sc_ids s), stop_reserved := reserved_after k s\<rparr>"
  have "settles br (in_store br (prepare tx pio hash oid k gen t d (store br)) n ?s')"
    if "room_for (ios 0) (receipts_needed k s) s br = Ok u" for u
    by (rule in_store_settles [OF prepare_enters(1) Some])
      (use room_for_Ok [OF that assms] in
        \<open>auto simp: receipts_needed_def reserved_after_def restarting_def split: if_splits\<close>)
  with Some show "settles br (case map_of (scopes br) n of None \<Rightarrow> (Err Conflict, br) | Some s \<Rightarrow>
        if \<not> scope_matches_operation (sc_kind s) k then (Err Conflict, br)
        else if br_poisoned br \<and> k \<noteq> RecordStop then (Err DurabilityUncertain, br)
        else (case room_for (ios 0) (receipts_needed k s) s br of Err e \<Rightarrow> (Err e, br) | Ok _ \<Rightarrow>
          in_store br (prepare tx pio hash oid k gen t d (store br)) n
            (s\<lparr>sc_ids := insert_id oid (sc_ids s), stop_reserved := reserved_after k s\<rparr>)))"
    by (simp split: sum.split)
qed simp

lemma workflow_prepare_effect:
  assumes "truthful (ios 0) (store br)" and "distinct (keys (disk (store br)))" and "enters oid f"
  shows "effect br (snd (workflow_prepare tx ios n kd oid f br))"
  unfolding workflow_prepare_def
proof (rule port_apply_effect, cases "map_of (scopes br) n")
  case (Some s)
  have "settles br (in_store br (f (store br)) n (s\<lparr>sc_ids := insert_id oid (sc_ids s)\<rparr>))"
    if "room_for (ios 0) 1 s br = Ok u" for u
    by (rule in_store_settles [OF assms(3) Some]) (use room_for_Ok [OF that assms(1,2)] in auto)
  with Some show "settles br (case map_of (scopes br) n of None \<Rightarrow> (Err Conflict, br) | Some s \<Rightarrow>
        if sc_kind s \<noteq> kd then (Err Conflict, br)
        else if br_poisoned br then (Err DurabilityUncertain, br)
        else (case room_for (ios 0) 1 s br of Err e \<Rightarrow> (Err e, br) | Ok _ \<Rightarrow>
          in_store br (f (store br)) n (s\<lparr>sc_ids := insert_id oid (sc_ids s)\<rparr>)))"
    by (simp split: sum.split)
qed simp

lemma workflow_update_effect:
  assumes "replaces f"
  shows "effect br (snd (workflow_update tx ios n kd oid f br))"
  unfolding workflow_update_def
  by (rule port_apply_effect) (simp add: port_store_settles [OF assms])

lemma port_update_effect: "effect br (snd (port_update tx ios pio n r u t br))"
  unfolding port_update_def
  by (rule port_apply_effect) (simp add: port_store_settles store_replaces)

lemma port_update_generic_effect: "effect br (snd (port_update_generic tx ios pio n r p t br))"
  unfolding port_update_generic_def
  by (rule port_apply_effect) (simp add: port_store_settles store_replaces)

lemma port_prepare_generic_effect:
  assumes "truthful (ios 1) (store br)" and "distinct (keys (disk (store br)))"
  shows "effect br (snd (port_prepare_generic tx ios pio n oid k gen t br))"
  unfolding port_prepare_generic_def
proof (rule port_apply_effect, cases "map_of (scopes br) n")
  case (Some s)
  have enter: "settles br (in_store br (prepare_generic tx pio oid k gen t (store br)) n
      (s\<lparr>sc_ids := insert_id oid (sc_ids s)\<rparr>))" if "room_for (ios 1) 1 s br = Ok u" for u
    by (rule in_store_settles [OF prepare_enters(2) Some]) (use room_for_Ok [OF that assms] in auto)
  have poisoned: "settles br (res, poison br)" for res :: "(StoreError, GenericRecord) result"
    by (simp add: settles_def effect.same effect.poisons)
  obtain res br' where sa: "safety_admission tx (ios 0) br None = (res, br')"
    by (cases "safety_admission tx (ios 0) br None")
  note sa' = safety_admission_effect [OF sa]
  show "settles br (case map_of (scopes br) n of None \<Rightarrow> (Err Conflict, br) | Some s \<Rightarrow>
        if \<not> scope_matches_generic (sc_kind s) k then (Err Conflict, br)
        else if br_poisoned br then (Err DurabilityUncertain, br)
        else (case (if is_public_stop (sc_kind s)
                 then (case safety_admission tx (ios 0) br None of
                     (Err e, br') \<Rightarrow> (Err e, br')
                   | (Ok a, br') \<Rightarrow> if blocking a then (Err Conflict, br') else (Ok (), br'))
                 else (Ok (), br)) of
            (Err e, br') \<Rightarrow> (Err e, br')
          | (Ok _, br') \<Rightarrow> (case room_for (ios 1) 1 s br' of Err e \<Rightarrow> (Err e, br') | Ok _ \<Rightarrow>
              in_store br' (prepare_generic tx pio oid k gen t (store br')) n
                (s\<lparr>sc_ids := insert_id oid (sc_ids s)\<rparr>))))"
    using Some enter poisoned sa sa'
    by (cases res; cases "room_for (ios 1) 1 s br") auto
qed simp

lemma fence_effects:
  "effect br (snd (fence_admission tx ios n br))" "effect br (snd (permits tx ios n own br))"
proof -
  have sa: "effect br (snd (safety_admission tx io br own))" for io own
    using safety_admission_effect [of tx io br own]
    by (cases "safety_admission tx io br own") (auto intro: effect.same effect.poisons)
  then show "effect br (snd (fence_admission tx ios n br))"
    by (auto simp: fence_admission_def effect.same split: sum.split)
  from sa show "effect br (snd (permits tx ios n own br))"
    by (auto simp: permits_def effect.same split: option.split prod.split dest: sym)
      (metis snd_conv)
qed

section \<open>The invariant\<close>

definition count_kind :: "(ScopeKind \<Rightarrow> bool) \<Rightarrow> 'b broker \<Rightarrow> nat" where
  "count_kind P br = length (filter (\<lambda>(_, s). P (sc_kind s)) (scopes br))"

definition scopes_ok :: "'b broker \<Rightarrow> bool" where
  "scopes_ok br \<longleftrightarrow> distinct (keys (scopes br)) \<and> length (scopes br) \<le> MAX_SCOPES \<and>
     (\<forall>n \<in> set (keys (scopes br)). n \<le> next_id br) \<and> count_kind (\<lambda>k. k = Take) br \<le> 1 \<and>
     count_kind is_public_stop br \<le> 1 \<and>
     (\<forall>(n, s) \<in> set (scopes br). stop_reserved s \<longrightarrow> sc_kind s = Take)"

definition ids_ok :: "'b broker \<Rightarrow> bool" where
  "ids_ok br \<longleftrightarrow> (\<forall>(n, s) \<in> set (scopes br).
     distinct (sc_ids s) \<and> receipt_name ` set (sc_ids s) \<subseteq> receipts_of (store br))"

definition capacity_ok :: "'b broker \<Rightarrow> bool" where
  "capacity_ok br \<longleftrightarrow> br_poisoned br \<or> reserved br = 0 \<or>
     card (receipts_of (store br)) + reserved br \<le> MAX_RECEIPTS"

definition broker_inv :: "'b broker \<Rightarrow> bool" where
  "broker_inv br \<longleftrightarrow> distinct (keys (disk (store br))) \<and> scopes_ok br \<and> ids_ok br \<and> capacity_ok br \<and>
     (br_poisoned br \<longrightarrow> poisoned (store br))"

lemma set_upd_subset: "set (upd k v xs) \<subseteq> insert (k, v) (set xs)"
  by (induction k v xs rule: upd.induct) auto

lemma length_upd: "length (upd k v xs) = (if k \<in> set (keys xs) then length xs else Suc (length xs))"
  by (induction k v xs rule: upd.induct) (auto simp: keys_def)

lemma keys_del: "keys (del k xs) = filter (\<lambda>x. x \<noteq> k) (keys xs)"
  by (induction xs) (auto simp: keys_def del_def)

lemma set_del_subset: "set (del k xs) \<subseteq> set xs"
  by (auto simp: del_def)

lemma filter_del_le: "length (filter P (del k xs)) \<le> length (filter P xs)"
  by (induction xs) (auto simp: del_def)

lemma map_of_keys_None: "map_of xs k = None \<longleftrightarrow> k \<notin> set (keys xs)"
  by (auto simp: keys_def map_of_eq_None_iff)

lemma poison_simps [simp]:
  "scopes (poison br) = scopes br" "next_id (poison br) = next_id br" "br_poisoned (poison br)"
  "receipts_of (store (poison br)) = receipts_of (store br)" "disk (store (poison br)) = disk (store br)"
  "poisoned (store (poison br))"
  by (simp_all add: poison_def mark_uncertain_def receipts_of_def)

lemma counts_poison [simp]:
  "count_kind P (poison br) = count_kind P br" "reserved (poison br) = reserved br"
  by (simp_all add: count_kind_def reserved_def)

lemma scopes_ok_cong:
  "scopes br' = scopes br \<Longrightarrow> next_id br' = next_id br \<Longrightarrow> scopes_ok br \<Longrightarrow> scopes_ok br'"
  by (simp add: scopes_ok_def count_kind_def)

lemma no_kind_count: "\<not> list_ex (\<lambda>(_, s). P (sc_kind s)) (scopes br) \<Longrightarrow> count_kind P br = 0"
  by (auto simp: count_kind_def list_ex_iff filter_empty_conv)

lemma no_take_reserved: "scopes_ok br \<Longrightarrow> \<not> list_ex (\<lambda>(_, s). sc_kind s = Take) (scopes br) \<Longrightarrow> reserved br = 0"
  by (fastforce simp: scopes_ok_def reserved_def list_ex_iff filter_empty_conv)

lemma grant_inv:
  assumes "broker_inv br" and "length (scopes br) < MAX_SCOPES" and "next_id br < n"
    and "k = Take \<longrightarrow> \<not> list_ex (\<lambda>(_, s). sc_kind s = Take) (scopes br) \<and>
      card (receipts_of (store br)) + 2 \<le> MAX_RECEIPTS"
    and "is_public_stop k \<longrightarrow> \<not> list_ex (\<lambda>(_, s). is_public_stop (sc_kind s)) (scopes br)"
  shows "broker_inv (br\<lparr>next_id := n,
    scopes := upd n \<lparr>sc_kind = k, sc_ids = [], stop_reserved = (k = Take)\<rparr> (scopes br)\<rparr>)"
proof -
  let ?s = "\<lparr>sc_kind = k, sc_ids = [], stop_reserved = (k = Take)\<rparr>"
  let ?br = "br\<lparr>next_id := n, scopes := upd n ?s (scopes br)\<rparr>"
  from assms(1) have ok: "scopes_ok br" "ids_ok br" "capacity_ok br" by (simp_all add: broker_inv_def)
  have fresh: "n \<notin> set (keys (scopes br))"
    using ok(1) assms(3) by (auto simp: scopes_ok_def)
  then have none: "map_of (scopes br) n = None" by (simp add: map_of_keys_None)
  have count: "count_kind P ?br = count_kind P br + (if P k then 1 else 0)" for P
    using count_filter_upd_new [OF none, of "\<lambda>(_, s). P (sc_kind s)" ?s] by (simp add: count_kind_def)
  have res: "reserved ?br = reserved br + (if k = Take then 1 else 0)"
    using count_filter_upd_new [OF none, of "\<lambda>(_, s). stop_reserved s" ?s] by (simp add: reserved_def)
  have "scopes_ok ?br"
    unfolding scopes_ok_def
  proof (intro conjI)
    show "\<forall>m \<in> set (keys (scopes ?br)). m \<le> next_id ?br"
      using ok(1) assms(3) by (auto simp: scopes_ok_def)
    show "\<forall>(m, s) \<in> set (scopes ?br). stop_reserved s \<longrightarrow> sc_kind s = Take"
      using ok(1) set_upd_subset [of n ?s "scopes br"] by (fastforce simp: scopes_ok_def)
    show "count_kind (\<lambda>k. k = Take) ?br \<le> 1"
      using count [of "\<lambda>k. k = Take"] assms(4) no_kind_count [of "\<lambda>k. k = Take" br] ok(1)
      by (auto simp: scopes_ok_def)
    show "count_kind is_public_stop ?br \<le> 1"
      using count [of is_public_stop] assms(5) no_kind_count [of is_public_stop br] ok(1)
      by (auto simp: scopes_ok_def)
  qed (use ok(1) assms(2) fresh in \<open>auto simp: scopes_ok_def length_upd\<close>)
  moreover have "ids_ok ?br"
    using ok(2) set_upd_subset [of n ?s "scopes br"] by (fastforce simp: ids_ok_def)
  moreover have "capacity_ok ?br"
    using ok(3) assms(4) no_take_reserved [OF ok(1)] res by (auto simp: capacity_ok_def)
  ultimately show ?thesis using assms(1) by (simp add: broker_inv_def)
qed

lemma remove_inv:
  assumes "broker_inv br"
  shows "broker_inv (drop_port n br)"
proof -
  from assms have ok: "scopes_ok br" "ids_ok br" "capacity_ok br" by (simp_all add: broker_inv_def)
  have le: "count_kind P (drop_port n br) \<le> count_kind P br" "reserved (drop_port n br) \<le> reserved br" for P
    using filter_del_le by (auto simp: count_kind_def reserved_def drop_port_def)
  have "scopes_ok (drop_port n br)"
    unfolding scopes_ok_def
  proof (intro conjI)
    show "\<forall>(m, s) \<in> set (scopes (drop_port n br)). stop_reserved s \<longrightarrow> sc_kind s = Take"
      using ok(1) set_del_subset [of n "scopes br"] by (fastforce simp: scopes_ok_def drop_port_def)
    show "count_kind (\<lambda>k. k = Take) (drop_port n br) \<le> 1" "count_kind is_public_stop (drop_port n br) \<le> 1"
      using ok(1) le(1) [of "\<lambda>k. k = Take"] le(1) [of is_public_stop] by (auto simp: scopes_ok_def)
    show "length (scopes (drop_port n br)) \<le> MAX_SCOPES"
      using ok(1) filter_del_le [of "\<lambda>_. True" n "scopes br"] by (simp add: scopes_ok_def drop_port_def)
  qed (use ok(1) in \<open>auto simp: scopes_ok_def drop_port_def keys_del\<close>)
  moreover have "ids_ok (drop_port n br)"
    using ok(2) set_del_subset [of n "scopes br"] by (fastforce simp: ids_ok_def drop_port_def)
  moreover have "capacity_ok (drop_port n br)"
    using ok(3) le(2) by (auto simp: capacity_ok_def drop_port_def)
  ultimately show ?thesis using assms by (simp add: broker_inv_def drop_port_def)
qed

lemma unchanged_inv:
  assumes "broker_inv br" and "entries_kept (store br) b'" and "receipts_of b' = receipts_of (store br)"
  shows "broker_inv (br\<lparr>store := b'\<rparr>)"
  using assms
  by (simp add: broker_inv_def entries_kept_def scopes_ok_def ids_ok_def capacity_ok_def reserved_def
      count_kind_def)

lemma poison_inv:
  assumes "distinct (keys (disk (store br)))" and "scopes_ok br" and "ids_ok br"
  shows "broker_inv (poison br)"
  using assms scopes_ok_cong [of "poison br" br]
  by (simp add: broker_inv_def ids_ok_def capacity_ok_def)

lemma doubt_inv:
  assumes "broker_inv br" and "entries_kept (store br) b'" and "receipts_of (store br) \<subseteq> receipts_of b'"
  shows "broker_inv (poison (br\<lparr>store := b'\<rparr>))"
proof (rule poison_inv)
  show "distinct (keys (disk (store (br\<lparr>store := b'\<rparr>))))" "scopes_ok (br\<lparr>store := b'\<rparr>)"
    using assms(1,2) scopes_ok_cong [of "br\<lparr>store := b'\<rparr>" br]
    by (simp_all add: broker_inv_def entries_kept_def)
  show "ids_ok (br\<lparr>store := b'\<rparr>)"
    unfolding ids_ok_def using assms(1,3) by (fastforce simp: broker_inv_def ids_ok_def)
qed

lemma insert_id_facts [simp]:
  "set (insert_id i ids) = insert i (set ids)" "distinct (insert_id i ids) = distinct ids"
  by (auto simp: insert_id_def)

lemma entered_inv:
  assumes "broker_inv br" and "map_of (scopes br) n = Some s" and "entries_kept (store br) b'"
    and "receipts_of b' = insert (receipt_name oid) (receipts_of (store br))"
    and "sc_kind s' = sc_kind s" and "sc_ids s' = insert_id oid (sc_ids s)"
    and "stop_reserved s' \<longrightarrow> stop_reserved s \<or> sc_kind s = Take"
    and br': "br' = br\<lparr>store := b', scopes := upd n s' (scopes br)\<rparr>"
    and "card (receipts_of b') + reserved br' \<le> MAX_RECEIPTS"
  shows "broker_inv br'"
proof -
  from assms(1) have ok: "scopes_ok br" "ids_ok br" by (simp_all add: broker_inv_def)
  have mem: "(n, s) \<in> set (scopes br)" using assms(2) by (rule map_of_SomeD)
  then have key: "n \<in> set (keys (scopes br))" by (force simp: keys_def)
  note sub = set_upd_subset [of n s' "scopes br"]
  have count: "count_kind P br' = count_kind P br" for P
    using count_filter_upd [OF assms(2), of "\<lambda>(_, s). P (sc_kind s)" s'] assms(5)
    by (simp add: count_kind_def br' split: if_splits)
  have "scopes_ok br'"
    unfolding scopes_ok_def count
  proof (intro conjI)
    show "\<forall>(m, x) \<in> set (scopes br'). stop_reserved x \<longrightarrow> sc_kind x = Take"
      using ok(1) mem sub assms(5,7) by (fastforce simp: scopes_ok_def br')
  qed (use ok(1) key in \<open>auto simp: scopes_ok_def br' length_upd\<close>)
  moreover have "ids_ok br'"
  proof -
    have new: "distinct (sc_ids x) \<and> receipt_name ` set (sc_ids x) \<subseteq> receipts_of b'"
      if "(m, x) \<in> insert (n, s') (set (scopes br))" for m x
    proof -
      have old: "distinct (sc_ids y) \<and> receipt_name ` set (sc_ids y) \<subseteq> receipts_of (store br)"
        if "(m, y) \<in> set (scopes br)" for m y
        using that ok(2) unfolding ids_ok_def by fast
      from that show ?thesis
        using old [of m x] old [OF mem] by (auto simp: assms(4,6) image_subset_iff)
    qed
    show ?thesis
      unfolding ids_ok_def
    proof (intro ballI)
      fix p assume "p \<in> set (scopes br')"
      with sub have "p \<in> insert (n, s') (set (scopes br))" by (auto simp: br')
      then show "case p of (m, x) \<Rightarrow> distinct (sc_ids x) \<and> receipt_name ` set (sc_ids x) \<subseteq> receipts_of (store br')"
        using new [of "fst p" "snd p"] by (simp add: br' split_beta)
    qed
  qed
  moreover have "capacity_ok br'" using assms(9) by (simp add: capacity_ok_def br')
  ultimately show ?thesis using assms(1,3) by (simp add: broker_inv_def br' entries_kept_def)
qed

lemma effect_inv: "effect br br' \<Longrightarrow> broker_inv br \<Longrightarrow> broker_inv br'"
proof (induction rule: effect.induct)
  case (poisons br')
  then show ?case by (intro poison_inv) (simp_all add: broker_inv_def)
next
  case (entered n s b' oid s' br')
  then show ?case by (intro entered_inv [of br n s b' oid s' br'])
next
  case (grant n k)
  then show ?case by (intro grant_inv)
qed (simp_all add: remove_inv unchanged_inv doubt_inv)

lemma effect_keeps:
  "effect br br' \<Longrightarrow> (br_poisoned br \<longrightarrow> br_poisoned br') \<and> next_id br \<le> next_id br' \<and>
     (\<forall>n \<le> next_id br. n \<notin> set (keys (scopes br)) \<longrightarrow> n \<notin> set (keys (scopes br')))"
proof (induction rule: effect.induct)
  case (entered n s b' oid s' br')
  from map_of_SomeD [OF entered(1)] have "n \<in> set (keys (scopes br))" by (force simp: keys_def)
  with entered(7) show ?case by auto
qed (auto simp: drop_port_def keys_del)

section \<open>Steps of the broker\<close>

text \<open>Any call of a broker handle, a fence or a port, by any of the threads that share the broker.
  The listings of the call show the directory as it is; the writes may fail in any way.\<close>

inductive broker_step :: "'b text_codec \<Rightarrow> 'b broker \<Rightarrow> 'b broker \<Rightarrow> bool" for tx where
  open_new: "(\<And>i. truthful (ios i) (store br)) \<Longrightarrow> open_scope tx ios k br = (res, br') \<Longrightarrow> broker_step tx br br'"
| close: "broker_step tx br (drop_port n br)"
| inspect: "broker_step tx br (snd (fence_admission tx ios n br))"
| permit: "broker_step tx br (snd (permits tx ios n own br))"
| prepare_v1: "(\<And>i. truthful (ios i) (store br)) \<Longrightarrow>
    broker_step tx br (snd (port_prepare tx ios pio hash n oid ok gen t d br))"
| update_v1: "quiet (ios 0) \<Longrightarrow> broker_step tx br (snd (port_update tx ios pio n r1 u1 t br))"
| prepare_v2: "(\<And>i. truthful (ios i) (store br)) \<Longrightarrow>
    broker_step tx br (snd (port_prepare_generic tx ios pio n oid gk gen t br))"
| update_v2: "quiet (ios 0) \<Longrightarrow> broker_step tx br (snd (port_update_generic tx ios pio n r2 p2 t br))"
| prepare_v3: "(\<And>i. truthful (ios i) (store br)) \<Longrightarrow>
    broker_step tx br (snd (port_prepare_restore tx ios pio n oid gen m t br))"
| update_v3: "quiet (ios 0) \<Longrightarrow> broker_step tx br (snd (port_update_restore tx ios pio n r3 p3 c3 t br))"
| prepare_v4: "(\<And>i. truthful (ios i) (store br)) \<Longrightarrow>
    broker_step tx br (snd (port_prepare_apply tx ios pio n oid gen m t br))"
| update_v4: "quiet (ios 0) \<Longrightarrow> broker_step tx br (snd (port_update_apply tx ios pio n r4 u4 t br))"
| prepare_v5: "(\<And>i. truthful (ios i) (store br)) \<Longrightarrow>
    broker_step tx br (snd (port_prepare_capture tx ios pio n oid gen plan t br))"
| update_v5: "quiet (ios 0) \<Longrightarrow> broker_step tx br (snd (port_update_capture tx ios pio n r5 u5 t br))"

lemma broker_step_effect:
  assumes "broker_step tx br br'" and "distinct (keys (disk (store br)))"
  shows "effect br br'"
  using assms
proof (induction rule: broker_step.induct)
  case (open_new ios br k res br')
  then show ?case using open_scope_effect by blast
qed (auto intro: effect.remove fence_effects port_prepare_effect port_update_effect
    port_prepare_generic_effect port_update_generic_effect workflow_prepare_effect prepare_enters
    workflow_update_effect store_replaces restore_replaces
    simp: port_prepare_restore_def port_update_restore_def port_prepare_capture_def
      port_update_capture_def port_prepare_apply_def port_update_apply_def)

lemma inv_distinct: "broker_inv br \<Longrightarrow> distinct (keys (disk (store br)))"
  by (simp add: broker_inv_def)

lemma broker_step_inv: "broker_step tx br br' \<Longrightarrow> broker_inv br \<Longrightarrow> broker_inv br'"
  by (blast intro: effect_inv broker_step_effect inv_distinct)

lemma broker_run_inv: "(broker_step tx)\<^sup>*\<^sup>* br br' \<Longrightarrow> broker_inv br \<Longrightarrow> broker_inv br'"
  by (induction rule: rtranclp_induct) (auto dest: broker_step_inv)

lemma new_broker_inv: "distinct (keys (disk b)) \<Longrightarrow> broker_inv (new_broker b)"
  by (simp add: broker_inv_def new_broker_def scopes_ok_def count_kind_def ids_ok_def capacity_ok_def
      reserved_def keys_def)

lemma broker_run_keeps:
  assumes "(broker_step tx)\<^sup>*\<^sup>* br br'" and "broker_inv br"
  shows "(br_poisoned br \<longrightarrow> br_poisoned br') \<and> next_id br \<le> next_id br' \<and>
     (\<forall>n \<le> next_id br. n \<notin> set (keys (scopes br)) \<longrightarrow> n \<notin> set (keys (scopes br')))"
  using assms(1)
proof induction
  case (step br1 br2)
  from broker_run_inv [OF step(1) assms(2)] have "distinct (keys (disk (store br1)))"
    by (simp add: broker_inv_def)
  from effect_keeps [OF broker_step_effect [OF step(2) this]] step(3) show ?case
    using order_trans by blast
qed simp

section \<open>The store under the broker\<close>

lemma poison_store: "(store_step tx)\<^sup>*\<^sup>* b (store br) \<Longrightarrow> (store_step tx)\<^sup>*\<^sup>* b (store (poison br))"
  by (auto simp: poison_def intro: rtranclp.rtrancl_into_rtrancl store_step.mark)

lemma port_apply_store:
  "(store_step tx)\<^sup>*\<^sup>* b (store (snd out)) \<Longrightarrow> (store_step tx)\<^sup>*\<^sup>* b (store (snd (port_apply tx io out)))"
  by (cases out; cases "fst out") (auto simp: port_apply_def poison_store)

lemma safety_admission_store: "(store_step tx)\<^sup>*\<^sup>* (store br) (store (snd (safety_admission tx io br own)))"
  using safety_admission_effect [of tx io br own] poison_store
  by (cases "safety_admission tx io br own") auto

lemma in_store_store: "store (snd (in_store br out n s)) = snd out"
  by (cases out; cases "fst out") (auto simp: in_store_def)

lemma port_store_store [simp]: "store (snd (port_store br out)) = snd out"
  by (simp add: port_store_def)

lemma workflow_prepare_store:
  assumes "\<And>b. store_step tx b (snd (f b))"
  shows "(store_step tx)\<^sup>*\<^sup>* (store br) (store (snd (workflow_prepare tx ios n kd oid f br)))"
  unfolding workflow_prepare_def
  by (rule port_apply_store) (auto simp: in_store_store assms split: option.split sum.split)

lemma workflow_update_store:
  assumes "\<And>b. store_step tx b (snd (f b))"
  shows "(store_step tx)\<^sup>*\<^sup>* (store br) (store (snd (workflow_update tx ios n kd oid f br)))"
  unfolding workflow_update_def
  by (rule port_apply_store) (auto simp: assms)

lemma port_prepare_store:
  "(store_step tx)\<^sup>*\<^sup>* (store br) (store (snd (port_prepare tx ios pio hash n oid k gen t d br)))"
  unfolding port_prepare_def
  by (rule port_apply_store)
    (auto simp: in_store_store intro: store_step.prepare_v1 surjective_pairing split: option.split sum.split)

lemma port_prepare_generic_store:
  "(store_step tx)\<^sup>*\<^sup>* (store br) (store (snd (port_prepare_generic tx ios pio n oid k gen t br)))"
  unfolding port_prepare_generic_def
proof (rule port_apply_store, cases "map_of (scopes br) n")
  case (Some s)
  obtain res br' where sa: "safety_admission tx (ios 0) br None = (res, br')"
    by (cases "safety_admission tx (ios 0) br None")
  have run: "(store_step tx)\<^sup>*\<^sup>* (store br) (store br')"
    using safety_admission_store [of tx br "ios 0" None] sa by simp
  have enter: "(store_step tx)\<^sup>*\<^sup>* (store br) (snd (prepare_generic tx pio oid k gen t (store br1)))"
    if "(store_step tx)\<^sup>*\<^sup>* (store br) (store br1)" for br1
    using that store_step.prepare_v2 [OF surjective_pairing] by (rule rtranclp.rtrancl_into_rtrancl)
  show "(store_step tx)\<^sup>*\<^sup>* (store br) (store (snd (case map_of (scopes br) n of None \<Rightarrow> (Err Conflict, br) | Some s \<Rightarrow>
        if \<not> scope_matches_generic (sc_kind s) k then (Err Conflict, br)
        else if br_poisoned br then (Err DurabilityUncertain, br)
        else (case (if is_public_stop (sc_kind s)
                 then (case safety_admission tx (ios 0) br None of
                     (Err e, br') \<Rightarrow> (Err e, br')
                   | (Ok a, br') \<Rightarrow> if blocking a then (Err Conflict, br') else (Ok (), br'))
                 else (Ok (), br)) of
            (Err e, br') \<Rightarrow> (Err e, br')
          | (Ok _, br') \<Rightarrow> (case room_for (ios 1) 1 s br' of Err e \<Rightarrow> (Err e, br') | Ok _ \<Rightarrow>
              in_store br' (prepare_generic tx pio oid k gen t (store br')) n
                (s\<lparr>sc_ids := insert_id oid (sc_ids s)\<rparr>))))))"
    using Some sa run enter [of br] enter [OF run]
    by (cases res; cases "room_for (ios 1) 1 s br"; cases "room_for (ios 1) 1 s br'")
      (auto simp: in_store_store)
qed simp

lemma open_scope_store: "(store_step tx)\<^sup>*\<^sup>* (store br) (store (snd (open_scope tx ios k br)))"
proof -
  have adm: "(store_step tx)\<^sup>*\<^sup>* (store br) (store (snd (scope_admission tx ios k br)))"
    using safety_admission_store [of tx br "ios 0" None]
    by (auto simp: scope_admission_def split: sum.split prod.split dest: sym)
  show ?thesis
  proof (cases "scope_admission tx ios k br")
    case (Pair res br1)
    with adm show ?thesis by (auto simp: open_scope_def split: sum.split option.split)
  qed
qed

lemma fence_store:
  "(store_step tx)\<^sup>*\<^sup>* (store br) (store (snd (fence_admission tx ios n br)))"
  "(store_step tx)\<^sup>*\<^sup>* (store br) (store (snd (permits tx ios n own br)))"
proof -
  show "(store_step tx)\<^sup>*\<^sup>* (store br) (store (snd (fence_admission tx ios n br)))"
    using safety_admission_store [of tx br "ios 0" None]
    by (auto simp: fence_admission_def split: sum.split)
  show "(store_step tx)\<^sup>*\<^sup>* (store br) (store (snd (permits tx ios n own br)))"
    using safety_admission_store [of tx br "ios 0" "Some own"]
    by (cases "safety_admission tx (ios 0) br (Some own)") (auto simp: permits_def split: option.split)
qed

lemma broker_step_store: "broker_step tx br br' \<Longrightarrow> (store_step tx)\<^sup>*\<^sup>* (store br) (store br')"
proof (induction rule: broker_step.induct)
  case (open_new ios br k res br')
  then show ?case using open_scope_store [of tx br ios k] by simp
next
  case (close br n)
  then show ?case by (simp add: drop_port_def)
next
  case (update_v1 ios br pio n r1 u1 t)
  then have "store_step tx b (snd (update tx (ios 0) pio r1 u1 t b))" for b
    by (intro store_step.update_v1 [OF _ surjective_pairing]) (simp add: quiet_def)
  then show ?case unfolding port_update_def by (intro port_apply_store) auto
next
  case (update_v2 ios br pio n r2 p2 t)
  then have "store_step tx b (snd (update_generic tx (ios 0) pio r2 p2 t b))" for b
    by (intro store_step.update_v2 [OF _ surjective_pairing]) (simp add: quiet_def)
  then show ?case unfolding port_update_generic_def by (intro port_apply_store) auto
next
  case (update_v3 ios br pio n r3 p3 c3 t)
  then show ?case unfolding port_update_restore_def
    by (intro workflow_update_store store_step.update_v3 [OF _ surjective_pairing]) (simp add: quiet_def)
next
  case (update_v4 ios br pio n r4 u4 t)
  then show ?case unfolding port_update_apply_def
    by (intro workflow_update_store store_step.update_v4 [OF _ surjective_pairing]) (simp add: quiet_def)
next
  case (update_v5 ios br pio n r5 u5 t)
  then show ?case unfolding port_update_capture_def
    by (intro workflow_update_store store_step.update_v5 [OF _ surjective_pairing]) (simp add: quiet_def)
qed (simp_all only: fence_store port_prepare_store port_prepare_generic_store port_prepare_restore_def
    port_prepare_apply_def port_prepare_capture_def workflow_prepare_store
    store_step.prepare_v3 [OF surjective_pairing] store_step.prepare_v4 [OF surjective_pairing]
    store_step.prepare_v5 [OF surjective_pairing])

lemma broker_run_store: "(broker_step tx)\<^sup>*\<^sup>* br br' \<Longrightarrow> (store_step tx)\<^sup>*\<^sup>* (store br) (store br')"
  by (induction rule: rtranclp_induct) (auto dest: broker_step_store)

end
