(* ===== verification/Broker_Safety.thy ===== *)
theory Broker_Safety
  imports Broker
begin

text \<open>
  What the receipt broker guarantees over every run of its calls (\<open>broker_step\<close>): the bounds of
  its scopes, the stop receipt reserved for a running Take, the finality of lost durability, the
  deadness of closed ports, what a dispatch permit means, and that the shared store still
  implements the ledger.
\<close>

section \<open>Room for a reserved stop\<close>

lemma count_names_fits:
  assumes "n + length (filter (\<lambda>x. ends_with x ''.json'') ns) \<le> MAX_RECEIPTS"
  shows "count_names (map Ok ns) n = Ok (n + length (filter (\<lambda>x. ends_with x ''.json'') ns))"
  using assms by (induction ns arbitrary: n) auto

lemma capacity_used_fits:
  assumes "truthful io b" and "distinct (keys (disk b))" and "card (receipts_of b) \<le> MAX_RECEIPTS"
    and "is_ok (view_layout b (layout_start io))" and "is_ok (view_layout b (layout_end io))" and "list_opens io"
  shows "capacity_used io b = Ok (card (receipts_of b))"
proof -
  from assms(1) have names: "seen_names io b = map Ok (keys (disk b))"
    by (simp add: truthful_def quiet_def seen_names_def)
  have "count_names (seen_names io b) 0 = Ok (card (receipts_of b))"
    using count_names_fits [of 0 "keys (disk b)"] receipts_of_keys(2) [OF assms(2)] assms(3) by (simp add: names)
  moreover from assms(4,5) obtain p q where "view_layout b (layout_start io) = Ok p"
      "view_layout b (layout_end io) = Ok q"
    by (auto simp: is_ok_iff)
  ultimately have "\<exists>n. capacity_used io b = Ok n"
    using assms(6) by (cases p) (simp_all add: capacity_used_def)
  with capacity_used_exact [OF assms(1,2)] show ?thesis by auto
qed

lemma inj_receipt_name: "inj receipt_name"
  by (auto simp: inj_def receipt_name_def)

lemma finite_receipts: "finite (receipts_of b)"
  by (rule finite_subset [of _ "set (keys (disk b))"])
    (auto simp: receipts_of_def json_files_def keys_def split: if_splits
      dest!: map_of_SomeD intro: rev_image_eqI)

lemma owned_ids_bound:
  assumes "ids_ok br" and "map_of (scopes br) n = Some s"
  shows "length (sc_ids s) \<le> card (receipts_of (store br))"
proof -
  from assms(1) [unfolded ids_ok_def, THEN bspec, OF map_of_SomeD [OF assms(2)]]
  have "distinct (sc_ids s)" and sub: "receipt_name ` set (sc_ids s) \<subseteq> receipts_of (store br)"
    by simp_all
  then have "length (sc_ids s) = card (receipt_name ` set (sc_ids s))"
    by (simp add: distinct_card card_image inj_on_subset [OF inj_receipt_name])
  with card_mono [OF finite_receipts sub] show ?thesis by simp
qed

lemma reserved_positive: "map_of (scopes br) n = Some s \<Longrightarrow> stop_reserved s \<Longrightarrow> 0 < reserved br"
  by (force simp: reserved_def filter_empty_conv dest: map_of_SomeD)

lemma reserved_room:
  assumes "broker_inv br" and "\<not> br_poisoned br" and "map_of (scopes br) n = Some s" and "stop_reserved s"
    and "truthful io (store br)" and "is_ok (view_layout (store br) (layout_start io))"
    and "is_ok (view_layout (store br) (layout_end io))" and "list_opens io"
  shows "room_for io (receipts_needed RecordStop s) s br = Ok ()"
proof -
  have pos: "0 < reserved br" by (rule reserved_positive [OF assms(3,4)])
  then have cap: "card (receipts_of (store br)) + reserved br \<le> MAX_RECEIPTS"
    using assms(1,2) by (simp add: broker_inv_def capacity_ok_def)
  then have used: "capacity_used io (store br) = Ok (card (receipts_of (store br)))"
    by (intro capacity_used_fits [OF assms(5) inv_distinct [OF assms(1)] _ assms(6-8)]) simp
  have ids: "length (sc_ids s) \<le> card (receipts_of (store br))"
    using assms(1) by (intro owned_ids_bound [OF _ assms(3)]) (simp add: broker_inv_def)
  have "receipts_needed RecordStop s = 0" by (simp add: receipts_needed_def restarting_def assms(4))
  with used pos cap ids show ?thesis by (simp add: room_for_def)
qed

section \<open>A sample broker\<close>

definition sample_broker :: "json broker" where
  "sample_broker = \<lparr>store = sample_store, scopes = [(1, \<lparr>sc_kind = Take, sc_ids = [], stop_reserved = True\<rparr>)],
     next_id = 1, br_poisoned = False\<rparr>"

lemma keys_Nil [simp]: "keys [] = []"
  by (simp add: keys_def)

lemma sample_store_facts [simp]:
  "disk sample_store = []" "b_endpoint sample_store = sample_hash" "\<not> poisoned sample_store"
  "receipts_of sample_store = {}" "keys (disk sample_store) = []" "sequence sample_store = 0"
  by (simp_all add: sample_store_def receipts_of_def json_files_def keys_def dom_def)

lemma sample_view_facts [simp]:
  "view_layout sample_store (layout_start sample_view) = Ok True"
  "view_layout sample_store (layout_end sample_view) = Ok True"
  "list_opens sample_view" "seen_names sample_view sample_store = []"
  by (simp_all add: sample_view_def view_layout_def sample_store_def seen_names_def keys_def)

lemma sample_truthful: "truthful sample_view sample_store"
  using sample_quiet by (simp add: truthful_def)

lemma sample_open: "open_scope sample_text (\<lambda>_. sample_view) Take (new_broker sample_store) = (Ok 1, sample_broker)"
proof -
  have "inventory sample_text sample_view sample_store = Ok []"
    by (simp add: inventory_def sort_by_def)
  moreover have "capacity_used sample_view sample_store = Ok 0" by (simp add: capacity_used_def)
  ultimately show ?thesis
    by (simp add: open_scope_def new_broker_def scope_admission_def take_admission_def view_admission_def
        admission_except_def MAX_RECEIPTS_def MAX_SCOPES_def checked_add_def sample_broker_def)
qed

lemma sample_broker_step: "broker_step sample_text (new_broker sample_store) sample_broker"
  by (rule broker_step.open_new [OF _ sample_open]) (simp add: new_broker_def sample_truthful)

lemmas sample_broker_run = r_into_rtranclp [of "broker_step sample_text", OF sample_broker_step]

lemma sample_distinct: "distinct (keys (disk sample_store))"
  by simp

lemma sample_issued: "1 \<le> next_id sample_broker"
  by (simp add: sample_broker_def)

section \<open>Properties\<close>



text \<open>C13: a Take that holds its reservation can record its stop: in every reachable state whose
  durability is not lost, when the directory can be inspected and written, the preparation of the
  stop succeeds; however full the directory is, the limit on receipts does not refuse it.\<close>

theorem reserved_stop_recorded:
  assumes "distinct (keys (disk b))" and "(broker_step tx)\<^sup>*\<^sup>* (new_broker b) br" and "\<not> br_poisoned br"
    and "map_of (scopes br) n = Some s" and "stop_reserved s"
    and "truthful (ios 0) (store br)" and "is_ok (view_layout (store br) (layout_start (ios 0)))"
    and "is_ok (view_layout (store br) (layout_end (ios 0)))" and "list_opens (ios 0)"
    and "valid_uuid oid" and "valid_timestamp t"
    and "checked (prepared_record hash (b_endpoint (store br)) oid RecordStop gen t d) = Ok r"
    and "healthy_persist pio (store br) rt dir" and "print tx (operation_value r) = Some bytes"
    and "byte_len tx bytes \<le> MAX_RECEIPT_BYTES" and "unat (sequence (store br)) + 1 < 2 ^ 64"
    and "map_of (disk (store br)) (temporary_name oid (process_id (store br)) (sequence (store br) + 1)) = None"
    and "map_of (disk (store br)) (receipt_name oid) = None"
  shows "fst (port_prepare tx ios pio hash n oid RecordStop gen t d br) = Ok r"
proof -
  have inv: "broker_inv br" by (rule broker_run_inv [OF assms(2) new_broker_inv [OF assms(1)]])
  have mem: "(n, s) \<in> set (scopes br)" using assms(4) by (rule map_of_SomeD)
  with inv assms(5) have kind: "sc_kind s = Take" by (auto simp: broker_inv_def scopes_ok_def)
  note room = reserved_room [OF inv assms(3-9)]
  have seq: "checked_add (sequence (store br)) 1 = Some (sequence (store br) + 1)"
    using assms(16) by (simp add: checked_add_def)
  from assms(12) have r: "r = prepared_record hash (b_endpoint (store br)) oid RecordStop gen t d" by simp
  then have head: "operation_id r = oid" "endpoint_hash r = b_endpoint (store br)"
    by (simp_all add: prepared_record_def)
  obtain b' where "persist_value tx pio oid (operation_value r) False (store br) = (Ok (), b')"
    using persist_healthy [OF assms(13-15) seq assms(17), of False] assms(18) by simp
  then have "prepare tx pio hash oid RecordStop gen t d (store br) = (Ok r, b')"
    using assms(10-12) head
    by (simp add: prepare_def persist_def check_endpoint_def returning_def del: checked_Ok_iff)
  with assms(3,4) kind room show ?thesis by (simp add: port_prepare_def port_apply_def in_store_def)
qed

definition sample_stop :: OperationRecord where
  "sample_stop = prepared_record (\<lambda>x. sample_hash) sample_hash sample_uuid RecordStop 7
     ''2026-01-02T03:04:05.678Z''
     \<lparr>scene_collection = None, d_scene_uuid = None, d_stage_id = None, d_take_id = None\<rparr>"

lemma sample_stop_checked: "checked sample_stop = Ok sample_stop"
  using sample by (simp add: checked_def sample_stop_def prepared_record_def head_ok_def
      MAX_SAFE_INTEGER_def opt_all_def)

theorem reserved_stop_recorded_witness:
  "fst (port_prepare sample_text (\<lambda>_. sample_view) sample_persist (\<lambda>x. sample_hash) 1 sample_uuid RecordStop 7
     ''2026-01-02T03:04:05.678Z''
     \<lparr>scene_collection = None, d_scene_uuid = None, d_stage_id = None, d_take_id = None\<rparr> sample_broker) =
   Ok sample_stop"
proof (rule reserved_stop_recorded [OF sample_distinct sample_broker_run,
      where s = "\<lparr>sc_kind = Take, sc_ids = [], stop_reserved = True\<rparr>"])
  show "checked (prepared_record (\<lambda>x. sample_hash) (b_endpoint (store sample_broker)) sample_uuid RecordStop 7
     ''2026-01-02T03:04:05.678Z''
     \<lparr>scene_collection = None, d_scene_uuid = None, d_stage_id = None, d_take_id = None\<rparr>) = Ok sample_stop"
    using sample_stop_checked by (simp add: sample_broker_def sample_stop_def del: checked_Ok_iff)
  show "healthy_persist sample_persist (store sample_broker) sample_directory sample_directory"
    using sample_healthy by (simp add: sample_broker_def)
qed (use sample sample_truthful in \<open>simp_all add: sample_broker_def sample_text_def MAX_RECEIPT_BYTES_def\<close>)

text \<open>Lost durability is final. Once the broker is poisoned, in every later state it opens no
  scope, permits no dispatch, prepares no workflow or generic operation and no start, and does not
  give the store back.\<close>

lemma poison_is_final:
  assumes "distinct (keys (disk b))" and "(broker_step tx)\<^sup>*\<^sup>* (new_broker b) br" and "br_poisoned br"
    and "(broker_step tx)\<^sup>*\<^sup>* br br'"
  shows "open_scope tx ios k br' = (Err DurabilityUncertain, br') \<and>
    permits tx ios n own br' = (Err DurabilityUncertain, br') \<and> into_store sole br' = Inl br' \<and>
    \<not> is_ok (fst (port_prepare_generic tx ios pio n oid gk gen t br')) \<and>
    \<not> is_ok (fst (workflow_prepare tx ios n kd oid f br')) \<and>
    (opk \<noteq> RecordStop \<longrightarrow> \<not> is_ok (fst (port_prepare tx ios pio hash n oid opk gen t d br')))"
proof -
  have "br_poisoned br'"
    using broker_run_keeps [OF assms(4) broker_run_inv [OF assms(2) new_broker_inv [OF assms(1)]]] assms(3)
    by simp
  then show ?thesis
    by (auto simp: open_scope_def permits_def into_store_def port_prepare_generic_def workflow_prepare_def
        port_prepare_def port_apply_def is_ok_iff split: option.split)
qed

lemma sample_poison_step: "broker_step sample_text sample_broker (poison sample_broker)"
proof -
  let ?io = "\<lambda>_ :: nat. sample_view\<lparr>list_opens := False\<rparr>"
  have "snd (port_update sample_text ?io sample_persist 1 sample_stop (new_update Dispatching) ''t'' sample_broker) =
      poison sample_broker"
    by (simp add: port_update_def owns_def sample_broker_def port_apply_def view_admission_def
        admission_except_def inventory_def is_ok_def)
  moreover have "quiet (?io 0)" using sample_quiet by (simp add: quiet_def)
  ultimately show ?thesis
    using broker_step.update_v1 [of ?io sample_text sample_broker sample_persist 1 sample_stop] by metis
qed

text \<open>A closed port stays dead. Scope identifiers are never used twice, so after a port is
  dropped no later scope answers to its identifier: the fence and every operation through it are
  refused, whatever else happens in between.\<close>

lemma closed_port_stays_dead:
  assumes "distinct (keys (disk b))" and "(broker_step tx)\<^sup>*\<^sup>* (new_broker b) br" and "n \<le> next_id br"
    and "(broker_step tx)\<^sup>*\<^sup>* (drop_port n br) br'"
  shows "map_of (scopes br') n = None \<and> \<not> is_ok (fence_scope n br') \<and>
    \<not> is_ok (fst (permits tx ios n own br')) \<and>
    fst (port_prepare tx ios pio hash n oid k gen t d br') = Err Conflict \<and>
    fst (port_update tx ios pio n r u t br') = Err Conflict \<and>
    fst (port_prepare_generic tx ios pio n oid gk gen t br') = Err Conflict \<and>
    fst (port_update_generic tx ios pio n r2 p2 t br') = Err Conflict \<and>
    fst (workflow_prepare tx ios n kd oid f br') = Err Conflict \<and>
    fst (workflow_update tx ios n kd oid g br') = Err Conflict"
proof -
  have inv: "broker_inv (drop_port n br)"
    by (rule remove_inv [OF broker_run_inv [OF assms(2) new_broker_inv [OF assms(1)]]])
  have gone: "n \<notin> set (keys (scopes (drop_port n br)))" "n \<le> next_id (drop_port n br)"
    using assms(3) by (simp_all add: drop_port_def keys_del)
  from broker_run_keeps [OF assms(4) inv] gone have "map_of (scopes br') n = None"
    by (simp add: map_of_keys_None)
  then show ?thesis
    by (simp add: fence_scope_def permits_def port_prepare_def port_update_def port_prepare_generic_def
        port_update_generic_def workflow_prepare_def workflow_update_def owns_def port_apply_def is_ok_def)
qed

text \<open>C11: what a dispatch permit means. When a fence permits the dispatch of an operation and the
  directory is seen as it is, the operation is owned by the fence's scope and its receipt is in its
  dispatching phase; and every other unresolved receipt of the endpoint is a live loan in flight,
  tolerated only for a public safety stop.\<close>

theorem permit_means_clear:
  assumes "quiet (ios 0)" and "quiet (ios 1)" and "pinned (store br)" and "permits tx ios n own br = (Ok True, br')"
  shows "br' = br \<and> (\<exists>s. map_of (scopes br) n = Some s \<and> own \<in> set (sc_ids s) \<and>
    (\<exists>r. ledger tx (store br) own = Some r \<and> stored_dispatching r) \<and>
    (\<forall>x. ledger tx (store br) (stored_id x) = Some x \<and> stored_endpoint x = b_endpoint (store br) \<and>
       stored_blocking x \<and> stored_id x \<noteq> own \<longrightarrow>
       is_public_stop (sc_kind s) \<and> stored_id x \<in> set (live_ids br) \<and> known_live_in_flight x))"
proof -
  from assms(4) obtain s where s: "map_of (scopes br) n = Some s" "own \<in> set (sc_ids s)"
    by (auto simp: permits_def split: if_splits option.splits)
  show ?thesis
  proof (cases "is_public_stop (sc_kind s)")
    case True
    with assms(4) s obtain a where "safety_admission tx (ios 0) br (Some own) = (Ok a, br')" "\<not> blocking a"
      by (auto simp: permits_def split: if_splits prod.splits)
    then obtain ss where br': "br' = br" and ss: "inventory tx (ios 0) (store br) = Ok ss"
        and disp: "list_ex (\<lambda>x. stored_id x = own \<and> stored_dispatching x) ss"
        and clear: "\<not> list_ex (\<lambda>x. stored_blocking x \<and> Some (stored_id x) \<noteq> Some own \<and>
          \<not> (stored_id x \<in> set (live_ids br) \<and> known_live_in_flight x)) ss"
      by (cases "inventory tx (ios 0) (store br)")
        (auto simp: safety_admission_def admission_with_live_ids_def split: if_splits)
    note listed = inventory_ledger [OF assms(1,3) ss]
    from disp listed have "\<exists>r. ledger tx (store br) own = Some r \<and> stored_dispatching r"
      by (auto simp: list_ex_iff)
    with s True br' clear listed show ?thesis by (auto simp: list_ex_iff)
  next
    case False
    with assms(4) s obtain a where br': "br' = br" and d: "is_dispatching tx (ios 0) (store br) own = Ok True"
        and a: "admission_except tx (ios 1) (store br) (Some own) = Ok a" "\<not> blocking a"
      by (auto simp: permits_def split: if_splits)
    from d obtain ss where "inventory tx (ios 0) (store br) = Ok ss"
        "list_ex (\<lambda>x. stored_id x = own \<and> stored_dispatching x) ss"
      by (auto simp: is_dispatching_def)
    with inventory_ledger [OF assms(1,3)] have "\<exists>r. ledger tx (store br) own = Some r \<and> stored_dispatching r"
      by (auto simp: list_ex_iff)
    moreover from a obtain ss where "inventory tx (ios 1) (store br) = Ok ss"
        "\<not> list_ex (\<lambda>x. Some (stored_id x) \<noteq> Some own \<and> stored_blocking x) ss"
      by (auto simp: admission_except_def)
    with inventory_ledger [OF assms(2,3)]
    have "\<not> (ledger tx (store br) (stored_id x) = Some x \<and> stored_endpoint x = b_endpoint (store br) \<and>
       stored_blocking x \<and> stored_id x \<noteq> own)" for x
      by (auto simp: list_ex_iff)
    ultimately show ?thesis using s br' by blast
  qed
qed

definition sample_dispatching :: GenericRecord where
  "sample_dispatching = sample_generic\<lparr>g_phase := G_Dispatching, g_request_dispatched := None\<rparr>"

definition sample_fenced :: "json broker" where
  "sample_fenced = \<lparr>store = sample_store_with sample_dispatching,
     scopes = [(1, \<lparr>sc_kind = GenericScope StreamStart, sc_ids = [sample_uuid], stop_reserved = False\<rparr>)],
     next_id = 1, br_poisoned = False\<rparr>"

lemma sample_dispatching_ok:
  "checked_generic sample_dispatching = Ok sample_dispatching" "operation_id sample_dispatching = sample_uuid"
  "endpoint_hash sample_dispatching = sample_hash" "stored_dispatching (Generic sample_dispatching)"
  using sample by (simp_all add: sample_dispatching_def checked_generic_def workflow_head_ok_def head_ok_def
      sample_generic_def prepared_generic_def MAX_SAFE_INTEGER_def)

theorem permit_means_clear_witness:
  "permits sample_text (\<lambda>_. sample_view) 1 sample_uuid sample_fenced = (Ok True, sample_fenced) \<and>
   (\<exists>r. ledger sample_text (store sample_fenced) sample_uuid = Some r \<and> stored_dispatching r)"
proof
  show permit: "permits sample_text (\<lambda>_. sample_view) 1 sample_uuid sample_fenced = (Ok True, sample_fenced)"
    using sample_inventory [OF sample_dispatching_ok(1-3)] sample_dispatching_ok(2,4)
    by (simp add: permits_def sample_fenced_def is_dispatching_def admission_except_def)
  from permit_means_clear [OF sample_quiet sample_quiet _ permit] sample_pinned
  show "\<exists>r. ledger sample_text (store sample_fenced) sample_uuid = Some r \<and> stored_dispatching r"
    by (auto simp: sample_fenced_def)
qed



end
