(* ===== verification/Session.thy ===== *)
theory Session
  imports Session_Reply
begin

unbundle bit_operations_syntax

text \<open>
  One OBS connection, \<open>src/native/src/session.rs\<close>: clients put commands into three bounded queues
  (ordinary work, the owned Take's stop lane, the public safety lane) and wait for a reply until a
  deadline; one actor owns the socket, checks each command again before it writes its frame, and
  matches replies to the commands in flight. The two sides share one atomic per command
  (\<open>QUEUED\<close>, \<open>DISPATCHING\<close>, \<open>ABANDONED\<close>) and its reply channel.

  The state holds every command ever admitted; the queues and the three slots hold their indices.
  \<open>cmd_sent\<close> and \<open>cmd_guarded\<close> record, for the theorems only, that the frame was handed to the socket
  and that the guard passed. What the operating system and the peer decide (permits, clock readings,
  the guard's verdict, messages) are arguments of the steps; the encoder of outgoing frames
  (\<open>js_json.rs\<close>) is the argument \<open>encode\<close>.
\<close>

section \<open>State\<close>

datatype dispatch_state = QUEUED | DISPATCHING | ABANDONED

record 'p command =
  cmd_expected :: u64
  cmd_kind :: CommandKind
  cmd_id :: string
  cmd_deadline :: nat
  cmd_flushed :: bool
  cmd_state :: dispatch_state
  cmd_closed :: bool
  cmd_reply :: "(RequestError, 'p ReplyData) result option"
  cmd_dropped :: bool
  cmd_result :: "(RequestError, 'p ReplyData) result option"
  cmd_guarded :: bool
  cmd_sent :: bool

datatype 'p actor_mode = Idle | Sending nat "(RequestError, 'p ReplyData) result option" | Driving
  | Closing Invalidation | Ended

record publisher =
  pub_cursor :: u64
  pub_items :: nat
  pub_bytes :: nat
  pub_room :: nat
  pub_consumer :: bool

record 'p session =
  ses_token :: u64
  ses_sequence :: u64
  ses_max_bytes :: nat
  commands :: "'p command list"
  normal_queue :: "nat list"
  stop_queue :: "nat list"
  safety_queue :: "nat list"
  active :: "nat option list"
  mode :: "'p actor_mode"
  terminal :: "Invalidation option"
  publishing :: publisher

definition cmd :: "'p session \<Rightarrow> nat \<Rightarrow> 'p command" where
  "cmd s i = commands s ! i"

definition with_cmd :: "nat \<Rightarrow> ('p command \<Rightarrow> 'p command) \<Rightarrow> 'p session \<Rightarrow> 'p session" where
  "with_cmd i f s = s\<lparr>commands := (commands s)[i := f (commands s ! i)]\<rparr>"

section \<open>Admission\<close>

definition RESERVED_STOP_BYTES :: nat where
  "RESERVED_STOP_BYTES = 512"

datatype encode_error = EncodedBytes | Depth | NumberUnavailable

text \<open>What an admission meets: a free item permit, enough byte permits, an unexpired clock at the
  end, and room in the lane's queue (whose receiver may be gone).\<close>

record admit_io =
  item_free :: bool
  bytes_free :: bool
  buffer_ok :: bool
  admit_time :: nat
  queue_room :: bool
  queue_open :: bool

definition queued_command :: "u64 \<Rightarrow> CommandKind \<Rightarrow> string \<Rightarrow> nat \<Rightarrow> 'p command" where
  "queued_command expected k rid deadline = \<lparr>cmd_expected = expected, cmd_kind = k, cmd_id = rid,
     cmd_deadline = deadline, cmd_flushed = False, cmd_state = QUEUED, cmd_closed = False,
     cmd_reply = None, cmd_dropped = False, cmd_result = None, cmd_guarded = False, cmd_sent = False\<rparr>"

definition push_command :: "'p command \<Rightarrow> 'p session \<Rightarrow> 'p session" where
  "push_command c s =
     (let i = length (commands s); s' = s\<lparr>commands := commands s @ [c]\<rparr> in
      case lane (cmd_kind c) of
        NormalLane \<Rightarrow> s'\<lparr>normal_queue := normal_queue s @ [i]\<rparr>
      | OwnedStopLane \<Rightarrow> s'\<lparr>stop_queue := stop_queue s @ [i]\<rparr>
      | SafetyStopLane \<Rightarrow> s'\<lparr>safety_queue := safety_queue s @ [i]\<rparr>)"

definition closed_reason :: "'p session \<Rightarrow> Invalidation" where
  "closed_reason s = (case terminal s of None \<Rightarrow> ActorStopped | Some r \<Rightarrow> r)"

text \<open>\<open>enqueue\<close> up to the send into the queue; an error leaves no command behind.\<close>

definition enqueue :: "(json \<Rightarrow> nat \<Rightarrow> (encode_error, nat) result) \<Rightarrow> admit_io \<Rightarrow> 'p command \<Rightarrow> json \<Rightarrow>
    'p session \<Rightarrow> BeforeDispatch option \<times> 'p session" where
  "enqueue encode io c frame s =
     (case encode frame (if lane (cmd_kind c) \<noteq> NormalLane then RESERVED_STOP_BYTES else ses_max_bytes s) of
        Err EncodedBytes \<Rightarrow> (Some ByteCapacity, s)
      | Err Depth \<Rightarrow> (Some InvalidRequest, s)
      | Err NumberUnavailable \<Rightarrow> (Some InvalidRequest, s)
      | Ok n \<Rightarrow>
          if \<not> bytes_free io then (Some ByteCapacity, s)
          else if \<not> buffer_ok io then (Some ByteCapacity, s)
          else if admit_time io \<ge> cmd_deadline c then (Some Deadline, s)
          else if \<not> queue_open io then (Some (Closed (closed_reason s)), s)
          else if \<not> queue_room io then (Some Capacity, s)
          else (None, push_command c s))"

text \<open>\<open>advance\<close> of the sequence: the next number, or exhaustion for good.\<close>

definition next_sequence :: "'p session \<Rightarrow> u64 option" where
  "next_sequence s = checked_add (ses_sequence s) 1"

definition single_until :: "(json \<Rightarrow> nat \<Rightarrow> (encode_error, nat) result) \<Rightarrow> admit_io \<Rightarrow> u64 \<Rightarrow> CommandKind \<Rightarrow>
    json \<Rightarrow> nat \<Rightarrow> 'p session \<Rightarrow> BeforeDispatch option \<times> 'p session" where
  "single_until encode io expected k data deadline s =
     (case single_type k of None \<Rightarrow> (Some InvalidRequest, s) | Some t \<Rightarrow>
      if expected \<noteq> ses_token s then (Some StaleConnection, s)
      else (case terminal s of Some r \<Rightarrow> (Some (Closed r), s) | None \<Rightarrow>
        if \<not> valid_request_type t \<or> \<not> (data = JNull \<or> as_object data \<noteq> None) then (Some InvalidRequest, s)
        else if \<not> item_free io then (Some Capacity, s)
        else (case next_sequence s of None \<Rightarrow> (Some BD_IdentityExhausted, s) | Some n \<Rightarrow>
          (let rid = request_id_text (ses_token s) n in
           enqueue encode io (queued_command expected k rid deadline) (single_frame rid t data)
             (s\<lparr>ses_sequence := n\<rparr>)))))"

text \<open>A batch: an empty one is answered at once (\<open>None\<close> in the first component of the result).\<close>

definition MIN_ITEM :: nat where
  "MIN_ITEM = 35"

definition batch_checked :: "(json \<Rightarrow> nat \<Rightarrow> (encode_error, nat) result) \<Rightarrow> admit_io \<Rightarrow> u64 \<Rightarrow> BatchRequest list \<Rightarrow>
    bool \<Rightarrow> Execution \<Rightarrow> nat option \<Rightarrow> 'p session \<Rightarrow> BeforeDispatch option option \<times> 'p session" where
  "batch_checked encode io expected rs halt e deadline s =
     (if rs = [] then (None, s)
      else (case deadline of None \<Rightarrow> (Some (Some Deadline), s) | Some dl \<Rightarrow>
        if expected \<noteq> ses_token s then (Some (Some StaleConnection), s)
        else (case terminal s of Some r \<Rightarrow> (Some (Some (Closed r)), s) | None \<Rightarrow>
          if \<not> list_all (\<lambda>r. valid_request_type (b_request_type r)) rs then (Some (Some InvalidRequest), s)
          else if length rs * MIN_ITEM > ses_max_bytes s then (Some (Some ByteCapacity), s)
          else if \<not> item_free io then (Some (Some Capacity), s)
          else (case next_sequence s of None \<Rightarrow> (Some (Some BD_IdentityExhausted), s) | Some n \<Rightarrow>
            (let rid = request_id_text (ses_token s) n;
                 out = enqueue encode io
                   (queued_command expected (K_Batch (map b_request_type rs) halt) rid dl)
                   (batch_frame rid halt e rs) (s\<lparr>ses_sequence := n\<rparr>)
             in (Some (fst out), snd out))))))"

section \<open>The waiting client\<close>

text \<open>The client receives the reply; or learns that the actor dropped the command; or its deadline
  passes first, when it abandons the command if it is still queued; or it is cancelled.\<close>

definition client_receives :: "nat \<Rightarrow> 'p session \<Rightarrow> 'p session" where
  "client_receives i s = with_cmd i (\<lambda>c. c\<lparr>cmd_result := cmd_reply c, cmd_closed := True\<rparr>) s"

definition client_orphaned :: "nat \<Rightarrow> 'p session \<Rightarrow> 'p session" where
  "client_orphaned i s = with_cmd i (\<lambda>c. c\<lparr>cmd_closed := True, cmd_result := Some (Err
     (if cmd_state c = DISPATCHING then Req_Unknown (closed_reason s)
      else BeforeDispatch (Closed (closed_reason s))))\<rparr>) s"

definition timed_out :: "'p command \<Rightarrow> 'p command" where
  "timed_out c =
     (if cmd_state c = QUEUED
      then c\<lparr>cmd_state := ABANDONED, cmd_closed := True, cmd_result := Some (Err (BeforeDispatch Deadline))\<rparr>
      else c\<lparr>cmd_closed := True, cmd_result := Some (Err (Req_Unknown DeadlineAfterDispatch))\<rparr>)"

definition cancelled_cmd :: "'p command \<Rightarrow> 'p command" where
  "cancelled_cmd c =
     (if cmd_state c = QUEUED then c\<lparr>cmd_state := ABANDONED, cmd_closed := True\<rparr> else c\<lparr>cmd_closed := True\<rparr>)"

definition client_times_out :: "nat \<Rightarrow> 'p session \<Rightarrow> 'p session" where
  "client_times_out i s = with_cmd i timed_out s"

definition client_cancelled :: "nat \<Rightarrow> 'p session \<Rightarrow> 'p session" where
  "client_cancelled i s = with_cmd i cancelled_cmd s"

text \<open>\<open>request_checked\<close>: what the caller of an ordinary request makes of the reply.\<close>

definition request_result :: "(RequestError, 'p ReplyData) result \<Rightarrow> (RequestError, json) result" where
  "request_result res = (case res of
     Ok (Single_Reply v) \<Rightarrow> Ok v
   | Ok _ \<Rightarrow> Err (Req_Unknown ResponseIdentityMismatch)
   | Err e \<Rightarrow> Err e)"

section \<open>Dispatch\<close>

text \<open>\<open>prepare_dispatch\<close>. The two clock readings around the guard, the verdict of the guard and the
  clock reading at each companion are its arguments, and what the client does to the command
  between the first look at it and the exchange, and after the exchange (nothing, a timeout, or a
  cancellation); the companions are the commands in flight, with deadline and closedness.\<close>

fun companion_refusal :: "(nat \<times> bool \<times> nat) list \<Rightarrow> BeforeDispatch option" where
  "companion_refusal [] = None"
| "companion_refusal ((deadline, gone, now) # rest) =
     (if now \<ge> deadline then Some (Closed DeadlineAfterDispatch)
      else if gone then Some (Closed CancelledAfterDispatch)
      else companion_refusal rest)"

datatype client_act = Nothing | Times_Out | Cancels

definition client_acts :: "client_act \<Rightarrow> 'p command \<Rightarrow> 'p command" where
  "client_acts a c = (case a of Nothing \<Rightarrow> c | Times_Out \<Rightarrow> timed_out c | Cancels \<Rightarrow> cancelled_cmd c)"

record dispatch_io =
  time_before :: nat
  guard_verdict :: "string option"
  time_after :: nat
  companion_time :: "nat \<Rightarrow> nat"
  meanwhile :: client_act
  afterwards :: client_act

definition companions :: "dispatch_io \<Rightarrow> 'p session \<Rightarrow> (nat \<times> bool \<times> nat) list" where
  "companions io s = map (\<lambda>i. (cmd_deadline (cmd s i), cmd_closed (cmd s i), companion_time io i))
     (List.map_filter (\<lambda>x. x) (active s))"

definition early_refusal :: "u64 \<Rightarrow> dispatch_io \<Rightarrow> 'p command \<Rightarrow> BeforeDispatch option" where
  "early_refusal token io c =
     (if cmd_expected c \<noteq> token then Some StaleConnection
      else if time_before io \<ge> cmd_deadline c then Some Deadline
      else if cmd_closed c \<or> cmd_state c \<noteq> QUEUED then Some BD_Cancelled
      else None)"

definition late_refusal :: "dispatch_io \<Rightarrow> (nat \<times> bool \<times> nat) list \<Rightarrow> 'p command \<Rightarrow> BeforeDispatch option" where
  "late_refusal io others c =
     (case guard_verdict io of Some m \<Rightarrow> Some (GuardRefused m) | None \<Rightarrow>
      if time_after io \<ge> cmd_deadline c then Some Deadline
      else companion_refusal others)"

text \<open>The result, and the command with its final state: the exchange to \<open>DISPATCHING\<close> happens only
  when everything else passed and the command is still queued.\<close>

definition prepare_dispatch :: "u64 \<Rightarrow> dispatch_io \<Rightarrow> (nat \<times> bool \<times> nat) list \<Rightarrow> 'p command \<Rightarrow>
    BeforeDispatch option \<times> 'p command" where
  "prepare_dispatch token io others c =
     (case early_refusal token io c of Some r \<Rightarrow> (Some r, c) | None \<Rightarrow>
       (let c1 = (client_acts (meanwhile io) c)\<lparr>cmd_guarded := guard_verdict io = None\<rparr>
        in case late_refusal io others c of Some r \<Rightarrow> (Some r, c1) | None \<Rightarrow>
          if cmd_state c1 \<noteq> QUEUED then (Some BD_Cancelled, c1)
          else (let c2 = client_acts (afterwards io) (c1\<lparr>cmd_state := DISPATCHING\<rparr>) in
            if cmd_closed c2 then (Some BD_Cancelled, c2) else (None, c2))))"

definition finish :: "nat \<Rightarrow> (RequestError, 'p ReplyData) result \<Rightarrow> 'p session \<Rightarrow> 'p session" where
  "finish i res s = with_cmd i (\<lambda>c. c\<lparr>cmd_reply := Some res\<rparr>) s"

text \<open>The command leaves the queue; it is refused with a reply, or takes its slot and its frame goes
  to the socket.\<close>

definition dispatch :: "dispatch_io \<Rightarrow> nat \<Rightarrow> 'p session \<Rightarrow> 'p session" where
  "dispatch io i s =
     (case prepare_dispatch (ses_token s) io (companions io s) (cmd s i) of
        (Some refusal, c) \<Rightarrow> finish i (Err (BeforeDispatch refusal)) (with_cmd i (\<lambda>_. c) s)
      | (None, c) \<Rightarrow>
          (with_cmd i (\<lambda>_. c\<lparr>cmd_sent := True\<rparr>) s)
            \<lparr>active := (active s)[slot (lane (cmd_kind c)) := Some i],
             mode := Sending (slot (lane (cmd_kind c))) None\<rparr>)"

section \<open>Messages\<close>

datatype message = Text_Message string | Ping | Pong | Close_Message | End_Of_Stream | Broken | Other_Message

definition SUPPORTED_EVENT_SUBSCRIPTIONS :: u64 where
  "SUPPORTED_EVENT_SUBSCRIPTIONS = 0xF0FFF"

text \<open>\<open>Publisher::publish\<close>: reserves a sequence number and permits, then hands the event over.\<close>

definition publish_event :: "json \<Rightarrow> nat \<Rightarrow> publisher \<Rightarrow> (Invalidation, unit) result \<times> publisher" where
  "publish_event data bytes p =
     (case as_str (idx data ''eventType'') of None \<Rightarrow> (Err MalformedMessage, p) | Some t \<Rightarrow>
      if t = [] then (Err MalformedMessage, p)
      else (case as_u64 (idx data ''eventIntent'') of None \<Rightarrow> (Err MalformedMessage, p) | Some intent \<Rightarrow>
        if intent AND NOT SUPPORTED_EVENT_SUBSCRIPTIONS \<noteq> 0 then (Err MalformedMessage, p)
        else (case checked_add (pub_cursor p) 1 of None \<Rightarrow> (Err Inv_IdentityExhausted, p) | Some n \<Rightarrow>
          (let p1 = p\<lparr>pub_cursor := n\<rparr> in
           if pub_items p = 0 then (Err EventOverflow, p1)
           else if pub_bytes p < bytes then (Err EventOverflow, p1)
           else if \<not> pub_consumer p then (Err EventConsumerDropped, p1)
           else if pub_room p = 0 then (Err EventOverflow, p1)
           else (Ok (), p1\<lparr>pub_items := pub_items p - 1, pub_bytes := pub_bytes p - bytes,
               pub_room := pub_room p - 1\<rparr>)))))"

datatype Incoming = In_Response bool json string | In_Other

definition incoming :: "(string \<Rightarrow> json option) \<Rightarrow> message \<Rightarrow> publisher \<Rightarrow>
    (Invalidation, Incoming) result \<times> publisher" where
  "incoming parse m p = (case m of
     Text_Message text \<Rightarrow>
       (case parse text of None \<Rightarrow> (Err MalformedMessage, p) | Some frame \<Rightarrow>
        if as_object frame = None \<or> as_object (idx frame ''d'') = None then (Err MalformedMessage, p)
        else (case as_u64 (idx frame ''op'') of None \<Rightarrow> (Err MalformedMessage, p) | Some op \<Rightarrow>
          if op = 5 then (case publish_event (idx frame ''d'') (length text) p of
              (Err e, p') \<Rightarrow> (Err e, p') | (Ok _, p') \<Rightarrow> (Ok In_Other, p'))
          else if op = 7 then (Ok (In_Response False (idx frame ''d'') text), p)
          else if op = 9 then (Ok (In_Response True (idx frame ''d'') text), p)
          else if op = 0 \<or> op = 2 then (Err ResponseIdentityMismatch, p)
          else (Err MalformedMessage, p)))
   | Ping \<Rightarrow> (Ok In_Other, p)
   | Pong \<Rightarrow> (Ok In_Other, p)
   | Close_Message \<Rightarrow> (Err Disconnected, p)
   | End_Of_Stream \<Rightarrow> (Err Disconnected, p)
   | Broken \<Rightarrow> (Err Disconnected, p)
   | Other_Message \<Rightarrow> (Err MalformedMessage, p))"

text \<open>The slot a reply belongs to: the command with its identifier; for a batch reply with a foreign
  identifier the ordinary command, or any.\<close>

definition owner_slot :: "bool \<Rightarrow> json \<Rightarrow> 'p session \<Rightarrow> nat option" where
  "owner_slot batch data s =
     (let rid = as_str (idx data ''requestId'');
          named = position (\<lambda>x. case x of None \<Rightarrow> False | Some i \<Rightarrow> rid = Some (cmd_id (cmd s i))) (active s)
      in case named of Some n \<Rightarrow> Some n | None \<Rightarrow>
        if \<not> batch then None
        else (case position (\<lambda>x. case x of None \<Rightarrow> False | Some i \<Rightarrow> lane (cmd_kind (cmd s i)) = NormalLane) (active s) of
            Some n \<Rightarrow> Some n
          | None \<Rightarrow> position (\<lambda>x. x \<noteq> None) (active s)))"

definition route_response :: "(string \<Rightarrow> json \<Rightarrow> nat \<Rightarrow> 'p) \<Rightarrow> Incoming \<Rightarrow> nat option \<Rightarrow> 'p session \<Rightarrow>
    (Invalidation, (RequestError, 'p ReplyData) result option) result \<times> 'p session" where
  "route_response capture inc deferred s = (case inc of In_Other \<Rightarrow> (Ok None, s) | In_Response batch data raw \<Rightarrow>
     (case owner_slot batch data s of None \<Rightarrow> (Ok None, s) | Some n \<Rightarrow>
       (case active s ! n of None \<Rightarrow> (Ok None, s) | Some i \<Rightarrow>
         (case response capture data (cmd_kind (cmd s i)) (cmd_id (cmd s i)) (cmd_deadline (cmd s i)) batch raw of
            Err e \<Rightarrow> (Err e, s)
          | Ok None \<Rightarrow> (Ok None, s)
          | Ok (Some res) \<Rightarrow>
              if deferred = Some n then (Ok (Some res), s)
              else (Ok None, (finish i res s)\<lparr>active := (active s)[n := None]\<rparr>)))))"

section \<open>The actor\<close>

definition in_flight :: "'p session \<Rightarrow> nat list" where
  "in_flight s = List.map_filter (\<lambda>x. x) (active s)"

text \<open>\<open>unknown_active\<close>: every command in flight ends as unknown.\<close>

definition unknown_active :: "Invalidation \<Rightarrow> 'p session \<Rightarrow> 'p session" where
  "unknown_active reason s =
     (fold (\<lambda>i. finish i (Err (Req_Unknown reason))) (in_flight s) s)\<lparr>active := [None, None, None]\<rparr>"

definition retire :: "Invalidation \<Rightarrow> 'p session \<Rightarrow> 'p session" where
  "retire reason s = (unknown_active reason s)\<lparr>mode := Closing reason, terminal := Some reason\<rparr>"

text \<open>\<open>next_command\<close>: the stop lane first, then the safety lane, then ordinary work.\<close>

definition next_command :: "'p session \<Rightarrow> (nat \<times> 'p session) option" where
  "next_command s = (case stop_queue s of i # q \<Rightarrow> Some (i, s\<lparr>stop_queue := q\<rparr>) | [] \<Rightarrow>
     (case safety_queue s of i # q \<Rightarrow> Some (i, s\<lparr>safety_queue := q\<rparr>) | [] \<Rightarrow>
       (case normal_queue s of i # q \<Rightarrow> Some (i, s\<lparr>normal_queue := q\<rparr>) | [] \<Rightarrow> None)))"

text \<open>\<open>next_control\<close>: while commands are in flight, only the stop lane and the safety lane, each when
  its slot is free.\<close>

definition next_control :: "'p session \<Rightarrow> (nat \<times> 'p session) option" where
  "next_control s = (case (stop_queue s, active s ! 1) of (i # q, None) \<Rightarrow> Some (i, s\<lparr>stop_queue := q\<rparr>) | _ \<Rightarrow>
     (case (safety_queue s, active s ! 2) of (i # q, None) \<Rightarrow> Some (i, s\<lparr>safety_queue := q\<rparr>) | _ \<Rightarrow> None))"

text \<open>The draining of the queues once the connection is over: safety, stop, ordinary.\<close>

definition next_drained :: "'p session \<Rightarrow> (nat \<times> 'p session) option" where
  "next_drained s = (case safety_queue s of i # q \<Rightarrow> Some (i, s\<lparr>safety_queue := q\<rparr>) | [] \<Rightarrow>
     (case stop_queue s of i # q \<Rightarrow> Some (i, s\<lparr>stop_queue := q\<rparr>) | [] \<Rightarrow>
       (case normal_queue s of i # q \<Rightarrow> Some (i, s\<lparr>normal_queue := q\<rparr>) | [] \<Rightarrow> None)))"

text \<open>The frame in the socket is flushed; a reply that came early is delivered now.\<close>

definition flushed :: "nat \<Rightarrow> (RequestError, 'p ReplyData) result option \<Rightarrow> 'p session \<Rightarrow> 'p session" where
  "flushed n early s = (case active s ! n of None \<Rightarrow> s\<lparr>mode := Driving\<rparr> | Some i \<Rightarrow>
     (let s1 = (with_cmd i (\<lambda>c. c\<lparr>cmd_flushed := True\<rparr>) s)\<lparr>mode := Driving\<rparr> in
      case early of None \<Rightarrow> s1 | Some res \<Rightarrow> (finish i res s1)\<lparr>active := (active s)[n := None]\<rparr>))"

text \<open>\<open>retire_observations\<close> for one slot: only a fully flushed observation may be given up alone.\<close>

definition observation_expired :: "nat \<Rightarrow> 'p command \<Rightarrow> Invalidation option" where
  "observation_expired now c =
     (if \<not> cmd_flushed c \<or> \<not> (case cmd_kind c of K_Observation _ \<Rightarrow> True | _ \<Rightarrow> False) then None
      else if now \<ge> cmd_deadline c then Some DeadlineAfterDispatch
      else if cmd_closed c then Some CancelledAfterDispatch else None)"

definition retire_observation :: "nat \<Rightarrow> nat \<Rightarrow> 'p session \<Rightarrow> 'p session" where
  "retire_observation now n s = (case active s ! n of None \<Rightarrow> s | Some i \<Rightarrow>
     (case observation_expired now (cmd s i) of None \<Rightarrow> s | Some reason \<Rightarrow>
       (finish i (Err (Req_Unknown reason)) s)\<lparr>active := (active s)[n := None]\<rparr>))"

text \<open>The message handling of the three phases of the actor: waiting, sending, driving.\<close>

definition observe_reply :: "(RequestError, 'p ReplyData) result option \<Rightarrow> (RequestError, 'p ReplyData) result option \<Rightarrow>
    (RequestError, 'p ReplyData) result option" where
  "observe_reply early res = (if early = None then res else early)"

definition receive :: "(string \<Rightarrow> json \<Rightarrow> nat \<Rightarrow> 'p) \<Rightarrow> (string \<Rightarrow> json option) \<Rightarrow> message \<Rightarrow> 'p session \<Rightarrow> 'p session" where
  "receive capture parse m s = (case incoming parse m (publishing s) of (out, p) \<Rightarrow>
     (let s1 = s\<lparr>publishing := p\<rparr> in
      case out of Err reason \<Rightarrow> retire reason s1 | Ok inc \<Rightarrow>
        (case mode s of
           Idle \<Rightarrow> (case inc of In_Response True _ _ \<Rightarrow> retire ResponseIdentityMismatch s1 | _ \<Rightarrow> s1)
         | Sending n early \<Rightarrow> (case route_response capture inc (Some n) s1 of
             (Err reason, s2) \<Rightarrow> retire reason s2
           | (Ok res, s2) \<Rightarrow> s2\<lparr>mode := Sending n (observe_reply early res)\<rparr>)
         | Driving \<Rightarrow> (case route_response capture inc None s1 of
             (Err reason, s2) \<Rightarrow> retire reason s2 | (Ok _, s2) \<Rightarrow> s2)
         | _ \<Rightarrow> s)))"

text \<open>The actor task is dropped: every command it still holds loses its reply channel.\<close>

definition crash :: "'p session \<Rightarrow> 'p session" where
  "crash s =
     (fold (\<lambda>i. with_cmd i (\<lambda>c. c\<lparr>cmd_dropped := True\<rparr>))
        (in_flight s @ normal_queue s @ stop_queue s @ safety_queue s) s)
       \<lparr>active := [None, None, None], normal_queue := [], stop_queue := [], safety_queue := [],
        mode := Ended, terminal := Some (closed_reason s)\<rparr>"

section \<open>Steps\<close>

definition client_waits :: "'p session \<Rightarrow> nat \<Rightarrow> bool" where
  "client_waits s i \<longleftrightarrow> i < length (commands s) \<and> cmd_result (cmd s i) = None \<and> \<not> cmd_closed (cmd s i)"

text \<open>Any step of a client or of the actor. The choice of a branch of a \<open>select!\<close> is left open where
  several are ready; a shutdown, a failed write, a dropped event consumer, an expired or cancelled
  command in flight may retire the connection at any time.\<close>

inductive session_step :: "(string \<Rightarrow> json \<Rightarrow> nat \<Rightarrow> 'p) \<Rightarrow> (string \<Rightarrow> json option) \<Rightarrow>
    (json \<Rightarrow> nat \<Rightarrow> (encode_error, nat) result) \<Rightarrow> 'p session \<Rightarrow> 'p session \<Rightarrow> bool"
  for capture parse encode where
  admit_single: "session_step capture parse encode s (snd (single_until encode io expected k data deadline s))"
| admit_batch: "session_step capture parse encode s (snd (batch_checked encode io expected rs halt e dl s))"
| receives: "client_waits s i \<Longrightarrow> cmd_reply (cmd s i) \<noteq> None \<Longrightarrow>
    session_step capture parse encode s (client_receives i s)"
| orphaned: "client_waits s i \<Longrightarrow> cmd_reply (cmd s i) = None \<Longrightarrow> cmd_dropped (cmd s i) \<Longrightarrow>
    session_step capture parse encode s (client_orphaned i s)"
| times_out: "client_waits s i \<Longrightarrow> session_step capture parse encode s (client_times_out i s)"
| cancelled: "client_waits s i \<Longrightarrow> session_step capture parse encode s (client_cancelled i s)"
| takes: "mode s = Idle \<Longrightarrow> next_command s = Some (i, s1) \<Longrightarrow>
    session_step capture parse encode s (dispatch io i s1)"
| controls: "mode s = Driving \<Longrightarrow> next_control s = Some (i, s1) \<Longrightarrow>
    session_step capture parse encode s (dispatch io i s1)"
| flushes: "mode s = Sending n early \<Longrightarrow> session_step capture parse encode s (flushed n early s)"
| hears: "mode s \<in> {Idle, Driving} \<or> (\<exists>n early. mode s = Sending n early) \<Longrightarrow>
    session_step capture parse encode s (receive capture parse m s)"
| gives_up: "mode s = Driving \<Longrightarrow> n < 3 \<Longrightarrow> session_step capture parse encode s (retire_observation now n s)"
| rests: "mode s = Driving \<Longrightarrow> in_flight s = [] \<Longrightarrow> session_step capture parse encode s (s\<lparr>mode := Idle\<rparr>)"
| fails: "mode s \<in> {Idle, Driving} \<or> (\<exists>n early. mode s = Sending n early) \<Longrightarrow>
    session_step capture parse encode s (retire reason s)"
| drains: "mode s = Closing reason \<Longrightarrow> next_drained s = Some (i, s1) \<Longrightarrow>
    session_step capture parse encode s (finish i (Err (BeforeDispatch (Closed reason))) s1)"
| ends: "mode s = Closing reason \<Longrightarrow> next_drained s = None \<Longrightarrow> session_step capture parse encode s (s\<lparr>mode := Ended\<rparr>)"
| crashes: "mode s \<noteq> Ended \<Longrightarrow> session_step capture parse encode s (crash s)"

definition connected :: "u64 \<Rightarrow> nat \<Rightarrow> publisher \<Rightarrow> 'p session" where
  "connected token bytes p = \<lparr>ses_token = token, ses_sequence = 0, ses_max_bytes = bytes, commands = [],
     normal_queue = [], stop_queue = [], safety_queue = [], active = [None, None, None], mode = Idle,
     terminal = None, publishing = p\<rparr>"

end
