(* ===== verification/Session_Safety.thy ===== *)
theory Session_Safety
  imports Session
begin

text \<open>
  What one connection guarantees about its commands, whatever the interleaving of clients and
  actor: an error that says a request was not dispatched is the truth now and later, an answer is
  the answer to a frame that was sent after its guard passed, and every command is settled.
\<close>

section \<open>The invariant\<close>

definition waiting :: "'p session \<Rightarrow> nat list" where
  "waiting s = stop_queue s @ safety_queue s @ normal_queue s"

definition before_dispatch :: "(RequestError, 'p ReplyData) result \<Rightarrow> bool" where
  "before_dispatch r \<longleftrightarrow> (\<exists>b. r = Err (BeforeDispatch b))"

text \<open>An answer of the peer: a success or a rejection.\<close>

definition answer :: "(RequestError, 'p ReplyData) result \<Rightarrow> bool" where
  "answer r = (case r of Ok _ \<Rightarrow> True | Err e \<Rightarrow> rejection_code e \<noteq> None)"

lemma answer_not_before: "answer r \<Longrightarrow> \<not> before_dispatch r"
  by (auto simp: answer_def before_dispatch_def rejection_code_def)

definition waits_ok :: "'p command \<Rightarrow> bool" where
  "waits_ok c \<longleftrightarrow> \<not> cmd_sent c \<and> cmd_reply c = None \<and> \<not> cmd_dropped c \<and> cmd_state c \<noteq> DISPATCHING"

definition flies_ok :: "'p command \<Rightarrow> bool" where
  "flies_ok c \<longleftrightarrow> cmd_sent c \<and> cmd_reply c = None \<and> \<not> cmd_dropped c"

definition settled_cmd :: "'p command \<Rightarrow> bool" where
  "settled_cmd c \<longleftrightarrow> cmd_reply c \<noteq> None \<or> cmd_dropped c"

definition cmd_ok :: "'p command \<Rightarrow> bool" where
  "cmd_ok c \<longleftrightarrow> (cmd_sent c \<longrightarrow> cmd_state c = DISPATCHING \<and> cmd_guarded c) \<and>
     (\<forall>r. cmd_reply c = Some r \<longrightarrow> (before_dispatch r \<longrightarrow> \<not> cmd_sent c) \<and> (answer r \<longrightarrow> cmd_sent c)) \<and>
     (\<forall>r. cmd_result c = Some r \<longrightarrow> cmd_closed c \<and> (answer r \<longrightarrow> cmd_sent c) \<and>
        (before_dispatch r \<longrightarrow> \<not> cmd_sent c \<and> (cmd_state c = ABANDONED \<or> settled_cmd c)))"

definition placed :: "'p session \<Rightarrow> nat list" where
  "placed s = waiting s @ in_flight s"

definition in_lane :: "'p session \<Rightarrow> nat \<Rightarrow> bool" where
  "in_lane s i \<longleftrightarrow> (i \<in> set (stop_queue s) \<longrightarrow> lane (cmd_kind (cmd s i)) = OwnedStopLane) \<and>
     (i \<in> set (safety_queue s) \<longrightarrow> lane (cmd_kind (cmd s i)) = SafetyStopLane) \<and>
     (i \<in> set (normal_queue s) \<longrightarrow> lane (cmd_kind (cmd s i)) = NormalLane)"

definition loc_ok :: "'p session \<Rightarrow> nat \<Rightarrow> bool" where
  "loc_ok s i \<longleftrightarrow> cmd_ok (cmd s i) \<and> (i \<in> set (waiting s) \<longrightarrow> waits_ok (cmd s i)) \<and>
     (i \<in> set (in_flight s) \<longrightarrow> flies_ok (cmd s i)) \<and> (i \<notin> set (placed s) \<longrightarrow> settled_cmd (cmd s i)) \<and>
     in_lane s i"

definition core_inv :: "'p session \<Rightarrow> bool" where
  "core_inv s \<longleftrightarrow> distinct (placed s) \<and> set (placed s) \<subseteq> {..<length (commands s)} \<and> length (active s) = 3 \<and>
     (\<forall>i < length (commands s). loc_ok s i)"

text \<open>The same with one command taken out of its place.\<close>

definition core_except :: "nat \<Rightarrow> 'p session \<Rightarrow> bool" where
  "core_except i s \<longleftrightarrow> distinct (placed s) \<and> set (placed s) \<subseteq> {..<length (commands s)} \<and> length (active s) = 3 \<and>
     i < length (commands s) \<and> i \<notin> set (placed s) \<and> (\<forall>j < length (commands s). j \<noteq> i \<longrightarrow> loc_ok s j)"

definition mode_ok :: "'p session \<Rightarrow> bool" where
  "mode_ok s = (case mode s of
     Idle \<Rightarrow> in_flight s = []
   | Sending n early \<Rightarrow> n < 3 \<and> (\<forall>r. early = Some r \<longrightarrow> answer r)
   | Driving \<Rightarrow> True
   | Closing reason \<Rightarrow> in_flight s = [] \<and> terminal s \<noteq> None
   | Ended \<Rightarrow> in_flight s = [] \<and> waiting s = [] \<and> terminal s \<noteq> None)"

definition session_inv :: "'p session \<Rightarrow> bool" where
  "session_inv s \<longleftrightarrow> core_inv s \<and> mode_ok s"

section \<open>Frame lemmas\<close>

lemma core_cong:
  assumes "commands s' = commands s" and "stop_queue s' = stop_queue s" and "safety_queue s' = safety_queue s"
    and "normal_queue s' = normal_queue s" and "active s' = active s"
  shows "core_inv s' = core_inv s" and "core_except i s' = core_except i s"
  using assms
  by (simp_all add: core_inv_def core_except_def loc_ok_def placed_def waiting_def in_flight_def cmd_def
      in_lane_def)

lemma mode_ok_cong:
  assumes "stop_queue s' = stop_queue s" and "safety_queue s' = safety_queue s" and "terminal s' = terminal s"
    and "normal_queue s' = normal_queue s" and "active s' = active s" and "mode s' = mode s"
  shows "mode_ok s' = mode_ok s"
  using assms by (cases "mode s") (simp_all add: mode_ok_def in_flight_def waiting_def)

lemma with_cmd_simps [simp]:
  "length (commands (with_cmd i f s)) = length (commands s)"
  "waiting (with_cmd i f s) = waiting s" "in_flight (with_cmd i f s) = in_flight s"
  "placed (with_cmd i f s) = placed s" "active (with_cmd i f s) = active s" "mode (with_cmd i f s) = mode s"
  "terminal (with_cmd i f s) = terminal s" "ses_token (with_cmd i f s) = ses_token s"
  "stop_queue (with_cmd i f s) = stop_queue s" "safety_queue (with_cmd i f s) = safety_queue s"
  "normal_queue (with_cmd i f s) = normal_queue s"
  by (simp_all add: with_cmd_def waiting_def in_flight_def placed_def)

lemma cmd_with_cmd: "i < length (commands s) \<Longrightarrow> cmd (with_cmd i f s) j = (if j = i then f (cmd s i) else cmd s j)"
  by (auto simp: with_cmd_def cmd_def)

lemma core_settle:
  assumes "core_except i s" and "cmd_ok (f (cmd s i))" and "settled_cmd (f (cmd s i))"
  shows "core_inv (with_cmd i f s)"
  using assms by (auto simp: core_inv_def core_except_def loc_ok_def cmd_with_cmd placed_def in_lane_def waiting_def)

lemma core_client:
  assumes "core_inv s" and "i < length (commands s)" and "cmd_ok (cmd s i) \<Longrightarrow> cmd_ok (f (cmd s i))"
    and "waits_ok (cmd s i) \<Longrightarrow> waits_ok (f (cmd s i))" and "flies_ok (cmd s i) \<Longrightarrow> flies_ok (f (cmd s i))"
    and "settled_cmd (cmd s i) \<Longrightarrow> settled_cmd (f (cmd s i))" and "cmd_kind (f (cmd s i)) = cmd_kind (cmd s i)"
  shows "core_inv (with_cmd i f s)"
  using assms by (auto simp: core_inv_def loc_ok_def cmd_with_cmd in_lane_def)

lemma map_filter_update_None:
  "n < length xs \<Longrightarrow> xs ! n = Some i \<Longrightarrow> distinct (List.map_filter (\<lambda>x. x) xs) \<Longrightarrow>
     List.map_filter (\<lambda>x. x) (xs[n := None]) = filter (\<lambda>j. j \<noteq> i) (List.map_filter (\<lambda>x. x) xs)"
proof (induction xs arbitrary: n)
  case (Cons a xs)
  have "filter (\<lambda>j. j \<noteq> i) ys = ys" if "i \<notin> set ys" for ys :: "'a list"
    using that by (induction ys) auto
  moreover have "i \<in> set (List.map_filter (\<lambda>x. x) xs)" if "n = Suc m" for m
    using Cons.prems(1,2) that nth_mem [of m xs] by (force simp: List.map_filter_def)
  ultimately show ?case
    using Cons by (cases n; cases a) (auto simp: map_filter_simps)
qed simp

lemma map_filter_update_Some:
  "n < length xs \<Longrightarrow> xs ! n = None \<Longrightarrow>
     mset (List.map_filter (\<lambda>x. x) (xs[n := Some i])) = add_mset i (mset (List.map_filter (\<lambda>x. x) xs))"
proof (induction xs arbitrary: n)
  case (Cons a xs)
  then show ?case by (cases n; cases a) (auto simp: map_filter_simps)
qed simp

lemma core_land:
  assumes "core_inv s" and "n < 3" and "active s ! n = Some i"
  shows "core_except i (s\<lparr>active := (active s)[n := None]\<rparr>) \<and> cmd_ok (cmd s i) \<and> flies_ok (cmd s i)"
proof -
  let ?s = "s\<lparr>active := (active s)[n := None]\<rparr>"
  from assms(1,2) have n: "n < length (active s)" by (simp add: core_inv_def)
  have d: "distinct (in_flight s)" using assms(1) by (simp add: core_inv_def placed_def)
  have fl: "in_flight ?s = filter (\<lambda>j. j \<noteq> i) (in_flight s)"
    using map_filter_update_None [OF n assms(3)] d by (simp add: in_flight_def)
  have mem: "i \<in> set (in_flight s)"
    using nth_mem [OF n] assms(3) by (force simp: in_flight_def List.map_filter_def)
  have w: "waiting ?s = waiting s" by (simp add: waiting_def)
  have len: "i < length (commands s)" using assms(1) mem by (auto simp: core_inv_def placed_def)
  have notw: "i \<notin> set (waiting s)" using assms(1) mem by (auto simp: core_inv_def placed_def)
  have loc: "loc_ok ?s j" if "j \<noteq> i" "j < length (commands s)" for j
    using that assms(1) by (auto simp: core_inv_def loc_ok_def placed_def fl w cmd_def in_lane_def)
  have "core_except i ?s"
    using assms(1) loc len notw
    by (auto simp: core_inv_def core_except_def placed_def fl w)
  moreover have "cmd_ok (cmd s i)" "flies_ok (cmd s i)"
    using assms(1) len mem by (auto simp: core_inv_def loc_ok_def)
  ultimately show ?thesis by simp
qed

lemma core_take:
  assumes "core_inv s" and "i \<in> set (waiting s)" and "waiting s1 = filter (\<lambda>j. j \<noteq> i) (waiting s)"
    and "commands s1 = commands s" and "active s1 = active s" and "set (stop_queue s1) \<subseteq> set (stop_queue s)"
    and "set (safety_queue s1) \<subseteq> set (safety_queue s)" and "set (normal_queue s1) \<subseteq> set (normal_queue s)"
  shows "core_except i s1 \<and> cmd_ok (cmd s1 i) \<and> waits_ok (cmd s1 i)"
proof -
  have f: "in_flight s1 = in_flight s" using assms(5) by (simp add: in_flight_def)
  have len: "i < length (commands s)" using assms(1,2) by (auto simp: core_inv_def placed_def)
  have noti: "i \<notin> set (in_flight s)" using assms(1,2) by (auto simp: core_inv_def placed_def)
  have loc: "loc_ok s1 j" if "j \<noteq> i" "j < length (commands s)" for j
  proof -
    have "loc_ok s j" using that assms(1) by (simp add: core_inv_def)
    with that(1) assms(3-8) show ?thesis by (auto simp: loc_ok_def placed_def f cmd_def in_lane_def)
  qed
  have "core_except i s1"
    using assms(1-5) loc len noti by (auto simp: core_inv_def core_except_def placed_def f)
  moreover have "cmd_ok (cmd s1 i)" "waits_ok (cmd s1 i)"
    using assms len by (auto simp: core_inv_def loc_ok_def cmd_def)
  ultimately show ?thesis by simp
qed

lemma core_fly:
  assumes "core_except i s" and "n < 3" and "active s ! n = None" and "cmd_ok c" and "flies_ok c"
  shows "core_inv ((with_cmd i (\<lambda>_. c) s)\<lparr>active := (active s)[n := Some i], mode := m\<rparr>)"
proof -
  let ?s = "(with_cmd i (\<lambda>_. c) s)\<lparr>active := (active s)[n := Some i], mode := m\<rparr>"
  from assms(1,2) have n: "n < length (active s)" and len: "i < length (commands s)"
      and noti: "i \<notin> set (placed s)" by (simp_all add: core_except_def)
  have fl: "mset (in_flight ?s) = add_mset i (mset (in_flight s))"
    using map_filter_update_Some [OF n assms(3)] by (simp add: in_flight_def)
  then have fs: "set (in_flight ?s) = insert i (set (in_flight s))"
    by (metis set_mset_add_mset_insert set_mset_mset)
  have q: "stop_queue ?s = stop_queue s" "safety_queue ?s = safety_queue s" "normal_queue ?s = normal_queue s"
    by simp_all
  have w: "waiting ?s = waiting s" by (simp add: waiting_def)
  have "distinct (in_flight ?s)"
    using fl mset_eq_imp_distinct_iff [of "in_flight ?s" "i # in_flight s"] noti assms(1)
    by (simp add: placed_def core_except_def)
  then have d: "distinct (placed ?s)" "set (placed ?s) \<subseteq> {..<length (commands s)}"
    using assms(1) noti len by (auto simp: placed_def core_except_def fs w)
  have c: "cmd ?s j = (if j = i then c else cmd s j)" for j
    using cmd_with_cmd [OF len, of "\<lambda>_. c" j] by (simp add: cmd_def)
  have "loc_ok ?s j" if "j < length (commands s)" for j
    using that assms(1,4,5) noti
    by (auto simp: loc_ok_def core_except_def placed_def fs w c in_lane_def waiting_def q)
  with d assms(1) show ?thesis by (simp add: core_inv_def core_except_def with_cmd_def)
qed

section \<open>Clients\<close>

lemmas cmd_defs = cmd_ok_def waits_ok_def flies_ok_def settled_cmd_def before_dispatch_def answer_def
  rejection_code_def

lemma timed_out_ok:
  assumes "cmd_ok c" and "cmd_result c = None"
  shows "cmd_ok (timed_out c)" and "cmd_ok (cancelled_cmd c)"
  using assms by (auto simp: timed_out_def cancelled_cmd_def cmd_defs)

lemma timed_out_places:
  "waits_ok c \<Longrightarrow> waits_ok (timed_out c)" "flies_ok c \<Longrightarrow> flies_ok (timed_out c)"
  "settled_cmd c \<Longrightarrow> settled_cmd (timed_out c)" "waits_ok c \<Longrightarrow> waits_ok (cancelled_cmd c)"
  "flies_ok c \<Longrightarrow> flies_ok (cancelled_cmd c)" "settled_cmd c \<Longrightarrow> settled_cmd (cancelled_cmd c)"
  by (simp_all add: timed_out_def cancelled_cmd_def waits_ok_def flies_ok_def settled_cmd_def)

lemma timed_out_kind: "cmd_kind (timed_out c) = cmd_kind c" "cmd_kind (cancelled_cmd c) = cmd_kind c"
  by (simp_all add: timed_out_def cancelled_cmd_def)

lemma client_keeps:
  assumes "core_inv s" and "client_waits s i"
  shows "cmd_reply (cmd s i) \<noteq> None \<Longrightarrow> core_inv (client_receives i s)"
    and "cmd_reply (cmd s i) = None \<Longrightarrow> cmd_dropped (cmd s i) \<Longrightarrow> core_inv (client_orphaned i s)"
    and "core_inv (client_times_out i s)" and "core_inv (client_cancelled i s)"
proof -
  from assms(2) have i: "i < length (commands s)" "cmd_result (cmd s i) = None"
    by (simp_all add: client_waits_def)
  show "core_inv (client_times_out i s)"
    unfolding client_times_out_def
    by (rule core_client [OF assms(1) i(1)]) (simp_all add: timed_out_ok timed_out_places timed_out_kind i(2))
  show "core_inv (client_cancelled i s)"
    unfolding client_cancelled_def
    by (rule core_client [OF assms(1) i(1)]) (simp_all add: timed_out_ok timed_out_places timed_out_kind i(2))
  show "core_inv (client_receives i s)" if "cmd_reply (cmd s i) \<noteq> None"
    unfolding client_receives_def
    by (rule core_client [OF assms(1) i(1)]) (use that in \<open>auto simp: cmd_ok_def waits_ok_def flies_ok_def
      settled_cmd_def\<close>)
  show "core_inv (client_orphaned i s)" if "cmd_reply (cmd s i) = None" "cmd_dropped (cmd s i)"
    unfolding client_orphaned_def
    by (rule core_client [OF assms(1) i(1)]) (use that in \<open>auto simp: cmd_defs\<close>)
qed

section \<open>Admission\<close>

lemma push_keeps:
  assumes "core_inv s" and "waits_ok c" and "cmd_ok c"
  shows "core_inv (push_command c s) \<and> mode (push_command c s) = mode s \<and> terminal (push_command c s) = terminal s \<and>
    in_flight (push_command c s) = in_flight s"
proof -
  let ?n = "length (commands s)" and ?s = "push_command c s"
  have f: "in_flight ?s = in_flight s" "active ?s = active s" "commands ?s = commands s @ [c]" "mode ?s = mode s"
      "terminal ?s = terminal s"
    by (simp_all add: push_command_def Let_def in_flight_def split: Lane.split)
  have w: "mset (waiting ?s) = add_mset ?n (mset (waiting s))"
    by (auto simp: push_command_def Let_def waiting_def split: Lane.split)
  then have ws: "set (waiting ?s) = insert ?n (set (waiting s))"
    by (metis set_mset_add_mset_insert set_mset_mset)
  have new: "?n \<notin> set (placed s)" using assms(1) by (auto simp: core_inv_def)
  have q: "set (stop_queue ?s) \<subseteq> set (stop_queue s) \<union> {?n}" "set (safety_queue ?s) \<subseteq> set (safety_queue s) \<union> {?n}"
      "set (normal_queue ?s) \<subseteq> set (normal_queue s) \<union> {?n}"
    by (auto simp: push_command_def Let_def split: Lane.splits)
  have own: "in_lane ?s ?n"
    using new by (auto simp: push_command_def Let_def in_lane_def cmd_def placed_def waiting_def split: Lane.split)
  have "distinct (waiting ?s)"
    using w mset_eq_imp_distinct_iff [of "waiting ?s" "?n # waiting s"] new assms(1)
    by (simp add: placed_def core_inv_def)
  then have d: "distinct (placed ?s)" "set (placed ?s) \<subseteq> {..<Suc ?n}"
    using assms(1) new by (auto simp: placed_def core_inv_def ws f)
  have "loc_ok ?s j" if "j < Suc ?n" for j
  proof (cases "j = ?n")
    case True
    then have "cmd ?s j = c" by (simp add: cmd_def f)
    with True assms(2,3) new own show ?thesis by (auto simp: loc_ok_def ws f placed_def)
  next
    case False
    with that have "j < ?n" by simp
    moreover from this have "cmd ?s j = cmd s j" by (simp add: cmd_def f nth_append)
    ultimately show ?thesis
      using assms(1) False q by (auto simp: core_inv_def loc_ok_def ws f placed_def in_lane_def)
  qed
  with d assms(1) f show ?thesis by (simp add: core_inv_def)
qed

lemma queued_command_ok [simp]: "waits_ok (queued_command e k rid d)" "cmd_ok (queued_command e k rid d)"
  by (simp_all add: queued_command_def waits_ok_def cmd_ok_def)

lemma enqueue_keeps:
  assumes "session_inv s" and "terminal s = None" and "waits_ok c" and "cmd_ok c"
  shows "session_inv (snd (enqueue encode io c frame (s\<lparr>ses_sequence := n\<rparr>)))"
proof -
  let ?s = "s\<lparr>ses_sequence := n\<rparr>"
  have inv: "core_inv ?s" "mode_ok ?s"
    using assms(1) core_cong(1) [of ?s s] mode_ok_cong [of ?s s] by (simp_all add: session_inv_def)
  have "snd (enqueue encode io c frame ?s) = ?s \<or> snd (enqueue encode io c frame ?s) = push_command c ?s"
    by (auto simp: enqueue_def split: sum.split encode_error.split)
  then show ?thesis
  proof
    assume "snd (enqueue encode io c frame ?s) = push_command c ?s"
    with push_keeps [OF inv(1) assms(3,4)] inv(2) assms(2) show ?thesis
      by (auto simp: session_inv_def mode_ok_def split: actor_mode.splits)
  qed (use inv in \<open>simp add: session_inv_def\<close>)
qed

lemma admissions_keep:
  assumes "session_inv s"
  shows "session_inv (snd (single_until encode io expected k data deadline s))"
    and "session_inv (snd (batch_checked encode io expected rs halt e dl s))"
  using assms enqueue_keeps [OF assms]
  by (auto simp: single_until_def batch_checked_def Let_def split: option.split)

section \<open>Dispatch\<close>

lemma client_acts_keeps:
  assumes "cmd_ok c" and "cmd_result c = None"
  shows "cmd_ok (client_acts a c)" and "cmd_sent (client_acts a c) = cmd_sent c"
    and "cmd_reply (client_acts a c) = cmd_reply c" and "cmd_dropped (client_acts a c) = cmd_dropped c"
    and "cmd_kind (client_acts a c) = cmd_kind c"
    and "cmd_state c \<noteq> DISPATCHING \<Longrightarrow> cmd_state (client_acts a c) \<noteq> DISPATCHING"
    and "cmd_state (client_acts a c) = QUEUED \<Longrightarrow> client_acts a c = c \<or> cmd_state c \<noteq> QUEUED"
    and "\<not> cmd_closed (client_acts a c) \<Longrightarrow> client_acts a c = c"
proof -
  show "cmd_ok (client_acts a c)"
    using assms by (simp add: client_acts_def timed_out_ok split: client_act.split)
qed (auto simp: client_acts_def timed_out_def cancelled_cmd_def split: client_act.splits if_splits)

lemma refused_ok: "cmd_ok c \<Longrightarrow> \<not> cmd_sent c \<Longrightarrow> cmd_ok (c\<lparr>cmd_reply := Some (Err (BeforeDispatch b))\<rparr>)"
  by (auto simp: cmd_defs)

lemma prepare_dispatch_ok:
  assumes "prepare_dispatch token io others c = (r, c')" and "cmd_ok c" and "waits_ok c"
  shows "cmd_kind c' = cmd_kind c \<and>
    (case r of Some b \<Rightarrow> cmd_ok (c'\<lparr>cmd_reply := Some (Err (BeforeDispatch b))\<rparr>)
     | None \<Rightarrow> cmd_ok (c'\<lparr>cmd_sent := True\<rparr>) \<and> flies_ok (c'\<lparr>cmd_sent := True\<rparr>))"
proof (cases "early_refusal token io c")
  case (Some b)
  with assms(1) have "r = Some b" "c' = c" by (simp_all add: prepare_dispatch_def)
  with refused_ok [OF assms(2)] assms(3) show ?thesis by (simp add: waits_ok_def)
next
  case None
  then have c: "cmd_state c = QUEUED" "\<not> cmd_closed c" by (auto simp: early_refusal_def split: if_splits)
  with assms(2) have res: "cmd_result c = None" by (auto simp: cmd_ok_def)
  define c1 where "c1 = (client_acts (meanwhile io) c)\<lparr>cmd_guarded := guard_verdict io = None\<rparr>"
  define c2 where "c2 = client_acts (afterwards io) (c1\<lparr>cmd_state := DISPATCHING\<rparr>)"
  note acts = client_acts_keeps [OF assms(2) res, of "meanwhile io"]
  have c1: "cmd_kind c1 = cmd_kind c" "waits_ok c1" "cmd_ok c1"
    using acts assms(3) c(1) by (auto simp: c1_def waits_ok_def cmd_ok_def settled_cmd_def)
  have r: "(r, c') = (case late_refusal io others c of Some b \<Rightarrow> (Some b, c1) | None \<Rightarrow>
      if cmd_state c1 \<noteq> QUEUED then (Some BD_Cancelled, c1)
      else if cmd_closed c2 then (Some BD_Cancelled, c2) else (None, c2))"
    using assms(1) [symmetric]
    by (simp only: prepare_dispatch_def None option.case Let_def c1_def [symmetric] c2_def [symmetric])
  show ?thesis
  proof (cases "late_refusal io others c = None \<and> cmd_state c1 = QUEUED")
    case False
    with r c1 refused_ok [OF c1(3)] show ?thesis
      by (auto simp: waits_ok_def split: option.splits if_splits)
  next
    case True
    then have "client_acts (meanwhile io) c = c" using acts(7) c(1) by (simp add: c1_def)
    then have eq: "c1 = c\<lparr>cmd_guarded := True\<rparr>"
      using True by (auto simp: c1_def late_refusal_def split: option.splits)
    let ?c = "c\<lparr>cmd_guarded := True, cmd_state := DISPATCHING\<rparr>"
    have pre: "cmd_ok ?c" "cmd_result ?c = None" using assms(2,3) res by (auto simp: cmd_ok_def waits_ok_def)
    have c2: "c2 = client_acts (afterwards io) ?c" by (simp add: c2_def eq)
    note late = client_acts_keeps [OF pre, of "afterwards io", folded c2]
    show ?thesis
    proof (cases "cmd_closed c2")
      case closed: True
      with r True have "r = Some BD_Cancelled" "c' = c2" by auto
      moreover have "\<not> cmd_sent c2" using late(2) assms(3) by (simp add: waits_ok_def)
      ultimately show ?thesis using refused_ok [OF late(1)] late(5) by simp
    next
      case False
      with late(8) have "c2 = ?c" by simp
      moreover from r True False have "r = None" "c' = c2" by auto
      ultimately show ?thesis
        using assms(2,3) res by (auto simp: cmd_ok_def waits_ok_def flies_ok_def)
    qed
  qed
qed

lemma dispatch_keeps:
  assumes "core_except i s" and "cmd_ok (cmd s i)" and "waits_ok (cmd s i)"
    and "active s ! slot (lane (cmd_kind (cmd s i))) = None"
  shows "core_inv (dispatch io i s)"
    and "mode (dispatch io i s) = mode s \<and> in_flight (dispatch io i s) = in_flight s \<or>
      (\<exists>n < 3. mode (dispatch io i s) = Sending n None)"
proof -
  obtain r c where p: "prepare_dispatch (ses_token s) io (companions io s) (cmd s i) = (r, c)"
    by (cases "prepare_dispatch (ses_token s) io (companions io s) (cmd s i)")
  note ok = prepare_dispatch_ok [OF p assms(2,3)]
  have i: "i < length (commands s)" using assms(1) by (simp add: core_except_def)
  have slot: "slot l < 3" for l by (simp add: slot_def split: Lane.split)
  have "core_inv (dispatch io i s) \<and> (mode (dispatch io i s) = mode s \<and> in_flight (dispatch io i s) = in_flight s \<or>
      (\<exists>n < 3. mode (dispatch io i s) = Sending n None))"
  proof (cases r)
    case None
    with ok have "cmd_ok (c\<lparr>cmd_sent := True\<rparr>)" "flies_ok (c\<lparr>cmd_sent := True\<rparr>)" "cmd_kind c = cmd_kind (cmd s i)"
      by auto
    with core_fly [OF assms(1) slot assms(4)] p None slot show ?thesis by (simp add: dispatch_def)
  next
    case (Some b)
    have "finish i (Err (BeforeDispatch b)) (with_cmd i (\<lambda>_. c) s) =
        with_cmd i (\<lambda>_. c\<lparr>cmd_reply := Some (Err (BeforeDispatch b))\<rparr>) s"
      using i by (simp add: finish_def with_cmd_def)
    moreover have "core_inv (with_cmd i (\<lambda>_. c\<lparr>cmd_reply := Some (Err (BeforeDispatch b))\<rparr>) s)"
      by (rule core_settle [OF assms(1)]) (use ok Some in \<open>auto simp: settled_cmd_def\<close>)
    ultimately show ?thesis using p Some by (simp add: dispatch_def)
  qed
  then show "core_inv (dispatch io i s)" "mode (dispatch io i s) = mode s \<and> in_flight (dispatch io i s) = in_flight s \<or>
      (\<exists>n < 3. mode (dispatch io i s) = Sending n None)" by auto
qed

section \<open>Taking commands\<close>

definition takes_head :: "'p session \<Rightarrow> nat \<Rightarrow> 'p session \<Rightarrow> bool" where
  "takes_head s i s1 \<longleftrightarrow> (\<exists>q. stop_queue s = i # q \<and> s1 = s\<lparr>stop_queue := q\<rparr>) \<or>
     (\<exists>q. safety_queue s = i # q \<and> s1 = s\<lparr>safety_queue := q\<rparr>) \<or>
     (\<exists>q. normal_queue s = i # q \<and> s1 = s\<lparr>normal_queue := q\<rparr>)"

lemma next_takes:
  "next_command s = Some (i, s1) \<Longrightarrow> takes_head s i s1"
  "next_drained s = Some (i, s1) \<Longrightarrow> takes_head s i s1"
  "next_control s = Some (i, s1) \<Longrightarrow> takes_head s i s1"
  by (auto simp: next_command_def next_drained_def next_control_def takes_head_def
      split: list.splits option.splits)

lemma takes_head_core:
  assumes "core_inv s" and "takes_head s i s1"
  shows "core_except i s1 \<and> cmd_ok (cmd s1 i) \<and> waits_ok (cmd s1 i) \<and> cmd s1 i = cmd s i"
proof -
  have d: "distinct (waiting s)" using assms(1) by (simp add: core_inv_def placed_def)
  have id: "i \<notin> set q \<Longrightarrow> filter (\<lambda>j. j \<noteq> i) q = q" for q by (induction q) auto
  have "waiting s1 = filter (\<lambda>j. j \<noteq> i) (waiting s)"
    using assms(2) d by (auto simp: takes_head_def waiting_def id)
  moreover have "i \<in> set (waiting s)" "commands s1 = commands s" "active s1 = active s"
      "set (stop_queue s1) \<subseteq> set (stop_queue s)" "set (safety_queue s1) \<subseteq> set (safety_queue s)"
      "set (normal_queue s1) \<subseteq> set (normal_queue s)"
    using assms(2) by (auto simp: takes_head_def waiting_def)
  ultimately show ?thesis using core_take [OF assms(1), of i s1] by (simp add: cmd_def)
qed

lemma takes_head_rest:
  "takes_head s i s1 \<Longrightarrow> active s1 = active s \<and> mode s1 = mode s \<and> terminal s1 = terminal s \<and> in_flight s1 = in_flight s"
  by (auto simp: takes_head_def in_flight_def)

lemma no_flight_free: "in_flight s = [] \<Longrightarrow> n < length (active s) \<Longrightarrow> active s ! n = None"
proof (rule ccontr)
  assume *: "in_flight s = []" "n < length (active s)" "active s ! n \<noteq> None"
  then obtain i where "active s ! n = Some i" by auto
  with nth_mem [OF *(2)] have "i \<in> set (in_flight s)" by (force simp: in_flight_def List.map_filter_def)
  with *(1) show False by simp
qed

lemma take_step:
  assumes "session_inv s" and "mode s = Idle" and "next_command s = Some (i, s1)"
  shows "session_inv (dispatch io i s1)"
proof -
  note head = next_takes(1) [OF assms(3)]
  note rest = takes_head_rest [OF head]
  from assms(1) have core: "core_inv s" and idle: "in_flight s = []"
    using assms(2) by (simp_all add: session_inv_def mode_ok_def)
  note k = takes_head_core [OF core head]
  have "length (active s1) = 3" using core rest by (simp add: core_inv_def)
  then have free: "active s1 ! slot (lane (cmd_kind (cmd s1 i))) = None"
    using idle rest no_flight_free [of s1] by (simp add: slot_def split: Lane.split)
  from k have "core_except i s1" "cmd_ok (cmd s1 i)" "waits_ok (cmd s1 i)" by auto
  note d = dispatch_keeps [OF this free, of io]
  from d(2) have "mode_ok (dispatch io i s1)"
    using assms(2) rest idle by (auto simp: mode_ok_def)
  with d(1) show ?thesis by (simp add: session_inv_def)
qed

lemma next_control_free:
  assumes "core_inv s" and "next_control s = Some (i, s1)"
  shows "active s1 ! slot (lane (cmd_kind (cmd s1 i))) = None"
proof -
  note head = next_takes(3) [OF assms(2)]
  from takes_head_core [OF assms(1) head] have same: "cmd s1 i = cmd s i" by simp
  have lanes: "i \<in> set (stop_queue s) \<Longrightarrow> lane (cmd_kind (cmd s i)) = OwnedStopLane"
      "i \<in> set (safety_queue s) \<Longrightarrow> lane (cmd_kind (cmd s i)) = SafetyStopLane"
    using assms(1) by (auto simp: core_inv_def loc_ok_def in_lane_def placed_def waiting_def)
  have "i \<in> set (stop_queue s) \<and> active s1 ! 1 = None \<or> i \<in> set (safety_queue s) \<and> active s1 ! 2 = None"
    using assms(2) by (auto simp: next_control_def split: list.splits option.splits)
  with lanes same show ?thesis by (auto simp: slot_def)
qed

lemma control_step_keeps:
  assumes "session_inv s" and "mode s = Driving" and "next_control s = Some (i, s1)"
  shows "session_inv (dispatch io i s1)"
proof -
  note head = next_takes(3) [OF assms(3)]
  from assms(1) have core: "core_inv s" by (simp add: session_inv_def)
  note k = takes_head_core [OF core head]
  from k have "core_except i s1" "cmd_ok (cmd s1 i)" "waits_ok (cmd s1 i)" by auto
  note d = dispatch_keeps [OF this next_control_free [OF core assms(3)], of io]
  from d(2) have "mode_ok (dispatch io i s1)"
    using assms(2) takes_head_rest [OF head] by (auto simp: mode_ok_def)
  with d(1) show ?thesis by (simp add: session_inv_def)
qed

lemma drain_step:
  assumes "session_inv s" and "mode s = Closing reason" and "next_drained s = Some (i, s1)"
  shows "session_inv (finish i (Err (BeforeDispatch (Closed reason))) s1)"
proof -
  note head = next_takes(2) [OF assms(3)]
  from assms(1) have core: "core_inv s" by (simp add: session_inv_def)
  note k = takes_head_core [OF core head]
  have "core_inv (finish i (Err (BeforeDispatch (Closed reason))) s1)"
    unfolding finish_def
    by (rule core_settle) (use k refused_ok in \<open>auto simp: settled_cmd_def waits_ok_def\<close>)
  moreover have "mode_ok (finish i (Err (BeforeDispatch (Closed reason))) s1)"
    using assms(1,2) takes_head_rest [OF head] by (simp add: session_inv_def mode_ok_def finish_def)
  ultimately show ?thesis by (simp add: session_inv_def)
qed

section \<open>Landing\<close>

lemma answered_ok: "cmd_ok c \<Longrightarrow> flies_ok c \<Longrightarrow> \<not> before_dispatch r \<Longrightarrow> cmd_ok (c\<lparr>cmd_reply := Some r\<rparr>)"
  by (auto simp: cmd_ok_def flies_ok_def settled_cmd_def)

lemma land_keeps:
  assumes "core_inv s" and "n < 3" and "active s ! n = Some i" and "\<not> before_dispatch r"
  shows "core_inv ((finish i r s)\<lparr>active := (active s)[n := None]\<rparr>)"
proof -
  let ?s = "s\<lparr>active := (active s)[n := None]\<rparr>"
  note k = core_land [OF assms(1-3)]
  have same: "cmd ?s i = cmd s i" by (simp add: cmd_def)
  have "core_inv (with_cmd i (\<lambda>c. c\<lparr>cmd_reply := Some r\<rparr>) ?s)"
    by (rule core_settle) (use k same answered_ok assms(4) in \<open>auto simp: settled_cmd_def\<close>)
  moreover have "core_inv ((finish i r s)\<lparr>active := (active s)[n := None]\<rparr>) =
      core_inv (with_cmd i (\<lambda>c. c\<lparr>cmd_reply := Some r\<rparr>) ?s)"
    by (rule core_cong) (simp_all add: finish_def with_cmd_def)
  ultimately show ?thesis by simp
qed

lemma response_answers:
  "response capture data k rid deadline batch raw = Ok (Some r) \<Longrightarrow> answer r"
  by (cases k; cases batch)
    (auto simp: response_def answer_def rejection_code_def Let_def split: if_splits option.splits)

lemma owner_slot_bound:
  assumes "owner_slot batch data s = Some n"
  shows "n < length (active s)"
  using assms position_Some
  by (fastforce simp: owner_slot_def Let_def split: option.splits if_splits)

lemma route_keeps:
  assumes "core_inv s" and "route_response capture inc deferred s = (out, s')"
  shows "core_inv s'" and "mode s' = mode s" and "\<And>r. out = Ok (Some r) \<Longrightarrow> answer r"
    and "in_flight s = [] \<Longrightarrow> in_flight s' = []"
proof -
  have "core_inv s' \<and> mode s' = mode s \<and> (\<forall>r. out = Ok (Some r) \<longrightarrow> answer r) \<and> (in_flight s = [] \<longrightarrow> in_flight s' = [])"
  proof (cases "s' = s \<and> (\<forall>r. out \<noteq> Ok (Some r))")
    case False
    then obtain batch data raw n i r where *: "inc = In_Response batch data raw" "owner_slot batch data s = Some n"
        "active s ! n = Some i"
        "response capture data (cmd_kind (cmd s i)) (cmd_id (cmd s i)) (cmd_deadline (cmd s i)) batch raw = Ok (Some r)"
        "deferred = Some n \<and> out = Ok (Some r) \<and> s' = s \<or>
         out = Ok None \<and> s' = (finish i r s)\<lparr>active := (active s)[n := None]\<rparr>"
      using assms(2)
      by (auto simp: route_response_def split: Incoming.splits option.splits sum.splits if_splits)
    have n: "n < 3" using owner_slot_bound [OF *(2)] assms(1) by (simp add: core_inv_def)
    have r: "answer r" by (rule response_answers [OF *(4)])
    have "i \<in> set (in_flight s)"
      using nth_mem [OF owner_slot_bound [OF *(2)]] *(3) by (force simp: in_flight_def List.map_filter_def)
    with *(5) r land_keeps [OF assms(1) n *(3) answer_not_before [OF r]] assms(1) show ?thesis
      by (auto simp: finish_def)
  qed (use assms(1) in auto)
  then show "core_inv s'" "mode s' = mode s" "\<And>r. out = Ok (Some r) \<Longrightarrow> answer r"
    "in_flight s = [] \<Longrightarrow> in_flight s' = []" by auto
qed

lemma fold_with_cmd:
  assumes "set is \<subseteq> {..<length (commands s)}" and "distinct is"
  shows "commands (fold (\<lambda>i. with_cmd i f) is s) =
      map (\<lambda>i. if i \<in> set is then f (cmd s i) else cmd s i) [0 ..< length (commands s)]"
    and "active (fold (\<lambda>i. with_cmd i f) is s) = active s"
    and "waiting (fold (\<lambda>i. with_cmd i f) is s) = waiting s"
    and "stop_queue (fold (\<lambda>i. with_cmd i f) is s) = stop_queue s"
    and "safety_queue (fold (\<lambda>i. with_cmd i f) is s) = safety_queue s"
    and "normal_queue (fold (\<lambda>i. with_cmd i f) is s) = normal_queue s"
  using assms
proof (induction "is" arbitrary: s)
  case Nil
  case 1
  show ?case by (auto intro: nth_equalityI simp: cmd_def)
next
  case (Cons i "is")
  case 1
  then have "length (commands (with_cmd i f s)) = length (commands s)" "i < length (commands s)" by auto
  with 1 Cons(1) [of "with_cmd i f s"] show ?case
    by (auto simp: cmd_with_cmd intro!: map_cong)
qed auto

section \<open>Endings\<close>

lemma core_sweep:
  assumes "core_inv s" and "commands s' = map (\<lambda>i. if i \<in> A then f (cmd s i) else cmd s i) [0 ..< length (commands s)]"
    and "in_flight s' = []" and "length (active s') = 3" and "set (in_flight s) \<subseteq> A"
    and "waiting s' = filter (\<lambda>j. j \<notin> A) (waiting s)"
    and "set (stop_queue s') \<subseteq> set (stop_queue s)" and "set (safety_queue s') \<subseteq> set (safety_queue s)"
    and "set (normal_queue s') \<subseteq> set (normal_queue s)"
    and "\<And>i. i \<in> A \<Longrightarrow> i < length (commands s) \<Longrightarrow> cmd_ok (f (cmd s i)) \<and> settled_cmd (f (cmd s i))"
  shows "core_inv s'"
proof -
  have c: "cmd s' j = (if j \<in> A then f (cmd s j) else cmd s j)" if "j < length (commands s)" for j
    using that by (simp add: assms(2) cmd_def)
  have w: "set (stop_queue s') \<union> set (safety_queue s') \<union> set (normal_queue s') = set (waiting s) - A"
    using arg_cong [OF assms(6), of set] by (auto simp: waiting_def)
  have "loc_ok s' j" if j: "j < length (commands s)" for j
  proof -
    have old: "loc_ok s j" using assms(1) j by (simp add: core_inv_def)
    show ?thesis
    proof (cases "j \<in> A")
      case True
      with w have "j \<notin> set (stop_queue s')" "j \<notin> set (safety_queue s')" "j \<notin> set (normal_queue s')" by auto
      with True assms(10) [OF True j] c [OF j] assms(3) show ?thesis
        by (simp add: loc_ok_def placed_def in_lane_def waiting_def)
    next
      case False
      with old c [OF j] assms(3,5-9) show ?thesis
        by (auto simp: loc_ok_def placed_def in_lane_def)
    qed
  qed
  moreover have "distinct (placed s')" "set (placed s') \<subseteq> {..<length (commands s)}"
    using assms(1,3,6) by (auto simp: core_inv_def placed_def)
  ultimately show ?thesis using assms(2,4) by (simp add: core_inv_def)
qed

lemma in_flight_none [simp]: "List.map_filter (\<lambda>x. x) [None, None, None] = []"
  by (simp add: map_filter_simps)

lemma retire_keeps:
  assumes "core_inv s"
  shows "session_inv (retire reason s)"
proof -
  let ?f = "\<lambda>c. c\<lparr>cmd_reply := Some (Err (Req_Unknown reason))\<rparr>"
  let ?s = "fold (\<lambda>i. with_cmd i ?f) (in_flight s) s"
  have d: "set (in_flight s) \<subseteq> {..<length (commands s)}" "distinct (in_flight s)"
      "set (waiting s) \<inter> set (in_flight s) = {}"
    using assms by (auto simp: core_inv_def placed_def)
  have eq: "unknown_active reason s = ?s\<lparr>active := [None, None, None]\<rparr>"
    by (simp add: unknown_active_def finish_def [abs_def])
  have "core_inv (?s\<lparr>active := [None, None, None]\<rparr>)"
  proof (rule core_sweep [OF assms, of _ "set (in_flight s)" ?f])
    show "waiting (?s\<lparr>active := [None, None, None]\<rparr>) = filter (\<lambda>j. j \<notin> set (in_flight s)) (waiting s)"
    proof -
      have "filter (\<lambda>j. j \<notin> set (in_flight s)) (waiting s) = waiting s" using d(3) by (auto simp: filter_id_conv)
      with fold_with_cmd(3) [OF d(1,2), of ?f] show ?thesis by (simp add: waiting_def)
    qed
    show "cmd_ok (?f (cmd s i)) \<and> settled_cmd (?f (cmd s i))" if "i \<in> set (in_flight s)" "i < length (commands s)" for i
    proof -
      from that assms have "cmd_ok (cmd s i)" "flies_ok (cmd s i)" by (auto simp: core_inv_def loc_ok_def)
      from answered_ok [OF this, of "Err (Req_Unknown reason)"] show ?thesis
        by (simp add: settled_cmd_def before_dispatch_def)
    qed
  qed (use fold_with_cmd [OF d(1,2), of ?f] in \<open>simp_all add: in_flight_def\<close>)
  moreover have "core_inv (retire reason s) = core_inv (?s\<lparr>active := [None, None, None]\<rparr>)"
    by (rule core_cong) (simp_all add: retire_def eq)
  moreover have "mode_ok (retire reason s)" by (simp add: mode_ok_def retire_def eq in_flight_def)
  ultimately show ?thesis by (simp add: session_inv_def)
qed

lemma crash_keeps:
  assumes "core_inv s"
  shows "session_inv (crash s)"
proof -
  let ?f = "\<lambda>c. c\<lparr>cmd_dropped := True\<rparr>"
  let ?is = "in_flight s @ normal_queue s @ stop_queue s @ safety_queue s"
  let ?s = "fold (\<lambda>i. with_cmd i ?f) ?is s"
  have d: "set ?is \<subseteq> {..<length (commands s)}" "distinct ?is"
    using assms by (auto simp: core_inv_def placed_def waiting_def)
  have "core_inv (crash s)"
  proof (rule core_sweep [OF assms, of _ "set ?is" ?f])
    show "cmd_ok (?f (cmd s i)) \<and> settled_cmd (?f (cmd s i))" if "i \<in> set ?is" "i < length (commands s)" for i
    proof -
      from that(2) assms have "cmd_ok (cmd s i)" by (auto simp: core_inv_def loc_ok_def)
      then show ?thesis by (auto simp: cmd_ok_def settled_cmd_def)
    qed
    show "waiting (crash s) = filter (\<lambda>j. j \<notin> set ?is) (waiting s)"
      by (auto simp: crash_def waiting_def filter_empty_conv)
    show "commands (crash s) = map (\<lambda>i. if i \<in> set ?is then ?f (cmd s i) else cmd s i) [0 ..< length (commands s)]"
      using fold_with_cmd(1) [OF d, of ?f] by (simp add: crash_def)
  qed (auto simp: crash_def in_flight_def)
  moreover have "mode_ok (crash s)" by (simp add: mode_ok_def crash_def in_flight_def waiting_def)
  ultimately show ?thesis by (simp add: session_inv_def)
qed

lemma flushed_keeps:
  assumes "session_inv s" and "mode s = Sending n early"
  shows "session_inv (flushed n early s)"
proof -
  from assms have core: "core_inv s" and n: "n < 3" and early: "\<And>r. early = Some r \<Longrightarrow> answer r"
    by (auto simp: session_inv_def mode_ok_def)
  show ?thesis
  proof (cases "active s ! n")
    case None
    then show ?thesis
      using core core_cong(1) [of "s\<lparr>mode := Driving\<rparr>" s] by (simp add: flushed_def session_inv_def mode_ok_def)
  next
    case (Some i)
    let ?s = "with_cmd i (\<lambda>c. c\<lparr>cmd_flushed := True\<rparr>) s"
    from core_land [OF core n Some] have i: "i < length (commands s)" by (simp add: core_except_def)
    have "core_inv ?s"
      by (rule core_client [OF core i]) (auto simp: cmd_defs)
    then have core1: "core_inv (?s\<lparr>mode := Driving\<rparr>)"
      using core_cong(1) [of "?s\<lparr>mode := Driving\<rparr>" ?s] by simp
    show ?thesis
    proof (cases early)
      case None
      with Some core1 show ?thesis by (simp add: flushed_def Let_def session_inv_def mode_ok_def)
    next
      case early_some: (Some r)
      have "core_inv ((finish i r (?s\<lparr>mode := Driving\<rparr>))\<lparr>active := (active s)[n := None]\<rparr>)"
        using land_keeps [OF core1 n, of i r] Some answer_not_before [OF early [OF early_some]] by simp
      with Some early_some show ?thesis
        by (simp add: flushed_def Let_def session_inv_def mode_ok_def finish_def)
    qed
  qed
qed

lemma retire_observation_keeps:
  assumes "session_inv s" and "mode s = Driving" and "n < 3"
  shows "session_inv (retire_observation now n s)"
proof -
  from assms(1) have core: "core_inv s" by (simp add: session_inv_def)
  have "session_inv ((finish i (Err (Req_Unknown reason)) s)\<lparr>active := (active s)[n := None]\<rparr>)"
    if "active s ! n = Some i" for i reason
    using land_keeps [OF core assms(3) that, of "Err (Req_Unknown reason)"] assms(2)
    by (simp add: session_inv_def mode_ok_def before_dispatch_def finish_def)
  with assms(1) show ?thesis by (simp add: retire_observation_def split: option.split)
qed

lemma receive_keeps:
  assumes "session_inv s"
  shows "session_inv (receive capture parse m s)"
proof -
  obtain out p where inc: "incoming parse m (publishing s) = (out, p)"
    by (cases "incoming parse m (publishing s)")
  let ?s = "s\<lparr>publishing := p\<rparr>"
  have inv: "core_inv ?s" "mode_ok ?s" "mode ?s = mode s"
    using assms core_cong(1) [of ?s s] mode_ok_cong [of ?s s] by (simp_all add: session_inv_def)
  show ?thesis
  proof (cases out)
    case (Inl reason)
    with inc retire_keeps [OF inv(1)] show ?thesis by (simp add: receive_def Let_def)
  next
    case (Inr i)
    have routed: "session_inv (case route_response capture i None ?s of (Err reason, s2) \<Rightarrow> retire reason s2 | (Ok _, s2) \<Rightarrow> s2)"
      if "mode s = Driving"
    proof (cases "route_response capture i None ?s")
      case (Pair o2 s2)
      from route_keeps [OF inv(1) Pair] that inv(3) retire_keeps [of s2] Pair show ?thesis
        by (cases o2) (simp_all add: session_inv_def mode_ok_def)
    qed
    have early: "session_inv (case route_response capture i (Some n) ?s of (Err reason, s2) \<Rightarrow> retire reason s2
        | (Ok res, s2) \<Rightarrow> s2\<lparr>mode := Sending n (observe_reply early res)\<rparr>)"
      if md: "mode s = Sending n early" for n early
    proof (cases "route_response capture i (Some n) ?s")
      case (Pair o2 s2)
      note k = route_keeps [OF inv(1) Pair]
      have "n < 3" "\<And>r. early = Some r \<Longrightarrow> answer r"
        using inv(2) md by (auto simp: mode_ok_def)
      then have "session_inv (s2\<lparr>mode := Sending n (observe_reply early res)\<rparr>)" if "o2 = Ok res" for res
        using k(1,3) that core_cong(1) [of "s2\<lparr>mode := Sending n (observe_reply early res)\<rparr>" s2]
        by (auto simp: session_inv_def mode_ok_def observe_reply_def)
      with k(1) retire_keeps [of s2] Pair show ?thesis by (cases o2) simp_all
    qed
    have "session_inv ?s" using inv by (simp add: session_inv_def)
    then show ?thesis
      using inc Inr routed early assms retire_keeps [OF inv(1)]
      by (simp add: receive_def Let_def split: actor_mode.split Incoming.split bool.split)
  qed
qed

lemma session_step_inv:
  assumes "session_step capture parse encode s s'" and "session_inv s"
  shows "session_inv s'"
  using assms
proof (induction rule: session_step.induct)
  case (rests s)
  then show ?case using core_cong(1) [of "s\<lparr>mode := Idle\<rparr>" s] by (simp add: session_inv_def mode_ok_def in_flight_def)
next
  case (ends s reason)
  moreover from ends(2) have "waiting s = []" by (simp add: next_drained_def waiting_def split: list.splits)
  ultimately show ?case
    using core_cong(1) [of "s\<lparr>mode := Ended\<rparr>" s]
    by (simp add: session_inv_def mode_ok_def in_flight_def waiting_def)
next
  case (receives s i)
  then show ?case using client_keeps(1) [of s i] mode_ok_cong [of "client_receives i s" s]
    by (simp add: session_inv_def client_receives_def)
next
  case (orphaned s i)
  then show ?case using client_keeps(2) [of s i] mode_ok_cong [of "client_orphaned i s" s]
    by (simp add: session_inv_def client_orphaned_def)
next
  case (times_out s i)
  then show ?case using client_keeps(3) [of s i] mode_ok_cong [of "client_times_out i s" s]
    by (simp add: session_inv_def client_times_out_def)
next
  case (cancelled s i)
  then show ?case using client_keeps(4) [of s i] mode_ok_cong [of "client_cancelled i s" s]
    by (simp add: session_inv_def client_cancelled_def)
next
  case (fails s reason)
  then show ?case by (intro retire_keeps) (simp add: session_inv_def)
next
  case (crashes s)
  then show ?case by (intro crash_keeps) (simp add: session_inv_def)
qed (simp_all add: admissions_keep take_step control_step_keeps flushed_keeps receive_keeps
    retire_observation_keeps drain_step)

section \<open>Outcomes are final\<close>

text \<open>A client's outcome never changes, nor does the identity of a command.\<close>

definition cmd_le :: "'p command \<Rightarrow> 'p command \<Rightarrow> bool" where
  "cmd_le c c' \<longleftrightarrow> (cmd_result c \<noteq> None \<longrightarrow> cmd_result c' = cmd_result c) \<and> cmd_id c' = cmd_id c"

definition grows :: "'p session \<Rightarrow> 'p session \<Rightarrow> bool" where
  "grows s s' \<longleftrightarrow> length (commands s) \<le> length (commands s') \<and>
     (\<forall>i < length (commands s). cmd_le (cmd s i) (cmd s' i))"

lemma grows_refl [simp]: "grows s s"
  by (simp add: grows_def cmd_le_def)

lemma grows_trans: "grows a b \<Longrightarrow> grows b c \<Longrightarrow> grows a c"
  unfolding grows_def cmd_le_def by (metis order_less_le_trans order_trans)

lemma grows_same: "commands s' = commands s \<Longrightarrow> grows s s'"
  by (simp add: grows_def cmd_le_def cmd_def)

lemma grows_with_cmd:
  assumes "i < length (commands s)" and "cmd_le (cmd s i) (f (cmd s i))"
  shows "grows s (with_cmd i f s)"
  using assms by (auto simp: grows_def cmd_with_cmd cmd_le_def)

lemma grows_commands: "grows s s1 \<Longrightarrow> commands s2 = commands s1 \<Longrightarrow> grows s s2"
  by (simp add: grows_def cmd_def)

lemma grows_updates [simp]:
  "grows s (s'\<lparr>active := a\<rparr>) = grows s s'" "grows s (s'\<lparr>mode := m\<rparr>) = grows s s'"
  "grows s (s'\<lparr>terminal := t\<rparr>) = grows s s'" "grows s (s'\<lparr>publishing := p\<rparr>) = grows s s'"
  "grows s (s'\<lparr>stop_queue := q\<rparr>) = grows s s'" "grows s (s'\<lparr>safety_queue := q\<rparr>) = grows s s'"
  "grows s (s'\<lparr>normal_queue := q\<rparr>) = grows s s'" "grows s (s'\<lparr>ses_sequence := n\<rparr>) = grows s s'"
  by (simp_all add: grows_def cmd_def)

lemma finish_le: "cmd_le c (c\<lparr>cmd_reply := r\<rparr>)" "cmd_le c (c\<lparr>cmd_dropped := b\<rparr>)" "cmd_le c (c\<lparr>cmd_flushed := b\<rparr>)"
  by (simp_all add: cmd_le_def)

lemma fold_grows:
  assumes "set is \<subseteq> {..<length (commands s)}" and "distinct is" and "\<And>c. cmd_le c (f c)"
  shows "grows s (fold (\<lambda>i. with_cmd i f) is s)"
  using fold_with_cmd(1) [OF assms(1,2), of f] assms(3) by (auto simp: grows_def cmd_def cmd_le_def)

lemma prepare_dispatch_le:
  assumes "prepare_dispatch token io others c = (r, c')" and "cmd_ok c"
  shows "cmd_le c c'"
proof (cases "early_refusal token io c")
  case None
  then have "cmd_result c = None" using assms(2) by (auto simp: early_refusal_def cmd_ok_def split: if_splits)
  moreover have "cmd_id (client_acts a x) = cmd_id x" for a and x :: "'a command"
    by (simp add: client_acts_def timed_out_def cancelled_cmd_def split: client_act.split)
  ultimately show ?thesis
    using assms(1) None
    by (auto simp: prepare_dispatch_def cmd_le_def Let_def split: option.splits if_splits)
qed (use assms in \<open>auto simp: prepare_dispatch_def cmd_le_def\<close>)

lemma dispatch_grows:
  assumes "i < length (commands s)" and "cmd_ok (cmd s i)"
  shows "grows s (dispatch io i s)"
proof -
  obtain r c where p: "prepare_dispatch (ses_token s) io (companions io s) (cmd s i) = (r, c)"
    by (cases "prepare_dispatch (ses_token s) io (companions io s) (cmd s i)")
  from prepare_dispatch_le [OF p assms(2)] have le: "cmd_le (cmd s i) c" .
  then have g: "grows s (with_cmd i (\<lambda>_. c) s)" "grows s (with_cmd i (\<lambda>_. c\<lparr>cmd_sent := True\<rparr>) s)"
    using assms(1) by (auto intro!: grows_with_cmd simp: cmd_le_def)
  have "grows (with_cmd i (\<lambda>_. c) s) (finish i x (with_cmd i (\<lambda>_. c) s))" for x
    using assms(1) by (auto simp: finish_def intro!: grows_with_cmd finish_le)
  with g p show ?thesis
    by (cases r) (auto simp: dispatch_def intro: grows_trans grows_commands)
qed

lemma push_grows: "grows s (push_command c s)"
proof -
  have "commands (push_command c s) = commands s @ [c]"
    by (simp add: push_command_def Let_def split: Lane.split)
  then show ?thesis by (auto simp: grows_def cmd_def nth_append cmd_le_def)
qed

lemma enqueue_grows: "grows s (snd (enqueue encode io c frame s))"
  using push_grows [of s c] by (auto simp: enqueue_def split: sum.split encode_error.split)

lemma admissions_grow:
  "grows s (snd (single_until encode io expected k data deadline s))"
  "grows s (snd (batch_checked encode io expected rs halt e dl s))"
proof -
  have "grows s (snd (enqueue encode io c frame (s\<lparr>ses_sequence := n\<rparr>)))" for c frame n
    using grows_same [of "s\<lparr>ses_sequence := n\<rparr>" s] enqueue_grows grows_trans by fastforce
  then show "grows s (snd (single_until encode io expected k data deadline s))"
    "grows s (snd (batch_checked encode io expected rs halt e dl s))"
    by (auto simp: single_until_def batch_checked_def Let_def split: option.split)
qed

lemma sweep_grows:
  assumes "core_inv s"
  shows "grows s (retire reason s)" and "grows s (crash s)"
proof -
  have d: "set (in_flight s) \<subseteq> {..<length (commands s)}" "distinct (in_flight s)"
      "set (in_flight s @ normal_queue s @ stop_queue s @ safety_queue s) \<subseteq> {..<length (commands s)}"
      "distinct (in_flight s @ normal_queue s @ stop_queue s @ safety_queue s)"
    using assms by (auto simp: core_inv_def placed_def waiting_def)
  show "grows s (retire reason s)"
    using fold_grows [OF d(1,2), of "\<lambda>c. c\<lparr>cmd_reply := Some (Err (Req_Unknown reason))\<rparr>", OF finish_le(1)]
    by (simp add: retire_def unknown_active_def finish_def [abs_def])
  show "grows s (crash s)"
    using fold_grows [OF d(3,4), of "\<lambda>c. c\<lparr>cmd_dropped := True\<rparr>", OF finish_le(2)] by (simp add: crash_def)
qed

lemma finish_grows: "i < length (commands s) \<Longrightarrow> grows s (finish i r s)"
  by (auto simp: finish_def intro!: grows_with_cmd finish_le)

lemma active_bound: "core_inv s \<Longrightarrow> n < 3 \<Longrightarrow> active s ! n = Some i \<Longrightarrow> i < length (commands s)"
  using core_land by (fastforce simp: core_except_def)

lemma route_grows:
  assumes "core_inv s"
  shows "grows s (snd (route_response capture inc deferred s))"
proof -
  have "grows s ((finish i r s)\<lparr>active := (active s)[n := None]\<rparr>)"
    if "owner_slot batch data s = Some n" "active s ! n = Some i" for batch data n i r
  proof -
    have "n < 3" using owner_slot_bound [OF that(1)] assms by (simp add: core_inv_def)
    then show ?thesis
      using finish_grows [OF active_bound [OF assms _ that(2)], of r] by (auto intro: grows_commands)
  qed
  then show ?thesis
    by (auto simp: route_response_def split: Incoming.split option.split sum.split)
qed

lemma receive_grows:
  assumes "core_inv s"
  shows "grows s (receive capture parse m s)"
proof -
  obtain out p where inc: "incoming parse m (publishing s) = (out, p)"
    by (cases "incoming parse m (publishing s)")
  let ?s = "s\<lparr>publishing := p\<rparr>"
  have g: "grows s ?s" "core_inv ?s" using assms core_cong(1) [of ?s s] by (simp_all add: grows_same)
  have fin: "grows s (retire reason s2)" if "core_inv s2" "grows ?s s2" for reason s2
    using grows_trans [OF grows_trans [OF g(1) that(2)] sweep_grows(1) [OF that(1)]] .
  have routed: "grows s (case route_response capture i df ?s of (Err reason, s2) \<Rightarrow> retire reason s2 | (Ok r, s2) \<Rightarrow> h r s2)"
    if "\<And>r s2. commands (h r s2) = commands s2" for i df h
  proof (cases "route_response capture i df ?s")
    case (Pair o2 s2)
    with route_grows [OF g(2), of capture i df] route_keeps(1) [OF g(2) Pair] fin [of s2] that grows_trans [OF g(1)]
    show ?thesis by (cases o2) (auto intro: grows_commands [of s s2])
  qed
  show ?thesis
    using inc g fin [of ?s] routed [of "\<lambda>_ s. s"] routed [of "\<lambda>r s. s\<lparr>mode := Sending n (observe_reply early r)\<rparr>" for n early]
    by (simp add: receive_def Let_def split: sum.split actor_mode.split Incoming.split bool.split)
qed

lemma client_le:
  assumes "client_waits s i"
  shows "grows s (client_receives i s)" "grows s (client_orphaned i s)" "grows s (client_times_out i s)"
    "grows s (client_cancelled i s)"
  using assms
  by (auto simp: client_receives_def client_orphaned_def client_times_out_def client_cancelled_def client_waits_def
      cmd_le_def timed_out_def cancelled_cmd_def intro!: grows_with_cmd)

lemma takes_head_grows:
  assumes "core_inv s" and "takes_head s i s1"
  shows "grows s (dispatch io i s1)" and "grows s (finish i r s1)"
proof -
  have g: "grows s s1" using assms(2) by (intro grows_same) (auto simp: takes_head_def)
  from takes_head_core [OF assms] have i: "i < length (commands s1)" "cmd_ok (cmd s1 i)"
    unfolding core_except_def by blast+
  from grows_trans [OF g dispatch_grows [OF i]] show "grows s (dispatch io i s1)" .
  from grows_trans [OF g finish_grows [OF i(1)]] show "grows s (finish i r s1)" .
qed

lemma flushed_grows:
  assumes "core_inv s" and "n < 3"
  shows "grows s (flushed n early s)" and "grows s (retire_observation now n s)"
proof -
  have f: "grows s (with_cmd i (\<lambda>c. c\<lparr>cmd_flushed := True\<rparr>) s)" "grows s (finish i r s)"
      "grows (with_cmd i (\<lambda>c. c\<lparr>cmd_flushed := True\<rparr>) s) (finish i r ((with_cmd i (\<lambda>c. c\<lparr>cmd_flushed := True\<rparr>) s)\<lparr>mode := Driving\<rparr>))"
    if "active s ! n = Some i" for i r
  proof -
    note i = active_bound [OF assms that]
    show "grows s (with_cmd i (\<lambda>c. c\<lparr>cmd_flushed := True\<rparr>) s)" "grows s (finish i r s)"
      using i finish_grows by (auto intro!: grows_with_cmd finish_le)
    have "grows (with_cmd i (\<lambda>c. c\<lparr>cmd_flushed := True\<rparr>) s) (finish i r (with_cmd i (\<lambda>c. c\<lparr>cmd_flushed := True\<rparr>) s))"
      using i by (intro finish_grows) simp
    then show "grows (with_cmd i (\<lambda>c. c\<lparr>cmd_flushed := True\<rparr>) s)
        (finish i r ((with_cmd i (\<lambda>c. c\<lparr>cmd_flushed := True\<rparr>) s)\<lparr>mode := Driving\<rparr>))"
      by (rule grows_commands) (simp add: finish_def with_cmd_def)
  qed
  show "grows s (flushed n early s)"
    using f(1) grows_trans [OF f(1) f(3)] by (auto simp: flushed_def Let_def split: option.split)
  show "grows s (retire_observation now n s)"
    using f(2) by (auto simp: retire_observation_def split: option.split)
qed

lemma session_step_grows:
  assumes "session_step capture parse encode s s'" and "session_inv s"
  shows "grows s s'"
  using assms
proof (induction rule: session_step.induct)
  case (flushes s n early)
  then have "core_inv s" "n < 3" by (simp_all add: session_inv_def mode_ok_def)
  then show ?case by (rule flushed_grows)
qed (auto simp: session_inv_def grows_same admissions_grow client_le sweep_grows receive_grows flushed_grows
    intro: takes_head_grows next_takes)

section \<open>Runs\<close>

lemma connected_inv: "session_inv (connected token bytes p)"
  by (simp add: session_inv_def core_inv_def mode_ok_def connected_def placed_def waiting_def in_flight_def)

lemma run_inv:
  assumes "(session_step capture parse encode)\<^sup>*\<^sup>* s s'" and "session_inv s"
  shows "session_inv s' \<and> grows s s'"
  using assms(1)
proof induction
  case (step s1 s2)
  with session_step_inv [OF step(2)] session_step_grows [OF step(2)] grows_trans [of s s1 s2] show ?case by simp
qed (simp add: assms(2))

lemma run_cmd_ok:
  assumes "(session_step capture parse encode)\<^sup>*\<^sup>* s s'" and "session_inv s" and "i < length (commands s')"
  shows "loc_ok s' i"
  using run_inv [OF assms(1,2)] assms(3) by (simp add: session_inv_def core_inv_def)

text \<open>What a client was told stays true.\<close>

lemma told_true:
  assumes "(session_step capture parse encode)\<^sup>*\<^sup>* (connected token bytes p) s"
    and "i < length (commands s)" and "cmd_result (cmd s i) = Some r"
    and "(session_step capture parse encode)\<^sup>*\<^sup>* s s'"
  shows "cmd_result (cmd s' i) = Some r \<and> (before_dispatch r \<longrightarrow> \<not> cmd_sent (cmd s' i)) \<and>
    (answer r \<longrightarrow> cmd_sent (cmd s i) \<and> cmd_guarded (cmd s i))"
proof -
  note inv = run_inv [OF assms(1) connected_inv]
  note inv' = run_inv [OF assms(4) conjunct1 [OF inv]]
  from inv' assms(2,3) have r: "i < length (commands s')" "cmd_result (cmd s' i) = Some r"
    by (auto simp: grows_def cmd_le_def)
  have "cmd_ok (cmd s i)" "cmd_ok (cmd s' i)"
    using run_cmd_ok [OF assms(1) connected_inv assms(2)] run_cmd_ok [OF assms(4) conjunct1 [OF inv] r(1)]
    by (simp_all add: loc_ok_def)
  with r assms(3) show ?thesis by (auto simp: cmd_ok_def)
qed

section \<open>Properties\<close>

text \<open>C2: what a client is told about its request is true, whatever the interleaving. When the client
  learns that the request was not dispatched (refused, abandoned at its deadline while queued, or
  the connection closed first), its frame was not handed to the socket and never will be; when it
  gets an answer of OBS, the frame was sent, after the guard passed.\<close>

theorem outcome_is_true:
  assumes "(session_step capture parse encode)\<^sup>*\<^sup>* (connected token bytes p) s"
    and "i < length (commands s)" and "cmd_result (cmd s i) = Some r"
    and "(session_step capture parse encode)\<^sup>*\<^sup>* s s'"
  shows "cmd_result (cmd s' i) = Some r \<and> (before_dispatch r \<longrightarrow> \<not> cmd_sent (cmd s' i)) \<and>
    (answer r \<longrightarrow> cmd_sent (cmd s i) \<and> cmd_guarded (cmd s i))"
  by (rule told_true [OF assms])

text \<open>C26: nothing is left hanging and the wire is never overrun. At most three commands are in flight,
  every admitted command is waiting, in flight, answered or orphaned, and once the connection has
  ended every one of them is answered or orphaned (which its client is told).\<close>

theorem every_command_settles:
  assumes "(session_step capture parse encode)\<^sup>*\<^sup>* (connected token bytes p) s"
  shows "length (in_flight s) \<le> 3 \<and> (\<forall>i < length (commands s). i \<in> set (waiting s) \<or> i \<in> set (in_flight s) \<or>
      cmd_reply (cmd s i) \<noteq> None \<or> cmd_dropped (cmd s i)) \<and>
    (mode s = Ended \<longrightarrow> (\<forall>i < length (commands s). cmd_reply (cmd s i) \<noteq> None \<or> cmd_dropped (cmd s i)))"
proof -
  from run_inv [OF assms connected_inv] have inv: "core_inv s" "mode_ok s" by (simp_all add: session_inv_def)
  have "length (List.map_filter (\<lambda>x. x) xs) \<le> length xs" for xs :: "nat option list"
    by (induction xs) (auto simp: map_filter_simps split: option.split)
  then have "length (in_flight s) \<le> 3" using inv(1) by (metis core_inv_def in_flight_def)
  moreover have "i \<in> set (waiting s) \<or> i \<in> set (in_flight s) \<or> cmd_reply (cmd s i) \<noteq> None \<or> cmd_dropped (cmd s i)"
    if "i < length (commands s)" for i
    using inv(1) that by (auto simp: core_inv_def loc_ok_def placed_def settled_cmd_def)
  moreover have "waiting s = [] \<and> in_flight s = []" if "mode s = Ended"
    using inv(2) that by (simp add: mode_ok_def)
  ultimately show ?thesis by fastforce
qed

definition sample_publisher :: publisher where
  "sample_publisher = \<lparr>pub_cursor = 0, pub_items = 8, pub_bytes = 1000, pub_room = 8, pub_consumer = True\<rparr>"

definition sample_admit :: admit_io where
  "sample_admit = \<lparr>item_free = True, bytes_free = True, buffer_ok = True, admit_time = 0, queue_room = True, queue_open = True\<rparr>"

definition sample_connected :: "unit session" where
  "sample_connected = connected 1 1000 sample_publisher"

definition sample_queued :: "unit session" where
  "sample_queued = push_command (queued_command 1 (K_Single ''GetStats'') (request_id_text 1 1) 10)
     (sample_connected\<lparr>ses_sequence := 1\<rparr>)"

lemma sample_admitted:
  "session_step (\<lambda>_ _ _. ()) (\<lambda>_. None) (\<lambda>_ _. Ok 60) sample_connected sample_queued"
proof -
  have "single_until (\<lambda>_ _. Ok 60) sample_admit 1 (K_Single ''GetStats'') JNull 10 sample_connected = (None, sample_queued)"
    by (simp add: single_until_def sample_connected_def connected_def sample_admit_def valid_request_type_def
        is_ascii_alphanumeric_def is_ascii_uppercase_def next_sequence_def checked_add_def
        enqueue_def sample_queued_def queued_command_def Let_def)
  then show ?thesis
    using session_step.admit_single [of "\<lambda>_ _ _. ()" "\<lambda>_. None" "\<lambda>_ _. Ok 60" sample_connected sample_admit 1
        "K_Single ''GetStats''" JNull 10] by simp
qed

lemma sample_queued_facts:
  "length (commands sample_queued) = 1" "client_waits sample_queued 0" "cmd_state (cmd sample_queued 0) = QUEUED"
  by (simp_all add: sample_queued_def push_command_def sample_connected_def connected_def queued_command_def
      client_waits_def cmd_def)

lemma sample_timeout:
  "(session_step (\<lambda>_ _ _. ()) (\<lambda>_. None) (\<lambda>_ _. Ok 60))\<^sup>*\<^sup>* (connected 1 1000 sample_publisher) (client_times_out 0 sample_queued)"
  "0 < length (commands (client_times_out 0 sample_queued))"
  "cmd_result (cmd (client_times_out 0 sample_queued) 0) = Some (Err (BeforeDispatch Deadline))"
proof -
  have step: "session_step (\<lambda>_ _ _. ()) (\<lambda>_. None) (\<lambda>_ _. Ok 60) sample_queued (client_times_out 0 sample_queued)"
    by (rule session_step.times_out [OF sample_queued_facts(2)])
  show "(session_step (\<lambda>_ _ _. ()) (\<lambda>_. None) (\<lambda>_ _. Ok 60))\<^sup>*\<^sup>* (connected 1 1000 sample_publisher) (client_times_out 0 sample_queued)"
    using r_into_rtranclp [of "session_step (\<lambda>_ _ _. ()) (\<lambda>_. None) (\<lambda>_ _. Ok 60)", OF sample_admitted]
      step unfolding sample_connected_def by (rule rtranclp.rtrancl_into_rtrancl)
qed (use sample_queued_facts in \<open>simp_all add: client_times_out_def cmd_with_cmd timed_out_def\<close>)

theorem outcome_is_true_witness:
  "let s = client_times_out 0 sample_queued in
     cmd_result (cmd s 0) = Some (Err (BeforeDispatch Deadline)) \<and> \<not> cmd_sent (cmd s 0)"
  using outcome_is_true [OF sample_timeout rtranclp.rtrancl_refl] sample_timeout(3)
  by (simp add: before_dispatch_def Let_def)

theorem every_command_settles_witness:
  "mode (crash sample_queued) = Ended \<and> cmd_dropped (cmd (crash sample_queued) 0)"
proof -
  have "mode sample_queued \<noteq> Ended"
    by (simp add: sample_queued_def push_command_def sample_connected_def connected_def queued_command_def)
  then have step: "session_step (\<lambda>_ _ _. ()) (\<lambda>_. None) (\<lambda>_ _. Ok 60) sample_queued (crash sample_queued)"
    by (rule session_step.crashes)
  have run: "(session_step (\<lambda>_ _ _. ()) (\<lambda>_. None) (\<lambda>_ _. Ok 60))\<^sup>*\<^sup>* (connected 1 1000 sample_publisher) (crash sample_queued)"
    using r_into_rtranclp [of "session_step (\<lambda>_ _ _. ()) (\<lambda>_. None) (\<lambda>_ _. Ok 60)", OF sample_admitted]
      step unfolding sample_connected_def by (rule rtranclp.rtrancl_into_rtrancl)
  have ended: "mode (crash sample_queued) = Ended" by (simp add: crash_def)
  have no: "cmd_reply (cmd (crash sample_queued) 0) = None" "0 < length (commands (crash sample_queued))"
    by (simp_all add: crash_def sample_queued_def push_command_def sample_connected_def connected_def
        queued_command_def cmd_def with_cmd_def in_flight_def)
  from every_command_settles [OF run] ended no(2)
  have "cmd_reply (cmd (crash sample_queued) 0) \<noteq> None \<or> cmd_dropped (cmd (crash sample_queued) 0)" by blast
  with no(1) ended show ?thesis by simp
qed

end
