(* ===== verification/Operation_Store.thy ===== *)
theory Operation_Store
  imports Broker
begin

text \<open>
  \<open>OperationStore\<close> of \<open>src/native/src/operation_store.rs\<close>: what a workflow owner holds is either the
  store itself or a port of the shared broker, and every operation goes to whichever it is. The
  model threads the broker the port belongs to.
\<close>

datatype 'b operation_store = Direct "'b backend" | Scoped "'b broker" u64

primrec backend_of :: "'b operation_store \<Rightarrow> 'b backend" where
  "backend_of (Direct b) = b"
| "backend_of (Scoped br n) = store br"

definition os_endpoint :: "'b operation_store \<Rightarrow> string" where
  "os_endpoint st = b_endpoint (backend_of st)"

text \<open>The fence of a scoped store permits or refuses a dispatch; a direct store has none.\<close>

primrec dispatch_permitted :: "'b text_codec \<Rightarrow> 'b ios \<Rightarrow> string \<Rightarrow> 'b operation_store \<Rightarrow> bool \<times> 'b operation_store" where
  "dispatch_permitted tx ios own (Direct b) = (True, Direct b)"
| "dispatch_permitted tx ios own (Scoped br n) =
     (let out = permits tx ios n own br in (fst out = Ok True, Scoped (snd out) n))"

definition directly :: "('r \<times> 'b backend) \<Rightarrow> 'r \<times> 'b operation_store" where
  "directly out = (fst out, Direct (snd out))"

definition scoped :: "u64 \<Rightarrow> ('r \<times> 'b broker) \<Rightarrow> 'r \<times> 'b operation_store" where
  "scoped n out = (fst out, Scoped (snd out) n)"

primrec os_prepare :: "'b text_codec \<Rightarrow> 'b ios \<Rightarrow> 'b persist_io \<Rightarrow> (string \<Rightarrow> string) \<Rightarrow> string \<Rightarrow> OperationKind \<Rightarrow>
    u64 \<Rightarrow> string \<Rightarrow> PrepareDetails \<Rightarrow> 'b operation_store \<Rightarrow> (StoreError, OperationRecord) result \<times> 'b operation_store" where
  "os_prepare tx ios pio hash oid k gen t d (Direct b) = directly (prepare tx pio hash oid k gen t d b)"
| "os_prepare tx ios pio hash oid k gen t d (Scoped br n) = scoped n (port_prepare tx ios pio hash n oid k gen t d br)"

primrec os_update :: "'b text_codec \<Rightarrow> 'b ios \<Rightarrow> 'b persist_io \<Rightarrow> OperationRecord \<Rightarrow> OperationUpdate \<Rightarrow> string \<Rightarrow>
    'b operation_store \<Rightarrow> (StoreError, OperationRecord) result \<times> 'b operation_store" where
  "os_update tx ios pio r u t (Direct b) = directly (update tx (ios 0) pio r u t b)"
| "os_update tx ios pio r u t (Scoped br n) = scoped n (port_update tx ios pio n r u t br)"

primrec os_prepare_generic :: "'b text_codec \<Rightarrow> 'b ios \<Rightarrow> 'b persist_io \<Rightarrow> string \<Rightarrow> GenericKind \<Rightarrow> u64 \<Rightarrow> string \<Rightarrow>
    'b operation_store \<Rightarrow> (StoreError, GenericRecord) result \<times> 'b operation_store" where
  "os_prepare_generic tx ios pio oid k gen t (Direct b) = directly (prepare_generic tx pio oid k gen t b)"
| "os_prepare_generic tx ios pio oid k gen t (Scoped br n) = scoped n (port_prepare_generic tx ios pio n oid k gen t br)"

primrec os_update_generic :: "'b text_codec \<Rightarrow> 'b ios \<Rightarrow> 'b persist_io \<Rightarrow> GenericRecord \<Rightarrow> GenericPhase \<Rightarrow> string \<Rightarrow>
    'b operation_store \<Rightarrow> (StoreError, GenericRecord) result \<times> 'b operation_store" where
  "os_update_generic tx ios pio r p t (Direct b) = directly (update_generic tx (ios 0) pio r p t b)"
| "os_update_generic tx ios pio r p t (Scoped br n) = scoped n (port_update_generic tx ios pio n r p t br)"

primrec os_prepare_restore :: "'b text_codec \<Rightarrow> 'b ios \<Rightarrow> 'b persist_io \<Rightarrow> string \<Rightarrow> u64 \<Rightarrow> u64 \<Rightarrow> string \<Rightarrow>
    'b operation_store \<Rightarrow> (StoreError, RestoreRecord) result \<times> 'b operation_store" where
  "os_prepare_restore tx ios pio oid gen m t (Direct b) = directly (prepare_restore tx pio oid gen m t b)"
| "os_prepare_restore tx ios pio oid gen m t (Scoped br n) = scoped n (port_prepare_restore tx ios pio n oid gen m t br)"

primrec os_update_restore :: "'b text_codec \<Rightarrow> 'b ios \<Rightarrow> 'b persist_io \<Rightarrow> RestoreRecord \<Rightarrow> RestorePhase \<Rightarrow>
    RestoreCounts option \<Rightarrow> string \<Rightarrow> 'b operation_store \<Rightarrow> (StoreError, RestoreRecord) result \<times> 'b operation_store" where
  "os_update_restore tx ios pio r p c t (Direct b) = directly (update_restore tx (ios 0) pio r p c t b)"
| "os_update_restore tx ios pio r p c t (Scoped br n) = scoped n (port_update_restore tx ios pio n r p c t br)"

primrec os_prepare_apply :: "'b text_codec \<Rightarrow> 'b ios \<Rightarrow> 'b persist_io \<Rightarrow> string \<Rightarrow> u64 \<Rightarrow> u64 \<Rightarrow> string \<Rightarrow>
    'b operation_store \<Rightarrow> (StoreError, ApplyRecord) result \<times> 'b operation_store" where
  "os_prepare_apply tx ios pio oid gen m t (Direct b) = directly (prepare_apply tx pio oid gen m t b)"
| "os_prepare_apply tx ios pio oid gen m t (Scoped br n) = scoped n (port_prepare_apply tx ios pio n oid gen m t br)"

primrec os_update_apply :: "'b text_codec \<Rightarrow> 'b ios \<Rightarrow> 'b persist_io \<Rightarrow> ApplyRecord \<Rightarrow> ApplyUpdate \<Rightarrow> string \<Rightarrow>
    'b operation_store \<Rightarrow> (StoreError, ApplyRecord) result \<times> 'b operation_store" where
  "os_update_apply tx ios pio r u t (Direct b) = directly (update_apply tx (ios 0) pio r u t b)"
| "os_update_apply tx ios pio r u t (Scoped br n) = scoped n (port_update_apply tx ios pio n r u t br)"

primrec os_prepare_capture :: "'b text_codec \<Rightarrow> 'b ios \<Rightarrow> 'b persist_io \<Rightarrow> string \<Rightarrow> u64 \<Rightarrow> CapturePlan \<Rightarrow> string \<Rightarrow>
    'b operation_store \<Rightarrow> (StoreError, CaptureRecord) result \<times> 'b operation_store" where
  "os_prepare_capture tx ios pio oid gen plan t (Direct b) = directly (prepare_capture tx pio oid gen plan t b)"
| "os_prepare_capture tx ios pio oid gen plan t (Scoped br n) = scoped n (port_prepare_capture tx ios pio n oid gen plan t br)"

primrec os_update_capture :: "'b text_codec \<Rightarrow> 'b ios \<Rightarrow> 'b persist_io \<Rightarrow> CaptureRecord \<Rightarrow> CaptureUpdate \<Rightarrow> string \<Rightarrow>
    'b operation_store \<Rightarrow> (StoreError, CaptureRecord) result \<times> 'b operation_store" where
  "os_update_capture tx ios pio r u t (Direct b) = directly (update_capture tx (ios 0) pio r u t b)"
| "os_update_capture tx ios pio r u t (Scoped br n) = scoped n (port_update_capture tx ios pio n r u t br)"

section \<open>What a facade does to the store behind it\<close>

lemma port_apply_fst [simp]: "fst (port_apply tx io out) = fst out"
  by (cases out; cases "fst out") (auto simp: port_apply_def)

lemma port_apply_Ok: "fst out = Ok r \<Longrightarrow> port_apply tx io out = out"
  by (cases out) (simp add: port_apply_def)

lemma os_prepare_Ok:
  assumes "os_prepare tx ios pio hash oid k gen t d st = (Ok r, st')"
  shows "prepare tx pio hash oid k gen t d (backend_of st) = (Ok r, backend_of st')"
proof (cases st)
  case (Direct b)
  with assms show ?thesis by (auto simp: directly_def prod_eq_iff)
next
  case (Scoped br n)
  with assms have out: "fst (port_prepare tx ios pio hash n oid k gen t d br) = Ok r"
      "st' = Scoped (snd (port_prepare tx ios pio hash n oid k gen t d br)) n"
    by (auto simp: scoped_def)
  then obtain s where "map_of (scopes br) n = Some s"
    by (cases "map_of (scopes br) n") (simp_all add: port_prepare_def)
  with out have "port_prepare tx ios pio hash n oid k gen t d br =
      in_store br (prepare tx pio hash oid k gen t d (store br)) n
        (s\<lparr>sc_ids := insert_id oid (sc_ids s), stop_reserved := reserved_after k s\<rparr>)"
    by (auto simp: port_prepare_def port_apply_Ok split: if_splits sum.splits)
  with out Scoped show ?thesis
    by (cases "prepare tx pio hash oid k gen t d (store br)") (auto simp: in_store_def split: sum.splits)
qed

lemma os_update_Ok:
  assumes "os_update tx ios pio r u t st = (Ok r', st')"
  shows "update tx (ios 0) pio r u t (backend_of st) = (Ok r', backend_of st')"
proof (cases st)
  case (Direct b)
  with assms show ?thesis by (auto simp: directly_def prod_eq_iff)
next
  case (Scoped br n)
  with assms have out: "fst (port_update tx ios pio n r u t br) = Ok r'"
      "st' = Scoped (snd (port_update tx ios pio n r u t br)) n"
    by (auto simp: scoped_def)
  then have "port_update tx ios pio n r u t br = port_store br (update tx (ios 0) pio r u t (store br))"
    by (auto simp: port_update_def port_apply_Ok split: if_splits)
  with out Scoped show ?thesis by (simp add: port_store_def prod_eq_iff)
qed

end
