(* ===== verification/Rust_Text.thy ===== *)
theory Rust_Text
  imports Prelude "HOL-Library.Sublist"
begin

text \<open>
  Text operations of Rust's standard library that several components use: \<open>str::trim\<close> on UTF-8
  byte strings. The white-space characters are those with the Unicode property White_Space, each as
  its UTF-8 encoding. A comparison after \<open>to_lowercase\<close> is modelled with \<^const>\<open>to_ascii_lowercase\<close>
  where the words compared with are ASCII words without the letters i and k: those two are the only
  ASCII characters that occur in the lower-case form of a non-ASCII character.
\<close>

definition byte :: "nat \<Rightarrow> char" where
  "byte n = char_of n"

definition white_space :: "string list" where
  "white_space = map (\<lambda>n. [byte n]) [9, 10, 11, 12, 13, 32] @
     map (map byte) [[194, 133], [194, 160], [225, 154, 128]] @
     map (\<lambda>n. map byte [226, 128, n]) [128 ..< 139] @
     map (map byte) [[226, 128, 168], [226, 128, 169], [226, 128, 175], [226, 129, 159], [227, 128, 128]]"

text \<open>Removes members of \<open>ws\<close> from the front for as long as there is one.\<close>

function strip_front :: "string list \<Rightarrow> string \<Rightarrow> string" where
  "strip_front ws s = (case List.find (\<lambda>w. w \<noteq> [] \<and> prefix w s) ws of
     None \<Rightarrow> s | Some w \<Rightarrow> strip_front ws (drop (length w) s))"
  by auto
termination
proof (relation "measure (length \<circ> snd)")
  fix ws s w
  assume "List.find (\<lambda>w. w \<noteq> [] \<and> prefix w s) ws = Some w"
  then have "w \<noteq> [] \<and> prefix w s" by (auto simp: find_Some_iff)
  then show "((ws, drop (length w) s), (ws, s)) \<in> measure (length \<circ> snd)"
    using prefix_length_le [of w s] by (cases w) auto
qed simp

declare strip_front.simps [simp del]

definition trim :: "string \<Rightarrow> string" where
  "trim s = rev (strip_front (map rev white_space) (rev (strip_front white_space s)))"

text \<open>A string is stripped when no member of the list starts it.\<close>

lemma strip_front_clean: "w \<in> set ws \<Longrightarrow> w \<noteq> [] \<Longrightarrow> \<not> prefix w (strip_front ws s)"
proof (induction ws s rule: strip_front.induct)
  case (1 ws s)
  then show ?case
    by (subst strip_front.simps) (auto simp: find_None_iff split: option.split)
qed

lemma strip_front_id: "(\<And>w. w \<in> set ws \<Longrightarrow> w = [] \<or> \<not> prefix w s) \<Longrightarrow> strip_front ws s = s"
proof -
  assume "\<And>w. w \<in> set ws \<Longrightarrow> w = [] \<or> \<not> prefix w s"
  then have "List.find (\<lambda>w. w \<noteq> [] \<and> prefix w s) ws = None" by (auto simp: find_None_iff)
  then show ?thesis by (subst strip_front.simps) simp
qed

lemma strip_front_suffix: "suffix (strip_front ws s) s"
proof (induction ws s rule: strip_front.induct)
  case (1 ws s)
  show ?case
  proof (cases "List.find (\<lambda>w. w \<noteq> [] \<and> prefix w s) ws")
    case (Some w)
    with 1 have "suffix (strip_front ws (drop (length w) s)) (drop (length w) s)" by blast
    then have "suffix (strip_front ws (drop (length w) s)) s"
      using suffix_drop suffix_order.trans by blast
    with Some show ?thesis by (subst strip_front.simps) simp
  qed (simp add: strip_front.simps)
qed

lemma trim_infix: "\<exists>a b. s = a @ trim s @ b"
proof -
  obtain a where a: "s = a @ strip_front white_space s"
    using strip_front_suffix [of white_space s] by (auto simp: suffix_def)
  obtain b where "rev (strip_front white_space s) = b @ rev (trim s)"
    using strip_front_suffix [of "map rev white_space" "rev (strip_front white_space s)"]
    by (auto simp: suffix_def trim_def)
  then have "strip_front white_space s = trim s @ rev b"
    by (metis rev_append rev_rev_ident)
  with a show ?thesis by metis
qed

lemma length_trim: "length (trim s) \<le> length s"
  using trim_infix [of s] by (metis le_add1 le_add2 le_trans length_append)

lemma strip_front_fixed:
  "strip_front ws (strip_front ws s) = strip_front ws s"
  by (rule strip_front_id) (use strip_front_clean in blast)

lemma white_space_nonempty: "w \<in> set white_space \<Longrightarrow> w \<noteq> []"
  by (auto simp: white_space_def)

lemma trim_ends_clean:
  assumes "w \<in> set white_space"
  shows "\<not> suffix w (trim s)"
proof
  assume "suffix w (trim s)"
  then have "prefix (rev w) (strip_front (map rev white_space) (rev (strip_front white_space s)))"
    by (simp add: trim_def suffix_to_prefix)
  moreover have "rev w \<in> set (map rev white_space)" "rev w \<noteq> []"
    using assms white_space_nonempty by auto
  ultimately show False using strip_front_clean by blast
qed

lemma trim_starts_clean:
  assumes "w \<in> set white_space"
  shows "\<not> prefix w (trim s)"
proof
  assume p: "prefix w (trim s)"
  obtain b where "strip_front white_space s = trim s @ b"
  proof -
    obtain b where "rev (strip_front white_space s) = b @ rev (trim s)"
      using strip_front_suffix [of "map rev white_space" "rev (strip_front white_space s)"]
      by (auto simp: suffix_def trim_def)
    then have "strip_front white_space s = trim s @ rev b" by (metis rev_append rev_rev_ident)
    with that show thesis by blast
  qed
  with p have "prefix w (strip_front white_space s)" by (simp add: prefix_def) (metis append_assoc)
  with strip_front_clean [OF assms white_space_nonempty [OF assms]] show False by blast
qed

lemma trim_trim [simp]: "trim (trim s) = trim s"
proof -
  have front: "strip_front white_space (trim s) = trim s"
    by (rule strip_front_id) (use trim_starts_clean in blast)
  have "strip_front (map rev white_space) (rev (trim s)) = rev (trim s)"
    by (simp add: trim_def strip_front_fixed)
  with front show ?thesis by (simp add: trim_def [of "trim s"])
qed

end
