(* ===== verification/Control.thy ===== *)
theory Control
  imports Json Rust_Text
begin

text \<open>
  The control policy of one OBS domain, \<open>src/native/src/control.rs\<close>: who the caller is, the lease
  that gives one client control, the lock a running Take puts on settings, and the confirmation of
  live actions. \<open>evaluate\<close> is the gate every tool call passes; it is evaluated again at dispatch.
  Times are milliseconds of the trusted clock. The printed form of a 64-bit float is a parameter
  (\<open>float_text\<close>), used only inside a question that quotes a numeric output name.
\<close>

section \<open>Callers\<close>

definition UNIDENTIFIED :: string where
  "UNIDENTIFIED = ''an unidentified client''"

definition CLIENT_INFO :: string where
  "CLIENT_INFO = ''io.modelcontextprotocol/clientInfo''"

definition CLIENT_CAPABILITIES :: string where
  "CLIENT_CAPABILITIES = ''io.modelcontextprotocol/clientCapabilities''"

record CallerContext =
  http_client_id :: "json option"
  envelope :: "json option"
  legacy_name :: "string option"

text \<open>\<open>Option::filter\<close> and \<open>Option::or_else\<close>.\<close>

definition opt_filter :: "('a \<Rightarrow> bool) \<Rightarrow> 'a option \<Rightarrow> 'a option" where
  "opt_filter P v = (case v of None \<Rightarrow> None | Some x \<Rightarrow> if P x then Some x else None)"

definition opt_or :: "'a option \<Rightarrow> 'a option \<Rightarrow> 'a option" where
  "opt_or a b = (case a of None \<Rightarrow> b | Some x \<Rightarrow> Some x)"

definition caller_name :: "CallerContext \<Rightarrow> string" where
  "caller_name c = (case
     opt_or (opt_filter (\<lambda>n. n \<noteq> []) (Option.bind (http_client_id c) as_str))
       (opt_or (opt_filter (\<lambda>n. n \<noteq> []) (do {
            env \<leftarrow> envelope c; info \<leftarrow> get env CLIENT_INFO; name \<leftarrow> get info ''name''; as_str name }))
          (opt_filter (\<lambda>n. n \<noteq> []) (legacy_name c)))
     of None \<Rightarrow> UNIDENTIFIED | Some n \<Rightarrow> n)"

definition is_identified :: "string \<Rightarrow> bool" where
  "is_identified n \<longleftrightarrow> n \<noteq> UNIDENTIFIED"

fun truthy :: "json \<Rightarrow> bool" where
  "truthy JNull = False"
| "truthy (JBool b) = b"
| "truthy (JNumber (PosInt n)) = (n \<noteq> 0)"
| "truthy (JNumber (NegInt n)) = (n \<noteq> 0)"
| "truthy (JNumber (Float q)) = (q \<noteq> 0)"
| "truthy (JString s) = (s \<noteq> [])"
| "truthy (JArray _) = True"
| "truthy (JObject _) = True"

definition client_can_elicit :: "json option \<Rightarrow> json option \<Rightarrow> bool" where
  "client_can_elicit env legacy =
     (case opt_filter truthy (Option.bind env (\<lambda>v. get v CLIENT_CAPABILITIES)) of
        Some caps \<Rightarrow> get caps ''elicitation'' \<noteq> None
      | None \<Rightarrow> Option.bind legacy (\<lambda>v. get v ''elicitation'') \<noteq> None)"

section \<open>Leases\<close>

record Lease =
  holder :: string
  reason :: string
  since :: u64
  expires_at :: u64

definition lease_value :: "Lease \<Rightarrow> json" where
  "lease_value l = mk_object [(''holder'', JString (holder l)), (''reason'', JString (reason l)),
     (''since'', of_u64 (since l)), (''expiresAt'', of_u64 (expires_at l))]"

definition lease_description :: "Lease \<Rightarrow> string" where
  "lease_description l =
     (let minutes = unat (expires_at l) div 60000;
          why = (if reason l = [] then [] else '' ('' @ reason l @ '')'')
      in holder l @ '' has control'' @ why @ '' until '' @ pad 2 (minutes div 60 mod 24) @ '':'' @
         pad 2 (minutes mod 60) @ '' UTC'')"

datatype ClaimOutcome = Claimed Lease | Unidentified | Claim_HeldBy Lease
datatype ReleaseOutcome = Released | NoLease | Release_HeldBy Lease
datatype ClaimError = InvalidMinutes | ReasonTooLong | ClockOverflow

definition claim_error_text :: "ClaimError \<Rightarrow> string" where
  "claim_error_text e = (case e of
     InvalidMinutes \<Rightarrow> ''Control duration must be 1 to 240 minutes''
   | ReasonTooLong \<Rightarrow> ''Control reason exceeds 200 Unicode code points''
   | ClockOverflow \<Rightarrow> ''Control expiry exceeds the supported clock range'')"

definition text_result :: "string \<Rightarrow> bool \<Rightarrow> json" where
  "text_result t is_error =
     (let r = mk_object [(''content'', JArray [mk_object [(''type'', JString ''text''), (''text'', JString t)]])]
      in if is_error then set_key ''isError'' (JBool True) r else r)"

definition claim_tool_result :: "ClaimOutcome \<Rightarrow> json" where
  "claim_tool_result out = (case out of
     Claimed l \<Rightarrow> set_key ''structuredContent'' (lease_value l)
       (text_result (lease_description l @ ''. Release it with obs-release-control'') False)
   | Unidentified \<Rightarrow> text_result
       ''Not claimed: this client did not identify itself. Over HTTP, connect with a name in the URL, e.g. http://127.0.0.1:<port>/mcp?client=codex'' True
   | Claim_HeldBy l \<Rightarrow> text_result (''Not claimed: '' @ lease_description l) True)"

definition release_tool_result :: "ReleaseOutcome \<Rightarrow> json" where
  "release_tool_result out = (case out of
     Released \<Rightarrow> text_result ''Released control of OBS'' False
   | NoLease \<Rightarrow> text_result ''No client has control'' False
   | Release_HeldBy l \<Rightarrow> text_result (''Not released: '' @ lease_description l) True)"

record TakeLock =
  lock_id :: string
  locked :: bool

record ControlDomain =
  lease :: "Lease option"
  take_lock :: "TakeLock option"

definition new_control :: ControlDomain where
  "new_control = \<lparr>lease = None, take_lock = None\<rparr>"

definition active_lease :: "u64 \<Rightarrow> ControlDomain \<Rightarrow> Lease option \<times> ControlDomain" where
  "active_lease now c =
     (case lease c of None \<Rightarrow> (None, c)
      | Some l \<Rightarrow> if expires_at l \<le> now then (None, c\<lparr>lease := None\<rparr>) else (Some l, c))"

definition claim :: "string \<Rightarrow> u16 \<Rightarrow> string \<Rightarrow> u64 \<Rightarrow> ControlDomain \<Rightarrow>
    (ClaimError, ClaimOutcome) result \<times> ControlDomain" where
  "claim who minutes why now c =
     (if \<not> (1 \<le> minutes \<and> minutes \<le> 240) then (Err InvalidMinutes, c)
      else if chars_count why > 200 then (Err ReasonTooLong, c)
      else if \<not> is_identified who then (Ok Unidentified, c)
      else (case active_lease now c of (current, c') \<Rightarrow>
        (case opt_filter (\<lambda>l. holder l \<noteq> who) current of
           Some l \<Rightarrow> (Ok (Claim_HeldBy l), c')
         | None \<Rightarrow>
             (let start = (case current of None \<Rightarrow> now | Some l \<Rightarrow> since l) in
              case checked_add now (ucast minutes * 60000) of
                None \<Rightarrow> (Err ClockOverflow, c')
              | Some until \<Rightarrow>
                  (let l = \<lparr>holder = who, reason = why, since = start, expires_at = until\<rparr>
                   in (Ok (Claimed l), c'\<lparr>lease := Some l\<rparr>))))))"

definition release :: "string \<Rightarrow> u64 \<Rightarrow> ControlDomain \<Rightarrow> ReleaseOutcome \<times> ControlDomain" where
  "release who now c = (case active_lease now c of
     (None, c') \<Rightarrow> (NoLease, c')
   | (Some l, c') \<Rightarrow> if holder l \<noteq> who then (Release_HeldBy l, c') else (Released, c'\<lparr>lease := None\<rparr>))"

definition status_result :: "string \<Rightarrow> u64 \<Rightarrow> ControlDomain \<Rightarrow> json \<times> ControlDomain" where
  "status_result caller now c = (case active_lease now c of (l, c') \<Rightarrow>
     (let description = (case l of
            None \<Rightarrow> ''No client has control; any client may change OBS''
          | Some x \<Rightarrow> lease_description x @ (if holder x = caller then '' (this client)'' else []))
      in (set_key ''structuredContent''
            (mk_object [(''caller'', JString caller), (''lease'', of_option lease_value l)])
            (text_result description False), c')))"

definition set_take_lock :: "TakeLock option \<Rightarrow> ControlDomain \<Rightarrow> ControlDomain" where
  "set_take_lock t c = c\<lparr>take_lock := t\<rparr>"

section \<open>Confirmation answers\<close>

datatype ConfirmationAnswer = Missing_Answer | Accepted_Answer bool | OtherResponse

definition is_object :: "json \<Rightarrow> bool" where
  "is_object v \<longleftrightarrow> as_object v \<noteq> None"

definition from_responses :: "json option \<Rightarrow> ConfirmationAnswer" where
  "from_responses responses =
     (case opt_filter is_object (Option.bind responses (\<lambda>r. get r ''confirm'')) of
        None \<Rightarrow> Missing_Answer
      | Some entry \<Rightarrow>
          (let action = Option.bind (get entry ''action'') as_str in
           if action = Some ''accept'' then
             (case Option.bind (Option.bind (opt_filter is_object (get entry ''content''))
                    (\<lambda>content. get content ''confirm'')) as_bool of
                None \<Rightarrow> OtherResponse | Some b \<Rightarrow> Accepted_Answer b)
           else if action = Some ''decline'' \<or> action = Some ''cancel'' then OtherResponse
           else if Option.bind (get entry ''roots'') as_array \<noteq> None \<or>
               Option.bind (get entry ''role'') as_str \<noteq> None \<and> get entry ''content'' \<noteq> None
             then OtherResponse
           else Missing_Answer))"

definition live_confirmation_enabled :: "string option \<Rightarrow> bool" where
  "live_confirmation_enabled v = (case v of None \<Rightarrow> False
     | Some s \<Rightarrow> to_ascii_lowercase (trim s) \<in> {''1'', ''true'', ''yes''})"

section \<open>Tools and requests\<close>

definition always_allowed :: "string \<Rightarrow> bool" where
  "always_allowed tool \<longleftrightarrow> tool \<in> set [''obs-claim-control'', ''obs-release-control'', ''obs-stop-record'',
     ''obs-stop-stream'', ''obs-take-stop'', ''obs-stop-virtual-cam'', ''obs-stop-replay-buffer'',
     ''obs-stop-output'']"

definition fixed_locks :: "(string \<times> string) list" where
  "fixed_locks =
     [(''obs-set-current-profile'', ''switch profiles''),
      (''obs-create-profile'', ''create and switch to a profile''),
      (''obs-remove-profile'', ''remove a profile''),
      (''obs-set-current-scene-collection'', ''switch scene collections''),
      (''obs-create-scene-collection'', ''create and switch to a scene collection''),
      (''obs-set-profile-parameter'', ''change profile settings''),
      (''obs-set-record-directory'', ''change the recording directory''),
      (''obs-set-video-settings'', ''change the canvas and frame rate''),
      (''obs-set-stream-service-settings'', ''change the stream service''),
      (''obs-set-output-settings'', ''change an output's settings'')]"

definition fixed_lock :: "string \<Rightarrow> string option" where
  "fixed_lock tool = map_of fixed_locks tool"

definition locked_requests :: "string list" where
  "locked_requests = [''SetCurrentProfile'', ''CreateProfile'', ''RemoveProfile'',
     ''SetCurrentSceneCollection'', ''CreateSceneCollection'', ''SetProfileParameter'',
     ''SetRecordDirectory'', ''SetVideoSettings'', ''SetStreamServiceSettings'', ''SetOutputSettings'']"

definition locked_request :: "string \<Rightarrow> bool" where
  "locked_request r \<longleftrightarrow> r \<in> set locked_requests"

text \<open>The requests a tool call carries in its arguments.\<close>

definition carried_requests :: "string \<Rightarrow> json \<Rightarrow> json list option" where
  "carried_requests tool arguments =
     (if tool = ''obs-call-request'' then Some [arguments]
      else if tool = ''obs-batch'' then Option.bind (get arguments ''requests'') as_array
      else None)"

definition request_kind :: "json \<Rightarrow> string option" where
  "request_kind r = Option.bind (get r ''requestType'') as_str"

definition locked_action :: "string \<Rightarrow> json \<Rightarrow> string option" where
  "locked_action tool arguments = (case fixed_lock tool of Some action \<Rightarrow> Some action | None \<Rightarrow>
     if \<not> is_object arguments then None
     else Option.bind (carried_requests tool arguments) (\<lambda>requests.
       let found = filter locked_request (List.map_filter request_kind requests)
       in if found = [] then None else Some (''send '' @ join_with '', '' found)))"

section \<open>Live questions\<close>

definition fixed_questions :: "(string \<times> string) list" where
  "fixed_questions =
     [(''obs-take-scene'', ''Transition the staged preview scene to program?''),
      (''obs-start-stream'', ''Start the live stream?''),
      (''obs-stop-stream'', ''Stop the live stream?''),
      (''obs-toggle-stream'', ''Toggle the live stream? If it is live, this ends the broadcast.''),
      (''obs-stop-record'', ''Stop the recording?''), (''obs-take-stop'', ''Stop the recording?''),
      (''obs-toggle-record'', ''Toggle recording? If it is recording, this ends the take.'')]"

text \<open>A number as a 64-bit float, and the two formats of a float (plain, and with an exponent).\<close>

record float_text =
  as_f64 :: "number \<Rightarrow> rat"
  plain_text :: "rat \<Rightarrow> string"
  exp_text :: "rat \<Rightarrow> string"

text \<open>\<open>split_once('e')\<close>.\<close>

definition split_once :: "char \<Rightarrow> string \<Rightarrow> (string \<times> string) option" where
  "split_once c s = map_option (\<lambda>i. (take i s, drop (Suc i) s)) (position (\<lambda>x. x = c) s)"

definition js_number :: "float_text \<Rightarrow> number \<Rightarrow> string" where
  "js_number ft n =
     (let x = as_f64 ft n in
      if x = 0 then ''0''
      else if 10 ^ 21 \<le> \<bar>x\<bar> \<or> \<bar>x\<bar> < 1 / 10 ^ 6 then
        (let formatted = exp_text ft x in
         case split_once (CHR ''e'') formatted of
           Some (base, exponent) \<Rightarrow>
             base @ ''e'' @ (if take 1 exponent = ''-'' then [] else ''+'') @ exponent
         | None \<Rightarrow> formatted)
      else plain_text ft x)"

fun js_value :: "float_text \<Rightarrow> json \<Rightarrow> string" where
  "js_value ft JNull = ''null''"
| "js_value ft (JString s) = s"
| "js_value ft (JBool b) = (if b then ''true'' else ''false'')"
| "js_value ft (JNumber n) = js_number ft n"
| "js_value ft (JArray vs) = join_with '','' (map (\<lambda>v. if v = JNull then [] else js_value ft v) vs)"
| "js_value ft (JObject fs) = ''[object Object]''"

definition js_string :: "float_text \<Rightarrow> json option \<Rightarrow> string" where
  "js_string ft v = (case v of None \<Rightarrow> ''undefined'' | Some x \<Rightarrow> js_value ft x)"

definition request_question :: "float_text \<Rightarrow> string \<Rightarrow> json option \<Rightarrow> string option" where
  "request_question ft k data =
     (let name = js_string ft (Option.bind data (\<lambda>d. get d ''outputName'')) in
      if k = ''StartStream'' then Some ''Start the live stream?''
      else if k = ''StopStream'' then Some ''Stop the live stream?''
      else if k = ''ToggleStream'' then Some ''Toggle the live stream? If it is live, this ends the broadcast.''
      else if k = ''StopRecord'' then Some ''Stop the recording?''
      else if k = ''ToggleRecord'' then Some ''Toggle recording? If it is recording, this ends the take.''
      else if k = ''StartOutput'' then
        Some (''Start the output '' @ name @ ''? This may start a live broadcast or recording.'')
      else if k = ''StopOutput'' then
        Some (''Stop the output '' @ name @ ''? If it is the stream or the recording, this ends it.'')
      else if k = ''ToggleOutput'' then
        Some (''Toggle the output '' @ name @ ''? If it is the stream or the recording, this can end it.'')
      else None)"

text \<open>The questions of a batch, each once, in order.\<close>

definition add_question :: "float_text \<Rightarrow> json \<Rightarrow> string list \<Rightarrow> string list" where
  "add_question ft r qs =
     (case Option.bind (request_kind r) (\<lambda>k. request_question ft k (get r ''requestData'')) of
        None \<Rightarrow> qs | Some q \<Rightarrow> if q \<in> set qs then qs else qs @ [q])"

definition live_question :: "float_text \<Rightarrow> string \<Rightarrow> json \<Rightarrow> string option" where
  "live_question ft tool arguments =
     (case map_of fixed_questions tool of Some q \<Rightarrow> Some q | None \<Rightarrow>
       if tool = ''obs-call-request'' then
         Option.bind (request_kind arguments) (\<lambda>k. request_question ft k (get arguments ''requestData''))
       else if tool = ''obs-start-output'' then request_question ft ''StartOutput'' (Some arguments)
       else if tool = ''obs-stop-output'' then request_question ft ''StopOutput'' (Some arguments)
       else if tool = ''obs-toggle-output'' then request_question ft ''ToggleOutput'' (Some arguments)
       else if tool = ''obs-batch'' then
         Option.bind (Option.bind (get arguments ''requests'') as_array) (\<lambda>requests.
           let qs = fold (add_question ft) requests []
           in if qs = [] then None else Some (join_with '' '' qs))
       else None)"

section \<open>The gate\<close>

record ConfirmationContext =
  enabled :: bool
  can_elicit :: bool
  input_responses :: "json option"

record GateRequest =
  tool_name :: string
  arguments :: json
  read_only_hint :: bool
  caller :: string
  confirmation :: ConfirmationContext

datatype RefusalKind = Lease_Refusal | TakeLock_Refusal | Confirmation_Refusal

datatype Disposition = Allow | Refused RefusalKind string | InputRequired string | Cancelled

text \<open>The lease part of \<open>evaluate\<close>: the lease that refuses the call, if any. The lease is only
  looked at (and dropped when expired) for a call it could refuse.\<close>

definition refusing_lease :: "GateRequest \<Rightarrow> u64 \<Rightarrow> ControlDomain \<Rightarrow> Lease option \<times> ControlDomain" where
  "refusing_lease r now c =
     (if read_only_hint r \<or> always_allowed (tool_name r) then (None, c)
      else (case active_lease now c of (l, c') \<Rightarrow>
        (opt_filter (\<lambda>l. \<not> is_identified (caller r) \<or> caller r \<noteq> holder l) l, c')))"

definition confirmation_step :: "float_text \<Rightarrow> GateRequest \<Rightarrow> Disposition" where
  "confirmation_step ft r =
     (if \<not> enabled (confirmation r) then Allow
      else (case live_question ft (tool_name r) (arguments r) of None \<Rightarrow> Allow | Some question \<Rightarrow>
        (case from_responses (input_responses (confirmation r)) of
           Accepted_Answer True \<Rightarrow> Allow
         | Accepted_Answer False \<Rightarrow> Cancelled
         | OtherResponse \<Rightarrow> Cancelled
         | Missing_Answer \<Rightarrow>
             if can_elicit (confirmation r) then InputRequired question
             else if Option.bind (get (arguments r) ''confirm'') as_bool = Some True then Allow
             else Refused Confirmation_Refusal (question @
               '' This server requires confirmation for live actions and this client cannot ask. Ask the user, then call again with confirm: true.''))))"

definition evaluate :: "float_text \<Rightarrow> GateRequest \<Rightarrow> u64 \<Rightarrow> ControlDomain \<Rightarrow> Disposition \<times> ControlDomain" where
  "evaluate ft r now c = (case refusing_lease r now c of
     (Some l, c') \<Rightarrow> (Refused Lease_Refusal (''Not changed: '' @ lease_description l @
       ''. Ask them to call obs-release-control, or wait. Reading OBS and stopping outputs still work''), c')
   | (None, c') \<Rightarrow>
       (case opt_filter locked (take_lock c') of
          None \<Rightarrow> (confirmation_step ft r, c')
        | Some t \<Rightarrow> (case locked_action (tool_name r) (arguments r) of
            None \<Rightarrow> (confirmation_step ft r, c')
          | Some action \<Rightarrow> (Refused TakeLock_Refusal (''Take '' @ lock_id t @
              '' is recording, and changing this now would '' @ action @
              '' under it. Stop the take with obs-take-stop first, or start takes with lock: false''), c'))))"

definition disposition_result :: "Disposition \<Rightarrow> json option" where
  "disposition_result d = (case d of
     Allow \<Rightarrow> None
   | Refused k m \<Rightarrow> Some (text_result m True)
   | Cancelled \<Rightarrow> Some (text_result ''Cancelled; nothing was changed'' False)
   | InputRequired q \<Rightarrow> Some (mk_object [(''resultType'', JString ''input_required''),
       (''inputRequests'', mk_object [(''confirm'', mk_object [(''method'', JString ''elicitation/create''),
         (''params'', mk_object [(''mode'', JString ''form''), (''message'', JString q),
           (''requestedSchema'', mk_object [(''type'', JString ''object''),
             (''properties'', mk_object [(''confirm'', mk_object [(''type'', JString ''boolean''),
               (''title'', JString ''Confirm''), (''description'', JString q)])]),
             (''required'', JArray [JString ''confirm''])])])])])]))"

section \<open>Lemmas\<close>

lemma opt_filter_Some [simp]: "opt_filter P v = Some x \<longleftrightarrow> v = Some x \<and> P x"
  by (auto simp: opt_filter_def split: option.splits)

lemma opt_filter_None: "opt_filter P v = None \<longleftrightarrow> (\<forall>x. v = Some x \<longrightarrow> \<not> P x)"
  by (auto simp: opt_filter_def split: option.splits)

lemma active_lease_cases:
  "active_lease now c = (l, c') \<Longrightarrow>
     c' = c\<lparr>lease := l\<rparr> \<and> l = opt_filter (\<lambda>x. now < expires_at x) (lease c)"
  by (cases "lease c") (auto simp: active_lease_def opt_filter_def split: if_splits)

lemma active_lease_eq:
  "active_lease now c = (let l = opt_filter (\<lambda>x. now < expires_at x) (lease c) in (l, c\<lparr>lease := l\<rparr>))"
  using active_lease_cases [of now c "fst (active_lease now c)" "snd (active_lease now c)"]
  by (simp add: Let_def prod_eq_iff)

lemma active_lease_live:
  assumes "lease c = Some l" and "now < expires_at l"
  shows "active_lease now c = (Some l, c)"
  using assms by (simp add: active_lease_def)

lemma locked_action_carried:
  assumes "fixed_lock tool = None"
  shows "locked_action tool args \<noteq> None \<longleftrightarrow> is_object args \<and> (\<exists>rs. carried_requests tool args = Some rs \<and>
    (\<exists>r \<in> set rs. \<exists>k. request_kind r = Some k \<and> locked_request k))"
  using assms
  by (cases "carried_requests tool args")
    (force simp: locked_action_def Let_def filter_empty_conv List.map_filter_def)+

text \<open>The refusing lease: a live lease of another client, for a call that is neither read-only nor
  always allowed.\<close>

definition other_lease :: "GateRequest \<Rightarrow> u64 \<Rightarrow> ControlDomain \<Rightarrow> bool" where
  "other_lease r now c \<longleftrightarrow> \<not> read_only_hint r \<and> \<not> always_allowed (tool_name r) \<and>
     (\<exists>l. lease c = Some l \<and> now < expires_at l \<and> (\<not> is_identified (caller r) \<or> caller r \<noteq> holder l))"

lemma refusing_lease_iff:
  "refusing_lease r now c = (x, c') \<Longrightarrow> (x \<noteq> None) = other_lease r now c \<and> take_lock c' = take_lock c"
  by (cases "lease c")
    (auto simp: refusing_lease_def other_lease_def active_lease_eq Let_def opt_filter_def
      split: if_splits dest: sym)

definition take_refuses :: "GateRequest \<Rightarrow> ControlDomain \<Rightarrow> bool" where
  "take_refuses r c \<longleftrightarrow> (\<exists>t. take_lock c = Some t \<and> locked t) \<and> locked_action (tool_name r) (arguments r) \<noteq> None"

lemma evaluate_cases:
  assumes "evaluate ft r now c = (d, c')"
  shows "if other_lease r now c then \<exists>m. d = Refused Lease_Refusal m
    else if take_refuses r c then \<exists>m. d = Refused TakeLock_Refusal m
    else d = confirmation_step ft r"
proof -
  obtain x c1 where x: "refusing_lease r now c = (x, c1)" by (cases "refusing_lease r now c")
  note iff = refusing_lease_iff [OF x]
  show ?thesis
  proof (cases x)
    case None
    with iff assms x show ?thesis
      by (auto simp: evaluate_def take_refuses_def opt_filter_None split: option.splits)
  next
    case (Some l)
    with iff assms x show ?thesis by (auto simp: evaluate_def)
  qed
qed

section \<open>Steps\<close>

text \<open>Any operation on the domain, by a caller, at a time of the clock; the lock of the Take
  supervisor may change at any moment.\<close>

inductive control_step :: "float_text \<Rightarrow> string \<Rightarrow> u64 \<Rightarrow> ControlDomain \<Rightarrow> ControlDomain \<Rightarrow> bool" for ft where
  claims: "claim who minutes why now c = (res, c') \<Longrightarrow> control_step ft who now c c'"
| releases: "release who now c = (out, c') \<Longrightarrow> control_step ft who now c c'"
| asks: "status_result who now c = (v, c') \<Longrightarrow> control_step ft who now c c'"
| calls: "evaluate ft r now c = (d, c') \<Longrightarrow> caller r = who \<Longrightarrow> control_step ft who now c c'"
| supervises: "control_step ft who now c (set_take_lock t c)"

definition others_step :: "float_text \<Rightarrow> Lease \<Rightarrow> ControlDomain \<Rightarrow> ControlDomain \<Rightarrow> bool" where
  "others_step ft l c c' \<longleftrightarrow> (\<exists>who now. who \<noteq> holder l \<and> now < expires_at l \<and> control_step ft who now c c')"

lemma others_step_keeps:
  assumes "others_step ft l c c'" and "lease c = Some l"
  shows "lease c' = Some l"
proof -
  from assms(1) obtain who now where who: "who \<noteq> holder l" "now < expires_at l" "control_step ft who now c c'"
    by (auto simp: others_step_def)
  note live = active_lease_live [OF assms(2) who(2)]
  from who(3) show ?thesis
  proof cases
    case (claims minutes why res)
    with assms(2) who(1) live show ?thesis by (auto simp: claim_def opt_filter_def split: if_splits)
  next
    case (calls r d)
    then have "c' = c"
      using live by (auto simp: evaluate_def refusing_lease_def split: option.splits if_splits)
    with assms(2) show ?thesis by simp
  qed (use assms(2) who(1) live in \<open>auto simp: release_def status_result_def set_take_lock_def Let_def\<close>)
qed

lemma others_run_keeps: "(others_step ft l)\<^sup>*\<^sup>* c c' \<Longrightarrow> lease c = Some l \<Longrightarrow> lease c' = Some l"
  by (induction rule: rtranclp_induct) (auto dest: others_step_keeps)

section \<open>Properties\<close>

text \<open>C35: what the gate lets through. A call is allowed exactly when no live lease of another
  client covers it, no locked Take forbids its action, and it either needs no confirmation, was
  confirmed by the user, or comes from a client that cannot ask and confirms in its arguments.\<close>

theorem gate_allows_exactly:
  "fst (evaluate ft r now c) = Allow \<longleftrightarrow>
     (read_only_hint r \<or> always_allowed (tool_name r) \<or>
      (\<forall>l. lease c \<noteq> Some l \<or> expires_at l \<le> now \<or> is_identified (caller r) \<and> caller r = holder l)) \<and>
     ((\<forall>t. take_lock c \<noteq> Some t \<or> \<not> locked t) \<or> locked_action (tool_name r) (arguments r) = None) \<and>
     (\<not> enabled (confirmation r) \<or> live_question ft (tool_name r) (arguments r) = None \<or>
      from_responses (input_responses (confirmation r)) = Accepted_Answer True \<or>
      from_responses (input_responses (confirmation r)) = Missing_Answer \<and> \<not> can_elicit (confirmation r) \<and>
        Option.bind (get (arguments r) ''confirm'') as_bool = Some True)"
proof -
  have "confirmation_step ft r = Allow \<longleftrightarrow>
     \<not> enabled (confirmation r) \<or> live_question ft (tool_name r) (arguments r) = None \<or>
      from_responses (input_responses (confirmation r)) = Accepted_Answer True \<or>
      from_responses (input_responses (confirmation r)) = Missing_Answer \<and> \<not> can_elicit (confirmation r) \<and>
        Option.bind (get (arguments r) ''confirm'') as_bool = Some True"
    by (auto simp: confirmation_step_def split: option.split ConfirmationAnswer.split bool.split)
  then show ?thesis
    using evaluate_cases [of ft r now c "fst (evaluate ft r now c)" "snd (evaluate ft r now c)"]
    by (auto simp: other_lease_def take_refuses_def split: if_splits)
qed


definition sample_float :: float_text where
  "sample_float = \<lparr>as_f64 = (\<lambda>_. 0), plain_text = (\<lambda>_. ''0''), exp_text = (\<lambda>_. ''0e0'')\<rparr>"

definition sample_lease :: Lease where
  "sample_lease = \<lparr>holder = ''codex'', reason = [], since = 1000, expires_at = 61000\<rparr>"

definition sample_gate :: "string \<Rightarrow> string \<Rightarrow> GateRequest" where
  "sample_gate tool who = \<lparr>tool_name = tool, arguments = JObject [], read_only_hint = False, caller = who,
     confirmation = \<lparr>enabled = False, can_elicit = False, input_responses = None\<rparr>\<rparr>"

theorem gate_allows_exactly_witness:
  "fst (evaluate sample_float (sample_gate ''obs-set-volume'' ''codex'') 2000
       \<lparr>lease = Some sample_lease, take_lock = Some \<lparr>lock_id = ''t'', locked = True\<rparr>\<rparr>) = Allow \<and>
   fst (evaluate sample_float (sample_gate ''obs-set-volume'' ''claude'') 2000
       \<lparr>lease = Some sample_lease, take_lock = None\<rparr>) \<noteq> Allow"
proof -
  have "is_identified ''codex''" "locked_action ''obs-set-volume'' (JObject []) = None" "\<not> always_allowed ''obs-set-volume''"
    by code_simp+
  then show ?thesis
    unfolding gate_allows_exactly by (simp add: sample_gate_def sample_lease_def)
qed


text \<open>Stopping always works. A call of one of the tools that stop an output (or give up
  control) is never refused because of a lease or of a locked Take, whoever calls and whatever its
  arguments are; at most its confirmation is asked for.\<close>

lemma stops_never_blocked:
  assumes "always_allowed (tool_name r)"
  shows "fst (evaluate ft r now c) = confirmation_step ft r"
proof -
  from assms have "fixed_lock (tool_name r) = None" "carried_requests (tool_name r) (arguments r) = None"
    by (auto simp: always_allowed_def fixed_lock_def fixed_locks_def carried_requests_def)
  then have "locked_action (tool_name r) (arguments r) = None" by (simp add: locked_action_def)
  with assms show ?thesis
    using evaluate_cases [of ft r now c "fst (evaluate ft r now c)" "snd (evaluate ft r now c)"]
    by (auto simp: other_lease_def take_refuses_def)
qed

text \<open>The tool name of a request: \<open>SetCurrentProfile\<close> is \<open>obs-set-current-profile\<close>.\<close>

definition tool_of_request :: "string \<Rightarrow> string" where
  "tool_of_request r = ''obs'' @ concat (map (\<lambda>c. if is_ascii_uppercase c
     then CHR ''-'' # to_ascii_lowercase [c] else [c]) r)"

lemma locked_tools: "map fst fixed_locks = map tool_of_request locked_requests"
  by code_simp

text \<open>The lock of a Take cannot be walked around. The tools it covers are exactly those of the
  requests it covers, and a raw request or a batch is covered exactly when one of the requests in
  it is; everything else is not covered.\<close>

lemma lock_covers_raw_requests:
  "(locked_action tool args \<noteq> None) \<longleftrightarrow>
     (\<exists>r. locked_request r \<and> tool = tool_of_request r) \<or>
     tool = ''obs-call-request'' \<and> (\<exists>k. request_kind args = Some k \<and> locked_request k) \<or>
     tool = ''obs-batch'' \<and> (\<exists>rs. get args ''requests'' = Some (JArray rs) \<and>
       (\<exists>r. r \<in> set rs \<and> (\<exists>k. request_kind r = Some k \<and> locked_request k)))"
proof -
  have fixed: "(fixed_lock tool \<noteq> None) \<longleftrightarrow> (\<exists>r. locked_request r \<and> tool = tool_of_request r)"
  proof -
    have "(fixed_lock tool \<noteq> None) \<longleftrightarrow> tool \<in> set (map fst fixed_locks)"
      by (simp add: fixed_lock_def map_of_eq_None_iff)
    then show ?thesis unfolding locked_tools by (auto simp: locked_request_def)
  qed
  have obj: "request_kind args = Some k \<Longrightarrow> is_object args" "get args ''requests'' = Some v \<Longrightarrow> is_object args" for k v
    by (cases args; simp add: request_kind_def is_object_def)+
  have "as_array v = Some rs \<longleftrightarrow> v = JArray rs" for v rs by (cases v) auto
  then have carried: "carried_requests tool args = Some rs \<longleftrightarrow> tool = ''obs-call-request'' \<and> rs = [args] \<or>
      tool = ''obs-batch'' \<and> get args ''requests'' = Some (JArray rs)" for rs
    by (auto simp: carried_requests_def bind_eq_Some_conv)
  show ?thesis
  proof (cases "fixed_lock tool = None")
    case True
    with fixed have no: "\<not> (\<exists>r. locked_request r \<and> tool = tool_of_request r)" by simp
    show ?thesis
      unfolding locked_action_carried [OF True] carried using no obj by auto
  next
    case False
    then obtain a where "fixed_lock tool = Some a" by auto
    then have "locked_action tool args = Some a" by (simp add: locked_action_def)
    with False fixed show ?thesis by blast
  qed
qed

text \<open>What a claim does on every branch. With a duration of 1 to 240 minutes, a reason of at most
  200 code points and an identified caller, it is refused with the lease of another client while
  that is live; otherwise it grants a lease until exactly the claimed time (a renewal keeps its
  start), unless that time is not representable, which is an error that grants nothing.\<close>

lemma claim_branches:
  "claim who m why now c =
     (if unat m < 1 \<or> 240 < unat m then (Err InvalidMinutes, c)
      else if chars_count why > 200 then (Err ReasonTooLong, c)
      else if who = ''an unidentified client'' then (Ok Unidentified, c)
      else let live = opt_filter (\<lambda>l. now < expires_at l) (lease c) in
        if \<exists>l. live = Some l \<and> holder l \<noteq> who then (Ok (Claim_HeldBy (the live)), c\<lparr>lease := live\<rparr>)
        else if 2 ^ 64 \<le> unat now + unat m * 60000 then (Err ClockOverflow, c\<lparr>lease := live\<rparr>)
        else let l = \<lparr>holder = who, reason = why,
               since = (case live of None \<Rightarrow> now | Some l \<Rightarrow> since l),
               expires_at = of_nat (unat now + unat m * 60000)\<rparr>
             in (Ok (Claimed l), c\<lparr>lease := Some l\<rparr>))"
proof -
  have range: "1 \<le> m \<and> m \<le> 240 \<longleftrightarrow> \<not> (unat m < 1 \<or> 240 < unat m)"
    by (auto simp: word_le_nat_alt)
  have "unat m < 2 ^ 16" using unsigned_less [of m, where 'a = nat] by simp
  then have len: "unat (ucast m * 60000 :: u64) = unat m * 60000"
  proof -
    assume small: "unat m < 2 ^ 16"
    then have "unat (ucast m :: u64) = unat m"
      by (simp add: unsigned_ucast_eq take_bit_nat_eq_self)
    with small show ?thesis by (simp add: unat_word_ariths)
  qed
  have add: "checked_add now (ucast m * 60000) =
      (if 2 ^ 64 \<le> unat now + unat m * 60000 then None else Some (of_nat (unat now + unat m * 60000)))"
  proof -
    have "now + ucast m * 60000 = of_nat (unat now + unat m * 60000)"
      by (simp add: len [symmetric])
    then show ?thesis by (simp add: checked_add_def len)
  qed
  show ?thesis
    unfolding claim_def range add active_lease_eq
    by (auto simp: Let_def is_identified_def UNIDENTIFIED_def opt_filter_def split: option.splits)
qed

definition answered :: "json \<Rightarrow> GateRequest \<Rightarrow> GateRequest" where
  "answered v r = r\<lparr>confirmation := (confirmation r)\<lparr>input_responses := Some (mk_object [(''confirm'', v)])\<rparr>\<rparr>"

lemma answered_simps [simp]:
  "tool_name (answered v r) = tool_name r" "arguments (answered v r) = arguments r"
  "read_only_hint (answered v r) = read_only_hint r" "caller (answered v r) = caller r"
  "enabled (confirmation (answered v r)) = enabled (confirmation r)"
  "input_responses (confirmation (answered v r)) = Some (mk_object [(''confirm'', v)])"
  by (simp_all add: answered_def)

lemma answers:
  "from_responses (Some (mk_object [(''confirm'', mk_object [(''action'', JString ''accept''),
     (''content'', mk_object [(''confirm'', JBool b)])])])) = Accepted_Answer b"
  "from_responses (Some (mk_object [(''confirm'', mk_object [(''action'', JString ''decline'')])])) = OtherResponse"
  "from_responses (Some (mk_object [(''confirm'', mk_object [(''action'', JString ''cancel'')])])) = OtherResponse"
  by (simp_all add: from_responses_def opt_filter_def is_object_def mk_object_def [symmetric] Let_def)
    (simp_all add: mk_object_def)

text \<open>A confirmation that is asked for can be given and can be refused: when the gate asks for
  input, the same call with the user's acceptance is allowed, and with a refusal or a dismissal it
  is cancelled, in the same state at the same time.\<close>

lemma confirmation_answers:
  assumes "evaluate ft r now c = (InputRequired q, c')"
  shows "fst (evaluate ft (answered (mk_object [(''action'', JString ''accept''),
        (''content'', mk_object [(''confirm'', JBool True)])]) r) now c) = Allow \<and>
    fst (evaluate ft (answered (mk_object [(''action'', JString ''decline'')]) r) now c) = Cancelled \<and>
    fst (evaluate ft (answered (mk_object [(''action'', JString ''cancel'')]) r) now c) = Cancelled"
proof -
  from evaluate_cases [OF assms] have open_gate: "\<not> other_lease r now c" "\<not> take_refuses r c"
      and "confirmation_step ft r = InputRequired q"
    by (auto split: if_splits)
  then have "enabled (confirmation r)" "live_question ft (tool_name r) (arguments r) = Some q"
    by (auto simp: confirmation_step_def split: if_splits option.splits ConfirmationAnswer.splits bool.splits)
  then have step: "confirmation_step ft (answered v r) = (case from_responses (Some (mk_object [(''confirm'', v)])) of
      Accepted_Answer True \<Rightarrow> Allow | Accepted_Answer False \<Rightarrow> Cancelled | OtherResponse \<Rightarrow> Cancelled
    | Missing_Answer \<Rightarrow> confirmation_step ft (answered v r))" for v
    by (simp add: confirmation_step_def split: ConfirmationAnswer.split bool.split)
  have gate: "fst (evaluate ft (answered v r) now c) = confirmation_step ft (answered v r)" for v
    using evaluate_cases [of ft "answered v r" now c "fst (evaluate ft (answered v r) now c)"] open_gate
    by (simp add: other_lease_def take_refuses_def prod_eq_iff)
  show ?thesis unfolding gate by (subst (1 2 3) step) (simp add: answers)
qed

lemma confirmation_answers_example:
  "let r = (sample_gate ''obs-start-stream'' ''claude'')
       \<lparr>confirmation := \<lparr>enabled = True, can_elicit = True, input_responses = None\<rparr>\<rparr>
   in fst (evaluate sample_float r 2000 new_control) = InputRequired ''Start the live stream?'' \<and>
     fst (evaluate sample_float (answered (mk_object [(''action'', JString ''decline'')]) r) 2000 new_control) = Cancelled"
proof -
  let ?r = "(sample_gate ''obs-start-stream'' ''claude'')
       \<lparr>confirmation := \<lparr>enabled = True, can_elicit = True, input_responses = None\<rparr>\<rparr>"
  have "evaluate sample_float ?r 2000 new_control = (InputRequired ''Start the live stream?'', new_control)"
    by (simp add: evaluate_def refusing_lease_def sample_gate_def new_control_def active_lease_def
        always_allowed_def opt_filter_def confirmation_step_def live_question_def fixed_questions_def
        from_responses_def)
  from this confirmation_answers [OF this] show ?thesis by (simp add: Let_def)
qed

end
