(* ===== verification/Custody.thy ===== *)
theory Custody
  imports Operation_Store Control
begin

text \<open>
  Single-request custody, \<open>src/native/src/custody.rs\<close>: one operation at a time is admitted by the
  control policy, made durable in two steps (prepared, dispatching) before its request can enter
  the session queue, checked again by a guard at the moment of dispatch, and settled once with the
  outcome of the transport. The waiting for the transport is not modelled here (it is the client
  side of the session); \<open>custody_finish\<close> takes the response it ended with.
\<close>

section \<open>State\<close>

record PolicyCall =
  pc_tool_name :: string
  pc_arguments :: json
  pc_read_only_hint :: bool
  pc_caller :: string
  pc_confirmation :: ConfirmationContext

definition policy_evaluate :: "float_text \<Rightarrow> PolicyCall \<Rightarrow> u64 \<Rightarrow> ControlDomain \<Rightarrow> Disposition \<times> ControlDomain" where
  "policy_evaluate ft p now c = evaluate ft \<lparr>tool_name = pc_tool_name p, arguments = pc_arguments p,
     read_only_hint = pc_read_only_hint p, caller = pc_caller p, confirmation = pc_confirmation p\<rparr> now c"

record TrackedRequest =
  tr_operation_id :: string
  tr_kind :: OperationKind
  tr_expected :: u64
  tr_policy :: PolicyCall
  tr_details :: PrepareDetails
  tr_request_type :: string
  tr_request_data :: json

datatype IntentStep = Prepared_Step | Dispatching_Step

datatype BeginError = Busy | InvalidDeadline | Begin_StaleConnection | PolicyUnavailable | Policy Disposition
  | Receipt_Error string IntentStep StoreError

datatype TransportDisposition = TD_Accepted | TD_NotDispatched BeforeDispatch | TD_Rejected u64 | TD_Unknown Invalidation

datatype FinishError = NoPending | CustodyUncertain OperationRecord TransportDisposition StoreError

datatype Outcome = Out_Accepted OperationRecord json
  | Out_NotDispatched OperationRecord BeforeDispatch "Disposition option"
  | Out_Rejected OperationRecord u64 | Out_Unknown OperationRecord Invalidation

record pending_request =
  p_receipt :: OperationRecord
  p_request :: TrackedRequest
  policy_refusal :: "Disposition option"

record 'b custody =
  cu_store :: "'b operation_store"
  cu_token :: u64
  cu_pending :: "pending_request option"

definition new_custody :: "'b operation_store \<Rightarrow> u64 \<Rightarrow> string \<Rightarrow> (StoreError, 'b custody) result" where
  "new_custody st token session_endpoint =
     (if os_endpoint st \<noteq> session_endpoint then Err EndpointMismatch
      else Ok \<lparr>cu_store = st, cu_token = token, cu_pending = None\<rparr>)"

definition custody_into_store :: "'b custody \<Rightarrow> 'b custody + 'b operation_store" where
  "custody_into_store cu = (if cu_pending cu \<noteq> None then Inl cu else Inr (cu_store cu))"

section \<open>Beginning\<close>

text \<open>What a call of \<open>begin\<close> meets: a usable deadline, the clock pair, an unpoisoned policy lock, and
  the file system during the two writes.\<close>

record 'b begin_io =
  deadline_ok :: bool
  snapshot_ms :: u64
  snapshot_utc :: string
  policy_lock_ok :: bool
  prepare_views :: "'b ios"
  prepare_writes_io :: "'b persist_io"
  intent_views :: "'b ios"
  intent_writes_io :: "'b persist_io"

definition dispatching_intent :: OperationUpdate where
  "dispatching_intent = (new_update Dispatching)\<lparr>u_request_dispatched := Some None\<rparr>"

definition custody_begin :: "'b text_codec \<Rightarrow> float_text \<Rightarrow> (string \<Rightarrow> string) \<Rightarrow> 'b begin_io \<Rightarrow> TrackedRequest \<Rightarrow>
    'b custody \<Rightarrow> ControlDomain \<Rightarrow> (BeginError, unit) result \<times> 'b custody \<times> ControlDomain" where
  "custody_begin tx ft hash io rq cu c =
     (if cu_pending cu \<noteq> None then (Err Busy, cu, c)
      else if \<not> deadline_ok io then (Err InvalidDeadline, cu, c)
      else if \<not> policy_lock_ok io then (Err PolicyUnavailable, cu, c)
      else (case policy_evaluate ft (tr_policy rq) (snapshot_ms io) c of (d, c') \<Rightarrow>
        if d \<noteq> Allow then (Err (Policy d), cu, c')
        else if tr_expected rq \<noteq> cu_token cu then (Err Begin_StaleConnection, cu, c')
        else (case os_prepare tx (prepare_views io) (prepare_writes_io io) hash (tr_operation_id rq) (tr_kind rq)
                (cu_token cu) (snapshot_utc io) (tr_details rq) (cu_store cu) of
            (Err e, st) \<Rightarrow> (Err (Receipt_Error (tr_operation_id rq) Prepared_Step e), cu\<lparr>cu_store := st\<rparr>, c')
          | (Ok prepared, st) \<Rightarrow>
              (case os_update tx (intent_views io) (intent_writes_io io) prepared dispatching_intent
                      (snapshot_utc io) st of
                 (Err e, st') \<Rightarrow>
                   (Err (Receipt_Error (tr_operation_id rq) Dispatching_Step e), cu\<lparr>cu_store := st'\<rparr>, c')
               | (Ok receipt, st') \<Rightarrow>
                   (Ok (), cu\<lparr>cu_store := st', cu_pending :=
                      Some \<lparr>p_receipt = receipt, p_request = rq, policy_refusal = None\<rparr>\<rparr>, c')))))"

section \<open>The guard at dispatch\<close>

text \<open>Run by the socket owner immediately before the frame is written: \<open>None\<close> lets it go.\<close>

record 'b guard_io =
  expired :: bool
  guard_ms :: u64
  guard_lock_ok :: bool
  refusal_lock_ok :: bool
  guard_views :: "'b ios"

definition dispatch_guard :: "'b text_codec \<Rightarrow> float_text \<Rightarrow> 'b guard_io \<Rightarrow> pending_request \<Rightarrow> 'b operation_store \<Rightarrow>
    ControlDomain \<Rightarrow> string option \<times> pending_request \<times> 'b operation_store \<times> ControlDomain" where
  "dispatch_guard tx ft io p st c =
     (if expired io then (Some ''Custody operation deadline expired before dispatch'', p, st, c)
      else if \<not> guard_lock_ok io then (Some ''Control policy is unavailable'', p, st, c)
      else (case policy_evaluate ft (tr_policy (p_request p)) (guard_ms io) c of (d, c') \<Rightarrow>
        if d = Allow then
          (case dispatch_permitted tx (guard_views io) (operation_id (p_receipt p)) st of (ok, st') \<Rightarrow>
            if ok then (None, p, st', c') else (Some ''Receipt custody changed before dispatch'', p, st', c'))
        else (Some ''Control policy changed before dispatch; inspect the returned disposition'',
              if refusal_lock_ok io then p\<lparr>policy_refusal := Some d\<rparr> else p, st, c')))"

section \<open>Finishing\<close>

definition transport_of :: "(RequestError, json) result \<Rightarrow> TransportDisposition" where
  "transport_of reply = (case reply of
     Ok v \<Rightarrow> TD_Accepted
   | Err (BeforeDispatch why) \<Rightarrow> TD_NotDispatched why
   | Err (Req_Rejected code) \<Rightarrow> TD_Rejected code
   | Err (RejectedDetailed code _) \<Rightarrow> TD_Rejected code
   | Err (Req_Unknown why) \<Rightarrow> TD_Unknown why)"

definition final_update :: "TransportDisposition \<Rightarrow> OperationUpdate" where
  "final_update t = (case t of
     TD_Accepted \<Rightarrow> (new_update Accepted)\<lparr>u_request_dispatched := Some (Some True), u_request_accepted := Some (Some True)\<rparr>
   | TD_NotDispatched _ \<Rightarrow> (new_update NotDispatched)\<lparr>u_request_dispatched := Some (Some False), u_request_accepted := Some None\<rparr>
   | TD_Rejected _ \<Rightarrow> (new_update Unknown)\<lparr>u_request_dispatched := Some (Some True), u_request_accepted := Some (Some False)\<rparr>
   | TD_Unknown _ \<Rightarrow> (new_update Unknown)\<lparr>u_request_dispatched := Some None, u_request_accepted := Some None\<rparr>)"

definition outcome_of :: "(RequestError, json) result \<Rightarrow> OperationRecord \<Rightarrow> Disposition option \<Rightarrow> Outcome" where
  "outcome_of reply r refusal = (case reply of
     Ok v \<Rightarrow> Out_Accepted r v
   | Err (BeforeDispatch why) \<Rightarrow> Out_NotDispatched r why refusal
   | Err (Req_Rejected code) \<Rightarrow> Out_Rejected r code
   | Err (RejectedDetailed code _) \<Rightarrow> Out_Rejected r code
   | Err (Req_Unknown why) \<Rightarrow> Out_Unknown r why)"

definition custody_finish :: "'b text_codec \<Rightarrow> 'b ios \<Rightarrow> 'b persist_io \<Rightarrow> string \<Rightarrow> (RequestError, json) result \<Rightarrow>
    'b custody \<Rightarrow> (FinishError, Outcome) result \<times> 'b custody" where
  "custody_finish tx ios pio stamp reply cu = (case cu_pending cu of
     None \<Rightarrow> (Err NoPending, cu)
   | Some p \<Rightarrow>
       (case os_update tx ios pio (p_receipt p) (final_update (transport_of reply)) stamp (cu_store cu) of
          (Err e, st) \<Rightarrow> (Err (CustodyUncertain (p_receipt p) (transport_of reply) e),
             cu\<lparr>cu_store := st, cu_pending := None\<rparr>)
        | (Ok r, st) \<Rightarrow> (Ok (outcome_of reply r (policy_refusal p)), cu\<lparr>cu_store := st, cu_pending := None\<rparr>)))"

definition outcome_receipt :: "Outcome \<Rightarrow> OperationRecord" where
  "outcome_receipt out = (case out of Out_Accepted r _ \<Rightarrow> r | Out_NotDispatched r _ _ \<Rightarrow> r | Out_Rejected r _ \<Rightarrow> r
     | Out_Unknown r _ \<Rightarrow> r)"

section \<open>What the receipts say\<close>

lemma update_record: "update tx vio io r u t b = (Ok r', b') \<Longrightarrow> updated r u t = Ok r'"
  by (cases "updated r u t")
    (auto simp: update_def returning_def split: if_splits sum.splits)

lemma updated_fields:
  "updated r u t = Ok r' \<Longrightarrow> phase r' = u_phase u \<and> operation_id r' = operation_id r \<and> updated_at r' = t \<and>
     request_dispatched r' = or_else (u_request_dispatched u) (request_dispatched r) \<and>
     request_accepted r' = or_else (u_request_accepted u) (request_accepted r)"
  by (auto simp: updated_def)

lemma os_update_ledger:
  assumes "faithful_text tx" and "quiet (ios 0)" and "os_update tx ios pio r u t st = (Ok r', st')"
  shows "ledger tx (backend_of st') (operation_id r) = Some (V1 r')" and "updated r u t = Ok r'"
    and "ledger tx (backend_of st) (operation_id r) = Some (V1 r)"
proof -
  from assms(2) have quiet: "disturbed (ios 0) = (\<lambda>_. None)" by (simp add: quiet_def)
  note up = os_update_Ok [OF assms(3)]
  from operation.update_outcome [OF assms(1) quiet up]
  show "ledger tx (backend_of st') (operation_id r) = Some (V1 r')" "ledger tx (backend_of st) (operation_id r) = Some (V1 r)"
    by auto
  show "updated r u t = Ok r'" by (rule update_record [OF up])
qed

lemma os_prepare_record:
  assumes "os_prepare tx ios pio hash oid k gen t d st = (Ok r, st')"
  shows "r = prepared_record hash (b_endpoint (backend_of st)) oid k gen t d"
  using os_prepare_Ok [OF assms]
  by (auto simp: prepare_def returning_def split: if_splits sum.splits)

text \<open>A finished operation: the receipt on disk is the outcome's, updated with what the transport said.\<close>

lemma outcome_of_receipt [simp]: "outcome_receipt (outcome_of reply r x) = r"
  by (auto simp: outcome_of_def outcome_receipt_def split: sum.split RequestError.split)

lemma finish_Ok:
  assumes "faithful_text tx" and "quiet (ios 0)" and "cu_pending cu = Some p"
    and "custody_finish tx ios pio stamp reply cu = (Ok out, cu')"
  shows "cu_pending cu' = None \<and>
    ledger tx (backend_of (cu_store cu')) (operation_id (p_receipt p)) = Some (V1 (outcome_receipt out)) \<and>
    updated (p_receipt p) (final_update (transport_of reply)) stamp = Ok (outcome_receipt out)"
proof (cases "os_update tx ios pio (p_receipt p) (final_update (transport_of reply)) stamp (cu_store cu)")
  case (Pair res st)
  with assms(3,4) obtain r where r: "res = Ok r" "out = outcome_of reply r (policy_refusal p)"
      "cu' = cu\<lparr>cu_store := st, cu_pending := None\<rparr>"
    by (cases res) (auto simp: custody_finish_def)
  note led = os_update_ledger [where tx = tx and ios = ios, OF assms(1,2) Pair [unfolded r(1)]]
  from r led(1,2) show ?thesis by simp
qed

lemma final_fields:
  assumes "updated q (final_update (transport_of reply)) stamp = Ok r"
  shows "phase r = Accepted \<longleftrightarrow> (\<exists>v. reply = Ok v)" "phase r = NotDispatched \<longleftrightarrow> (\<exists>b. reply = Err (BeforeDispatch b))"
    "phase r \<in> {Accepted, NotDispatched, Unknown}"
    "request_dispatched r = Some False \<longleftrightarrow> (\<exists>b. reply = Err (BeforeDispatch b))"
    "request_accepted r = Some False \<longleftrightarrow> (\<exists>e. reply = Err e \<and> rejection_code e \<noteq> None)"
  using updated_fields [OF assms]
  by (auto simp: final_update_def transport_of_def new_update_def or_else_def rejection_code_def
      split: sum.splits RequestError.splits)

section \<open>A sample directory\<close>

text \<open>The sample store with one receipt of the first family, after \<open>n\<close> publications.\<close>

definition holding :: "u64 \<Rightarrow> OperationRecord \<Rightarrow> json backend" where
  "holding n r = sample_store\<lparr>sequence := n,
     disk := [(receipt_name sample_uuid, \<lparr>meta = sample_regular, contents = operation_value r\<rparr>)]\<rparr>"

lemma holding_read:
  assumes "checked r = Ok r" and "operation_id r = sample_uuid" and "endpoint_hash r = sample_hash"
  shows "read_operation sample_text sample_view (holding n r) sample_uuid = Ok r"
proof -
  let ?f = "\<lparr>meta = sample_regular, contents = operation_value r\<rparr>"
  have "read_bytes sample_text (undisturbed (Some ?f)) = Ok (operation_value r)"
    using sample_regular_ok by (simp add: read_bytes_undisturbed del: validate_regular_Ok)
      (simp add: sample_regular_def sample_text_def MAX_RECEIPT_BYTES_def)
  moreover have "operation_from_value (operation_value r) = Ok r"
    using operation_from_to [of r] assms(1) by simp
  ultimately have "read_receipt sample_text (undisturbed (Some ?f)) = Ok r"
    by (simp add: read_receipt_def operation_from_json_def sample_text_def MAX_RECEIPT_BYTES_def)
  moreover have "seen_file sample_view (holding n r) (receipt_name sample_uuid) = undisturbed (Some ?f)"
    by (simp add: seen_file_def sample_view_def holding_def)
  moreover have "view_layout (holding n r) (layout_start sample_view) = Ok True"
      "view_layout (holding n r) (layout_end sample_view) = Ok True" "b_endpoint (holding n r) = sample_hash"
    by (simp_all add: view_layout_def sample_view_def holding_def sample_store_def)
  ultimately show ?thesis using assms(2,3) sample_valid(1) by (simp add: read_operation_def)
qed

lemma temporary_name_other: "temporary_name oid pid n \<noteq> receipt_name oid"
  by (simp add: temporary_name_def receipt_name_def)

lemma holding_update:
  assumes "checked r = Ok r" and "operation_id r = sample_uuid" and "endpoint_hash r = sample_hash"
    and "updated r u t = Ok r'" and "valid_timestamp t" and "checked_add n 1 = Some m"
  shows "update sample_text sample_view sample_persist r u t (holding n r) = (Ok r', holding m r')"
proof -
  have r': "operation_id r' = sample_uuid" "endpoint_hash r' = sample_hash"
    using assms(2-4) by (auto simp: updated_def)
  have "healthy_persist sample_persist (holding n r) sample_directory sample_directory"
    using sample_healthy by (simp add: healthy_persist_def holding_def)
  note p = persist_healthy [OF this, of sample_text "operation_value r'" "operation_value r'" m sample_uuid True]
  have "persist_value sample_text sample_persist sample_uuid (operation_value r') True (holding n r) =
      (Ok (), holding m r')"
    using p assms(6) sample_regular_ok temporary_name_other
    by (simp add: holding_def sample_text_def sample_store_def sample_persist_def MAX_RECEIPT_BYTES_def
        del: validate_regular_Ok)
  with assms r' holding_read [OF assms(1-3)] show ?thesis
    by (simp add: update_def persist_def check_endpoint_def holding_def sample_store_def returning_def)
qed

section \<open>Properties\<close>

text \<open>C8: nothing can be sent before it is on record. When custody begins, the policy allowed the
  call, the connection is the expected one, and the receipt on disk is in its dispatching phase
  with an unknown dispatch; every other refusal than a failed write leaves the store untouched, and
  while one operation is pending no other begins.\<close>

theorem begin_is_durable:
  assumes "faithful_text tx" and "\<And>i. quiet (intent_views io i)"
  shows "case custody_begin tx ft hash io rq cu c of
      (Ok _, cu', c') \<Rightarrow> cu_pending cu = None \<and> fst (policy_evaluate ft (tr_policy rq) (snapshot_ms io) c) = Allow \<and>
        tr_expected rq = cu_token cu \<and>
        (\<exists>r. cu_pending cu' = Some \<lparr>p_receipt = r, p_request = rq, policy_refusal = None\<rparr> \<and>
          operation_id r = tr_operation_id rq \<and> phase r = Dispatching \<and> request_dispatched r = None \<and>
          ledger tx (backend_of (cu_store cu')) (tr_operation_id rq) = Some (V1 r))
    | (Err (Receipt_Error oid step e), cu', c') \<Rightarrow> oid = tr_operation_id rq \<and> cu_pending cu' = None
    | (Err _, cu', c') \<Rightarrow> cu' = cu"
proof (cases "custody_begin tx ft hash io rq cu c")
  case (fields out cu' c')
  show ?thesis
  proof (cases out)
    case (Inl e)
    with fields show ?thesis
      by (auto simp: custody_begin_def split: if_splits prod.splits sum.splits BeginError.split)
  next
    case (Inr u)
    obtain d c1 where d: "policy_evaluate ft (tr_policy rq) (snapshot_ms io) c = (d, c1)" by fastforce
    obtain o1 st1 where p: "os_prepare tx (prepare_views io) (prepare_writes_io io) hash (tr_operation_id rq)
        (tr_kind rq) (cu_token cu) (snapshot_utc io) (tr_details rq) (cu_store cu) = (o1, st1)"
      by fastforce
    from fields Inr d p obtain r1 where ok: "cu_pending cu = None" "d = Allow" "tr_expected rq = cu_token cu" "o1 = Ok r1"
      by (auto simp: custody_begin_def split: if_splits sum.splits)
    obtain o2 st2 where q: "os_update tx (intent_views io) (intent_writes_io io) r1 dispatching_intent
        (snapshot_utc io) st1 = (o2, st2)"
      by fastforce
    from fields Inr d p ok q obtain r2 where r2: "o2 = Ok r2"
        "cu' = cu\<lparr>cu_store := st2, cu_pending := Some \<lparr>p_receipt = r2, p_request = rq, policy_refusal = None\<rparr>\<rparr>"
      by (auto simp: custody_begin_def split: if_splits sum.splits)
    note led = os_update_ledger [where tx = tx and ios = "intent_views io", OF assms(1) assms(2) q [unfolded r2(1)]]
    have oid: "operation_id r1 = tr_operation_id rq"
      using os_prepare_record [OF p [unfolded ok(4)]] by (simp add: prepared_record_def)
    from updated_fields [OF led(2)] have "phase r2 = Dispatching" "request_dispatched r2 = None"
        "operation_id r2 = operation_id r1"
      by (simp_all add: dispatching_intent_def new_update_def or_else_def)
    with fields Inr d ok r2 led(1) oid show ?thesis by auto
  qed
qed

definition no_details :: PrepareDetails where
  "no_details = \<lparr>scene_collection = None, d_scene_uuid = None, d_stage_id = None, d_take_id = None\<rparr>"

definition sample_policy :: PolicyCall where
  "sample_policy = \<lparr>pc_tool_name = ''obs-stop-recording'', pc_arguments = JObject [], pc_read_only_hint = False,
     pc_caller = ''codex'', pc_confirmation = \<lparr>enabled = False, can_elicit = False, input_responses = None\<rparr>\<rparr>"

definition sample_tracked :: TrackedRequest where
  "sample_tracked = \<lparr>tr_operation_id = sample_uuid, tr_kind = RecordStop, tr_expected = 7, tr_policy = sample_policy,
     tr_details = no_details, tr_request_type = ''StopRecord'', tr_request_data = JObject []\<rparr>"

definition sample_prepared :: OperationRecord where
  "sample_prepared = prepared_record (\<lambda>x. sample_hash) sample_hash sample_uuid RecordStop 7
     ''2026-01-02T03:04:05.678Z'' no_details"

definition sample_begin_io :: "json begin_io" where
  "sample_begin_io = \<lparr>deadline_ok = True, snapshot_ms = 2000, snapshot_utc = ''2026-01-02T03:04:05.678Z'',
     policy_lock_ok = True, prepare_views = (\<lambda>_. sample_view), prepare_writes_io = sample_persist,
     intent_views = (\<lambda>_. sample_view), intent_writes_io = sample_persist\<rparr>"

definition sample_custody :: "json custody" where
  "sample_custody = \<lparr>cu_store = Direct sample_store, cu_token = 7, cu_pending = None\<rparr>"

lemma sample_prepared_head [simp]:
  "operation_id sample_prepared = sample_uuid" "endpoint_hash sample_prepared = sample_hash"
  by (simp_all add: sample_prepared_def prepared_record_def)

lemma sample_prepared_ok:
  "checked sample_prepared = Ok sample_prepared"
  "prepare sample_text sample_persist (\<lambda>x. sample_hash) sample_uuid RecordStop 7 ''2026-01-02T03:04:05.678Z''
     no_details sample_store = (Ok sample_prepared, holding 1 sample_prepared)"
proof -
  show c: "checked sample_prepared = Ok sample_prepared"
    using sample by (simp add: checked_def sample_prepared_def prepared_record_def head_ok_def
        MAX_SAFE_INTEGER_def opt_all_def no_details_def)
  have "prepared_record (\<lambda>x. sample_hash) (b_endpoint sample_store) sample_uuid RecordStop 7
     ''2026-01-02T03:04:05.678Z'' no_details = sample_prepared"
    by (simp add: sample_prepared_def sample_store_def)
  with c show "prepare sample_text sample_persist (\<lambda>x. sample_hash) sample_uuid RecordStop 7 ''2026-01-02T03:04:05.678Z''
     no_details sample_store = (Ok sample_prepared, holding 1 sample_prepared)"
    using sample sample_persisted [of sample_uuid "operation_value sample_prepared"]
    by (simp add: prepare_def persist_def check_endpoint_def returning_def holding_def sample_store_def
        del: checked_Ok_iff)
qed

definition sample_intent :: OperationRecord where
  "sample_intent = sample_prepared\<lparr>phase := Dispatching, request_dispatched := None\<rparr>"

lemma sample_intent_ok:
  "updated sample_prepared dispatching_intent ''2026-01-02T03:04:05.678Z'' = Ok sample_intent"
  "checked sample_intent = Ok sample_intent" "operation_id sample_intent = sample_uuid"
  "endpoint_hash sample_intent = sample_hash"
  using sample by (simp_all add: updated_def dispatching_intent_def new_update_def or_else_def checked_def head_ok_def
      sample_intent_def sample_prepared_def prepared_record_def MAX_SAFE_INTEGER_def opt_all_def no_details_def)

lemma sample_begun:
  "custody_begin sample_text sample_float (\<lambda>x. sample_hash) sample_begin_io sample_tracked sample_custody new_control =
     (Ok (), \<lparr>cu_store = Direct (holding 2 sample_intent), cu_token = 7,
       cu_pending = Some \<lparr>p_receipt = sample_intent, p_request = sample_tracked, policy_refusal = None\<rparr>\<rparr>, new_control)"
proof -
  have "policy_evaluate sample_float sample_policy 2000 new_control = (Allow, new_control)"
    by code_simp
  moreover have "update sample_text sample_view sample_persist sample_prepared dispatching_intent
      ''2026-01-02T03:04:05.678Z'' (holding 1 sample_prepared) = (Ok sample_intent, holding 2 sample_intent)"
    by (rule holding_update [OF sample_prepared_ok(1) sample_prepared_head sample_intent_ok(1)])
      (use sample in \<open>simp_all add: checked_add_def\<close>)
  ultimately show ?thesis
    using sample_prepared_ok(2)
    by (simp add: custody_begin_def sample_begin_io_def sample_tracked_def sample_custody_def directly_def)
qed

theorem begin_is_durable_witness:
  "\<exists>r. phase r = Dispatching \<and> request_dispatched r = None \<and>
     ledger sample_text (holding 2 sample_intent) sample_uuid = Some (V1 r)"
  using begin_is_durable [OF sample_text_faithful, where io = sample_begin_io and ft = sample_float
      and hash = "\<lambda>x. sample_hash" and rq = sample_tracked and cu = sample_custody and c = new_control] sample_quiet
  by (auto simp: sample_begun) (auto simp: sample_begin_io_def sample_tracked_def)

text \<open>Custody records what the transport reported and nothing better. A finished operation is no
  longer pending; its receipt on disk says accepted exactly for a successful reply, not dispatched
  exactly when the request was not dispatched, and unknown otherwise (a rejection is recorded as
  dispatched and not accepted); when the final write fails the operation is reported as uncertain
  and never as done.\<close>

lemma finish_records_transport:
  assumes "faithful_text tx" and "quiet (ios 0)" and "cu_pending cu = Some p"
  shows "case custody_finish tx ios pio stamp reply cu of
      (Ok out, cu') \<Rightarrow> cu_pending cu' = None \<and>
        ledger tx (backend_of (cu_store cu')) (operation_id (p_receipt p)) = Some (V1 (outcome_receipt out)) \<and>
        (phase (outcome_receipt out) = Accepted \<longleftrightarrow> (\<exists>v. reply = Ok v)) \<and>
        (phase (outcome_receipt out) = NotDispatched \<longleftrightarrow> (\<exists>b. reply = Err (BeforeDispatch b))) \<and>
        (phase (outcome_receipt out) \<in> {Accepted, NotDispatched, Unknown}) \<and>
        (request_dispatched (outcome_receipt out) = Some False \<longleftrightarrow> (\<exists>b. reply = Err (BeforeDispatch b))) \<and>
        (request_accepted (outcome_receipt out) = Some False \<longleftrightarrow> (\<exists>e. reply = Err e \<and> rejection_code e \<noteq> None))
    | (Err e, cu') \<Rightarrow> cu_pending cu' = None \<and> (\<exists>er. e = CustodyUncertain (p_receipt p) (transport_of reply) er)"
proof (cases "custody_finish tx ios pio stamp reply cu")
  case (Pair res cu')
  show ?thesis
  proof (cases res)
    case (Inl e)
    with Pair assms(3) show ?thesis
      by (cases "os_update tx ios pio (p_receipt p) (final_update (transport_of reply)) stamp (cu_store cu)")
        (auto simp: custody_finish_def split: sum.splits)
  next
    case (Inr out)
    note fin = finish_Ok [OF assms Pair [unfolded Inr]]
    from Pair Inr fin final_fields [OF fin [THEN conjunct2, THEN conjunct2]] show ?thesis by simp
  qed
qed

text \<open>The sample operation in custody, and its end one second later.\<close>

definition sample_pending :: "json custody" where
  "sample_pending = \<lparr>cu_store = Direct (holding 2 sample_intent), cu_token = 7,
     cu_pending = Some \<lparr>p_receipt = sample_intent, p_request = sample_tracked, policy_refusal = None\<rparr>\<rparr>"

definition settled_sample :: "Phase \<Rightarrow> bool option \<Rightarrow> OperationRecord" where
  "settled_sample ph d = sample_intent\<lparr>phase := ph, updated_at := ''2026-01-02T03:04:06.000Z'', request_dispatched := d\<rparr>"

lemma sample_finish:
  assumes "updated sample_intent (final_update (transport_of reply)) ''2026-01-02T03:04:06.000Z'' = Ok r"
  shows "custody_finish sample_text (\<lambda>_. sample_view) sample_persist ''2026-01-02T03:04:06.000Z'' reply sample_pending =
    (Ok (outcome_of reply r None), sample_pending\<lparr>cu_store := Direct (holding 3 r), cu_pending := None\<rparr>)"
proof -
  have "update sample_text sample_view sample_persist sample_intent (final_update (transport_of reply))
      ''2026-01-02T03:04:06.000Z'' (holding 2 sample_intent) = (Ok r, holding 3 r)"
    by (rule holding_update [OF sample_intent_ok(2-4) assms]) (use sample in \<open>simp_all add: checked_add_def\<close>)
  then show ?thesis by (simp add: custody_finish_def directly_def sample_pending_def)
qed

lemma sample_settles:
  "updated sample_intent (final_update (TD_Unknown why)) ''2026-01-02T03:04:06.000Z'' = Ok (settled_sample Unknown None)"
  "updated sample_intent (final_update (TD_NotDispatched b)) ''2026-01-02T03:04:06.000Z'' =
     Ok (settled_sample NotDispatched (Some False))"
  using sample by (simp_all add: updated_def final_update_def new_update_def or_else_def checked_def head_ok_def
      sample_intent_def sample_prepared_def prepared_record_def MAX_SAFE_INTEGER_def opt_all_def no_details_def
      settled_sample_def)

end
