(* ===== verification/Confirmation.thy ===== *)
theory Confirmation
  imports Control
begin

text \<open>
  Pending confirmations, \<open>src/native/src/confirmation.rs\<close>: a call that needs the user's consent is
  kept as an inert continuation until the answer comes back, as the modern state token or as the
  reply to a legacy server request. The table is bounded in entries and bytes, its keys are never
  reused, and an entry is handed out at most once.

  The map of pending entries is an association list (its order stands for the unspecified iteration
  order of the hash map); sizes are \<open>usize\<close> of 64 bits; instants are natural numbers (of nanoseconds) up to the
  latest instant the platform clock can represent. A failed \<open>expect\<close> is the outer \<open>None\<close> of a result.
  The SHA-256 digest and the JSON printer of the binding are parameters.
\<close>

section \<open>State\<close>

definition MAX_ID :: u64 where
  "MAX_ID = 9007199254740991"

record Bounds =
  max_items :: nat
  max_bytes :: u64
  lifetime :: nat

definition default_bounds :: Bounds where
  "default_bounds = \<lparr>max_items = 16, max_bytes = 8 * 1024 * 1024, lifetime = 60 * 10 ^ 9\<rparr>"

datatype Challenge = Modern string | Legacy u64

datatype Refusal = Ref_Capacity | Ref_Identity | InvalidState | Expired

record 'c continuation =
  original :: json
  bound_to :: string
  challenge :: Challenge
  deadline :: nat
  held_bytes :: u64
  call :: 'c

record 'c continuations =
  nonce :: string
  next_seq :: "u64 option"
  bounds :: Bounds
  total_bytes :: u64
  pending :: "(string \<times> 'c continuation) list"

definition with_nonce :: "string \<Rightarrow> Bounds \<Rightarrow> 'c continuations" where
  "with_nonce n b = \<lparr>nonce = n, next_seq = Some 0, bounds = b, total_bytes = 0, pending = []\<rparr>"

definition disabled :: "'c continuations" where
  "disabled = (with_nonce [] (default_bounds\<lparr>max_items := 0, max_bytes := 0\<rparr>))\<lparr>next_seq := None\<rparr>"

section \<open>Operations\<close>

definition contains_original :: "'c continuations \<Rightarrow> json \<Rightarrow> bool" where
  "contains_original s v \<longleftrightarrow> list_ex (\<lambda>(_, e). original e = v) (pending s)"

definition key_text :: "string \<Rightarrow> u64 \<Rightarrow> string" where
  "key_text n i = ''native-confirmation/'' @ n @ ''/'' @ dec (unat i)"

text \<open>What the table charges for an entry: the retained bytes, its key and its record (whose size is
  the argument \<open>entry_size\<close>).\<close>

definition charge :: "u64 \<Rightarrow> u64 \<Rightarrow> string \<Rightarrow> u64 option" where
  "charge entry_size retained key =
     Option.bind (checked_add retained (of_nat (length key))) (\<lambda>n. checked_add n entry_size)"

definition issue :: "u64 \<Rightarrow> nat \<Rightarrow> json \<Rightarrow> string \<Rightarrow> 'c \<Rightarrow> u64 \<Rightarrow> bool \<Rightarrow> nat \<Rightarrow> 'c continuations \<Rightarrow>
    (Refusal, Challenge) result \<times> 'c continuations" where
  "issue entry_size latest orig b c retained legacy now s =
     (case next_seq s of None \<Rightarrow> (Err Ref_Identity, s) | Some n \<Rightarrow>
       (let key = key_text (nonce s) n in
        case charge entry_size retained key of None \<Rightarrow> (Err Ref_Capacity, s) | Some amount \<Rightarrow>
          (case checked_add (total_bytes s) amount of None \<Rightarrow> (Err Ref_Capacity, s) | Some grown \<Rightarrow>
            if length (pending s) \<ge> max_items (bounds s) \<or> grown > max_bytes (bounds s) \<or> contains_original s orig
            then (Err Ref_Capacity, s)
            else if now + lifetime (bounds s) > latest then (Err Ref_Identity, s)
            else (let ch = (if legacy then Legacy n else Modern key) in
              (Ok ch, s\<lparr>next_seq := opt_filter (\<lambda>m. m \<le> MAX_ID) (checked_add n 1),
                 pending := upd key \<lparr>original = orig, bound_to = b, challenge = ch,
                   deadline = now + lifetime (bounds s), held_bytes = amount, call = c\<rparr> (pending s),
                 total_bytes := grown\<rparr>)))))"

definition remove_pending :: "string \<Rightarrow> 'c continuations \<Rightarrow> ('c continuation option \<times> 'c continuations) option" where
  "remove_pending key s = (case map_of (pending s) key of None \<Rightarrow> Some (None, s) | Some e \<Rightarrow>
     (case checked_sub (total_bytes s) (held_bytes e) of None \<Rightarrow> None
      | Some n \<Rightarrow> Some (Some e, s\<lparr>pending := del key (pending s), total_bytes := n\<rparr>)))"

definition take_modern :: "string \<Rightarrow> string \<Rightarrow> nat \<Rightarrow> 'c continuations \<Rightarrow>
    ((Refusal, 'c) result \<times> 'c continuations) option" where
  "take_modern token b now s = (case map_of (pending s) token of
     None \<Rightarrow> Some (Err InvalidState, s)
   | Some e \<Rightarrow>
       if deadline e \<le> now then map_option (\<lambda>(_, s'). (Err Expired, s')) (remove_pending token s)
       else if bound_to e \<noteq> b \<or> challenge e \<noteq> Modern token then Some (Err InvalidState, s)
       else (case remove_pending token s of
           Some (Some e', s') \<Rightarrow> Some (Ok (call e'), s') | _ \<Rightarrow> None))"

text \<open>The answer a legacy reply amounts to: an error, and a reply that is no answer, count as a
  cancellation.\<close>

definition cancel_answer :: json where
  "cancel_answer = mk_object [(''confirm'', mk_object [(''action'', JString ''cancel'')])]"

definition legacy_answer :: "json \<Rightarrow> json" where
  "legacy_answer frame =
     (let answer = mk_object [(''confirm'',
        if get frame ''error'' \<noteq> None then mk_object [(''action'', JString ''cancel'')] else idx frame ''result'')]
      in if from_responses (Some answer) = Missing_Answer then cancel_answer else answer)"

definition legacy_frame :: "json \<Rightarrow> bool" where
  "legacy_frame frame \<longleftrightarrow> (case as_object frame of None \<Rightarrow> False | Some fs \<Rightarrow>
     idx frame ''jsonrpc'' = JString ''2.0'' \<and>
     set (map fst fs) \<subseteq> {''jsonrpc'', ''id'', ''result'', ''error''} \<and>
     (get frame ''result'' \<noteq> None) \<noteq> (get frame ''error'' \<noteq> None))"

definition take_legacy_for :: "json \<Rightarrow> nat \<Rightarrow> ('c \<Rightarrow> bool) \<Rightarrow> 'c continuations \<Rightarrow>
    (('c \<times> json) option \<times> 'c continuations) option" where
  "take_legacy_for frame now owned s =
     (if \<not> legacy_frame frame then Some (None, s)
      else (case as_u64 (idx frame ''id'') of None \<Rightarrow> Some (None, s) | Some i \<Rightarrow>
        (case List.find (\<lambda>(_, e). challenge e = Legacy i \<and> owned (call e)) (pending s) of
           None \<Rightarrow> Some (None, s)
         | Some (key, e) \<Rightarrow>
             if deadline e \<le> now then Some (None, s)
             else (case remove_pending key s of
                 None \<Rightarrow> None
               | Some (None, s') \<Rightarrow> Some (None, s')
               | Some (Some e', s') \<Rightarrow> Some (Some (call e', legacy_answer frame), s')))))"

definition next_deadline :: "'c continuations \<Rightarrow> nat option" where
  "next_deadline s = (if pending s = [] then None else Some (Min (set (map (\<lambda>(_, e). deadline e) (pending s)))))"

text \<open>The removal of a list of keys, as \<open>expire\<close> and \<open>cancel\<close> do it.\<close>

fun remove_all_pending :: "string list \<Rightarrow> 'c continuations \<Rightarrow> ((Challenge \<times> 'c) list \<times> 'c continuations) option" where
  "remove_all_pending [] s = Some ([], s)"
| "remove_all_pending (k # ks) s = (case remove_pending k s of None \<Rightarrow> None | Some (e, s') \<Rightarrow>
     (case remove_all_pending ks s' of None \<Rightarrow> None | Some (rs, s'') \<Rightarrow>
       Some ((case e of None \<Rightarrow> rs | Some x \<Rightarrow> (challenge x, call x) # rs), s'')))"

definition expire :: "nat \<Rightarrow> 'c continuations \<Rightarrow> ((Challenge \<times> 'c) list \<times> 'c continuations) option" where
  "expire now s = remove_all_pending (map fst (filter (\<lambda>(_, e). deadline e \<le> now) (pending s))) s"

definition cancel :: "json \<Rightarrow> 'c continuations \<Rightarrow> ((Challenge \<times> 'c) list \<times> 'c continuations) option" where
  "cancel orig s = remove_all_pending (map fst (filter (\<lambda>(_, e). original e = orig) (pending s))) s"

section \<open>What is bound and asked\<close>

definition binding :: "(json \<Rightarrow> string option) \<Rightarrow> (string \<Rightarrow> string) \<Rightarrow> string \<Rightarrow> json \<Rightarrow> json \<Rightarrow> string \<Rightarrow> u8 \<Rightarrow>
    (Refusal, string) result" where
  "binding to_vec sha256 name args env who profile =
     (case to_vec (JArray [JString name, args, env, JString who, of_u8 profile]) of
        None \<Rightarrow> Err Ref_Capacity | Some bytes \<Rightarrow> Ok (sha256 bytes))"

definition supports_form :: "json option \<Rightarrow> bool" where
  "supports_form caps = (case Option.bind (Option.bind caps (\<lambda>c. get c ''elicitation'')) as_object of
     None \<Rightarrow> False | Some offer \<Rightarrow> offer = [] \<or> map_of offer ''form'' \<noteq> None)"

definition eligible :: "string \<Rightarrow> bool" where
  "eligible name \<longleftrightarrow> name \<in> {''obs-take-scene'', ''obs-start-stream'', ''obs-stop-stream'', ''obs-toggle-stream'',
     ''obs-stop-record'', ''obs-toggle-record'', ''obs-take-stop'', ''obs-call-request'', ''obs-batch'',
     ''obs-start-output'', ''obs-stop-output'', ''obs-toggle-output''}"

definition required :: "string \<Rightarrow> json" where
  "required question = the (disposition_result (InputRequired question))"

definition legacy_question :: "u64 \<Rightarrow> string \<Rightarrow> json" where
  "legacy_question i question =
     (let request = idx (idx (required question) ''inputRequests'') ''confirm'';
          named = set_key ''id'' (of_u64 i) (set_key ''jsonrpc'' (JString ''2.0'') request)
      in set_key ''params'' (set_key ''_meta'' (mk_object [(''progressToken'', of_u64 i)]) (idx named ''params'')) named)"

definition legacy_cancel :: "u64 \<Rightarrow> json" where
  "legacy_cancel i = mk_object [(''jsonrpc'', JString ''2.0''), (''method'', JString ''notifications/cancelled''),
     (''params'', mk_object [(''requestId'', of_u64 i), (''reason'', JString ''Confirmation cancelled'')])]"

section \<open>Runs\<close>

text \<open>Any call of an owner of the table, with any arguments and at any time.\<close>

inductive cont_step :: "u64 \<Rightarrow> nat \<Rightarrow> 'c continuations \<Rightarrow> 'c continuations \<Rightarrow> bool" for entry_size latest where
  issues: "cont_step entry_size latest s (snd (issue entry_size latest orig b c retained legacy now s))"
| modern: "take_modern token b now s = Some (out, s') \<Longrightarrow> cont_step entry_size latest s s'"
| legacy: "take_legacy_for frame now owned s = Some (got, s') \<Longrightarrow> cont_step entry_size latest s s'"
| expires: "expire now s = Some (rs, s') \<Longrightarrow> cont_step entry_size latest s s'"
| cancels: "cancel orig s = Some (rs, s') \<Longrightarrow> cont_step entry_size latest s s'"

definition held_sum :: "(string \<times> 'c continuation) list \<Rightarrow> nat" where
  "held_sum xs = sum_list (map (\<lambda>(_, e). unat (held_bytes e)) xs)"

text \<open>The sequence number was given out already.\<close>

definition issued :: "'c continuations \<Rightarrow> u64 \<Rightarrow> bool" where
  "issued s n \<longleftrightarrow> (case next_seq s of None \<Rightarrow> True | Some m \<Rightarrow> n < m)"

definition entry_ok :: "'c continuations \<Rightarrow> string \<times> 'c continuation \<Rightarrow> bool" where
  "entry_ok s = (\<lambda>(k, e). \<exists>n. issued s n \<and> k = key_text (nonce s) n \<and> challenge e \<in> {Legacy n, Modern k})"

definition cont_inv :: "'c continuations \<Rightarrow> bool" where
  "cont_inv s \<longleftrightarrow> distinct (keys (pending s)) \<and> held_sum (pending s) = unat (total_bytes s) \<and>
     length (pending s) \<le> max_items (bounds s) \<and> total_bytes s \<le> max_bytes (bounds s) \<and>
     distinct (map (\<lambda>(_, e). original e) (pending s)) \<and> list_all (entry_ok s) (pending s)"

lemma key_text_inj [simp]: "key_text n i = key_text n j \<longleftrightarrow> i = j"
  by (simp add: key_text_def word_unat_eq_iff)

section \<open>Removal\<close>

text \<open>What a removal leaves: fewer entries, everything else as before.\<close>

definition thinned :: "'c continuations \<Rightarrow> (string \<Rightarrow> bool) \<Rightarrow> 'c continuations \<Rightarrow> bool" where
  "thinned s P s' \<longleftrightarrow> cont_inv s' \<and> nonce s' = nonce s \<and> next_seq s' = next_seq s \<and> bounds s' = bounds s \<and>
     pending s' = filter (\<lambda>(k, _). P k) (pending s)"

lemma held_sum_del:
  assumes "distinct (keys xs)" and "map_of xs k = Some e"
  shows "held_sum xs = unat (held_bytes e) + held_sum (del k xs)"
  using assms
proof (induction xs)
  case (Cons x xs)
  obtain k' e' where x: "x = (k', e')" by (cases x)
  show ?case
  proof (cases "k = k'")
    case True
    with Cons.prems x have "k \<notin> fst ` set xs" "e' = e" by (auto simp: keys_def)
    then have "del k xs = xs" by (auto simp: del_def filter_id_conv intro: rev_image_eqI)
    with x True \<open>e' = e\<close> show ?thesis by (simp add: held_sum_def del_def)
  next
    case False
    with Cons x show ?thesis by (simp add: held_sum_def del_def keys_def)
  qed
qed simp

lemma thinned_refl: "cont_inv s \<Longrightarrow> thinned s (\<lambda>_. True) s"
  by (simp add: thinned_def)

lemma thinned_trans: "thinned s P s1 \<Longrightarrow> thinned s1 Q s2 \<Longrightarrow> thinned s (\<lambda>k. P k \<and> Q k) s2"
  by (auto simp: thinned_def case_prod_unfold conj_commute)

lemma distinct_map_filter_any: "distinct (map f xs) \<Longrightarrow> distinct (map f (filter P xs))"
  by (rule distinct_map_filter)

lemma remove_pending_ok:
  assumes "cont_inv s"
  shows "\<exists>s'. remove_pending k s = Some (map_of (pending s) k, s') \<and> thinned s (\<lambda>k'. k' \<noteq> k) s'"
proof (cases "map_of (pending s) k")
  case None
  then have "k \<notin> fst ` set (pending s)" by (simp add: map_of_eq_None_iff)
  then have "filter (\<lambda>(k', _). k' \<noteq> k) (pending s) = pending s" by (auto simp: filter_id_conv intro: rev_image_eqI)
  with None assms show ?thesis by (auto simp: remove_pending_def thinned_def)
next
  case (Some e)
  let ?xs = "del k (pending s)"
  note inv = assms [unfolded cont_inv_def]
  have sum: "unat (total_bytes s) = unat (held_bytes e) + held_sum ?xs"
    using held_sum_del [OF _ Some] inv by simp
  then have le: "held_bytes e \<le> total_bytes s" by (simp add: word_le_nat_alt)
  then obtain n where n: "checked_sub (total_bytes s) (held_bytes e) = Some n" by (simp add: checked_sub_def)
  then have n': "unat n = held_sum ?xs" using sum checked_sub_Some_iff [of "total_bytes s" "held_bytes e" n] by simp
  let ?s = "s\<lparr>pending := ?xs, total_bytes := n\<rparr>"
  have "n \<le> max_bytes (bounds s)" using inv n' sum by (simp add: word_le_nat_alt)
  moreover have "length ?xs \<le> max_items (bounds s)" using inv by (simp add: del_def le_trans [OF length_filter_le])
  moreover have "entry_ok ?s = entry_ok s" by (simp add: entry_ok_def issued_def fun_eq_iff)
  ultimately have "cont_inv ?s"
    using inv n' by (auto simp: cont_inv_def del_def keys_def distinct_map_filter_any list_all_iff)
  then have "thinned s (\<lambda>k'. k' \<noteq> k) ?s" by (auto simp: thinned_def del_def)
  with Some n show ?thesis by (simp add: remove_pending_def)
qed

lemma remove_all_pending_ok:
  "cont_inv s \<Longrightarrow> \<exists>rs s'. remove_all_pending ks s = Some (rs, s') \<and> thinned s (\<lambda>k. k \<notin> set ks) s'"
proof (induction ks arbitrary: s)
  case Nil
  then show ?case using thinned_refl by auto
next
  case (Cons k ks)
  from remove_pending_ok [OF Cons.prems, of k] obtain s1 where
    s1: "remove_pending k s = Some (map_of (pending s) k, s1)" "thinned s (\<lambda>k'. k' \<noteq> k) s1" by blast
  from s1(2) have "cont_inv s1" by (simp add: thinned_def)
  from Cons.IH [OF this] obtain rs s2 where
    s2: "remove_all_pending ks s1 = Some (rs, s2)" "thinned s1 (\<lambda>k. k \<notin> set ks) s2" by blast
  from thinned_trans [OF s1(2) s2(2)] s1(1) s2(1) show ?case by simp
qed

section \<open>Operations and the invariant\<close>

lemma take_modern_ok:
  assumes "cont_inv s"
  shows "\<exists>out s' P. take_modern token b now s = Some (out, s') \<and> thinned s P s'"
proof -
  from remove_pending_ok [OF assms, of token] obtain s1 where
    r: "remove_pending token s = Some (map_of (pending s) token, s1)" "thinned s (\<lambda>k. k \<noteq> token) s1" by blast
  then show ?thesis
    using thinned_refl [OF assms] by (auto simp: take_modern_def split: option.split)
qed

lemma take_legacy_ok:
  assumes "cont_inv s"
  shows "\<exists>got s' P. take_legacy_for frame now owned s = Some (got, s') \<and> thinned s P s'"
proof -
  have "\<exists>got s' P. (case remove_pending k s of None \<Rightarrow> None
      | Some (None, s') \<Rightarrow> Some (None, s')
      | Some (Some e', s') \<Rightarrow> Some (Some (call e', legacy_answer frame), s')) = Some (got, s') \<and> thinned s P s'" for k
    using remove_pending_ok [OF assms, of k] by (cases "map_of (pending s) k") auto
  then show ?thesis
    using thinned_refl [OF assms] by (auto simp: take_legacy_for_def split: option.split)
qed

lemma expire_ok: "cont_inv s \<Longrightarrow> \<exists>rs s' P. expire now s = Some (rs, s') \<and> thinned s P s'"
  unfolding expire_def using remove_all_pending_ok by blast

lemma cancel_ok: "cont_inv s \<Longrightarrow> \<exists>rs s' P. cancel v s = Some (rs, s') \<and> thinned s P s'"
  unfolding cancel_def using remove_all_pending_ok by blast

lemma upd_new: "k \<notin> set (keys xs) \<Longrightarrow> upd k v xs = xs @ [(k, v)]"
  by (induction k v xs rule: upd.induct) (auto simp: keys_def)

lemma next_seq_step:
  "opt_filter (\<lambda>m. m \<le> MAX_ID) (checked_add (n :: u64) 1) = Some m \<Longrightarrow> unat m = unat n + 1"
  by (auto dest: checked_add_Some_iff [THEN iffD1])

text \<open>What a successful issue does: one new entry under a key never used before.\<close>

lemma issue_Ok:
  assumes "issue es latest orig b c retained lg now s = (Ok ch, s')" and "cont_inv s"
  obtains n e where "next_seq s = Some n" "\<not> issued s n" "issued s' n" "\<And>m. issued s m \<Longrightarrow> issued s' m"
    "pending s' = pending s @ [(key_text (nonce s) n, e)]" "original e = orig" "bound_to e = b" "call e = c"
    "deadline e = now + lifetime (bounds s)" "challenge e = ch" "ch = (if lg then Legacy n else Modern (key_text (nonce s) n))"
    "nonce s' = nonce s" "bounds s' = bounds s" "cont_inv s'"
proof -
  from assms(1) obtain n amount grown where st: "next_seq s = Some n"
      "checked_add (total_bytes s) amount = Some grown"
      "length (pending s) < max_items (bounds s)" "grown \<le> max_bytes (bounds s)" "\<not> contains_original s orig"
      "ch = (if lg then Legacy n else Modern (key_text (nonce s) n))"
      "s' = s\<lparr>next_seq := opt_filter (\<lambda>m. m \<le> MAX_ID) (checked_add n 1),
         pending := upd (key_text (nonce s) n) \<lparr>original = orig, bound_to = b, challenge = ch,
           deadline = now + lifetime (bounds s), held_bytes = amount, call = c\<rparr> (pending s),
         total_bytes := grown\<rparr>"
    by (auto simp: issue_def Let_def not_le not_less split: option.splits if_splits)
  let ?e = "\<lparr>original = orig, bound_to = b, challenge = ch, deadline = now + lifetime (bounds s),
    held_bytes = amount, call = c\<rparr>"
  note inv = assms(2) [unfolded cont_inv_def]
  have fresh: "\<not> issued s n" using st(1) by (simp add: issued_def)
  have "key_text (nonce s) n \<notin> set (keys (pending s))"
    using inv fresh by (auto simp: list_all_iff entry_ok_def keys_def)
  then have pend: "pending s' = pending s @ [(key_text (nonce s) n, ?e)]" using st(7) by (simp add: upd_new)
  have grows: "issued s' m" if "issued s m \<or> m = n" for m
    using that st(1,7) next_seq_step [of n]
    by (auto simp: issued_def word_less_nat_alt split: option.split)
  have "entry_ok s' x" if "entry_ok s x" for x
    using that grows st(7) by (auto simp: entry_ok_def)
  moreover have "entry_ok s' (key_text (nonce s) n, ?e)" using grows st(6,7) by (auto simp: entry_ok_def)
  moreover have "orig \<notin> set (map (\<lambda>(_, e). original e) (pending s))"
    using st(5) by (force simp: contains_original_def list_ex_iff)
  ultimately have "cont_inv s'"
    using inv pend st(2-4,7) \<open>key_text (nonce s) n \<notin> set (keys (pending s))\<close>
      checked_add_Some_iff [of "total_bytes s" amount grown]
    by (auto simp: cont_inv_def keys_def held_sum_def list_all_iff simp del: upd.simps)
  then show thesis
    using that [of n ?e] st(1,6,7) fresh grows pend by simp
qed

lemma issue_Err: "issue es latest orig b c retained lg now s = (Err r, s') \<Longrightarrow> s' = s"
  by (auto simp: issue_def Let_def split: option.splits if_splits)

text \<open>A step either issues one entry or only removes entries.\<close>

lemma cont_step_cases:
  assumes "cont_step es latest s s'" and "cont_inv s"
  obtains (thinner) P where "thinned s P s'"
    | (issued) orig b c retained lg now ch where "issue es latest orig b c retained lg now s = (Ok ch, s')"
  using assms(1)
proof cases
  case (issues orig b c retained legacy now)
  obtain out s1 where o: "issue es latest orig b c retained legacy now s = (out, s1)" by fastforce
  show thesis
  proof (cases out)
    case (Inl r)
    with o issue_Err issues thinned_refl [OF assms(2)] thinner show thesis by fastforce
  next
    case (Inr ch)
    with o issues issued show thesis by simp
  qed
next
  case (modern token b now out)
  with take_modern_ok [OF assms(2), of token b now] thinner show thesis by auto
next
  case (legacy frame now owned got)
  with take_legacy_ok [OF assms(2), of frame now owned] thinner show thesis by auto
next
  case (expires now rs)
  with expire_ok [OF assms(2), of now] thinner show thesis by auto
next
  case (cancels orig rs)
  with cancel_ok [OF assms(2), of orig] thinner show thesis by auto
qed

lemma cont_step_inv: "cont_step es latest s s' \<Longrightarrow> cont_inv s \<Longrightarrow> cont_inv s'"
  by (erule (1) cont_step_cases) (auto simp: thinned_def elim: issue_Ok)

lemma cont_run_inv: "(cont_step es latest)\<^sup>*\<^sup>* s s' \<Longrightarrow> cont_inv s \<Longrightarrow> cont_inv s'"
  by (induction rule: rtranclp_induct) (auto intro: cont_step_inv)

lemma with_nonce_inv: "cont_inv (with_nonce n b)"
  by (simp add: cont_inv_def with_nonce_def held_sum_def keys_def)

text \<open>Once its number was given out, a key holds its entry or nothing.\<close>

lemma cont_step_entry:
  assumes "cont_step es latest s s'" and "cont_inv s" and "issued s n"
  shows "issued s' n \<and> nonce s' = nonce s \<and>
    map_of (pending s') (key_text (nonce s) n) \<in> {None, map_of (pending s) (key_text (nonce s) n)}"
  using assms(1,2)
proof (cases rule: cont_step_cases)
  case (thinner P)
  have "map_of (filter (\<lambda>(k, _). P k) xs) k = (if P k then map_of xs k else None)" for xs :: "(string \<times> 'a continuation) list" and k
    by (induction xs) auto
  with thinner assms(3) show ?thesis by (auto simp: thinned_def issued_def)
next
  case (issued orig b c retained lg now ch)
  then show ?thesis
    by (rule issue_Ok [OF _ assms(2)]) (use assms(3) in \<open>auto simp: map_add_def split: option.split\<close>)
qed

lemma cont_run_entry:
  assumes "(cont_step es latest)\<^sup>*\<^sup>* s s'" and "cont_inv s" and "issued s n"
  shows "issued s' n \<and> nonce s' = nonce s \<and>
    map_of (pending s') (key_text (nonce s) n) \<in> {None, map_of (pending s) (key_text (nonce s) n)}"
  using assms
proof (induction rule: rtranclp_induct)
  case (step s1 s2)
  then have one: "issued s1 n" "nonce s1 = nonce s"
      "map_of (pending s1) (key_text (nonce s) n) \<in> {None, map_of (pending s) (key_text (nonce s) n)}" by auto
  from cont_step_entry [OF step.hyps(2) cont_run_inv [OF step.hyps(1) step.prems(1)] one(1)] one show ?case by auto
qed simp

section \<open>Properties\<close>

text \<open>C37: the table of pending confirmations never fails and stays bounded. Over every sequence of
  calls, no removal ever finds the byte account short (the \<open>expect\<close> of the code cannot fail), the
  account is exactly the sum of the charges of the entries, and entries and bytes stay within the
  bounds the table was made with; no client request has two entries.\<close>

theorem continuations_accounted:
  assumes "(cont_step entry_size latest)\<^sup>*\<^sup>* (with_nonce seed bnds) s"
  shows "take_modern token b now s \<noteq> None \<and> take_legacy_for frame now owned s \<noteq> None \<and>
    expire now s \<noteq> None \<and> cancel v s \<noteq> None \<and>
    held_sum (pending s) = unat (total_bytes s) \<and> total_bytes s \<le> max_bytes (bounds s) \<and>
    length (pending s) \<le> max_items (bounds s) \<and> distinct (map (\<lambda>(_, e). original e) (pending s))"
proof -
  have inv: "cont_inv s" by (rule cont_run_inv [OF assms with_nonce_inv])
  from take_modern_ok [OF inv, of token b now] take_legacy_ok [OF inv, of frame now owned]
    expire_ok [OF inv, of now] cancel_ok [OF inv, of v] inv
  show ?thesis by (auto simp: cont_inv_def)
qed

text \<open>A table with one entry, modern or legacy.\<close>

definition sample_entry :: "bool \<Rightarrow> string continuation" where
  "sample_entry lg = \<lparr>original = of_u64 1, bound_to = ''hash'',
     challenge = (if lg then Legacy 0 else Modern ''native-confirmation/fixture/0''),
     deadline = 5 + 60 * 10 ^ 9, held_bytes = 329, call = ''the call''\<rparr>"

definition sample_table :: "bool \<Rightarrow> string continuations" where
  "sample_table lg = \<lparr>nonce = ''fixture'', next_seq = Some 1, bounds = default_bounds, total_bytes = 329,
     pending = [(''native-confirmation/fixture/0'', sample_entry lg)]\<rparr>"

lemma sample_issue:
  "issue 200 (2 ^ 63) (of_u64 1) ''hash'' ''the call'' 100 lg 5 (with_nonce ''fixture'' default_bounds) =
     (Ok (challenge (sample_entry lg)), sample_table lg)"
proof -
  have "key_text ''fixture'' 0 = ''native-confirmation/fixture/0''" by code_simp
  then show ?thesis
    by (simp add: issue_def with_nonce_def default_bounds_def charge_def Let_def checked_add_def
        contains_original_def opt_filter_def MAX_ID_def sample_table_def sample_entry_def)
qed

lemma sample_table_run:
  "(cont_step 200 (2 ^ 63))\<^sup>*\<^sup>* (with_nonce ''fixture'' default_bounds) (sample_table lg)"
  using cont_step.issues [of 200 "2 ^ 63" "with_nonce ''fixture'' default_bounds" "of_u64 1" "''hash''" "''the call''"
      100 lg 5] unfolding sample_issue snd_conv by (rule r_into_rtranclp)

theorem continuations_accounted_witness:
  "held_sum (pending (sample_table True)) = unat (total_bytes (sample_table True)) \<and>
     take_modern ''native-confirmation/fixture/0'' ''hash'' 6 (sample_table False) \<noteq> None"
  using continuations_accounted [OF sample_table_run] by blast

text \<open>C25: consent is used once and only for what was asked. Whatever happens after a call was put
  aside under a state token, the token hands out exactly that call, only to the same binding (tool,
  arguments, envelope, caller and profile) and before its deadline; and once it did, the token is
  worthless for ever.\<close>

theorem consent_used_once:
  assumes "(cont_step entry_size latest)\<^sup>*\<^sup>* (with_nonce seed bnds) s"
    and "issue entry_size latest orig b c retained False now s = (Ok (Modern token), s1)"
    and "(cont_step entry_size latest)\<^sup>*\<^sup>* s1 s2"
    and "take_modern token b' now' s2 = Some (Ok c', s3)"
    and "(cont_step entry_size latest)\<^sup>*\<^sup>* s3 s4"
  shows "c' = c \<and> b' = b \<and> now' < now + lifetime (bounds s) \<and>
    take_modern token b'' now'' s4 = Some (Err InvalidState, s4)"
proof -
  have inv: "cont_inv s" by (rule cont_run_inv [OF assms(1) with_nonce_inv])
  obtain n e where n: "issued s1 n" "pending s1 = pending s @ [(key_text (nonce s) n, e)]" "bound_to e = b" "call e = c"
      "deadline e = now + lifetime (bounds s)" "token = key_text (nonce s) n" "nonce s1 = nonce s" "cont_inv s1"
    by (rule issue_Ok [OF assms(2) inv]) auto
  have "distinct (keys (pending s1))" using n(8) by (simp add: cont_inv_def)
  then have e: "map_of (pending s1) token = Some e"
    using n(2,6) by (simp add: keys_def map_of_eq_Some_iff flip: map_of_append)
  note inv2 = cont_run_inv [OF assms(3) n(8)]
  from cont_run_entry [OF assms(3) n(8,1)] n(6,7) e
  have two: "issued s2 n" "nonce s2 = nonce s" "map_of (pending s2) token \<in> {None, Some e}" by auto
  from remove_pending_ok [OF inv2, of token] obtain s3' where
    r: "remove_pending token s2 = Some (map_of (pending s2) token, s3')" "thinned s2 (\<lambda>k. k \<noteq> token) s3'" by blast
  from assms(4) two(3) r(1) have out: "c' = call e" "b' = bound_to e" "now' < deadline e" "s3 = s3'"
    by (auto simp: take_modern_def split: if_splits option.splits)
  have "map_of (pending s3) token = None"
    using r(2) out(4) by (auto simp: thinned_def map_of_eq_None_iff)
  moreover have three: "issued s3 n" "nonce s3 = nonce s" "cont_inv s3"
    using r(2) out(4) two by (auto simp: thinned_def issued_def)
  ultimately have "map_of (pending s4) token = None"
    using cont_run_entry [OF assms(5) three(3,1)] n(6) by auto
  then show ?thesis using out n by (simp add: take_modern_def)
qed

lemma sample_taken:
  "take_modern ''native-confirmation/fixture/0'' ''hash'' 6 (sample_table False) =
     Some (Ok ''the call'', (sample_table False)\<lparr>pending := [], total_bytes := 0\<rparr>)"
  by (simp add: take_modern_def remove_pending_def checked_sub_def sample_table_def sample_entry_def del_def)

theorem consent_used_once_witness:
  "take_modern ''native-confirmation/fixture/0'' ''hash'' 6 ((sample_table False)\<lparr>pending := [], total_bytes := 0\<rparr>) =
     Some (Err InvalidState, (sample_table False)\<lparr>pending := [], total_bytes := 0\<rparr>)"
  using consent_used_once [OF rtranclp.rtrancl_refl sample_issue [of False, simplified sample_entry_def, simplified]
      rtranclp.rtrancl_refl sample_taken rtranclp.rtrancl_refl, of "''hash''" 6]
  by blast

text \<open>A legacy reply settles its question. The answer passed on is never read as missing, so the
  call is never asked about again; it counts as consent exactly when the reply is no error and its
  result accepts with a true confirmation; and only a well-formed reply to a live legacy entry is
  consumed at all.\<close>

lemma legacy_reply_settles:
  assumes "(cont_step entry_size latest)\<^sup>*\<^sup>* (with_nonce seed bnds) s"
    and "take_legacy_for frame now owned s = Some (Some (c, answer), s')"
  shows "fst (evaluate ft (r\<lparr>confirmation := (confirmation r)\<lparr>input_responses := Some answer\<rparr>\<rparr>) ms domain) \<noteq> InputRequired q \<and>
    (from_responses (Some answer) = Accepted_Answer True \<longleftrightarrow> get frame ''error'' = None \<and>
       from_responses (Some (mk_object [(''confirm'', idx frame ''result'')])) = Accepted_Answer True) \<and>
    legacy_frame frame \<and>
    (\<exists>k e i. (k, e) \<in> set (pending s) \<and> call e = c \<and> owned c \<and> challenge e = Legacy i \<and>
       as_u64 (idx frame ''id'') = Some i \<and> now < deadline e \<and> map_of (pending s') k = None)"
proof -
  have inv: "cont_inv s" by (rule cont_run_inv [OF assms(1) with_nonce_inv])
  from assms(2) obtain i k e where f: "legacy_frame frame" "as_u64 (idx frame ''id'') = Some i"
      "List.find (\<lambda>(_, e). challenge e = Legacy i \<and> owned (call e)) (pending s) = Some (k, e)" "now < deadline e"
    by (auto simp: take_legacy_for_def not_le split: if_splits option.splits)
  from f(3) have e: "(k, e) \<in> set (pending s)" "challenge e = Legacy i" "owned (call e)"
    by (auto simp: find_Some_iff in_set_conv_nth)
  have look: "map_of (pending s) k = Some e"
    using inv e(1) by (simp add: cont_inv_def keys_def)
  from remove_pending_ok [OF inv, of k] look obtain s1 where
    r: "remove_pending k s = Some (Some e, s1)" "thinned s (\<lambda>k'. k' \<noteq> k) s1" by auto
  from assms(2) f r have out: "c = call e" "answer = legacy_answer frame" "s' = s1"
    by (auto simp: take_legacy_for_def)
  have cancelled: "from_responses (Some cancel_answer) = OtherResponse"
      "from_responses (Some (mk_object [(''confirm'', mk_object [(''action'', JString ''cancel'')])])) = OtherResponse"
    by code_simp+
  then have known: "from_responses (Some answer) \<noteq> Missing_Answer"
    unfolding out(2) legacy_answer_def Let_def by auto
  moreover have "from_responses (Some answer) = Accepted_Answer True \<longleftrightarrow> get frame ''error'' = None \<and>
       from_responses (Some (mk_object [(''confirm'', idx frame ''result'')])) = Accepted_Answer True"
    using cancelled unfolding out(2) legacy_answer_def Let_def by auto
  moreover have "fst (evaluate ft (r\<lparr>confirmation := (confirmation r)\<lparr>input_responses := Some answer\<rparr>\<rparr>) ms domain)
      \<noteq> InputRequired q"
  proof -
    obtain d c' where d: "evaluate ft (r\<lparr>confirmation := (confirmation r)\<lparr>input_responses := Some answer\<rparr>\<rparr>) ms domain = (d, c')"
      by fastforce
    have "confirmation_step ft (r\<lparr>confirmation := (confirmation r)\<lparr>input_responses := Some answer\<rparr>\<rparr>) \<noteq> InputRequired q"
      using known by (auto simp: confirmation_step_def split: option.splits ConfirmationAnswer.splits bool.splits)
    with evaluate_cases [OF d] d show ?thesis by (auto split: if_splits)
  qed
  moreover have "map_of (pending s') k = None" using r(2) out(3) by (auto simp: thinned_def map_of_eq_None_iff)
  ultimately show ?thesis using f e out(1) by blast
qed

end
