(* ===== verification/Toolset.thy ===== *)
theory Toolset
  imports Json Rust_Text Receipt_Types
begin

text \<open>
  Which tools a server offers. The environment values of \<open>src/native/src/config.rs\<close> (\<open>trim\<close>,
  \<open>enabled\<close>), the static selection of \<open>tool_filter.rs\<close>, the profiles of \<open>native_profile.rs\<close> and the
  closed manual commands of \<open>advanced_commands.rs\<close>. The catalog is the generated registry, an
  argument; the environment is a function from names to values.
\<close>

section \<open>Environment values\<close>

text \<open>The white space of JavaScript: that of Unicode without U+0085, and U+FEFF.\<close>

definition js_white_space :: "string list" where
  "js_white_space = map (\<lambda>n. [byte n]) [9, 10, 11, 12, 13, 32] @
     map (map byte) [[194, 160], [225, 154, 128]] @
     map (\<lambda>n. map byte [226, 128, n]) [128 ..< 139] @
     map (map byte) [[226, 128, 168], [226, 128, 169], [226, 128, 175], [226, 129, 159], [227, 128, 128], [239, 187, 191]]"

definition config_trim :: "string \<Rightarrow> string" where
  "config_trim s = rev (strip_front (map rev js_white_space) (rev (strip_front js_white_space s)))"

definition config_enabled :: "string \<Rightarrow> bool" where
  "config_enabled s \<longleftrightarrow> to_ascii_lowercase (config_trim s) \<in> {''1'', ''true'', ''yes''}"

text \<open>\<open>str::split\<close> at a character.\<close>

fun split_on :: "char \<Rightarrow> string \<Rightarrow> string list" where
  "split_on c [] = [[]]"
| "split_on c (x # xs) = (if x = c then [] # split_on c xs
     else (case split_on c xs of [] \<Rightarrow> [[x]] | y # ys \<Rightarrow> (x # y) # ys))"

definition entries :: "string option \<Rightarrow> string list" where
  "entries v = filter (\<lambda>s. s \<noteq> []) (map config_trim (split_on (CHR '','') (case v of None \<Rightarrow> [] | Some s \<Rightarrow> s)))"

text \<open>The first occurrence of every entry.\<close>

fun firsts :: "'a list \<Rightarrow> 'a list \<Rightarrow> 'a list" where
  "firsts seen [] = []"
| "firsts seen (x # xs) = (if x \<in> set seen then firsts seen xs else x # firsts (x # seen) xs)"

definition split_list :: "string option \<Rightarrow> string list" where
  "split_list v = firsts [] (entries v)"

definition strings :: "json \<Rightarrow> string list option" where
  "strings v = Option.bind (as_array v) (\<lambda>vs. those (map as_str vs))"

section \<open>The static filter\<close>

text \<open>The groups of the tools of the catalog, read in registry order.\<close>

fun known_tools :: "(string \<times> json) list \<Rightarrow> string list \<Rightarrow> json list \<Rightarrow> (string \<times> string) list \<Rightarrow>
    (string, (string \<times> string) list) result" where
  "known_tools tool_groups groups [] acc = Ok acc"
| "known_tools tool_groups groups (tool # tools) acc =
     (case as_str (idx tool ''name'') of None \<Rightarrow> Err ''Generated tool name is invalid'' | Some name \<Rightarrow>
       (case Option.bind (map_of tool_groups name) as_str of
          None \<Rightarrow> Err ''Generated tool group is missing or invalid''
        | Some g \<Rightarrow>
            if g \<notin> set groups then Err ''Generated tool group is missing or invalid''
            else if map_of acc name \<noteq> None then Err ''Generated tool names are duplicated''
            else known_tools tool_groups groups tools ((name, g) # acc)))"

definition unknown_group :: "string list \<Rightarrow> string \<Rightarrow> string" where
  "unknown_group groups name = ''Unknown OBS_MCP_TOOLSETS entry '' @ [CHR 0x22] @ name @ [CHR 0x22] @
     ''. Use all, core, or: '' @ join_with '', '' groups"

fun select_groups :: "string list \<Rightarrow> string list \<Rightarrow> string list \<Rightarrow> string list \<Rightarrow> (string, string list) result" where
  "select_groups groups core [] acc = Ok acc"
| "select_groups groups core (name # names) acc =
     (if name = ''core'' then select_groups groups core names (core @ acc)
      else if name \<in> set groups then select_groups groups core names (name # acc)
      else Err (unknown_group groups name))"

definition read_only_tool :: "json \<Rightarrow> bool" where
  "read_only_tool tool \<longleftrightarrow> idx (idx tool ''annotations'') ''readOnlyHint'' = JBool True"

definition tool_name_of :: "json \<Rightarrow> string" where
  "tool_name_of tool = (case as_str (idx tool ''name'') of None \<Rightarrow> [] | Some n \<Rightarrow> n)"

record tool_filter =
  visible :: "string list"
  filter_tools :: "json list"

definition unknown_tools :: "string list \<Rightarrow> string" where
  "unknown_tools unknown = ''Unknown OBS_MCP_TOOLS entries: '' @ join_with '', '' unknown"

text \<open>The tools of the selected groups and the explicitly named ones, in registry order.\<close>

definition choose_tools :: "(string \<times> string) list \<Rightarrow> json list \<Rightarrow> bool \<Rightarrow> string list \<Rightarrow> bool \<Rightarrow> string list \<Rightarrow>
    (string, tool_filter) result" where
  "choose_tools known tools read_only explicit all selected =
     (let unknown = filter (\<lambda>n. map_of known n = None) explicit;
          chosen = filter (\<lambda>tool. (\<not> read_only \<or> read_only_tool tool) \<and>
            (all \<or> the (map_of known (tool_name_of tool)) \<in> set selected \<or> tool_name_of tool \<in> set explicit)) tools
      in if unknown \<noteq> [] then Err (unknown_tools unknown)
         else if chosen = [] then Err ''The tool filter excludes every tool''
         else Ok \<lparr>visible = map tool_name_of chosen, filter_tools = chosen\<rparr>)"

definition parse_filter :: "(string \<Rightarrow> string option) \<Rightarrow> json \<Rightarrow> (string, tool_filter) result" where
  "parse_filter env catalog =
     (let metadata = idx catalog ''toolsets'' in
      case strings (idx metadata ''groups'') of None \<Rightarrow> Err ''Generated toolset metadata is invalid'' | Some groups \<Rightarrow>
      (case strings (idx metadata ''coreGroups'') of None \<Rightarrow> Err ''Generated toolset metadata is invalid'' | Some core \<Rightarrow>
      (case as_object (idx metadata ''toolGroups'') of None \<Rightarrow> Err ''Generated toolset metadata is missing'' | Some tool_groups \<Rightarrow>
      (case as_array (idx catalog ''tools'') of None \<Rightarrow> Err ''Generated tool catalog is missing'' | Some tools \<Rightarrow>
       and_then (known_tools tool_groups groups tools []) (\<lambda>known.
        if length tool_groups \<noteq> length tools \<or> \<not> distinct groups \<or> \<not> set core \<subseteq> set groups
        then Err ''Generated toolset metadata does not match the catalog''
        else (let group_names = split_list (env ''OBS_MCP_TOOLSETS'');
                  explicit = split_list (env ''OBS_MCP_TOOLS'');
                  read_only = (case env ''OBS_MCP_READ_ONLY'' of None \<Rightarrow> False | Some v \<Rightarrow> config_enabled v);
                  all = (group_names = [] \<and> explicit = [] \<or> ''all'' \<in> set group_names)
              in and_then (if all then Ok [] else select_groups groups core group_names [])
                   (choose_tools known tools read_only explicit all)))))))"

definition tool_included :: "tool_filter \<Rightarrow> string \<Rightarrow> bool" where
  "tool_included f name \<longleftrightarrow> name \<in> set (visible f)"

definition manifest :: "tool_filter \<Rightarrow> json" where
  "manifest f = mk_object [(''tools'', JArray (filter_tools f))]"

section \<open>Profiles\<close>

datatype NativeProfile = Production_Profile | Advanced_Profile

definition parse_profile :: "string option \<Rightarrow> NativeProfile option" where
  "parse_profile v = (let s = (case v of None \<Rightarrow> [] | Some s \<Rightarrow> config_trim s) in
     if s = [] \<or> s = ''production'' then Some Production_Profile
     else if s = ''advanced'' then Some Advanced_Profile else None)"

definition profile_name :: "NativeProfile \<Rightarrow> string" where
  "profile_name p = (case p of Production_Profile \<Rightarrow> ''production'' | Advanced_Profile \<Rightarrow> ''advanced'')"

definition is_advanced_name :: "string \<Rightarrow> bool" where
  "is_advanced_name n \<longleftrightarrow> n \<in> {''obs-start-record'', ''obs-toggle-record'', ''obs-start-output'', ''obs-stop-output'',
     ''obs-toggle-output''}"

definition is_opaque_name :: "string \<Rightarrow> bool" where
  "is_opaque_name n \<longleftrightarrow> n \<in> {''obs-call-request'', ''obs-batch'', ''obs-call-vendor-request'',
     ''obs-trigger-hotkey-by-name'', ''obs-trigger-hotkey-by-key-sequence''}"

definition is_opaque_kind :: "GenericKind \<Rightarrow> bool" where
  "is_opaque_kind k \<longleftrightarrow> k \<in> {OpaqueRequest, OpaqueBatch, VendorRequest, HotkeyName, HotkeySequence}"

definition owned_names :: "string list" where
  "owned_names = [''obs-stage-scene'', ''obs-take-scene'', ''obs-apply-scene'', ''obs-capture-window'',
     ''obs-prepare-demo'', ''obs-recover-demo'', ''obs-snapshot'', ''obs-restore'', ''obs-take-start'',
     ''obs-take-stop'', ''obs-take-mark'', ''obs-take-status'', ''obs-record-clip'', ''obs-contact-sheet'',
     ''obs-trim-take'', ''obs-save-replay-verified'']"

definition allows :: "NativeProfile \<Rightarrow> string \<Rightarrow> bool" where
  "allows p n \<longleftrightarrow>
     (if is_advanced_name n \<or> is_opaque_name n \<or> n = ''obs-press-input-property-button'' then p = Advanced_Profile
      else p = Production_Profile \<or> n \<notin> set owned_names)"

section \<open>Manual commands\<close>

datatype AdvancedCommand = Cmd_RecordStart | Cmd_RecordToggle | Cmd_OutputStart string | Cmd_OutputStop string
  | Cmd_OutputToggle string

definition parse_command :: "string \<Rightarrow> json \<Rightarrow> AdvancedCommand option" where
  "parse_command name args = (if as_object args = None then None
     else let output = Option.bind (get args ''outputName'') as_str in
       if name = ''obs-start-record'' then Some Cmd_RecordStart
       else if name = ''obs-toggle-record'' then Some Cmd_RecordToggle
       else if name = ''obs-start-output'' then map_option Cmd_OutputStart output
       else if name = ''obs-stop-output'' then map_option Cmd_OutputStop output
       else if name = ''obs-toggle-output'' then map_option Cmd_OutputToggle output
       else None)"

primrec command_kind :: "AdvancedCommand \<Rightarrow> GenericKind" where
  "command_kind Cmd_RecordStart = ManualRecordStart"
| "command_kind Cmd_RecordToggle = ManualRecordToggle"
| "command_kind (Cmd_OutputStart _) = NamedOutputStart"
| "command_kind (Cmd_OutputStop _) = NamedOutputStop"
| "command_kind (Cmd_OutputToggle _) = NamedOutputToggle"

primrec command_name :: "AdvancedCommand \<Rightarrow> string" where
  "command_name Cmd_RecordStart = ''obs-start-record''"
| "command_name Cmd_RecordToggle = ''obs-toggle-record''"
| "command_name (Cmd_OutputStart _) = ''obs-start-output''"
| "command_name (Cmd_OutputStop _) = ''obs-stop-output''"
| "command_name (Cmd_OutputToggle _) = ''obs-toggle-output''"

primrec command_arguments :: "AdvancedCommand \<Rightarrow> json" where
  "command_arguments Cmd_RecordStart = mk_object []"
| "command_arguments Cmd_RecordToggle = mk_object []"
| "command_arguments (Cmd_OutputStart n) = mk_object [(''outputName'', JString n)]"
| "command_arguments (Cmd_OutputStop n) = mk_object [(''outputName'', JString n)]"
| "command_arguments (Cmd_OutputToggle n) = mk_object [(''outputName'', JString n)]"

section \<open>Entries\<close>

lemma strip_front_Nil [simp]: "strip_front ws [] = []"
  by (rule strip_front_id) auto

lemma entries_None [simp]: "entries None = []"
  by (simp add: entries_def config_trim_def)

lemma set_firsts: "set (firsts seen xs) = set xs - set seen"
  by (induction seen xs rule: firsts.induct) auto

lemma firsts_Nil [simp]: "firsts [] xs = [] \<longleftrightarrow> xs = []"
  by (cases xs) simp_all

lemma firsts_skip: "x \<notin> set xs \<Longrightarrow> set seen' = insert x (set seen) \<Longrightarrow> firsts seen' xs = firsts seen xs"
proof (induction xs arbitrary: seen seen')
  case (Cons y ys)
  have x: "x \<notin> set ys" "y \<noteq> x" and m: "y \<in> set seen' \<longleftrightarrow> y \<in> set seen" using Cons.prems by auto
  have more: "set (y # seen') = insert x (set (y # seen))" using Cons.prems(2) by auto
  show ?case
    using m Cons.IH [OF x(1) Cons.prems(2)] Cons.IH [OF x(1) more] by (cases "y \<in> set seen") simp_all
qed simp

lemma filter_firsts: "filter P (firsts seen xs) = firsts seen (filter P xs)"
proof (induction seen xs rule: firsts.induct)
  case (2 seen x xs)
  show ?case
  proof (cases "P x")
    case False
    then have "firsts (x # seen) (filter P xs) = firsts seen (filter P xs)" by (intro firsts_skip) simp_all
    with False 2 show ?thesis by simp
  qed (use 2 in simp)
qed simp

section \<open>Selections\<close>

definition bad_group :: "string list \<Rightarrow> string \<Rightarrow> bool" where
  "bad_group groups n \<longleftrightarrow> n \<noteq> ''core'' \<and> n \<notin> set groups"

lemma select_groups_Err:
  "filter (bad_group groups) ns = n # rest \<Longrightarrow> select_groups groups core ns acc = Err (unknown_group groups n)"
  by (induction groups core ns acc rule: select_groups.induct) (auto simp: bad_group_def split: if_splits)

lemma select_groups_Ok:
  "filter (bad_group groups) ns = [] \<Longrightarrow> \<exists>gs. select_groups groups core ns acc = Ok gs \<and>
     set gs = set acc \<union> (if ''core'' \<in> set ns then set core else {}) \<union> (set ns - {''core''})"
proof (induction groups core ns acc rule: select_groups.induct)
  case (2 groups core n ns acc)
  then have n: "n = ''core'' \<or> n \<in> set groups" "filter (bad_group groups) ns = []"
    by (auto simp: bad_group_def [of groups n] split: if_splits)
  show ?case
  proof (cases "n = ''core''")
    case True
    from "2.IH"(1) [OF True n(2)] True show ?thesis by (force split: if_splits)
  next
    case False
    with n(1) have "n \<in> set groups" by simp
    from "2.IH"(2) [OF False this n(2)] False this show ?thesis by force
  qed
qed simp

section \<open>Properties\<close>

text \<open>The profiles keep manual commands and owned workflows apart. A manual command is refused in
  the production profile and allowed in the advanced one, can be printed and read back, and is of a
  kind whose receipt bars the guarded workflows from the retained state; a tool that owns Takes,
  scenes, demos or media is never allowed in the advanced profile.\<close>

lemma profiles_separate:
  assumes "parse_command name args = Some cmd" and "owned \<in> set owned_names"
  shows "\<not> allows Production_Profile name \<and> allows Advanced_Profile name \<and> is_advanced_name name \<and>
    parse_command (command_name cmd) (command_arguments cmd) = Some cmd \<and> command_name cmd = name \<and>
    incompatible_with_guarded_reentry (command_kind cmd) \<and>
    allows Production_Profile owned \<and> \<not> allows Advanced_Profile owned"
proof -
  have name: "command_name cmd = name" "is_advanced_name name"
    using assms(1) by (auto simp: parse_command_def is_advanced_name_def Let_def split: if_splits)
  have "parse_command (command_name cmd) (command_arguments cmd) = Some cmd"
    by (cases cmd) (simp_all add: parse_command_def, simp_all add: mk_object_def)
  moreover have "incompatible_with_guarded_reentry (command_kind cmd)"
    by (cases cmd) (simp_all add: incompatible_with_guarded_reentry_def advanced_only_def)
  moreover have "list_all (\<lambda>n. allows Production_Profile n \<and> \<not> allows Advanced_Profile n) owned_names" by code_simp
  ultimately show ?thesis using name assms(2) by (auto simp: allows_def list_all_iff)
qed

end
