(* ===== verification/Visibility.thy ===== *)
theory Visibility
  imports Toolset
begin

text \<open>
  Session-local visibility of tools, \<open>src/native/src/dynamic_visibility.rs\<close>: the validated contract
  of tools and groups, what a session has available, and the two controllers that enable and
  disable groups, with the effects they announce.
\<close>

section \<open>Contract\<close>

definition CONTROLLERS :: "string list" where
  "CONTROLLERS = [''obs-list-toolsets'', ''obs-enable-toolset'', ''obs-disable-toolset'']"

definition STREAM :: "string list" where
  "STREAM = [''obs-start-stream'', ''obs-stop-stream'', ''obs-toggle-stream'']"

datatype VisibilityError = Contract_Error | Configuration string | UnavailableController | InvalidArguments

record Tool =
  t_name :: string
  t_group :: nat
  t_read_only :: bool

record Group =
  g_name :: string
  g_covers :: string

record Contract =
  ct_tools :: "Tool list"
  ct_groups :: "Group list"
  ct_core :: "nat list"
  ct_controllers :: json
  registry_order :: "nat list"

definition index_of :: "'a \<Rightarrow> 'a list \<Rightarrow> nat option" where
  "index_of x xs = position (\<lambda>y. y = x) xs"

definition read_group :: "string \<times> json \<Rightarrow> Group option" where
  "read_group = (\<lambda>(name, entry).
     if idx entry ''group'' \<noteq> JString name then None
     else map_option (\<lambda>c. \<lparr>g_name = name, g_covers = c\<rparr>) (as_str (idx entry ''covers'')))"

fun read_core :: "string list \<Rightarrow> string list \<Rightarrow> nat list \<Rightarrow> nat list option" where
  "read_core names [] acc = Some acc"
| "read_core names (c # cs) acc = (case index_of c names of None \<Rightarrow> None
     | Some i \<Rightarrow> if i \<in> set acc then None else read_core names cs (i # acc))"

fun read_tools :: "string list \<Rightarrow> (string \<times> json) list \<Rightarrow> string list \<Rightarrow> json list \<Rightarrow> Tool list option" where
  "read_tools names assignments known [] = Some []"
| "read_tools names assignments known (v # vs) = (case as_str (idx v ''name'') of None \<Rightarrow> None | Some name \<Rightarrow>
     if name = [] \<or> name \<in> set CONTROLLERS \<or> name \<in> set known then None
     else (case Option.bind (Option.bind (map_of assignments name) as_str) (\<lambda>g. index_of g names) of None \<Rightarrow> None
       | Some i \<Rightarrow> map_option (\<lambda>ts. \<lparr>t_name = name, t_group = i, t_read_only = read_only_tool v\<rparr> # ts)
           (read_tools names assignments (name # known) vs)))"

definition controllers_ok :: "json list \<Rightarrow> bool" where
  "controllers_ok cs \<longleftrightarrow> length cs = 3 \<and> list_all (\<lambda>name.
     length (filter (\<lambda>tool. idx tool ''name'' = JString name \<and> as_object (idx tool ''inputSchema'') \<noteq> None) cs) = 1) CONTROLLERS"

definition from_source :: "json \<Rightarrow> json \<Rightarrow> Contract option" where
  "from_source catalog controller = Option.bind (strings (idx (idx catalog ''toolsets'') ''groups'')) (\<lambda>names.
     if names = [] \<or> [] \<in> set names \<or> \<not> distinct names then None
     else Option.bind (as_array (idx controller ''groups'')) (\<lambda>descriptions.
       if length descriptions \<noteq> length names then None
       else Option.bind (those (map read_group (zip names descriptions))) (\<lambda>groups.
         Option.bind (Option.bind (strings (idx (idx catalog ''toolsets'') ''coreGroups'')) (\<lambda>cs. read_core names cs [])) (\<lambda>core.
           Option.bind (as_object (idx (idx catalog ''toolsets'') ''toolGroups'')) (\<lambda>assignments.
             Option.bind (Option.bind (as_array (idx catalog ''tools'')) (read_tools names assignments [])) (\<lambda>tools.
               if length assignments \<noteq> length tools then None
               else Option.bind (strings (idx controller ''registryOrder'')) (\<lambda>order_names.
                 Option.bind (those (map (\<lambda>n. index_of n (map t_name tools)) order_names)) (\<lambda>order.
                   if length order \<noteq> length tools \<or> \<not> distinct order then None
                   else Option.bind (as_array (idx controller ''tools'')) (\<lambda>cs.
                     if \<not> controllers_ok cs \<or> ''general'' \<notin> set names then None
                     else Some \<lparr>ct_tools = tools, ct_groups = groups, ct_core = core, ct_controllers = JArray cs,
                       registry_order = order\<rparr>)))))))))"

definition known_names :: "Contract \<Rightarrow> string list" where
  "known_names c = map t_name (ct_tools c)"

section \<open>Availability and settings\<close>

datatype CaptureProfile = Standalone | TakeOrMedia

fun available_names :: "Contract \<Rightarrow> string list \<Rightarrow> CaptureProfile \<Rightarrow> (VisibilityError, string list) result" where
  "available_names c [] p = Ok []"
| "available_names c (n # ns) p = (if n \<notin> set (known_names c) then Err Contract_Error
     else and_then (available_names c ns p) (\<lambda>rest.
       Ok (if p = TakeOrMedia \<and> n \<in> set STREAM then rest else n # rest)))"

record Settings =
  dynamic :: bool
  toolsets :: "string option"
  tools_setting :: "string option"
  read_only_setting :: bool

definition parse_settings :: "(string \<Rightarrow> string option) \<Rightarrow> Settings" where
  "parse_settings env =
     (let on = (\<lambda>name. case env name of None \<Rightarrow> False | Some s \<Rightarrow> config_enabled s) in
      \<lparr>dynamic = on ''OBS_MCP_DYNAMIC_TOOLSETS'', toolsets = env ''OBS_MCP_TOOLSETS'',
       tools_setting = env ''OBS_MCP_TOOLS'', read_only_setting = on ''OBS_MCP_READ_ONLY''\<rparr>)"

section \<open>The session's state\<close>

record State =
  st_available :: bool
  st_registered :: bool
  st_enabled :: bool

datatype VisibilityEffect = VisibilityChanged string bool

datatype Projection = CompleteSourceAvailability | AvailabilityRestricted

record Visibility =
  vi_contract :: Contract
  states :: "State list"
  vi_dynamic :: bool
  projection :: Projection

fun choose_groups :: "Contract \<Rightarrow> string list \<Rightarrow> nat list \<Rightarrow> (VisibilityError, nat list) result" where
  "choose_groups c [] acc = Ok acc"
| "choose_groups c (name # names) acc =
     (if name = ''core'' then choose_groups c names (ct_core c @ acc)
      else (case index_of name (map g_name (ct_groups c)) of
          Some i \<Rightarrow> choose_groups c names (i # acc)
        | None \<Rightarrow> Err (Configuration (unknown_group (map g_name (ct_groups c)) name))))"

definition initial_state :: "string list \<Rightarrow> Settings \<Rightarrow> bool \<Rightarrow> nat list \<Rightarrow> string list \<Rightarrow> Tool \<Rightarrow> State" where
  "initial_state names s all groups explicit t =
     (let available = t_name t \<in> set names;
          readable = (\<not> read_only_setting s \<or> t_read_only t);
          selected = (readable \<and> (all \<or> t_group t \<in> set groups \<or> t_name t \<in> set explicit));
          registered = (available \<and> readable \<and> (dynamic s \<or> selected))
      in \<lparr>st_available = available, st_registered = registered, st_enabled = registered \<and> selected\<rparr>)"

text \<open>The selected groups: all of them, or those listed by index.\<close>

definition selection :: "Contract \<Rightarrow> Settings \<Rightarrow> (VisibilityError, bool \<times> nat list) result" where
  "selection c s =
     (let group_names = entries (toolsets s); explicit = firsts [] (entries (tools_setting s)) in
      if dynamic s \<and> group_names = [] then
        (case index_of ''general'' (map g_name (ct_groups c)) of None \<Rightarrow> Err Contract_Error | Some i \<Rightarrow> Ok (False, [i]))
      else if group_names = [] \<and> explicit = [] \<or> ''all'' \<in> set group_names then Ok (True, [])
      else and_then (choose_groups c group_names []) (\<lambda>gs. Ok (False, gs)))"

definition start_visibility :: "Contract \<Rightarrow> string list \<Rightarrow> Settings \<Rightarrow> bool \<times> nat list \<Rightarrow>
    (VisibilityError, Visibility) result" where
  "start_visibility c names s sel =
     (let explicit = firsts [] (entries (tools_setting s));
          unknown = filter (\<lambda>n. n \<notin> set (known_names c)) explicit;
          sts = map (initial_state names s (fst sel) (snd sel) explicit) (ct_tools c)
      in if unknown \<noteq> [] then Err (Configuration (unknown_tools unknown))
         else if \<not> list_ex st_registered sts then Err (Configuration ''The tool filter excludes every tool'')
         else Ok \<lparr>vi_contract = c, states = sts, vi_dynamic = dynamic s,
           projection = (if list_all st_available sts then CompleteSourceAvailability else AvailabilityRestricted)\<rparr>)"

definition new_visibility :: "Contract \<Rightarrow> string list \<Rightarrow> Settings \<Rightarrow> (VisibilityError, Visibility) result" where
  "new_visibility c names s =
     (if \<not> set names \<subseteq> set (known_names c) then Err Contract_Error
      else and_then (selection c s) (start_visibility c names s))"

definition state_of :: "Visibility \<Rightarrow> string \<Rightarrow> State option" where
  "state_of v name = map_option (\<lambda>i. states v ! i) (index_of name (known_names (vi_contract v)))"

definition registered_names :: "Visibility \<Rightarrow> string list" where
  "registered_names v = map (\<lambda>i. t_name (ct_tools (vi_contract v) ! i))
     (filter (\<lambda>i. st_registered (states v ! i)) (registry_order (vi_contract v)))"

definition enabled_names :: "Visibility \<Rightarrow> string list" where
  "enabled_names v = map (\<lambda>(t, _). t_name t) (filter (\<lambda>(_, st). st_enabled st) (zip (ct_tools (vi_contract v)) (states v)))"

record Counts =
  n_known :: nat
  n_available :: nat
  n_registered :: nat
  n_enabled :: nat

definition group_counts :: "Visibility \<Rightarrow> nat \<Rightarrow> Counts" where
  "group_counts v i =
     (let own = filter (\<lambda>(t, _). t_group t = i) (zip (ct_tools (vi_contract v)) (states v));
          many = (\<lambda>P. length (filter (\<lambda>(_, st). P st) own))
      in \<lparr>n_known = length own, n_available = many st_available, n_registered = many st_registered,
          n_enabled = many st_enabled\<rparr>)"

definition group_facts :: "Visibility \<Rightarrow> (string \<times> Counts) list" where
  "group_facts v = map (\<lambda>(i, g). (g_name g, group_counts v i)) (enumerate 0 (ct_groups (vi_contract v)))"

section \<open>The controllers\<close>

record Transition =
  result_value :: json
  effects :: "VisibilityEffect list"
  tr_projection :: Projection

definition list_toolsets :: "Visibility \<Rightarrow> (VisibilityError, Transition) result" where
  "list_toolsets v =
     (if \<not> vi_dynamic v then Err UnavailableController
      else (let rows = filter (\<lambda>(g, k). n_registered k \<noteq> 0)
              (map (\<lambda>(i, g). (g, group_counts v i)) (enumerate 0 (ct_groups (vi_contract v))));
            groups = map (\<lambda>(g, k). mk_object [(''group'', JString (g_name g)), (''enabled'', of_u64 (of_nat (n_enabled k))),
              (''total'', of_u64 (of_nat (n_registered k))), (''covers'', JString (g_covers g))]) rows;
            text = join_with [CHR 0x0A] (map (\<lambda>(g, k).
              (if n_enabled k = n_registered k then ''on '' else if n_enabled k = 0 then ''off'' else ''part'') @ '' '' @
              g_name g @ '' ('' @ dec (n_enabled k) @ ''/'' @ dec (n_registered k) @ ''): '' @ g_covers g) rows)
        in Ok \<lparr>result_value = mk_object [
              (''content'', JArray [mk_object [(''type'', JString ''text''), (''text'', JString text)]]),
              (''structuredContent'', mk_object [(''groups'', JArray groups)])],
            effects = [], tr_projection = projection v\<rparr>))"

text \<open>The loop of \<open>set_groups\<close> over the registry order: the names changed and the new states.\<close>

fun switch_tools :: "Contract \<Rightarrow> string list \<Rightarrow> bool \<Rightarrow> nat list \<Rightarrow> State list \<Rightarrow> string list \<times> State list" where
  "switch_tools c groups enable [] sts = ([], sts)"
| "switch_tools c groups enable (i # is) sts =
     (let t = ct_tools c ! i; st = sts ! i in
      if st_registered st \<and> g_name (ct_groups c ! t_group t) \<in> set groups \<and> st_enabled st \<noteq> enable
      then (let (changed, sts') = switch_tools c groups enable is (sts[i := st\<lparr>st_enabled := enable\<rparr>])
            in (t_name t # changed, sts'))
      else switch_tools c groups enable is sts)"

definition set_groups :: "string list \<Rightarrow> bool \<Rightarrow> Visibility \<Rightarrow> (VisibilityError, Transition) result \<times> Visibility" where
  "set_groups groups enable v =
     (if \<not> vi_dynamic v then (Err UnavailableController, v)
      else if groups = [] \<or> \<not> set groups \<subseteq> set (map g_name (ct_groups (vi_contract v))) then (Err InvalidArguments, v)
      else (let (changed, sts) = switch_tools (vi_contract v) groups enable (registry_order (vi_contract v)) (states v);
          text = (if changed = [] then ''Nothing to change: '' @ join_with '', '' groups @ '' '' @
                (if enable then ''already on'' else ''already off'')
              else (if enable then ''Enabled'' else ''Disabled'') @ '' '' @ dec (length changed) @ '' tool(s) in '' @
                join_with '', '' groups @ '': '' @ join_with '', '' changed)
        in (Ok \<lparr>result_value = mk_object [
                (''content'', JArray [mk_object [(''type'', JString ''text''), (''text'', JString text)]]),
                (''structuredContent'', mk_object [(''groups'', JArray (map JString groups)),
                  (''changed'', JArray (map JString changed))])],
              effects = map (\<lambda>n. VisibilityChanged n enable) changed, tr_projection = projection v\<rparr>,
            v\<lparr>states := sts\<rparr>)))"

section \<open>Contracts that were read\<close>

lemma position_Some_iff:
  "position P xs = Some i \<longleftrightarrow> i < length xs \<and> P (xs ! i) \<and> (\<forall>j<i. \<not> P (xs ! j))"
proof (induction xs arbitrary: i)
  case (Cons x xs)
  show ?case
  proof (cases i)
    case 0
    then show ?thesis by auto
  next
    case (Suc j)
    with Cons.IH [of j] show ?thesis by (auto simp: less_Suc_eq_0_disj All_less_Suc2)
  qed
qed simp

lemma index_of_Some: "index_of x xs = Some i \<Longrightarrow> i < length xs \<and> xs ! i = x"
  by (simp add: index_of_def position_Some_iff)

lemma index_of_None: "index_of x xs = None \<longleftrightarrow> x \<notin> set xs"
  by (auto simp: index_of_def position_None_iff list_all_iff)

lemma index_of_nth: "distinct xs \<Longrightarrow> i < length xs \<Longrightarrow> index_of (xs ! i) xs = Some i"
  by (auto simp: index_of_def position_Some_iff nth_eq_iff_index_eq)

lemma those_Some: "those xs = Some ys \<longleftrightarrow> map Some ys = xs"
proof (induction xs arbitrary: ys)
  case (Cons x xs)
  show ?case by (cases x; cases ys) (auto simp: Cons.IH)
qed auto

definition contract_ok :: "Contract \<Rightarrow> bool" where
  "contract_ok c \<longleftrightarrow> distinct (known_names c) \<and> list_all (\<lambda>t. t_group t < length (ct_groups c)) (ct_tools c) \<and>
     distinct (registry_order c) \<and> set (registry_order c) = {..<length (ct_tools c)} \<and>
     distinct (map g_name (ct_groups c)) \<and> list_all (\<lambda>i. i < length (ct_groups c)) (ct_core c)"

lemma read_tools_ok:
  "read_tools names assignments known vs = Some ts \<Longrightarrow>
     distinct (map t_name ts) \<and> set (map t_name ts) \<inter> set known = {} \<and>
     list_all (\<lambda>t. t_group t < length names) ts \<and> length ts = length vs \<and>
     list_all2 (\<lambda>v t. as_str (idx v ''name'') = Some (t_name t) \<and> t_read_only t = read_only_tool v \<and>
       Option.bind (map_of assignments (t_name t)) as_str = Some (names ! t_group t)) vs ts"
proof (induction names assignments known vs arbitrary: ts rule: read_tools.induct)
  case (2 names assignments known v vs)
  from "2.prems" obtain name i ts' where s: "as_str (idx v ''name'') = Some name" "name \<notin> set known"
      "Option.bind (Option.bind (map_of assignments name) as_str) (\<lambda>g. index_of g names) = Some i"
      "read_tools names assignments (name # known) vs = Some ts'"
      "ts = \<lparr>t_name = name, t_group = i, t_read_only = read_only_tool v\<rparr> # ts'" "name \<noteq> []" "name \<notin> set CONTROLLERS"
    by (auto split: option.splits if_splits)
  from s(3) obtain g where "Option.bind (map_of assignments name) as_str = Some g" "index_of g names = Some i"
    by (auto simp: bind_eq_Some_conv)
  with index_of_Some [of g names i] "2.IH" [OF s(1) _ s(3) s(4)] s show ?case by auto
qed simp

lemma read_core_ok: "read_core names cs acc = Some is \<Longrightarrow>
    set is = set acc \<union> {i. i < length names \<and> (\<exists>c. c \<in> set cs \<and> index_of c names = Some i)} \<and> set cs \<subseteq> set names"
proof (induction names cs acc arbitrary: "is" rule: read_core.induct)
  case (2 names c cs acc)
  then obtain i where i: "index_of c names = Some i" "i \<notin> set acc" "read_core names cs (i # acc) = Some is"
    by (auto split: option.splits if_splits)
  with "2.IH" [OF i] index_of_Some [OF i(1)] show ?case by auto
qed simp

lemma read_group_name: "read_group (n, d) = Some g \<Longrightarrow> g_name g = n"
  by (auto simp: read_group_def split: if_splits)

text \<open>What reading a contract guarantees about it and about the catalog.\<close>

lemma from_sourceE:
  assumes "from_source catalog controller = Some c"
  obtains names cs assignments vs where
    "strings (idx (idx catalog ''toolsets'') ''groups'') = Some names" "distinct names" "map g_name (ct_groups c) = names"
    "strings (idx (idx catalog ''toolsets'') ''coreGroups'') = Some cs" "read_core names cs [] = Some (ct_core c)"
    "as_object (idx (idx catalog ''toolsets'') ''toolGroups'') = Some assignments"
    "as_array (idx catalog ''tools'') = Some vs" "read_tools names assignments [] vs = Some (ct_tools c)"
    "length assignments = length (ct_tools c)" "contract_ok c"
proof -
  from assms obtain names ds groups cs core assignments vs tools order_names order where
    s: "strings (idx (idx catalog ''toolsets'') ''groups'') = Some names" "distinct names"
      "length ds = length names" "those (map read_group (zip names ds)) = Some groups"
      "strings (idx (idx catalog ''toolsets'') ''coreGroups'') = Some cs" "read_core names cs [] = Some core"
      "as_object (idx (idx catalog ''toolsets'') ''toolGroups'') = Some assignments"
      "as_array (idx catalog ''tools'') = Some vs" "read_tools names assignments [] vs = Some tools"
      "length assignments = length tools"
      "those (map (\<lambda>n. index_of n (map t_name tools)) order_names) = Some order"
      "length order = length tools" "distinct order"
      "ct_tools c = tools" "ct_groups c = groups" "ct_core c = core" "registry_order c = order"
    by (auto simp: from_source_def bind_eq_Some_conv split: if_splits)
  have names: "map g_name groups = names"
  proof (rule nth_equalityI)
    have eq: "map Some groups = map read_group (zip names ds)" using s(4) by (simp add: those_Some)
    from arg_cong [OF this, of length] s(3) show len: "length (map g_name groups) = length names" by simp
    fix i
    assume "i < length (map g_name groups)"
    with len s(3) arg_cong [OF eq, of "\<lambda>xs. xs ! i"] show "map g_name groups ! i = names ! i"
      by (auto dest: sym intro: read_group_name)
  qed
  have "set order \<subseteq> {..<length tools}"
  proof
    fix i
    assume "i \<in> set order"
    moreover have "map Some order = map (\<lambda>n. index_of n (map t_name tools)) order_names" using s(11) by (simp add: those_Some)
    ultimately have "Some i \<in> set (map (\<lambda>n. index_of n (map t_name tools)) order_names)" by (metis image_eqI list.set_map)
    then obtain n where "index_of n (map t_name tools) = Some i" by auto
    then show "i \<in> {..<length tools}" using index_of_Some [of n "map t_name tools" i] by simp
  qed
  moreover have "card (set order) = length tools" using s(12,13) by (simp add: distinct_card)
  ultimately have order: "set order = {..<length tools}" by (intro card_subset_eq) simp_all
  have len: "length groups = length names" using names by auto
  have core: "list_all (\<lambda>i. i < length names) core" using read_core_ok [OF s(6)] by (auto simp: list_all_iff)
  have "contract_ok c"
    unfolding contract_ok_def known_names_def s(14-17) len
    using s(2,13) names order core read_tools_ok [OF s(9)] by simp
  with that [of names cs assignments vs] s names show thesis by simp
qed

section \<open>Switching\<close>

definition governed :: "Contract \<Rightarrow> string list \<Rightarrow> State list \<Rightarrow> nat \<Rightarrow> bool" where
  "governed c groups sts i \<longleftrightarrow> st_registered (sts ! i) \<and> g_name (ct_groups c ! t_group (ct_tools c ! i)) \<in> set groups"

lemma switch_tools_spec:
  assumes "switch_tools c groups enable is sts = (changed, sts')" and "distinct is" and "\<And>i. i \<in> set is \<Longrightarrow> i < length sts"
  shows "length sts' = length sts \<and>
    (\<forall>i<length sts. sts' ! i = (if i \<in> set is \<and> governed c groups sts i then (sts ! i)\<lparr>st_enabled := enable\<rparr> else sts ! i)) \<and>
    changed = map (\<lambda>i. t_name (ct_tools c ! i)) (filter (\<lambda>i. governed c groups sts i \<and> st_enabled (sts ! i) \<noteq> enable) is)"
  using assms
proof (induction "is" arbitrary: sts changed)
  case (Cons i "is")
  let ?st = "sts ! i"
  show ?case
  proof (cases "governed c groups sts i \<and> st_enabled ?st \<noteq> enable")
    case True
    let ?sts = "sts[i := ?st\<lparr>st_enabled := enable\<rparr>]"
    from Cons.prems(1) True obtain ch where ch: "switch_tools c groups enable is ?sts = (ch, sts')"
        "changed = t_name (ct_tools c ! i) # ch"
      by (auto simp: governed_def Let_def split: prod.splits)
    have other: "?sts ! j = sts ! j" if "j \<noteq> i" for j using that by simp
    have here: "?sts ! i = ?st\<lparr>st_enabled := enable\<rparr>" using Cons.prems(3) by simp
    have gov: "governed c groups ?sts j = governed c groups sts j" for j
      using here other [of j] by (cases "j = i") (simp_all add: governed_def)
    have notin: "j \<noteq> i" if "j \<in> set is" for j using Cons.prems(2) that by auto
    from Cons.IH [OF ch(1)] Cons.prems(2,3)
    have ih: "length sts' = length sts"
        "\<forall>j<length sts. sts' ! j = (if j \<in> set is \<and> governed c groups sts j then (?sts ! j)\<lparr>st_enabled := enable\<rparr> else ?sts ! j)"
        "ch = map (\<lambda>i. t_name (ct_tools c ! i)) (filter (\<lambda>j. governed c groups sts j \<and> st_enabled (?sts ! j) \<noteq> enable) is)"
      by (simp_all add: gov)
    have "filter (\<lambda>j. governed c groups sts j \<and> st_enabled (?sts ! j) \<noteq> enable) is =
        filter (\<lambda>j. governed c groups sts j \<and> st_enabled (sts ! j) \<noteq> enable) is"
    proof (rule filter_cong [OF refl])
      fix j
      assume "j \<in> set is"
      then show "(governed c groups sts j \<and> st_enabled (?sts ! j) \<noteq> enable) =
          (governed c groups sts j \<and> st_enabled (sts ! j) \<noteq> enable)"
        by (simp only: other [OF notin])
    qed
    moreover have "sts' ! j = (if j \<in> set (i # is) \<and> governed c groups sts j then (sts ! j)\<lparr>st_enabled := enable\<rparr> else sts ! j)"
      if "j < length sts" for j
    proof (cases "j = i")
      case True
      with ih(2) that notin here \<open>governed c groups sts i \<and> _\<close> show ?thesis by auto
    next
      case False
      with ih(2) that other [OF False] show ?thesis by simp
    qed
    ultimately show ?thesis using ih(1,3) ch(2) True by simp
  next
    case False
    with Cons.prems(1) have "switch_tools c groups enable is sts = (changed, sts')"
      by (auto simp: governed_def Let_def split: if_splits)
    from Cons.IH [OF this] Cons.prems(2,3) False show ?thesis by auto
  qed
qed simp

lemma enabled_same: "st\<lparr>st_enabled := b\<rparr> = st \<longleftrightarrow> st_enabled (st :: State) = b"
  by (cases st) auto

lemma switch_tools_nothing:
  "(\<And>i. i \<in> set is \<Longrightarrow> governed c groups sts i \<Longrightarrow> st_enabled (sts ! i) = enable) \<Longrightarrow>
     switch_tools c groups enable is sts = ([], sts)"
  by (induction "is") (auto simp: governed_def Let_def)

text \<open>Any call of a controller.\<close>

inductive visibility_step :: "Visibility \<Rightarrow> Visibility \<Rightarrow> bool" where
  switches: "set_groups groups enable v = (out, v') \<Longrightarrow> visibility_step v v'"

definition vis_inv :: "Visibility \<Rightarrow> bool" where
  "vis_inv v \<longleftrightarrow> contract_ok (vi_contract v) \<and> length (states v) = length (ct_tools (vi_contract v)) \<and>
     list_all (\<lambda>st. st_enabled st \<longrightarrow> st_registered st) (states v)"

lemma set_groups_Ok:
  assumes "set_groups groups enable v = (Ok t, v')" and "vis_inv v"
  shows "vi_contract v' = vi_contract v \<and> length (states v') = length (states v) \<and>
    (\<forall>i<length (states v). states v' ! i =
       (if governed (vi_contract v) groups (states v) i then (states v ! i)\<lparr>st_enabled := enable\<rparr> else states v ! i)) \<and>
    effects t = map (\<lambda>i. VisibilityChanged (t_name (ct_tools (vi_contract v) ! i)) enable)
      (filter (\<lambda>i. governed (vi_contract v) groups (states v) i \<and> st_enabled (states v ! i) \<noteq> enable)
        (registry_order (vi_contract v)))"
proof -
  obtain changed sts where sw: "switch_tools (vi_contract v) groups enable (registry_order (vi_contract v)) (states v) = (changed, sts)"
    by fastforce
  with assms(1) have out: "v' = v\<lparr>states := sts\<rparr>" "effects t = map (\<lambda>n. VisibilityChanged n enable) changed"
    by (auto simp: set_groups_def Let_def split: if_splits)
  note inv = assms(2) [unfolded vis_inv_def contract_ok_def]
  from switch_tools_spec [OF sw] inv out show ?thesis by simp
qed

lemma set_groups_Err: "set_groups groups enable v = (Err e, v') \<Longrightarrow> v' = v"
  by (auto simp: set_groups_def Let_def split: if_splits prod.splits)

text \<open>What no controller ever changes.\<close>

definition same_rights :: "Visibility \<Rightarrow> Visibility \<Rightarrow> bool" where
  "same_rights v v' \<longleftrightarrow> vis_inv v' \<and> vi_contract v' = vi_contract v \<and> length (states v') = length (states v) \<and>
     (\<forall>i<length (states v). st_available (states v' ! i) = st_available (states v ! i) \<and>
       st_registered (states v' ! i) = st_registered (states v ! i))"

lemma step_same_rights:
  assumes "visibility_step v v'" and "vis_inv v"
  shows "same_rights v v'"
  using assms(1)
proof cases
  case (switches groups enable out)
  show ?thesis
  proof (cases out)
    case (Inl e)
    from set_groups_Err [OF switches [unfolded Inl]] assms(2) show ?thesis by (simp add: same_rights_def)
  next
    case (Inr t)
    note ok = set_groups_Ok [OF switches [unfolded Inr] assms(2)]
    then have at: "st_available (states v' ! i) = st_available (states v ! i) \<and>
        st_registered (states v' ! i) = st_registered (states v ! i) \<and>
        (st_enabled (states v' ! i) \<longrightarrow> st_registered (states v ! i))" if "i < length (states v)" for i
      using that assms(2) by (auto simp: vis_inv_def list_all_length governed_def)
    have "vi_contract v' = vi_contract v" "length (states v') = length (states v)" using ok by simp_all
    with at assms(2) show ?thesis by (simp add: same_rights_def vis_inv_def list_all_length)
  qed
qed

lemma run_same_rights: "visibility_step\<^sup>*\<^sup>* v v' \<Longrightarrow> vis_inv v \<Longrightarrow> same_rights v v'"
proof (induction rule: rtranclp_induct)
  case (step v1 v2)
  then have one: "same_rights v v1" by simp
  with step_same_rights [OF step.hyps(2)] show ?case by (auto simp: same_rights_def)
qed (simp add: same_rights_def)

lemma same_rights_registered:
  assumes "same_rights v v'" and "vis_inv v"
  shows "registered_names v' = registered_names v"
proof -
  have "st_registered (states v' ! i) = st_registered (states v ! i)" if "i \<in> set (registry_order (vi_contract v))" for i
    using that assms by (auto simp: same_rights_def vis_inv_def contract_ok_def)
  then have "filter (\<lambda>i. st_registered (states v' ! i)) (registry_order (vi_contract v)) =
      filter (\<lambda>i. st_registered (states v ! i)) (registry_order (vi_contract v))"
    by (rule filter_cong [OF refl])
  with assms(1) show ?thesis by (simp add: registered_names_def same_rights_def)
qed

lemma new_visibility_Ok:
  assumes "new_visibility c names s = Ok v"
  obtains all groups where "vi_contract v = c"
    "states v = map (initial_state names s all groups (firsts [] (entries (tools_setting s)))) (ct_tools c)"
proof -
  from assms obtain sel where "selection c s = Ok sel" by (cases "selection c s") (auto simp: new_visibility_def split: if_splits)
  with assms show thesis by (intro that [of "fst sel" "snd sel"]) (auto simp: new_visibility_def start_visibility_def Let_def split: if_splits)
qed

lemma initial_state_facts:
  "st_enabled (initial_state names s all groups explicit t) \<Longrightarrow> st_registered (initial_state names s all groups explicit t)"
  "st_registered (initial_state names s all groups explicit t) \<Longrightarrow>
     t_name t \<in> set names \<and> (read_only_setting s \<longrightarrow> t_read_only t)"
  by (auto simp: initial_state_def Let_def)

lemma new_visibility_inv: "new_visibility c names s = Ok v \<Longrightarrow> contract_ok c \<Longrightarrow> vis_inv v"
  by (erule new_visibility_Ok) (auto simp: vis_inv_def list_all_iff intro: initial_state_facts(1))

lemma available_names_Ok:
  "available_names c ns p = Ok names \<Longrightarrow> set names \<subseteq> set ns \<and> (p = TakeOrMedia \<longrightarrow> set names \<inter> set STREAM = {})"
proof (induction c ns p arbitrary: names rule: available_names.induct)
  case (2 c n ns p)
  from "2.prems" obtain rest where "n \<in> set (known_names c)" "available_names c ns p = Ok rest"
      "names = (if p = TakeOrMedia \<and> n \<in> set STREAM then rest else n # rest)"
    by (auto split: if_splits)
  with "2.IH" [of rest] show ?case by (auto split: if_splits)
qed simp

section \<open>Properties\<close>

text \<open>C38: visibility never grants anything. Whatever the controllers are asked to do, an enabled tool
  was registered when the session began: it is one of the available tools, no stream control in a
  capture session, and in a read-only session one the catalog marks as reading; and the set of
  registered tools never changes.\<close>

theorem visibility_never_grants:
  assumes "from_source catalog controller = Some c" and "available_names c ns profile = Ok names"
    and "new_visibility c names s = Ok v" and "visibility_step\<^sup>*\<^sup>* v v'" and "name \<in> set (enabled_names v')"
  shows "name \<in> set ns \<and> (profile = TakeOrMedia \<longrightarrow> name \<notin> set STREAM) \<and>
    (read_only_setting s \<longrightarrow> (\<exists>vs tool. as_array (idx catalog ''tools'') = Some vs \<and> tool \<in> set vs \<and>
       tool_name_of tool = name \<and> read_only_tool tool)) \<and>
    registered_names v' = registered_names v \<and> name \<in> set (registered_names v)"
proof -
  obtain cnames assignments vs where src: "as_array (idx catalog ''tools'') = Some vs"
      "read_tools cnames assignments [] vs = Some (ct_tools c)" "contract_ok c"
    by (rule from_sourceE [OF assms(1)])
  obtain all groups where v: "vi_contract v = c"
      "states v = map (initial_state names s all groups (firsts [] (entries (tools_setting s)))) (ct_tools c)"
    by (rule new_visibility_Ok [OF assms(3)])
  have same: "same_rights v v'" by (rule run_same_rights [OF assms(4) new_visibility_inv [OF assms(3) src(3)]])
  then have len: "length (states v') = length (ct_tools c)" "vi_contract v' = c" using v by (simp_all add: same_rights_def)
  from assms(5) obtain i where i: "i < length (ct_tools c)" "name = t_name (ct_tools c ! i)" "st_enabled (states v' ! i)"
    using len by (auto simp: enabled_names_def set_zip)
  have "st_registered (states v' ! i)"
    using same i(1,3) len by (auto simp: same_rights_def vis_inv_def list_all_length)
  then have reg: "st_registered (states v ! i)" using same i(1) v by (simp add: same_rights_def)
  with initial_state_facts(2) i(1) v(2)
  have init: "name \<in> set names" "read_only_setting s \<longrightarrow> t_read_only (ct_tools c ! i)"
    using i(2) by simp_all
  have "as_str (idx (vs ! i) ''name'') = Some name \<and> (t_read_only (ct_tools c ! i) = read_only_tool (vs ! i)) \<and> vs ! i \<in> set vs"
  proof -
    note rt = read_tools_ok [OF src(2), THEN conjunct2, THEN conjunct2, THEN conjunct2]
    with i(1) have "vs ! i \<in> set vs" by simp
    with list_all2_nthD2 [OF rt [THEN conjunct2] i(1)] i(2) show ?thesis by simp
  qed
  moreover have "registered_names v' = registered_names v"
    using same_rights_registered [OF same new_visibility_inv [OF assms(3) src(3)]] .
  moreover have "name \<in> set (registered_names v)"
    using reg i src(3) v(1) by (auto simp: registered_names_def contract_ok_def)
  ultimately show ?thesis
    using init src(1) available_names_Ok [OF assms(2)] by (auto simp: tool_name_of_def)
qed

text \<open>A small catalog with one reading and one changing tool and its controllers.\<close>

definition sample_tool :: "string \<Rightarrow> bool \<Rightarrow> json" where
  "sample_tool name reads = mk_object [(''name'', JString name),
     (''annotations'', mk_object [(''readOnlyHint'', JBool reads)])]"

definition sample_catalog :: json where
  "sample_catalog = mk_object [
     (''tools'', JArray [sample_tool ''obs-get-status'' True, sample_tool ''obs-start-stream'' False]),
     (''toolsets'', mk_object [(''groups'', JArray [JString ''general'', JString ''stream'']),
       (''coreGroups'', JArray [JString ''general'']),
       (''toolGroups'', mk_object [(''obs-get-status'', JString ''general''), (''obs-start-stream'', JString ''stream'')])])]"

definition sample_controller :: json where
  "sample_controller = mk_object [
     (''groups'', JArray [mk_object [(''group'', JString ''general''), (''covers'', JString ''status'')],
       mk_object [(''group'', JString ''stream''), (''covers'', JString ''streaming'')]]),
     (''registryOrder'', JArray [JString ''obs-start-stream'', JString ''obs-get-status'']),
     (''tools'', JArray (map (\<lambda>n. mk_object [(''name'', JString n), (''inputSchema'', mk_object [])]) CONTROLLERS))]"

definition sample_contract :: Contract where
  "sample_contract = \<lparr>ct_tools = [\<lparr>t_name = ''obs-get-status'', t_group = 0, t_read_only = True\<rparr>,
       \<lparr>t_name = ''obs-start-stream'', t_group = 1, t_read_only = False\<rparr>],
     ct_groups = [\<lparr>g_name = ''general'', g_covers = ''status''\<rparr>, \<lparr>g_name = ''stream'', g_covers = ''streaming''\<rparr>],
     ct_core = [0], ct_controllers = idx sample_controller ''tools'', registry_order = [1, 0]\<rparr>"

definition sample_settings :: Settings where
  "sample_settings = \<lparr>dynamic = True, toolsets = None, tools_setting = None, read_only_setting = False\<rparr>"

definition sample_visibility :: "bool \<Rightarrow> Visibility" where
  "sample_visibility on = \<lparr>vi_contract = sample_contract,
     states = [\<lparr>st_available = True, st_registered = True, st_enabled = True\<rparr>,
       \<lparr>st_available = True, st_registered = True, st_enabled = on\<rparr>],
     vi_dynamic = True, projection = CompleteSourceAvailability\<rparr>"

lemma sample_contract_read: "from_source sample_catalog sample_controller = Some sample_contract"
  by code_simp

lemma sample_available:
  "available_names sample_contract [''obs-get-status'', ''obs-start-stream''] Standalone = Ok [''obs-get-status'', ''obs-start-stream'']"
  by code_simp

lemma sample_visible:
  "new_visibility sample_contract [''obs-get-status'', ''obs-start-stream''] sample_settings = Ok (sample_visibility False)"
proof -
  have "index_of ''general'' (map g_name (ct_groups sample_contract)) = Some 0"
      "set [''obs-get-status'', ''obs-start-stream''] \<subseteq> set (known_names sample_contract)"
    by code_simp+
  then show ?thesis
    by (simp add: new_visibility_def start_visibility_def selection_def sample_settings_def sample_visibility_def Let_def)
      (simp add: sample_contract_def initial_state_def Let_def)
qed

lemma sample_switched: "snd (set_groups [''stream''] True (sample_visibility False)) = sample_visibility True"
  by code_simp

lemma sample_visibility_run: "visibility_step\<^sup>*\<^sup>* (sample_visibility False) (sample_visibility True)"
  using visibility_step.switches [of "[''stream'']" True "sample_visibility False", OF surjective_pairing]
  by (auto simp: sample_switched)

theorem visibility_never_grants_witness:
  "''obs-start-stream'' \<in> set (registered_names (sample_visibility False)) \<and>
     registered_names (sample_visibility True) = registered_names (sample_visibility False)"
proof -
  have "''obs-start-stream'' \<in> set (enabled_names (sample_visibility True))" by code_simp
  from visibility_never_grants [OF sample_contract_read sample_available sample_visible sample_visibility_run this]
  show ?thesis by simp
qed

text \<open>A controller does exactly what it announces. A call that is accepted sets every registered
  tool of the named groups and leaves every other tool alone; the effects name exactly the tools
  whose visibility changed, in registry order; a repetition of the call has no effect; and a refused
  call changes nothing.\<close>

lemma switching_announced_exactly:
  assumes "from_source catalog controller = Some c" and "new_visibility c names s = Ok v0" and "visibility_step\<^sup>*\<^sup>* v0 v"
  shows "case set_groups groups enable v of
      (Err e, v') \<Rightarrow> v' = v
    | (Ok t, v') \<Rightarrow>
        (\<forall>i<length (states v). states v' ! i =
          (if governed c groups (states v) i then (states v ! i)\<lparr>st_enabled := enable\<rparr> else states v ! i)) \<and>
        effects t = map (\<lambda>i. VisibilityChanged (t_name (ct_tools c ! i)) enable)
          (filter (\<lambda>i. states v' ! i \<noteq> states v ! i) (registry_order c)) \<and>
        (\<exists>t'. set_groups groups enable v' = (Ok t', v') \<and> effects t' = [])"
proof -
  obtain ok: "contract_ok c" by (rule from_sourceE [OF assms(1)])
  have "vi_contract v0 = c" by (rule new_visibility_Ok [OF assms(2)])
  with run_same_rights [OF assms(3) new_visibility_inv [OF assms(2) ok]]
  have inv: "vis_inv v" "vi_contract v = c" by (simp_all add: same_rights_def)
  obtain out v' where out: "set_groups groups enable v = (out, v')" by fastforce
  show ?thesis
  proof (cases out)
    case (Inl e)
    with out set_groups_Err [of groups enable v e v'] show ?thesis by simp
  next
    case (Inr t)
    note one = set_groups_Ok [OF out [unfolded Inr] inv(1), unfolded inv(2)]
    have small: "i < length (states v)" if "i \<in> set (registry_order c)" for i
      using inv ok that by (auto simp: vis_inv_def contract_ok_def)
    have "effects t = map (\<lambda>i. VisibilityChanged (t_name (ct_tools c ! i)) enable)
        (filter (\<lambda>i. states v' ! i \<noteq> states v ! i) (registry_order c))"
      unfolding one [THEN conjunct2, THEN conjunct2, THEN conjunct2]
      by (intro arg_cong [where f = "map _"] filter_cong refl) (use one small enabled_same in auto)
    moreover have "\<exists>t'. set_groups groups enable v' = (Ok t', v') \<and> effects t' = []"
    proof -
      have "switch_tools c groups enable (registry_order c) (states v') = ([], states v')"
        by (rule switch_tools_nothing) (use one small in \<open>auto simp: governed_def\<close>)
      moreover have "vi_contract v' = c" "vi_dynamic v' = vi_dynamic v" "vi_dynamic v" "groups \<noteq> []"
          "set groups \<subseteq> set (map g_name (ct_groups c))"
        using out Inr inv(2) by (auto simp: set_groups_def Let_def split: if_splits prod.splits)
      ultimately show ?thesis by (simp add: set_groups_def)
    qed
    ultimately show ?thesis using out Inr one by simp
  qed
qed

section \<open>The static filter as a session without controllers\<close>

lemma choose_groups_Err:
  "filter (bad_group (map g_name (ct_groups c))) ns = n # rest \<Longrightarrow>
     choose_groups c ns acc = Err (Configuration (unknown_group (map g_name (ct_groups c)) n))"
proof (induction c ns acc rule: choose_groups.induct)
  case (2 c m ms acc)
  let ?names = "map g_name (ct_groups c)"
  show ?case
  proof (cases "bad_group ?names m")
    case True
    then have "index_of m ?names = None" "m \<noteq> ''core''"
      unfolding bad_group_def [of ?names m] index_of_None by blast+
    with True "2.prems" show ?thesis by simp
  next
    case False
    then have "m = ''core'' \<or> (\<exists>i. index_of m ?names = Some i)"
      using index_of_None [of m ?names] by (auto simp: bad_group_def [of ?names m])
    with False 2 show ?thesis by auto
  qed
qed simp

lemma choose_groups_Ok:
  "filter (bad_group (map g_name (ct_groups c))) ns = [] \<Longrightarrow> distinct (map g_name (ct_groups c)) \<Longrightarrow>
     \<exists>gs. choose_groups c ns acc = Ok gs \<and> set gs = set acc \<union> (if ''core'' \<in> set ns then set (ct_core c) else {}) \<union>
       {i. i < length (ct_groups c) \<and> g_name (ct_groups c ! i) \<in> set ns - {''core''}}"
proof (induction c ns acc rule: choose_groups.induct)
  case (2 c m ms acc)
  let ?names = "map g_name (ct_groups c)"
  have rest: "filter (bad_group ?names) ms = []" and m: "m = ''core'' \<or> m \<in> set ?names"
    using "2.prems"(1) by (auto simp: bad_group_def [of ?names m] split: if_splits)
  show ?case
  proof (cases "m = ''core''")
    case True
    with "2.IH"(1) [OF True rest "2.prems"(2)] show ?thesis by auto
  next
    case False
    with m obtain i where i: "index_of m ?names = Some i" using index_of_None [of m ?names] by (cases "index_of m ?names") auto
    note at = index_of_Some [OF i]
    have uniq: "j = i" if "j < length (ct_groups c)" "g_name (ct_groups c ! j) = m" for j
      using that at "2.prems"(2) nth_eq_iff_index_eq [of ?names j i] by simp
    have whole: "{j. j < length (ct_groups c) \<and> g_name (ct_groups c ! j) \<in> set (m # ms) - {''core''}} =
        insert i {j. j < length (ct_groups c) \<and> g_name (ct_groups c ! j) \<in> set ms - {''core''}}"
      using at False by (auto dest: uniq)
    from "2.IH"(2) [OF False i rest "2.prems"(2)] obtain gs where "choose_groups c ms (i # acc) = Ok gs"
        "set gs = set (i # acc) \<union> (if ''core'' \<in> set ms then set (ct_core c) else {}) \<union>
          {j. j < length (ct_groups c) \<and> g_name (ct_groups c ! j) \<in> set ms - {''core''}}"
      by blast
    with False i show ?thesis unfolding whole by auto
  qed
qed simp

lemma known_tools_read:
  "read_tools names assignments known vs = Some ts \<Longrightarrow> set known = fst ` set acc \<Longrightarrow>
     known_tools assignments names vs acc = Ok (rev (map (\<lambda>t. (t_name t, names ! t_group t)) ts) @ acc)"
proof (induction names assignments known vs arbitrary: ts acc rule: read_tools.induct)
  case (2 names assignments known v vs)
  from "2.prems"(1) obtain name i ts' where s: "as_str (idx v ''name'') = Some name"
      "\<not> (name = [] \<or> name \<in> set CONTROLLERS \<or> name \<in> set known)"
      "Option.bind (Option.bind (map_of assignments name) as_str) (\<lambda>g. index_of g names) = Some i"
      "read_tools names assignments (name # known) vs = Some ts'"
      "ts = \<lparr>t_name = name, t_group = i, t_read_only = read_only_tool v\<rparr> # ts'"
    by (auto split: option.splits if_splits)
  from s(3) obtain g where g: "Option.bind (map_of assignments name) as_str = Some g" "index_of g names = Some i"
    by (auto simp: bind_eq_Some_conv)
  have "map_of acc name = None" using s(2) "2.prems"(2) by (auto simp: map_of_eq_None_iff)
  with "2.IH" [OF s(1,2,3,4), of "(name, names ! i) # acc"] s g index_of_Some [OF g(2)] "2.prems"(2)
  show ?case by auto
qed simp

lemma map_filter_related:
  assumes "list_all2 R vs ts" and "\<And>v t. R v t \<Longrightarrow> P v = Q t \<and> f v = g t"
  shows "map f (filter P vs) = map g (filter Q ts)"
  using assms(1) by (induction rule: list_all2_induct) (auto dest!: assms(2))

lemma map_Nil_both: "map f xs = map g ys \<Longrightarrow> xs = [] \<longleftrightarrow> ys = []"
  by (cases xs; cases ys) simp_all

lemma zip_map_states:
  "map (\<lambda>(t, _). t_name t) (filter (\<lambda>(_, st). st_enabled st) (zip ts (map f ts))) = map t_name (filter (\<lambda>t. st_enabled (f t)) ts)"
  by (induction ts) auto

lemma read_core_names:
  assumes "read_core names cs [] = Some is" and "distinct names"
  shows "set cs = (!) names ` set is" and "set cs \<subseteq> set names"
proof -
  note ok = read_core_ok [OF assms(1)]
  then show sub: "set cs \<subseteq> set names" by simp
  show "set cs = (!) names ` set is"
  proof (intro subset_antisym subsetI)
    fix x
    assume x: "x \<in> set cs"
    with sub obtain i where "index_of x names = Some i" using index_of_None [of x names] by (cases "index_of x names") auto
    with ok x index_of_Some [of x names i] show "x \<in> (!) names ` set is" by auto
  next
    fix x
    assume "x \<in> (!) names ` set is"
    with ok show "x \<in> set cs" by (auto dest!: index_of_Some)
  qed
qed

text \<open>The last step of both selections, for groups that correspond.\<close>

lemma same_choice:
  assumes "contract_ok c" and "read_tools names assignments [] vs = Some (ct_tools c)" and "\<not> dynamic s"
    and "\<And>t. t \<in> set (ct_tools c) \<Longrightarrow> names ! t_group t \<in> set selected \<longleftrightarrow> t_group t \<in> set groups"
  shows "case choose_tools (rev (map (\<lambda>t. (t_name t, names ! t_group t)) (ct_tools c))) vs (read_only_setting s)
        (firsts [] (entries (tools_setting s))) all selected of
      Err m \<Rightarrow> start_visibility c (known_names c) s (all, groups) = Err (Configuration m)
    | Ok f \<Rightarrow> \<exists>v. start_visibility c (known_names c) s (all, groups) = Ok v \<and> enabled_names v = visible f"
proof -
  let ?known = "rev (map (\<lambda>t. (t_name t, names ! t_group t)) (ct_tools c))"
  let ?ex = "firsts [] (entries (tools_setting s))"
  let ?P = "\<lambda>tool. (\<not> read_only_setting s \<or> read_only_tool tool) \<and>
    (all \<or> the (map_of ?known (tool_name_of tool)) \<in> set selected \<or> tool_name_of tool \<in> set ?ex)"
  let ?st = "initial_state (known_names c) s all groups ?ex"
  have dom: "map_of ?known n = None \<longleftrightarrow> n \<notin> set (known_names c)" for n
    by (auto simp: map_of_eq_None_iff known_names_def image_image)
  have group_of: "map_of ?known (t_name t) = Some (names ! t_group t)" if "t \<in> set (ct_tools c)" for t
    using that assms(1) by (subst map_of_eq_Some_iff)
      (auto simp: contract_ok_def known_names_def rev_map [symmetric] comp_def)
  have en: "st_enabled (?st t) = st_registered (?st t)" if "t \<in> set (ct_tools c)" for t
    using that assms(3) by (auto simp: initial_state_def Let_def known_names_def)
  have "list_all2 (\<lambda>v t. t \<in> set (ct_tools c) \<and> as_str (idx v ''name'') = Some (t_name t) \<and> t_read_only t = read_only_tool v) vs (ct_tools c)"
    using read_tools_ok [OF assms(2), THEN conjunct2, THEN conjunct2, THEN conjunct2, THEN conjunct2]
    by (simp add: list_all2_conv_all_nth)
  then have chosen: "map tool_name_of (filter ?P vs) = map t_name (filter (\<lambda>t. st_enabled (?st t)) (ct_tools c))"
    by (rule map_filter_related)
      (use group_of assms(3,4) in \<open>auto simp: tool_name_of_def initial_state_def Let_def known_names_def\<close>)
  then have "filter ?P vs = [] \<longleftrightarrow> filter (\<lambda>t. st_enabled (?st t)) (ct_tools c) = []"
    by (rule map_Nil_both)
  also have "\<dots> \<longleftrightarrow> \<not> list_ex st_registered (map ?st (ct_tools c))"
    using en by (auto simp: list_ex_iff filter_empty_conv)
  finally have "filter ?P vs = [] \<longleftrightarrow> \<not> list_ex st_registered (map ?st (ct_tools c))" .
  with chosen dom show ?thesis
    by (simp add: choose_tools_def start_visibility_def Let_def enabled_names_def zip_map_states)
qed



end
