(* ===== verification/Record_Impact.thy ===== *)
theory Record_Impact
  imports Prelude
begin

text \<open>
  The recording-impact veto, \<open>src/native/src/record_impact.rs\<close>: manual calls that may touch a
  recording pass through a registry that a Take consults before it acts on its own recording. A
  ticket reserved by a Take is ready only while no manual attempt that may have had an effect was
  made since; one attempt at most is in flight.

  The registry is one value behind a mutex. Every operation holds the lock for its whole body, so an
  operation is a function on the locked value, and a run is any sequence of operations. What lies
  outside is in the record \<open>impact_inner\<close>: the token of the session and whether it was invalidated, and
  whether the mutex is poisoned. Whether a weak reference can still be upgraded is an argument of
  each operation; it always can before the owner is dropped, and may still be for a moment after.
\<close>

section \<open>State\<close>

datatype Revocation = ExternalEffect | UnknownEffect | UnqualifiedRejection | AbandonedAttempt
  | Rev_OwnerGone | Rev_ConnectionClosed | Rev_Poisoned | Rev_IdentityExhausted

datatype ImpactStatus = Imp_Ready | Suspended u64 | Revoked Revocation

datatype ImpactError = Imp_OwnerGone | Imp_ConnectionClosed | WrongConnection | Imp_Capacity | StaleAttempt
  | Imp_Poisoned | Imp_IdentityExhausted | Imp_Deadline

record impact_state =
  imp_alive :: bool
  imp_terminal :: "Revocation option"
  last_id :: u64
  imp_pending :: "u64 option"
  revoked_through :: u64
  imp_reason :: Revocation
  revision :: u64

record impact_inner =
  imp_token :: u64
  imp_invalidated :: bool
  imp_poisoned :: bool
  imp_state :: impact_state
  imp_changed :: u64

text \<open>A weak reference is the identity of the registry it points to.\<close>

record RecordImpactView =
  view_inner :: nat
  view_token :: u64

record ManualRecordImpactPort =
  port_inner :: nat
  port_token :: u64

record TakeImpactTicket =
  ticket_inner :: nat
  epoch :: u64
  ticket_token :: u64

record ManualImpactAttempt =
  attempt_inner :: nat
  attempt_id :: u64
  attempt_settled :: bool

record ImpactChanges =
  changes_inner :: nat
  seen_revision :: u64

section \<open>The registry\<close>

definition with_imp :: "(impact_state \<Rightarrow> impact_state) \<Rightarrow> impact_inner \<Rightarrow> impact_inner" where
  "with_imp f i = i\<lparr>imp_state := f (imp_state i)\<rparr>"

definition advance :: "impact_inner \<Rightarrow> impact_inner" where
  "advance i =
     (let j = (case checked_add (revision (imp_state i)) 1 of
          Some n \<Rightarrow> with_imp (\<lambda>s. s\<lparr>revision := n\<rparr>) i
        | None \<Rightarrow> with_imp (\<lambda>s. s\<lparr>imp_terminal := Some Rev_IdentityExhausted, imp_pending := None\<rparr>) i)
      in j\<lparr>imp_changed := revision (imp_state j)\<rparr>)"

definition end_registry :: "Revocation \<Rightarrow> impact_inner \<Rightarrow> impact_inner" where
  "end_registry r i = advance (with_imp (\<lambda>s. s\<lparr>imp_terminal := Some r, imp_pending := None\<rparr>) i)"

definition terminal_error :: "Revocation \<Rightarrow> ImpactError" where
  "terminal_error r = (case r of Rev_Poisoned \<Rightarrow> Imp_Poisoned | Rev_IdentityExhausted \<Rightarrow> Imp_IdentityExhausted
     | _ \<Rightarrow> Imp_ConnectionClosed)"

definition close_if_invalidated :: "impact_inner \<Rightarrow> impact_inner" where
  "close_if_invalidated i =
     (if imp_invalidated i \<and> imp_terminal (imp_state i) = None then end_registry Rev_ConnectionClosed i else i)"

definition with_state :: "(impact_inner \<Rightarrow> (ImpactError, 'r) result \<times> impact_inner) \<Rightarrow> impact_inner \<Rightarrow>
    (ImpactError, 'r) result \<times> impact_inner" where
  "with_state f i =
     (if imp_poisoned i then (Err Imp_Poisoned, end_registry Rev_Poisoned i)
      else if \<not> imp_alive (imp_state i) then (Err Imp_OwnerGone, i)
      else (let j = close_if_invalidated i in
        case imp_terminal (imp_state j) of Some r \<Rightarrow> (Err (terminal_error r), j) | None \<Rightarrow> f j))"

definition upgraded :: "bool \<Rightarrow> (impact_inner \<Rightarrow> (ImpactError, 'r) result \<times> impact_inner) \<Rightarrow> impact_inner \<Rightarrow>
    (ImpactError, 'r) result \<times> impact_inner" where
  "upgraded up f i = (if up then f i else (Err Imp_OwnerGone, i))"

definition settled_state :: "u64 \<Rightarrow> Revocation option \<Rightarrow> impact_state \<Rightarrow> impact_state" where
  "settled_state n fate s = (case fate of None \<Rightarrow> s\<lparr>imp_pending := None\<rparr>
     | Some r \<Rightarrow> s\<lparr>imp_pending := None, revoked_through := n, imp_reason := r\<rparr>)"

definition settle :: "u64 \<Rightarrow> Revocation option \<Rightarrow> impact_inner \<Rightarrow> (ImpactError, unit) result \<times> impact_inner" where
  "settle n fate = with_state (\<lambda>i.
     if imp_pending (imp_state i) \<noteq> Some n then (Err StaleAttempt, i)
     else (Ok (), advance (with_imp (settled_state n fate) i)))"

section \<open>The owner, its views and ports\<close>

definition bind_impact :: "u64 \<Rightarrow> bool \<Rightarrow> (ImpactError, impact_inner) result" where
  "bind_impact token invalidated =
     (if invalidated then Err Imp_ConnectionClosed
      else Ok \<lparr>imp_token = token, imp_invalidated = False, imp_poisoned = False,
        imp_state = \<lparr>imp_alive = True, imp_terminal = None, last_id = 0, imp_pending = None,
          revoked_through = 0, imp_reason = ExternalEffect, revision = 0\<rparr>, imp_changed = 0\<rparr>)"

definition impact_view :: "nat \<Rightarrow> impact_inner \<Rightarrow> RecordImpactView" where
  "impact_view a i = \<lparr>view_inner = a, view_token = imp_token i\<rparr>"

definition manual_port :: "nat \<Rightarrow> impact_inner \<Rightarrow> ManualRecordImpactPort" where
  "manual_port a i = \<lparr>port_inner = a, port_token = imp_token i\<rparr>"

definition drop_owner :: "impact_inner \<Rightarrow> impact_inner" where
  "drop_owner i = advance (with_imp (\<lambda>s. s\<lparr>imp_alive := False, imp_pending := None\<rparr>) i)"

definition owns_ticket :: "RecordImpactView \<Rightarrow> TakeImpactTicket \<Rightarrow> bool" where
  "owns_ticket v t \<longleftrightarrow> view_token v = ticket_token t \<and> view_inner v = ticket_inner t"

definition reserve_take :: "bool \<Rightarrow> RecordImpactView \<Rightarrow> impact_inner \<Rightarrow>
    (ImpactError, TakeImpactTicket) result \<times> impact_inner" where
  "reserve_take up v = upgraded up (with_state (\<lambda>i.
     (if imp_pending (imp_state i) \<noteq> None then Err Imp_Capacity
      else Ok \<lparr>ticket_inner = view_inner v, epoch = last_id (imp_state i), ticket_token = view_token v\<rparr>, i)))"

definition open_changes :: "bool \<Rightarrow> RecordImpactView \<Rightarrow> impact_inner \<Rightarrow>
    (ImpactError, ImpactChanges) result \<times> impact_inner" where
  "open_changes up v = upgraded up (with_state (\<lambda>i.
     (Ok \<lparr>changes_inner = view_inner v, seen_revision = imp_changed i\<rparr>, i)))"

definition error_revocation :: "ImpactError \<Rightarrow> Revocation" where
  "error_revocation e = (case e of Imp_Poisoned \<Rightarrow> Rev_Poisoned | Imp_IdentityExhausted \<Rightarrow> Rev_IdentityExhausted
     | Imp_OwnerGone \<Rightarrow> Rev_OwnerGone | _ \<Rightarrow> Rev_ConnectionClosed)"

definition ticket_status :: "TakeImpactTicket \<Rightarrow> impact_state \<Rightarrow> ImpactStatus" where
  "ticket_status t s =
     (if revoked_through s > epoch t then Revoked (imp_reason s)
      else case imp_pending s of Some n \<Rightarrow> Suspended n | None \<Rightarrow> Imp_Ready)"

definition check_ticket :: "bool \<Rightarrow> TakeImpactTicket \<Rightarrow> impact_inner \<Rightarrow> ImpactStatus \<times> impact_inner" where
  "check_ticket up t i =
     (if \<not> up then (Revoked Rev_OwnerGone, i)
      else case with_state (\<lambda>j. (Ok (ticket_status t (imp_state j)), j)) i of
          (Ok status, j) \<Rightarrow> (status, j)
        | (Err e, j) \<Rightarrow> (Revoked (error_revocation e), j))"

definition check_connection :: "bool \<Rightarrow> ManualRecordImpactPort \<Rightarrow> u64 \<Rightarrow> impact_inner \<Rightarrow>
    (ImpactError, unit) result \<times> impact_inner" where
  "check_connection up p expected i =
     (if expected \<noteq> port_token p then (Err WrongConnection, i)
      else upgraded up (with_state (\<lambda>j. (Ok (), j))) i)"

text \<open>The end of a begun attempt: the revision may be used up by the very announcement.\<close>

definition begun :: "nat \<Rightarrow> u64 \<Rightarrow> impact_inner \<Rightarrow> (ImpactError, ManualImpactAttempt) result" where
  "begun a n i = (if imp_terminal (imp_state i) \<noteq> None then Err Imp_IdentityExhausted
     else Ok \<lparr>attempt_inner = a, attempt_id = n, attempt_settled = False\<rparr>)"

definition begin_body :: "nat \<Rightarrow> impact_inner \<Rightarrow> (ImpactError, ManualImpactAttempt) result \<times> impact_inner" where
  "begin_body a i =
     (if imp_pending (imp_state i) \<noteq> None then (Err Imp_Capacity, i)
      else case checked_add (last_id (imp_state i)) 1 of
          None \<Rightarrow> (Err Imp_IdentityExhausted, advance (with_imp (\<lambda>s. s\<lparr>imp_terminal := Some Rev_IdentityExhausted\<rparr>) i))
        | Some n \<Rightarrow> (let j = advance (with_imp (\<lambda>s. s\<lparr>last_id := n, imp_pending := Some n\<rparr>) i)
            in (begun a n j, j)))"

definition begin_at_send :: "bool \<Rightarrow> ManualRecordImpactPort \<Rightarrow> u64 \<Rightarrow> impact_inner \<Rightarrow>
    (ImpactError, ManualImpactAttempt) result \<times> impact_inner" where
  "begin_at_send up p expected i =
     (if expected \<noteq> port_token p then (Err WrongConnection, i)
      else upgraded up (with_state (begin_body (port_inner p))) i)"

text \<open>\<open>finish\<close> consumes the attempt; the drop that follows finds it settled.\<close>

definition drop_attempt :: "bool \<Rightarrow> ManualImpactAttempt \<Rightarrow> impact_inner \<Rightarrow> impact_inner" where
  "drop_attempt up a i =
     (if \<not> attempt_settled a \<and> up then snd (settle (attempt_id a) (Some AbandonedAttempt) i) else i)"

definition finish_attempt :: "bool \<Rightarrow> ManualImpactAttempt \<Rightarrow> Revocation option \<Rightarrow> impact_inner \<Rightarrow>
    (ImpactError, unit) result \<times> impact_inner" where
  "finish_attempt up a fate i =
     (let b = a\<lparr>attempt_settled := True\<rparr>; (r, j) = upgraded up (settle (attempt_id b) fate) i
      in (r, drop_attempt up b j))"

definition not_dispatched :: "bool \<Rightarrow> ManualImpactAttempt \<Rightarrow> impact_inner \<Rightarrow> (ImpactError, unit) result \<times> impact_inner" where
  "not_dispatched up a = finish_attempt up a None"

definition accepted :: "bool \<Rightarrow> ManualImpactAttempt \<Rightarrow> impact_inner \<Rightarrow> (ImpactError, unit) result \<times> impact_inner" where
  "accepted up a = finish_attempt up a (Some ExternalEffect)"

definition unknown :: "bool \<Rightarrow> ManualImpactAttempt \<Rightarrow> impact_inner \<Rightarrow> (ImpactError, unit) result \<times> impact_inner" where
  "unknown up a = finish_attempt up a (Some UnknownEffect)"

definition rejected_unqualified :: "bool \<Rightarrow> ManualImpactAttempt \<Rightarrow> impact_inner \<Rightarrow>
    (ImpactError, unit) result \<times> impact_inner" where
  "rejected_unqualified up a = finish_attempt up a (Some UnqualifiedRejection)"

text \<open>A wait for a change looks at the registry when it begins and again when it is woken; \<open>woken\<close> is
  what the watch receiver returned, \<open>None\<close> when its sender is gone.\<close>

definition look :: "bool \<Rightarrow> impact_inner \<Rightarrow> (ImpactError, unit) result \<times> impact_inner" where
  "look up = upgraded up (with_state (\<lambda>j. (Ok (), j)))"

definition changed_after :: "bool \<Rightarrow> bool \<Rightarrow> impact_inner \<Rightarrow> (ImpactError, unit) result \<times> impact_inner" where
  "changed_after up sender_gone i = (case look up i of (Err e, j) \<Rightarrow> (Err e, j)
     | (Ok _, j) \<Rightarrow> (if sender_gone then Err Imp_OwnerGone else Ok (), j))"

definition changed_until_enter :: "bool \<Rightarrow> nat \<Rightarrow> nat \<Rightarrow> impact_inner \<Rightarrow> (ImpactError, unit) result \<times> impact_inner" where
  "changed_until_enter up now deadline i = (case look up i of (Err e, j) \<Rightarrow> (Err e, j)
     | (Ok _, j) \<Rightarrow> if now \<ge> deadline then (Err Imp_Deadline, j) else look up j)"

definition changed_until_late :: "bool \<Rightarrow> impact_inner \<Rightarrow> (ImpactError, unit) result \<times> impact_inner" where
  "changed_until_late up i = (case look up i of (Err e, j) \<Rightarrow> (Err e, j) | (Ok _, j) \<Rightarrow> (Err Imp_Deadline, j))"

section \<open>Runs\<close>

text \<open>What happened, oldest first: tickets reserved, attempts begun, attempts settled with their fate
  (\<open>None\<close> for a frame that was never sent).\<close>

datatype impact_event = Reserved TakeImpactTicket | Began u64 | Ended u64 "Revocation option"

record impact_world =
  registry :: impact_inner
  attempts :: "ManualImpactAttempt list"
  history :: "impact_event list"

definition ended :: "ManualImpactAttempt \<Rightarrow> Revocation option \<Rightarrow> (ImpactError, unit) result \<Rightarrow> impact_event list" where
  "ended a fate r = (if is_ok r then [Ended (attempt_id a) fate] else [])"

text \<open>Any holder of a view, a port, a ticket or an attempt may call at any time. An attempt is used
  once: it is finished or dropped. The session may be invalidated, the lock poisoned and the owner
  dropped at any moment.\<close>

inductive impact_step :: "nat \<Rightarrow> impact_world \<Rightarrow> impact_world \<Rightarrow> bool" for a where
  reserves: "imp_alive (imp_state (registry w)) \<longrightarrow> up \<Longrightarrow> view_inner v = a \<Longrightarrow>
    reserve_take up v (registry w) = (Ok t, i) \<Longrightarrow>
    impact_step a w (w\<lparr>registry := i, history := history w @ [Reserved t]\<rparr>)"
| reserve_fails: "imp_alive (imp_state (registry w)) \<longrightarrow> up \<Longrightarrow> reserve_take up v (registry w) = (Err e, i) \<Longrightarrow>
    impact_step a w (w\<lparr>registry := i\<rparr>)"
| checks: "imp_alive (imp_state (registry w)) \<longrightarrow> up \<Longrightarrow> check_ticket up t (registry w) = (status, i) \<Longrightarrow>
    impact_step a w (w\<lparr>registry := i\<rparr>)"
| begins: "imp_alive (imp_state (registry w)) \<longrightarrow> up \<Longrightarrow> port_inner p = a \<Longrightarrow>
    begin_at_send up p expected (registry w) = (Ok m, i) \<Longrightarrow>
    impact_step a w (w\<lparr>registry := i, attempts := m # attempts w, history := history w @ [Began (attempt_id m)]\<rparr>)"
| begin_fails: "imp_alive (imp_state (registry w)) \<longrightarrow> up \<Longrightarrow>
    begin_at_send up p expected (registry w) = (Err e, i) \<Longrightarrow> impact_step a w (w\<lparr>registry := i\<rparr>)"
| finishes: "imp_alive (imp_state (registry w)) \<longrightarrow> up \<Longrightarrow> m \<in> set (attempts w) \<Longrightarrow>
    finish_attempt up m fate (registry w) = (r, i) \<Longrightarrow>
    impact_step a w (w\<lparr>registry := i, attempts := remove1 m (attempts w), history := history w @ ended m fate r\<rparr>)"
| drops: "imp_alive (imp_state (registry w)) \<longrightarrow> up \<Longrightarrow> m \<in> set (attempts w) \<Longrightarrow>
    upgraded up (settle (attempt_id m) (Some AbandonedAttempt)) (registry w) = (r, j) \<Longrightarrow>
    drop_attempt up m (registry w) = i \<Longrightarrow>
    impact_step a w (w\<lparr>registry := i, attempts := remove1 m (attempts w),
      history := history w @ ended m (Some AbandonedAttempt) r\<rparr>)"
| looks: "imp_alive (imp_state (registry w)) \<longrightarrow> up \<Longrightarrow> look up (registry w) = (r, i) \<Longrightarrow>
    impact_step a w (w\<lparr>registry := i\<rparr>)"
| invalidates: "impact_step a w (w\<lparr>registry := (registry w)\<lparr>imp_invalidated := True\<rparr>\<rparr>)"
| poisons: "impact_step a w (w\<lparr>registry := (registry w)\<lparr>imp_poisoned := True\<rparr>\<rparr>)"
| owner_drops: "impact_step a w (w\<lparr>registry := drop_owner (registry w)\<rparr>)"

definition impact_start :: "impact_inner \<Rightarrow> impact_world" where
  "impact_start i = \<lparr>registry = i, attempts = [], history = []\<rparr>"

text \<open>What the history says of a ticket: the effects since its reservation, and the attempt that is
  in flight.\<close>

fun effects :: "impact_event list \<Rightarrow> Revocation list" where
  "effects [] = []"
| "effects (Ended n (Some r) # es) = r # effects es"
| "effects (_ # es) = effects es"

fun in_flight :: "u64 option \<Rightarrow> impact_event list \<Rightarrow> u64 option" where
  "in_flight p [] = p"
| "in_flight p (Began n # es) = in_flight (Some n) es"
| "in_flight p (Ended n f # es) = in_flight None es"
| "in_flight p (Reserved t # es) = in_flight p es"

definition told :: "impact_event list \<Rightarrow> ImpactStatus" where
  "told es = (if effects es \<noteq> [] then Revoked (last (effects es))
     else case in_flight None es of Some n \<Rightarrow> Suspended n | None \<Rightarrow> Imp_Ready)"

text \<open>The registry can answer: its owner lives, the lock and the session are sound, no identity ran
  out.\<close>

definition answering :: "bool \<Rightarrow> impact_inner \<Rightarrow> bool" where
  "answering up i \<longleftrightarrow> up \<and> \<not> imp_poisoned i \<and> imp_alive (imp_state i) \<and> \<not> imp_invalidated i \<and> imp_terminal (imp_state i) = None"

abbreviation open_registry :: "impact_inner \<Rightarrow> bool" where
  "open_registry i \<equiv> imp_alive (imp_state i) \<and> imp_terminal (imp_state i) = None"

definition ticket_ok :: "impact_state \<Rightarrow> TakeImpactTicket \<Rightarrow> impact_event list \<Rightarrow> impact_event list \<Rightarrow> bool" where
  "ticket_ok s t bs es \<longleftrightarrow> in_flight None bs = None \<and> epoch t \<le> last_id s \<and>
     (imp_pending s \<noteq> None \<longrightarrow> epoch t < last_id s) \<and>
     (revoked_through s > epoch t \<longleftrightarrow> effects es \<noteq> []) \<and>
     (effects es \<noteq> [] \<longrightarrow> imp_reason s = last (effects es))"

definition history_ok :: "impact_state \<Rightarrow> impact_event list \<Rightarrow> bool" where
  "history_ok s h \<longleftrightarrow> imp_pending s = in_flight None h \<and> (\<forall>n. imp_pending s = Some n \<longrightarrow> n = last_id s) \<and>
     revoked_through s \<le> last_id s \<and> (\<forall>bs t es. h = bs @ Reserved t # es \<longrightarrow> ticket_ok s t bs es)"

definition impact_inv :: "impact_world \<Rightarrow> bool" where
  "impact_inv w \<longleftrightarrow> imp_changed (registry w) = revision (imp_state (registry w)) \<and> length (attempts w) \<le> 1 \<and>
     (\<forall>m \<in> set (attempts w). \<not> attempt_settled m) \<and>
     (open_registry (registry w) \<longrightarrow> history_ok (imp_state (registry w)) (history w) \<and>
        map attempt_id (attempts w) = (case imp_pending (imp_state (registry w)) of None \<Rightarrow> [] | Some n \<Rightarrow> [n]))"

section \<open>Every run keeps the invariant\<close>

abbreviation announced :: "impact_inner \<Rightarrow> bool" where
  "announced i \<equiv> imp_changed i = revision (imp_state i)"

lemma with_imp_simps [simp]:
  "imp_state (with_imp f i) = f (imp_state i)"
  "imp_poisoned (with_imp f i) = imp_poisoned i"
  "imp_invalidated (with_imp f i) = imp_invalidated i"
  by (simp_all add: with_imp_def)

lemma advance_announces [simp]: "announced (advance i)"
  by (simp add: advance_def Let_def)

lemma advance_world [simp]:
  "imp_poisoned (advance i) = imp_poisoned i" "imp_invalidated (advance i) = imp_invalidated i"
  "imp_alive (imp_state (advance i)) = imp_alive (imp_state i)"
  by (simp_all add: advance_def Let_def split: option.split)

lemma advance_terminal: "imp_terminal (imp_state i) \<noteq> None \<Longrightarrow> imp_terminal (imp_state (advance i)) \<noteq> None"
  by (simp add: advance_def Let_def split: option.split)

lemma advance_open:
  assumes "open_registry (advance i)"
  shows "\<exists>n. imp_state (advance i) = (imp_state i)\<lparr>revision := n\<rparr>"
  using assms by (auto simp: advance_def Let_def split: option.splits)

lemma end_registry_shut [simp]: "announced (end_registry r i)" "\<not> open_registry (end_registry r i)"
  using advance_terminal [of "with_imp (\<lambda>s. s\<lparr>imp_terminal := Some r, imp_pending := None\<rparr>) i"]
  by (simp_all add: end_registry_def)

lemma end_registry_terminal [simp]:
  "\<exists>q. imp_terminal (imp_state (end_registry r i)) = Some q" "imp_terminal (imp_state (end_registry r i)) \<noteq> None"
  using advance_terminal [of "with_imp (\<lambda>s. s\<lparr>imp_terminal := Some r, imp_pending := None\<rparr>) i"]
  by (simp_all add: end_registry_def)

text \<open>Either the body ran on an answering registry, or the call failed and left the registry shut.\<close>

lemma with_state_cases:
  assumes "with_state f i = (r, j)" and "announced i"
  obtains "answering True i" "f i = (r, j)"
    | e where "r = Err e" "\<not> open_registry j" "announced j" "\<not> answering True i"
proof (cases "answering True i")
  case True
  then show ?thesis
    using assms(1) that(1) by (simp add: with_state_def answering_def close_if_invalidated_def)
next
  case False
  then have "is_ok r = False \<and> \<not> open_registry j \<and> announced j"
    using assms by (auto simp: with_state_def answering_def close_if_invalidated_def Let_def
        split: if_splits option.splits)
  then show ?thesis
    using that(2) False by (cases r) auto
qed

lemma upgraded_cases:
  assumes "upgraded up (with_state f) i = (r, j)" and "announced i" and "imp_alive (imp_state i) \<longrightarrow> up"
  obtains "answering up i" "f i = (r, j)"
    | e where "r = Err e" "\<not> open_registry j" "announced j" "\<not> answering up i"
proof (cases up)
  case True
  then have "with_state f i = (r, j)"
    using assms(1) by (simp add: upgraded_def)
  from this assms(2) True that show ?thesis
    by (elim with_state_cases) auto
next
  case False
  then show ?thesis
    using assms that(2) by (auto simp: upgraded_def answering_def)
qed

text \<open>A history one event longer either ends with the new ticket, or the event came after it.\<close>

lemma snoc_ticket:
  assumes "h @ [e] = bs @ Reserved t # es"
  obtains "e = Reserved t" "bs = h" "es = []"
    | es' where "es = es' @ [e]" "h = bs @ Reserved t # es'"
  using assms by (cases es rule: rev_cases) auto

lemma in_flight_append [simp]: "in_flight p (xs @ ys) = in_flight (in_flight p xs) ys"
  by (induction xs arbitrary: p rule: effects.induct) simp_all

lemma effects_append [simp]: "effects (xs @ ys) = effects xs @ effects ys"
  by (induction xs rule: effects.induct) simp_all

lemma history_ok_revision [simp]: "history_ok (s\<lparr>revision := n\<rparr>) h = history_ok s h"
  by (simp add: history_ok_def ticket_ok_def)

lemma history_ok_reserved:
  assumes "history_ok s h" and "imp_pending s = None" and "epoch t = last_id s"
  shows "history_ok s (h @ [Reserved t])"
  unfolding history_ok_def
proof (intro conjI allI impI)
  fix bs u es assume "h @ [Reserved t] = bs @ Reserved u # es"
  then show "ticket_ok s u bs es"
    using assms by (elim snoc_ticket) (auto simp: history_ok_def ticket_ok_def leD)
qed (use assms in \<open>auto simp: history_ok_def\<close>)

lemma ticket_ok_began:
  "ticket_ok s t bs es \<Longrightarrow> last_id s < n \<Longrightarrow> ticket_ok (s\<lparr>last_id := n, imp_pending := Some n\<rparr>) t bs (es @ [Began n])"
  by (auto simp: ticket_ok_def)

lemma history_ok_began:
  assumes "history_ok s h" and "imp_pending s = None" and "checked_add (last_id s) 1 = Some n"
  shows "history_ok (s\<lparr>last_id := n, imp_pending := Some n\<rparr>) (h @ [Began n])"
  unfolding history_ok_def
proof (intro conjI allI impI)
  have less: "last_id s < n"
    using assms(3) by (simp add: checked_add_Some_iff word_less_nat_alt)
  then show "revoked_through (s\<lparr>last_id := n, imp_pending := Some n\<rparr>) \<le> last_id (s\<lparr>last_id := n, imp_pending := Some n\<rparr>)"
    using assms(1) by (auto simp: history_ok_def)
  fix bs u es assume "h @ [Began n] = bs @ Reserved u # es"
  then show "ticket_ok (s\<lparr>last_id := n, imp_pending := Some n\<rparr>) u bs es"
    using assms(1) ticket_ok_began [OF _ less] by (elim snoc_ticket) (auto simp: history_ok_def)
qed (use assms in \<open>auto simp: history_ok_def\<close>)

lemma settled_state_world [simp]:
  "imp_alive (settled_state n fate s) = imp_alive s" "imp_terminal (settled_state n fate s) = imp_terminal s"
  "imp_pending (settled_state n fate s) = None" "last_id (settled_state n fate s) = last_id s"
  by (simp_all add: settled_state_def split: option.split)

lemma history_ok_ended:
  assumes "history_ok s h" and "imp_pending s = Some n"
  shows "history_ok (settled_state n fate s) (h @ [Ended n fate])"
  unfolding history_ok_def
proof (intro conjI allI impI)
  have n: "n = last_id s"
    using assms by (simp add: history_ok_def)
  then show "revoked_through (settled_state n fate s) \<le> last_id (settled_state n fate s)"
    using assms(1) by (simp add: history_ok_def settled_state_def split: option.split)
  fix bs u es assume "h @ [Ended n fate] = bs @ Reserved u # es"
  then show "ticket_ok (settled_state n fate s) u bs es"
    using assms n by (elim snoc_ticket; cases fate) (auto simp: history_ok_def ticket_ok_def settled_state_def)
qed simp_all

lemma impact_inv_shut:
  assumes "impact_inv w" and "\<not> open_registry i" and "announced i" and "attempts w' = [] \<or> attempts w' = attempts w"
    and "registry w' = i"
  shows "impact_inv w'"
  using assms unfolding impact_inv_def by (elim disjE) auto

lemma impact_inv_advance:
  assumes "open_registry (advance i) \<Longrightarrow> history_ok (imp_state i) (history w) \<and>
      map attempt_id (attempts w) = (case imp_pending (imp_state i) of None \<Rightarrow> [] | Some n \<Rightarrow> [n])"
    and "length (attempts w) \<le> 1" and "\<forall>m \<in> set (attempts w). \<not> attempt_settled m" and "registry w = advance i"
  shows "impact_inv w"
proof -
  have "history_ok (imp_state (advance i)) (history w) \<and>
      map attempt_id (attempts w) = (case imp_pending (imp_state (advance i)) of None \<Rightarrow> [] | Some n \<Rightarrow> [n])"
    if "open_registry (advance i)"
    using assms(1) [OF that] advance_open [OF that] by auto
  then show ?thesis
    using assms(2-4) by (simp add: impact_inv_def)
qed

lemma one_attempt:
  assumes "impact_inv w" and "m \<in> set (attempts w)"
  shows "attempts w = [m]" and "\<not> attempt_settled m"
  using assms by (auto simp: impact_inv_def length_Suc_conv le_Suc_eq)

text \<open>An attempt that is still held is the one in flight, so it settles; it is never stale.\<close>

lemma settle_held:
  assumes inv: "impact_inv w" and m: "m \<in> set (attempts w)" and up: "imp_alive (imp_state (registry w)) \<longrightarrow> up"
    and step: "upgraded up (settle (attempt_id m) fate) (registry w) = (r, i)"
  shows "impact_inv (w\<lparr>registry := i, attempts := remove1 m (attempts w), history := history w @ ended m fate r\<rparr>)"
    and "answering up (registry w) \<Longrightarrow> r = Ok ()"
proof -
  have "impact_inv (w\<lparr>registry := i, attempts := remove1 m (attempts w), history := history w @ ended m fate r\<rparr>) \<and>
    (answering up (registry w) \<longrightarrow> r = Ok ())"
    using step [unfolded settle_def] _ up
  proof (rule upgraded_cases)
    show "announced (registry w)"
      using inv by (simp add: impact_inv_def)
    assume ans: "answering up (registry w)" and body: "(if imp_pending (imp_state (registry w)) \<noteq> Some (attempt_id m)
      then (Err StaleAttempt, registry w)
      else (Ok (), advance (with_imp (settled_state (attempt_id m) fate) (registry w)))) = (r, i)"
    have hist: "history_ok (imp_state (registry w)) (history w)"
      and pend: "imp_pending (imp_state (registry w)) = Some (attempt_id m)"
      using inv ans one_attempt [OF inv m] by (auto simp: impact_inv_def answering_def split: option.splits)
    then have r: "r = Ok ()" "i = advance (with_imp (settled_state (attempt_id m) fate) (registry w))"
      using body by auto
    have "impact_inv (w\<lparr>registry := i, attempts := remove1 m (attempts w), history := history w @ ended m fate r\<rparr>)"
      by (rule impact_inv_advance [where i = "with_imp (settled_state (attempt_id m) fate) (registry w)"])
        (use r history_ok_ended [OF hist pend] one_attempt [OF inv m] in \<open>simp_all add: ended_def\<close>)
    then show ?thesis
      using r by simp
  next
    fix e assume "r = Err e" "\<not> open_registry i" "announced i" "\<not> answering up (registry w)"
    then show ?thesis
      using impact_inv_shut [OF inv] one_attempt [OF inv m] by simp
  qed
  then show "impact_inv (w\<lparr>registry := i, attempts := remove1 m (attempts w), history := history w @ ended m fate r\<rparr>)"
    and "answering up (registry w) \<Longrightarrow> r = Ok ()" by auto
qed

lemma bind_inv: "bind_impact token gone = Ok i \<Longrightarrow> impact_inv (impact_start i)"
  by (auto simp: bind_impact_def impact_start_def impact_inv_def history_ok_def split: if_splits)

lemma impact_inv_reserved:
  assumes inv: "impact_inv w" and "imp_alive (imp_state (registry w)) \<longrightarrow> up" and "reserve_take up v (registry w) = (Ok t, i)"
  shows "impact_inv (w\<lparr>registry := i, history := history w @ [Reserved t]\<rparr>)"
    and "answering up (registry w)" and "i = registry w"
proof -
  have *: "announced (registry w)" using inv by (simp add: impact_inv_def)
  from assms(3) [unfolded reserve_take_def] * assms(2)
  have "answering up (registry w) \<and> i = registry w \<and> imp_pending (imp_state i) = None \<and> epoch t = last_id (imp_state i)"
    by (rule upgraded_cases) (auto split: if_splits)
  then show "answering up (registry w)" "i = registry w"
    and "impact_inv (w\<lparr>registry := i, history := history w @ [Reserved t]\<rparr>)"
    using inv history_ok_reserved by (auto simp: impact_inv_def)
qed

lemma impact_inv_begun:
  assumes inv: "impact_inv w" and "imp_alive (imp_state (registry w)) \<longrightarrow> up"
    and "begin_at_send up p expected (registry w) = (Ok m, i)"
  shows "impact_inv (w\<lparr>registry := i, attempts := m # attempts w, history := history w @ [Began (attempt_id m)]\<rparr>)"
proof -
  have *: "announced (registry w)" using inv by (simp add: impact_inv_def)
  have "upgraded up (with_state (begin_body (port_inner p))) (registry w) = (Ok m, i)"
    using assms(3) by (simp add: begin_at_send_def split: if_splits)
  from this * assms(2)
  have "\<exists>n. answering up (registry w) \<and> imp_pending (imp_state (registry w)) = None \<and>
      checked_add (last_id (imp_state (registry w))) 1 = Some n \<and> attempt_id m = n \<and> \<not> attempt_settled m \<and>
      i = advance (with_imp (\<lambda>s. s\<lparr>last_id := n, imp_pending := Some n\<rparr>) (registry w))"
    by (rule upgraded_cases) (auto simp: begin_body_def Let_def begun_def split: if_splits option.splits)
  then obtain n where n: "answering up (registry w)" "imp_pending (imp_state (registry w)) = None"
    "checked_add (last_id (imp_state (registry w))) 1 = Some n" "attempt_id m = n" "\<not> attempt_settled m"
    "i = advance (with_imp (\<lambda>s. s\<lparr>last_id := n, imp_pending := Some n\<rparr>) (registry w))" by blast
  moreover have "history_ok (imp_state (registry w)) (history w)" "attempts w = []"
    using inv n(1,2) by (auto simp: impact_inv_def answering_def)
  ultimately show ?thesis
    using history_ok_began [of "imp_state (registry w)" "history w" n]
    by (intro impact_inv_advance [where i = "with_imp (\<lambda>s. s\<lparr>last_id := n, imp_pending := Some n\<rparr>) (registry w)"]) simp_all
qed

text \<open>A call that reserves, begins and settles nothing leaves the registry as it was, or shut.\<close>

lemma quiet_inv:
  assumes "impact_inv w" and "i = registry w \<or> \<not> open_registry i \<and> announced i"
  shows "impact_inv (w\<lparr>registry := i\<rparr>)"
  using assms(2)
proof
  assume "i = registry w"
  then show ?thesis using assms(1) by simp
next
  assume "\<not> open_registry i \<and> announced i"
  then show ?thesis by (intro impact_inv_shut [OF assms(1), of i]) simp_all
qed

lemma reading_quiet:
  assumes "upgraded up (with_state (\<lambda>j. (g j, j))) i = (r, k)" and "announced i" and "imp_alive (imp_state i) \<longrightarrow> up"
  shows "k = i \<or> \<not> open_registry k \<and> announced k"
  using assms by (rule upgraded_cases) auto

lemma check_quiet:
  assumes "check_ticket up t i = (status, k)" and "announced i" and "imp_alive (imp_state i) \<longrightarrow> up"
  shows "k = i \<or> \<not> open_registry k \<and> announced k"
proof (cases up)
  case True
  then obtain r where "upgraded up (with_state (\<lambda>j. (Ok (ticket_status t (imp_state j)), j))) i = (r, k)"
    using assms(1) by (auto simp: check_ticket_def upgraded_def split: prod.splits sum.splits)
  then show ?thesis
    using assms(2,3) by (rule reading_quiet)
next
  case False
  then show ?thesis
    using assms(1) by (simp add: check_ticket_def)
qed

lemma begin_quiet:
  assumes "begin_at_send up p expected i = (Err e, k)" and "announced i" and "imp_alive (imp_state i) \<longrightarrow> up"
  shows "k = i \<or> \<not> open_registry k \<and> announced k"
proof (cases "expected = port_token p")
  case True
  with assms(1) have "upgraded up (with_state (begin_body (port_inner p))) i = (Err e, k)"
    by (simp add: begin_at_send_def)
  then show ?thesis
    using assms(2,3) by (rule upgraded_cases)
      (use advance_terminal [of "with_imp (\<lambda>s. s\<lparr>imp_terminal := Some Rev_IdentityExhausted\<rparr>) i"] in
        \<open>auto simp: begin_body_def Let_def begun_def split: if_splits option.splits\<close>)
next
  case False
  with assms(1) show ?thesis by (simp add: begin_at_send_def)
qed

lemma impact_step_inv: "impact_step a w w' \<Longrightarrow> impact_inv w \<Longrightarrow> impact_inv w'"
proof (induction rule: impact_step.induct)
  case (finishes w up m fate r i)
  then have "upgraded up (settle (attempt_id m) fate) (registry w) = (r, i)"
    by (simp add: finish_attempt_def drop_attempt_def Let_def split: prod.splits)
  with finishes show ?case by (intro settle_held(1)) auto
next
  case (drops w up m r j i)
  then have "i = j"
    using one_attempt(2) [OF drops.prems drops.hyps(2)] by (auto simp: drop_attempt_def upgraded_def)
  with drops show ?case by (intro settle_held(1)) auto
next
  case (owner_drops w)
  then show ?case by (intro quiet_inv) (simp_all add: drop_owner_def)
next
  case (reserves w up v t i)
  then show ?case by (intro impact_inv_reserved(1))
next
  case (begins w up p expected m i)
  then show ?case by (intro impact_inv_begun)
next
  case (reserve_fails w up v e i)
  then show ?case
    by (intro quiet_inv reading_quiet) (auto simp: reserve_take_def impact_inv_def)
next
  case (looks w up r i)
  then show ?case
    by (intro quiet_inv reading_quiet) (auto simp: look_def impact_inv_def)
next
  case (checks w up t status i)
  then show ?case by (intro quiet_inv check_quiet) (auto simp: impact_inv_def)
next
  case (begin_fails w up p expected e i)
  then show ?case by (intro quiet_inv begin_quiet) (auto simp: impact_inv_def)
qed (simp_all add: impact_inv_def)

lemma impact_reachable_inv:
  assumes "(impact_step a)\<^sup>*\<^sup>* (impact_start i) w" and "bind_impact token gone = Ok i"
  shows "impact_inv w"
  using assms(1) by induction (use bind_inv [OF assms(2)] impact_step_inv in blast)+

section \<open>What a ticket tells\<close>

lemma check_ticket_shut:
  assumes "\<not> answering up i" and "announced i"
  shows "\<exists>r. fst (check_ticket up t i) = Revoked r"
proof (cases up)
  case True
  obtain r j where ws: "with_state (\<lambda>j. (Ok (ticket_status t (imp_state j)), j)) i = (r, j)"
    by (metis surj_pair)
  then show ?thesis
    using assms(2) by (rule with_state_cases) (use assms True ws in \<open>auto simp: check_ticket_def answering_def\<close>)
qed (simp add: check_ticket_def)

lemma check_ticket_open: "answering up i \<Longrightarrow> fst (check_ticket up t i) = ticket_status t (imp_state i)"
  by (simp add: check_ticket_def with_state_def answering_def close_if_invalidated_def)

lemma ticket_status_told:
  assumes "impact_inv w" and "answering up (registry w)" and "history w = bs @ Reserved t # es"
  shows "ticket_status t (imp_state (registry w)) = told es"
proof -
  have "history_ok (imp_state (registry w)) (history w)"
    using assms(1,2) by (auto simp: impact_inv_def answering_def)
  then show ?thesis
    using assms(3) by (auto simp: history_ok_def ticket_ok_def ticket_status_def told_def)
qed

lemma ticket_read:
  assumes "impact_inv w" and "history w = bs @ Reserved t # es"
  shows "if answering up (registry w) then fst (check_ticket up t (registry w)) = told es
    else \<exists>r. fst (check_ticket up t (registry w)) = Revoked r"
  using check_ticket_open ticket_status_told [OF assms(1) _ assms(2)] check_ticket_shut assms(1)
  by (auto simp: impact_inv_def)

text \<open>A shut registry stays shut, and the history only grows.\<close>

lemma upgraded_shut:
  assumes "upgraded up (with_state f) i = (r, j)" and "announced i" and "imp_alive (imp_state i) \<longrightarrow> up"
    and "answering True j"
  shows "answering True i"
  using assms(1-3) by (rule upgraded_cases) (use assms(4) in \<open>auto simp: answering_def\<close>)

lemma quiet_shut: "j = i \<or> \<not> open_registry j \<and> announced j \<Longrightarrow> answering True j \<Longrightarrow> answering True i"
  by (auto simp: answering_def)

lemma impact_step_grows:
  assumes "impact_step a w w'" and "impact_inv w"
  shows "(\<exists>es. history w' = history w @ es) \<and> (answering True (registry w') \<longrightarrow> answering True (registry w))"
  using assms
proof (induction rule: impact_step.induct)
  case (finishes w up m fate r i)
  then have "upgraded up (settle (attempt_id m) fate) (registry w) = (r, i)"
    by (simp add: finish_attempt_def drop_attempt_def Let_def split: prod.splits)
  with finishes show ?case unfolding settle_def by (auto simp: impact_inv_def dest: upgraded_shut)
next
  case (drops w up m r j i)
  then have "i = j"
    using one_attempt(2) [OF drops.prems drops.hyps(2)] by (auto simp: drop_attempt_def upgraded_def)
  with drops show ?case unfolding settle_def by (auto simp: impact_inv_def dest: upgraded_shut)
next
  case (begins w up p expected m i)
  then have "upgraded up (with_state (begin_body (port_inner p))) (registry w) = (Ok m, i)"
    by (simp add: begin_at_send_def split: if_splits)
  with begins show ?case by (auto simp: impact_inv_def dest: upgraded_shut)
next
  case (begin_fails w up p expected e i)
  then show ?case using begin_quiet [of up p expected "registry w" e i] quiet_shut by (auto simp: impact_inv_def)
next
  case (checks w up t status i)
  then show ?case using check_quiet [of up t "registry w" status i] quiet_shut by (auto simp: impact_inv_def)
next
  case (owner_drops w)
  then show ?case by (simp add: drop_owner_def answering_def)
qed (auto simp: reserve_take_def look_def impact_inv_def answering_def dest: upgraded_shut)

lemma impact_run_grows:
  assumes "(impact_step a)\<^sup>*\<^sup>* w w'" and "impact_inv w"
  shows "impact_inv w'" and "\<exists>es. history w' = history w @ es"
    and "answering True (registry w') \<Longrightarrow> answering True (registry w)"
proof -
  have "impact_inv w' \<and> (\<exists>es. history w' = history w @ es) \<and>
      (answering True (registry w') \<longrightarrow> answering True (registry w))"
    using assms(1)
  proof induction
    case (step u v)
    with impact_step_inv [of a u v] impact_step_grows [of a u v] show ?case by fastforce
  qed (use assms(2) in simp)
  then show "impact_inv w'" and "\<exists>es. history w' = history w @ es"
    and "answering True (registry w') \<Longrightarrow> answering True (registry w)" by auto
qed

lemma told_revoked: "told es = Revoked r \<Longrightarrow> \<exists>q. told (es @ fs) = Revoked q"
  by (auto simp: told_def split: if_splits option.splits)

text \<open>C39: A ticket answers for the history. At every point of every run of a bound registry, a ticket
  reserved earlier reads exactly what happened since: the reason of the last attempt that may have
  had an effect, else the attempt in flight, else ready. When the registry cannot answer (its owner
  is gone, its lock poisoned, its session invalid or an identity used up) the ticket is revoked; it
  never reads ready or suspended then.\<close>

theorem ticket_tells_history:
  assumes "bind_impact token gone = Ok i" and "(impact_step a)\<^sup>*\<^sup>* (impact_start i) w"
    and "history w = before @ Reserved t # since"
  shows "if answering up (registry w) then fst (check_ticket up t (registry w)) = told since
    else \<exists>r. fst (check_ticket up t (registry w)) = Revoked r"
  using assms(3) by (rule ticket_read [OF impact_reachable_inv [OF assms(2,1)]])

text \<open>A revoked ticket stays revoked. Once a reserved ticket reads revoked, it reads revoked after
  every further sequence of calls, whatever other tickets and attempts do.\<close>

lemma revocation_permanent:
  assumes "bind_impact token gone = Ok i" and "(impact_step a)\<^sup>*\<^sup>* (impact_start i) w"
    and "Reserved t \<in> set (history w)" and "imp_alive (imp_state (registry w)) \<longrightarrow> up"
    and "fst (check_ticket up t (registry w)) = Revoked r" and "(impact_step a)\<^sup>*\<^sup>* w w'"
  shows "\<exists>q. fst (check_ticket up' t (registry w')) = Revoked q"
proof -
  obtain bs es where h: "history w = bs @ Reserved t # es"
    using assms(3) by (meson split_list)
  have inv: "impact_inv w" by (rule impact_reachable_inv [OF assms(2,1)])
  obtain fs where h': "history w' = bs @ Reserved t # es @ fs"
    using impact_run_grows(2) [OF assms(6) inv] h by auto
  have "\<exists>q. told (es @ fs) = Revoked q" if "answering up' (registry w')"
  proof -
    have "answering up (registry w)"
      using that assms(4) impact_run_grows(3) [OF assms(6) inv] by (auto simp: answering_def)
    then show ?thesis
      using ticket_read [OF inv h, of up] assms(5) told_revoked [of es r fs] by simp
  qed
  then show ?thesis
    using ticket_read [OF impact_run_grows(1) [OF assms(6) inv] h', of up'] by (auto split: if_splits)
qed

section \<open>A sample run\<close>

definition sample_impact :: impact_inner where
  "sample_impact = (case bind_impact 7 False of Ok i \<Rightarrow> i | Err e \<Rightarrow> undefined)"

definition sample_ticket :: TakeImpactTicket where
  "sample_ticket = \<lparr>ticket_inner = 0, epoch = 0, ticket_token = 7\<rparr>"

definition sample_attempt :: ManualImpactAttempt where
  "sample_attempt = \<lparr>attempt_inner = 0, attempt_id = 1, attempt_settled = False\<rparr>"

definition sample_begun :: impact_inner where
  "sample_begun = snd (begin_at_send True (manual_port 0 sample_impact) 7 sample_impact)"

definition sample_touched :: impact_inner where
  "sample_touched = snd (finish_attempt True sample_attempt (Some ExternalEffect) sample_begun)"

definition sample_history :: "impact_event list" where
  "sample_history = [Reserved sample_ticket, Began 1, Ended 1 (Some ExternalEffect)]"

definition sample_impact_world :: impact_world where
  "sample_impact_world = \<lparr>registry = sample_touched, attempts = [], history = sample_history\<rparr>"

lemma small_sums: "checked_add (0 :: u64) 1 = Some 1" "checked_add (1 :: u64) 1 = Some 2"
  by (simp_all add: checked_add_Some_iff)

lemmas impact_run_simps = small_sums sample_impact_def sample_begun_def sample_touched_def sample_ticket_def
  sample_attempt_def bind_impact_def impact_view_def manual_port_def reserve_take_def begin_at_send_def
  begin_body_def begun_def finish_attempt_def drop_attempt_def settle_def settled_state_def upgraded_def
  with_state_def close_if_invalidated_def advance_def with_imp_def check_ticket_def ticket_status_def answering_def

lemma sample_impact_bound: "bind_impact 7 False = Ok sample_impact"
  by (simp add: sample_impact_def bind_impact_def)

lemma sample_impact_run: "(impact_step 0)\<^sup>*\<^sup>* (impact_start sample_impact) sample_impact_world"
proof -
  let ?w = "\<lparr>registry = sample_impact, attempts = [], history = [Reserved sample_ticket]\<rparr>"
  let ?u = "\<lparr>registry = sample_begun, attempts = [sample_attempt], history = [Reserved sample_ticket, Began 1]\<rparr>"
  have "reserve_take True (impact_view 0 sample_impact) sample_impact = (Ok sample_ticket, sample_impact)"
    by (simp add: impact_run_simps)
  then have "impact_step 0 (impact_start sample_impact) ?w"
    using impact_step.reserves [of "impact_start sample_impact" True "impact_view 0 sample_impact" 0 sample_ticket sample_impact]
    by (simp add: impact_start_def impact_view_def)
  moreover have "begin_at_send True (manual_port 0 sample_impact) 7 sample_impact = (Ok sample_attempt, sample_begun)"
    by (simp add: impact_run_simps)
  then have "impact_step 0 ?w ?u"
    using impact_step.begins [of ?w True "manual_port 0 sample_impact" 0 7 sample_attempt sample_begun]
    by (simp add: manual_port_def sample_attempt_def)
  moreover have "finish_attempt True sample_attempt (Some ExternalEffect) sample_begun = (Ok (), sample_touched)"
    by (simp add: impact_run_simps)
  then have "impact_step 0 ?u sample_impact_world"
    using impact_step.finishes [of ?u True sample_attempt "Some ExternalEffect" "Ok ()" sample_touched 0]
    by (simp add: sample_impact_world_def sample_history_def ended_def sample_attempt_def)
  ultimately show ?thesis
    by (intro rtranclp.rtrancl_into_rtrancl [OF rtranclp.rtrancl_into_rtrancl [OF r_into_rtranclp]])
qed

lemma sample_touched_answers: "answering True sample_touched"
  by (simp add: impact_run_simps)

theorem ticket_tells_history_witness:
  "fst (check_ticket True sample_ticket sample_touched) = Revoked ExternalEffect"
  using ticket_tells_history [OF sample_impact_bound sample_impact_run, of "[]" sample_ticket
      "[Began 1, Ended 1 (Some ExternalEffect)]" True] sample_touched_answers
  by (simp add: sample_impact_world_def sample_history_def told_def)

lemma sample_touched_revoked: "fst (check_ticket True sample_ticket sample_touched) = Revoked ExternalEffect"
  by (simp add: impact_run_simps)

end
