(* ===== verification/Take_Monitor.thy ===== *)
theory Take_Monitor
  imports Store Toolset Control
begin

text \<open>
  The monitor of a Take, \<open>src/native/src/take_monitor.rs\<close>: it is told what OBS reports while a
  recording runs (events, volume meters, statistics, pictures) and keeps the bounded list of events,
  warnings, levels and still or black stretches that the Take's summary reports. It starts and stops
  nothing itself.

  Times and levels are 64-bit floats; their arithmetic, comparisons and texts are the record \<open>f64\<close>,
  an argument of the definitions, and no statement depends on how it rounds. Readings of the clock
  are integers. Reference-counted cells (the owner of the sample tickets, the history of pictures,
  the active flag of a ticket) are numbered; a flag that is set is a member of \<open>active_cells\<close>. The
  notifications to the resource publisher are counted. An index out of bounds and an \<open>unwrap\<close> of
  nothing are the result \<open>None\<close>.
\<close>

section \<open>Floats\<close>

record 'f f64 =
  of_i64 :: "int \<Rightarrow> 'f"
  lit :: "rat \<Rightarrow> 'f"
  of_number :: "number \<Rightarrow> 'f"
  fadd :: "'f \<Rightarrow> 'f \<Rightarrow> 'f"
  fsub :: "'f \<Rightarrow> 'f \<Rightarrow> 'f"
  fmul :: "'f \<Rightarrow> 'f \<Rightarrow> 'f"
  fdiv :: "'f \<Rightarrow> 'f \<Rightarrow> 'f"
  ffloor :: "'f \<Rightarrow> 'f"
  flog10 :: "'f \<Rightarrow> 'f"
  fabs :: "'f \<Rightarrow> 'f"
  fmax :: "'f \<Rightarrow> 'f \<Rightarrow> 'f"
  fless :: "'f \<Rightarrow> 'f \<Rightarrow> bool"
  feq :: "'f \<Rightarrow> 'f \<Rightarrow> bool"
  is_nan :: "'f \<Rightarrow> bool"
  nan :: 'f
  infinity :: 'f
  neg_infinity :: 'f
  display :: "'f \<Rightarrow> string"
  lower_exp :: "'f \<Rightarrow> string"
  parse_f64 :: "string \<Rightarrow> 'f option"
  to_bits :: "'f \<Rightarrow> u64"
  to_json :: "'f \<Rightarrow> json"

definition fge :: "'f f64 \<Rightarrow> 'f \<Rightarrow> 'f \<Rightarrow> bool" where
  "fge F a b \<longleftrightarrow> fless F b a \<or> feq F a b"

definition round2 :: "'f f64 \<Rightarrow> 'f \<Rightarrow> 'f" where
  "round2 F n = fdiv F (ffloor F (fadd F (fmul F n (lit F 100)) (lit F (1/2)))) (lit F 100)"

definition to_db :: "'f f64 \<Rightarrow> 'f \<Rightarrow> 'f" where
  "to_db F n = (if fless F (lit F 0) n
     then fdiv F (ffloor F (fadd F (fmul F (fmul F (lit F 20) (flog10 F n)) (lit F 10)) (lit F (1/2)))) (lit F 10)
     else neg_infinity F)"

definition js_max :: "'f f64 \<Rightarrow> 'f \<Rightarrow> 'f \<Rightarrow> 'f" where
  "js_max F a b = (if is_nan F a \<or> is_nan F b then nan F else fmax F a b)"

definition number_string :: "'f f64 \<Rightarrow> 'f \<Rightarrow> string" where
  "number_string F n =
     (if is_nan F n then ''NaN''
      else if feq F n (infinity F) then ''Infinity''
      else if feq F n (neg_infinity F) then ''-Infinity''
      else if feq F n (lit F 0) then ''0''
      else if fge F (fabs F n) (lit F (10 ^ 21)) \<or> fless F (fabs F n) (lit F (1 / 10 ^ 6)) then
        (case split_once (CHR ''e'') (lower_exp F n) of
           Some (mantissa, exponent) \<Rightarrow> mantissa @ ''e'' @ (if take 1 exponent = ''-'' then [] else ''+'') @ exponent
         | None \<Rightarrow> lower_exp F n)
      else display F n)"

fun value_string :: "'f f64 \<Rightarrow> json \<Rightarrow> string" where
  "value_string F JNull = ''null''"
| "value_string F (JBool b) = (if b then ''true'' else ''false'')"
| "value_string F (JNumber n) = number_string F (of_number F n)"
| "value_string F (JString s) = s"
| "value_string F (JArray vs) = join_with '','' (map (\<lambda>v. if v = JNull then [] else value_string F v) vs)"
| "value_string F (JObject fs) = ''[object Object]''"

definition mon_string :: "'f f64 \<Rightarrow> json option \<Rightarrow> string" where
  "mon_string F v = (case v of None \<Rightarrow> ''undefined'' | Some x \<Rightarrow> value_string F x)"

definition string_or_empty :: "'f f64 \<Rightarrow> json option \<Rightarrow> string" where
  "string_or_empty F v = (case v of None \<Rightarrow> [] | Some x \<Rightarrow> if x = JNull then [] else value_string F x)"

definition truthy_opt :: "json option \<Rightarrow> bool" where
  "truthy_opt v = (case v of None \<Rightarrow> False | Some x \<Rightarrow> truthy x)"

text \<open>\<open>char::to_digit\<close>, and the digits of a number in some base.\<close>

definition to_digit :: "nat \<Rightarrow> char \<Rightarrow> nat option" where
  "to_digit base c =
     (let n = (of_char c :: nat);
          d = (if 48 \<le> n \<and> n \<le> 57 then n - 48 else if 97 \<le> n \<and> n \<le> 122 then n - 87
               else if 65 \<le> n \<and> n \<le> 90 then n - 55 else base)
      in if d < base then Some d else None)"

fun fold_digits :: "'f f64 \<Rightarrow> nat \<Rightarrow> 'f \<Rightarrow> string \<Rightarrow> 'f option" where
  "fold_digits F base n [] = Some n"
| "fold_digits F base n (c # cs) = (case to_digit base c of None \<Rightarrow> None
     | Some d \<Rightarrow> fold_digits F base (fadd F (fmul F n (of_i64 F (int base))) (of_i64 F (int d))) cs)"

definition based_prefixes :: "(string \<times> nat) list" where
  "based_prefixes = [(''0x'', 16), (''0X'', 16), (''0b'', 2), (''0B'', 2), (''0o'', 8), (''0O'', 8)]"

definition string_number :: "'f f64 \<Rightarrow> string \<Rightarrow> 'f" where
  "string_number F s0 =
     (let s = config_trim s0 in
      if s = [] then lit F 0
      else case List.find (\<lambda>(p, _). prefix p s) based_prefixes of
          Some (p, base) \<Rightarrow>
            (let digits = drop (length p) s in
             if digits = [] then nan F
             else case fold_digits F base (lit F 0) digits of None \<Rightarrow> nan F | Some x \<Rightarrow> x)
        | None \<Rightarrow> if s \<in> {''inf'', ''-inf'', ''+inf'', ''infinity'', ''-infinity'', ''+infinity''} then nan F
            else case parse_f64 F s of None \<Rightarrow> nan F | Some x \<Rightarrow> x)"

definition mon_number :: "'f f64 \<Rightarrow> json option \<Rightarrow> 'f" where
  "mon_number F v = (case v of
     None \<Rightarrow> lit F 0
   | Some JNull \<Rightarrow> lit F 0
   | Some (JBool b) \<Rightarrow> if b then lit F 1 else lit F 0
   | Some (JNumber n) \<Rightarrow> of_number F n
   | Some (JObject _) \<Rightarrow> nan F
   | Some (JArray vs) \<Rightarrow> string_number F (value_string F (JArray vs))
   | Some (JString s) \<Rightarrow> string_number F s)"

section \<open>Still pictures\<close>

record 'f Span =
  start_seconds :: 'f
  end_seconds :: 'f

record 'f Frame =
  fr_at :: 'f
  luma :: "u8 list"

record 'f StillTracker =
  min_seconds :: 'f
  samples :: "'f Frame list"
  still_from :: "'f option"
  last_time :: "'f option"
  comparison_qualified :: bool
  spans :: "'f Span list"

definition new_tracker :: "'f \<Rightarrow> 'f StillTracker" where
  "new_tracker m = \<lparr>min_seconds = m, samples = [], still_from = None, last_time = None, comparison_qualified = False, spans = []\<rparr>"

definition still_since :: "'f f64 \<Rightarrow> 'f StillTracker \<Rightarrow> 'f option" where
  "still_since F t = opt_filter (\<lambda>start. comparison_qualified t \<and>
     (case last_time t of None \<Rightarrow> False | Some at_last \<Rightarrow> fge F (fsub F at_last start) (min_seconds t))) (still_from t)"

definition close_span :: "'f f64 \<Rightarrow> 'f \<Rightarrow> 'f StillTracker \<Rightarrow> 'f StillTracker" where
  "close_span F a t =
     (if comparison_qualified t then
        (case opt_filter (\<lambda>start. fge F (fsub F a start) (min_seconds t)) (still_from t) of
           None \<Rightarrow> t
         | Some start \<Rightarrow> t\<lparr>spans := spans t @ [\<lparr>start_seconds = start, end_seconds = a\<rparr>]\<rparr>)
      else t)"

definition forget_frames :: "'f StillTracker \<Rightarrow> 'f StillTracker" where
  "forget_frames t = t\<lparr>still_from := None, last_time := None, comparison_qualified := False, samples := []\<rparr>"

definition finish_tracker :: "'f f64 \<Rightarrow> 'f \<Rightarrow> 'f StillTracker \<Rightarrow> 'f StillTracker" where
  "finish_tracker F a t = forget_frames (close_span F a t)"

definition same_luma :: "u8 list \<Rightarrow> u8 list \<Rightarrow> bool" where
  "same_luma a b \<longleftrightarrow> a \<noteq> [] \<and> length a = length b \<and>
     length (take 2 (filter (\<lambda>(x, y). 12 < (if x \<le> y then y - x else x - y)) (zip a b))) < 2"

text \<open>\<open>xs[i]\<close>, which panics out of bounds.\<close>

definition at_index :: "'a list \<Rightarrow> nat \<Rightarrow> 'a option" where
  "at_index xs i = (if i < length xs then Some (xs ! i) else None)"

definition median3 :: "u8 \<Rightarrow> u8 \<Rightarrow> u8 \<Rightarrow> u8" where
  "median3 a b c = max (min a b) (min (max a b) c)"

definition median_at :: "'f Frame list \<Rightarrow> nat \<Rightarrow> nat \<Rightarrow> u8 option" where
  "median_at fs offset i = do {
     f0 \<leftarrow> at_index fs offset; a \<leftarrow> at_index (luma f0) i;
     f1 \<leftarrow> at_index fs (offset + 1); b \<leftarrow> at_index (luma f1) i;
     f2 \<leftarrow> at_index fs (offset + 2); c \<leftarrow> at_index (luma f2) i;
     Some (median3 a b c) }"

definition median :: "'f Frame list \<Rightarrow> nat \<Rightarrow> u8 list option" where
  "median fs offset = do { f \<leftarrow> at_index fs offset; those (map (median_at fs offset) [0 ..< length (luma f)]) }"

text \<open>The first transition may close an old stable window, but not before its first matching frame.\<close>

definition qualify :: "'f f64 \<Rightarrow> u8 list \<Rightarrow> 'f StillTracker \<Rightarrow> 'f StillTracker" where
  "qualify F before t =
     (if comparison_qualified t then t
      else case map fr_at (filter (\<lambda>f. same_luma before (luma f)) (take 3 (samples t))) of
          m0 # m1 # rest \<Rightarrow> t\<lparr>still_from := map_option (\<lambda>start. js_max F start m0) (still_from t), comparison_qualified := True\<rparr>
        | _ \<Rightarrow> t)"

text \<open>When the picture changed: the first of the frames 1 to 4 unlike the old median; and since when it
  has settled.\<close>

definition changed_frame :: "u8 list \<Rightarrow> 'f Frame list \<Rightarrow> nat" where
  "changed_frame before fs =
     (case List.find (\<lambda>i. \<not> same_luma before (luma (fs ! i))) [1, 2, 3, 4] of None \<Rightarrow> 3 | Some i \<Rightarrow> i)"

definition settled_frame :: "u8 list \<Rightarrow> 'f Frame list \<Rightarrow> nat" where
  "settled_frame after fs =
     (if \<not> same_luma after (luma (fs ! 2)) then 3 else if \<not> same_luma after (luma (fs ! 1)) then 2 else 1)"

definition compare_windows :: "'f f64 \<Rightarrow> 'f StillTracker \<Rightarrow> 'f StillTracker option" where
  "compare_windows F t = do {
     before \<leftarrow> median (samples t) 0;
     after \<leftarrow> median (samples t) 3;
     Some (if \<not> same_luma before after then
         (let t1 = qualify F before t;
              changed = fr_at (samples t ! changed_frame before (samples t));
              settled = fr_at (samples t ! settled_frame after (samples t))
          in (close_span F changed t1)\<lparr>still_from := Some (js_max F changed settled), comparison_qualified := False\<rparr>)
       else t\<lparr>comparison_qualified := before \<noteq> []\<rparr>) }"

definition restart_on_resize :: "'f f64 \<Rightarrow> u8 list \<Rightarrow> 'f StillTracker \<Rightarrow> 'f StillTracker" where
  "restart_on_resize F l t =
     (if samples t \<noteq> [] \<and> length (luma (hd (samples t))) \<noteq> length l
      then forget_frames (case last_time t of None \<Rightarrow> t | Some at_last \<Rightarrow> close_span F at_last t)
      else t)"

definition push_frame :: "'f f64 \<Rightarrow> 'f \<Rightarrow> u8 list \<Rightarrow> 'f StillTracker \<Rightarrow> 'f StillTracker option" where
  "push_frame F a l t0 =
     (let t = restart_on_resize F l t0;
          t1 = t\<lparr>still_from := Some (case still_from t of None \<Rightarrow> a | Some x \<Rightarrow> x), last_time := Some a,
                 samples := samples t @ [\<lparr>fr_at = a, luma = l\<rparr>]\<rparr>
      in if length (samples t1) < 6 then Some t1
         else map_option (\<lambda>t2. t2\<lparr>samples := tl (samples t2)\<rparr>) (compare_windows F t1))"

section \<open>State\<close>

definition MAX_EVENTS :: nat where
  "MAX_EVENTS = 500"

definition MAX_WARNINGS_PER_KIND :: nat where
  "MAX_WARNINGS_PER_KIND = 20"

record 'f MonitorOptions =
  mo_expect_silent :: bool
  silence_threshold_db :: 'f
  sample_interval_ms :: 'f
  stats_interval_ms :: 'f
  still_after_seconds :: 'f

definition default_monitor_options :: "'f f64 \<Rightarrow> 'f MonitorOptions" where
  "default_monitor_options F = \<lparr>mo_expect_silent = False, silence_threshold_db = lit F (- 60), sample_interval_ms = lit F 1000,
     stats_interval_ms = lit F 2000, still_after_seconds = lit F 3\<rparr>"

datatype WarningKind = Audio | Blank | Frames_Warning | Output_Warning | Connection_Warning

record 'f Warning =
  w_at :: 'f
  w_kind :: WarningKind
  w_message :: string

record 'f Event =
  ev_at :: 'f
  ev_type :: string
  ev_detail :: "string option"

record 'f Chapter =
  ch_at :: 'f
  ch_name :: string

record 'f InputLevel =
  input_name :: string
  peak_db :: 'f
  input_peak_db :: 'f
  recorded :: bool

record 'f Frames =
  render_skipped :: 'f
  render_total :: 'f
  output_skipped :: 'f
  output_total :: 'f

datatype MonitorPhase = Mon_Starting | Mon_Running | Mon_Stopping | Mon_Stopped

datatype SampleKind = Stats_Sample | Picture_Sample

datatype SampleObservation = Obs_Stats json | Obs_Picture "u8 list" | Obs_Failed

datatype CleanupError = NotStopping | SamplesPending

record SampleTicket =
  tk_owner :: nat
  tk_history :: nat
  tk_cell :: nat
  tk_kind :: SampleKind

record 'f monitor =
  mon_options :: "'f MonitorOptions"
  started_at_ms :: int
  started_at :: string
  stopped_at_ms :: "int option"
  mon_phase :: MonitorPhase
  stop_expected :: bool
  warnings :: "'f Warning list"
  has_publisher :: bool
  notices :: nat
  events :: "'f Event list"
  chapters :: "'f Chapter list"
  levels :: "'f InputLevel list"
  audible_now :: "string list"
  input_tracks :: "(string \<times> (string \<times> json) list) list"
  record_tracks :: "u8 list"
  frames :: "'f Frames"
  last_stats :: "json option"
  last_render_warning :: "int option"
  last_output_warning :: "int option"
  stills :: "'f Span list"
  blanks :: "'f Span list"
  tracker :: "'f StillTracker"
  blank_since :: "'f option"
  blank_run :: u64
  frames_sampled :: u64
  picture_checks :: bool
  program_scene :: "string option"
  recording_path :: "string option"
  paused_ms :: 'f
  paused_since :: "int option"
  sample_owner :: nat
  picture_history :: nat
  busy_stats :: "nat option"
  busy_picture :: "nat option"
  active_cells :: "nat list"
  next_cell :: nat

definition new_monitor :: "'f f64 \<Rightarrow> int \<Rightarrow> string \<Rightarrow> 'f MonitorOptions \<Rightarrow> nat \<Rightarrow> 'f monitor" where
  "new_monitor F ms text opts owner =
     \<lparr>mon_options = opts, started_at_ms = ms, started_at = text, stopped_at_ms = None, mon_phase = Mon_Starting,
      stop_expected = False, warnings = [], has_publisher = False, notices = 0, events = [], chapters = [],
      levels = [], audible_now = [], input_tracks = [], record_tracks = [1],
      frames = \<lparr>render_skipped = lit F 0, render_total = lit F 0, output_skipped = lit F 0, output_total = lit F 0\<rparr>,
      last_stats = None, last_render_warning = None, last_output_warning = None, stills = [], blanks = [],
      tracker = new_tracker (still_after_seconds opts), blank_since = None, blank_run = 0, frames_sampled = 0,
      picture_checks = False, program_scene = None, recording_path = None, paused_ms = lit F 0, paused_since = None,
      sample_owner = owner, picture_history = 0, busy_stats = None, busy_picture = None, active_cells = [], next_cell = 0\<rparr>"

section \<open>Clock, log and warnings\<close>

definition mon_now :: "'f f64 \<Rightarrow> int \<Rightarrow> 'f monitor \<Rightarrow> 'f" where
  "mon_now F now m =
     (let finish = of_i64 F (case stopped_at_ms m of None \<Rightarrow> now | Some t \<Rightarrow> t);
          paused = fadd F (paused_ms m) (case paused_since m of None \<Rightarrow> lit F 0 | Some start \<Rightarrow> fsub F finish (of_i64 F start))
      in round2 F (fdiv F (fsub F (fsub F finish (of_i64 F (started_at_ms m))) paused) (lit F 1000)))"

definition is_paused :: "'f monitor \<Rightarrow> bool" where
  "is_paused m \<longleftrightarrow> paused_since m \<noteq> None"

definition interval_ms :: "SampleKind \<Rightarrow> 'f monitor \<Rightarrow> 'f" where
  "interval_ms k m = (case k of Stats_Sample \<Rightarrow> stats_interval_ms (mon_options m)
     | Picture_Sample \<Rightarrow> sample_interval_ms (mon_options m))"

definition bind_resource_events :: "bool \<Rightarrow> 'f monitor \<Rightarrow> 'f monitor" where
  "bind_resource_events publisher m = m\<lparr>has_publisher := publisher\<rparr>"

definition resource_changed :: "'f monitor \<Rightarrow> 'f monitor" where
  "resource_changed m = (if has_publisher m then m\<lparr>notices := notices m + 1\<rparr> else m)"

definition listening :: "'f monitor \<Rightarrow> bool" where
  "listening m \<longleftrightarrow> mon_phase m \<in> {Mon_Starting, Mon_Running}"

definition log_event :: "'f f64 \<Rightarrow> int \<Rightarrow> string \<Rightarrow> string option \<Rightarrow> 'f monitor \<Rightarrow> 'f monitor" where
  "log_event F now ty detail m =
     (if length (events m) < MAX_EVENTS
      then m\<lparr>events := events m @ [\<lparr>ev_at = mon_now F now m, ev_type = ty, ev_detail = opt_filter (\<lambda>d. d \<noteq> []) detail\<rparr>]\<rparr>
      else m)"

definition warn :: "'f f64 \<Rightarrow> int \<Rightarrow> WarningKind \<Rightarrow> string \<Rightarrow> 'f monitor \<Rightarrow> 'f monitor" where
  "warn F now k message m =
     (if length (filter (\<lambda>w. w_kind w = k) (warnings m)) < MAX_WARNINGS_PER_KIND
      then resource_changed (m\<lparr>warnings := warnings m @ [\<lparr>w_at = mon_now F now m, w_kind = k, w_message = message\<rparr>]\<rparr>)
      else m)"

definition rounded_spans :: "'f f64 \<Rightarrow> 'f Span list \<Rightarrow> 'f Span list" where
  "rounded_spans F = map (\<lambda>s. \<lparr>start_seconds = round2 F (start_seconds s), end_seconds = round2 F (end_seconds s)\<rparr>)"

definition close_still :: "'f f64 \<Rightarrow> 'f \<Rightarrow> 'f monitor \<Rightarrow> 'f monitor" where
  "close_still F a m = m\<lparr>picture_history := picture_history m + 1,
     stills := stills m @ rounded_spans F (spans (finish_tracker F a (tracker m))),
     tracker := new_tracker (still_after_seconds (mon_options m))\<rparr>"

definition close_blank :: "'f \<Rightarrow> 'f monitor \<Rightarrow> 'f monitor" where
  "close_blank a m = (case blank_since m of None \<Rightarrow> m
     | Some start \<Rightarrow> m\<lparr>blank_since := None, blanks := blanks m @ [\<lparr>start_seconds = start, end_seconds = a\<rparr>]\<rparr>)"

section \<open>Setup, marks and stop\<close>

definition load_tracks :: "u8 list \<Rightarrow> (string \<times> (string \<times> json) list) list \<Rightarrow> 'f monitor \<Rightarrow> 'f monitor" where
  "load_tracks rec tracks m =
     (if listening m then m\<lparr>record_tracks := rec, input_tracks := fold (\<lambda>(k, v). upd k v) tracks (input_tracks m)\<rparr> else m)"

definition tracks_unknown :: "'f f64 \<Rightarrow> int \<Rightarrow> string \<Rightarrow> 'f monitor \<Rightarrow> 'f monitor" where
  "tracks_unknown F now message m = (if listening m then log_event F now ''tracks-unknown'' (Some message) m else m)"

definition scene_of :: "json \<Rightarrow> string option" where
  "scene_of response = Option.bind
     (opt_or (opt_filter (\<lambda>v. v \<noteq> JNull) (get response ''currentProgramSceneName'')) (get response ''sceneName'')) as_str"

definition load_program_scene :: "json \<Rightarrow> 'f monitor \<Rightarrow> 'f monitor" where
  "load_program_scene response m = (if listening m then m\<lparr>program_scene := scene_of response\<rparr> else m)"

definition complete_setup :: "'f f64 \<Rightarrow> int \<Rightarrow> bool \<Rightarrow> 'f monitor \<Rightarrow> bool \<times> 'f monitor" where
  "complete_setup F now supports_ppm m =
     (if mon_phase m \<noteq> Mon_Starting then (False, m)
      else (let m1 = m\<lparr>mon_phase := Mon_Running, picture_checks := supports_ppm\<rparr>;
                m2 = (if supports_ppm then m1
                      else log_event F now ''picture-checks-off'' (Some ''OBS cannot return PPM screenshots'') m1)
            in (True, resource_changed m2)))"

definition mark :: "'f f64 \<Rightarrow> int \<Rightarrow> string \<Rightarrow> 'f monitor \<Rightarrow> 'f monitor" where
  "mark F now name m = resource_changed (m\<lparr>chapters := chapters m @ [\<lparr>ch_at = mon_now F now m, ch_name = name\<rparr>]\<rparr>)"

definition expect_stop :: "'f monitor \<Rightarrow> 'f monitor" where
  "expect_stop m = m\<lparr>stop_expected := True\<rparr>"

text \<open>The token of an expected stop is the previous expectation.\<close>

definition begin_stop_expectation :: "'f monitor \<Rightarrow> bool \<times> 'f monitor" where
  "begin_stop_expectation m = (stop_expected m, m\<lparr>stop_expected := True\<rparr>)"

definition rollback_stop_expectation :: "bool \<Rightarrow> 'f monitor \<Rightarrow> 'f monitor" where
  "rollback_stop_expectation previous m = m\<lparr>stop_expected := previous\<rparr>"

definition begin_stop :: "int \<Rightarrow> 'f monitor \<Rightarrow> bool \<times> 'f monitor" where
  "begin_stop now m =
     (if stopped_at_ms m \<noteq> None then (False, m)
      else (True, m\<lparr>stopped_at_ms := Some now, stop_expected := True, mon_phase := Mon_Stopping\<rparr>))"

definition busy :: "SampleKind \<Rightarrow> 'f monitor \<Rightarrow> nat option" where
  "busy k m = (case k of Stats_Sample \<Rightarrow> busy_stats m | Picture_Sample \<Rightarrow> busy_picture m)"

definition slot_active :: "SampleKind \<Rightarrow> 'f monitor \<Rightarrow> bool" where
  "slot_active k m = (case busy k m of None \<Rightarrow> False | Some c \<Rightarrow> c \<in> set (active_cells m))"

definition samples_pending :: "'f monitor \<Rightarrow> bool" where
  "samples_pending m \<longleftrightarrow> slot_active Stats_Sample m \<or> slot_active Picture_Sample m"

definition finish_cleanup :: "'f f64 \<Rightarrow> 'f monitor \<Rightarrow> ((CleanupError, unit) result \<times> 'f monitor) option" where
  "finish_cleanup F m =
     (if mon_phase m = Mon_Stopped then Some (Ok (), m)
      else if mon_phase m \<noteq> Mon_Stopping then Some (Err NotStopping, m)
      else if samples_pending m then Some (Err SamplesPending, m)
      else (case stopped_at_ms m of None \<Rightarrow> None
        | Some t \<Rightarrow> (let finish = mon_now F t m
            in Some (Ok (), resource_changed ((close_blank finish (close_still F finish m))\<lparr>mon_phase := Mon_Stopped\<rparr>)))))"

section \<open>Statistics and pictures\<close>

definition due_warning :: "'f f64 \<Rightarrow> int \<Rightarrow> 'f \<Rightarrow> int option \<Rightarrow> bool" where
  "due_warning F now skipped at_last \<longleftrightarrow> \<not> (feq F skipped (lit F 0) \<or>
     (case at_last of None \<Rightarrow> False | Some t \<Rightarrow> fless F (fsub F (of_i64 F now) (of_i64 F t)) (lit F 10000)))"

definition warn_frames :: "'f f64 \<Rightarrow> int \<Rightarrow> 'f \<Rightarrow> 'f \<Rightarrow> 'f monitor \<Rightarrow> 'f monitor" where
  "warn_frames F now render output m =
     (let m1 = (if due_warning F now render (last_render_warning m)
                then warn F now Frames_Warning (''OBS missed '' @ number_string F render @
                  '' frame(s) while rendering; the GPU or CPU is overloaded'') (m\<lparr>last_render_warning := Some now\<rparr>)
                else m)
      in if due_warning F now output (last_output_warning m1)
         then warn F now Frames_Warning (''The encoder skipped '' @ number_string F output @
           '' frame(s); lower the encoder preset or resolution'') (m1\<lparr>last_output_warning := Some now\<rparr>)
         else m1)"

definition stats_delta :: "'f f64 \<Rightarrow> json \<Rightarrow> json \<Rightarrow> string \<Rightarrow> 'f" where
  "stats_delta F previous stats k = js_max F (lit F 0) (fsub F (mon_number F (get stats k)) (mon_number F (get previous k)))"

definition observe_stats :: "'f f64 \<Rightarrow> int \<Rightarrow> json \<Rightarrow> 'f monitor \<Rightarrow> 'f monitor" where
  "observe_stats F now stats m =
     (if mon_phase m = Mon_Stopped then m
      else (let m1 = m\<lparr>last_stats := Some stats\<rparr> in
        case last_stats m of None \<Rightarrow> m1
        | Some previous \<Rightarrow>
            if \<not> truthy previous \<or> stats = JNull then m1
            else (let delta = stats_delta F previous stats; fs = frames m1;
                      render = delta ''renderSkippedFrames''; output = delta ''outputSkippedFrames''
                  in warn_frames F now render output (m1\<lparr>frames :=
                    \<lparr>render_skipped = fadd F (render_skipped fs) render,
                     render_total = fadd F (render_total fs) (delta ''renderTotalFrames''),
                     output_skipped = fadd F (output_skipped fs) output,
                     output_total = fadd F (output_total fs) (delta ''outputTotalFrames'')\<rparr>\<rparr>))))"

text \<open>\<open>saturating_add(1)\<close>.\<close>

definition sat_inc :: "u64 \<Rightarrow> u64" where
  "sat_inc n = (case checked_add n 1 of None \<Rightarrow> n | Some k \<Rightarrow> k)"

definition black_picture :: "'f f64 \<Rightarrow> int \<Rightarrow> 'f \<Rightarrow> 'f monitor \<Rightarrow> 'f monitor" where
  "black_picture F now a m =
     (let m1 = m\<lparr>blank_run := sat_inc (blank_run m)\<rparr> in
      if blank_run m1 = 2 then
        warn F now Blank (''The program output ('' @ (case program_scene m1 of None \<Rightarrow> ''null'' | Some s \<Rightarrow> s) @
            '') is black. A capture may have lost its window or screen recording permission'')
          (m1\<lparr>blank_since := Some (round2 F (fsub F a (fdiv F (sample_interval_ms (mon_options m1)) (lit F 1000))))\<rparr>)
      else m1)"

definition observe_picture :: "'f f64 \<Rightarrow> int \<Rightarrow> u8 list \<Rightarrow> 'f monitor \<Rightarrow> 'f monitor option" where
  "observe_picture F now l m =
     (if stopped_at_ms m \<noteq> None \<or> is_paused m then Some m
      else (let a = mon_now F now m; m1 = m\<lparr>frames_sampled := sat_inc (frames_sampled m)\<rparr>;
                m2 = (if list_all (\<lambda>v. v < 16) l then black_picture F now a m1 else close_blank a (m1\<lparr>blank_run := 0\<rparr>))
            in map_option (\<lambda>t. m2\<lparr>tracker := t\<rparr>) (push_frame F a l (tracker m2))))"

section \<open>Sample tickets\<close>

definition release_cell :: "nat \<Rightarrow> 'f monitor \<Rightarrow> 'f monitor" where
  "release_cell c m = m\<lparr>active_cells := removeAll c (active_cells m)\<rparr>"

text \<open>\<open>Drop\<close> of a ticket.\<close>

definition drop_ticket :: "SampleTicket \<Rightarrow> 'f monitor \<Rightarrow> 'f monitor" where
  "drop_ticket t m = release_cell (tk_cell t) m"

definition picture_refused :: "'f monitor \<Rightarrow> bool" where
  "picture_refused m \<longleftrightarrow> \<not> picture_checks m \<or> (case program_scene m of None \<Rightarrow> True | Some s \<Rightarrow> s = []) \<or> is_paused m"

definition begin_sample :: "SampleKind \<Rightarrow> 'f monitor \<Rightarrow> SampleTicket option \<times> 'f monitor" where
  "begin_sample k m =
     (if mon_phase m \<noteq> Mon_Running \<or> k = Picture_Sample \<and> picture_refused m \<or> slot_active k m then (None, m)
      else (let c = next_cell m; m1 = m\<lparr>active_cells := c # active_cells m, next_cell := c + 1\<rparr> in
        (Some \<lparr>tk_owner = sample_owner m, tk_history = picture_history m, tk_cell = c, tk_kind = k\<rparr>,
         case k of Stats_Sample \<Rightarrow> m1\<lparr>busy_stats := Some c\<rparr> | Picture_Sample \<Rightarrow> m1\<lparr>busy_picture := Some c\<rparr>)))"

definition finish_sample :: "'f f64 \<Rightarrow> SampleTicket \<Rightarrow> int \<Rightarrow> SampleObservation \<Rightarrow> 'f monitor \<Rightarrow> (bool \<times> 'f monitor) option" where
  "finish_sample F t now observation m =
     (let m1 = release_cell (tk_cell t) m in
      if sample_owner m \<noteq> tk_owner t \<or> tk_cell t \<notin> set (active_cells m) \<or>
        (tk_kind t = Picture_Sample \<and> picture_history m \<noteq> tk_history t)
      then Some (False, m1)
      else (case (tk_kind t, observation) of
          (Stats_Sample, Obs_Stats stats) \<Rightarrow> Some (True, observe_stats F now stats m1)
        | (Picture_Sample, Obs_Picture l) \<Rightarrow> map_option (\<lambda>m2. (True, m2)) (observe_picture F now l m1)
        | (_, Obs_Failed) \<Rightarrow> Some (True, m1)
        | _ \<Rightarrow> Some (False, m1)))"

section \<open>Events and meters\<close>

definition on_disconnect :: "'f f64 \<Rightarrow> int \<Rightarrow> 'f monitor \<Rightarrow> 'f monitor" where
  "on_disconnect F now m = (if listening m
     then warn F now Connection_Warning ''Lost the connection to OBS; checks paused until it reconnects'' m else m)"

text \<open>One channel of a meter: peak and input peak, where nothing and zero count as zero.\<close>

definition channel_level :: "'f f64 \<Rightarrow> json list \<Rightarrow> nat \<Rightarrow> 'f" where
  "channel_level F channel i =
     (let n = mon_number F (at_index channel i) in if is_nan F n \<or> feq F n (lit F 0) then lit F 0 else n)"

definition meter_peaks :: "'f f64 \<Rightarrow> json list \<Rightarrow> 'f \<times> 'f" where
  "meter_peaks F channels = fold (\<lambda>channel (peak, input_peak).
       (js_max F peak (channel_level F channel 1), js_max F input_peak (channel_level F channel 2)))
     (List.map_filter as_array channels) (lit F 0, lit F 0)"

definition input_recorded :: "string \<Rightarrow> 'f monitor \<Rightarrow> bool" where
  "input_recorded name m = (case map_of (input_tracks m) name of None \<Rightarrow> True
     | Some tracks \<Rightarrow> list_ex (\<lambda>track. map_of tracks (dec (unat track)) = Some (JBool True)) (record_tracks m))"

fun raise_level :: "'f f64 \<Rightarrow> string \<Rightarrow> 'f \<Rightarrow> 'f \<Rightarrow> bool \<Rightarrow> 'f InputLevel list \<Rightarrow> 'f InputLevel list" where
  "raise_level F name p ip r [] = [\<lparr>input_name = name, peak_db = p, input_peak_db = ip, recorded = r\<rparr>]"
| "raise_level F name p ip r (l # ls) =
     (if input_name l = name
      then l\<lparr>peak_db := js_max F (peak_db l) p, input_peak_db := js_max F (input_peak_db l) ip, recorded := r\<rparr> # ls
      else l # raise_level F name p ip r ls)"

definition on_input :: "'f f64 \<Rightarrow> int \<Rightarrow> json \<Rightarrow> 'f monitor \<Rightarrow> 'f monitor" where
  "on_input F now input m =
     (case (Option.bind (get input ''inputName'') as_str, Option.bind (get input ''inputLevelsMul'') as_array) of
        (Some name, Some channels) \<Rightarrow>
          (let peaks = meter_peaks F channels; rec = input_recorded name m; db = to_db F (fst peaks);
               m1 = m\<lparr>levels := raise_level F name db (to_db F (snd peaks)) rec (levels m)\<rparr>;
               audible = (rec \<and> fless F (silence_threshold_db (mon_options m)) db)
           in if audible \<and> name \<notin> set (audible_now m1) then
                (let m2 = log_event F now ''audio-start'' (Some (name @ '' at '' @ number_string F db @ '' dB''))
                       (m1\<lparr>audible_now := name # audible_now m1\<rparr>)
                 in if mo_expect_silent (mon_options m2)
                    then warn F now Audio (name @ '' is audible in the recording at '' @ number_string F db @
                      '' dB (expected silence). Mute it or clear its recorded tracks'') m2
                    else m2)
              else if \<not> audible \<and> name \<in> set (audible_now m1) then
                log_event F now ''audio-end'' (Some name) (m1\<lparr>audible_now := removeAll name (audible_now m1)\<rparr>)
              else m1)
      | _ \<Rightarrow> m)"

definition on_meters :: "'f f64 \<Rightarrow> int \<Rightarrow> json \<Rightarrow> 'f monitor \<Rightarrow> 'f monitor" where
  "on_meters F now data m =
     (if stopped_at_ms m \<noteq> None \<or> is_paused m then m
      else case Option.bind (get data ''inputs'') as_array of None \<Rightarrow> m | Some inputs \<Rightarrow> fold (on_input F now) inputs m)"

definition output_state :: "json \<Rightarrow> string option" where
  "output_state data = Option.bind (get data ''outputState'') as_str"

definition pause_or_resume :: "'f f64 \<Rightarrow> int \<Rightarrow> json \<Rightarrow> 'f monitor \<Rightarrow> 'f monitor" where
  "pause_or_resume F now data m =
     (if output_state data = Some ''OBS_WEBSOCKET_OUTPUT_PAUSED'' \<and> paused_since m = None
      then (close_still F (mon_now F now m) m)\<lparr>paused_since := Some now\<rparr>
      else if output_state data = Some ''OBS_WEBSOCKET_OUTPUT_RESUMED''
      then (case paused_since m of None \<Rightarrow> m
        | Some start \<Rightarrow> m\<lparr>paused_since := None, paused_ms := fadd F (paused_ms m) (fsub F (of_i64 F now) (of_i64 F start))\<rparr>)
      else m)"

definition on_record_state :: "'f f64 \<Rightarrow> int \<Rightarrow> json \<Rightarrow> 'f monitor \<Rightarrow> 'f monitor" where
  "on_record_state F now data m =
     (let m1 = (case opt_filter (\<lambda>s. s \<noteq> []) (Option.bind (get data ''outputPath'') as_str) of
                  None \<Rightarrow> m | Some path \<Rightarrow> m\<lparr>recording_path := Some path\<rparr>);
          m2 = pause_or_resume F now data m1
      in if get data ''outputActive'' = Some (JBool False) \<and> \<not> stop_expected m2 \<and>
            output_state data = Some ''OBS_WEBSOCKET_OUTPUT_STOPPED''
         then warn F now Output_Warning ''The recording stopped before it was asked to'' m2 else m2)"

text \<open>The logged detail of an event, and the monitor it leaves; \<open>None\<close> for an event that is not logged.\<close>

definition event_detail :: "'f f64 \<Rightarrow> int \<Rightarrow> string \<Rightarrow> json \<Rightarrow> 'f monitor \<Rightarrow> (string \<times> 'f monitor) option" where
  "event_detail F now event data m =
     (if event = ''InputAudioTracksChanged'' then
        Some (string_or_empty F (get data ''inputName''),
          case (Option.bind (get data ''inputName'') as_str, Option.bind (get data ''inputAudioTracks'') as_object) of
            (Some name, Some tracks) \<Rightarrow> m\<lparr>input_tracks := upd name tracks (input_tracks m)\<rparr> | _ \<Rightarrow> m)
      else if event = ''CurrentProgramSceneChanged'' then
        (let m1 = (case Option.bind (get data ''sceneName'') as_str of None \<Rightarrow> m | Some s \<Rightarrow> m\<lparr>program_scene := Some s\<rparr>)
         in Some (string_or_empty F (get data ''sceneName''), close_still F (mon_now F now m1) m1))
      else if event = ''RecordStateChanged'' then
        Some (string_or_empty F (get data ''outputState''), on_record_state F now data m)
      else if event = ''StreamStateChanged'' then Some (string_or_empty F (get data ''outputState''), m)
      else if event = ''RecordFileChanged'' then Some (string_or_empty F (get data ''newOutputPath''), m)
      else if event = ''SceneItemEnableStateChanged'' then
        Some (mon_string F (get data ''sceneName'') @ '' #'' @ mon_string F (get data ''sceneItemId'') @ '' '' @
          (if truthy_opt (get data ''sceneItemEnabled'') then ''shown'' else ''hidden''), m)
      else if event = ''InputMuteStateChanged'' then
        Some (mon_string F (get data ''inputName'') @ '' '' @
          (if truthy_opt (get data ''inputMuted'') then ''muted'' else ''unmuted''), m)
      else None)"

definition on_event :: "'f f64 \<Rightarrow> int \<Rightarrow> string \<Rightarrow> json \<Rightarrow> 'f monitor \<Rightarrow> 'f monitor" where
  "on_event F now event data m =
     (if \<not> listening m then m
      else if event = ''InputVolumeMeters'' then on_meters F now data m
      else case event_detail F now event data m of None \<Rightarrow> m
        | Some (detail, m1) \<Rightarrow> log_event F now event (Some detail) m1)"

section \<open>Summary\<close>

record 'f Summary =
  sum_running :: bool
  sum_started_at :: string
  duration_seconds :: 'f
  sum_expect_silent :: bool
  sum_threshold :: 'f
  sum_warnings :: "'f Warning list"
  sum_events :: "'f Event list"
  sum_chapters :: "'f Chapter list"
  sum_audio :: "'f InputLevel list"
  sum_frames :: "'f Frames"
  sum_stills :: "'f Span list"
  sum_blanks :: "'f Span list"
  sum_frames_sampled :: u64
  sum_picture_checks :: string

definition louder_first :: "'f f64 \<Rightarrow> 'f InputLevel \<Rightarrow> 'f InputLevel \<Rightarrow> ordering" where
  "louder_first F a b = (if fless F (peak_db b) (peak_db a) then Less
     else if fless F (peak_db a) (peak_db b) then Greater else Equal)"

definition open_span :: "'f f64 \<Rightarrow> int \<Rightarrow> 'f option \<Rightarrow> 'f monitor \<Rightarrow> 'f Span list" where
  "open_span F now start m = (if stopped_at_ms m = None
     then (case start of None \<Rightarrow> [] | Some s \<Rightarrow> [\<lparr>start_seconds = s, end_seconds = mon_now F now m\<rparr>]) else [])"

definition summary :: "'f f64 \<Rightarrow> int \<Rightarrow> 'f monitor \<Rightarrow> 'f Summary" where
  "summary F now m =
     \<lparr>sum_running = (stopped_at_ms m = None), sum_started_at = started_at m, duration_seconds = mon_now F now m,
      sum_expect_silent = mo_expect_silent (mon_options m), sum_threshold = silence_threshold_db (mon_options m),
      sum_warnings = warnings m, sum_events = events m, sum_chapters = chapters m,
      sum_audio = sort_by (louder_first F) (levels m), sum_frames = frames m,
      sum_stills = stills m @ rounded_spans F (spans (tracker m)) @ open_span F now (still_since F (tracker m)) m,
      sum_blanks = blanks m @ open_span F now (blank_since m) m,
      sum_frames_sampled = frames_sampled m, sum_picture_checks = (if picture_checks m then ''on'' else ''off'')\<rparr>"

section \<open>Runs\<close>

text \<open>Any call of the owner of the monitor, with any arguments and any reading of the clock.\<close>

inductive mon_step :: "'f f64 \<Rightarrow> 'f monitor \<Rightarrow> 'f monitor \<Rightarrow> bool" for F where
  binds: "mon_step F m (bind_resource_events b m)"
| loads_tracks: "mon_step F m (load_tracks rec tracks m)"
| tracks_fail: "mon_step F m (tracks_unknown F now message m)"
| loads_scene: "mon_step F m (load_program_scene response m)"
| setup_done: "mon_step F m (snd (complete_setup F now ppm m))"
| marks: "mon_step F m (mark F now name m)"
| expects: "mon_step F m (expect_stop m)"
| expectation: "mon_step F m (snd (begin_stop_expectation m))"
| rolls_back: "mon_step F m (rollback_stop_expectation previous m)"
| stops: "mon_step F m (snd (begin_stop now m))"
| cleans: "finish_cleanup F m = Some (r, m') \<Longrightarrow> mon_step F m m'"
| samples: "mon_step F m (snd (begin_sample k m))"
| sampled: "finish_sample F t now observation m = Some (b, m') \<Longrightarrow> mon_step F m m'"
| drops_ticket: "mon_step F m (drop_ticket t m)"
| disconnects: "mon_step F m (on_disconnect F now m)"
| event: "mon_step F m (on_event F now ty data m)"
| stats: "mon_step F m (observe_stats F now v m)"
| picture: "observe_picture F now l m = Some m' \<Longrightarrow> mon_step F m m'"

definition tracker_ok :: "'f StillTracker \<Rightarrow> bool" where
  "tracker_ok t \<longleftrightarrow> length (samples t) \<le> 5 \<and> (\<forall>f \<in> set (samples t). length (luma f) = length (luma (hd (samples t))))"

definition mon_bounded :: "'f monitor \<Rightarrow> bool" where
  "mon_bounded m \<longleftrightarrow> length (events m) \<le> MAX_EVENTS \<and>
     (\<forall>k. length (filter (\<lambda>w. w_kind w = k) (warnings m)) \<le> MAX_WARNINGS_PER_KIND)"

definition mon_inv :: "'f monitor \<Rightarrow> bool" where
  "mon_inv m \<longleftrightarrow> mon_bounded m \<and> tracker_ok (tracker m) \<and>
     (mon_phase m \<in> {Mon_Stopping, Mon_Stopped} \<longleftrightarrow> stopped_at_ms m \<noteq> None)"

section \<open>The tracker never leaves its frames\<close>

lemma those_map_Some: "(\<And>x. x \<in> set xs \<Longrightarrow> f x \<noteq> None) \<Longrightarrow> those (map f xs) \<noteq> None"
proof (induction xs)
  case (Cons x xs)
  from Cons.prems [of x] obtain y where "f x = Some y" by auto
  with Cons show ?case by auto
qed simp

lemma tracker_okI:
  assumes "length (samples t) \<le> 5" and "\<And>f. f \<in> set (samples t) \<Longrightarrow> length (luma f) = n"
  shows "tracker_ok t"
  unfolding tracker_ok_def
proof (intro conjI ballI)
  fix f assume f: "f \<in> set (samples t)"
  then have "hd (samples t) \<in> set (samples t)" by (cases "samples t") auto
  with f assms(2) show "length (luma f) = length (luma (hd (samples t)))" by metis
qed (fact assms(1))

lemma median_Some:
  assumes "offset + 2 < length fs" and "\<And>f. f \<in> set fs \<Longrightarrow> length (luma f) = n"
  shows "median fs offset \<noteq> None"
proof -
  have n: "length (luma (fs ! j)) = n" if "j < length fs" for j
    using assms(2) that by simp
  have "median_at fs offset i \<noteq> None" if "i < n" for i
    using that assms(1) n by (simp add: median_at_def at_index_def)
  then show ?thesis
    using those_map_Some [of "[0 ..< length (luma (fs ! offset))]" "median_at fs offset"] assms(1) n
    by (simp add: median_def at_index_def)
qed

lemma close_span_samples [simp]: "samples (close_span F a t) = samples t"
  by (simp add: close_span_def split: option.split)

lemma qualify_samples [simp]: "samples (qualify F b t) = samples t"
  by (simp add: qualify_def split: list.split)

lemma compare_windows_Some:
  assumes "length (samples t) = 6" and "\<And>f. f \<in> set (samples t) \<Longrightarrow> length (luma f) = n"
  obtains t' where "compare_windows F t = Some t'" "samples t' = samples t"
proof -
  obtain b where b: "median (samples t) 0 = Some b" using median_Some [of 0 "samples t" n] assms by auto
  obtain a where a: "median (samples t) 3 = Some a" using median_Some [of 3 "samples t" n] assms by auto
  have "\<exists>t'. compare_windows F t = Some t' \<and> samples t' = samples t"
    by (simp add: compare_windows_def a b Let_def)
  then show thesis using that by blast
qed

lemma restart_ok:
  assumes "tracker_ok t"
  shows "length (samples (restart_on_resize F l t)) \<le> 5"
    and "f \<in> set (samples (restart_on_resize F l t)) \<Longrightarrow> length (luma f) = length l"
proof -
  show "length (samples (restart_on_resize F l t)) \<le> 5"
    using assms by (simp add: restart_on_resize_def forget_frames_def tracker_ok_def)
  assume "f \<in> set (samples (restart_on_resize F l t))"
  moreover from this have same: "\<not> (samples t \<noteq> [] \<and> length (luma (hd (samples t))) \<noteq> length l)"
    by (auto simp: restart_on_resize_def forget_frames_def split: if_splits)
  ultimately have "f \<in> set (samples t)" by (simp only: restart_on_resize_def if_False)
  moreover from this have "samples t \<noteq> []" by auto
  ultimately show "length (luma f) = length l"
    using same assms unfolding tracker_ok_def by metis
qed

lemma push_frame_ok:
  assumes "tracker_ok t"
  obtains t' where "push_frame F a l t = Some t'" "tracker_ok t'"
proof -
  let ?r = "restart_on_resize F l t"
  let ?t = "?r\<lparr>still_from := Some (case still_from ?r of None \<Rightarrow> a | Some x \<Rightarrow> x), last_time := Some a,
     samples := samples ?r @ [\<lparr>fr_at = a, luma = l\<rparr>]\<rparr>"
  have all: "length (luma f) = length l" if "f \<in> set (samples ?t)" for f
    using that restart_ok(2) [OF assms] by auto
  show thesis
  proof (cases "length (samples ?t) < 6")
    case True
    have "push_frame F a l t = Some ?t"
      using True by (simp add: push_frame_def Let_def)
    moreover have "tracker_ok ?t"
      by (rule tracker_okI [of _ "length l"]) (use True all in auto)
    ultimately show thesis by (rule that)
  next
    case False
    then have six: "length (samples ?t) = 6"
      using restart_ok(1) [OF assms, of F l] by simp
    obtain t' where t': "compare_windows F ?t = Some t'" "samples t' = samples ?t"
      using compare_windows_Some [OF six all] by blast
    have "push_frame F a l t = Some (t'\<lparr>samples := tl (samples t')\<rparr>)"
      using False t' by (simp add: push_frame_def Let_def)
    moreover have "tracker_ok (t'\<lparr>samples := tl (samples t')\<rparr>)"
    proof (rule tracker_okI)
      show "length (samples (t'\<lparr>samples := tl (samples t')\<rparr>)) \<le> 5"
        using six t'(2) by simp
      fix f assume "f \<in> set (samples (t'\<lparr>samples := tl (samples t')\<rparr>))"
      then have "f \<in> set (samples ?t)"
        unfolding t'(2) [symmetric] by (cases "samples t'") auto
      then show "length (luma f) = length l" by (rule all)
    qed
    ultimately show thesis by (rule that)
  qed
qed

section \<open>Every call keeps the bounds\<close>

lemma new_tracker_ok [simp]: "tracker_ok (new_tracker x)"
  by (simp add: new_tracker_def tracker_ok_def)

lemma new_monitor_inv: "mon_inv (new_monitor F ms text opts owner)"
  by (simp add: new_monitor_def mon_inv_def mon_bounded_def)

text \<open>Fields the invariant does not speak of.\<close>

lemma mon_inv_upd [simp]:
  "mon_inv (m\<lparr>stop_expected := a1\<rparr>) = mon_inv m" "mon_inv (m\<lparr>has_publisher := a2\<rparr>) = mon_inv m"
  "mon_inv (m\<lparr>notices := a3\<rparr>) = mon_inv m" "mon_inv (m\<lparr>chapters := a4\<rparr>) = mon_inv m"
  "mon_inv (m\<lparr>levels := a5\<rparr>) = mon_inv m" "mon_inv (m\<lparr>audible_now := a6\<rparr>) = mon_inv m"
  "mon_inv (m\<lparr>input_tracks := a7\<rparr>) = mon_inv m" "mon_inv (m\<lparr>record_tracks := a8\<rparr>) = mon_inv m"
  "mon_inv (m\<lparr>frames := a9\<rparr>) = mon_inv m" "mon_inv (m\<lparr>last_stats := b1\<rparr>) = mon_inv m"
  "mon_inv (m\<lparr>last_render_warning := b2\<rparr>) = mon_inv m" "mon_inv (m\<lparr>last_output_warning := b3\<rparr>) = mon_inv m"
  "mon_inv (m\<lparr>stills := b4\<rparr>) = mon_inv m" "mon_inv (m\<lparr>blanks := b5\<rparr>) = mon_inv m"
  "mon_inv (m\<lparr>blank_since := b6\<rparr>) = mon_inv m" "mon_inv (m\<lparr>blank_run := b7\<rparr>) = mon_inv m"
  "mon_inv (m\<lparr>frames_sampled := b8\<rparr>) = mon_inv m" "mon_inv (m\<lparr>picture_checks := b9\<rparr>) = mon_inv m"
  "mon_inv (m\<lparr>program_scene := c1\<rparr>) = mon_inv m" "mon_inv (m\<lparr>recording_path := c2\<rparr>) = mon_inv m"
  "mon_inv (m\<lparr>paused_ms := c3\<rparr>) = mon_inv m" "mon_inv (m\<lparr>paused_since := c4\<rparr>) = mon_inv m"
  "mon_inv (m\<lparr>picture_history := c5\<rparr>) = mon_inv m" "mon_inv (m\<lparr>busy_stats := c6\<rparr>) = mon_inv m"
  "mon_inv (m\<lparr>busy_picture := c7\<rparr>) = mon_inv m" "mon_inv (m\<lparr>active_cells := c8\<rparr>) = mon_inv m"
  "mon_inv (m\<lparr>next_cell := c9\<rparr>) = mon_inv m"
  by (simp_all add: mon_inv_def mon_bounded_def)

named_theorems mon_keeps \<open>operations of the monitor keep its invariant\<close>

lemma mon_inv_tracker: "mon_inv m \<Longrightarrow> tracker_ok t \<Longrightarrow> mon_inv (m\<lparr>tracker := t\<rparr>)"
  by (simp add: mon_inv_def mon_bounded_def)

lemma resource_changed_inv [simp]: "mon_inv (resource_changed m) = mon_inv m"
  by (simp add: resource_changed_def)

lemma log_event_inv [mon_keeps]: "mon_inv m \<Longrightarrow> mon_inv (log_event F now ty d m)"
  by (simp add: log_event_def mon_inv_def mon_bounded_def)

lemma warn_inv [mon_keeps]: "mon_inv m \<Longrightarrow> mon_inv (warn F now k msg m)"
  by (simp add: warn_def) (simp add: mon_inv_def mon_bounded_def)

lemma close_still_inv [mon_keeps]: "mon_inv m \<Longrightarrow> mon_inv (close_still F a m)"
  by (simp add: close_still_def mon_inv_tracker)

lemma close_blank_inv [mon_keeps]: "mon_inv m \<Longrightarrow> mon_inv (close_blank a m)"
  by (simp add: close_blank_def split: option.split)

lemma setup_inv [mon_keeps]:
  "mon_inv m \<Longrightarrow> mon_inv (load_tracks rec tracks m)" "mon_inv m \<Longrightarrow> mon_inv (tracks_unknown F now msg m)"
  "mon_inv m \<Longrightarrow> mon_inv (load_program_scene response m)" "mon_inv m \<Longrightarrow> mon_inv (mark F now name m)"
  "mon_inv m \<Longrightarrow> mon_inv (on_disconnect F now m)"
  by (simp_all add: load_tracks_def tracks_unknown_def load_program_scene_def mark_def on_disconnect_def mon_keeps)

lemma complete_setup_inv [mon_keeps]: "mon_inv m \<Longrightarrow> mon_inv (snd (complete_setup F now ppm m))"
proof -
  assume inv: "mon_inv m"
  show ?thesis
  proof (cases "mon_phase m = Mon_Starting")
    case True
    with inv have "mon_inv (m\<lparr>mon_phase := Mon_Running, picture_checks := ppm\<rparr>)"
      by (simp add: mon_inv_def mon_bounded_def)
    then show ?thesis
      using True by (simp add: complete_setup_def Let_def mon_keeps)
  next
    case False
    with inv show ?thesis by (simp add: complete_setup_def)
  qed
qed

lemma begin_stop_inv [mon_keeps]: "mon_inv m \<Longrightarrow> mon_inv (snd (begin_stop now m))"
  by (simp add: begin_stop_def mon_inv_def mon_bounded_def)

lemma warn_frames_inv [mon_keeps]: "mon_inv m \<Longrightarrow> mon_inv (warn_frames F now r out m)"
  by (simp add: warn_frames_def Let_def mon_keeps)

lemma observe_stats_inv [mon_keeps]: "mon_inv m \<Longrightarrow> mon_inv (observe_stats F now v m)"
  by (simp add: observe_stats_def Let_def mon_keeps split: option.split)

lemma black_picture_inv [mon_keeps]: "mon_inv m \<Longrightarrow> mon_inv (black_picture F now a m)"
  by (simp add: black_picture_def Let_def mon_keeps)

lemma observe_picture_ok:
  assumes "mon_inv m"
  obtains m' where "observe_picture F now l m = Some m'" "mon_inv m'"
proof (cases "stopped_at_ms m \<noteq> None \<or> is_paused m")
  case True
  then show thesis using that [of m] assms by (simp add: observe_picture_def)
next
  case False
  let ?a = "mon_now F now m" and ?m = "m\<lparr>frames_sampled := sat_inc (frames_sampled m)\<rparr>"
  let ?m2 = "if list_all (\<lambda>v. v < 16) l then black_picture F now ?a ?m else close_blank ?a (?m\<lparr>blank_run := 0\<rparr>)"
  have inv: "mon_inv ?m2" using assms by (simp add: mon_keeps)
  then obtain t where t: "push_frame F ?a l (tracker ?m2) = Some t" "tracker_ok t"
    using push_frame_ok [of "tracker ?m2" F ?a l] by (auto simp: mon_inv_def)
  have "observe_picture F now l m = Some (?m2\<lparr>tracker := t\<rparr>)"
    using False t(1) unfolding observe_picture_def by (simp only: if_False Let_def option.map)
  then show thesis using that mon_inv_tracker [OF inv t(2)] by blast
qed

lemma on_input_inv [mon_keeps]: "mon_inv m \<Longrightarrow> mon_inv (on_input F now input m)"
  by (simp add: on_input_def Let_def mon_keeps split: option.split)

lemma fold_on_input_inv: "mon_inv m \<Longrightarrow> mon_inv (fold (on_input F now) inputs m)"
  by (induction inputs arbitrary: m) (simp_all add: mon_keeps)

lemma pause_inv [mon_keeps]: "mon_inv m \<Longrightarrow> mon_inv (pause_or_resume F now data m)"
  by (simp add: pause_or_resume_def mon_keeps split: option.split)

lemma on_record_state_inv [mon_keeps]: "mon_inv m \<Longrightarrow> mon_inv (on_record_state F now data m)"
  by (simp add: on_record_state_def Let_def mon_keeps split: option.split)

lemma event_detail_inv: "mon_inv m \<Longrightarrow> event_detail F now ty data m = Some (d, m') \<Longrightarrow> mon_inv m'"
  by (auto simp: event_detail_def Let_def mon_keeps split: if_splits option.splits)

lemma on_event_inv [mon_keeps]: "mon_inv m \<Longrightarrow> mon_inv (on_event F now ty data m)"
  by (auto simp: on_event_def on_meters_def fold_on_input_inv mon_keeps dest: event_detail_inv split: option.split)

lemma begin_sample_inv [mon_keeps]: "mon_inv m \<Longrightarrow> mon_inv (snd (begin_sample k m))"
  by (simp add: begin_sample_def Let_def split: SampleKind.split)

lemma finish_sample_ok:
  assumes "mon_inv m"
  obtains b m' where "finish_sample F t now ob m = Some (b, m')" "mon_inv m'"
proof -
  have inv: "mon_inv (release_cell (tk_cell t) m)" using assms by (simp add: release_cell_def)
  obtain m1 where "observe_picture F now (case ob of Obs_Picture l \<Rightarrow> l | _ \<Rightarrow> []) (release_cell (tk_cell t) m) = Some m1" "mon_inv m1"
    using observe_picture_ok [OF inv] by blast
  with inv have "\<exists>b m'. finish_sample F t now ob m = Some (b, m') \<and> mon_inv m'"
    by (cases "tk_kind t"; cases ob) (auto simp: finish_sample_def Let_def mon_keeps)
  then show thesis using that by blast
qed

lemma finish_cleanup_ok:
  assumes "mon_inv m"
  obtains r m' where "finish_cleanup F m = Some (r, m')" "mon_inv m'"
proof -
  have "mon_inv ((close_blank a (close_still F a m))\<lparr>mon_phase := Mon_Stopped\<rparr>)" if "mon_phase m = Mon_Stopping" for a
  proof -
    have "stopped_at_ms (close_blank a (close_still F a m)) = stopped_at_ms m"
      by (simp add: close_blank_def close_still_def split: option.split)
    moreover have "mon_inv (close_blank a (close_still F a m))" using assms by (simp add: mon_keeps)
    ultimately show ?thesis using assms that by (simp add: mon_inv_def mon_bounded_def)
  qed
  moreover have "stopped_at_ms m \<noteq> None" if "mon_phase m = Mon_Stopping" using assms that by (simp add: mon_inv_def)
  ultimately have "\<exists>r m'. finish_cleanup F m = Some (r, m') \<and> mon_inv m'"
    using assms by (auto simp: finish_cleanup_def Let_def)
  then show thesis using that by blast
qed

lemma mon_step_inv: "mon_step F m m' \<Longrightarrow> mon_inv m \<Longrightarrow> mon_inv m'"
proof (induction rule: mon_step.induct)
  case (cleans m r m')
  then show ?case using finish_cleanup_ok [of m F] by auto
next
  case (sampled t now ob m b m')
  then show ?case using finish_sample_ok [of m F t now ob] by auto
next
  case (picture now l m m')
  then show ?case using observe_picture_ok [of m F now l] by auto
qed (simp_all add: mon_keeps bind_resource_events_def expect_stop_def begin_stop_expectation_def
    rollback_stop_expectation_def drop_ticket_def release_cell_def)

lemma mon_reachable_inv: "(mon_step F)\<^sup>*\<^sup>* (new_monitor F ms text opts owner) m \<Longrightarrow> mon_inv m"
  by (induction rule: rtranclp_induct) (simp_all add: new_monitor_inv mon_step_inv)

section \<open>A stopped monitor\<close>

text \<open>Only the chapters, the expectation, the counted notices and the released tickets may differ.\<close>

definition retouched :: "'f monitor \<Rightarrow> 'f monitor \<Rightarrow> bool" where
  "retouched m m' \<longleftrightarrow> (\<exists>e p n xs cs. m' = m\<lparr>stop_expected := e, has_publisher := p, notices := n,
     chapters := chapters m @ xs, active_cells := cs\<rparr>)"

lemma retouchedI: "m' = m\<lparr>stop_expected := e, has_publisher := p, notices := n, chapters := chapters m @ xs, active_cells := cs\<rparr>
    \<Longrightarrow> retouched m m'"
  unfolding retouched_def by blast

lemma retouched_refl: "retouched m m"
  by (rule retouchedI [where e = "stop_expected m" and p = "has_publisher m" and n = "notices m" and xs = "[]"
        and cs = "active_cells m"]) simp

lemma retouched_trans: "retouched a b \<Longrightarrow> retouched b c \<Longrightarrow> retouched a c"
  unfolding retouched_def by force

lemma retouched_upd:
  "retouched m (m\<lparr>stop_expected := e\<rparr>)" "retouched m (m\<lparr>has_publisher := p\<rparr>)" "retouched m (m\<lparr>active_cells := cs\<rparr>)"
  "retouched m (m\<lparr>chapters := chapters m @ xs, notices := n\<rparr>)" "retouched m (m\<lparr>chapters := chapters m @ xs\<rparr>)"
  subgoal by (rule retouchedI [where e = e and p = "has_publisher m" and n = "notices m" and xs = "[]" and cs = "active_cells m"]) simp
  subgoal by (rule retouchedI [where e = "stop_expected m" and p = p and n = "notices m" and xs = "[]" and cs = "active_cells m"]) simp
  subgoal by (rule retouchedI [where e = "stop_expected m" and p = "has_publisher m" and n = "notices m" and xs = "[]" and cs = cs]) simp
  subgoal by (rule retouchedI [where e = "stop_expected m" and p = "has_publisher m" and n = n and xs = xs and cs = "active_cells m"]) simp
  subgoal by (rule retouchedI [where e = "stop_expected m" and p = "has_publisher m" and n = "notices m" and xs = xs and cs = "active_cells m"]) simp
  done

lemma retouched_stopped: "retouched m m' \<Longrightarrow> mon_phase m' = mon_phase m \<and> stopped_at_ms m' = stopped_at_ms m"
  by (auto simp: retouched_def)

lemma stopped_step:
  assumes "mon_step F m m'" and "mon_inv m" and "mon_phase m = Mon_Stopped"
  shows "retouched m m'"
  using assms
proof (induction rule: mon_step.induct)
  case (sampled t now ob m b m')
  then have "stopped_at_ms m \<noteq> None" by (simp add: mon_inv_def)
  with sampled have "m' = release_cell (tk_cell t) m"
    by (cases "tk_kind t"; cases ob)
      (auto simp: finish_sample_def Let_def observe_picture_def observe_stats_def release_cell_def split: if_splits)
  then show ?case by (simp add: release_cell_def retouched_upd)
next
  case (picture now l m m')
  then have "m' = m" by (auto simp: mon_inv_def observe_picture_def)
  then show ?case by (simp add: retouched_refl)
qed (auto simp: mon_inv_def bind_resource_events_def load_tracks_def tracks_unknown_def load_program_scene_def
    listening_def complete_setup_def mark_def resource_changed_def expect_stop_def begin_stop_expectation_def
    rollback_stop_expectation_def begin_stop_def finish_cleanup_def begin_sample_def drop_ticket_def release_cell_def
    on_disconnect_def on_event_def observe_stats_def retouched_refl retouched_upd)

lemma stopped_run:
  assumes "(mon_step F)\<^sup>*\<^sup>* m m'" and "mon_inv m" and "mon_phase m = Mon_Stopped"
  shows "retouched m m' \<and> mon_inv m'"
  using assms(1)
proof induction
  case (step a b)
  from step.IH have "mon_phase a = Mon_Stopped" using retouched_stopped [of m a] assms(3) by simp
  with step show ?case
    using stopped_step [of F a b] mon_step_inv [of F a b] retouched_trans [of m a b] by blast
qed (use assms retouched_refl in auto)

lemma summary_retouched:
  assumes "retouched m m'" and "stopped_at_ms m \<noteq> None"
  shows "summary F t' m' = (summary F t m)\<lparr>sum_chapters := chapters m'\<rparr>"
  using assms by (auto simp: retouched_def summary_def mon_now_def open_span_def)

section \<open>Properties\<close>


text \<open>The report of a stopped monitor is final. Once the cleanup has stopped the monitor, no later
  call, sample or event changes its summary, at whatever time it is read, but for chapters appended
  by marks.\<close>

lemma stopped_summary_final:
  assumes "(mon_step F)\<^sup>*\<^sup>* (new_monitor F ms text opts owner) m" and "mon_phase m = Mon_Stopped"
    and "(mon_step F)\<^sup>*\<^sup>* m m'"
  shows "\<exists>marks. summary F t' m' = (summary F t m)\<lparr>sum_chapters := sum_chapters (summary F t m) @ marks\<rparr>"
proof -
  have inv: "mon_inv m" by (rule mon_reachable_inv [OF assms(1)])
  have r: "retouched m m'" using stopped_run [OF assms(3) inv assms(2)] by blast
  moreover from r obtain xs where "chapters m' = chapters m @ xs" by (auto simp: retouched_def)
  moreover have "stopped_at_ms m \<noteq> None" using inv assms(2) by (simp add: mon_inv_def)
  ultimately show ?thesis
    using summary_retouched [of m m' F t' t] by (auto simp: summary_def)
qed

section \<open>A sample monitor\<close>

definition sample_f64 :: "rat f64" where
  "sample_f64 = \<lparr>of_i64 = rat_of_int, lit = (\<lambda>q. q), of_number = (\<lambda>n. case n of Float q \<Rightarrow> q | NegInt i \<Rightarrow> of_int i | PosInt w \<Rightarrow> of_nat (unat w)),
     fadd = (+), fsub = (-), fmul = (*), fdiv = (/), ffloor = (\<lambda>q. of_int \<lfloor>q\<rfloor>), flog10 = (\<lambda>q. q), fabs = abs, fmax = max,
     fless = (<), feq = (=), is_nan = (\<lambda>_. False), nan = 0, infinity = 10 ^ 308, neg_infinity = - (10 ^ 308),
     display = (\<lambda>_. []), lower_exp = (\<lambda>_. []), parse_f64 = (\<lambda>_. None),
     to_bits = (\<lambda>_. 0), to_json = (\<lambda>q. JNumber (Float q))\<rparr>"

definition sample_monitor :: "rat monitor" where
  "sample_monitor = new_monitor sample_f64 1000 ''start'' (default_monitor_options sample_f64) 0"

definition sample_ended :: "rat monitor" where
  "sample_ended = snd (the (finish_cleanup sample_f64 (snd (begin_stop 5000 sample_monitor))))"

lemma sample_ended_run:
  "(mon_step sample_f64)\<^sup>*\<^sup>* (new_monitor sample_f64 1000 ''start'' (default_monitor_options sample_f64) 0) sample_ended"
    "mon_phase sample_ended = Mon_Stopped" "chapters sample_ended = []"
proof -
  let ?m = "snd (begin_stop 5000 sample_monitor)"
  have p: "mon_phase ?m = Mon_Stopping" "stopped_at_ms ?m = Some 5000" "\<not> samples_pending ?m" "chapters ?m = []"
    by (simp_all add: begin_stop_def sample_monitor_def new_monitor_def samples_pending_def slot_active_def busy_def)
  then obtain m' where m': "finish_cleanup sample_f64 ?m = Some (Ok (), m')"
    by (simp add: finish_cleanup_def Let_def)
  then have e: "sample_ended = m'" by (simp add: sample_ended_def)
  have "mon_step sample_f64 sample_monitor ?m" by (rule mon_step.stops)
  moreover have "mon_step sample_f64 ?m sample_ended" unfolding e by (rule mon_step.cleans [OF m'])
  ultimately show "(mon_step sample_f64)\<^sup>*\<^sup>* (new_monitor sample_f64 1000 ''start'' (default_monitor_options sample_f64) 0) sample_ended"
    unfolding sample_monitor_def by (rule converse_rtranclp_into_rtranclp [OF _ r_into_rtranclp])
  show "mon_phase sample_ended = Mon_Stopped" "chapters sample_ended = []"
    using m' p unfolding e by (auto simp: finish_cleanup_def Let_def resource_changed_def close_blank_def close_still_def
        split: option.split)
qed


end
