(* ===== verification/Take_Report.thy ===== *)
theory Take_Report
  imports Take_Monitor
begin

text \<open>
  The report of a finished Take, \<open>take_result\<close> and the texts around it of \<open>src/native/src/takes.rs\<close>,
  and the JSON of a monitor's summary (\<open>serde\<close> of \<open>take_monitor.rs\<close>): what was recorded, what the
  file inspection found, and the verdict.
\<close>

section \<open>Numbers\<close>

definition num :: "'f f64 \<Rightarrow> 'f \<Rightarrow> string" where
  "num F n = (if is_nan F n then ''NaN'' else if feq F n (neg_infinity F) then ''-Infinity''
     else if feq F n (infinity F) then ''Infinity'' else if feq F n (lit F 0) then ''0'' else display F n)"

definition is_finite :: "'f f64 \<Rightarrow> 'f \<Rightarrow> bool" where
  "is_finite F n \<longleftrightarrow> \<not> is_nan F n \<and> \<not> feq F n (infinity F) \<and> \<not> feq F n (neg_infinity F)"

text \<open>The tenths of a float from its bits: eleven bits of exponent, 52 of fraction, rounded half up.\<close>

definition tenths_of_bits :: "u64 \<Rightarrow> nat" where
  "tenths_of_bits bits =
     (let exponent = (unat bits div 2 ^ 52) mod 2048;
          mantissa = (unat bits mod 2 ^ 52 + (if exponent = 0 then 0 else 2 ^ 52)) * 10;
          shift = (if exponent = 0 then - 1074 else int exponent - 1023 - 52)
      in if 0 \<le> shift then mantissa * 2 ^ nat shift
         else if 128 \<le> - shift then 0
         else (let divisor = 2 ^ nat (- shift) in mantissa div divisor + (if divisor div 2 \<le> mantissa mod divisor then 1 else 0)))"

definition fixed1 :: "'f f64 \<Rightarrow> 'f \<Rightarrow> string" where
  "fixed1 F n =
     (if \<not> is_finite F n \<or> fge F (fabs F n) (lit F (10 ^ 21)) then num F n
      else (let tenths = tenths_of_bits (to_bits F (fabs F n))
            in (if fless F n (lit F 0) then ''-'' else []) @ dec (tenths div 10) @ ''.'' @ dec (tenths mod 10)))"

section \<open>The summary as JSON\<close>

fun warning_kind_name :: "WarningKind \<Rightarrow> string" where
  "warning_kind_name Audio = ''audio''"
| "warning_kind_name Blank = ''blank''"
| "warning_kind_name Frames_Warning = ''frames''"
| "warning_kind_name Output_Warning = ''output''"
| "warning_kind_name Connection_Warning = ''connection''"

definition warning_value :: "'f f64 \<Rightarrow> 'f Warning \<Rightarrow> json" where
  "warning_value F w = mk_object [(''atSeconds'', to_json F (w_at w)), (''kind'', JString (warning_kind_name (w_kind w))),
     (''message'', JString (w_message w))]"

definition event_value :: "'f f64 \<Rightarrow> 'f Event \<Rightarrow> json" where
  "event_value F e = mk_object ([(''atSeconds'', to_json F (ev_at e)), (''type'', JString (ev_type e))] @
     (case ev_detail e of None \<Rightarrow> [] | Some d \<Rightarrow> [(''detail'', JString d)]))"

definition chapter_value :: "'f f64 \<Rightarrow> 'f Chapter \<Rightarrow> json" where
  "chapter_value F c = mk_object [(''atSeconds'', to_json F (ch_at c)), (''name'', JString (ch_name c))]"

definition span_value :: "'f f64 \<Rightarrow> 'f Span \<Rightarrow> json" where
  "span_value F s = mk_object [(''startSeconds'', to_json F (start_seconds s)), (''endSeconds'', to_json F (end_seconds s))]"

definition level_value :: "'f f64 \<Rightarrow> 'f InputLevel \<Rightarrow> json" where
  "level_value F l = mk_object [(''inputName'', JString (input_name l)), (''peakDb'', to_json F (peak_db l)),
     (''inputPeakDb'', to_json F (input_peak_db l)), (''recorded'', JBool (recorded l))]"

definition frames_value :: "'f f64 \<Rightarrow> 'f Frames \<Rightarrow> json" where
  "frames_value F f = mk_object [(''renderSkipped'', to_json F (render_skipped f)), (''renderTotal'', to_json F (render_total f)),
     (''outputSkipped'', to_json F (output_skipped f)), (''outputTotal'', to_json F (output_total f))]"

definition summary_value :: "'f f64 \<Rightarrow> 'f Summary \<Rightarrow> json" where
  "summary_value F s = mk_object
     [(''running'', JBool (sum_running s)), (''startedAt'', JString (sum_started_at s)),
      (''durationSeconds'', to_json F (duration_seconds s)), (''expectSilent'', JBool (sum_expect_silent s)),
      (''silenceThresholdDb'', to_json F (sum_threshold s)),
      (''warnings'', JArray (map (warning_value F) (sum_warnings s))), (''events'', JArray (map (event_value F) (sum_events s))),
      (''chapters'', JArray (map (chapter_value F) (sum_chapters s))), (''audio'', JArray (map (level_value F) (sum_audio s))),
      (''frames'', frames_value F (sum_frames s)), (''stills'', JArray (map (span_value F) (sum_stills s))),
      (''blanks'', JArray (map (span_value F) (sum_blanks s))), (''framesSampled'', of_u64 (sum_frames_sampled s)),
      (''pictureChecks'', JString (sum_picture_checks s))]"

record 'f ClipCheck =
  cc_duration :: "'f option"
  audio_streams :: "u64 option"
  video_streams :: "u64 option"
  max_volume_db :: "'f option"
  cc_skipped :: "string option"

definition no_check :: "string \<Rightarrow> 'f ClipCheck" where
  "no_check why = \<lparr>cc_duration = None, audio_streams = None, video_streams = None, max_volume_db = None, cc_skipped = Some why\<rparr>"

definition opt_entry :: "string \<Rightarrow> ('a \<Rightarrow> json) \<Rightarrow> 'a option \<Rightarrow> (string \<times> json) list" where
  "opt_entry k f v = (case v of None \<Rightarrow> [] | Some x \<Rightarrow> [(k, f x)])"

definition clip_fields :: "'f f64 \<Rightarrow> 'f ClipCheck \<Rightarrow> (string \<times> json) list" where
  "clip_fields F c = opt_entry ''durationSeconds'' (to_json F) (cc_duration c) @ opt_entry ''audioStreams'' of_u64 (audio_streams c) @
     opt_entry ''videoStreams'' of_u64 (video_streams c) @ opt_entry ''maxVolumeDb'' (to_json F) (max_volume_db c) @
     opt_entry ''skipped'' JString (cc_skipped c)"

section \<open>Texts\<close>

definition loudest_line :: "'f f64 \<Rightarrow> 'f Summary \<Rightarrow> string" where
  "loudest_line F s =
     (case opt_filter (\<lambda>l. fless F (sum_threshold s) (peak_db l)) (List.find recorded (sum_audio s)) of
        None \<Rightarrow> ''Monitor: no recorded input rose above '' @ num F (sum_threshold s) @ '' dB''
      | Some l \<Rightarrow> ''Monitor: loudest recorded input '' @ input_name l @ '' at '' @ num F (peak_db l) @ '' dB'')"

definition still_total :: "'f f64 \<Rightarrow> 'f Summary \<Rightarrow> 'f" where
  "still_total F s = fold (\<lambda>sp total. fadd F total (fsub F (end_seconds sp) (start_seconds sp))) (sum_stills s) (lit F 0)"

definition still_note :: "'f f64 \<Rightarrow> 'f Summary \<Rightarrow> string" where
  "still_note F s = (if sum_stills s = [] then ''no qualified unchanged stretch reported''
     else num F (fdiv F (ffloor F (fadd F (fmul F (still_total F s) (lit F 100)) (lit F (1/2)))) (lit F 100)) @ ''s unchanged'')"

definition warning_line :: "'f f64 \<Rightarrow> 'f Warning \<Rightarrow> string" where
  "warning_line F w = ''Warning at '' @ num F (w_at w) @ ''s: '' @ w_message w"

definition describe :: "'f f64 \<Rightarrow> 'f Summary \<Rightarrow> string list" where
  "describe F s =
     [loudest_line F s] @
     (if fless F (lit F 0) (fadd F (render_skipped (sum_frames s)) (output_skipped (sum_frames s)))
      then [''Monitor: '' @ num F (render_skipped (sum_frames s)) @ '' frame(s) missed rendering, '' @
            num F (output_skipped (sum_frames s)) @ '' skipped encoding''] else []) @
     (if sum_picture_checks s = ''on''
      then [''Monitor: '' @ dec (unat (sum_frames_sampled s)) @ '' picture sample(s), '' @ dec (length (sum_blanks s)) @
            '' black stretch(es), '' @ still_note F s] else []) @
     map (warning_line F) (sum_warnings s)"

section \<open>The verdict\<close>

text \<open>What a report is about: the Take's identity, whether silence was expected, and its chapter notes.\<close>

definition warning_problem :: "bool \<Rightarrow> 'f Warning \<Rightarrow> bool" where
  "warning_problem silent w \<longleftrightarrow> w_kind w = Blank \<or> w_kind w = Output_Warning \<or> w_kind w = Audio \<and> silent"

definition take_problems :: "'f f64 \<Rightarrow> bool \<Rightarrow> 'f Summary \<Rightarrow> 'f ClipCheck \<Rightarrow> 'f option \<Rightarrow> string list" where
  "take_problems F silent s check requested =
     map (\<lambda>w. ''At '' @ num F (w_at w) @ ''s: '' @ w_message w) (filter (warning_problem silent) (sum_warnings s)) @
     (case opt_filter (\<lambda>d. fless F d (fsub F (case requested of None \<Rightarrow> duration_seconds s | Some r \<Rightarrow> r) (lit F 2))) (cc_duration check) of
        None \<Rightarrow> []
      | Some d \<Rightarrow> [case requested of
            Some r \<Rightarrow> ''The file is '' @ fixed1 F d @ ''s, shorter than the requested '' @ num F r @ ''s''
          | None \<Rightarrow> ''The file is '' @ fixed1 F d @ ''s, but the take ran '' @ num F (duration_seconds s) @ ''s'']) @
     (case opt_filter (\<lambda>v. silent \<and> fless F (lit F (- 60)) v) (max_volume_db check) of
        None \<Rightarrow> [] | Some v \<Rightarrow> [''Expected silence, but the audio peaks at '' @ num F v @ '' dB'']) @
     (if video_streams check = Some 0 then [''The recording has no video stream''] else [])"

definition not_verified :: "'f ClipCheck \<Rightarrow> string option" where
  "not_verified check = opt_filter (\<lambda>r. r \<noteq> []) (cc_skipped check)"

definition verdict :: "string list \<Rightarrow> 'f ClipCheck \<Rightarrow> string" where
  "verdict problems check = (if problems \<noteq> [] then ''fail'' else if not_verified check \<noteq> None then ''unavailable'' else ''pass'')"

definition verification_value :: "string list \<Rightarrow> 'f ClipCheck \<Rightarrow> json" where
  "verification_value problems check = mk_object ([(''status'', JString (verdict problems check)),
     (''scope'', JString ''File duration, video presence, expected silence, and observed monitor warnings; capture identity and framing require separate review'')] @
     opt_entry ''reason'' JString (not_verified check))"

definition starts_with :: "string \<Rightarrow> string \<Rightarrow> bool" where
  "starts_with p s \<longleftrightarrow> take (length p) s = p"

definition checks_line :: "'f f64 \<Rightarrow> string list \<Rightarrow> 'f ClipCheck \<Rightarrow> string" where
  "checks_line F problems check = (case not_verified check of
     Some why \<Rightarrow> ''Not verified: '' @ why
   | None \<Rightarrow> ''File checks '' @ verdict problems check @ '': '' @
       (case cc_duration check of None \<Rightarrow> ''undefined'' | Some d \<Rightarrow> fixed1 F d) @ ''s, '' @
       (case audio_streams check of None \<Rightarrow> ''undefined'' | Some n \<Rightarrow> dec (unat n)) @ '' audio stream(s)'' @
       (case max_volume_db check of None \<Rightarrow> [] | Some v \<Rightarrow> '', peak '' @ num F v @ '' dB''))"

definition report_lines :: "'f f64 \<Rightarrow> string list \<Rightarrow> string list \<Rightarrow> 'f Summary \<Rightarrow> string \<Rightarrow> 'f ClipCheck \<Rightarrow> string option \<Rightarrow>
    'f option \<Rightarrow> string list" where
  "report_lines F problems notes s path check takelog requested =
     [''Recorded '' @ num F (case requested of None \<Rightarrow> duration_seconds s | Some r \<Rightarrow> r) @ ''s to '' @ path,
      checks_line F problems check] @
     filter (\<lambda>l. \<not> starts_with ''Warning'' l) (describe F s) @
     (if sum_chapters s = [] then []
      else [''Chapters: '' @ join_with '', '' (map (\<lambda>c. num F (ch_at c) @ ''s '' @ ch_name c) (sum_chapters s))]) @
     (case opt_filter (\<lambda>l. l \<noteq> []) takelog of None \<Rightarrow> [] | Some l \<Rightarrow> [''Take log: '' @ l]) @
     notes @ map (\<lambda>p. ''Problem: '' @ p) problems"

definition text_content :: "string \<Rightarrow> json" where
  "text_content t = JArray [mk_object [(''type'', JString ''text''), (''text'', JString t)]]"

definition take_result :: "'f f64 \<Rightarrow> string \<Rightarrow> bool \<Rightarrow> string list \<Rightarrow> 'f Summary \<Rightarrow> string \<Rightarrow> 'f ClipCheck \<Rightarrow>
    string option \<Rightarrow> 'f option \<Rightarrow> json" where
  "take_result F tid silent notes s path check takelog requested =
     (let problems = take_problems F silent s check requested;
          structured = mk_object (clip_fields F check @ [(''takeId'', JString tid),
            (''verification'', verification_value problems check), (''outputPath'', JString path),
            (''chapterNotes'', JArray (map JString notes)), (''problems'', JArray (map JString problems)),
            (''takeLog'', of_option JString takelog), (''take'', summary_value F s)])
      in mk_object ([(''content'', text_content (join_with [char_of (10 :: nat)] (report_lines F problems notes s path check takelog requested))),
           (''structuredContent'', structured)] @ (if problems \<noteq> [] then [(''isError'', JBool True)] else [])))"

text \<open>The verdict is a pass exactly when the file was inspected and nothing speaks against it.\<close>

lemma verdict_pass:
  "verdict (take_problems F silent s check requested) check = ''pass'' \<longleftrightarrow>
     not_verified check = None \<and> (\<forall>w \<in> set (sum_warnings s). \<not> warning_problem silent w) \<and>
     (\<forall>d. cc_duration check = Some d \<longrightarrow> \<not> fless F d (fsub F (case requested of None \<Rightarrow> duration_seconds s | Some r \<Rightarrow> r) (lit F 2))) \<and>
     (\<forall>v. max_volume_db check = Some v \<longrightarrow> silent \<longrightarrow> \<not> fless F (lit F (- 60)) v) \<and> video_streams check \<noteq> Some 0"
proof -
  have "take_problems F silent s check requested = [] \<longleftrightarrow> (\<forall>w \<in> set (sum_warnings s). \<not> warning_problem silent w) \<and>
     (\<forall>d. cc_duration check = Some d \<longrightarrow> \<not> fless F d (fsub F (case requested of None \<Rightarrow> duration_seconds s | Some r \<Rightarrow> r) (lit F 2))) \<and>
     (\<forall>v. max_volume_db check = Some v \<longrightarrow> silent \<longrightarrow> \<not> fless F (lit F (- 60)) v) \<and> video_streams check \<noteq> Some 0"
    by (auto simp: take_problems_def filter_empty_conv opt_filter_None split: option.split)
  then show ?thesis by (auto simp: verdict_def)
qed

end
