(* ===== verification/Takes.thy ===== *)
theory Takes
  imports Record_Impact Take_Report Custody
begin

text \<open>
  The Take supervisor, \<open>src/native/src/takes.rs\<close>: one recording at a time is started, watched, marked
  and stopped under durable receipts. This theory holds its state and its synchronous operations:
  reservation of a start, the guard every request passes at the moment it is sent, what an OBS event
  does to the continuity of the recording, the deadline, and the receipts of a stop. The workflow of
  a stop is in \<open>Take_Stop\<close>.

  The takes that were created are a list; jobs refer to them by position, as the code does by
  reference. Registry, control domain and store are those of the other components. The file system
  during a store call, the clock and fresh identities are in the record \<open>store_io\<close>. Locks are taken as
  never poisoned. The broadcast of events to waiting jobs belongs to the workflow.
\<close>

section \<open>State\<close>

datatype Effect = StartRecord | StopRecord | Chapter_Effect string

fun effect_request_type :: "Effect \<Rightarrow> string" where
  "effect_request_type StartRecord = ''StartRecord''"
| "effect_request_type StopRecord = ''StopRecord''"
| "effect_request_type (Chapter_Effect _) = ''CreateRecordChapter''"

fun effect_request_data :: "Effect \<Rightarrow> json" where
  "effect_request_data (Chapter_Effect name) = mk_object [(''chapterName'', JString name)]"
| "effect_request_data _ = JNull"

datatype DispatchError = DE_BeforeDispatch string | DE_Rejected u64 string | DE_Unknown string

fun dispatch_message :: "DispatchError \<Rightarrow> string" where
  "dispatch_message (DE_BeforeDispatch m) = m"
| "dispatch_message (DE_Rejected _ m) = m"
| "dispatch_message (DE_Unknown m) = m"

record Policy =
  pol_caller :: string
  pol_confirmation_enabled :: bool
  pol_can_elicit :: bool
  pol_input_responses :: "json option"

record 'f StartOptions =
  so_expect_silent :: bool
  min_free_disk_mb :: 'f
  so_lock :: bool
  so_chapter :: "string option"
  max_duration_seconds :: "u16 option"
  require_verified_preflight :: bool

definition default_start_options :: "'f f64 \<Rightarrow> 'f StartOptions" where
  "default_start_options F = \<lparr>so_expect_silent = False, min_free_disk_mb = lit F 1024, so_lock = True, so_chapter = None,
     max_duration_seconds = None, require_verified_preflight = False\<rparr>"

record Continuity =
  con_started :: bool
  con_stopped :: bool
  con_lost :: "string option"
  con_path :: "string option"

definition new_continuity :: Continuity where
  "new_continuity = \<lparr>con_started = False, con_stopped = False, con_lost = None, con_path = None\<rparr>"

text \<open>A start may carry a cancellation; whether it was triggered is an argument where it is asked.\<close>

record StartReservation =
  sr_cancellable :: bool
  sr_impact :: TakeImpactTicket
  sr_impact_deadline :: "nat option"
  sr_receipt :: "OperationRecord option"
  sr_receipt_unavailable :: bool
  sr_continuity :: Continuity

record 'f Take =
  impact :: TakeImpactTicket
  blocked_impact :: "u64 option"
  t_id :: string
  t_options :: "'f StartOptions"
  t_policy :: Policy
  t_local :: bool
  t_monitor :: "'f monitor"
  continuity :: Continuity
  start_operation :: "OperationRecord option"
  stop_operation :: "OperationRecord option"
  t_receipt_unavailable :: bool
  stop_uncertain :: bool
  stop_running :: bool
  stop_result :: "json option"
  last_stop :: "json option"
  chapter_notes :: "string list"
  lease_holder :: "string option"
  t_deadline :: "nat option"
  deadline_fired :: bool
  setup_pending :: bool
  monitor_stop_running :: bool
  monitor_summary :: "'f Summary option"
  next_stats :: "nat option"
  next_picture :: "nat option"
  program :: "string option"

record ('b, 'f) supervisor =
  sv_view :: RecordImpactView
  sv_registry :: impact_inner
  sv_token :: u64
  sv_store :: "'b operation_store"
  sv_control :: ControlDomain
  sv_closing :: bool
  sv_closed :: bool
  starting :: "StartReservation option"
  takes :: "'f Take list"
  current :: "nat option"
  completed :: "json option"

text \<open>The parameters of the whole supervisor: the codec of the store, the digest of a scene collection,
  the formats of floats in questions.\<close>

record 'b take_env =
  te_text :: "'b text_codec"
  te_hash :: "string \<Rightarrow> string"
  te_float :: float_text

record 'b store_io =
  si_views :: "'b ios"
  si_writes :: "'b persist_io"
  si_utc :: string
  si_identity :: string

definition with_take :: "nat \<Rightarrow> ('f Take \<Rightarrow> 'f Take) \<Rightarrow> ('b, 'f) supervisor \<Rightarrow> ('b, 'f) supervisor" where
  "with_take k f sv = sv\<lparr>takes := (takes sv)[k := f (takes sv ! k)]\<rparr>"

section \<open>Results\<close>

definition take_error :: "string \<Rightarrow> json" where
  "take_error text = mk_object [(''content'', text_content text), (''isError'', JBool True)]"

definition no_take :: json where
  "no_take = take_error ''No take is recording; start one with obs-take-start''"

section \<open>Recording impact\<close>

definition IMPACT_LOST :: string where
  "IMPACT_LOST = ''External recording-impact operation invalidated owned recording authority''"

definition DISCONNECTED :: string where
  "DISCONNECTED = ''OBS disconnected; recording ownership cannot be established after reconnect''"

fun lost_reason :: "Revocation \<Rightarrow> string" where
  "lost_reason Rev_ConnectionClosed = DISCONNECTED"
| "lost_reason Rev_OwnerGone = ''Recording-impact owner is unavailable''"
| "lost_reason Rev_Poisoned = ''Recording-impact authority is unavailable''"
| "lost_reason Rev_IdentityExhausted = ''Recording-impact authority is unavailable''"
| "lost_reason _ = IMPACT_LOST"

definition note_revocation :: "ImpactStatus \<Rightarrow> Continuity \<Rightarrow> Continuity" where
  "note_revocation status c = (case status of
     Revoked r \<Rightarrow> if con_lost c = None then c\<lparr>con_lost := Some (lost_reason r)\<rparr> else c | _ \<Rightarrow> c)"

definition apply_impact :: "bool \<Rightarrow> TakeImpactTicket \<Rightarrow> Continuity \<Rightarrow> impact_inner \<Rightarrow> ImpactStatus \<times> Continuity \<times> impact_inner" where
  "apply_impact up t c i = (case check_ticket up t i of (status, j) \<Rightarrow> (status, note_revocation status c, j))"

definition take_impact :: "bool \<Rightarrow> nat \<Rightarrow> ('b, 'f) supervisor \<Rightarrow> ImpactStatus \<times> ('b, 'f) supervisor" where
  "take_impact up k sv =
     (case apply_impact up (impact (takes sv ! k)) (continuity (takes sv ! k)) (sv_registry sv) of
        (status, c, j) \<Rightarrow> (status, with_take k (\<lambda>t. t\<lparr>continuity := c\<rparr>) (sv\<lparr>sv_registry := j\<rparr>)))"

definition start_impact :: "bool \<Rightarrow> StartReservation \<Rightarrow> ('b, 'f) supervisor \<Rightarrow> ImpactStatus \<times> ('b, 'f) supervisor" where
  "start_impact up st sv = (case apply_impact up (sr_impact st) (sr_continuity st) (sv_registry sv) of
     (status, c, j) \<Rightarrow> (status, sv\<lparr>sv_registry := j, starting := Some (st\<lparr>sr_continuity := c\<rparr>)\<rparr>))"

section \<open>Receipts\<close>

definition take_details :: "string \<Rightarrow> PrepareDetails" where
  "take_details tid = \<lparr>scene_collection = None, d_scene_uuid = None, d_stage_id = None, d_take_id = Some tid\<rparr>"

definition take_prepare :: "'b take_env \<Rightarrow> 'b store_io \<Rightarrow> OperationKind \<Rightarrow> string \<Rightarrow> ('b, 'f) supervisor \<Rightarrow>
    (StoreError, OperationRecord) result \<times> ('b, 'f) supervisor" where
  "take_prepare E io k tid sv =
     (case os_prepare (te_text E) (si_views io) (si_writes io) (te_hash E) (si_identity io) k (sv_token sv) (si_utc io)
             (take_details tid) (sv_store sv) of
        (r, st) \<Rightarrow> (r, sv\<lparr>sv_store := st\<rparr>))"

definition take_update :: "'b take_env \<Rightarrow> 'b store_io \<Rightarrow> OperationRecord \<Rightarrow> OperationUpdate \<Rightarrow> ('b, 'f) supervisor \<Rightarrow>
    (StoreError, OperationRecord) result \<times> ('b, 'f) supervisor" where
  "take_update E io r u sv =
     (case os_update (te_text E) (si_views io) (si_writes io) r u (si_utc io) (sv_store sv) of
        (out, st) \<Rightarrow> (out, sv\<lparr>sv_store := st\<rparr>))"

definition accepted_update :: OperationUpdate where
  "accepted_update = (new_update Accepted)\<lparr>u_request_dispatched := Some (Some True), u_request_accepted := Some (Some True)\<rparr>"

definition unsent_update :: OperationUpdate where
  "unsent_update = (new_update NotDispatched)\<lparr>u_request_dispatched := Some (Some False), u_request_accepted := Some None,
     u_postcondition_observed := Some False\<rparr>"

definition rejected_update :: OperationUpdate where
  "rejected_update = (new_update Unknown)\<lparr>u_request_dispatched := Some (Some True), u_request_accepted := Some (Some False)\<rparr>"

definition observed_update :: OperationUpdate where
  "observed_update = (new_update Observed)\<lparr>u_postcondition_observed := Some True\<rparr>"

text \<open>An unsent stop: only the very reservation of this Take, still dispatching, is retired.\<close>

definition retirable :: "string \<Rightarrow> OperationRecord \<Rightarrow> bool" where
  "retirable tid r \<longleftrightarrow> phase r = Dispatching \<and> kind r = RecordStop \<and> take_id r = Some tid \<and>
     request_dispatched r = None \<and> request_accepted r = None \<and> \<not> postcondition_observed r"

definition retire_unsent_stop :: "'b take_env \<Rightarrow> 'b store_io \<Rightarrow> nat \<Rightarrow> ('b, 'f) supervisor \<Rightarrow>
    (StoreError, OperationRecord) result \<times> ('b, 'f) supervisor" where
  "retire_unsent_stop E io k sv = (case stop_operation (takes sv ! k) of
     None \<Rightarrow> (Err Conflict, sv)
   | Some r \<Rightarrow>
       if \<not> retirable (t_id (takes sv ! k)) r then (Err Conflict, sv)
       else (case take_update E io r unsent_update sv of
           (Err e, sv') \<Rightarrow> (Err e, sv')
         | (Ok retired, sv') \<Rightarrow>
             (Ok retired, with_take k (\<lambda>t. t\<lparr>stop_uncertain := False, stop_operation := None\<rparr>) sv')))"

section \<open>The current Take\<close>

definition set_current :: "'f Take \<Rightarrow> ('b, 'f) supervisor \<Rightarrow> ('b, 'f) supervisor" where
  "set_current t sv = sv\<lparr>
     sv_control := set_take_lock (Some \<lparr>lock_id = t_id t, locked = so_lock (t_options t)\<rparr>) (sv_control sv),
     takes := takes sv @ [t], current := Some (length (takes sv))\<rparr>"

definition clear_current :: "nat \<Rightarrow> ('b, 'f) supervisor \<Rightarrow> ('b, 'f) supervisor" where
  "clear_current k sv =
     (if current sv = Some k then sv\<lparr>sv_control := set_take_lock None (sv_control sv), current := None\<rparr> else sv)"

definition release_lease :: "u64 \<Rightarrow> nat \<Rightarrow> ('b, 'f) supervisor \<Rightarrow> ('b, 'f) supervisor" where
  "release_lease now k sv = (case lease_holder (takes sv ! k) of None \<Rightarrow> sv
     | Some who \<Rightarrow> with_take k (\<lambda>t. t\<lparr>lease_holder := None\<rparr>) (sv\<lparr>sv_control := snd (release who now (sv_control sv))\<rparr>))"

definition internal_policy :: "Policy \<Rightarrow> Policy" where
  "internal_policy p = p\<lparr>pol_confirmation_enabled := False\<rparr>"

section \<open>The guard of every request\<close>

definition effect_tool :: "Effect \<Rightarrow> string \<times> json" where
  "effect_tool e = (case e of StartRecord \<Rightarrow> (''obs-take-start'', JObject []) | StopRecord \<Rightarrow> (''obs-take-stop'', JObject [])
     | Chapter_Effect name \<Rightarrow> (''obs-take-mark'', mk_object [(''name'', JString name)]))"

definition effect_request :: "Effect \<Rightarrow> Policy \<Rightarrow> GateRequest" where
  "effect_request e p = \<lparr>tool_name = fst (effect_tool e), arguments = snd (effect_tool e), read_only_hint = False,
     caller = pol_caller p, confirmation = \<lparr>enabled = pol_confirmation_enabled p, can_elicit = pol_can_elicit p,
       input_responses = pol_input_responses p\<rparr>\<rparr>"

definition refusal_text :: "Disposition \<Rightarrow> string" where
  "refusal_text d = (case disposition_result d of None \<Rightarrow> ''Take dispatch refused by policy''
     | Some v \<Rightarrow> (case idx v ''content'' of
         JArray (x # _) \<Rightarrow> (case as_str (idx x ''text'') of Some s \<Rightarrow> s | None \<Rightarrow> ''Take dispatch refused by policy'')
       | _ \<Rightarrow> ''Take dispatch refused by policy''))"

definition guard_ownership :: "nat option \<Rightarrow> Effect \<Rightarrow> ('b, 'f) supervisor \<Rightarrow> string option" where
  "guard_ownership own e sv = (case own of None \<Rightarrow> None
     | Some k \<Rightarrow> if current sv \<noteq> Some k then Some ''Take ownership is no longer current''
         else if e = StopRecord \<and> (con_lost (continuity (takes sv ! k)) \<noteq> None \<or> con_stopped (continuity (takes sv ! k)))
         then Some ''Recording ownership changed before dispatch'' else None)"

definition guard_impact :: "bool \<Rightarrow> Effect \<Rightarrow> ('b, 'f) supervisor \<Rightarrow> string option \<times> ('b, 'f) supervisor" where
  "guard_impact up e sv = (case current sv of
     Some k \<Rightarrow> (case take_impact up k sv of (status, sv') \<Rightarrow>
       (if status = Imp_Ready then None else Some ''Recording impact blocks owned dispatch'',
        case status of Suspended n \<Rightarrow> if e = StopRecord then with_take k (\<lambda>t. t\<lparr>blocked_impact := Some n\<rparr>) sv' else sv'
          | _ \<Rightarrow> sv'))
   | None \<Rightarrow> (case starting sv of None \<Rightarrow> (None, sv)
       | Some st \<Rightarrow> (case start_impact up st sv of (status, sv') \<Rightarrow>
           (if status = Imp_Ready then None else Some ''Recording impact blocks owned dispatch'', sv'))))"

definition guard :: "'b take_env \<Rightarrow> bool \<Rightarrow> bool \<Rightarrow> u64 \<Rightarrow> nat option \<Rightarrow> Effect \<Rightarrow> Policy \<Rightarrow> ('b, 'f) supervisor \<Rightarrow>
    string option \<times> ('b, 'f) supervisor" where
  "guard E up cancelled now own e p sv =
     (if sv_closed sv \<or> e = StartRecord \<and> sv_closing sv then (Some ''Take supervisor is closing'', sv)
      else if e = StartRecord \<and> cancelled \<and> (case starting sv of None \<Rightarrow> False | Some st \<Rightarrow> sr_cancellable st)
      then (Some ''Record Clip cancelled before dispatch'', sv)
      else (case guard_ownership own e sv of Some why \<Rightarrow> (Some why, sv)
        | None \<Rightarrow> (case evaluate (te_float E) (effect_request e p) now (sv_control sv) of (d, c) \<Rightarrow>
            if d = Allow then guard_impact up e (sv\<lparr>sv_control := c\<rparr>)
            else (Some (refusal_text d), sv\<lparr>sv_control := c\<rparr>))))"

section \<open>Reserving a start\<close>

definition options_ok :: "'f f64 \<Rightarrow> 'f StartOptions \<Rightarrow> bool" where
  "options_ok F opts \<longleftrightarrow> is_finite F (min_free_disk_mb opts) \<and> \<not> fless F (min_free_disk_mb opts) (lit F 0) \<and>
     feq F (ffloor F (min_free_disk_mb opts)) (min_free_disk_mb opts) \<and>
     (case max_duration_seconds opts of None \<Rightarrow> True | Some n \<Rightarrow> n \<noteq> 0 \<and> n \<le> 3600) \<and> so_chapter opts \<noteq> Some []"

definition start_ticket :: "bool \<Rightarrow> (TakeImpactTicket \<times> nat) option \<Rightarrow> ('b, 'f) supervisor \<Rightarrow>
    (string, TakeImpactTicket \<times> nat option) result \<times> ('b, 'f) supervisor" where
  "start_ticket up admitted sv = (case admitted of
     Some (ticket, deadline) \<Rightarrow>
       if \<not> owns_ticket (sv_view sv) ticket
       then (Err ''Start Take admission was invalidated by an external recording-impact operation'', sv)
       else (case check_ticket up ticket (sv_registry sv) of (status, i) \<Rightarrow>
         (case status of Revoked _ \<Rightarrow> Err ''Start Take admission was invalidated by an external recording-impact operation''
          | _ \<Rightarrow> Ok (ticket, Some deadline), sv\<lparr>sv_registry := i\<rparr>))
   | None \<Rightarrow> (case reserve_take up (sv_view sv) (sv_registry sv) of
       (Ok ticket, i) \<Rightarrow> (Ok (ticket, None), sv\<lparr>sv_registry := i\<rparr>)
     | (Err _, i) \<Rightarrow> (Err ''Start Take is blocked by an external recording-impact operation'', sv\<lparr>sv_registry := i\<rparr>)))"

text \<open>A refusal, or the reservation made.\<close>

definition reserve_start :: "'f f64 \<Rightarrow> bool \<Rightarrow> 'f StartOptions \<Rightarrow> (TakeImpactTicket \<times> nat) option \<Rightarrow> ('b, 'f) supervisor \<Rightarrow>
    json option \<times> ('b, 'f) supervisor" where
  "reserve_start F up opts admitted sv = (case current sv of
     Some k \<Rightarrow> (Some (take_error (''Take '' @ t_id (takes sv ! k) @ '' is already recording; stop it with obs-take-stop first'')), sv)
   | None \<Rightarrow>
       if starting sv \<noteq> None
       then (Some (take_error ''Another take is being started; wait for it, then stop it with obs-take-stop''), sv)
       else if \<not> options_ok F opts then (Some (take_error ''Start Take failed: Invalid take options''), sv)
       else (case start_ticket up admitted sv of
           (Err why, sv') \<Rightarrow> (Some (take_error why), sv')
         | (Ok (ticket, deadline), sv') \<Rightarrow> (None, sv'\<lparr>completed := None, starting := Some
             \<lparr>sr_cancellable = False, sr_impact = ticket, sr_impact_deadline = deadline, sr_receipt = None,
              sr_receipt_unavailable = False, sr_continuity = new_continuity\<rparr>\<rparr>)))"

text \<open>The Take a confirmed start creates. A start that was confirmed only by status has an uncertain
  identity.\<close>

definition confirmed_continuity :: "Continuity \<Rightarrow> Continuity" where
  "confirmed_continuity c = (if con_started c then c
     else c\<lparr>con_lost := Some ''Start was confirmed only by status; recording identity is uncertain''\<rparr>)"

definition created_take :: "'f f64 \<Rightarrow> int \<Rightarrow> string \<Rightarrow> nat \<Rightarrow> nat \<Rightarrow> string \<Rightarrow> 'f StartOptions \<Rightarrow> Policy \<Rightarrow> bool \<Rightarrow> bool \<Rightarrow>
    OperationRecord option \<Rightarrow> bool \<Rightarrow> StartReservation \<Rightarrow> 'f Take" where
  "created_take F ms stamp owner now tid opts p local publisher receipt unavailable st =
     \<lparr>impact = sr_impact st, blocked_impact = None, t_id = tid, t_options = opts, t_policy = p, t_local = local,
      t_monitor = bind_resource_events publisher (new_monitor F ms stamp
        ((default_monitor_options F)\<lparr>mo_expect_silent := so_expect_silent opts\<rparr>) owner),
      continuity = confirmed_continuity (sr_continuity st), start_operation = receipt, stop_operation = None,
      t_receipt_unavailable = unavailable, stop_uncertain = False, stop_running = False, stop_result = None,
      last_stop = None, chapter_notes = [], lease_holder = None,
      t_deadline = map_option (\<lambda>n. now + unat n * 10 ^ 9) (max_duration_seconds opts), deadline_fired = False,
      setup_pending = True, monitor_stop_running = False, monitor_summary = None, next_stats = None,
      next_picture = None, program = None\<rparr>"

section \<open>Events\<close>

datatype TakeEvent = Obs_Event u64 string json | Disconnected_Event u64 | Barrier_Event u64

text \<open>The connection, the name and the data of an event that is applied.\<close>

fun event_parts :: "TakeEvent \<Rightarrow> (u64 \<times> string \<times> json) option" where
  "event_parts (Obs_Event c ty d) = Some (c, ty, d)"
| "event_parts (Disconnected_Event c) = Some (c, ''disconnected'', JNull)"
| "event_parts (Barrier_Event c) = None"

definition observe_continuity :: "u64 \<Rightarrow> u64 \<Rightarrow> string \<Rightarrow> json \<Rightarrow> Continuity \<Rightarrow> Continuity" where
  "observe_continuity token connection name data c =
     (if connection \<noteq> token \<or> name = ''disconnected'' then c\<lparr>con_lost := Some DISCONNECTED\<rparr>
      else if name = ''RecordStateChanged'' then
        (let c1 = (if output_state data = Some ''OBS_WEBSOCKET_OUTPUT_STARTED'' then
                     (if con_started c \<or> con_stopped c then c\<lparr>con_lost := Some ''A different recording may have started'', con_started := True\<rparr>
                      else c\<lparr>con_started := True\<rparr>)
                   else if output_state data = Some ''OBS_WEBSOCKET_OUTPUT_STOPPED'' then c\<lparr>con_stopped := True\<rparr>
                   else c)
         in if con_lost c1 = None
            then (case opt_filter (\<lambda>p. p \<noteq> []) (Option.bind (get data ''outputPath'') as_str) of
                None \<Rightarrow> c1 | Some p \<Rightarrow> c1\<lparr>con_path := Some p\<rparr>)
            else c1)
      else c)"

definition observe_take :: "'f f64 \<Rightarrow> 'b take_env \<Rightarrow> 'b store_io \<Rightarrow> int \<Rightarrow> u64 \<Rightarrow> string \<Rightarrow> json \<Rightarrow> nat \<Rightarrow>
    ('b, 'f) supervisor \<Rightarrow> ('b, 'f) supervisor" where
  "observe_take F E io now connection name data k sv =
     (if name = ''disconnected'' \<or> connection \<noteq> sv_token sv then
        (let sv1 = with_take k (\<lambda>t. t\<lparr>t_monitor := on_disconnect F now (t_monitor t)\<rparr>) sv in
         case start_operation (takes sv1 ! k) of None \<Rightarrow> sv1
         | Some r \<Rightarrow> (case take_update E io r (new_update Unknown) sv1 of
             (Ok r', sv2) \<Rightarrow> with_take k (\<lambda>t. t\<lparr>start_operation := Some r'\<rparr>) sv2 | (Err _, sv2) \<Rightarrow> sv2))
      else with_take k (\<lambda>t. t\<lparr>t_monitor := on_event F now name data (t_monitor t),
          program := (if name = ''CurrentProgramSceneChanged''
            then (case Option.bind (get data ''sceneName'') as_str of Some s \<Rightarrow> Some s | None \<Rightarrow> program t) else program t)\<rparr>) sv)"

definition observe :: "'f f64 \<Rightarrow> 'b take_env \<Rightarrow> 'b store_io \<Rightarrow> int \<Rightarrow> TakeEvent \<Rightarrow> ('b, 'f) supervisor \<Rightarrow> ('b, 'f) supervisor" where
  "observe F E io now e sv = (case event_parts e of None \<Rightarrow> sv
     | Some (connection, name, data) \<Rightarrow>
         (case current sv of
            Some k \<Rightarrow> observe_take F E io now connection name data k
              (with_take k (\<lambda>t. t\<lparr>continuity := observe_continuity (sv_token sv) connection name data (continuity t)\<rparr>) sv)
          | None \<Rightarrow> sv\<lparr>starting := map_option
              (\<lambda>st. st\<lparr>sr_continuity := observe_continuity (sv_token sv) connection name data (sr_continuity st)\<rparr>) (starting sv)\<rparr>))"

text \<open>What is broadcast to the jobs waiting for an event.\<close>

definition broadcast :: "('b, 'f) supervisor \<Rightarrow> TakeEvent \<Rightarrow> (string \<times> json) option" where
  "broadcast sv e = (case event_parts e of None \<Rightarrow> None
     | Some (connection, name, data) \<Rightarrow> if connection = sv_token sv then Some (name, data) else None)"

section \<open>Deadlines\<close>

definition eligible_deadline :: "nat option \<Rightarrow> bool \<Rightarrow> bool \<Rightarrow> nat option" where
  "eligible_deadline deadline fired job_active = opt_filter (\<lambda>_. \<not> fired \<and> \<not> job_active) deadline"

definition reserve_deadline_job :: "nat option \<Rightarrow> bool \<Rightarrow> bool \<Rightarrow> nat \<Rightarrow> bool \<times> bool" where
  "reserve_deadline_job deadline fired job_active now =
     (let due = (case eligible_deadline deadline fired job_active of None \<Rightarrow> False | Some t \<Rightarrow> t \<le> now) in (due, fired \<or> due))"

definition refresh_take :: "bool \<Rightarrow> bool \<Rightarrow> nat \<Rightarrow> ('b, 'f) supervisor \<Rightarrow> ('b, 'f) supervisor" where
  "refresh_take up job_active k sv = (case take_impact up k sv of (status, sv') \<Rightarrow>
     with_take k (\<lambda>t. case status of
         Imp_Ready \<Rightarrow> if blocked_impact t \<noteq> None \<and> \<not> job_active \<and> \<not> stop_running t \<and> \<not> stop_uncertain t
           then t\<lparr>blocked_impact := None, deadline_fired := (if t_deadline t \<noteq> None then False else deadline_fired t)\<rparr> else t
       | Suspended n \<Rightarrow> if blocked_impact t \<noteq> None then t\<lparr>blocked_impact := Some n\<rparr> else t
       | Revoked _ \<Rightarrow> t\<lparr>blocked_impact := None\<rparr>) sv')"

definition refresh_impacts :: "bool \<Rightarrow> bool \<Rightarrow> ('b, 'f) supervisor \<Rightarrow> ('b, 'f) supervisor" where
  "refresh_impacts up job_active sv =
     (let sv1 = (case starting sv of None \<Rightarrow> sv | Some st \<Rightarrow> snd (start_impact up st sv))
      in case current sv1 of None \<Rightarrow> sv1 | Some k \<Rightarrow> refresh_take up job_active k sv1)"

end
