(* ===== verification/Take_Stop.thy ===== *)
theory Take_Stop
  imports Takes
begin

text \<open>
  Stopping a Take, \<open>stop_take\<close>, \<open>stop_once\<close> and \<open>monitor_stop\<close> of \<open>src/native/src/takes.rs\<close>. A stop is
  a job that runs between waits: for the recording-impact registry, for a status of OBS, for the reply to
  its request, for the stopped event, for the monitor. \<open>stop_pc\<close> is the wait it is at with its local
  values, and each step of a job runs from one wait to the next; between its steps anything else may
  happen: OBS events, manual calls on the recording, other clients, samples, deadlines. The timing of
  replies and of expired waits is left open.
\<close>

section \<open>Control points\<close>

datatype 'f wait_point =
    At_Start
  | At_Confirmation "string option" bool
  | At_Cleanup "string option"
  | After_Monitor "string option" "'f Summary"
  | After_Inspection string "'f Summary" "'f ClipCheck" string
  | After_Log string "'f Summary" "'f ClipCheck" "string option" string

datatype monitor_use = M_Inactive_Lost string | M_Foreign string | M_Stopped "string option" | M_Refused bool

datatype monitor_stage = Enter | Stats | Drain | Join

datatype 'f stop_pc =
    P_Wait "'f wait_point" bool
  | P_Status
  | P_Dispatch "string option" bool bool "string option" "json list"
  | P_Event "string option" "json list"
  | P_Poll "string option"
  | P_Monitor monitor_use monitor_stage
  | P_Inspect string "'f Summary" string
  | P_Log string "'f Summary" "'f ClipCheck" string
  | P_Refusal
  | P_Finished json
  | P_Panicked

record 'f stop_job =
  j_take :: nat
  j_policy :: Policy
  j_requested :: "'f option"
  j_pc :: "'f stop_pc"

text \<open>What a step of a job may consult: whether a weak reference upgrades, the clocks, and the file system
  of the store calls it makes.\<close>

record 'b step_io =
  st_up :: bool
  st_ms :: u64
  st_now :: int
  st_prepare :: "'b store_io"
  st_update :: "'b store_io"
  st_final :: "'b store_io"

section \<open>Refusals and uncertain ends\<close>

definition ownership_text :: "bool \<Rightarrow> ImpactStatus \<Rightarrow> string" where
  "ownership_text lost status = (if lost then ''unavailable'' else case status of Suspended _ \<Rightarrow> ''suspended'' | _ \<Rightarrow> ''continuous'')"

text \<open>A stop receipt that was not observed becomes unknown.\<close>

definition doubt_receipt :: "'b take_env \<Rightarrow> 'b store_io \<Rightarrow> nat \<Rightarrow> ('b, 'f) supervisor \<Rightarrow> ('b, 'f) supervisor" where
  "doubt_receipt E io k sv = (case stop_operation (takes sv ! k) of None \<Rightarrow> sv
     | Some r \<Rightarrow> if phase r = Observed then sv
         else (case take_update E io r (new_update Unknown) sv of
             (Ok r', sv') \<Rightarrow> with_take k (\<lambda>t. t\<lparr>stop_operation := Some r'\<rparr>) sv' | (Err _, sv') \<Rightarrow> sv'))"

definition uncertain_value :: "'f Take \<Rightarrow> ImpactStatus \<Rightarrow> string \<Rightarrow> json" where
  "uncertain_value t status why =
     (let historical = (case stop_operation t of None \<Rightarrow> False | Some r \<Rightarrow> phase r = Observed);
          conclusion = (if historical
            then ''The prior owned stop was observed, but current recording/file completion is unconfirmed; check OBS. No automatic retry was made''
            else ''Recording stop is unconfirmed; check OBS. No automatic retry was made'')
      in mk_object [(''content'', text_content (''Take '' @ t_id t @ '': '' @ why @ ''. '' @ conclusion)), (''isError'', JBool True),
           (''structuredContent'', mk_object ([(''takeId'', JString (t_id t)), (''stopConfirmed'', JBool False),
              (''ownership'', JString (ownership_text (con_lost (continuity t) \<noteq> None) status)), (''reason'', JString why)] @
              opt_entry ''operationId'' (\<lambda>r. JString (operation_id r)) (stop_operation t) @
              (if historical then [(''receiptStatus'', JString ''observed''), (''stopObservation'', JString ''historical'')] else [])))])"

definition uncertain :: "'b take_env \<Rightarrow> 'b step_io \<Rightarrow> nat \<Rightarrow> string \<Rightarrow> ('b, 'f) supervisor \<Rightarrow> 'f stop_pc \<times> ('b, 'f) supervisor" where
  "uncertain E io k why sv =
     (case take_impact (st_up io) k (doubt_receipt E (st_final io) k sv) of (status, sv') \<Rightarrow>
        (P_Finished (uncertain_value (takes sv' ! k) status why), sv'))"

definition suspended_stop :: "'f Take \<Rightarrow> bool \<Rightarrow> (string \<times> json) list \<Rightarrow> json" where
  "suspended_stop t unsent extra =
     (let why = (if unsent then ''Owned Stop was not dispatched; external recording impact suspended its authority''
            else ''Owned Stop is suspended by an external recording-impact operation'')
      in mk_object [(''content'', text_content (''Take '' @ t_id t @ '': '' @ why @ ''. Recording stop is unconfirmed; check OBS'')),
           (''isError'', JBool True), (''structuredContent'', mk_object ([(''takeId'', JString (t_id t)), (''stopConfirmed'', JBool False),
             (''ownership'', JString ''suspended''), (''reason'', JString why), (''recordingImpact'', JString ''suspended'')] @ extra))])"

definition impact_stop_refusal :: "'b step_io \<Rightarrow> nat \<Rightarrow> ('b, 'f) supervisor \<Rightarrow> 'f stop_pc \<times> ('b, 'f) supervisor" where
  "impact_stop_refusal io k sv = (case take_impact (st_up io) k sv of (status, sv') \<Rightarrow>
     (case status of Revoked _ \<Rightarrow> (P_Refusal, with_take k (\<lambda>t. t\<lparr>t_deadline := None\<rparr>) sv')
      | _ \<Rightarrow> (P_Finished (suspended_stop (takes sv' ! k) False []), sv')))"

section \<open>Deciding and asking\<close>

definition NOW_INACTIVE :: string where
  "NOW_INACTIVE = ''; OBS is now inactive, but the owned file cannot be established''"

text \<open>The stop receipt to use: the one there is, or a fresh one.\<close>

definition stop_receipt :: "'b take_env \<Rightarrow> 'b store_io \<Rightarrow> nat \<Rightarrow> ('b, 'f) supervisor \<Rightarrow>
    (StoreError, OperationRecord) result \<times> ('b, 'f) supervisor" where
  "stop_receipt E io k sv = (case stop_operation (takes sv ! k) of Some r \<Rightarrow> (Ok r, sv)
     | None \<Rightarrow> take_prepare E io RecordStop (t_id (takes sv ! k)) sv)"

definition stop_intent :: "'b take_env \<Rightarrow> 'b step_io \<Rightarrow> nat \<Rightarrow> ('b, 'f) supervisor \<Rightarrow>
    (StoreError, OperationRecord) result \<times> ('b, 'f) supervisor" where
  "stop_intent E io k sv = (case stop_receipt E (st_prepare io) k sv of (Err e, sv1) \<Rightarrow> (Err e, sv1)
     | (Ok r, sv1) \<Rightarrow> take_update E (st_update io) r dispatching_intent sv1)"

definition ask_stop :: "'b take_env \<Rightarrow> 'b step_io \<Rightarrow> nat \<Rightarrow> string option \<Rightarrow> ('b, 'f) supervisor \<Rightarrow> 'f stop_pc \<times> ('b, 'f) supervisor" where
  "ask_stop E io k path sv =
     (if stop_uncertain (takes sv ! k)
      then uncertain E io k ''A prior stop dispatch is unresolved; only observation can reconcile it, and no stop request was replayed'' sv
      else (case stop_intent E io k sv of
          (Err _, sv1) \<Rightarrow> uncertain E io k ''Stop intent could not be persisted; no stop request was dispatched'' sv1
        | (Ok r, sv1) \<Rightarrow>
            (P_Dispatch path (stop_expected (t_monitor (takes sv1 ! k))) False None [],
             with_take k (\<lambda>t. t\<lparr>stop_operation := Some r, stop_uncertain := True,
               t_monitor := snd (begin_stop_expectation (t_monitor t))\<rparr>) sv1)))"

definition decide_stop :: "'b take_env \<Rightarrow> 'b step_io \<Rightarrow> nat \<Rightarrow> bool \<Rightarrow> ('b, 'f) supervisor \<Rightarrow> 'f stop_pc \<times> ('b, 'f) supervisor" where
  "decide_stop E io k is_active sv =
     (let c = continuity (takes sv ! k); no_deadline = with_take k (\<lambda>t. t\<lparr>t_deadline := None\<rparr>) sv in
      case con_lost c of
        Some lost \<Rightarrow> (P_Monitor (if is_active then M_Foreign lost else M_Inactive_Lost lost) Enter, no_deadline)
      | None \<Rightarrow>
          if \<not> is_active \<and> \<not> con_stopped c
          then uncertain E io k ''Inactive status has no matching stopped event or completed file'' sv
          else if is_active \<and> con_stopped c
          then (P_Monitor (M_Foreign ''The owned recording stopped; the current recording may belong to another operator'') Enter, no_deadline)
          else if is_active then ask_stop E io k (con_path c) sv
          else (P_Wait (At_Cleanup (con_path c)) False, sv))"

definition status_answer :: "'b take_env \<Rightarrow> 'b step_io \<Rightarrow> nat \<Rightarrow> bool option \<Rightarrow> ('b, 'f) supervisor \<Rightarrow> 'f stop_pc \<times> ('b, 'f) supervisor" where
  "status_answer E io k answer sv = (case answer of
     None \<Rightarrow> uncertain E io k ''Recording status is unavailable'' sv
   | Some is_active \<Rightarrow> (case take_impact (st_up io) k sv of (status, sv') \<Rightarrow>
       (case status of Imp_Ready \<Rightarrow> decide_stop E io k is_active sv'
        | Suspended _ \<Rightarrow> (P_Wait At_Start False, sv')
        | Revoked _ \<Rightarrow> impact_stop_refusal io k sv')))"

section \<open>The reply to the request\<close>

definition unsent_value :: "'f Take \<Rightarrow> OperationRecord \<Rightarrow> string \<Rightarrow> json" where
  "unsent_value t r message =
     (let why = ''Stop request was not dispatched ('' @ message @ '')''
      in mk_object [(''content'', text_content (''Take '' @ t_id t @ '': '' @ why)), (''isError'', JBool True),
           (''structuredContent'', mk_object [(''takeId'', JString (t_id t)), (''stopConfirmed'', JBool False),
             (''ownership'', JString (if con_lost (continuity t) \<noteq> None then ''unavailable'' else ''continuous'')),
             (''reason'', JString why), (''receiptStatus'', JString ''not-dispatched''), (''operationId'', JString (operation_id r))])])"

definition unsent_stop :: "'b take_env \<Rightarrow> 'b step_io \<Rightarrow> nat \<Rightarrow> bool \<Rightarrow> string \<Rightarrow> ('b, 'f) supervisor \<Rightarrow> 'f stop_pc \<times> ('b, 'f) supervisor" where
  "unsent_stop E io k expectation message sv = (case retire_unsent_stop E (st_update io) k sv of
     (Err _, sv1) \<Rightarrow> uncertain E io k ''Unsent Stop receipt could not be safely retired'' sv1
   | (Ok retired, sv1) \<Rightarrow>
       (case take_impact (st_up io) k
           (with_take k (\<lambda>t. t\<lparr>t_monitor := rollback_stop_expectation expectation (t_monitor t)\<rparr>) sv1) of (status, sv2) \<Rightarrow>
         (case status of Revoked _ \<Rightarrow> impact_stop_refusal io k sv2
          | _ \<Rightarrow> (P_Finished (if blocked_impact (takes sv2 ! k) \<noteq> None
                then suspended_stop (takes sv2 ! k) True [(''operationId'', JString (operation_id retired)),
                  (''receiptStatus'', JString ''not-dispatched'')]
                else unsent_value (takes sv2 ! k) retired message), sv2))))"

definition reject_receipt :: "'b take_env \<Rightarrow> 'b store_io \<Rightarrow> nat \<Rightarrow> ('b, 'f) supervisor \<Rightarrow> ('b, 'f) supervisor" where
  "reject_receipt E io k sv =
     (let sv1 = with_take k (\<lambda>t. t\<lparr>stop_uncertain := False\<rparr>) sv in
      case stop_operation (takes sv1 ! k) of None \<Rightarrow> sv1
      | Some r \<Rightarrow> (case take_update E io r rejected_update sv1 of
          (Ok r', sv2) \<Rightarrow> with_take k (\<lambda>t. t\<lparr>stop_operation := Some r'\<rparr>) sv2 | (Err _, sv2) \<Rightarrow> sv2))"

definition stop_reply :: "'b take_env \<Rightarrow> 'b step_io \<Rightarrow> nat \<Rightarrow> string option \<Rightarrow> bool \<Rightarrow> json list \<Rightarrow> (DispatchError, json) result \<Rightarrow>
    ('b, 'f) supervisor \<Rightarrow> 'f stop_pc \<times> ('b, 'f) supervisor" where
  "stop_reply E io k path expectation mail reply sv = (case reply of
     Ok _ \<Rightarrow> (case stop_operation (takes sv ! k) of None \<Rightarrow> (P_Panicked, sv)
       | Some r \<Rightarrow> (case take_update E (st_update io) r accepted_update sv of
           (Ok r', sv1) \<Rightarrow> (P_Event path mail, with_take k (\<lambda>t. t\<lparr>stop_operation := Some r'\<rparr>) sv1)
         | (Err _, sv1) \<Rightarrow> uncertain E io k ''Stop request outcome is uncertain (Operation receipt could not be persisted or inspected; inspect obs-observe before any further production change)'' sv1))
   | Err (DE_BeforeDispatch m) \<Rightarrow> unsent_stop E io k expectation m sv
   | Err (DE_Rejected code m) \<Rightarrow> uncertain E io k (''Stop request outcome is uncertain ('' @ m @ '')'') (reject_receipt E (st_update io) k sv)
   | Err (DE_Unknown m) \<Rightarrow> uncertain E io k (''Stop request outcome is uncertain ('' @ m @ '')'') sv)"

section \<open>Confirmation\<close>

text \<open>One event of the subscription: the stopped event ends the wait.\<close>

definition stop_event :: "string option \<Rightarrow> json \<Rightarrow> json list \<Rightarrow> 'f stop_pc" where
  "stop_event path data rest = (if output_state data = Some ''OBS_WEBSOCKET_OUTPUT_STOPPED''
     then P_Poll (case Option.bind (get data ''outputPath'') as_str of Some p \<Rightarrow> Some p | None \<Rightarrow> path)
     else P_Event path rest)"

definition poll_answer :: "string option \<Rightarrow> bool \<Rightarrow> bool \<Rightarrow> bool option \<Rightarrow> 'f stop_pc" where
  "poll_answer path lost late answer =
     (if lost \<or> late then P_Wait (At_Confirmation path False) False
      else case answer of Some False \<Rightarrow> P_Wait (At_Confirmation path True) False
        | Some True \<Rightarrow> P_Poll path
        | None \<Rightarrow> P_Wait (At_Confirmation path False) False)"

section \<open>The monitor\<close>

definition after_monitor :: "'b take_env \<Rightarrow> 'b step_io \<Rightarrow> nat \<Rightarrow> monitor_use \<Rightarrow> (string, 'f Summary) result \<Rightarrow> ('b, 'f) supervisor \<Rightarrow>
    'f stop_pc \<times> ('b, 'f) supervisor" where
  "after_monitor E io k am out sv = (case out of Err why \<Rightarrow> uncertain E io k why sv
     | Ok s \<Rightarrow> (case am of
         M_Stopped path \<Rightarrow> (P_Wait (After_Monitor path s) False, sv)
       | M_Foreign why \<Rightarrow> uncertain E io k why sv
       | M_Inactive_Lost lost \<Rightarrow> uncertain E io k (lost @ NOW_INACTIVE) (clear_current k (release_lease (st_ms io) k sv))
       | M_Refused inactive \<Rightarrow>
           (let why = (case con_lost (continuity (takes sv ! k)) of None \<Rightarrow> IMPACT_LOST | Some l \<Rightarrow> l) in
            if inactive then uncertain E io k (why @ NOW_INACTIVE) (clear_current k (release_lease (st_ms io) k sv))
            else uncertain E io k why sv)))"

definition monitor_enter :: "'b take_env \<Rightarrow> 'b step_io \<Rightarrow> nat \<Rightarrow> monitor_use \<Rightarrow> ('b, 'f) supervisor \<Rightarrow> 'f stop_pc \<times> ('b, 'f) supervisor" where
  "monitor_enter E io k am sv = (case monitor_summary (takes sv ! k) of
     Some s \<Rightarrow> after_monitor E io k am (Ok s) sv
   | None \<Rightarrow> if monitor_stop_running (takes sv ! k) then (P_Monitor am Enter, sv)
       else (P_Monitor am Stats, with_take k (\<lambda>t. t\<lparr>monitor_stop_running := True,
         t_monitor := snd (begin_stop (st_now io) (t_monitor t)), next_stats := None, next_picture := None\<rparr>) sv))"

definition monitor_stats :: "'f f64 \<Rightarrow> 'b step_io \<Rightarrow> nat \<Rightarrow> monitor_use \<Rightarrow> json option \<Rightarrow> ('b, 'f) supervisor \<Rightarrow> 'f stop_pc \<times> ('b, 'f) supervisor" where
  "monitor_stats F io k am stats sv = (P_Monitor am Drain, case stats of None \<Rightarrow> sv
     | Some v \<Rightarrow> with_take k (\<lambda>t. t\<lparr>t_monitor := observe_stats F (st_now io) v (t_monitor t)\<rparr>) sv)"

definition monitor_drain :: "nat \<Rightarrow> monitor_use \<Rightarrow> ('b, 'f) supervisor \<Rightarrow> 'f stop_pc \<times> ('b, 'f) supervisor" where
  "monitor_drain k am sv = (P_Monitor am (if \<not> setup_pending (takes sv ! k) \<and> \<not> samples_pending (t_monitor (takes sv ! k))
     then Join else Drain), sv)"

definition monitor_join :: "'f f64 \<Rightarrow> 'b take_env \<Rightarrow> 'b step_io \<Rightarrow> nat \<Rightarrow> monitor_use \<Rightarrow> (string, unit) result \<Rightarrow> ('b, 'f) supervisor \<Rightarrow>
    'f stop_pc \<times> ('b, 'f) supervisor" where
  "monitor_join F E io k am joined sv = (case joined of
     Err e \<Rightarrow> after_monitor E io k am (Err (''Take monitor cleanup is unavailable ('' @ e @ '')''))
       (with_take k (\<lambda>t. t\<lparr>monitor_stop_running := False\<rparr>) sv)
   | Ok _ \<Rightarrow> (case finish_cleanup F (t_monitor (takes sv ! k)) of
       Some (Ok _, m) \<Rightarrow>
         (let s = summary F (st_now io) m
          in after_monitor E io k am (Ok s) (with_take k (\<lambda>t. t\<lparr>t_monitor := m, monitor_summary := Some s\<rparr>) sv))
     | _ \<Rightarrow> (P_Panicked, sv)))"

section \<open>The end of a confirmed stop\<close>

definition observed_receipt :: "'b take_env \<Rightarrow> 'b step_io \<Rightarrow> nat \<Rightarrow> ('b, 'f) supervisor \<Rightarrow> string \<times> ('b, 'f) supervisor" where
  "observed_receipt E io k sv = (case stop_receipt E (st_prepare io) k sv of
     (Err _, sv1) \<Rightarrow> (''unknown'', sv1)
   | (Ok r, sv1) \<Rightarrow> (case take_update E (st_update io) r observed_update sv1 of
       (Ok r', sv2) \<Rightarrow> (''observed'', with_take k (\<lambda>t. t\<lparr>stop_operation := Some r'\<rparr>) sv2)
     | (Err _, sv2) \<Rightarrow> (''unknown'', sv2)))"

definition record_stopped :: "'b take_env \<Rightarrow> 'b step_io \<Rightarrow> nat \<Rightarrow> string option \<Rightarrow> 'f Summary \<Rightarrow> ('b, 'f) supervisor \<Rightarrow>
    'f stop_pc \<times> ('b, 'f) supervisor" where
  "record_stopped E io k path s sv =
     (let sv1 = release_lease (st_ms io) k sv; found = opt_or path (recording_path (t_monitor (takes sv1 ! k))) in
      case opt_filter (\<lambda>p. p \<noteq> []) found of
        None \<Rightarrow> (P_Finished (take_error (''Take '' @ t_id (takes sv1 ! k) @ '' stopped, but OBS did not report its file'')), clear_current k sv1)
      | Some p \<Rightarrow> (case observed_receipt E io k sv1 of (status, sv2) \<Rightarrow>
          (if t_local (takes sv2 ! k) then P_Inspect p s status
           else P_Wait (After_Inspection p s (no_check ''OBS is remote, so the file was not inspected'') status) False, sv2)))"

definition confirmed_value :: "'f f64 \<Rightarrow> 'f Take \<Rightarrow> 'f option \<Rightarrow> string \<Rightarrow> 'f Summary \<Rightarrow> 'f ClipCheck \<Rightarrow> string option \<Rightarrow> string \<Rightarrow> json" where
  "confirmed_value F t requested path s check takelog status =
     (let v = take_result F (t_id t) (so_expect_silent (t_options t)) (chapter_notes t) s path check takelog requested;
          fields = idx v ''structuredContent'';
          f1 = set_key ''stopConfirmed'' (JBool True) (set_key ''receiptStatus'' (JString status) fields);
          f2 = (case stop_operation t of None \<Rightarrow> f1 | Some r \<Rightarrow> set_key ''operationId'' (JString (operation_id r)) f1)
      in set_key ''structuredContent'' f2 v)"

definition go_on :: "'f f64 \<Rightarrow> 'b take_env \<Rightarrow> 'b step_io \<Rightarrow> 'f stop_job \<Rightarrow> 'f wait_point \<Rightarrow> ('b, 'f) supervisor \<Rightarrow>
    'f stop_pc \<times> ('b, 'f) supervisor" where
  "go_on F E io j wp sv = (let k = j_take j in case wp of
     At_Start \<Rightarrow> (P_Status, sv)
   | At_Confirmation path inactive \<Rightarrow>
       (case con_lost (continuity (takes sv ! k)) of Some why \<Rightarrow> uncertain E io k why sv
        | None \<Rightarrow> if \<not> inactive then uncertain E io k ''OBS did not confirm a completed stop and inactive status'' sv
            else (P_Wait (At_Cleanup path) False, sv))
   | At_Cleanup path \<Rightarrow> (P_Monitor (M_Stopped path) Enter, with_take k (\<lambda>t. t\<lparr>t_deadline := None\<rparr>) sv)
   | After_Monitor path s \<Rightarrow> record_stopped E io k path s sv
   | After_Inspection path s check status \<Rightarrow>
       (if t_local (takes sv ! k) then P_Log path s check status else P_Wait (After_Log path s check None status) False, sv)
   | After_Log path s check takelog status \<Rightarrow>
       (P_Finished (confirmed_value F (takes sv ! k) (j_requested j) path s check takelog status), clear_current k sv))"

text \<open>A wait for the registry (\<open>wait_take_impact\<close>): the first look notes the attempt that suspends the Take;
  then each look of \<open>wait_impact\<close> goes on when ready, refuses when revoked and keeps waiting when suspended.\<close>

definition look_while_waiting :: "'f f64 \<Rightarrow> 'b take_env \<Rightarrow> 'b step_io \<Rightarrow> 'f stop_job \<Rightarrow> 'f wait_point \<Rightarrow> bool \<Rightarrow> ('b, 'f) supervisor \<Rightarrow>
    'f stop_pc \<times> ('b, 'f) supervisor" where
  "look_while_waiting F E io j wp entered sv =
     (let k = j_take j in case take_impact (st_up io) k sv of (status, sv1) \<Rightarrow>
       if \<not> entered
       then (P_Wait wp True, case status of Suspended n \<Rightarrow> with_take k (\<lambda>t. t\<lparr>blocked_impact := Some n\<rparr>) sv1 | _ \<Rightarrow> sv1)
       else (case status of
          Imp_Ready \<Rightarrow> go_on F E io j wp (with_take k (\<lambda>t. t\<lparr>blocked_impact := None\<rparr>) sv1)
        | Revoked _ \<Rightarrow> impact_stop_refusal io k sv1
        | Suspended n \<Rightarrow> (P_Wait wp True, sv1)))"

section \<open>The frame of a stop\<close>

text \<open>The end of an attempt, as \<open>stop_take\<close> records it.\<close>

definition end_attempt :: "nat \<Rightarrow> json \<Rightarrow> ('b, 'f) supervisor \<Rightarrow> ('b, 'f) supervisor" where
  "end_attempt k result sv =
     (if current sv = Some k then with_take k (\<lambda>t. t\<lparr>stop_running := False, last_stop := Some result\<rparr>) sv
      else (with_take k (\<lambda>t. t\<lparr>stop_running := False, last_stop := Some result, stop_result := Some result\<rparr>) sv)
             \<lparr>completed := Some result\<rparr>)"

datatype 'v entry = Answer 'v | Begin | Must_Wait | Entry_Panic

text \<open>A caller of \<open>stop_take\<close> each time it looks at the Take; \<open>waiting\<close> when it has waited before.\<close>

definition stop_entry :: "bool \<Rightarrow> 'f Take \<Rightarrow> json entry" where
  "stop_entry waiting t = (case stop_result t of Some r \<Rightarrow> Answer r
     | None \<Rightarrow> if waiting \<and> \<not> stop_running t then (case last_stop t of Some r \<Rightarrow> Answer r | None \<Rightarrow> Entry_Panic)
         else if stop_running t then Must_Wait else Begin)"

section \<open>Runs\<close>

text \<open>One step of a job by itself, whatever the answers are.\<close>

inductive job_move :: "'f f64 \<Rightarrow> 'b take_env \<Rightarrow> 'b step_io \<Rightarrow> 'f stop_job \<Rightarrow> ('b, 'f) supervisor \<Rightarrow> 'f stop_pc \<Rightarrow>
    ('b, 'f) supervisor \<Rightarrow> bool" for F E io j sv where
  looks: "j_pc j = P_Wait wp entered \<Longrightarrow> look_while_waiting F E io j wp entered sv = (pc, sv') \<Longrightarrow> job_move F E io j sv pc sv'"
| wait_expires: "j_pc j = P_Wait wp True \<Longrightarrow>
    impact_stop_refusal io (j_take j) (snd (take_impact (st_up io) (j_take j) sv)) = (pc, sv') \<Longrightarrow> job_move F E io j sv pc sv'"
| answered: "j_pc j = P_Status \<Longrightarrow> status_answer E io (j_take j) answer sv = (pc, sv') \<Longrightarrow> job_move F E io j sv pc sv'"
| hears: "j_pc j = P_Event path (d # rest) \<Longrightarrow> job_move F E io j sv (stop_event path d rest) sv"
| hears_nothing: "j_pc j = P_Event path mail \<Longrightarrow> job_move F E io j sv (P_Wait (At_Confirmation path False) False) sv"
| polls: "j_pc j = P_Poll path \<Longrightarrow>
    job_move F E io j sv (poll_answer path (con_lost (continuity (takes sv ! j_take j)) \<noteq> None) late answer) sv"
| enters: "j_pc j = P_Monitor am Enter \<Longrightarrow> monitor_enter E io (j_take j) am sv = (pc, sv') \<Longrightarrow> job_move F E io j sv pc sv'"
| reads_stats: "j_pc j = P_Monitor am Stats \<Longrightarrow> monitor_stats F io (j_take j) am stats sv = (pc, sv') \<Longrightarrow> job_move F E io j sv pc sv'"
| drains: "j_pc j = P_Monitor am Drain \<Longrightarrow> monitor_drain (j_take j) am sv = (pc, sv') \<Longrightarrow> job_move F E io j sv pc sv'"
| joins: "j_pc j = P_Monitor am Join \<Longrightarrow> monitor_join F E io (j_take j) am joined sv = (pc, sv') \<Longrightarrow> job_move F E io j sv pc sv'"
| inspects: "j_pc j = P_Inspect path s status \<Longrightarrow> job_move F E io j sv (P_Wait (After_Inspection path s check status) False) sv"
| logs: "j_pc j = P_Log path s check status \<Longrightarrow> job_move F E io j sv (P_Wait (After_Log path s check takelog status) False) sv"
| refused: "j_pc j = P_Refusal \<Longrightarrow> job_move F E io j sv (P_Monitor (M_Refused inactive) Enter) sv"

record ('b, 'f) stop_world =
  sup :: "('b, 'f) supervisor"
  w_attempts :: "ManualImpactAttempt list"
  w_history :: "impact_event list"
  creating :: bool
  jobs :: "'f stop_job list"
  callers :: "nat list"
  sent :: "(nat \<times> impact_event list) list"
  rejected :: "nat list"

definition impact_part :: "('b, 'f) stop_world \<Rightarrow> impact_world" where
  "impact_part w = \<lparr>registry = sv_registry (sup w), attempts = w_attempts w, history = w_history w\<rparr>"

text \<open>What the transport promises: it reports a request as not dispatched only if the guard never let
  it go, and an answer only if it did (the session's outcome is true).\<close>

definition transport_true :: "bool \<Rightarrow> (DispatchError, json) result \<Rightarrow> bool" where
  "transport_true was_sent reply = (case reply of Err (DE_BeforeDispatch _) \<Rightarrow> \<not> was_sent | Err (DE_Unknown _) \<Rightarrow> True | _ \<Rightarrow> was_sent)"

definition is_rejection :: "(DispatchError, json) result \<Rightarrow> bool" where
  "is_rejection reply = (case reply of Err (DE_Rejected _ _) \<Rightarrow> True | _ \<Rightarrow> False)"

definition deliver :: "(string \<times> json) option \<Rightarrow> 'f stop_job \<Rightarrow> 'f stop_job" where
  "deliver e j = (case e of None \<Rightarrow> j | Some (name, data) \<Rightarrow>
     if name \<noteq> ''RecordStateChanged'' then j
     else (case j_pc j of
         P_Dispatch path ex s r mail \<Rightarrow> j\<lparr>j_pc := P_Dispatch path ex s r (mail @ [data])\<rparr>
       | P_Event path mail \<Rightarrow> j\<lparr>j_pc := P_Event path (mail @ [data])\<rparr>
       | _ \<Rightarrow> j))"

text \<open>The other workers of a Take: setup, samples and marks.\<close>

inductive worker_step :: "'f f64 \<Rightarrow> 'f monitor \<Rightarrow> 'f monitor \<Rightarrow> bool" for F where
  "worker_step F m (load_tracks rec tracks m)"
| "worker_step F m (tracks_unknown F now message m)"
| "worker_step F m (load_program_scene v m)"
| "worker_step F m (observe_stats F now v m)"
| "worker_step F m (snd (complete_setup F now ppm m))"
| "worker_step F m (mark F now name m)"
| "worker_step F m (snd (begin_sample kd m))"
| "finish_sample F t now ob m = Some (b, m') \<Longrightarrow> worker_step F m m'"
| "worker_step F m (drop_ticket t m)"

definition admission_known :: "(TakeImpactTicket \<times> nat) option \<Rightarrow> impact_event list \<Rightarrow> bool" where
  "admission_known admitted h = (case admitted of None \<Rightarrow> True | Some (t, _) \<Rightarrow> Reserved t \<in> set h)"

definition new_reservation :: "(TakeImpactTicket \<times> nat) option \<Rightarrow> ('b, 'f) supervisor \<Rightarrow> impact_event list" where
  "new_reservation admitted sv = (case admitted of Some _ \<Rightarrow> []
     | None \<Rightarrow> (case starting sv of None \<Rightarrow> [] | Some st \<Rightarrow> [Reserved (sr_impact st)]))"

inductive stop_step :: "'f f64 \<Rightarrow> 'b take_env \<Rightarrow> nat \<Rightarrow> ('b, 'f) stop_world \<Rightarrow> ('b, 'f) stop_world \<Rightarrow> bool" for F E a where
  moves: "jobs w = xs @ j # ys \<Longrightarrow> imp_alive (imp_state (sv_registry (sup w))) \<longrightarrow> st_up io \<Longrightarrow>
    job_move F E io j (sup w) pc sv \<Longrightarrow> stop_step F E a w (w\<lparr>sup := sv, jobs := xs @ j\<lparr>j_pc := pc\<rparr> # ys\<rparr>)"
| guard_passes: "jobs w = xs @ j # ys \<Longrightarrow> imp_alive (imp_state (sv_registry (sup w))) \<longrightarrow> up \<Longrightarrow>
    j_pc j = P_Dispatch path ex False None mail \<Longrightarrow>
    guard E up cancelled now (Some (j_take j)) StopRecord (j_policy j) (sup w) = (None, sv) \<Longrightarrow>
    stop_step F E a w (w\<lparr>sup := sv, jobs := xs @ j\<lparr>j_pc := P_Dispatch path ex True None mail\<rparr> # ys,
      sent := sent w @ [(j_take j, w_history w)]\<rparr>)"
| guard_refuses: "jobs w = xs @ j # ys \<Longrightarrow> imp_alive (imp_state (sv_registry (sup w))) \<longrightarrow> up \<Longrightarrow>
    j_pc j = P_Dispatch path ex False None mail \<Longrightarrow>
    guard E up cancelled now (Some (j_take j)) StopRecord (j_policy j) (sup w) = (Some why, sv) \<Longrightarrow>
    stop_step F E a w (w\<lparr>sup := sv, jobs := xs @ j\<lparr>j_pc := P_Dispatch path ex False (Some why) mail\<rparr> # ys\<rparr>)"
| replies: "jobs w = xs @ j # ys \<Longrightarrow> imp_alive (imp_state (sv_registry (sup w))) \<longrightarrow> st_up io \<Longrightarrow>
    j_pc j = P_Dispatch path ex was_sent why mail \<Longrightarrow> transport_true was_sent reply \<Longrightarrow>
    stop_reply E io (j_take j) path ex mail reply (sup w) = (pc, sv) \<Longrightarrow>
    stop_step F E a w (w\<lparr>sup := sv, jobs := xs @ j\<lparr>j_pc := pc\<rparr> # ys,
      rejected := (if is_rejection reply then [j_take j] else []) @ rejected w\<rparr>)"
| begins: "k < length (takes (sup w)) \<Longrightarrow> stop_entry False (takes (sup w) ! k) = Begin \<Longrightarrow>
    stop_step F E a w (w\<lparr>sup := with_take k (\<lambda>t. t\<lparr>stop_running := True\<rparr>) (sup w),
      jobs := \<lparr>j_take = k, j_policy = p, j_requested = requested, j_pc = P_Wait At_Start False\<rparr> # jobs w\<rparr>)"
| waits_in_line: "k < length (takes (sup w)) \<Longrightarrow> stop_entry b (takes (sup w) ! k) = Must_Wait \<Longrightarrow>
    stop_step F E a w (w\<lparr>callers := k # callers w\<rparr>)"
| ends: "jobs w = xs @ j # ys \<Longrightarrow> j_pc j = P_Finished result \<Longrightarrow>
    stop_step F E a w (w\<lparr>sup := end_attempt (j_take j) result (sup w), jobs := xs @ ys\<rparr>)"
| observes: "stop_step F E a w (w\<lparr>sup := observe F E io now e (sup w), jobs := map (deliver (broadcast (sup w) e)) (jobs w)\<rparr>)"
| impact_moves: "impact_step a (impact_part w) iw \<Longrightarrow>
    stop_step F E a w (w\<lparr>sup := (sup w)\<lparr>sv_registry := registry iw\<rparr>, w_attempts := attempts iw, w_history := history iw\<rparr>)"
| refreshes: "imp_alive (imp_state (sv_registry (sup w))) \<longrightarrow> up \<Longrightarrow>
    stop_step F E a w (w\<lparr>sup := refresh_impacts up job_active (sup w)\<rparr>)"
| reserves_start: "imp_alive (imp_state (sv_registry (sup w))) \<longrightarrow> up \<Longrightarrow> admission_known admitted (w_history w) \<Longrightarrow>
    reserve_start F up opts admitted (sup w) = (None, sv) \<Longrightarrow>
    stop_step F E a w (w\<lparr>sup := sv, w_history := w_history w @ new_reservation admitted sv, creating := True\<rparr>)"
| refuses_start: "imp_alive (imp_state (sv_registry (sup w))) \<longrightarrow> up \<Longrightarrow> admission_known admitted (w_history w) \<Longrightarrow>
    reserve_start F up opts admitted (sup w) = (Some refusal, sv) \<Longrightarrow> stop_step F E a w (w\<lparr>sup := sv\<rparr>)"
| start_moves: "starting (sup w) = Some st \<Longrightarrow> sr_impact st' = sr_impact st \<Longrightarrow>
    stop_step F E a w (w\<lparr>sup := (sup w)\<lparr>starting := Some st'\<rparr>\<rparr>)"
| creates: "creating w \<Longrightarrow> starting (sup w) = Some st \<Longrightarrow>
    stop_step F E a w (w\<lparr>sup := set_current (created_take F ms stamp owner now tid opts p local publisher receipt unavailable st) (sup w),
      creating := False\<rparr>)"
| start_ends: "stop_step F E a w (w\<lparr>sup := (sup w)\<lparr>starting := None\<rparr>, creating := False\<rparr>)"
| works: "k < length (takes (sup w)) \<Longrightarrow> worker_step F (t_monitor (takes (sup w) ! k)) m \<Longrightarrow>
    stop_step F E a w (w\<lparr>sup := with_take k (\<lambda>t. t\<lparr>t_monitor := m, chapter_notes := notes, setup_pending := pending,
      next_stats := ns, next_picture := np, program := pr, lease_holder := lh, start_operation := op, deadline_fired := fired\<rparr>) (sup w)\<rparr>)"
| others: "stop_step F E a w (w\<lparr>sup := (sup w)\<lparr>sv_control := c, sv_store := st, sv_closing := cg, sv_closed := cd\<rparr>\<rparr>)"

text \<open>A fresh supervisor over a bound registry.\<close>

definition new_supervisor :: "nat \<Rightarrow> impact_inner \<Rightarrow> u64 \<Rightarrow> 'b operation_store \<Rightarrow> ControlDomain \<Rightarrow> ('b, 'f) supervisor" where
  "new_supervisor a i token st c = \<lparr>sv_view = impact_view a i, sv_registry = i, sv_token = token, sv_store = st,
     sv_control = c, sv_closing = False, sv_closed = False, starting = None, takes = [], current = None, completed = None\<rparr>"

definition supervised :: "('b, 'f) supervisor \<Rightarrow> ('b, 'f) stop_world" where
  "supervised sv = \<lparr>sup = sv, w_attempts = [], w_history = [], creating = False, jobs = [], callers = [], sent = [], rejected = []\<rparr>"

end
