(* ===== verification/Take_Safety.thy ===== *)
theory Take_Safety
  imports Take_Stop
begin

text \<open>
  What the stop of a Take can be relied on for: over every interleaving of stops, OBS events, manual
  calls and other clients, no stop request is sent twice unless OBS rejected the first, none is sent
  once a manual call may have touched the recording, and a stop is reported as confirmed only when it
  was.
\<close>

section \<open>What a step of a job leaves alone\<close>

definition reg_step :: "impact_inner \<Rightarrow> impact_inner \<Rightarrow> bool" where
  "reg_step i j \<longleftrightarrow> (\<exists>up t s. (imp_alive (imp_state i) \<longrightarrow> up) \<and> check_ticket up t i = (s, j))"

definition same_core :: "'f Take \<Rightarrow> 'f Take \<Rightarrow> bool" where
  "same_core t t' \<longleftrightarrow> impact t' = impact t \<and> stop_running t' = stop_running t \<and> stop_result t' = stop_result t \<and>
     last_stop t' = last_stop t \<and> (con_stopped (continuity t) \<longrightarrow> con_stopped (continuity t')) \<and>
     (monitor_summary t \<noteq> None \<longrightarrow> monitor_summary t' = monitor_summary t)"

definition frame :: "nat \<Rightarrow> ('b, 'f) supervisor \<Rightarrow> ('b, 'f) supervisor \<Rightarrow> bool" where
  "frame k sv sv' \<longleftrightarrow> k < length (takes sv) \<and> length (takes sv') = length (takes sv) \<and>
     (\<forall>i. i \<noteq> k \<longrightarrow> takes sv' ! i = takes sv ! i) \<and> same_core (takes sv ! k) (takes sv' ! k) \<and>
     reg_step\<^sup>*\<^sup>* (sv_registry sv) (sv_registry sv') \<and> sv_view sv' = sv_view sv \<and> starting sv' = starting sv \<and>
     sv_token sv' = sv_token sv"

definition quiet_step :: "nat \<Rightarrow> ('b, 'f) supervisor \<Rightarrow> ('b, 'f) supervisor \<Rightarrow> bool" where
  "quiet_step k sv sv' \<longleftrightarrow> frame k sv sv' \<and> stop_uncertain (takes sv' ! k) = stop_uncertain (takes sv ! k) \<and> current sv' = current sv"

abbreviation upgradable :: "'b step_io \<Rightarrow> ('b, 'f) supervisor \<Rightarrow> bool" where
  "upgradable io sv \<equiv> imp_alive (imp_state (sv_registry sv)) \<longrightarrow> st_up io"

lemma same_core_refl [simp]: "same_core t t"
  by (simp add: same_core_def)

lemma same_core_trans: "same_core a b \<Longrightarrow> same_core b c \<Longrightarrow> same_core a c"
  by (simp add: same_core_def)

lemma frame_refl: "k < length (takes sv) \<Longrightarrow> frame k sv sv"
  by (simp add: frame_def)

lemma frame_trans [trans]:
  assumes "frame k a b" and "frame k b c"
  shows "frame k a c"
  using assms same_core_trans [of "takes a ! k" "takes b ! k" "takes c ! k"]
    rtranclp_trans [of reg_step "sv_registry a" "sv_registry b" "sv_registry c"]
  by (simp add: frame_def)

lemma quiet_refl: "k < length (takes sv) \<Longrightarrow> quiet_step k sv sv"
  by (simp add: quiet_step_def frame_refl)

lemma quiet_trans [trans]: "quiet_step k a b \<Longrightarrow> quiet_step k b c \<Longrightarrow> quiet_step k a c"
  by (simp add: quiet_step_def frame_trans [of k a b c])

lemma quiet_frame: "quiet_step k a b \<Longrightarrow> frame k a b"
  by (simp add: quiet_step_def)

lemma frame_len: "frame k a b \<Longrightarrow> k < length (takes a) \<and> k < length (takes b)"
  by (simp add: frame_def)

lemma quiet_len: "quiet_step k a b \<Longrightarrow> k < length (takes a) \<and> k < length (takes b)"
  by (simp add: quiet_step_def frame_def)

lemma check_ticket_alive:
  assumes "check_ticket up t i = (s, j)"
  shows "imp_alive (imp_state j) = imp_alive (imp_state i)"
proof -
  have e: "imp_alive (imp_state (end_registry r i)) = imp_alive (imp_state i)" for r
    by (simp add: end_registry_def)
  then have "imp_alive (imp_state (close_if_invalidated i)) = imp_alive (imp_state i)"
    by (simp add: close_if_invalidated_def)
  with e assms show ?thesis
    by (auto simp: check_ticket_def with_state_def Let_def split: if_splits option.splits prod.splits sum.splits)
qed

lemma reg_moves_alive: "reg_step\<^sup>*\<^sup>* i j \<Longrightarrow> imp_alive (imp_state j) = imp_alive (imp_state i)"
  by (induction rule: rtranclp_induct) (auto simp: reg_step_def dest: check_ticket_alive)

lemma frame_upgradable: "frame k sv sv' \<Longrightarrow> upgradable io sv \<Longrightarrow> upgradable io sv'"
  by (auto simp: frame_def dest: reg_moves_alive)

text \<open>The building blocks.\<close>

lemma with_take_nth [simp]: "k < length (takes sv) \<Longrightarrow> takes (with_take k f sv) ! k = f (takes sv ! k)"
  by (simp add: with_take_def)

lemma with_take_simps [simp]:
  "length (takes (with_take k f sv)) = length (takes sv)" "sv_registry (with_take k f sv) = sv_registry sv"
  "current (with_take k f sv) = current sv" "starting (with_take k f sv) = starting sv" "sv_view (with_take k f sv) = sv_view sv"
  "sv_token (with_take k f sv) = sv_token sv" "sv_store (with_take k f sv) = sv_store sv"
  "i \<noteq> k \<Longrightarrow> takes (with_take k f sv) ! i = takes sv ! i"
  by (simp_all add: with_take_def)

lemma with_take_frame:
  "k < length (takes sv) \<Longrightarrow> same_core (takes sv ! k) (f (takes sv ! k)) \<Longrightarrow> frame k sv (with_take k f sv)"
  by (simp add: frame_def)

lemma with_take_quiet:
  "k < length (takes sv) \<Longrightarrow> same_core (takes sv ! k) (f (takes sv ! k)) \<Longrightarrow>
     stop_uncertain (f (takes sv ! k)) = stop_uncertain (takes sv ! k) \<Longrightarrow> quiet_step k sv (with_take k f sv)"
  by (simp add: quiet_step_def with_take_frame)

lemma store_quiet: "k < length (takes sv) \<Longrightarrow> quiet_step k sv (sv\<lparr>sv_store := st\<rparr>)"
  by (simp add: quiet_step_def frame_def)

lemma control_quiet: "k < length (takes sv) \<Longrightarrow> quiet_step k sv (sv\<lparr>sv_control := c\<rparr>)"
  by (simp add: quiet_step_def frame_def)

lemma take_update_quiet: "k < length (takes sv) \<Longrightarrow> take_update E io r u sv = (out, sv') \<Longrightarrow> quiet_step k sv sv'"
  by (auto simp: take_update_def store_quiet split: prod.splits)

lemma take_prepare_quiet: "k < length (takes sv) \<Longrightarrow> take_prepare E io kd tid sv = (out, sv') \<Longrightarrow> quiet_step k sv sv'"
  by (auto simp: take_prepare_def store_quiet split: prod.splits)

lemma note_revocation_stopped [simp]: "con_stopped (note_revocation s c) = con_stopped c"
  by (simp add: note_revocation_def split: ImpactStatus.split)

lemma take_impact_quiet:
  assumes "k < length (takes sv)" and "imp_alive (imp_state (sv_registry sv)) \<longrightarrow> up" and "take_impact up k sv = (s, sv')"
  shows "quiet_step k sv sv'"
proof -
  obtain status j where c: "check_ticket up (impact (takes sv ! k)) (sv_registry sv) = (status, j)" by fastforce
  then have "reg_step (sv_registry sv) j" using assms(2) by (auto simp: reg_step_def)
  then have r: "reg_step\<^sup>*\<^sup>* (sv_registry sv) j" by blast
  have sv': "sv' = with_take k (\<lambda>t. t\<lparr>continuity := note_revocation status (continuity (takes sv ! k))\<rparr>) (sv\<lparr>sv_registry := j\<rparr>)"
    using assms(3) c by (auto simp: take_impact_def apply_impact_def)
  have "takes sv' ! k = (takes sv ! k)\<lparr>continuity := note_revocation status (continuity (takes sv ! k))\<rparr>"
    using assms(1) sv' by simp
  moreover have "takes sv' ! i = takes sv ! i" if "i \<noteq> k" for i
    using that sv' by simp
  ultimately show ?thesis
    using assms(1) r sv' by (simp add: quiet_step_def frame_def same_core_def)
qed

lemma release_lease_quiet: "k < length (takes sv) \<Longrightarrow> quiet_step k sv (release_lease now k sv)"
proof (cases "lease_holder (takes sv ! k)")
  case (Some who)
  assume k: "k < length (takes sv)"
  let ?c = "sv\<lparr>sv_control := snd (release who now (sv_control sv))\<rparr>"
  have "quiet_step k sv ?c" by (rule control_quiet [OF k])
  also have "quiet_step k ?c (with_take k (\<lambda>t. t\<lparr>lease_holder := None\<rparr>) ?c)"
    by (rule with_take_quiet) (simp_all add: k same_core_def)
  finally show ?thesis using Some by (simp add: release_lease_def)
qed (simp add: release_lease_def quiet_refl)

lemma clear_current_frame: "k < length (takes sv) \<Longrightarrow> frame k sv (clear_current k sv)"
  by (simp add: clear_current_def frame_def)

lemma clear_current_simps [simp]: "takes (clear_current k sv) = takes sv" "sv_registry (clear_current k sv) = sv_registry sv"
  by (simp_all add: clear_current_def)

lemma clear_current_other: "current (clear_current k sv) = (if current sv = Some k then None else current sv)"
  by (simp add: clear_current_def)

section \<open>Where a job goes\<close>

text \<open>A result that reports the stop as confirmed.\<close>

definition confirms :: "json \<Rightarrow> bool" where
  "confirms r \<longleftrightarrow> idx (idx r ''structuredContent'') ''stopConfirmed'' = JBool True"

definition unconfirmed :: "'f stop_pc \<Rightarrow> bool" where
  "unconfirmed pc \<longleftrightarrow> (\<exists>r. pc = P_Finished r \<and> \<not> confirms r)"

lemma values_unconfirmed [simp]:
  "\<not> confirms (uncertain_value t status why)" "\<not> confirms (suspended_stop t unsent extra)"
  "\<not> confirms (unsent_value t r m)" "\<not> confirms (take_error text)"
  by (simp_all add: confirms_def uncertain_value_def suspended_stop_def unsent_value_def take_error_def Let_def idx_def)

lemma doubt_receipt_quiet:
  assumes "k < length (takes sv)"
  shows "quiet_step k sv (doubt_receipt E io k sv)"
proof (cases "stop_operation (takes sv ! k)")
  case (Some r)
  show ?thesis
  proof (cases "phase r = Observed")
    case False
    obtain out sv1 where u: "take_update E io r (new_update Unknown) sv = (out, sv1)" by fastforce
    have q: "quiet_step k sv sv1" by (rule take_update_quiet [OF assms u])
    show ?thesis
    proof (cases out)
      case (Inr r')
      have "quiet_step k sv1 (with_take k (\<lambda>t. t\<lparr>stop_operation := Some r'\<rparr>) sv1)"
        by (rule with_take_quiet) (use quiet_len [OF q] in \<open>simp_all add: same_core_def\<close>)
      with q have "quiet_step k sv (with_take k (\<lambda>t. t\<lparr>stop_operation := Some r'\<rparr>) sv1)" by (rule quiet_trans)
      then show ?thesis using Some False u Inr by (simp add: doubt_receipt_def)
    qed (use Some False u q in \<open>simp add: doubt_receipt_def\<close>)
  qed (use Some assms in \<open>simp add: doubt_receipt_def quiet_refl\<close>)
qed (use assms in \<open>simp add: doubt_receipt_def quiet_refl\<close>)

lemma uncertain_quiet:
  assumes "uncertain E io k why sv = (pc, sv')" and "k < length (takes sv)" and "upgradable io sv"
  shows "quiet_step k sv sv' \<and> unconfirmed pc"
proof -
  let ?d = "doubt_receipt E (st_final io) k sv"
  have q: "quiet_step k sv ?d" by (rule doubt_receipt_quiet [OF assms(2)])
  obtain s sv1 where i: "take_impact (st_up io) k ?d = (s, sv1)" by fastforce
  have up: "imp_alive (imp_state (sv_registry ?d)) \<longrightarrow> st_up io" by (rule frame_upgradable [OF quiet_frame [OF q] assms(3)])
  have "quiet_step k ?d sv1" by (rule take_impact_quiet [OF _ up i]) (use quiet_len [OF q] in simp)
  then have "quiet_step k sv sv1" by (rule quiet_trans [OF q])
  with i assms(1) show ?thesis by (auto simp: uncertain_def unconfirmed_def)
qed

lemma refusal_quiet:
  assumes "impact_stop_refusal io k sv = (pc, sv')" and "k < length (takes sv)" and "upgradable io sv"
  shows "quiet_step k sv sv' \<and> (unconfirmed pc \<or> pc = P_Refusal)"
proof -
  obtain s sv1 where i: "take_impact (st_up io) k sv = (s, sv1)" by fastforce
  have q: "quiet_step k sv sv1" by (rule take_impact_quiet [OF assms(2,3) i])
  have "quiet_step k sv1 (with_take k (\<lambda>t. t\<lparr>t_deadline := None\<rparr>) sv1)"
    by (rule with_take_quiet) (use quiet_len [OF q] in \<open>simp_all add: same_core_def\<close>)
  then have "quiet_step k sv (with_take k (\<lambda>t. t\<lparr>t_deadline := None\<rparr>) sv1)" by (rule quiet_trans [OF q])
  with q i assms(1) show ?thesis
    by (auto simp: impact_stop_refusal_def unconfirmed_def split: ImpactStatus.splits)
qed

lemma stop_receipt_quiet:
  assumes "stop_receipt E io k sv = (out, sv')" and "k < length (takes sv)"
  shows "quiet_step k sv sv'"
  using assms by (auto simp: stop_receipt_def quiet_refl intro: take_prepare_quiet split: option.splits)

lemma stop_intent_quiet:
  assumes "stop_intent E io k sv = (out, sv')" and "k < length (takes sv)"
  shows "quiet_step k sv sv'"
proof -
  obtain o1 sv1 where r: "stop_receipt E (st_prepare io) k sv = (o1, sv1)" by fastforce
  have q: "quiet_step k sv sv1" by (rule stop_receipt_quiet [OF r assms(2)])
  show ?thesis
  proof (cases o1)
    case (Inr rec)
    with assms(1) r have "take_update E (st_update io) rec dispatching_intent sv1 = (out, sv')" by (simp add: stop_intent_def)
    from take_update_quiet [OF _ this] quiet_len [OF q] have "quiet_step k sv1 sv'" by simp
    with q show ?thesis by (rule quiet_trans)
  qed (use assms(1) r q in \<open>simp add: stop_intent_def\<close>)
qed

text \<open>Asking for a stop: either it fails quietly, or the job is about to send and has marked the Take.\<close>

definition asked :: "nat \<Rightarrow> ('b, 'f) supervisor \<Rightarrow> 'f stop_pc \<Rightarrow> ('b, 'f) supervisor \<Rightarrow> bool" where
  "asked k sv pc sv' \<longleftrightarrow> frame k sv sv' \<and> current sv' = current sv \<and> \<not> stop_uncertain (takes sv ! k) \<and>
     stop_uncertain (takes sv' ! k) \<and> stop_operation (takes sv' ! k) \<noteq> None \<and> (\<exists>path ex. pc = P_Dispatch path ex False None [])"

lemma ask_stop_outcome:
  assumes "ask_stop E io k path sv = (pc, sv')" and "k < length (takes sv)" and "upgradable io sv"
  shows "quiet_step k sv sv' \<and> unconfirmed pc \<or> asked k sv pc sv'"
proof (cases "stop_uncertain (takes sv ! k)")
  case True
  with assms(1) show ?thesis using uncertain_quiet [OF _ assms(2,3)] by (simp add: ask_stop_def)
next
  case False
  obtain out sv1 where r: "stop_intent E io k sv = (out, sv1)" by fastforce
  have q: "quiet_step k sv sv1" by (rule stop_intent_quiet [OF r assms(2)])
  show ?thesis
  proof (cases out)
    case (Inl e)
    with assms(1) False r have "uncertain E io k ''Stop intent could not be persisted; no stop request was dispatched'' sv1 = (pc, sv')"
      by (simp add: ask_stop_def)
    from uncertain_quiet [OF this] quiet_len [OF q] frame_upgradable [OF quiet_frame [OF q] assms(3)]
    show ?thesis using quiet_trans [OF q] by blast
  next
    case (Inr rec)
    let ?f = "\<lambda>t. t\<lparr>stop_operation := Some rec, stop_uncertain := True, t_monitor := snd (begin_stop_expectation (t_monitor t))\<rparr>"
    have k: "k < length (takes sv1)" using quiet_len [OF q] by simp
    have "frame k sv1 (with_take k ?f sv1)" by (rule with_take_frame) (simp_all add: k same_core_def)
    then have "frame k sv (with_take k ?f sv1)" by (rule frame_trans [OF quiet_frame [OF q]])
    moreover have "stop_uncertain (takes sv1 ! k) = stop_uncertain (takes sv ! k)" "current sv1 = current sv"
      using q by (simp_all add: quiet_step_def)
    ultimately show ?thesis
      using assms(1) False r Inr k by (auto simp: ask_stop_def asked_def)
  qed
qed

section \<open>Evidence\<close>

text \<open>What a job knows at each of its control points: that the stopped event of its recording was seen,
  and the final summary of the monitor.\<close>

definition mail_ok :: "'f Take \<Rightarrow> json list \<Rightarrow> bool" where
  "mail_ok t mail \<longleftrightarrow> (\<forall>d \<in> set mail. output_state d = Some ''OBS_WEBSOCKET_OUTPUT_STOPPED'' \<longrightarrow> con_stopped (continuity t))"

fun wait_ok :: "'f Take \<Rightarrow> 'f wait_point \<Rightarrow> bool" where
  "wait_ok t At_Start = True"
| "wait_ok t (At_Confirmation path inactive) = (inactive \<longrightarrow> con_stopped (continuity t))"
| "wait_ok t (At_Cleanup path) = con_stopped (continuity t)"
| "wait_ok t (After_Monitor path s) = (con_stopped (continuity t) \<and> monitor_summary t = Some s)"
| "wait_ok t (After_Inspection path s check status) = (con_stopped (continuity t) \<and> monitor_summary t = Some s)"
| "wait_ok t (After_Log path s check takelog status) = (con_stopped (continuity t) \<and> monitor_summary t = Some s)"

fun pc_ok :: "'f Take \<Rightarrow> bool \<Rightarrow> 'f stop_pc \<Rightarrow> bool" where
  "pc_ok t cur (P_Wait wp entered) = wait_ok t wp"
| "pc_ok t cur (P_Dispatch path ex s r mail) = mail_ok t mail"
| "pc_ok t cur (P_Event path mail) = mail_ok t mail"
| "pc_ok t cur (P_Poll path) = con_stopped (continuity t)"
| "pc_ok t cur (P_Monitor am stage) = ((\<forall>p. am = M_Stopped p \<longrightarrow> con_stopped (continuity t)) \<and>
     (stage = Enter \<or> monitor_summary t = None))"
| "pc_ok t cur (P_Inspect path s status) = (con_stopped (continuity t) \<and> monitor_summary t = Some s)"
| "pc_ok t cur (P_Log path s check status) = (con_stopped (continuity t) \<and> monitor_summary t = Some s)"
| "pc_ok t cur (P_Finished r) = (confirms r \<longrightarrow> con_stopped (continuity t) \<and> monitor_summary t \<noteq> None \<and> \<not> cur)"
| "pc_ok t cur _ = True"

fun is_dispatch :: "'f stop_pc \<Rightarrow> bool" where
  "is_dispatch (P_Dispatch path ex s r mail) = True"
| "is_dispatch _ = False"

text \<open>A step of the job of Take \<open>k\<close>: what it changes, and that it keeps its evidence.\<close>

definition stepped :: "nat \<Rightarrow> ('b, 'f) supervisor \<Rightarrow> 'f stop_pc \<Rightarrow> ('b, 'f) supervisor \<Rightarrow> bool" where
  "stepped k sv pc sv' \<longleftrightarrow> frame k sv sv' \<and>
     (if is_dispatch pc then asked k sv pc sv' else stop_uncertain (takes sv' ! k) = stop_uncertain (takes sv ! k)) \<and>
     (current sv' = current sv \<or> current sv = Some k \<and> current sv' = None \<and> (\<exists>r. pc = P_Finished r)) \<and>
     pc_ok (takes sv' ! k) (current sv' = Some k) pc"

lemma quiet_stepped:
  "quiet_step k sv sv' \<Longrightarrow> \<not> is_dispatch pc \<Longrightarrow> pc_ok (takes sv' ! k) (current sv' = Some k) pc \<Longrightarrow> stepped k sv pc sv'"
  by (simp add: quiet_step_def stepped_def)

lemma unconfirmed_pc: "unconfirmed pc \<Longrightarrow> \<not> is_dispatch pc \<and> pc_ok t cur pc"
  by (auto simp: unconfirmed_def)

lemma unconfirmed_stepped: "quiet_step k sv sv' \<Longrightarrow> unconfirmed pc \<Longrightarrow> stepped k sv pc sv'"
  by (simp add: quiet_stepped unconfirmed_pc)

lemma asked_stepped: "asked k sv pc sv' \<Longrightarrow> stepped k sv pc sv'"
  by (auto simp: asked_def stepped_def mail_ok_def)

lemma refusal_stepped:
  assumes "impact_stop_refusal io k sv = (pc, sv')" and "k < length (takes sv)" and "upgradable io sv"
  shows "stepped k sv pc sv'"
  using refusal_quiet [OF assms] by (auto intro: unconfirmed_stepped quiet_stepped)

text \<open>Steps compose with what precedes them quietly.\<close>

lemma quiet_then:
  assumes "quiet_step k sv sv1" and "stepped k sv1 pc sv2"
  shows "stepped k sv pc sv2"
  using assms frame_trans [of k sv sv1 sv2] by (auto simp: quiet_step_def stepped_def asked_def)

lemma uncertain_stepped:
  "uncertain E io k why sv = (pc, sv') \<Longrightarrow> k < length (takes sv) \<Longrightarrow> upgradable io sv \<Longrightarrow> stepped k sv pc sv'"
  using uncertain_quiet unconfirmed_stepped by blast

lemma monitor_pc: "(\<And>p. am \<noteq> M_Stopped p) \<Longrightarrow> pc_ok t cur (P_Monitor am Enter)"
  by (cases am) auto

lemma no_deadline_quiet: "k < length (takes sv) \<Longrightarrow> quiet_step k sv (with_take k (\<lambda>t. t\<lparr>t_deadline := None\<rparr>) sv)"
  by (rule with_take_quiet) (simp_all add: same_core_def)

lemma decide_stepped:
  assumes "decide_stop E io k act sv = (pc, sv')" and "k < length (takes sv)" and "upgradable io sv"
  shows "stepped k sv pc sv'"
proof -
  let ?c = "continuity (takes sv ! k)"
  consider (lost) l where "con_lost ?c = Some l"
    | (doubt) "con_lost ?c = None" "\<not> act" "\<not> con_stopped ?c"
    | (foreign) "con_lost ?c = None" "act" "con_stopped ?c"
    | (ask) "con_lost ?c = None" "act" "\<not> con_stopped ?c"
    | (clean) "con_lost ?c = None" "\<not> act" "con_stopped ?c" by fastforce
  then show ?thesis
  proof cases
    case lost
    with assms(1) have "sv' = with_take k (\<lambda>t. t\<lparr>t_deadline := None\<rparr>) sv" "\<exists>am. pc = P_Monitor am Enter \<and> (\<forall>p. am \<noteq> M_Stopped p)"
      by (auto simp: decide_stop_def Let_def)
    moreover from this(2) have "\<not> is_dispatch pc \<and> pc_ok t cur pc" for t cur
      by (auto simp: monitor_pc)
    ultimately show ?thesis using no_deadline_quiet [OF assms(2)] by (simp add: quiet_stepped)
  next
    case doubt
    with assms show ?thesis by (intro uncertain_stepped) (auto simp: decide_stop_def Let_def)
  next
    case foreign
    with assms(1) show ?thesis using no_deadline_quiet [OF assms(2)] by (auto simp: decide_stop_def Let_def intro: quiet_stepped)
  next
    case ask
    with assms(1) have "ask_stop E io k (con_path ?c) sv = (pc, sv')" by (simp add: decide_stop_def Let_def)
    from ask_stop_outcome [OF this assms(2,3)] show ?thesis by (auto intro: unconfirmed_stepped asked_stepped)
  next
    case clean
    with assms(1,2) show ?thesis by (auto simp: decide_stop_def Let_def quiet_refl intro: quiet_stepped)
  qed
qed

lemma status_stepped:
  assumes "status_answer E io k answer sv = (pc, sv')" and "k < length (takes sv)" and "upgradable io sv"
  shows "stepped k sv pc sv'"
proof (cases answer)
  case None
  with assms show ?thesis by (intro uncertain_stepped) (auto simp: status_answer_def)
next
  case (Some act)
  obtain s sv1 where i: "take_impact (st_up io) k sv = (s, sv1)" by fastforce
  have q: "quiet_step k sv sv1" by (rule take_impact_quiet [OF assms(2,3) i])
  have k: "k < length (takes sv1)" "upgradable io sv1"
    using quiet_len [OF q] frame_upgradable [OF quiet_frame [OF q] assms(3)] by simp_all
  have "stepped k sv1 pc sv'"
  proof (cases s)
    case Imp_Ready
    with assms(1) Some i show ?thesis by (intro decide_stepped [OF _ k]) (auto simp: status_answer_def)
  next
    case (Suspended n)
    with assms(1) Some i k show ?thesis by (auto simp: status_answer_def quiet_refl intro: quiet_stepped)
  next
    case (Revoked r)
    with assms(1) Some i show ?thesis by (intro refusal_stepped [OF _ k]) (auto simp: status_answer_def)
  qed
  with q show ?thesis by (rule quiet_then)
qed

text \<open>Retiring the Take before an uncertain end.\<close>

lemma retired_stepped:
  assumes "uncertain E io k why (clear_current k (release_lease ms k sv)) = (pc, sv')" and "k < length (takes sv)" and "upgradable io sv"
  shows "stepped k sv pc sv'"
proof -
  let ?r = "release_lease ms k sv" and ?c = "clear_current k (release_lease ms k sv)"
  have q: "quiet_step k sv ?r" by (rule release_lease_quiet [OF assms(2)])
  have f: "frame k ?r ?c" using quiet_len [OF q] by (intro clear_current_frame) simp
  have fc: "frame k sv ?c" by (rule frame_trans [OF quiet_frame [OF q] f])
  have u: "quiet_step k ?c sv'" "unconfirmed pc"
    using uncertain_quiet [OF assms(1)] frame_len [OF fc] frame_upgradable [OF fc assms(3)] by simp_all
  have "frame k sv sv'" by (rule frame_trans [OF fc quiet_frame [OF u(1)]])
  moreover have "stop_uncertain (takes sv' ! k) = stop_uncertain (takes sv ! k)"
    using u(1) q by (simp add: quiet_step_def)
  moreover have "current sv' = (if current sv = Some k then None else current sv)"
    using u(1) q by (simp add: quiet_step_def clear_current_other)
  ultimately show ?thesis
    using unconfirmed_pc [OF u(2)] u(2) by (auto simp: stepped_def unconfirmed_def)
qed

lemma after_monitor_stepped:
  assumes "after_monitor E io k am out sv = (pc, sv')" and "k < length (takes sv)" and "upgradable io sv"
    and "\<And>s. out = Ok s \<Longrightarrow> monitor_summary (takes sv ! k) = Some s"
    and "\<And>p. am = M_Stopped p \<Longrightarrow> con_stopped (continuity (takes sv ! k))"
  shows "stepped k sv pc sv'"
proof (cases out)
  case (Inl e)
  with assms(1-3) show ?thesis by (intro uncertain_stepped) (auto simp: after_monitor_def)
next
  case (Inr s)
  show ?thesis
  proof (cases am)
    case (M_Inactive_Lost l)
    with assms(1-3) Inr show ?thesis by (intro retired_stepped) (auto simp: after_monitor_def)
  next
    case (M_Foreign why)
    with assms(1-3) Inr show ?thesis by (intro uncertain_stepped) (auto simp: after_monitor_def)
  next
    case (M_Stopped p)
    with assms Inr show ?thesis by (auto simp: after_monitor_def quiet_refl intro: quiet_stepped)
  next
    case (M_Refused inactive)
    let ?why = "case con_lost (continuity (takes sv ! k)) of None \<Rightarrow> IMPACT_LOST | Some l \<Rightarrow> l"
    show ?thesis
    proof (cases inactive)
      case True
      with assms(1) Inr M_Refused have "uncertain E io k (?why @ NOW_INACTIVE) (clear_current k (release_lease (st_ms io) k sv)) = (pc, sv')"
        by (simp add: after_monitor_def Let_def)
      then show ?thesis using assms(2,3) by (rule retired_stepped)
    next
      case False
      with assms(1) Inr M_Refused have "uncertain E io k ?why sv = (pc, sv')" by (simp add: after_monitor_def Let_def)
      then show ?thesis using assms(2,3) by (rule uncertain_stepped)
    qed
  qed
qed

lemma pc_ok_monitor: "pc_ok t cur (P_Monitor am stage) \<longleftrightarrow> (\<forall>p. am = M_Stopped p \<longrightarrow> con_stopped (continuity t)) \<and>
    (stage = Enter \<or> monitor_summary t = None)"
  by simp

lemma enter_stepped:
  assumes "monitor_enter E io k am sv = (pc, sv')" and "k < length (takes sv)" and "upgradable io sv"
    and "pc_ok (takes sv ! k) cur (P_Monitor am Enter)"
  shows "stepped k sv pc sv'"
proof (cases "monitor_summary (takes sv ! k)")
  case (Some s)
  with assms show ?thesis by (intro after_monitor_stepped [of E io k am "Ok s"]) (auto simp: monitor_enter_def pc_ok_monitor)
next
  case None
  let ?f = "\<lambda>t. t\<lparr>monitor_stop_running := True, t_monitor := snd (begin_stop (st_now io) (t_monitor t)), next_stats := None, next_picture := None\<rparr>"
  have "quiet_step k sv (with_take k ?f sv)" by (rule with_take_quiet) (simp_all add: assms(2) same_core_def)
  with None assms show ?thesis
    by (auto simp: monitor_enter_def pc_ok_monitor quiet_refl intro!: quiet_stepped split: if_splits)
qed

lemma stats_stepped:
  assumes "monitor_stats F io k am stats sv = (pc, sv')" and "k < length (takes sv)"
    and "pc_ok (takes sv ! k) cur (P_Monitor am Stats)"
  shows "stepped k sv pc sv'"
proof (cases stats)
  case None
  with assms show ?thesis by (auto simp: monitor_stats_def pc_ok_monitor quiet_refl intro!: quiet_stepped)
next
  case (Some v)
  let ?f = "\<lambda>t. t\<lparr>t_monitor := observe_stats F (st_now io) v (t_monitor t)\<rparr>"
  have "quiet_step k sv (with_take k ?f sv)" by (rule with_take_quiet) (simp_all add: assms(2) same_core_def)
  with Some assms show ?thesis by (auto simp: monitor_stats_def pc_ok_monitor intro!: quiet_stepped)
qed

lemma join_stepped:
  assumes "monitor_join F E io k am joined sv = (pc, sv')" and "k < length (takes sv)" and "upgradable io sv"
    and "pc_ok (takes sv ! k) cur (P_Monitor am Join)"
  shows "stepped k sv pc sv'"
proof (cases joined)
  case (Inl e)
  let ?sv = "with_take k (\<lambda>t. t\<lparr>monitor_stop_running := False\<rparr>) sv"
  have q: "quiet_step k sv ?sv" by (rule with_take_quiet) (simp_all add: assms(2) same_core_def)
  have "stepped k ?sv pc sv'"
    using assms Inl by (intro after_monitor_stepped [of E io k am "Err (''Take monitor cleanup is unavailable ('' @ e @ '')'')"])
      (auto simp: monitor_join_def pc_ok_monitor)
  with q show ?thesis by (rule quiet_then)
next
  case (Inr u)
  show ?thesis
  proof (cases "\<exists>m u. finish_cleanup F (t_monitor (takes sv ! k)) = Some (Ok u, m)")
    case True
    then obtain m u where m: "finish_cleanup F (t_monitor (takes sv ! k)) = Some (Ok u, m)" by blast
    let ?s = "summary F (st_now io) m"
    let ?sv = "with_take k (\<lambda>t. t\<lparr>t_monitor := m, monitor_summary := Some ?s\<rparr>) sv"
    have q: "quiet_step k sv ?sv"
      by (rule with_take_quiet) (use assms(2,4) in \<open>simp_all add: pc_ok_monitor same_core_def\<close>)
    have "stepped k ?sv pc sv'"
      using assms Inr m by (intro after_monitor_stepped [of E io k am "Ok ?s"]) (auto simp: monitor_join_def pc_ok_monitor Let_def)
    with q show ?thesis by (rule quiet_then)
  next
    case False
    with assms(1) Inr have "pc = P_Panicked" "sv' = sv"
      by (auto simp: monitor_join_def split: option.splits sum.splits prod.splits)
    then show ?thesis using assms(2) by (simp add: quiet_refl quiet_stepped)
  qed
qed

lemma drain_stepped:
  assumes "monitor_drain k am sv = (pc, sv')" and "k < length (takes sv)" and "pc_ok (takes sv ! k) cur (P_Monitor am Drain)"
  shows "stepped k sv pc sv'"
  using assms by (auto simp: monitor_drain_def pc_ok_monitor quiet_refl intro!: quiet_stepped)

lemma observed_receipt_quiet:
  assumes "observed_receipt E io k sv = (status, sv')" and "k < length (takes sv)"
  shows "quiet_step k sv sv'"
proof -
  obtain o1 sv1 where r: "stop_receipt E (st_prepare io) k sv = (o1, sv1)" by fastforce
  have q: "quiet_step k sv sv1" by (rule stop_receipt_quiet [OF r assms(2)])
  show ?thesis
  proof (cases o1)
    case (Inr rec)
    obtain o2 sv2 where u: "take_update E (st_update io) rec observed_update sv1 = (o2, sv2)" by fastforce
    have q2: "quiet_step k sv1 sv2" by (rule take_update_quiet [OF _ u]) (use quiet_len [OF q] in simp)
    have "quiet_step k sv2 (with_take k (\<lambda>t. t\<lparr>stop_operation := Some x\<rparr>) sv2)" for x
      by (rule with_take_quiet) (use quiet_len [OF q2] in \<open>simp_all add: same_core_def\<close>)
    then have "quiet_step k sv1 (with_take k (\<lambda>t. t\<lparr>stop_operation := Some x\<rparr>) sv2)" for x by (rule quiet_trans [OF q2])
    then have "quiet_step k sv1 sv'" using assms(1) r Inr u q2 by (auto simp: observed_receipt_def split: sum.splits)
    with q show ?thesis by (rule quiet_trans)
  qed (use assms(1) r q in \<open>simp add: observed_receipt_def\<close>)
qed

text \<open>Clearing the current Take at the end of a job.\<close>

lemma cleared_stepped:
  assumes "k < length (takes sv)" and "confirms r \<Longrightarrow> con_stopped (continuity (takes sv ! k)) \<and> monitor_summary (takes sv ! k) \<noteq> None"
  shows "stepped k sv (P_Finished r) (clear_current k sv)"
  using assms clear_current_frame [OF assms(1)] by (auto simp: stepped_def clear_current_other)

lemma quiet_core: "quiet_step k sv sv' \<Longrightarrow> same_core (takes sv ! k) (takes sv' ! k)"
  by (simp add: quiet_step_def frame_def)

lemma stopped_stepped:
  assumes "record_stopped E io k path s sv = (pc, sv')" and "k < length (takes sv)"
    and "con_stopped (continuity (takes sv ! k))" and "monitor_summary (takes sv ! k) = Some s"
  shows "stepped k sv pc sv'"
proof -
  let ?sv = "release_lease (st_ms io) k sv"
  let ?found = "opt_filter (\<lambda>p. p \<noteq> []) (opt_or path (recording_path (t_monitor (takes ?sv ! k))))"
  have q: "quiet_step k sv ?sv" by (rule release_lease_quiet [OF assms(2)])
  have k: "k < length (takes ?sv)" using quiet_len [OF q] by simp
  have core: "con_stopped (continuity (takes ?sv ! k))" "monitor_summary (takes ?sv ! k) = Some s"
    using quiet_core [OF q] assms(3,4) by (simp_all add: same_core_def)
  have "stepped k ?sv pc sv'"
  proof (cases ?found)
    case None
    let ?e = "take_error (''Take '' @ t_id (takes ?sv ! k) @ '' stopped, but OBS did not report its file'')"
    have "pc = P_Finished ?e" "sv' = clear_current k ?sv"
      using assms(1) None by (simp_all add: record_stopped_def Let_def)
    moreover have "stepped k ?sv (P_Finished ?e) (clear_current k ?sv)"
      by (rule cleared_stepped [OF k]) simp
    ultimately show ?thesis by simp
  next
    case (Some p)
    obtain status sv2 where o: "observed_receipt E io k ?sv = (status, sv2)" by fastforce
    have q2: "quiet_step k ?sv sv2" by (rule observed_receipt_quiet [OF o k])
    have "con_stopped (continuity (takes sv2 ! k))" "monitor_summary (takes sv2 ! k) = Some s"
      using quiet_core [OF q2] core by (simp_all add: same_core_def)
    with assms(1) Some o q2 show ?thesis by (cases "t_local (takes sv2 ! k)") (auto simp: record_stopped_def Let_def intro!: quiet_stepped)
  qed
  with q show ?thesis by (rule quiet_then)
qed

lemma go_on_stepped:
  assumes "go_on F E io j wp sv = (pc, sv')" and "j_take j = k" and "k < length (takes sv)" and "upgradable io sv"
    and "wait_ok (takes sv ! k) wp"
  shows "stepped k sv pc sv'"
proof (cases wp)
  case (At_Confirmation path inactive)
  show ?thesis
  proof (cases "con_lost (continuity (takes sv ! k)) = None \<and> inactive")
    case True
    with At_Confirmation assms show ?thesis by (auto simp: go_on_def Let_def quiet_refl intro!: quiet_stepped)
  next
    case False
    with At_Confirmation assms(1,2) obtain why where "uncertain E io k why sv = (pc, sv')"
      by (auto simp: go_on_def Let_def split: option.splits)
    then show ?thesis using assms(3,4) by (rule uncertain_stepped)
  qed
next
  case (At_Cleanup path)
  with assms show ?thesis using no_deadline_quiet [OF assms(3)] by (auto simp: go_on_def Let_def intro!: quiet_stepped)
next
  case (After_Monitor path s)
  with assms show ?thesis by (intro stopped_stepped) (auto simp: go_on_def Let_def)
next
  case (After_Inspection path s check status)
  with assms show ?thesis
    by (cases "t_local (takes sv ! k)") (auto simp: go_on_def Let_def quiet_refl intro!: quiet_stepped)
next
  case (After_Log path s check takelog status)
  with assms show ?thesis by (auto simp: go_on_def Let_def intro!: cleared_stepped)
qed (use assms in \<open>auto simp: go_on_def Let_def quiet_refl intro!: quiet_stepped\<close>)

text \<open>A quiet step keeps the evidence.\<close>

lemma same_core_wait: "same_core t t' \<Longrightarrow> wait_ok t wp \<Longrightarrow> wait_ok t' wp"
  by (cases wp) (auto simp: same_core_def)

lemma looks_stepped:
  assumes "look_while_waiting F E io j wp entered sv = (pc, sv')" and "j_take j = k" and "k < length (takes sv)"
    and "upgradable io sv" and "wait_ok (takes sv ! k) wp"
  shows "stepped k sv pc sv'"
proof -
  obtain s sv1 where i: "take_impact (st_up io) k sv = (s, sv1)" by fastforce
  have q: "quiet_step k sv sv1" by (rule take_impact_quiet [OF assms(3,4) i])
  let ?b = "\<lambda>x. with_take k (\<lambda>t. t\<lparr>blocked_impact := x\<rparr>) sv1"
  have "quiet_step k sv1 (?b x)" for x
    by (rule with_take_quiet) (use quiet_len [OF q] in \<open>simp_all add: same_core_def\<close>)
  then have qb: "quiet_step k sv (?b x)" for x by (rule quiet_trans [OF q])
  have ok: "wait_ok (takes sv1 ! k) wp" "wait_ok (takes (?b x) ! k) wp" for x
    using same_core_wait [OF quiet_core assms(5)] q qb by blast+
  show ?thesis
  proof (cases entered)
    case False
    with assms(1,2) i q qb ok show ?thesis
      by (cases s) (auto simp: look_while_waiting_def simp del: with_take_nth intro!: quiet_stepped)
  next
    case True
    show ?thesis
    proof (cases s)
      case Imp_Ready
      have "stepped k (?b None) pc sv'"
        using assms(1,2) i True Imp_Ready ok(2) quiet_len [OF qb] frame_upgradable [OF quiet_frame [OF qb] assms(4)]
        by (intro go_on_stepped [of F E io j wp "?b None"]) (auto simp: look_while_waiting_def)
      then show ?thesis by (rule quiet_then [OF qb])
    next
      case (Suspended n)
      with assms(1,2) i True q ok show ?thesis by (auto simp: look_while_waiting_def intro!: quiet_stepped)
    next
      case (Revoked r)
      have "stepped k sv1 pc sv'"
        using assms(1,2) i True Revoked quiet_len [OF q] frame_upgradable [OF quiet_frame [OF q] assms(4)]
        by (intro refusal_stepped) (auto simp: look_while_waiting_def)
      then show ?thesis by (rule quiet_then [OF q])
    qed
  qed
qed

lemma expires_stepped:
  assumes "impact_stop_refusal io k (snd (take_impact (st_up io) k sv)) = (pc, sv')" and "k < length (takes sv)" and "upgradable io sv"
  shows "stepped k sv pc sv'"
proof -
  obtain s sv1 where i: "take_impact (st_up io) k sv = (s, sv1)" by fastforce
  have q: "quiet_step k sv sv1" by (rule take_impact_quiet [OF assms(2,3) i])
  have "stepped k sv1 pc sv'"
    using assms(1) i quiet_len [OF q] frame_upgradable [OF quiet_frame [OF q] assms(3)] by (intro refusal_stepped) auto
  then show ?thesis by (rule quiet_then [OF q])
qed

lemma event_pc:
  assumes "mail_ok t (d # rest)" and "pc = stop_event path d rest"
  shows "pc_ok t cur pc \<and> \<not> is_dispatch pc"
  using assms by (simp add: stop_event_def mail_ok_def)

lemma poll_pc:
  assumes "con_stopped (continuity t)" and "pc = poll_answer path lost late answer"
  shows "pc_ok t cur pc \<and> \<not> is_dispatch pc"
  using assms by (simp add: poll_answer_def split: option.split bool.split)

lemma job_move_stepped:
  assumes "job_move F E io j sv pc sv'" and "j_take j < length (takes sv)" and "upgradable io sv"
    and "pc_ok (takes sv ! j_take j) cur (j_pc j)"
  shows "stepped (j_take j) sv pc sv'"
  using assms
proof (induction rule: job_move.induct)
  case (looks wp entered pc sv')
  then show ?case by (intro looks_stepped) simp_all
next
  case (wait_expires wp pc sv')
  then show ?case by (intro expires_stepped) simp_all
next
  case (answered answer pc sv')
  then show ?case by (intro status_stepped) simp_all
next
  case (hears path d rest)
  then show ?case using event_pc [OF _ refl, of "takes sv ! j_take j" d rest _ path] by (intro quiet_stepped quiet_refl) simp_all
next
  case (polls path late answer)
  then show ?case using poll_pc [OF _ refl, of "takes sv ! j_take j"] by (intro quiet_stepped quiet_refl) simp_all
next
  case (enters am pc sv')
  then show ?case by (intro enter_stepped [of E io "j_take j" am sv pc sv' cur]) simp_all
next
  case (reads_stats am stats pc sv')
  then show ?case by (intro stats_stepped [of F io "j_take j" am stats sv pc sv' cur]) simp_all
next
  case (drains am pc sv')
  then show ?case by (intro drain_stepped [of "j_take j" am sv pc sv' cur]) simp_all
next
  case (joins am joined pc sv')
  then show ?case by (intro join_stepped [of F E io "j_take j" am joined sv pc sv' cur]) simp_all
qed (auto simp: quiet_refl intro!: quiet_stepped)

section \<open>The guard and the reply\<close>

lemma guard_quiet:
  assumes "guard E up cancelled now (Some k) StopRecord p sv = (out, sv')" and "k < length (takes sv)"
    and "imp_alive (imp_state (sv_registry sv)) \<longrightarrow> up"
  shows "quiet_step k sv sv' \<and> (out = None \<longrightarrow> fst (check_ticket up (impact (takes sv ! k)) (sv_registry sv)) = Imp_Ready)"
proof -
  obtain d c where ev: "evaluate (te_float E) (effect_request StopRecord p) now (sv_control sv) = (d, c)" by fastforce
  let ?c = "sv\<lparr>sv_control := c\<rparr>"
  have qc: "quiet_step k sv ?c" by (rule control_quiet [OF assms(2)])
  consider (closed) "sv_closed sv" | (owner) why where "\<not> sv_closed sv" "guard_ownership (Some k) StopRecord sv = Some why"
    | (policy) "\<not> sv_closed sv" "guard_ownership (Some k) StopRecord sv = None" "d \<noteq> Allow"
    | (impact) "\<not> sv_closed sv" "guard_ownership (Some k) StopRecord sv = None" "d = Allow" by fastforce
  then show ?thesis
  proof cases
    case impact
    then have cur: "current sv = Some k" by (simp add: guard_ownership_def split: if_splits)
    obtain s sv1 where i: "take_impact up k ?c = (s, sv1)" by fastforce
    have q1: "quiet_step k ?c sv1" by (rule take_impact_quiet [OF _ _ i]) (use assms(2,3) in simp_all)
    have qb: "quiet_step k sv1 (with_take k (\<lambda>t. t\<lparr>blocked_impact := x\<rparr>) sv1)" for x
      by (rule with_take_quiet) (use quiet_len [OF q1] in \<open>simp_all add: same_core_def\<close>)
    have q: "quiet_step k sv sv1" "quiet_step k sv (with_take k (\<lambda>t. t\<lparr>blocked_impact := x\<rparr>) sv1)" for x
      using quiet_trans [OF qc q1] quiet_trans [OF _ qb] by blast+
    have "s = fst (check_ticket up (Take.impact (takes sv ! k)) (sv_registry sv))"
      using i by (auto simp: take_impact_def apply_impact_def split: prod.splits)
    moreover have "(out, sv') = guard_impact up StopRecord ?c" using assms(1) impact ev by (simp add: guard_def)
    ultimately show ?thesis using cur i q by (auto simp: guard_impact_def split: ImpactStatus.splits if_splits)
  qed (use assms(1,2) ev qc in \<open>auto simp: guard_def quiet_refl\<close>)
qed

definition is_unsent :: "(DispatchError, json) result \<Rightarrow> bool" where
  "is_unsent reply \<longleftrightarrow> (\<exists>m. reply = Err (DE_BeforeDispatch m))"

text \<open>A reply settles the request: the mark stays unless the request was never sent or was rejected, and
  a rejection removes it.\<close>

definition settled :: "nat \<Rightarrow> ('b, 'f) supervisor \<Rightarrow> (DispatchError, json) result \<Rightarrow> 'f stop_pc \<Rightarrow> ('b, 'f) supervisor \<Rightarrow> bool" where
  "settled k sv reply pc sv' \<longleftrightarrow> frame k sv sv' \<and> current sv' = current sv \<and> \<not> is_dispatch pc \<and>
     (\<forall>cur. pc_ok (takes sv' ! k) cur pc) \<and> (is_rejection reply \<longrightarrow> \<not> stop_uncertain (takes sv' ! k)) \<and>
     (is_rejection reply \<or> is_unsent reply \<or> stop_uncertain (takes sv' ! k) = stop_uncertain (takes sv ! k))"

lemma uncertain_settled:
  assumes "frame k sv sv1" and "current sv1 = current sv" and "uncertain E io k why sv1 = (pc, sv')" and "upgradable io sv"
    and "is_rejection reply \<longrightarrow> \<not> stop_uncertain (takes sv1 ! k)"
    and "is_rejection reply \<or> is_unsent reply \<or> stop_uncertain (takes sv1 ! k) = stop_uncertain (takes sv ! k)"
  shows "settled k sv reply pc sv'"
proof -
  have u: "quiet_step k sv1 sv'" "unconfirmed pc"
    using uncertain_quiet [OF assms(3)] frame_len [OF assms(1)] frame_upgradable [OF assms(1,4)] by simp_all
  have "frame k sv sv'" by (rule frame_trans [OF assms(1) quiet_frame [OF u(1)]])
  with u assms show ?thesis by (auto simp: settled_def unconfirmed_pc quiet_step_def)
qed

lemma retire_frame:
  assumes "retire_unsent_stop E io k sv = (out, sv')" and "k < length (takes sv)"
  shows "frame k sv sv' \<and> current sv' = current sv"
proof (cases "case stop_operation (takes sv ! k) of None \<Rightarrow> False | Some r \<Rightarrow> retirable (t_id (takes sv ! k)) r")
  case True
  then obtain r where r: "stop_operation (takes sv ! k) = Some r" "retirable (t_id (takes sv ! k)) r" by (auto split: option.splits)
  obtain o1 sv1 where u: "take_update E io r unsent_update sv = (o1, sv1)" by fastforce
  have q: "quiet_step k sv sv1" by (rule take_update_quiet [OF assms(2) u])
  have "frame k sv1 (with_take k (\<lambda>t. t\<lparr>stop_uncertain := False, stop_operation := None\<rparr>) sv1)"
    by (rule with_take_frame) (use quiet_len [OF q] in \<open>simp_all add: same_core_def\<close>)
  then have "frame k sv (with_take k (\<lambda>t. t\<lparr>stop_uncertain := False, stop_operation := None\<rparr>) sv1)"
    by (rule frame_trans [OF quiet_frame [OF q]])
  with assms(1) r u q show ?thesis
    by (auto simp: retire_unsent_stop_def quiet_step_def split: sum.splits)
next
  case False
  with assms show ?thesis by (auto simp: retire_unsent_stop_def frame_refl split: option.splits)
qed

lemma quiet_settled:
  assumes "frame k sv sv1" and "current sv1 = current sv" and "quiet_step k sv1 sv'" and "unconfirmed pc \<or> pc = P_Refusal"
  shows "settled k sv (Err (DE_BeforeDispatch m)) pc sv'"
proof -
  have "frame k sv sv'" by (rule frame_trans [OF assms(1) quiet_frame [OF assms(3)]])
  moreover have "\<not> is_dispatch pc" "pc_ok t cur pc" for t cur using assms(4) unconfirmed_pc by auto
  ultimately show ?thesis
    using assms(2,3) by (simp add: settled_def is_unsent_def is_rejection_def quiet_step_def)
qed

lemma unsent_settled:
  assumes "unsent_stop E io k ex m sv = (pc, sv')" and "k < length (takes sv)" and "upgradable io sv"
  shows "settled k sv (Err (DE_BeforeDispatch m)) pc sv'"
proof -
  obtain o1 sv1 where r: "retire_unsent_stop E (st_update io) k sv = (o1, sv1)" by fastforce
  have f: "frame k sv sv1" "current sv1 = current sv" using retire_frame [OF r assms(2)] by simp_all
  show ?thesis
  proof (cases o1)
    case (Inl e)
    with assms(1) r have "uncertain E io k ''Unsent Stop receipt could not be safely retired'' sv1 = (pc, sv')"
      by (simp add: unsent_stop_def)
    from uncertain_settled [OF f this assms(3)] show ?thesis by (simp add: is_rejection_def is_unsent_def)
  next
    case (Inr retired)
    let ?sv = "with_take k (\<lambda>t. t\<lparr>t_monitor := rollback_stop_expectation ex (t_monitor t)\<rparr>) sv1"
    have b: "quiet_step k sv1 ?sv"
      by (rule with_take_quiet) (use frame_len [OF f(1)] in \<open>simp_all add: same_core_def\<close>)
    obtain s sv2 where i: "take_impact (st_up io) k ?sv = (s, sv2)" by fastforce
    have "quiet_step k ?sv sv2"
      by (rule take_impact_quiet [OF _ _ i]) (use frame_len [OF f(1)] frame_upgradable [OF f(1) assms(3)] in simp_all)
    then have q: "quiet_step k sv1 sv2" by (rule quiet_trans [OF b])
    have k2: "k < length (takes sv2)" "upgradable io sv2"
      using quiet_len [OF q] frame_upgradable [OF quiet_frame [OF q]] frame_upgradable [OF f(1) assms(3)] by simp_all
    show ?thesis
    proof (cases "\<exists>r. s = Revoked r")
      case True
      with assms(1) r Inr i have "impact_stop_refusal io k sv2 = (pc, sv')" by (auto simp: unsent_stop_def)
      from refusal_quiet [OF this k2] show ?thesis using quiet_settled [OF f] quiet_trans [OF q] by blast
    next
      case False
      with assms(1) r Inr i have "sv' = sv2" "unconfirmed pc"
        by (auto simp: unsent_stop_def unconfirmed_def split: ImpactStatus.splits)
      then show ?thesis using quiet_settled [OF f q] by simp
    qed
  qed
qed

lemma reject_receipt_frame:
  assumes "k < length (takes sv)"
  shows "frame k sv (reject_receipt E io k sv) \<and> current (reject_receipt E io k sv) = current sv \<and>
    \<not> stop_uncertain (takes (reject_receipt E io k sv) ! k)"
proof -
  let ?sv = "with_take k (\<lambda>t. t\<lparr>stop_uncertain := False\<rparr>) sv"
  have f: "frame k sv ?sv" by (rule with_take_frame) (simp_all add: assms same_core_def)
  have "quiet_step k ?sv (reject_receipt E io k sv)"
  proof (cases "stop_operation (takes ?sv ! k)")
    case (Some r)
    obtain o1 sv1 where u: "take_update E io r Takes.rejected_update ?sv = (o1, sv1)" by fastforce
    have q: "quiet_step k ?sv sv1" by (rule take_update_quiet [OF _ u]) (simp add: assms)
    have "quiet_step k sv1 (with_take k (\<lambda>t. t\<lparr>stop_operation := Some x\<rparr>) sv1)" for x
      by (rule with_take_quiet) (use quiet_len [OF q] in \<open>simp_all add: same_core_def\<close>)
    then have "quiet_step k ?sv (with_take k (\<lambda>t. t\<lparr>stop_operation := Some x\<rparr>) sv1)" for x by (rule quiet_trans [OF q])
    with Some u q show ?thesis by (auto simp: reject_receipt_def Let_def split: sum.splits)
  qed (simp add: reject_receipt_def Let_def quiet_refl assms)
  with f show ?thesis using frame_trans [OF f] assms by (auto simp: quiet_step_def)
qed

lemma accepted_settled:
  assumes "stop_reply E io k path ex mail (Ok v) sv = (pc, sv')" and "k < length (takes sv)" and "upgradable io sv"
    and "mail_ok (takes sv ! k) mail"
  shows "settled k sv (Ok v) pc sv'"
proof (cases "stop_operation (takes sv ! k)")
  case None
  with assms(1,2) show ?thesis by (auto simp: stop_reply_def settled_def frame_refl is_rejection_def)
next
  case (Some r)
  obtain o1 sv1 where u: "take_update E (st_update io) r accepted_update sv = (o1, sv1)" by fastforce
  have q: "quiet_step k sv sv1" by (rule take_update_quiet [OF assms(2) u])
  show ?thesis
  proof (cases o1)
    case (Inl e)
    with assms(1) Some u obtain why where "uncertain E io k why sv1 = (pc, sv')" by (auto simp: stop_reply_def)
    from uncertain_settled [OF quiet_frame [OF q] _ this assms(3)] q show ?thesis
      by (auto simp: quiet_step_def is_rejection_def)
  next
    case (Inr r')
    let ?sv = "with_take k (\<lambda>t. t\<lparr>stop_operation := Some r'\<rparr>) sv1"
    have "quiet_step k sv1 ?sv" by (rule with_take_quiet) (use quiet_len [OF q] in \<open>simp_all add: same_core_def\<close>)
    then have q2: "quiet_step k sv ?sv" by (rule quiet_trans [OF q])
    then have "mail_ok (takes ?sv ! k) mail" using assms(4) quiet_core [OF q2] by (auto simp: mail_ok_def same_core_def)
    with q2 show ?thesis
      using assms(1) Some u Inr by (auto simp: stop_reply_def settled_def quiet_step_def is_rejection_def)
  qed
qed

lemma reply_settled:
  assumes "stop_reply E io k path ex mail reply sv = (pc, sv')" and "k < length (takes sv)" and "upgradable io sv"
    and "mail_ok (takes sv ! k) mail"
  shows "settled k sv reply pc sv'"
proof (cases reply)
  case (Inr v)
  with assms accepted_settled show ?thesis by blast
next
  case (Inl e)
  show ?thesis
  proof (cases e)
    case (DE_BeforeDispatch m)
    with Inl assms show ?thesis by (auto simp: stop_reply_def intro!: unsent_settled)
  next
    case (DE_Rejected code m)
    let ?r = "reject_receipt E (st_update io) k sv"
    obtain why where "uncertain E io k why ?r = (pc, sv')" using assms(1) Inl DE_Rejected by (auto simp: stop_reply_def)
    from uncertain_settled [OF _ _ this assms(3)] reject_receipt_frame [OF assms(2)] Inl DE_Rejected
    show ?thesis by (simp add: is_rejection_def)
  next
    case (DE_Unknown m)
    obtain why where "uncertain E io k why sv = (pc, sv')" using assms(1) Inl DE_Unknown by (auto simp: stop_reply_def)
    from uncertain_settled [OF frame_refl [OF assms(2)] _ this assms(3)] Inl DE_Unknown
    show ?thesis by (simp add: is_rejection_def)
  qed
qed

section \<open>The invariant of all stops\<close>

definition sends :: "('b, 'f) stop_world \<Rightarrow> nat \<Rightarrow> nat" where
  "sends w k = count_list (map fst (sent w)) k"

definition rejects :: "('b, 'f) stop_world \<Rightarrow> nat \<Rightarrow> nat" where
  "rejects w k = count_list (rejected w) k"

lemma count_simps [simp]:
  "sends (w\<lparr>sup := sv\<rparr>) = sends w" "sends (w\<lparr>jobs := js\<rparr>) = sends w" "sends (w\<lparr>rejected := ks\<rparr>) = sends w"
  "rejects (w\<lparr>sup := sv\<rparr>) = rejects w" "rejects (w\<lparr>jobs := js\<rparr>) = rejects w" "rejects (w\<lparr>sent := hs\<rparr>) = rejects w"
  by (simp_all add: sends_def rejects_def fun_eq_iff)

definition evidence :: "'f Take \<Rightarrow> bool" where
  "evidence t \<longleftrightarrow> con_stopped (continuity t) \<and> monitor_summary t \<noteq> None"

fun is_finished :: "'f stop_pc \<Rightarrow> bool" where
  "is_finished (P_Finished r) = True"
| "is_finished _ = False"

definition dispatch_ok :: "('b, 'f) stop_world \<Rightarrow> 'f stop_job \<Rightarrow> bool" where
  "dispatch_ok w j \<longleftrightarrow> (\<forall>path ex s why mail. j_pc j = P_Dispatch path ex s why mail \<longrightarrow>
     stop_uncertain (takes (sup w) ! j_take j) \<and> sends w (j_take j) = rejects w (j_take j) + (if s then 1 else 0))"

definition job_ok :: "('b, 'f) stop_world \<Rightarrow> 'f stop_job \<Rightarrow> bool" where
  "job_ok w j \<longleftrightarrow> j_take j < length (takes (sup w)) \<and> stop_running (takes (sup w) ! j_take j) \<and>
     stop_result (takes (sup w) ! j_take j) = None \<and>
     pc_ok (takes (sup w) ! j_take j) (current (sup w) = Some (j_take j)) (j_pc j) \<and> dispatch_ok w j"

definition take_ok :: "('b, 'f) stop_world \<Rightarrow> nat \<Rightarrow> bool" where
  "take_ok w k \<longleftrightarrow> (let t = takes (sup w) ! k in
     (current (sup w) = Some k \<or> stop_result t \<noteq> None \<or> (\<exists>j \<in> set (jobs w). j_take j = k \<and> is_finished (j_pc j))) \<and>
     Reserved (impact t) \<in> set (w_history w) \<and>
     (\<forall>r. (stop_result t = Some r \<or> last_stop t = Some r) \<and> confirms r \<longrightarrow> evidence t \<and> current (sup w) \<noteq> Some k))"

definition clean_send :: "TakeImpactTicket \<Rightarrow> impact_event list \<Rightarrow> bool" where
  "clean_send t h \<longleftrightarrow> Reserved t \<in> set h \<and> (\<forall>bs es. h = bs @ Reserved t # es \<longrightarrow> told es = Imp_Ready)"

definition balanced :: "('b, 'f) stop_world \<Rightarrow> nat \<Rightarrow> bool" where
  "balanced w k \<longleftrightarrow> sends w k = rejects w k \<or>
     sends w k = Suc (rejects w k) \<and> k < length (takes (sup w)) \<and> stop_uncertain (takes (sup w) ! k)"

definition stop_inv :: "nat \<Rightarrow> ('b, 'f) stop_world \<Rightarrow> bool" where
  "stop_inv a w \<longleftrightarrow> impact_inv (impact_part w) \<and> view_inner (sv_view (sup w)) = a \<and>
     (\<forall>st. starting (sup w) = Some st \<longrightarrow> Reserved (sr_impact st) \<in> set (w_history w)) \<and>
     (\<forall>k. current (sup w) = Some k \<longrightarrow> k < length (takes (sup w))) \<and> (creating w \<longrightarrow> current (sup w) = None) \<and>
     distinct (map j_take (jobs w)) \<and> (\<forall>j \<in> set (jobs w). job_ok w j) \<and> (\<forall>k < length (takes (sup w)). take_ok w k) \<and>
     (\<forall>k. balanced w k) \<and> (\<forall>(k, h) \<in> set (sent w). k < length (takes (sup w)) \<and> clean_send (impact (takes (sup w) ! k)) h) \<and>
     (\<forall>k \<in> set (callers w). k < length (takes (sup w)) \<and>
        (stop_running (takes (sup w) ! k) \<or> last_stop (takes (sup w) ! k) \<noteq> None))"

lemma reg_moves_inv:
  assumes "reg_step\<^sup>*\<^sup>* (registry iw) i" and "impact_inv iw"
  shows "impact_inv (iw\<lparr>registry := i\<rparr>)"
  using assms(1)
proof induction
  case base
  have "iw\<lparr>registry := registry iw\<rparr> = iw" by simp
  with assms(2) show ?case by simp
next
  case (step y z)
  then obtain up t s where "imp_alive (imp_state y) \<longrightarrow> up" "check_ticket up t y = (s, z)" by (auto simp: reg_step_def)
  then have "impact_step 0 (iw\<lparr>registry := y\<rparr>) (iw\<lparr>registry := y, registry := z\<rparr>)"
    by (intro impact_step.checks [of _ up t s]) simp_all
  with step.IH impact_step_inv show ?case by fastforce
qed

lemma pc_ok_mono:
  assumes "pc_ok t cur pc" and "con_stopped (continuity t) \<Longrightarrow> con_stopped (continuity t')" and "monitor_summary t' = monitor_summary t"
    and "cur' \<Longrightarrow> cur"
  shows "pc_ok t' cur' pc"
proof (cases pc)
  case (P_Wait wp entered)
  with assms show ?thesis by (cases wp) auto
qed (use assms in \<open>auto simp: mail_ok_def\<close>)

text \<open>A step of one job.\<close>

lemma job_step_inv:
  assumes inv: "stop_inv a w" and j: "jobs w = xs @ j # ys" "jobs w' = xs @ j\<lparr>j_pc := pc\<rparr> # ys"
    and frame: "frame (j_take j) (sup w) (sup w')"
    and cur: "current (sup w') = current (sup w) \<or> current (sup w) = Some (j_take j) \<and> current (sup w') = None \<and> is_finished pc"
    and fin: "\<not> is_finished (j_pc j)" and pc: "pc_ok (takes (sup w') ! j_take j) (current (sup w') = Some (j_take j)) pc"
    and rest: "w_attempts w' = w_attempts w" "w_history w' = w_history w" "creating w' = creating w" "callers w' = callers w"
    and sent: "sent w' = sent w @ new" "\<And>x. x \<in> set new \<Longrightarrow> fst x = j_take j \<and> clean_send (impact (takes (sup w) ! j_take j)) (snd x)"
    and rej: "\<And>i. i \<noteq> j_take j \<Longrightarrow> rejects w' i = rejects w i"
    and bal: "balanced w' (j_take j)" "dispatch_ok w' (j\<lparr>j_pc := pc\<rparr>)"
  shows "stop_inv a w'"
proof -
  let ?k = "j_take j" and ?s = "sup w" and ?s' = "sup w'"
  have len: "length (takes ?s') = length (takes ?s)" and other: "\<And>i. i \<noteq> ?k \<Longrightarrow> takes ?s' ! i = takes ?s ! i"
    and core: "same_core (takes ?s ! ?k) (takes ?s' ! ?k)" and k: "?k < length (takes ?s)"
    using frame by (simp_all add: frame_def)
  have imp: "impact (takes ?s' ! i) = impact (takes ?s ! i)" "stop_running (takes ?s' ! i) = stop_running (takes ?s ! i)"
    "stop_result (takes ?s' ! i) = stop_result (takes ?s ! i)" "last_stop (takes ?s' ! i) = last_stop (takes ?s ! i)" for i
    using core other by (cases "i = ?k"; simp add: same_core_def)+
  have ev: "evidence (takes ?s ! i) \<Longrightarrow> evidence (takes ?s' ! i)" for i
    using core other by (cases "i = ?k") (auto simp: same_core_def evidence_def)
  have distinct: "distinct (map j_take (xs @ j # ys))" and ok: "\<forall>i \<in> set (jobs w). job_ok w i"
    and tok: "\<And>i. i < length (takes ?s) \<Longrightarrow> take_ok w i" and balw: "\<And>i. balanced w i"
    using inv j by (simp_all add: stop_inv_def)
  have sends: "sends w' i = sends w i" if "i \<noteq> ?k" for i
  proof -
    have "?k = fst x" if "x \<in> set new" for x using sent(2) [OF that] by simp
    then have "i \<notin> set (map fst new)" using \<open>i \<noteq> ?k\<close> sent(2) by auto
    then show ?thesis by (simp add: sends_def sent(1) count_list_0_iff)
  qed
  have jok: "job_ok w' i" if "i \<in> set xs \<union> set ys" for i
  proof -
    have ne: "j_take i \<noteq> ?k" and i: "job_ok w i" using that distinct ok j(1) by (auto simp: image_iff)
    then show ?thesis
      using cur pc_ok_mono [of "takes ?s ! j_take i" "current ?s = Some (j_take i)" "j_pc i" "takes ?s' ! j_take i" "current ?s' = Some (j_take i)"]
      by (auto simp: job_ok_def dispatch_ok_def len other sends rej)
  qed
  have jk: "job_ok w' (j\<lparr>j_pc := pc\<rparr>)"
    using ok j(1) bal pc by (simp add: job_ok_def len imp)
  have "take_ok w' i" if "i < length (takes ?s')" for i
  proof -
    from that len tok have t: "take_ok w i" by simp
    have "(\<exists>x \<in> set (jobs w). j_take x = i \<and> is_finished (j_pc x)) \<Longrightarrow> (\<exists>x \<in> set (jobs w'). j_take x = i \<and> is_finished (j_pc x))"
      using fin j by auto
    with t cur j(2) show ?thesis by (auto simp: take_ok_def Let_def imp rest(2) dest: ev)
  qed
  moreover have "balanced w' i" for i
    using bal(1) balw [of i] by (cases "i = ?k") (simp_all add: balanced_def sends rej len other)
  moreover have "impact_inv (impact_part w')"
    using reg_moves_inv [of "impact_part w" "sv_registry ?s'"] frame inv rest
    by (simp add: frame_def stop_inv_def impact_part_def)
  moreover have "\<forall>x \<in> set (jobs w'). job_ok w' x" using jok jk j(2) by auto
  moreover have "\<forall>(i, h) \<in> set (sent w'). i < length (takes ?s') \<and> clean_send (impact (takes ?s' ! i)) h"
  proof -
    have "\<forall>(i, h) \<in> set (sent w). i < length (takes ?s) \<and> clean_send (impact (takes ?s ! i)) h"
      using inv by (simp add: stop_inv_def)
    moreover have "\<forall>(i, h) \<in> set new. i < length (takes ?s) \<and> clean_send (impact (takes ?s ! i)) h"
      using sent(2) k by fastforce
    ultimately show ?thesis by (auto simp: sent(1) len imp)
  qed
  moreover have "distinct (map j_take (jobs w'))" using distinct j(2) by simp
  moreover have "view_inner (sv_view ?s') = a" "starting ?s' = starting ?s"
    using inv frame by (simp_all add: stop_inv_def frame_def)
  ultimately show ?thesis
    using inv cur by (auto simp: stop_inv_def rest len imp)
qed

lemma inv_job:
  assumes "stop_inv a w" and "jobs w = xs @ j # ys"
  shows "job_ok w j" and "balanced w (j_take j)" and "j_take j < length (takes (sup w))"
proof -
  show "job_ok w j" "balanced w (j_take j)" using assms by (simp_all add: stop_inv_def)
  then show "j_take j < length (takes (sup w))" by (simp add: job_ok_def)
qed

lemma move_alive: "job_move F E io j sv pc sv' \<Longrightarrow> \<not> is_finished (j_pc j)"
  by (erule job_move.cases) auto

lemma moves_inv:
  assumes inv: "stop_inv a w" and j: "jobs w = xs @ j # ys" and up: "upgradable io (sup w)" and m: "job_move F E io j (sup w) pc sv"
  shows "stop_inv a (w\<lparr>sup := sv, jobs := xs @ j\<lparr>j_pc := pc\<rparr> # ys\<rparr>)"
proof -
  note i = inv_job [OF inv j]
  have st: "stepped (j_take j) (sup w) pc sv"
    by (rule job_move_stepped [OF m i(3) up, where cur = "current (sup w) = Some (j_take j)"]) (use i(1) in \<open>simp add: job_ok_def\<close>)
  then have f: "frame (j_take j) (sup w) sv" by (simp add: stepped_def)
  have fl: "is_finished pc" if "\<exists>r. pc = P_Finished r" using that by auto
  let ?w = "w\<lparr>sup := sv, jobs := xs @ j\<lparr>j_pc := pc\<rparr> # ys\<rparr>"
  have "balanced ?w (j_take j) \<and> dispatch_ok ?w (j\<lparr>j_pc := pc\<rparr>)"
  proof (cases "is_dispatch pc")
    case True
    then have "asked (j_take j) (sup w) pc sv" using st by (simp add: stepped_def)
    then show ?thesis using i(2) f by (auto simp: asked_def balanced_def dispatch_ok_def frame_def)
  next
    case False
    then show ?thesis using i(2) f st by (cases pc) (auto simp: stepped_def balanced_def dispatch_ok_def frame_def)
  qed
  then show ?thesis
    using st fl by (intro job_step_inv [OF inv j, where new = "[]" and pc = pc])
      (auto simp: stepped_def rejects_def move_alive [OF m])
qed

lemma waiting_dispatch:
  assumes "stop_inv a w" and "jobs w = xs @ j # ys" and "j_pc j = P_Dispatch path ex s why mail"
  shows "stop_uncertain (takes (sup w) ! j_take j)" and "sends w (j_take j) = rejects w (j_take j) + (if s then 1 else 0)"
    and "mail_ok (takes (sup w) ! j_take j) mail" and "\<not> is_finished (j_pc j)"
  using inv_job(1) [OF assms(1,2)] assms(3) by (simp_all add: job_ok_def dispatch_ok_def)

lemma guard_inv:
  assumes inv: "stop_inv a w" and j: "jobs w = xs @ j # ys" and up: "imp_alive (imp_state (sv_registry (sup w))) \<longrightarrow> up"
    and pc: "j_pc j = P_Dispatch path ex False None mail"
    and g: "guard E up cancelled now (Some (j_take j)) StopRecord (j_policy j) (sup w) = (out, sv)"
  shows "stop_inv a (w\<lparr>sup := sv, jobs := xs @ j\<lparr>j_pc := P_Dispatch path ex (out = None) out mail\<rparr> # ys,
    sent := sent w @ (if out = None then [(j_take j, w_history w)] else [])\<rparr>)" (is "stop_inv a ?w")
proof -
  note i = inv_job [OF inv j] and d = waiting_dispatch [OF inv j pc]
  let ?k = "j_take j"
  have q: "quiet_step ?k (sup w) sv" and ready: "out = None \<Longrightarrow> fst (check_ticket up (impact (takes (sup w) ! ?k)) (sv_registry (sup w))) = Imp_Ready"
    using guard_quiet [OF g i(3) up] by simp_all
  have core: "same_core (takes (sup w) ! ?k) (takes sv ! ?k)" and len: "length (takes sv) = length (takes (sup w))"
    using q by (simp_all add: quiet_step_def frame_def)
  have n: "sends ?w ?k = sends w ?k + (if out = None then 1 else 0)" "rejects ?w = rejects w"
    by (simp_all add: sends_def rejects_def fun_eq_iff)
  have clean: "clean_send (impact (takes (sup w) ! ?k)) (w_history w)" if "out = None"
    unfolding clean_send_def
  proof (intro conjI allI impI)
    show "Reserved (impact (takes (sup w) ! ?k)) \<in> set (w_history w)"
      using inv i(3) by (auto simp: stop_inv_def take_ok_def Let_def)
    fix bs es
    assume "w_history w = bs @ Reserved (impact (takes (sup w) ! ?k)) # es"
    then have "history (impact_part w) = bs @ Reserved (impact (takes (sup w) ! ?k)) # es"
      by (simp add: impact_part_def)
    moreover have "impact_inv (impact_part w)" using inv by (simp add: stop_inv_def)
    moreover have "registry (impact_part w) = sv_registry (sup w)" by (simp add: impact_part_def)
    ultimately show "told es = Imp_Ready"
      using ticket_read [of "impact_part w" bs _ es up] ready [OF that] by (simp split: if_splits)
  qed
  have "mail_ok (takes sv ! ?k) mail" using d(3) core by (auto simp: mail_ok_def same_core_def)
  moreover have "balanced ?w ?k" "dispatch_ok ?w (j\<lparr>j_pc := P_Dispatch path ex (out = None) out mail\<rparr>)"
    using d q i(3) len by (auto simp: balanced_def dispatch_ok_def n quiet_step_def)
  ultimately show ?thesis
    using q clean by (intro job_step_inv [OF inv j, where new = "if out = None then [(?k, w_history w)] else []"
        and pc = "P_Dispatch path ex (out = None) out mail"])
      (auto simp: quiet_step_def rejects_def d(4) split: if_splits)
qed

lemma replies_inv:
  assumes inv: "stop_inv a w" and j: "jobs w = xs @ j # ys" and up: "upgradable io (sup w)"
    and pc: "j_pc j = P_Dispatch path ex was_sent why mail" and tr: "transport_true was_sent reply"
    and r: "stop_reply E io (j_take j) path ex mail reply (sup w) = (pc', sv)"
  shows "stop_inv a (w\<lparr>sup := sv, jobs := xs @ j\<lparr>j_pc := pc'\<rparr> # ys,
    rejected := (if is_rejection reply then [j_take j] else []) @ rejected w\<rparr>)" (is "stop_inv a ?w")
proof -
  note i = inv_job [OF inv j] and d = waiting_dispatch [OF inv j pc]
  let ?k = "j_take j"
  have s: "settled ?k (sup w) reply pc' sv" by (rule reply_settled [OF r i(3) up d(3)])
  then have f: "frame ?k (sup w) sv" by (simp add: settled_def)
  have n: "sends ?w = sends w" "rejects ?w ?k = rejects w ?k + (if is_rejection reply then 1 else 0)"
    "\<And>i. i \<noteq> ?k \<Longrightarrow> rejects ?w i = rejects w i"
    by (auto simp: sends_def rejects_def fun_eq_iff)
  have "\<not> was_sent" if "is_unsent reply" using tr that by (auto simp: transport_true_def is_unsent_def)
  moreover have "was_sent" if "is_rejection reply"
    using tr that by (auto simp: transport_true_def is_rejection_def split: sum.splits DispatchError.splits)
  ultimately have "balanced ?w ?k"
    using d(1,2) s i(3) f by (auto simp: balanced_def n settled_def frame_def split: if_splits)
  moreover have "dispatch_ok ?w (j\<lparr>j_pc := pc'\<rparr>)"
    using s by (auto simp: dispatch_ok_def settled_def)
  ultimately show ?thesis
    using s n(3) by (intro job_step_inv [OF inv j, where new = "[]" and pc = pc']) (auto simp: settled_def d(4))
qed

text \<open>A step of the surroundings: events, other clients, samples. It may change any Take, but not what
  the stop of it rests on.\<close>

definition env_core :: "'f Take \<Rightarrow> 'f Take \<Rightarrow> bool" where
  "env_core t t' \<longleftrightarrow> impact t' = impact t \<and> stop_running t' = stop_running t \<and> stop_result t' = stop_result t \<and>
     last_stop t' = last_stop t \<and> stop_uncertain t' = stop_uncertain t \<and> monitor_summary t' = monitor_summary t \<and>
     (con_stopped (continuity t) \<longrightarrow> con_stopped (continuity t'))"

definition env_step :: "('b, 'f) supervisor \<Rightarrow> ('b, 'f) supervisor \<Rightarrow> bool" where
  "env_step sv sv' \<longleftrightarrow> length (takes sv') = length (takes sv) \<and> (\<forall>k < length (takes sv). env_core (takes sv ! k) (takes sv' ! k)) \<and>
     current sv' = current sv \<and> sv_view sv' = sv_view sv"

lemma env_core_refl [simp]: "env_core t t"
  by (simp add: env_core_def)

lemma env_refl [simp]: "env_step sv sv"
  by (simp add: env_step_def)

lemma env_nth: "env_step sv sv' \<Longrightarrow> k < length (takes sv) \<Longrightarrow> env_core (takes sv ! k) (takes sv' ! k)"
  by (simp add: env_step_def)

lemma env_trans [trans]:
  assumes "env_step a b" and "env_step b c"
  shows "env_step a c"
proof -
  have "env_core (takes a ! k) (takes c ! k)" if "k < length (takes a)" for k
    using assms that by (auto simp: env_step_def env_core_def)
  then show ?thesis using assms by (auto simp: env_step_def)
qed

lemma with_take_env: "(\<And>t. env_core t (f t)) \<Longrightarrow> env_step sv (with_take k f sv)"
  by (cases "k < length (takes sv)") (auto simp: env_step_def with_take_def nth_list_update)

text \<open>What delivering an event may do to a job.\<close>

definition job_kept :: "('b, 'f) supervisor \<Rightarrow> 'f stop_job \<Rightarrow> 'f stop_job \<Rightarrow> bool" where
  "job_kept sv j j' \<longleftrightarrow> j_take j' = j_take j \<and> is_finished (j_pc j') = is_finished (j_pc j) \<and>
     (\<forall>path ex s why mail. j_pc j' = P_Dispatch path ex s why mail \<longrightarrow> (\<exists>m. j_pc j = P_Dispatch path ex s why m)) \<and>
     (\<forall>cur. pc_ok (takes sv ! j_take j) cur (j_pc j) \<longrightarrow> pc_ok (takes sv ! j_take j) cur (j_pc j'))"

lemma job_kept_refl [simp]: "job_kept sv j j"
  by (simp add: job_kept_def)

lemma env_inv:
  assumes inv: "stop_inv a w" and env: "env_step (sup w) (sup w')" and imp: "impact_inv (impact_part w')"
    and hist: "set (w_history w) \<subseteq> set (w_history w')" and create: "creating w' \<Longrightarrow> creating w \<or> current (sup w) = None"
    and start: "\<And>st. starting (sup w') = Some st \<Longrightarrow> Reserved (sr_impact st) \<in> set (w_history w')"
    and jobs: "jobs w' = map f (jobs w)" "\<And>j. j \<in> set (jobs w) \<Longrightarrow> job_kept (sup w') j (f j)"
    and rest: "sent w' = sent w" "rejected w' = rejected w" "callers w' = callers w"
  shows "stop_inv a w'"
proof -
  let ?s = "sup w" and ?s' = "sup w'"
  have len: "length (takes ?s') = length (takes ?s)" and cur: "current ?s' = current ?s" and view: "sv_view ?s' = sv_view ?s"
    and core: "\<And>k. k < length (takes ?s) \<Longrightarrow> env_core (takes ?s ! k) (takes ?s' ! k)"
    using env by (simp_all add: env_step_def)
  have n: "sends w' = sends w" "rejects w' = rejects w" by (simp_all add: sends_def rejects_def fun_eq_iff rest)
  have "job_ok w' (f j)" if "j \<in> set (jobs w)" for j
  proof -
    have j: "job_ok w j" using inv that by (simp add: stop_inv_def)
    then have k: "j_take j < length (takes ?s)" by (simp add: job_ok_def)
    have "pc_ok (takes ?s' ! j_take j) (current ?s = Some (j_take j)) (j_pc j)"
      using j core [OF k] by (intro pc_ok_mono [of "takes ?s ! j_take j" "current ?s = Some (j_take j)" "j_pc j" "takes ?s' ! j_take j"])
        (simp_all add: job_ok_def env_core_def)
    moreover have kept: "job_kept ?s' j (f j)" by (rule jobs(2) [OF that])
    ultimately have pc: "pc_ok (takes ?s' ! j_take j) (current ?s = Some (j_take j)) (j_pc (f j))" "j_take (f j) = j_take j"
      by (simp_all add: job_kept_def)
    have "dispatch_ok w' (f j)" unfolding dispatch_ok_def
    proof (intro allI impI)
      fix path ex s why mail
      assume "j_pc (f j) = P_Dispatch path ex s why mail"
      then obtain m where "j_pc j = P_Dispatch path ex s why m" using kept by (auto simp: job_kept_def)
      then show "stop_uncertain (takes ?s' ! j_take (f j)) \<and>
          sends w' (j_take (f j)) = rejects w' (j_take (f j)) + (if s then 1 else 0)"
        using j core [OF k] pc(2) n by (simp add: job_ok_def dispatch_ok_def env_core_def)
    qed
    then show ?thesis
      using pc j core [OF k] by (simp add: job_ok_def env_core_def len cur)
  qed
  then have "\<forall>j \<in> set (jobs w'). job_ok w' j" by (simp add: jobs(1))
  moreover have "map j_take (jobs w') = map j_take (jobs w)" using jobs by (simp add: job_kept_def)
  moreover have "take_ok w' k" if "k < length (takes ?s')" for k
  proof -
    have "take_ok w k" using inv that by (simp add: stop_inv_def len)
    moreover have "(\<exists>j \<in> set (jobs w). j_take j = k \<and> is_finished (j_pc j)) \<Longrightarrow> (\<exists>j \<in> set (jobs w'). j_take j = k \<and> is_finished (j_pc j))"
      using jobs by (auto simp: job_kept_def)
    ultimately show ?thesis
      using core [of k] that hist by (auto simp: take_ok_def Let_def env_core_def evidence_def cur len)
  qed
  moreover have "balanced w' k" for k
    using inv core [of k] by (auto simp: stop_inv_def balanced_def n len env_core_def)
  moreover have "\<forall>(k, h) \<in> set (sent w'). k < length (takes ?s') \<and> clean_send (impact (takes ?s' ! k)) h"
    using inv core by (auto simp: stop_inv_def rest len env_core_def)
  moreover have "\<forall>k \<in> set (callers w'). k < length (takes ?s') \<and> (stop_running (takes ?s' ! k) \<or> last_stop (takes ?s' ! k) \<noteq> None)"
    using inv core by (auto simp: stop_inv_def rest len env_core_def)
  moreover have "creating w' \<longrightarrow> current ?s' = None" using inv create by (auto simp: stop_inv_def cur)
  ultimately show ?thesis
    using inv imp start by (simp add: stop_inv_def len cur view)
qed

lemma inv_start: "stop_inv a w \<Longrightarrow> starting (sup w) = Some st \<Longrightarrow> Reserved (sr_impact st) \<in> set (w_history w)"
  by (simp add: stop_inv_def)

lemma inv_impact: "stop_inv a w \<Longrightarrow> impact_inv (impact_part w)"
  by (simp add: stop_inv_def)

text \<open>Steps that leave the jobs alone.\<close>

lemma apart_inv:
  assumes "stop_inv a w" and "env_step (sup w) (sup w')" and "impact_inv (impact_part w')"
    and "set (w_history w) \<subseteq> set (w_history w')" and "creating w' \<Longrightarrow> creating w \<or> current (sup w) = None"
    and "\<And>st. starting (sup w') = Some st \<Longrightarrow> Reserved (sr_impact st) \<in> set (w_history w')"
    and "jobs w' = jobs w" "sent w' = sent w" "rejected w' = rejected w" "callers w' = callers w"
  shows "stop_inv a w'"
  by (rule env_inv [OF assms(1-6), where f = "\<lambda>j. j"]) (simp_all add: assms(7-10))

lemma impact_moves_inv:
  assumes inv: "stop_inv a w" and st: "impact_step a (impact_part w) iw"
  shows "stop_inv a (w\<lparr>sup := (sup w)\<lparr>sv_registry := registry iw\<rparr>, w_attempts := attempts iw, w_history := history iw\<rparr>)"
proof -
  let ?w = "w\<lparr>sup := (sup w)\<lparr>sv_registry := registry iw\<rparr>, w_attempts := attempts iw, w_history := history iw\<rparr>"
  have part: "impact_part ?w = iw" by (simp add: impact_part_def)
  have iinv: "impact_inv iw" by (rule impact_step_inv [OF st inv_impact [OF inv]])
  obtain es where "history iw = w_history w @ es"
    using impact_step_grows [OF st inv_impact [OF inv]] by (auto simp: impact_part_def)
  then show ?thesis
    using inv iinv part inv_start [OF inv] by (intro apart_inv [OF inv]) (simp_all add: env_step_def)
qed

lemma checked_inv:
  assumes "stop_inv a w" and "reg_step\<^sup>*\<^sup>* (sv_registry (sup w)) i"
  shows "impact_inv (impact_part (w\<lparr>sup := sv\<lparr>sv_registry := i\<rparr>\<rparr>))"
  using reg_moves_inv [of "impact_part w" i] inv_impact [OF assms(1)] assms(2) by (simp add: impact_part_def)

lemma start_impact_env:
  assumes "imp_alive (imp_state (sv_registry sv)) \<longrightarrow> up" and "starting sv = Some st"
  shows "env_step sv (snd (start_impact up st sv)) \<and> reg_step\<^sup>*\<^sup>* (sv_registry sv) (sv_registry (snd (start_impact up st sv))) \<and>
    map_option sr_impact (starting (snd (start_impact up st sv))) = map_option sr_impact (starting sv)"
proof -
  obtain s j where c: "check_ticket up (sr_impact st) (sv_registry sv) = (s, j)" by fastforce
  then have "reg_step (sv_registry sv) j" using assms(1) by (auto simp: reg_step_def)
  with c assms(2) show ?thesis by (auto simp: start_impact_def apply_impact_def env_step_def)
qed

lemma take_impact_env:
  assumes "imp_alive (imp_state (sv_registry sv)) \<longrightarrow> up" and "take_impact up k sv = (s, sv')"
  shows "env_step sv sv' \<and> reg_step\<^sup>*\<^sup>* (sv_registry sv) (sv_registry sv') \<and> starting sv' = starting sv"
proof -
  obtain status j where c: "check_ticket up (impact (takes sv ! k)) (sv_registry sv) = (status, j)" by fastforce
  let ?f = "\<lambda>t. t\<lparr>continuity := note_revocation status (continuity (takes sv ! k))\<rparr>"
  have sv': "sv' = with_take k ?f (sv\<lparr>sv_registry := j\<rparr>)" using assms(2) c by (auto simp: take_impact_def apply_impact_def)
  have "reg_step (sv_registry sv) j" using assms(1) c by (auto simp: reg_step_def)
  moreover have "env_step sv sv'"
    using sv' by (cases "k < length (takes sv)") (auto simp: env_step_def env_core_def with_take_def nth_list_update)
  ultimately show ?thesis using sv' by auto
qed

lemma refresh_take_env:
  assumes "imp_alive (imp_state (sv_registry sv)) \<longrightarrow> up"
  shows "env_step sv (refresh_take up act k sv) \<and> reg_step\<^sup>*\<^sup>* (sv_registry sv) (sv_registry (refresh_take up act k sv)) \<and>
    starting (refresh_take up act k sv) = starting sv"
proof -
  obtain s sv1 where i: "take_impact up k sv = (s, sv1)" by fastforce
  note e = take_impact_env [OF assms i]
  have "env_step sv1 (refresh_take up act k sv)"
    using i by (auto simp: refresh_take_def env_core_def intro!: with_take_env split: ImpactStatus.split)
  then have "env_step sv (refresh_take up act k sv)" by (rule env_trans [OF conjunct1 [OF e]])
  with e i show ?thesis by (simp add: refresh_take_def)
qed

lemma refresh_env:
  assumes "imp_alive (imp_state (sv_registry sv)) \<longrightarrow> up"
  shows "env_step sv (refresh_impacts up act sv) \<and> reg_step\<^sup>*\<^sup>* (sv_registry sv) (sv_registry (refresh_impacts up act sv)) \<and>
    map_option sr_impact (starting (refresh_impacts up act sv)) = map_option sr_impact (starting sv)"
proof -
  let ?s = "case starting sv of None \<Rightarrow> sv | Some st \<Rightarrow> snd (start_impact up st sv)"
  have e: "env_step sv ?s" "reg_step\<^sup>*\<^sup>* (sv_registry sv) (sv_registry ?s)"
    "map_option sr_impact (starting ?s) = map_option sr_impact (starting sv)"
    using start_impact_env [OF assms] by (simp_all split: option.split)
  have up: "imp_alive (imp_state (sv_registry ?s)) \<longrightarrow> up" using reg_moves_alive [OF e(2)] assms by simp
  show ?thesis
  proof (cases "current ?s")
    case None
    with e show ?thesis by (simp add: refresh_impacts_def Let_def)
  next
    case (Some k)
    note r = refresh_take_env [OF up, of act k]
    from Some have "refresh_impacts up act sv = refresh_take up act k ?s" by (simp add: refresh_impacts_def Let_def)
    then show ?thesis using r e env_trans [OF e(1)] rtranclp_trans [OF e(2)] by simp
  qed
qed

lemma refreshes_inv:
  assumes inv: "stop_inv a w" and up: "imp_alive (imp_state (sv_registry (sup w))) \<longrightarrow> up"
  shows "stop_inv a (w\<lparr>sup := refresh_impacts up act (sup w)\<rparr>)"
proof -
  note r = refresh_env [OF up, of act]
  have "impact_inv (impact_part (w\<lparr>sup := refresh_impacts up act (sup w)\<rparr>))"
    using checked_inv [OF inv, of "sv_registry (refresh_impacts up act (sup w))"] r by (simp add: impact_part_def)
  moreover have "Reserved (sr_impact st) \<in> set (w_history w)" if "starting (refresh_impacts up act (sup w)) = Some st" for st
    using r that inv_start [OF inv] by (cases "starting (sup w)") auto
  ultimately show ?thesis using r by (intro apart_inv [OF inv]) simp_all
qed

text \<open>A start takes a ticket: one that was admitted, or a fresh one.\<close>

definition fresh_ticket :: "'x option \<Rightarrow> (string, TakeImpactTicket \<times> nat option) result \<Rightarrow> impact_event list" where
  "fresh_ticket admitted out = (case (admitted, out) of (None, Ok (t, _)) \<Rightarrow> [Reserved t] | _ \<Rightarrow> [])"

lemma start_ticket_inv:
  assumes inv: "stop_inv a w" and up: "imp_alive (imp_state (sv_registry (sup w))) \<longrightarrow> up"
    and t: "start_ticket up admitted (sup w) = (out, sv)"
  shows "\<exists>i. sv = (sup w)\<lparr>sv_registry := i\<rparr> \<and>
    impact_inv ((impact_part w)\<lparr>registry := i, history := w_history w @ fresh_ticket admitted out\<rparr>)"
proof (cases admitted)
  case None
  obtain o1 i where r: "reserve_take up (sv_view (sup w)) (registry (impact_part w)) = (o1, i)" by fastforce
  have up': "imp_alive (imp_state (registry (impact_part w))) \<longrightarrow> up" using up by (simp add: impact_part_def)
  have hist: "history (impact_part w) = w_history w" by (simp add: impact_part_def)
  have view: "view_inner (sv_view (sup w)) = a" using inv by (simp add: stop_inv_def)
  show ?thesis
  proof (cases o1)
    case (Inl e)
    have "impact_inv ((impact_part w)\<lparr>registry := i\<rparr>)"
      by (rule impact_step_inv [OF impact_step.reserve_fails inv_impact [OF inv]]) (use up' r Inl in auto)
    moreover have "(impact_part w)\<lparr>registry := i, history := w_history w\<rparr> = (impact_part w)\<lparr>registry := i\<rparr>" by (simp add: impact_part_def)
    ultimately show ?thesis using t None r Inl by (auto simp: start_ticket_def impact_part_def fresh_ticket_def)
  next
    case (Inr tk)
    have "impact_inv ((impact_part w)\<lparr>registry := i, history := history (impact_part w) @ [Reserved tk]\<rparr>)"
      by (rule impact_step_inv [OF impact_step.reserves inv_impact [OF inv]]) (use up' r Inr view in auto)
    with t None r Inr show ?thesis by (auto simp: start_ticket_def impact_part_def fresh_ticket_def)
  qed
next
  case (Some x)
  obtain tk d where x: "x = (tk, d)" by fastforce
  have same: "(impact_part w)\<lparr>registry := i, history := w_history w\<rparr> = (impact_part w)\<lparr>registry := i\<rparr>" for i
    by (simp add: impact_part_def)
  obtain s i where c: "check_ticket up tk (sv_registry (sup w)) = (s, i)" by fastforce
  then have "reg_step (registry (impact_part w)) i" using up by (auto simp: reg_step_def impact_part_def)
  then have "reg_step\<^sup>*\<^sup>* (registry (impact_part w)) i" by (rule r_into_rtranclp)
  then have "impact_inv ((impact_part w)\<lparr>registry := i\<rparr>)" by (rule reg_moves_inv [OF _ inv_impact [OF inv]])
  moreover have "impact_inv ((impact_part w)\<lparr>registry := sv_registry (sup w)\<rparr>)"
    using inv_impact [OF inv] by (simp add: impact_part_def)
  moreover have "sup w = (sup w)\<lparr>sv_registry := sv_registry (sup w)\<rparr>" by simp
  ultimately show ?thesis
    using t Some x c by (cases "owns_ticket (sv_view (sup w)) tk")
      (auto simp: start_ticket_def fresh_ticket_def same simp del: supervisor.ext_inject intro: exI [of _ "sv_registry (sup w)"])
qed

lemma refuses_start_inv:
  assumes inv: "stop_inv a w" and up: "imp_alive (imp_state (sv_registry (sup w))) \<longrightarrow> up"
    and r: "reserve_start F up opts admitted (sup w) = (Some refusal, sv)"
  shows "stop_inv a (w\<lparr>sup := sv\<rparr>)"
proof -
  obtain out sv1 where t: "start_ticket up admitted (sup w) = (out, sv1)" by fastforce
  consider "sv = sup w" | e where "out = Err e" "sv = sv1"
    using r t by (auto simp: reserve_start_def split: option.splits if_splits sum.splits prod.splits)
  then show ?thesis
  proof cases
    case 1
    then show ?thesis using inv by simp
  next
    case 2
    obtain i where i: "sv1 = (sup w)\<lparr>sv_registry := i\<rparr>" "impact_inv ((impact_part w)\<lparr>registry := i, history := w_history w\<rparr>)"
      using start_ticket_inv [OF inv up t] 2 by (auto simp: fresh_ticket_def split: option.splits)
    then have "impact_inv (impact_part (w\<lparr>sup := sv\<rparr>))" using 2 by (simp add: impact_part_def)
    then show ?thesis using i 2 inv_start [OF inv] by (intro apart_inv [OF inv]) (simp_all add: env_step_def)
  qed
qed

lemma reserves_start_inv:
  assumes inv: "stop_inv a w" and up: "imp_alive (imp_state (sv_registry (sup w))) \<longrightarrow> up"
    and ad: "admission_known admitted (w_history w)" and r: "reserve_start F up opts admitted (sup w) = (None, sv)"
  shows "stop_inv a (w\<lparr>sup := sv, w_history := w_history w @ new_reservation admitted sv, creating := True\<rparr>)"
proof -
  obtain tk d sv1 st where t: "start_ticket up admitted (sup w) = (Ok (tk, d), sv1)" "current (sup w) = None"
    and sv: "sv = sv1\<lparr>completed := None, starting := Some st\<rparr>" "sr_impact st = tk"
    using r by (auto simp: reserve_start_def split: option.splits if_splits sum.splits prod.splits)
  obtain i where i: "sv1 = (sup w)\<lparr>sv_registry := i\<rparr>"
      "impact_inv ((impact_part w)\<lparr>registry := i, history := w_history w @ fresh_ticket admitted (Ok (tk, d))\<rparr>)"
    using start_ticket_inv [OF inv up t(1)] by blast
  have new: "new_reservation admitted sv = fresh_ticket admitted (Ok (tk, d))"
    using sv by (simp add: new_reservation_def fresh_ticket_def split: option.splits)
  have "Reserved tk \<in> set (w_history w @ new_reservation admitted sv)"
  proof (cases admitted)
    case (Some x)
    then have "fst x = tk" using t(1) by (auto simp: start_ticket_def split: if_splits prod.splits ImpactStatus.splits)
    with ad Some show ?thesis by (auto simp: admission_known_def)
  next
    case None
    then show ?thesis unfolding new by (simp add: fresh_ticket_def)
  qed
  moreover have "impact_inv (impact_part (w\<lparr>sup := sv, w_history := w_history w @ new_reservation admitted sv, creating := True\<rparr>))"
    using i sv new by (simp add: impact_part_def)
  ultimately show ?thesis
    using i(1) sv t(2) by (intro apart_inv [OF inv]) (auto simp: env_step_def)
qed

text \<open>Events.\<close>

lemma observe_stopped:
  "con_stopped c \<Longrightarrow> con_stopped (observe_continuity token connection name data c)"
  "output_state data = Some ''OBS_WEBSOCKET_OUTPUT_STOPPED'' \<Longrightarrow>
     con_stopped (observe_continuity token token ''RecordStateChanged'' data c)"
  by (simp_all add: observe_continuity_def Let_def split: option.split)

lemma update_env: "take_update E io r u sv = (out, sv') \<Longrightarrow> env_step sv sv'"
  by (auto simp: take_update_def env_step_def split: prod.splits)

lemma start_operation_env: "env_step sv (with_take k (\<lambda>t. t\<lparr>start_operation := x\<rparr>) sv)"
  by (rule with_take_env) (simp add: env_core_def)

lemma observe_take_env: "env_step sv (observe_take F E io now connection name data k sv)"
proof (cases "name = ''disconnected'' \<or> connection \<noteq> sv_token sv")
  case True
  let ?s = "with_take k (\<lambda>t. t\<lparr>t_monitor := on_disconnect F now (t_monitor t)\<rparr>) sv"
  have e: "env_step sv ?s" by (rule with_take_env) (simp add: env_core_def)
  show ?thesis
  proof (cases "start_operation (takes ?s ! k)")
    case None
    with True e show ?thesis by (simp add: observe_take_def Let_def)
  next
    case (Some r)
    obtain out s2 where u: "take_update E io r (new_update Unknown) ?s = (out, s2)" by fastforce
    have e2: "env_step sv s2" by (rule env_trans [OF e update_env [OF u]])
    show ?thesis
      using True Some u e2 env_trans [OF e2 start_operation_env] by (cases out) (simp_all add: observe_take_def Let_def)
  qed
qed (auto simp: observe_take_def env_core_def intro!: with_take_env)

lemma observe_take_simps [simp]:
  "starting (observe_take F E io now connection name data k sv) = starting sv"
  "sv_registry (observe_take F E io now connection name data k sv) = sv_registry sv"
  by (auto simp: observe_take_def take_update_def Let_def split: option.split sum.split prod.split)

lemma observe_env:
  shows "env_step sv (observe F E io now e sv)"
    and "map_option sr_impact (starting (observe F E io now e sv)) = map_option sr_impact (starting sv)"
    and "sv_registry (observe F E io now e sv) = sv_registry sv"
proof -
  have "env_step sv (with_take k (\<lambda>t. t\<lparr>continuity := observe_continuity (sv_token sv) c name data (continuity t)\<rparr>) sv)" for k c name data
    by (rule with_take_env) (simp add: env_core_def observe_stopped)
  from env_trans [OF this observe_take_env] show "env_step sv (observe F E io now e sv)"
    by (auto simp: observe_def env_step_def split: option.split)
  show "map_option sr_impact (starting (observe F E io now e sv)) = map_option sr_impact (starting sv)"
    by (auto simp: observe_def option.map_comp comp_def split: option.split)
  show "sv_registry (observe F E io now e sv) = sv_registry sv"
    by (auto simp: observe_def split: option.split)
qed

text \<open>The stopped event a job hears was also seen by its Take, if the Take is current.\<close>

lemma heard_stopped:
  assumes "broadcast sv e = Some (''RecordStateChanged'', data)" and "current sv = Some k" and "k < length (takes sv)"
    and "output_state data = Some ''OBS_WEBSOCKET_OUTPUT_STOPPED''"
  shows "con_stopped (continuity (takes (observe F E io now e sv) ! k))"
proof -
  obtain c where parts: "event_parts e = Some (sv_token sv, ''RecordStateChanged'', data)"
    using assms(1) by (auto simp: broadcast_def split: option.splits if_splits)
  let ?s = "with_take k (\<lambda>t. t\<lparr>continuity := observe_continuity (sv_token sv) (sv_token sv) ''RecordStateChanged'' data (continuity t)\<rparr>) sv"
  let ?o = "observe_take F E io now (sv_token sv) ''RecordStateChanged'' data k ?s"
  have "con_stopped (continuity (takes ?s ! k))" using assms(3,4) observe_stopped(2) by simp
  moreover have "env_core (takes ?s ! k) (takes ?o ! k)"
    by (rule env_nth [OF observe_take_env]) (simp add: assms(3))
  ultimately show ?thesis using parts assms(2) by (simp add: observe_def env_core_def)
qed

lemma inv_current:
  assumes "stop_inv a w" and "j \<in> set (jobs w)" and "\<not> is_finished (j_pc j)"
  shows "current (sup w) = Some (j_take j)"
proof -
  have j: "job_ok w j" and d: "distinct (map j_take (jobs w))" using assms by (simp_all add: stop_inv_def)
  have "take_ok w (j_take j)" using assms(1) j by (simp add: stop_inv_def job_ok_def)
  moreover have "x = j" if "x \<in> set (jobs w)" "j_take x = j_take j" for x
    using d that assms(2) by (auto simp: distinct_map inj_on_def)
  ultimately show ?thesis using assms(3) j by (auto simp: take_ok_def Let_def job_ok_def)
qed

lemma deliver_kept:
  assumes inv: "stop_inv a w" and j: "j \<in> set (jobs w)"
  shows "job_kept (observe F E io now e (sup w)) j (deliver (broadcast (sup w) e) j)"
proof (cases "\<exists>data. broadcast (sup w) e = Some (''RecordStateChanged'', data) \<and> \<not> is_finished (j_pc j)")
  case True
  then obtain data where b: "broadcast (sup w) e = Some (''RecordStateChanged'', data)" and nf: "\<not> is_finished (j_pc j)" by blast
  have cur: "current (sup w) = Some (j_take j)" by (rule inv_current [OF inv j nf])
  have k: "j_take j < length (takes (sup w))" using inv cur by (simp add: stop_inv_def)
  note h = heard_stopped [OF b cur k]
  show ?thesis
    using h nf by (cases "j_pc j") (auto simp: deliver_def b job_kept_def mail_ok_def)
next
  case False
  then have "deliver (broadcast (sup w) e) j = j"
    by (cases "j_pc j") (auto simp: deliver_def split: option.splits)
  then show ?thesis by simp
qed

lemma observes_inv:
  assumes inv: "stop_inv a w"
  shows "stop_inv a (w\<lparr>sup := observe F E io now e (sup w), jobs := map (deliver (broadcast (sup w) e)) (jobs w)\<rparr>)"
proof -
  let ?s = "observe F E io now e (sup w)"
  have "Reserved (sr_impact st) \<in> set (w_history w)" if "starting ?s = Some st" for st
    using observe_env(2) [of F E io now e "sup w"] that inv_start [OF inv] by (cases "starting (sup w)") auto
  moreover have "impact_inv (impact_part (w\<lparr>sup := ?s, jobs := map (deliver (broadcast (sup w) e)) (jobs w)\<rparr>))"
    using inv_impact [OF inv] by (simp add: impact_part_def observe_env(3))
  ultimately show ?thesis
    using observe_env(1) [of "sup w" F E io now e] deliver_kept [OF inv]
    by (intro env_inv [OF inv, where f = "deliver (broadcast (sup w) e)"]) simp_all
qed

text \<open>A new Take, a new attempt, the end of an attempt.\<close>

lemma takes_set_current [simp]:
  "takes (set_current t sv) = takes sv @ [t]" "current (set_current t sv) = Some (length (takes sv))"
  "sv_view (set_current t sv) = sv_view sv" "sv_registry (set_current t sv) = sv_registry sv"
  "starting (set_current t sv) = starting sv"
  by (simp_all add: set_current_def)

lemma creates_inv:
  assumes inv: "stop_inv a w" and c: "creating w" and t: "Reserved (impact t) \<in> set (w_history w)"
    "\<not> stop_uncertain t" "stop_result t = None" "last_stop t = None"
  shows "stop_inv a (w\<lparr>sup := set_current t (sup w), creating := False\<rparr>)" (is "stop_inv a ?w")
proof -
  let ?n = "length (takes (sup w))"
  have cur: "current (sup w) = None" using inv c by (simp add: stop_inv_def)
  have n: "sends ?w = sends w" "rejects ?w = rejects w" by (simp_all add: sends_def rejects_def fun_eq_iff)
  have "job_ok ?w j" if "j \<in> set (jobs w)" for j
  proof -
    have "job_ok w j" using inv that by (simp add: stop_inv_def)
    then show ?thesis using cur by (auto simp: job_ok_def dispatch_ok_def n nth_append)
  qed
  moreover have "take_ok ?w k" if "k < Suc ?n" for k
  proof (cases "k = ?n")
    case True
    with t show ?thesis by (simp add: take_ok_def nth_append)
  next
    case False
    then have "k < ?n" using that by simp
    moreover from this have "take_ok w k" using inv by (simp add: stop_inv_def)
    ultimately show ?thesis using cur by (auto simp: take_ok_def Let_def nth_append)
  qed
  moreover have "balanced ?w k" for k
  proof -
    have "balanced w k" using inv by (simp add: stop_inv_def)
    then show ?thesis by (auto simp: balanced_def n nth_append)
  qed
  moreover have "impact_inv (impact_part ?w)" using inv_impact [OF inv] by (simp add: impact_part_def)
  moreover have "\<forall>(k, h) \<in> set (sent w). k < Suc ?n \<and> clean_send (impact ((takes (sup w) @ [t]) ! k)) h"
    using inv by (fastforce simp: stop_inv_def nth_append)
  moreover have "\<forall>k \<in> set (callers w). k < Suc ?n \<and>
      (stop_running ((takes (sup w) @ [t]) ! k) \<or> last_stop ((takes (sup w) @ [t]) ! k) \<noteq> None)"
    using inv by (auto simp: stop_inv_def nth_append)
  ultimately show ?thesis using inv by (simp add: stop_inv_def)
qed

text \<open>Changing the one Take whose attempt begins or ends.\<close>

lemma take_change_inv:
  assumes inv: "stop_inv a w" and k: "k < length (takes (sup w))"
    and sv: "takes (sup w') = (takes (sup w))[k := t]" "current (sup w') = current (sup w)" "sv_view (sup w') = sv_view (sup w)"
      "sv_registry (sup w') = sv_registry (sup w)" "starting (sup w') = starting (sup w)"
    and rest: "w_attempts w' = w_attempts w" "w_history w' = w_history w" "creating w' = creating w" "sent w' = sent w" "rejected w' = rejected w"
    and callers: "callers w' = callers w"
    and t: "impact t = impact (takes (sup w) ! k)" "stop_uncertain t = stop_uncertain (takes (sup w) ! k)"
      "stop_running t \<or> last_stop t \<noteq> None"
    and jobs: "distinct (map j_take (jobs w'))" "\<And>j. j \<in> set (jobs w') \<Longrightarrow> if j_take j = k then job_ok w' j else j \<in> set (jobs w)"
      "\<And>j. j \<in> set (jobs w) \<Longrightarrow> j_take j \<noteq> k \<Longrightarrow> j \<in> set (jobs w')"
    and tk: "take_ok w' k"
  shows "stop_inv a w'"
proof -
  let ?s = "sup w" and ?s' = "sup w'"
  have n: "sends w' = sends w" "rejects w' = rejects w" by (simp_all add: sends_def rejects_def fun_eq_iff rest)
  have len: "length (takes ?s') = length (takes ?s)" and other: "\<And>i. i \<noteq> k \<Longrightarrow> takes ?s' ! i = takes ?s ! i" and here: "takes ?s' ! k = t"
    using k by (simp_all add: sv)
  have same: "impact (takes ?s' ! i) = impact (takes ?s ! i)" "stop_uncertain (takes ?s' ! i) = stop_uncertain (takes ?s ! i)" for i
    using other here t by (cases "i = k"; simp)+
  have "job_ok w' j" if "j \<in> set (jobs w')" for j
  proof (cases "j_take j = k")
    case False
    then have "job_ok w j" using jobs(2) [OF that] inv by (simp add: stop_inv_def)
    then show ?thesis using False by (simp add: job_ok_def dispatch_ok_def n len other sv)
  qed (use jobs(2) [OF that] in simp)
  moreover have "take_ok w' i" if "i < length (takes ?s)" for i
  proof (cases "i = k")
    case False
    have "take_ok w i" using inv that by (simp add: stop_inv_def)
    with False show ?thesis using jobs(3) by (auto simp: take_ok_def Let_def other sv(2) rest)
  qed (use tk in simp)
  moreover have "balanced w' i" for i
    using inv by (simp add: stop_inv_def balanced_def n len same)
  moreover have "impact_inv (impact_part w')" using inv_impact [OF inv] by (simp add: impact_part_def sv rest)
  moreover have "stop_running (takes ?s' ! i) \<or> last_stop (takes ?s' ! i) \<noteq> None" if "i \<in> set (callers w)" for i
    using inv that t(3) by (cases "i = k") (auto simp: stop_inv_def other here)
  ultimately show ?thesis
    using inv jobs(1) by (simp add: stop_inv_def len sv(2,3,5) rest callers same)
qed

lemma begins_inv:
  assumes inv: "stop_inv a w" and k: "k < length (takes (sup w))" and e: "stop_entry False (takes (sup w) ! k) = Begin"
  shows "stop_inv a (w\<lparr>sup := with_take k (\<lambda>t. t\<lparr>stop_running := True\<rparr>) (sup w),
    jobs := \<lparr>j_take = k, j_policy = p, j_requested = requested, j_pc = P_Wait At_Start False\<rparr> # jobs w\<rparr>)"
proof -
  let ?t = "(takes (sup w) ! k)\<lparr>stop_running := True\<rparr>"
  have idle: "stop_result (takes (sup w) ! k) = None" "\<not> stop_running (takes (sup w) ! k)"
    using e by (auto simp: stop_entry_def split: option.splits if_splits)
  have fresh: "j_take j \<noteq> k" if "j \<in> set (jobs w)" for j
    using inv that idle(2) by (auto simp: stop_inv_def job_ok_def)
  have "take_ok w k" and "distinct (map j_take (jobs w))" using inv k by (simp_all add: stop_inv_def)
  then show ?thesis
    using k idle fresh by (intro take_change_inv [OF inv k, where t = ?t])
      (auto simp: with_take_def job_ok_def dispatch_ok_def take_ok_def Let_def evidence_def)
qed

lemma ends_inv:
  assumes inv: "stop_inv a w" and j: "jobs w = xs @ j # ys" and pc: "j_pc j = P_Finished result"
  shows "stop_inv a (w\<lparr>sup := end_attempt (j_take j) result (sup w), jobs := xs @ ys\<rparr>)" (is "stop_inv a ?w")
proof -
  let ?k = "j_take j"
  note i = inv_job [OF inv j]
  define t where "t = takes (end_attempt ?k result (sup w)) ! ?k"
  have t: "impact t = impact (takes (sup w) ! ?k)" "stop_uncertain t = stop_uncertain (takes (sup w) ! ?k)" "last_stop t = Some result"
    "continuity t = continuity (takes (sup w) ! ?k)" "monitor_summary t = monitor_summary (takes (sup w) ! ?k)"
    "stop_result t = (if current (sup w) = Some ?k then None else Some result)"
    using i(1,3) by (simp_all add: t_def end_attempt_def job_ok_def)
  have sv: "takes (end_attempt ?k result (sup w)) = (takes (sup w))[?k := t]" "current (end_attempt ?k result (sup w)) = current (sup w)"
    "sv_view (end_attempt ?k result (sup w)) = sv_view (sup w)" "sv_registry (end_attempt ?k result (sup w)) = sv_registry (sup w)"
    "starting (end_attempt ?k result (sup w)) = starting (sup w)"
    using i(3) by (simp_all add: t_def end_attempt_def with_take_def)
  have d: "distinct (map j_take (xs @ j # ys))" using inv j by (simp add: stop_inv_def)
  have "pc_ok (takes (sup w) ! ?k) (current (sup w) = Some ?k) (P_Finished result)" using i(1) pc by (simp add: job_ok_def)
  moreover have "Reserved (impact (takes (sup w) ! ?k)) \<in> set (w_history w)"
    using inv i(3) by (auto simp: stop_inv_def take_ok_def Let_def)
  ultimately have "take_ok ?w ?k"
    using i(3) t by (auto simp: take_ok_def Let_def sv evidence_def)
  then show ?thesis
    using d j t sv by (intro take_change_inv [OF inv i(3), where t = t]) (auto simp: image_iff)
qed

lemma works_inv:
  assumes inv: "stop_inv a w"
  shows "stop_inv a (w\<lparr>sup := with_take k (\<lambda>t. t\<lparr>t_monitor := m, chapter_notes := notes, setup_pending := pending,
    next_stats := ns, next_picture := np, program := pr, lease_holder := lh, start_operation := op, deadline_fired := fired\<rparr>) (sup w)\<rparr>)"
  using inv_start [OF inv] inv_impact [OF inv]
  by (intro apart_inv [OF inv]) (auto simp: impact_part_def env_core_def intro!: with_take_env)

lemma waits_inv:
  assumes "stop_inv a w" and "k < length (takes (sup w))" and "stop_entry b (takes (sup w) ! k) = Must_Wait"
  shows "stop_inv a (w\<lparr>callers := k # callers w\<rparr>)"
proof -
  have r: "stop_running (takes (sup w) ! k)"
    using assms(3) by (auto simp: stop_entry_def split: option.splits if_splits)
  let ?w = "w\<lparr>callers := k # callers w\<rparr>"
  have e: "sends ?w = sends w" "rejects ?w = rejects w" by (simp_all add: sends_def rejects_def fun_eq_iff)
  have "job_ok ?w = job_ok w" "take_ok ?w = take_ok w" "balanced ?w = balanced w" "impact_part ?w = impact_part w"
    by (simp_all add: fun_eq_iff job_ok_def dispatch_ok_def take_ok_def balanced_def impact_part_def e)
  then show ?thesis using assms(1,2) r by (simp add: stop_inv_def)
qed

lemma stop_step_inv: "stop_step F E a w w' \<Longrightarrow> stop_inv a w \<Longrightarrow> stop_inv a w'"
proof (induction rule: stop_step.induct)
  case (moves w xs j ys io pc sv)
  then show ?case by (intro moves_inv)
next
  case (guard_passes w xs j ys up path ex mail cancelled now sv)
  then show ?case using guard_inv [of a w xs j ys up path ex mail E cancelled now None sv] by simp
next
  case (guard_refuses w xs j ys up path ex mail cancelled now why sv)
  then show ?case using guard_inv [of a w xs j ys up path ex mail E cancelled now "Some why" sv] by simp
next
  case (replies w xs j ys io path ex was_sent why mail reply pc sv)
  then show ?case by (intro replies_inv)
next
  case (begins k w p requested)
  then show ?case by (intro begins_inv)
next
  case (waits_in_line k w b)
  then show ?case by (intro waits_inv)
next
  case (ends w xs j ys result)
  then show ?case by (intro ends_inv)
next
  case (observes w io now e)
  then show ?case by (intro observes_inv)
next
  case (impact_moves w iw)
  then show ?case by (intro impact_moves_inv)
next
  case (refreshes w up job_active)
  then show ?case by (intro refreshes_inv)
next
  case (reserves_start w up admitted opts sv)
  then show ?case by (intro reserves_start_inv)
next
  case (refuses_start w up admitted opts refusal sv)
  then show ?case using refuses_start_inv by blast
next
  case (start_moves w st st')
  show ?case using start_moves.hyps inv_start [OF start_moves.prems, of st] inv_impact [OF start_moves.prems]
    by (intro apart_inv [OF start_moves.prems]) (simp_all add: impact_part_def env_step_def)
next
  case (creates w st ms stamp owner now tid opts p local publisher receipt unavailable)
  then show ?case using inv_start [of a w st] by (intro creates_inv) (simp_all add: created_take_def)
next
  case (start_ends w)
  show ?case using inv_impact [OF start_ends.prems] by (intro apart_inv [OF start_ends.prems]) (simp_all add: impact_part_def env_step_def)
next
  case (works k w m nts pending ns np pr lh op fired)
  then show ?case by (intro works_inv)
next
  case (others w c st cg cd)
  show ?case using inv_start [OF others.prems] inv_impact [OF others.prems]
    by (intro apart_inv [OF others.prems]) (simp_all add: impact_part_def env_step_def)
qed

lemma supervised_inv:
  assumes "bind_impact token gone = Ok i"
  shows "stop_inv a (supervised (new_supervisor a i tok st c))" (is "stop_inv a ?w")
proof -
  have "impact_part ?w = impact_start i"
    by (simp add: impact_part_def supervised_def new_supervisor_def impact_start_def)
  with bind_inv [OF assms] show ?thesis
    by (simp add: stop_inv_def supervised_def new_supervisor_def impact_view_def balanced_def sends_def rejects_def)
qed

lemma stop_reachable_inv:
  assumes "bind_impact token gone = Ok i" and "(stop_step F E a)\<^sup>*\<^sup>* (supervised (new_supervisor a i tok st c)) w"
  shows "stop_inv a w"
  using assms(2) by induction (use supervised_inv [OF assms(1)] stop_step_inv in blast)+

end
