(* ===== verification/Take_Guarantees.thy ===== *)
theory Take_Guarantees
  imports Take_Safety
begin

text \<open>
  The guarantees of a stop over every run of the supervisor, with a complete run as their witness: a
  Take is started, its stop is sent, the recording ends, the monitor is joined and the stop is reported
  as confirmed.
\<close>

section \<open>Properties\<close>

text \<open>C4: A stop request is never replayed. At every point of every run of a supervisor, whatever stops,
  events, manual calls and other clients interleave, the stop requests sent for a Take exceed those OBS
  rejected by at most one; and while one is sent and not rejected, the Take stays marked as uncertain,
  which is what refuses another.\<close>

theorem stop_never_replayed:
  assumes "bind_impact token gone = Ok i" and "(stop_step F E a)\<^sup>*\<^sup>* (supervised (new_supervisor a i tok st c)) w"
  shows "sends w k \<le> Suc (rejects w k) \<and> (sends w k = Suc (rejects w k) \<longrightarrow> stop_uncertain (takes (sup w) ! k))"
proof -
  have "balanced w k" using stop_reachable_inv [OF assms] by (simp add: stop_inv_def)
  then show ?thesis by (auto simp: balanced_def)
qed

text \<open>C15: A stop is sent only for a recording nobody else touched. The history of manual recording calls at
  the moment a stop request passed the guard contains the reservation of its Take, and since every such
  reservation no manual call may have had an effect and none was in flight.\<close>

theorem stop_only_when_untouched:
  assumes "bind_impact token gone = Ok i" and "(stop_step F E a)\<^sup>*\<^sup>* (supervised (new_supervisor a i tok st c)) w"
    and "(k, h) \<in> set (sent w)"
  shows "Reserved (impact (takes (sup w) ! k)) \<in> set h \<and>
    (\<forall>bs es. h = bs @ Reserved (impact (takes (sup w) ! k)) # es \<longrightarrow> effects es = [] \<and> in_flight None es = None)"
proof -
  have "clean_send (impact (takes (sup w) ! k)) h"
    using stop_reachable_inv [OF assms(1,2)] assms(3) by (auto simp: stop_inv_def)
  moreover have "effects es = [] \<and> in_flight None es = None" if "told es = Imp_Ready" for es
    using that by (auto simp: told_def split: if_splits option.splits)
  ultimately show ?thesis by (simp add: clean_send_def)
qed

text \<open>C16: A stop is reported as confirmed only when it was, and every caller gets an answer. If a caller of the
  stop is answered with a result that confirms it, OBS reported the end of the recording, the monitor was
  joined and summarised, and the Take is no longer current; and a caller that waited for the stop of
  another finds its result.\<close>

theorem confirmed_means_stopped:
  assumes "bind_impact token gone = Ok i" and "(stop_step F E a)\<^sup>*\<^sup>* (supervised (new_supervisor a i tok st c)) w"
    and "k < length (takes (sup w))"
  shows "(\<forall>r. stop_entry b (takes (sup w) ! k) = Answer r \<and> confirms r \<longrightarrow>
      con_stopped (continuity (takes (sup w) ! k)) \<and> monitor_summary (takes (sup w) ! k) \<noteq> None \<and> current (sup w) \<noteq> Some k) \<and>
    (k \<in> set (callers w) \<longrightarrow> stop_entry True (takes (sup w) ! k) \<noteq> Entry_Panic)"
proof -
  have "take_ok w k" and "k \<in> set (callers w) \<longrightarrow> stop_running (takes (sup w) ! k) \<or> last_stop (takes (sup w) ! k) \<noteq> None"
    using stop_reachable_inv [OF assms(1,2)] assms(3) by (simp_all add: stop_inv_def)
  then show ?thesis
    by (auto simp: stop_entry_def take_ok_def Let_def evidence_def split: option.splits if_splits)
qed

section \<open>A sample run\<close>

definition run_env :: "json take_env" where
  "run_env = \<lparr>te_text = sample_text, te_hash = (\<lambda>x. sample_hash), te_float = sample_float\<rparr>"

definition run_io :: "json store_io" where
  "run_io = \<lparr>si_views = (\<lambda>_. sample_view), si_writes = sample_persist, si_utc = ''2026-01-02T03:04:05.678Z'', si_identity = sample_uuid\<rparr>"

definition run_step_io :: "json step_io" where
  "run_step_io = \<lparr>st_up = True, st_ms = 2000, st_now = 3000, st_prepare = run_io, st_update = run_io, st_final = run_io\<rparr>"

text \<open>The receipt of the stop, phase by phase.\<close>

definition run_prepared :: OperationRecord where
  "run_prepared = prepared_record (\<lambda>x. sample_hash) sample_hash sample_uuid RecordStop 7 ''2026-01-02T03:04:05.678Z'' (take_details ''take-1'')"

definition run_intent :: OperationRecord where
  "run_intent = run_prepared\<lparr>phase := Dispatching, request_dispatched := None\<rparr>"

definition run_accepted :: OperationRecord where
  "run_accepted = run_intent\<lparr>phase := Accepted, request_dispatched := Some True, request_accepted := Some True\<rparr>"

definition run_observed :: OperationRecord where
  "run_observed = run_accepted\<lparr>phase := Observed, postcondition_observed := True\<rparr>"

lemmas run_records = run_prepared_def run_intent_def run_accepted_def run_observed_def prepared_record_def take_details_def

lemma run_heads [simp]:
  "operation_id run_prepared = sample_uuid" "endpoint_hash run_prepared = sample_hash" "operation_id run_intent = sample_uuid"
  "endpoint_hash run_intent = sample_hash" "operation_id run_accepted = sample_uuid" "endpoint_hash run_accepted = sample_hash"
  by (simp_all add: run_records)

lemma take_1_bounded: "bounded_identity ''take-1''"
  by code_simp

lemma receipts_checked:
  "checked run_prepared = Ok run_prepared" "checked run_intent = Ok run_intent" "checked run_accepted = Ok run_accepted"
  using sample take_1_bounded by (simp_all add: checked_def run_records head_ok_def MAX_SAFE_INTEGER_def opt_all_def)

lemma receipts_updated:
  "updated run_prepared dispatching_intent ''2026-01-02T03:04:05.678Z'' = Ok run_intent"
  "updated run_intent accepted_update ''2026-01-02T03:04:05.678Z'' = Ok run_accepted"
  "updated run_accepted observed_update ''2026-01-02T03:04:05.678Z'' = Ok run_observed"
  using sample take_1_bounded
  by (simp_all add: updated_def dispatching_intent_def accepted_update_def observed_update_def new_update_def or_else_def checked_def
      run_records head_ok_def MAX_SAFE_INTEGER_def opt_all_def)

lemma receipt_prepares:
  "prepare sample_text sample_persist (\<lambda>x. sample_hash) sample_uuid RecordStop 7 ''2026-01-02T03:04:05.678Z''
     (take_details ''take-1'') sample_store = (Ok run_prepared, holding 1 run_prepared)"
proof -
  have "prepared_record (\<lambda>x. sample_hash) (b_endpoint sample_store) sample_uuid RecordStop 7
     ''2026-01-02T03:04:05.678Z'' (take_details ''take-1'') = run_prepared"
    by (simp add: run_prepared_def sample_store_def)
  with receipts_checked(1) show ?thesis
    using sample sample_persisted [of sample_uuid "operation_value run_prepared"]
    by (simp add: prepare_def persist_def check_endpoint_def returning_def holding_def sample_store_def
        del: checked_Ok_iff)
qed

lemma receipts_update:
  "update sample_text sample_view sample_persist run_prepared dispatching_intent ''2026-01-02T03:04:05.678Z''
     (holding 1 run_prepared) = (Ok run_intent, holding 2 run_intent)"
  "update sample_text sample_view sample_persist run_intent accepted_update ''2026-01-02T03:04:05.678Z''
     (holding 2 run_intent) = (Ok run_accepted, holding 3 run_accepted)"
  "update sample_text sample_view sample_persist run_accepted observed_update ''2026-01-02T03:04:05.678Z''
     (holding 3 run_accepted) = (Ok run_observed, holding 4 run_observed)"
  by (rule holding_update [OF receipts_checked(1) _ _ receipts_updated(1)] holding_update [OF receipts_checked(2) _ _ receipts_updated(2)]
      holding_update [OF receipts_checked(3) _ _ receipts_updated(3)]; use sample in \<open>simp add: checked_add_Some_iff\<close>)+

text \<open>The supervisor with one Take, and the world around it.\<close>

definition run_reservation :: "Continuity \<Rightarrow> StartReservation" where
  "run_reservation c = \<lparr>sr_cancellable = False, sr_impact = sample_ticket, sr_impact_deadline = None, sr_receipt = None,
     sr_receipt_unavailable = False, sr_continuity = c\<rparr>"

definition run_policy :: Policy where
  "run_policy = \<lparr>pol_caller = ''codex'', pol_confirmation_enabled = False, pol_can_elicit = False, pol_input_responses = None\<rparr>"

definition run_take :: "rat Take" where
  "run_take = created_take sample_f64 1000 ''start'' 0 5 ''take-1'' (default_start_options sample_f64) run_policy False False None False
     (run_reservation (new_continuity\<lparr>con_started := True\<rparr>))"

definition run_sup :: "rat Take \<Rightarrow> json operation_store \<Rightarrow> (json, rat) supervisor" where
  "run_sup t st = \<lparr>sv_view = impact_view 0 sample_impact, sv_registry = sample_impact, sv_token = 7, sv_store = st,
     sv_control = set_take_lock (Some \<lparr>lock_id = ''take-1'', locked = True\<rparr>) new_control, sv_closing = False, sv_closed = False,
     starting = Some (run_reservation (new_continuity\<lparr>con_started := True\<rparr>)), takes = [t], current = Some 0, completed = None\<rparr>"

definition run_job :: "rat stop_pc \<Rightarrow> rat stop_job" where
  "run_job pc = \<lparr>j_take = 0, j_policy = run_policy, j_requested = None, j_pc = pc\<rparr>"

definition run_world :: "(json, rat) supervisor \<Rightarrow> rat stop_job list \<Rightarrow> (nat \<times> impact_event list) list \<Rightarrow> (json, rat) stop_world" where
  "run_world sv js hs = \<lparr>sup = sv, w_attempts = [], w_history = [Reserved sample_ticket], creating = False, jobs = js,
     callers = [], sent = hs, rejected = []\<rparr>"

definition run_reaches :: "(json, rat) stop_world \<Rightarrow> bool" where
  "run_reaches w \<longleftrightarrow> (stop_step sample_f64 run_env 0)\<^sup>*\<^sup>*
     (supervised (new_supervisor 0 sample_impact 7 (Direct sample_store) new_control)) w"

lemma run_next: "run_reaches w \<Longrightarrow> stop_step sample_f64 run_env 0 w w' \<Longrightarrow> run_reaches w'"
  by (simp add: run_reaches_def)

definition record_state :: "string \<Rightarrow> json" where
  "record_state st = mk_object [(''outputState'', JString st), (''outputPath'', JString ''/take.mkv'')]"

lemma record_state_get [simp]:
  "output_state (record_state st) = Some st" "get (record_state st) ''outputPath'' = Some (JString ''/take.mkv'')"
  by (simp_all add: record_state_def output_state_def)

lemma options_accepted: "options_ok sample_f64 (default_start_options sample_f64)"
  by (simp add: options_ok_def default_start_options_def sample_f64_def is_finite_def)

lemma run_starts:
  "run_reaches (run_world (run_sup run_take (Direct sample_store)) [] [])"
proof -
  let ?s = "new_supervisor 0 sample_impact 7 (Direct sample_store) new_control"
  let ?r = "?s\<lparr>starting := Some (run_reservation new_continuity)\<rparr>"
  let ?o = "?s\<lparr>starting := Some (run_reservation (new_continuity\<lparr>con_started := True\<rparr>))\<rparr>"
  let ?w = "\<lambda>s. (supervised s)\<lparr>w_history := [Reserved sample_ticket], creating := True\<rparr>"
  have t: "reserve_take True (impact_view 0 sample_impact) sample_impact = (Ok sample_ticket, sample_impact)"
    by (simp add: impact_run_simps)
  then have "reserve_start sample_f64 True (default_start_options sample_f64) None ?s = (None, ?r)"
    by (simp add: reserve_start_def start_ticket_def options_accepted new_supervisor_def run_reservation_def)
  then have "stop_step sample_f64 run_env 0 (supervised ?s) (?w ?r)"
    using stop_step.reserves_start [of "supervised ?s" True None sample_f64 "default_start_options sample_f64" ?r run_env 0]
    by (simp add: supervised_def admission_known_def new_reservation_def run_reservation_def)
  then have "run_reaches (?w ?r)" by (simp add: run_reaches_def r_into_rtranclp)
  moreover have "stop_step sample_f64 run_env 0 (?w ?r) (?w ?o)"
    using stop_step.start_moves [of "?w ?r" "run_reservation new_continuity" "run_reservation (new_continuity\<lparr>con_started := True\<rparr>)"
        sample_f64 run_env 0]
    by (simp add: supervised_def run_reservation_def)
  ultimately have "run_reaches (?w ?o)" by (rule run_next)
  moreover have "stop_step sample_f64 run_env 0 (?w ?o) (run_world (run_sup run_take (Direct sample_store)) [] [])"
    using stop_step.creates [of "?w ?o" "run_reservation (new_continuity\<lparr>con_started := True\<rparr>)" sample_f64 run_env 0
        1000 "''start''" 0 5 "''take-1''" "default_start_options sample_f64" run_policy False False None False, folded run_take_def]
    by (simp add: supervised_def run_world_def run_sup_def set_current_def new_supervisor_def)
       (simp add: run_take_def created_take_def default_start_options_def)
  ultimately show ?thesis by (rule run_next)
qed

text \<open>Moves of the one job.\<close>

lemma run_sup_simps [simp]:
  "with_take 0 f (run_sup t st) = run_sup (f t) st" "takes (run_sup t st) = [t]" "sv_registry (run_sup t st) = sample_impact"
  "current (run_sup t st) = Some 0" "sv_store (run_sup t st) = st" "(run_sup t st)\<lparr>sv_store := st'\<rparr> = run_sup t st'"
  "sv_token (run_sup t st) = 7" "sv_closed (run_sup t st) = False"
  by (simp_all add: run_sup_def with_take_def)

lemma run_moves:
  assumes "run_reaches (run_world sv [run_job pc] hs)" and "job_move sample_f64 run_env run_step_io (run_job pc) sv pc' sv'"
  shows "run_reaches (run_world sv' [run_job pc'] hs)"
proof -
  have "stop_step sample_f64 run_env 0 (run_world sv [run_job pc] hs) (run_world sv' [run_job pc'] hs)"
    using stop_step.moves [of "run_world sv [run_job pc] hs" "[]" "run_job pc" "[]" run_step_io sample_f64 run_env pc' sv' 0] assms(2)
    by (simp add: run_world_def run_step_io_def run_job_def)
  with assms(1) show ?thesis by (rule run_next)
qed

lemma run_impact:
  assumes "impact t = sample_ticket"
  shows "take_impact True 0 (run_sup t st) = (Imp_Ready, run_sup t st)"
proof -
  have "check_ticket True sample_ticket sample_impact = (Imp_Ready, sample_impact)" by (simp add: impact_run_simps)
  then show ?thesis using assms
    by (simp add: take_impact_def apply_impact_def note_revocation_def with_take_def run_sup_def)
qed

lemma run_looks:
  assumes "run_reaches (run_world (run_sup t st) [run_job (P_Wait wp False)] hs)" and "impact t = sample_ticket" "blocked_impact t = None"
    and "go_on sample_f64 run_env run_step_io (run_job (P_Wait wp True)) wp (run_sup t st) = (pc, sv)"
  shows "run_reaches (run_world sv [run_job pc] hs)"
proof -
  let ?L = "\<lambda>e. look_while_waiting sample_f64 run_env run_step_io (run_job (P_Wait wp e)) wp e (run_sup t st)"
  have "t\<lparr>blocked_impact := None\<rparr> = t" using assms(3) by (cases t) simp
  then have l: "?L False = (P_Wait wp True, run_sup t st)" "?L True = (pc, sv)"
    using assms(4) run_impact [OF assms(2), of st] by (simp_all add: look_while_waiting_def run_step_io_def run_job_def)
  have "run_reaches (run_world (run_sup t st) [run_job (P_Wait wp True)] hs)"
    by (rule run_moves [OF assms(1)], rule job_move.looks [OF _ l(1)]) (simp add: run_job_def)
  then show ?thesis
    by (rule run_moves, intro job_move.looks [OF _ l(2)]) (simp add: run_job_def)
qed

text \<open>Setup ends, then the stop begins and is about to be sent.\<close>

definition take_ready :: "rat Take" where
  "take_ready = run_take\<lparr>t_monitor := snd (complete_setup sample_f64 1500 True (t_monitor run_take)), setup_pending := False\<rparr>"

definition take_running :: "rat Take" where
  "take_running = take_ready\<lparr>stop_running := True\<rparr>"

definition take_asked :: "rat Take" where
  "take_asked = take_running\<lparr>stop_operation := Some run_intent, stop_uncertain := True,
     t_monitor := snd (begin_stop_expectation (t_monitor take_running))\<rparr>"

lemma run_take_fields [simp]:
  "impact run_take = sample_ticket" "blocked_impact run_take = None" "t_id run_take = ''take-1''" "t_local run_take = False"
  "continuity run_take = new_continuity\<lparr>con_started := True\<rparr>" "stop_operation run_take = None" "stop_uncertain run_take = False"
  "stop_running run_take = False" "stop_result run_take = None" "lease_holder run_take = None" "t_deadline run_take = None"
  "monitor_stop_running run_take = False" "monitor_summary run_take = None" "next_stats run_take = None" "next_picture run_take = None"
  "last_stop run_take = None"
  by (simp_all add: run_take_def created_take_def run_reservation_def default_start_options_def confirmed_continuity_def)

lemma run_begins: "run_reaches (run_world (run_sup take_running (Direct sample_store)) [run_job (P_Wait At_Start False)] [])"
proof -
  let ?w = "\<lambda>t js. run_world (run_sup t (Direct sample_store)) js []"
  have "stop_step sample_f64 run_env 0 (?w run_take []) (?w take_ready [])"
    using stop_step.works [where w = "?w run_take []" and k = 0 and F = sample_f64 and E = run_env and a = 0
        and ?notes = "chapter_notes run_take" and pending = False and ns = "next_stats run_take" and np = "next_picture run_take"
        and pr = "program run_take" and lh = "lease_holder run_take" and op = "start_operation run_take"
        and fired = "deadline_fired run_take", OF _ worker_step.intros(5) [where now = 1500 and ppm = True]]
    by (simp add: run_world_def take_ready_def del: run_take_fields)
  with run_starts have "run_reaches (?w take_ready [])" by (rule run_next)
  moreover have "stop_step sample_f64 run_env 0 (?w take_ready []) (?w take_running [run_job (P_Wait At_Start False)])"
    using stop_step.begins [of 0 "?w take_ready []" sample_f64 run_env 0 run_policy None]
    by (simp add: run_world_def take_ready_def take_running_def run_job_def stop_entry_def)
  ultimately show ?thesis by (rule run_next)
qed

lemma run_asks:
  "run_reaches (run_world (run_sup take_asked (Direct (holding 2 run_intent)))
     [run_job (P_Dispatch None (stop_expected (t_monitor take_running)) False None [])] [])"
proof -
  let ?s = "run_sup take_running (Direct sample_store)"
  have t: "impact take_running = sample_ticket" "blocked_impact take_running = None" "continuity take_running = new_continuity\<lparr>con_started := True\<rparr>"
    "stop_uncertain take_running = False" "stop_operation take_running = None" "t_id take_running = ''take-1''"
    by (simp_all add: take_running_def take_ready_def)
  have "run_reaches (run_world ?s [run_job P_Status] [])"
    by (rule run_looks [OF run_begins t(1,2)]) (simp add: go_on_def)
  then show ?thesis
  proof (rule run_moves)
    have "stop_intent run_env run_step_io 0 ?s = (Ok run_intent, run_sup take_running (Direct (holding 2 run_intent)))"
      using receipt_prepares receipts_update(1)
      by (simp add: stop_intent_def stop_receipt_def t take_prepare_def take_update_def run_env_def run_step_io_def run_io_def directly_def)
    then have "ask_stop run_env run_step_io 0 None ?s =
        (P_Dispatch None (stop_expected (t_monitor take_running)) False None [], run_sup take_asked (Direct (holding 2 run_intent)))"
      by (simp add: ask_stop_def t take_asked_def)
    then have "status_answer run_env run_step_io 0 (Some True) ?s =
        (P_Dispatch None (stop_expected (t_monitor take_running)) False None [], run_sup take_asked (Direct (holding 2 run_intent)))"
      using run_impact [OF t(1), of "Direct sample_store"]
      by (simp add: status_answer_def decide_stop_def run_step_io_def t new_continuity_def)
    then show "job_move sample_f64 run_env run_step_io (run_job P_Status) ?s
        (P_Dispatch None (stop_expected (t_monitor take_running)) False None []) (run_sup take_asked (Direct (holding 2 run_intent)))"
      by (intro job_move.answered [where answer = "Some True"]) (simp_all add: run_job_def)
  qed
qed

lemma run_allowed:
  "fst (evaluate sample_float (effect_request StopRecord run_policy) 2000
     (set_take_lock (Some \<lparr>lock_id = ''take-1'', locked = True\<rparr>) new_control)) = Allow"
  by code_simp

lemma run_control:
  "snd (evaluate sample_float (effect_request StopRecord run_policy) 2000
     (set_take_lock (Some \<lparr>lock_id = ''take-1'', locked = True\<rparr>) new_control)) =
   set_take_lock (Some \<lparr>lock_id = ''take-1'', locked = True\<rparr>) new_control"
  by code_simp

lemma run_sends:
  "run_reaches (run_world (run_sup take_asked (Direct (holding 2 run_intent)))
     [run_job (P_Dispatch None (stop_expected (t_monitor take_running)) True None [])] [(0, [Reserved sample_ticket])])"
proof -
  let ?s = "run_sup take_asked (Direct (holding 2 run_intent))" and ?ex = "stop_expected (t_monitor take_running)"
  have t: "impact take_asked = sample_ticket" "continuity take_asked = new_continuity\<lparr>con_started := True\<rparr>"
    by (simp_all add: take_asked_def take_running_def take_ready_def)
  have e: "evaluate sample_float (effect_request StopRecord run_policy) 2000 (sv_control ?s) = (Allow, sv_control ?s)"
    using run_allowed run_control by (simp add: run_sup_def prod_eq_iff)
  have "?s\<lparr>sv_control := sv_control ?s\<rparr> = ?s" by simp
  then have "guard run_env True False 2000 (Some 0) StopRecord run_policy ?s = (None, ?s)"
    using e run_impact [OF t(1), of "Direct (holding 2 run_intent)"] t(2)
    by (simp add: guard_def guard_ownership_def guard_impact_def run_env_def new_continuity_def)
  then have "stop_step sample_f64 run_env 0 (run_world ?s [run_job (P_Dispatch None ?ex False None [])] [])
      (run_world ?s [run_job (P_Dispatch None ?ex True None [])] [(0, [Reserved sample_ticket])])"
    using stop_step.guard_passes [where w = "run_world ?s [run_job (P_Dispatch None ?ex False None [])] []" and xs = "[]" and ys = "[]"
        and j = "run_job (P_Dispatch None ?ex False None [])" and up = True and cancelled = False and now = 2000 and E = run_env
        and F = sample_f64 and a = 0 and path = None and ex = ?ex and mail = "[]" and sv = ?s]
    by (simp add: run_world_def run_job_def)
  with run_asks show ?thesis by (rule run_next)
qed

text \<open>The recording stops, the request is answered, and the stop is confirmed.\<close>

abbreviation stopped_data :: json where
  "stopped_data \<equiv> record_state ''OBS_WEBSOCKET_OUTPUT_STOPPED''"

abbreviation was_sent_once :: "(nat \<times> impact_event list) list" where
  "was_sent_once \<equiv> [(0, [Reserved sample_ticket])]"

definition take_stopped :: "rat Take" where
  "take_stopped = take_asked\<lparr>continuity := \<lparr>con_started = True, con_stopped = True, con_lost = None, con_path = Some ''/take.mkv''\<rparr>,
     t_monitor := on_event sample_f64 2500 ''RecordStateChanged'' stopped_data (t_monitor take_asked)\<rparr>"

definition take_accepted :: "rat Take" where
  "take_accepted = take_stopped\<lparr>stop_operation := Some run_accepted\<rparr>"

lemma run_observes:
  "run_reaches (run_world (run_sup take_stopped (Direct (holding 2 run_intent)))
     [run_job (P_Dispatch None (stop_expected (t_monitor take_running)) True None [stopped_data])] was_sent_once)"
proof -
  let ?s = "run_sup take_asked (Direct (holding 2 run_intent))" and ?ex = "stop_expected (t_monitor take_running)"
  let ?e = "Obs_Event 7 ''RecordStateChanged'' stopped_data"
  have "continuity take_asked = new_continuity\<lparr>con_started := True\<rparr>"
    by (simp add: take_asked_def take_running_def take_ready_def)
  then have "observe sample_f64 run_env run_io 2500 ?e ?s = run_sup take_stopped (Direct (holding 2 run_intent))"
    by (simp add: observe_def observe_take_def observe_continuity_def new_continuity_def take_stopped_def Let_def opt_filter_def)
  moreover have "broadcast ?s ?e = Some (''RecordStateChanged'', stopped_data)" by (simp add: broadcast_def)
  ultimately have "stop_step sample_f64 run_env 0 (run_world ?s [run_job (P_Dispatch None ?ex True None [])] was_sent_once)
      (run_world (run_sup take_stopped (Direct (holding 2 run_intent))) [run_job (P_Dispatch None ?ex True None [stopped_data])] was_sent_once)"
    using stop_step.observes [where w = "run_world ?s [run_job (P_Dispatch None ?ex True None [])] was_sent_once" and io = run_io
        and now = 2500 and e = ?e and F = sample_f64 and E = run_env and a = 0]
    by (simp add: run_world_def run_job_def deliver_def)
  with run_sends show ?thesis by (rule run_next)
qed

lemma run_replies:
  "run_reaches (run_world (run_sup take_accepted (Direct (holding 3 run_accepted))) [run_job (P_Event None [stopped_data])] was_sent_once)"
proof -
  let ?s = "run_sup take_stopped (Direct (holding 2 run_intent))" and ?ex = "stop_expected (t_monitor take_running)"
  let ?j = "run_job (P_Dispatch None ?ex True None [stopped_data])"
  have "stop_operation take_stopped = Some run_intent" by (simp add: take_stopped_def take_asked_def)
  then have "stop_reply run_env run_step_io 0 None ?ex [stopped_data] (Ok JNull) ?s =
      (P_Event None [stopped_data], run_sup take_accepted (Direct (holding 3 run_accepted)))"
    using receipts_update(2) by (simp add: stop_reply_def take_update_def run_env_def run_step_io_def run_io_def directly_def take_accepted_def)
  then have "stop_step sample_f64 run_env 0 (run_world ?s [?j] was_sent_once)
      (run_world (run_sup take_accepted (Direct (holding 3 run_accepted))) [run_job (P_Event None [stopped_data])] was_sent_once)"
    using stop_step.replies [where w = "run_world ?s [?j] was_sent_once" and xs = "[]" and ys = "[]" and j = ?j and io = run_step_io
        and path = None and ex = ?ex and was_sent = True and why = None and mail = "[stopped_data]" and reply = "Ok JNull"
        and E = run_env and F = sample_f64 and a = 0 and pc = "P_Event None [stopped_data]"
        and sv = "run_sup take_accepted (Direct (holding 3 run_accepted))"]
    by (simp add: run_world_def run_job_def transport_true_def is_rejection_def run_step_io_def)
  with run_observes show ?thesis by (rule run_next)
qed

lemma take_accepted_fields [simp]:
  "impact take_accepted = sample_ticket" "blocked_impact take_accepted = None" "stop_operation take_accepted = Some run_accepted"
  "continuity take_accepted = \<lparr>con_started = True, con_stopped = True, con_lost = None, con_path = Some ''/take.mkv''\<rparr>"
  "setup_pending take_accepted = False" "monitor_stop_running take_accepted = False" "monitor_summary take_accepted = None"
  "t_deadline take_accepted = None" "lease_holder take_accepted = None" "t_local take_accepted = False" "t_id take_accepted = ''take-1''"
  "stop_running take_accepted = True" "stop_result take_accepted = None"
  by (simp_all add: take_accepted_def take_stopped_def take_asked_def take_running_def take_ready_def)

lemma run_cleans:
  "run_reaches (run_world (run_sup take_accepted (Direct (holding 3 run_accepted))) [run_job (P_Monitor (M_Stopped (Some ''/take.mkv'')) Enter)] was_sent_once)"
proof -
  let ?s = "run_sup take_accepted (Direct (holding 3 run_accepted))" and ?p = "Some ''/take.mkv''"
  have "run_reaches (run_world ?s [run_job (P_Poll ?p)] was_sent_once)"
    by (rule run_moves [OF run_replies])
      (use job_move.hears [of "run_job (P_Event None [stopped_data])" None stopped_data "[]"] in \<open>simp add: run_job_def stop_event_def\<close>)
  then have "run_reaches (run_world ?s [run_job (P_Wait (At_Confirmation ?p True) False)] was_sent_once)"
    by (rule run_moves)
      (use job_move.polls [of "run_job (P_Poll ?p)" ?p sample_f64 run_env run_step_io ?s False "Some False"] in \<open>simp add: run_job_def poll_answer_def\<close>)
  then have c: "run_reaches (run_world ?s [run_job (P_Wait (At_Cleanup ?p) False)] was_sent_once)"
    by (rule run_looks) (simp_all add: go_on_def run_job_def)
  have d: "take_accepted\<lparr>t_deadline := None\<rparr> = take_accepted" by (rule Take.equality) simp_all
  show ?thesis
    using run_looks [OF c] by (simp add: go_on_def run_job_def d)
qed

text \<open>The monitor is joined.\<close>

definition take_closing :: "rat Take" where
  "take_closing = take_accepted\<lparr>monitor_stop_running := True, t_monitor := snd (begin_stop 3000 (t_monitor take_accepted)),
     next_stats := None, next_picture := None\<rparr>"

definition run_monitor :: "rat monitor" where
  "run_monitor = snd (the (finish_cleanup sample_f64 (t_monitor take_closing)))"

definition run_summary :: "rat Summary" where
  "run_summary = summary sample_f64 3000 run_monitor"

definition take_joined :: "rat Take" where
  "take_joined = take_closing\<lparr>t_monitor := run_monitor, monitor_summary := Some run_summary\<rparr>"

definition take_observed :: "rat Take" where
  "take_observed = take_joined\<lparr>stop_operation := Some run_observed\<rparr>"

lemma monitor_accepted:
  "mon_phase (t_monitor take_accepted) = Mon_Running" "stopped_at_ms (t_monitor take_accepted) = None"
  "\<not> samples_pending (t_monitor take_accepted)"
  by (simp_all add: take_accepted_def take_stopped_def take_asked_def take_running_def take_ready_def run_take_def created_take_def
      complete_setup_def begin_stop_expectation_def bind_resource_events_def new_monitor_def on_event_def event_detail_def listening_def
      on_record_state_def pause_or_resume_def log_event_def MAX_EVENTS_def resource_changed_def samples_pending_def slot_active_def
      busy_def Let_def opt_filter_def)

lemma monitor_closing:
  "finish_cleanup sample_f64 (t_monitor take_closing) = Some (Ok (), run_monitor)" "\<not> samples_pending (t_monitor take_closing)"
proof -
  show p: "\<not> samples_pending (t_monitor take_closing)"
    using monitor_accepted by (simp add: take_closing_def begin_stop_def samples_pending_def slot_active_def busy_def split: option.splits)
  then obtain m where "finish_cleanup sample_f64 (t_monitor take_closing) = Some (Ok (), m)"
    using monitor_accepted(2) by (simp add: finish_cleanup_def take_closing_def begin_stop_def Let_def)
  then show "finish_cleanup sample_f64 (t_monitor take_closing) = Some (Ok (), run_monitor)" by (simp add: run_monitor_def)
qed

lemma take_joined_fields [simp]:
  "impact take_joined = sample_ticket" "blocked_impact take_joined = None" "stop_operation take_joined = Some run_accepted"
  "lease_holder take_joined = None" "t_local take_joined = False" "t_id take_joined = ''take-1''"
  "impact take_observed = sample_ticket" "blocked_impact take_observed = None" "t_local take_observed = False"
  "stop_operation take_observed = Some run_observed"
  by (simp_all add: take_joined_def take_closing_def take_observed_def)

lemma run_joins:
  "run_reaches (run_world (run_sup take_joined (Direct (holding 3 run_accepted))) [run_job (P_Wait (After_Monitor (Some ''/take.mkv'') run_summary) False)] was_sent_once)"
proof -
  let ?am = "M_Stopped (Some ''/take.mkv'')"
  let ?s = "run_sup take_closing (Direct (holding 3 run_accepted))" and ?j = "run_sup take_joined (Direct (holding 3 run_accepted))"
  have "run_reaches (run_world ?s [run_job (P_Monitor ?am Stats)] was_sent_once)"
    by (rule run_moves [OF run_cleans], rule job_move.enters [where am = ?am])
      (simp_all add: run_job_def monitor_enter_def take_closing_def run_step_io_def)
  then have "run_reaches (run_world ?s [run_job (P_Monitor ?am Drain)] was_sent_once)"
    by (rule run_moves, intro job_move.reads_stats [where stats = None and am = ?am]) (simp_all add: run_job_def monitor_stats_def)
  then have "run_reaches (run_world ?s [run_job (P_Monitor ?am Join)] was_sent_once)"
    by (rule run_moves, intro job_move.drains [where am = ?am]) (use monitor_closing(2) in \<open>simp_all add: run_job_def monitor_drain_def take_closing_def\<close>)
  then show ?thesis
    by (rule run_moves, intro job_move.joins [where joined = "Ok ()" and am = ?am])
      (use monitor_closing(1) in \<open>simp_all add: run_job_def monitor_join_def after_monitor_def Let_def take_joined_def run_summary_def run_step_io_def\<close>)
qed

definition run_value :: json where
  "run_value = confirmed_value sample_f64 take_observed None ''/take.mkv'' run_summary
     (no_check ''OBS is remote, so the file was not inspected'') None ''observed''"

definition run_end :: "(json, rat) supervisor" where
  "run_end = end_attempt 0 run_value (clear_current 0 (run_sup take_observed (Direct (holding 4 run_observed))))"

lemma run_finishes: "run_reaches (run_world run_end [] was_sent_once)"
proof -
  let ?p = "''/take.mkv''" and ?c = "no_check ''OBS is remote, so the file was not inspected''"
  let ?s = "run_sup take_observed (Direct (holding 4 run_observed))"
  have "observed_receipt run_env run_step_io 0 (run_sup take_joined (Direct (holding 3 run_accepted))) = (''observed'', ?s)"
    using receipts_update(3) by (simp add: observed_receipt_def stop_receipt_def take_update_def run_env_def run_step_io_def run_io_def
        directly_def take_observed_def)
  then have "record_stopped run_env run_step_io 0 (Some ?p) run_summary (run_sup take_joined (Direct (holding 3 run_accepted))) =
      (P_Wait (After_Inspection ?p run_summary ?c ''observed'') False, ?s)"
    by (simp add: record_stopped_def release_lease_def opt_or_def opt_filter_def)
  then have "run_reaches (run_world ?s [run_job (P_Wait (After_Inspection ?p run_summary ?c ''observed'') False)] was_sent_once)"
    using run_looks [OF run_joins] by (simp add: go_on_def run_job_def)
  from run_looks [OF this] have "run_reaches (run_world ?s [run_job (P_Wait (After_Log ?p run_summary ?c None ''observed'') False)] was_sent_once)"
    by (simp add: go_on_def run_job_def)
  from run_looks [OF this] have "run_reaches (run_world (clear_current 0 ?s) [run_job (P_Finished run_value)] was_sent_once)"
    by (simp add: go_on_def run_job_def run_value_def)
  moreover have "stop_step sample_f64 run_env 0 (run_world (clear_current 0 ?s) [run_job (P_Finished run_value)] was_sent_once)
      (run_world run_end [] was_sent_once)"
    using stop_step.ends [where w = "run_world (clear_current 0 ?s) [run_job (P_Finished run_value)] was_sent_once" and xs = "[]" and ys = "[]"
        and j = "run_job (P_Finished run_value)" and result = run_value and F = sample_f64 and E = run_env and a = 0]
    by (simp add: run_world_def run_job_def run_end_def)
  ultimately show ?thesis by (rule run_next)
qed

lemma set_key_object: "set_key k x (mk_object kvs) = mk_object ((k, x) # kvs)"
  by (simp add: mk_object_def mk_fields_def)

text \<open>The result at the end of a run that went through confirms the stop.\<close>

lemma confirmed_confirms: "confirms (confirmed_value F t requested path s check takelog status)"
  by (simp add: confirmed_value_def confirms_def take_result_def Let_def idx_def set_key_object split: option.split)

lemma run_value_confirms: "confirms run_value"
  by (simp add: run_value_def confirmed_confirms)

lemma run_end_take:
  "stop_entry False (takes run_end ! 0) = Answer run_value" "length (takes run_end) = 1" "impact (takes run_end ! 0) = sample_ticket"
  by (simp_all add: run_end_def end_attempt_def clear_current_def stop_entry_def run_sup_def with_take_def)

text \<open>Witnesses.\<close>

theorem stop_never_replayed_witness:
  "sends (run_world run_end [] was_sent_once) 0 = 1 \<and> stop_uncertain (takes run_end ! 0)"
  using stop_never_replayed [OF sample_impact_bound run_finishes [unfolded run_reaches_def], of 0]
  by (simp add: run_world_def sends_def rejects_def)

theorem stop_only_when_untouched_witness:
  "(0, [Reserved sample_ticket]) \<in> set (sent (run_world run_end [] was_sent_once)) \<and>
   (\<exists>bs es. [Reserved sample_ticket] = bs @ Reserved (impact (takes run_end ! 0)) # es \<and> effects es = [] \<and> in_flight None es = None)"
  using stop_only_when_untouched [OF sample_impact_bound run_finishes [unfolded run_reaches_def], of 0 "[Reserved sample_ticket]"]
  by (auto simp: run_world_def run_end_take intro!: exI [of _ "[]"])

theorem confirmed_means_stopped_witness:
  "stop_entry False (takes run_end ! 0) = Answer run_value \<and> con_stopped (continuity (takes run_end ! 0)) \<and>
   monitor_summary (takes run_end ! 0) \<noteq> None \<and> current run_end \<noteq> Some 0"
  using confirmed_means_stopped [OF sample_impact_bound run_finishes [unfolded run_reaches_def], of 0 False]
    run_end_take run_value_confirms by (simp add: run_world_def)

end
