(* ===== verification/Journal.thy ===== *)
theory Journal
  imports Json
begin

text \<open>
  The durable provenance of a preparation, \<open>src/native/src/preparation_journal.rs\<close>: for every field
  that a demo changes, the attempt to prepare it and the attempts to restore it, each a growing list
  of steps. A possible dispatch is recorded before the request is sent, so a crash in between leaves
  an uncertain field.

  The status of an attempt is its last step; the code panics on an attempt without steps. A panic is
  the value \<open>None\<close>, and the order of evaluation is kept where it decides whether one occurs. The digest
  (SHA-256 with a domain) and the text of a JSON value are arguments.
\<close>

section \<open>State\<close>

datatype JournalStep = S_Intent | S_PossibleDispatch | S_Accepted | S_NotDispatched | S_Rejected | S_Unknown | S_ObservedBefore

record JournalFence =
  fn_generation :: u64
  fn_evidence :: u64

record JournalAttempt =
  at_fence :: JournalFence
  at_steps :: "JournalStep list"

record FieldProvenance =
  fp_preparation :: "JournalAttempt option"
  fp_recovery :: "JournalAttempt list"

record Provenance =
  pv_codec :: string
  pv_endpoint_hash :: string
  pv_subject_hash :: string
  pv_revision :: u64
  pv_completed :: bool
  pv_fields :: "FieldProvenance list"

datatype ProvenanceError = P_Invalid | P_Transition | P_Limit

definition MAX_RECOVERY_ATTEMPTS :: nat where
  "MAX_RECOVERY_ATTEMPTS = 64"

definition MAX_REVISION :: u64 where
  "MAX_REVISION = 9007199254740991"

definition fence_valid :: "JournalFence \<Rightarrow> bool" where
  "fence_valid f \<longleftrightarrow> fn_generation f \<le> MAX_REVISION \<and> fn_evidence f \<le> MAX_REVISION"

definition attempt_status :: "JournalAttempt \<Rightarrow> JournalStep option" where
  "attempt_status a = (if at_steps a = [] then None else Some (last (at_steps a)))"

definition attempt_valid :: "bool \<Rightarrow> JournalAttempt \<Rightarrow> bool" where
  "attempt_valid recovery a \<longleftrightarrow> fence_valid (at_fence a) \<and>
     (at_steps a \<in> set [[S_Intent], [S_Intent, S_PossibleDispatch], [S_Intent, S_NotDispatched],
        [S_Intent, S_PossibleDispatch, S_Accepted], [S_Intent, S_PossibleDispatch, S_NotDispatched],
        [S_Intent, S_PossibleDispatch, S_Rejected], [S_Intent, S_PossibleDispatch, S_Unknown]] \<or>
      recovery \<and> at_steps a = [S_ObservedBefore])"

definition preparation_status :: "FieldProvenance \<Rightarrow> JournalStep option option" where
  "preparation_status f = (case fp_preparation f of None \<Rightarrow> Some None | Some a \<Rightarrow> map_option Some (attempt_status a))"

definition recovery_status :: "FieldProvenance \<Rightarrow> JournalStep option option" where
  "recovery_status f = (if fp_recovery f = [] then Some None else map_option Some (attempt_status (last (fp_recovery f))))"

definition owns_restore :: "FieldProvenance \<Rightarrow> bool option" where
  "owns_restore f = map_option (\<lambda>s. s = Some S_Accepted) (preparation_status f)"

definition restored :: "FieldProvenance \<Rightarrow> bool option" where
  "restored f = map_option (\<lambda>s. s = Some S_Accepted \<or> s = Some S_ObservedBefore) (recovery_status f)"

abbreviation unclear :: "JournalStep option \<Rightarrow> bool" where
  "unclear s \<equiv> s = Some S_PossibleDispatch \<or> s = Some S_Unknown"

abbreviation refused :: "JournalStep option \<Rightarrow> bool" where
  "refused s \<equiv> s = Some S_NotDispatched \<or> s = Some S_Rejected"

text \<open>\<open>any\<close> and \<open>all\<close> of an iterator, with a test that may panic.\<close>

fun any_opt :: "('a \<Rightarrow> bool option) \<Rightarrow> 'a list \<Rightarrow> bool option" where
  "any_opt f [] = Some False"
| "any_opt f (x # xs) = Option.bind (f x) (\<lambda>b. if b then Some True else any_opt f xs)"

definition all_opt :: "('a \<Rightarrow> bool option) \<Rightarrow> 'a list \<Rightarrow> bool option" where
  "all_opt f xs = map_option Not (any_opt (\<lambda>x. map_option Not (f x)) xs)"

definition prov_uncertain :: "Provenance \<Rightarrow> bool option" where
  "prov_uncertain p = any_opt (\<lambda>f. Option.bind (preparation_status f) (\<lambda>s. if unclear s then Some True
     else map_option (\<lambda>r. unclear r) (recovery_status f))) (pv_fields p)"

section \<open>Creation and validation\<close>

definition ENDPOINT_DOMAIN :: string where
  "ENDPOINT_DOMAIN = ''obs-mcp-endpoint-v1'' @ [CHR 0x00]"

definition SUBJECT_DOMAIN :: string where
  "SUBJECT_DOMAIN = ''obs-mcp-preparation-subject-v2'' @ [CHR 0x00]"

definition subject_digest :: "(string \<Rightarrow> string \<Rightarrow> string) \<Rightarrow> (json \<Rightarrow> string) \<Rightarrow> json \<Rightarrow> string" where
  "subject_digest digest text subject = digest SUBJECT_DOMAIN (text subject)"

definition new_provenance :: "(string \<Rightarrow> string \<Rightarrow> string) \<Rightarrow> (json \<Rightarrow> string) \<Rightarrow> string \<Rightarrow> json \<Rightarrow> nat \<Rightarrow> Provenance" where
  "new_provenance digest text endpoint subject n =
     \<lparr>pv_codec = ''obs-mcp-preparation-v2'', pv_endpoint_hash = digest ENDPOINT_DOMAIN endpoint,
      pv_subject_hash = subject_digest digest text subject, pv_revision = 0, pv_completed = False,
      pv_fields = replicate n \<lparr>fp_preparation = None, fp_recovery = []\<rparr>\<rparr>"

definition steps_len :: "JournalAttempt \<Rightarrow> u64" where
  "steps_len a = of_nat (length (at_steps a))"

fun count_attempts :: "u64 \<Rightarrow> JournalAttempt list \<Rightarrow> u64 option" where
  "count_attempts n [] = Some n"
| "count_attempts n (a # as) = Option.bind (checked_add n (steps_len a)) (\<lambda>m. count_attempts m as)"

definition count_field :: "u64 \<Rightarrow> FieldProvenance \<Rightarrow> u64 option" where
  "count_field n f = Option.bind (checked_add n (case fp_preparation f of None \<Rightarrow> 0 | Some a \<Rightarrow> steps_len a))
     (\<lambda>m. count_attempts m (fp_recovery f))"

text \<open>What validation asks of the attempts of one field.\<close>

definition field_shape :: "FieldProvenance \<Rightarrow> bool" where
  "field_shape f \<longleftrightarrow> (case fp_preparation f of None \<Rightarrow> True | Some a \<Rightarrow> attempt_valid False a) \<and>
     length (fp_recovery f) \<le> MAX_RECOVERY_ATTEMPTS \<and> list_all (attempt_valid True) (fp_recovery f) \<and>
     list_all (\<lambda>a. refused (attempt_status a)) (butlast (fp_recovery f)) \<and>
     (owns_restore f = Some True \<or> list_all (\<lambda>a. at_steps a = [S_ObservedBefore]) (fp_recovery f))"

fun validate_fields :: "FieldProvenance list \<Rightarrow> bool \<Rightarrow> bool \<Rightarrow> u64 \<Rightarrow> (ProvenanceError, u64) result option" where
  "validate_fields [] ps rs n = Some (Ok n)"
| "validate_fields (f # fs) ps rs n =
     (if ps \<and> fp_preparation f \<noteq> None then Some (Err P_Invalid)
      else Option.bind (preparation_status f) (\<lambda>s.
        if rs \<and> fp_recovery f \<noteq> [] then Some (Err P_Invalid)
        else Option.bind (restored f) (\<lambda>r.
          if unclear s \<and> fp_recovery f \<noteq> [] then Some (Err P_Invalid)
          else (case count_field n f of None \<Rightarrow> Some (Err P_Invalid)
            | Some m \<Rightarrow> if \<not> field_shape f then Some (Err P_Invalid)
                else validate_fields fs (ps \<or> s \<noteq> Some S_Accepted) (rs \<or> \<not> r) m))))"

definition validate_provenance :: "(string \<Rightarrow> string \<Rightarrow> string) \<Rightarrow> (json \<Rightarrow> string) \<Rightarrow> string \<Rightarrow> json \<Rightarrow> nat \<Rightarrow> Provenance \<Rightarrow>
    (ProvenanceError, unit) result option" where
  "validate_provenance digest text endpoint subject n p =
     (if pv_codec p \<noteq> ''obs-mcp-preparation-v2'' \<or> pv_endpoint_hash p \<noteq> digest ENDPOINT_DOMAIN endpoint \<or>
         pv_subject_hash p \<noteq> subject_digest digest text subject \<or> pv_revision p > MAX_REVISION \<or>
         length (pv_fields p) \<noteq> n
      then Some (Err P_Invalid)
      else Option.bind (validate_fields (pv_fields p) False False (if pv_completed p then 1 else 0)) (\<lambda>out.
        case out of Err e \<Rightarrow> Some (Err e)
        | Ok events \<Rightarrow>
            if events \<noteq> pv_revision p then Some (Err P_Invalid)
            else if \<not> pv_completed p then Some (Ok ())
            else Option.bind (all_opt restored (pv_fields p)) (\<lambda>all.
              if \<not> all then Some (Err P_Invalid)
              else map_option (\<lambda>u. if u then Err P_Invalid else Ok ()) (prov_uncertain p))))"

section \<open>Operations\<close>

definition bump :: "Provenance \<Rightarrow> (ProvenanceError, Provenance) result" where
  "bump p = (if pv_completed p then Err P_Transition
     else (case checked_add (pv_revision p) 1 of None \<Rightarrow> Err P_Limit
       | Some n \<Rightarrow> if n \<le> MAX_REVISION then Ok (p\<lparr>pv_revision := n\<rparr>) else Err P_Limit))"

definition put_field :: "nat \<Rightarrow> (FieldProvenance \<Rightarrow> FieldProvenance) \<Rightarrow> Provenance \<Rightarrow> (ProvenanceError, Provenance) result" where
  "put_field i g p = and_then (bump p) (\<lambda>q. Ok (q\<lparr>pv_fields := (pv_fields q)[i := g (pv_fields q ! i)]\<rparr>))"

definition begin_preparation :: "nat \<Rightarrow> JournalFence \<Rightarrow> Provenance \<Rightarrow> (ProvenanceError, Provenance) result option" where
  "begin_preparation i fence p =
     (if \<not> fence_valid fence \<or> (\<exists>f \<in> set (pv_fields p). fp_recovery f \<noteq> []) then Some (Err P_Transition)
      else Option.bind (any_opt (\<lambda>f. map_option Not (owns_restore f)) (take i (pv_fields p))) (\<lambda>b.
        if b \<or> length (pv_fields p) \<le> i \<or> fp_preparation (pv_fields p ! i) \<noteq> None \<or> fp_recovery (pv_fields p ! i) \<noteq> []
        then Some (Err P_Transition)
        else Some (put_field i (\<lambda>f. f\<lparr>fp_preparation := Some \<lparr>at_fence = fence, at_steps = [S_Intent]\<rparr>\<rparr>) p)))"

definition begin_recovery :: "nat \<Rightarrow> JournalFence \<Rightarrow> Provenance \<Rightarrow> (ProvenanceError, Provenance) result option" where
  "begin_recovery i fence p = Option.bind (prov_uncertain p) (\<lambda>u.
     if u \<or> \<not> fence_valid fence then Some (Err P_Transition)
     else Option.bind (any_opt (\<lambda>f. map_option Not (restored f)) (take i (pv_fields p))) (\<lambda>b.
       if b \<or> length (pv_fields p) \<le> i then Some (Err P_Transition)
       else (let f = pv_fields p ! i in Option.bind (owns_restore f) (\<lambda>own.
         if \<not> own \<or> MAX_RECOVERY_ATTEMPTS \<le> length (fp_recovery f) then Some (Err P_Transition)
         else Option.bind (recovery_status f) (\<lambda>s.
           if s \<noteq> None \<and> \<not> refused s then Some (Err P_Transition)
           else Some (put_field i (\<lambda>f. f\<lparr>fp_recovery := fp_recovery f @ [\<lparr>at_fence = fence, at_steps = [S_Intent]\<rparr>]\<rparr>) p))))))"

definition step_allowed :: "JournalStep \<Rightarrow> JournalStep \<Rightarrow> bool" where
  "step_allowed s t \<longleftrightarrow> s = S_Intent \<and> t \<in> set [S_PossibleDispatch, S_NotDispatched] \<or>
     s = S_PossibleDispatch \<and> t \<in> set [S_Accepted, S_NotDispatched, S_Rejected, S_Unknown]"

definition push_step :: "JournalStep \<Rightarrow> JournalAttempt \<Rightarrow> JournalAttempt" where
  "push_step s a = a\<lparr>at_steps := at_steps a @ [s]\<rparr>"

definition current_attempt :: "bool \<Rightarrow> FieldProvenance \<Rightarrow> JournalAttempt option" where
  "current_attempt recovery f = (if recovery then (if fp_recovery f = [] then None else Some (last (fp_recovery f))) else fp_preparation f)"

definition push_current :: "bool \<Rightarrow> JournalStep \<Rightarrow> FieldProvenance \<Rightarrow> FieldProvenance" where
  "push_current recovery s f = (if recovery then f\<lparr>fp_recovery := butlast (fp_recovery f) @ [push_step s (last (fp_recovery f))]\<rparr>
     else f\<lparr>fp_preparation := map_option (push_step s) (fp_preparation f)\<rparr>)"

definition advance_step :: "nat \<Rightarrow> bool \<Rightarrow> JournalStep \<Rightarrow> Provenance \<Rightarrow> (ProvenanceError, Provenance) result option" where
  "advance_step i recovery next p =
     (if \<not> recovery \<and> (\<exists>f \<in> set (pv_fields p). fp_recovery f \<noteq> []) \<or> length (pv_fields p) \<le> i then Some (Err P_Transition)
      else (case current_attempt recovery (pv_fields p ! i) of None \<Rightarrow> Some (Err P_Transition)
        | Some a \<Rightarrow> map_option (\<lambda>s. if \<not> step_allowed s next then Err P_Transition else put_field i (push_current recovery next) p)
            (attempt_status a)))"

definition observed_before :: "nat \<Rightarrow> JournalFence \<Rightarrow> Provenance \<Rightarrow> (ProvenanceError, Provenance) result option" where
  "observed_before i fence p =
     (if \<not> fence_valid fence then Some (Err P_Transition)
      else Option.bind (any_opt (\<lambda>f. map_option Not (restored f)) (take i (pv_fields p))) (\<lambda>b.
        if b \<or> length (pv_fields p) \<le> i then Some (Err P_Transition)
        else (let f = pv_fields p ! i in Option.bind (preparation_status f) (\<lambda>s.
          if unclear s then Some (Err P_Transition)
          else map_option (\<lambda>r. if r \<noteq> None \<and> \<not> refused r \<or> MAX_RECOVERY_ATTEMPTS \<le> length (fp_recovery f) then Err P_Transition
            else put_field i (\<lambda>f. f\<lparr>fp_recovery := fp_recovery f @ [\<lparr>at_fence = fence, at_steps = [S_ObservedBefore]\<rparr>]\<rparr>) p)
              (recovery_status f)))))"

definition complete_provenance :: "Provenance \<Rightarrow> (ProvenanceError, Provenance) result option" where
  "complete_provenance p = Option.bind (prov_uncertain p) (\<lambda>u.
     if u then Some (Err P_Transition)
     else map_option (\<lambda>all. if \<not> all then Err P_Transition else and_then (bump p) (\<lambda>q. Ok (q\<lparr>pv_completed := True\<rparr>)))
       (all_opt restored (pv_fields p)))"

section \<open>Reports\<close>

definition prov_attempted :: "Provenance \<Rightarrow> nat option" where
  "prov_attempted p = map_option (\<lambda>ss. length (filter (\<lambda>s. s \<in> set (map Some [S_PossibleDispatch, S_Accepted, S_Rejected, S_Unknown])) ss))
     (those (map preparation_status (pv_fields p)))"

definition all_preparation_accepted :: "Provenance \<Rightarrow> bool option" where
  "all_preparation_accepted p = (if pv_completed p then Some False else all_opt owns_restore (pv_fields p))"

record JournalSummary =
  js_revision :: u64
  js_completed :: bool
  js_accepted :: nat
  js_possible :: nat
  js_unknown :: nat
  js_not_dispatched :: nat
  js_rejected :: nat
  js_untouched :: nat
  js_intent :: nat
  js_recovery_accepted :: nat
  js_recovery_possible :: nat
  js_recovery_unknown :: nat
  js_recovery_observed_before :: nat
  js_recovery_intent :: nat
  js_recovery_not_dispatched :: nat
  js_recovery_rejected :: nat

definition prov_summary :: "Provenance \<Rightarrow> JournalSummary option" where
  "prov_summary p = Option.bind (those (map preparation_status (pv_fields p))) (\<lambda>ps.
     Option.bind (those (map recovery_status (pv_fields p))) (\<lambda>rs.
       Some \<lparr>js_revision = pv_revision p, js_completed = pv_completed p, js_accepted = count_list ps (Some S_Accepted),
         js_possible = count_list ps (Some S_PossibleDispatch), js_unknown = count_list ps (Some S_Unknown),
         js_not_dispatched = count_list ps (Some S_NotDispatched), js_rejected = count_list ps (Some S_Rejected),
         js_untouched = count_list ps None + count_list ps (Some S_ObservedBefore), js_intent = count_list ps (Some S_Intent),
         js_recovery_accepted = count_list rs (Some S_Accepted), js_recovery_possible = count_list rs (Some S_PossibleDispatch),
         js_recovery_unknown = count_list rs (Some S_Unknown), js_recovery_observed_before = count_list rs (Some S_ObservedBefore),
         js_recovery_intent = count_list rs (Some S_Intent), js_recovery_not_dispatched = count_list rs (Some S_NotDispatched),
         js_recovery_rejected = count_list rs (Some S_Rejected)\<rparr>))"

section \<open>Successors\<close>

definition attempt_extension :: "JournalAttempt option \<Rightarrow> JournalAttempt option \<Rightarrow> bool" where
  "attempt_extension old new = (case (old, new) of
     (None, None) \<Rightarrow> True
   | (None, Some n) \<Rightarrow> at_steps n = [S_Intent] \<or> at_steps n = [S_ObservedBefore]
   | (Some a, Some n) \<Rightarrow> a = n \<or> at_fence a = at_fence n \<and> length (at_steps n) = length (at_steps a) + 1 \<and>
       take (length (at_steps a)) (at_steps n) = at_steps a
   | (Some _, None) \<Rightarrow> False)"

definition field_extension :: "bool \<Rightarrow> FieldProvenance \<Rightarrow> FieldProvenance \<Rightarrow> bool" where
  "field_extension recovering f g \<longleftrightarrow> \<not> (fp_preparation f \<noteq> fp_preparation g \<and> recovering) \<and>
     attempt_extension (fp_preparation f) (fp_preparation g) \<and>
     length (fp_recovery f) \<le> length (fp_recovery g) \<and> length (fp_recovery g) \<le> length (fp_recovery f) + 1 \<and>
     list_all (\<lambda>(a, b). attempt_extension (Some a) (Some b)) (zip (fp_recovery f) (fp_recovery g)) \<and>
     (length (fp_recovery g) = length (fp_recovery f) + 1 \<longrightarrow> attempt_valid True (last (fp_recovery g)))"

text \<open>The number of fields that differ, if each extends its predecessor.\<close>

fun extended_fields :: "bool \<Rightarrow> FieldProvenance list \<Rightarrow> FieldProvenance list \<Rightarrow> nat option" where
  "extended_fields recovering (f # fs) (g # gs) =
     (if f = g then extended_fields recovering fs gs
      else if field_extension recovering f g then map_option Suc (extended_fields recovering fs gs) else None)"
| "extended_fields recovering _ _ = Some 0"

fun count_fields :: "u64 \<Rightarrow> FieldProvenance list \<Rightarrow> u64 option" where
  "count_fields n [] = Some n"
| "count_fields n (f # fs) = Option.bind (count_field n f) (\<lambda>m. count_fields m fs)"

definition prov_events :: "Provenance \<Rightarrow> u64 option" where
  "prov_events p = count_fields (if pv_completed p then 1 else 0) (pv_fields p)"

definition prov_successor :: "Provenance \<Rightarrow> Provenance \<Rightarrow> (ProvenanceError, unit) result option" where
  "prov_successor p q =
     (if prov_events p \<noteq> Some (pv_revision p) \<or> prov_events q \<noteq> Some (pv_revision q) then Some (Err P_Transition)
      else if p = q then Some (Ok ())
      else if pv_completed p \<or> pv_codec p \<noteq> pv_codec q \<or> pv_endpoint_hash p \<noteq> pv_endpoint_hash q \<or>
        pv_subject_hash p \<noteq> pv_subject_hash q \<or> length (pv_fields p) \<noteq> length (pv_fields q) then Some (Err P_Transition)
      else (case checked_add (pv_revision p) 1 of None \<Rightarrow> Some (Err P_Limit)
        | Some n \<Rightarrow>
            if pv_revision q \<noteq> n then Some (Err P_Transition)
            else (case extended_fields (\<exists>f \<in> set (pv_fields p). fp_recovery f \<noteq> []) (pv_fields p) (pv_fields q) of
                None \<Rightarrow> Some (Err P_Transition)
              | Some changed \<Rightarrow>
                  if \<not> pv_completed q then Some (if changed = 1 then Ok () else Err P_Transition)
                  else if changed \<noteq> 0 then Some (Err P_Transition)
                  else Option.bind (all_opt restored (pv_fields q)) (\<lambda>all. if \<not> all then Some (Err P_Transition)
                    else map_option (\<lambda>u. if u then Err P_Transition else Ok ()) (prov_uncertain q)))))"

section \<open>Runs\<close>

inductive journal_step :: "Provenance \<Rightarrow> Provenance \<Rightarrow> bool" where
  prepares: "begin_preparation i fence p = Some (Ok q) \<Longrightarrow> journal_step p q"
| recovers: "begin_recovery i fence p = Some (Ok q) \<Longrightarrow> journal_step p q"
| advances: "advance_step i recovery next p = Some (Ok q) \<Longrightarrow> journal_step p q"
| observes: "observed_before i fence p = Some (Ok q) \<Longrightarrow> journal_step p q"
| completes: "complete_provenance p = Some (Ok q) \<Longrightarrow> journal_step p q"

end
