(* ===== verification/Journal_Safety.thy ===== *)
theory Journal_Safety
  imports Journal
begin

text \<open>
  The journal of a preparation is a state machine whose history only field_grows. \<open>journal_inv\<close> describes every
  state its operations reach; on such a state each operation is a test and an update (\<open>pure_operations\<close>), so
  none of them panics. The guarantees at the end: reachable journals validate, every step passes the
  check of successors, and an unknown outcome is final.
\<close>

section \<open>The invariant\<close>

definition pstat :: "FieldProvenance \<Rightarrow> JournalStep option" where
  "pstat f = map_option (\<lambda>a. last (at_steps a)) (fp_preparation f)"

definition rstat :: "FieldProvenance \<Rightarrow> JournalStep option" where
  "rstat f = (if fp_recovery f = [] then None else Some (last (at_steps (last (fp_recovery f)))))"

definition sound :: "FieldProvenance \<Rightarrow> bool" where
  "sound f \<longleftrightarrow> (\<forall>a. fp_preparation f = Some a \<longrightarrow> at_steps a \<noteq> []) \<and> (\<forall>a \<in> set (fp_recovery f). at_steps a \<noteq> [])"

abbreviation is_back :: "FieldProvenance \<Rightarrow> bool" where
  "is_back f \<equiv> rstat f = Some S_Accepted \<or> rstat f = Some S_ObservedBefore"

definition field_ok :: "FieldProvenance \<Rightarrow> bool" where
  "field_ok f \<longleftrightarrow> field_shape f \<and> (unclear (pstat f) \<longrightarrow> fp_recovery f = [])"

definition in_order :: "FieldProvenance list \<Rightarrow> bool" where
  "in_order fs \<longleftrightarrow> (\<forall>j < length fs. \<forall>i < j. (fp_preparation (fs ! j) \<noteq> None \<longrightarrow> pstat (fs ! i) = Some S_Accepted) \<and>
     (fp_recovery (fs ! j) \<noteq> [] \<longrightarrow> is_back (fs ! i)))"

definition field_events :: "FieldProvenance \<Rightarrow> nat" where
  "field_events f = (case fp_preparation f of None \<Rightarrow> 0 | Some a \<Rightarrow> length (at_steps a)) + sum_list (map (\<lambda>a. length (at_steps a)) (fp_recovery f))"

definition total_events :: "FieldProvenance list \<Rightarrow> nat" where
  "total_events fs = sum_list (map field_events fs)"

definition journal_inv :: "Provenance \<Rightarrow> Provenance \<Rightarrow> bool" where
  "journal_inv p0 p \<longleftrightarrow> pv_codec p = pv_codec p0 \<and> pv_endpoint_hash p = pv_endpoint_hash p0 \<and> pv_subject_hash p = pv_subject_hash p0 \<and>
     length (pv_fields p) = length (pv_fields p0) \<and> (\<forall>f \<in> set (pv_fields p). field_ok f) \<and> in_order (pv_fields p) \<and>
     unat (pv_revision p) = total_events (pv_fields p) + (if pv_completed p then 1 else 0) \<and> pv_revision p \<le> MAX_REVISION \<and>
     (pv_completed p \<longrightarrow> (\<forall>f \<in> set (pv_fields p). is_back f \<and> \<not> unclear (pstat f)))"

lemma attempt_valid_steps: "attempt_valid r a \<Longrightarrow> at_steps a \<noteq> []"
  by (auto simp: attempt_valid_def)

lemma shape_sound: "field_shape f \<Longrightarrow> sound f"
  by (auto simp: field_shape_def sound_def list_all_iff dest: attempt_valid_steps split: option.splits)

lemma field_ok_sound: "field_ok f \<Longrightarrow> sound f"
  by (simp add: field_ok_def shape_sound)

lemma sound_status:
  assumes "sound f"
  shows "preparation_status f = Some (pstat f)" "recovery_status f = Some (rstat f)"
    "owns_restore f = Some (pstat f = Some S_Accepted)" "restored f = Some (is_back f)"
proof -
  show p: "preparation_status f = Some (pstat f)" and r: "recovery_status f = Some (rstat f)"
    using assms by (auto simp: preparation_status_def recovery_status_def pstat_def rstat_def attempt_status_def sound_def split: option.split)
  show "owns_restore f = Some (pstat f = Some S_Accepted)" "restored f = Some (is_back f)"
    by (simp_all add: owns_restore_def restored_def p r)
qed

lemma any_opt_pure: "(\<And>x. x \<in> set xs \<Longrightarrow> f x = Some (g x)) \<Longrightarrow> any_opt f xs = Some (\<exists>x \<in> set xs. g x)"
  by (induction xs) auto

lemma all_opt_pure: "(\<And>x. x \<in> set xs \<Longrightarrow> f x = Some (g x)) \<Longrightarrow> all_opt f xs = Some (\<forall>x \<in> set xs. g x)"
  by (subst all_opt_def, subst any_opt_pure [where g = "\<lambda>x. \<not> g x"]) auto

definition hazy :: "FieldProvenance \<Rightarrow> bool" where
  "hazy f \<longleftrightarrow> unclear (pstat f) \<or> unclear (rstat f)"

lemma uncertain_pure: "(\<And>f. f \<in> set (pv_fields p) \<Longrightarrow> sound f) \<Longrightarrow> prov_uncertain p = Some (\<exists>f \<in> set (pv_fields p). hazy f)"
  unfolding prov_uncertain_def by (rule any_opt_pure) (simp add: sound_status hazy_def)

text \<open>Counting never overflows within the range of revisions.\<close>

lemma checked_sum:
  assumes "unat n + m < 2 ^ 64"
  shows "\<exists>k. checked_add n (of_nat m :: u64) = Some k \<and> unat k = unat n + m"
proof -
  have "unat (of_nat m :: u64) = m" using assms by (simp add: unat_of_nat)
  then show ?thesis using assms by (auto simp: checked_add_def unat_word_ariths)
qed

lemma count_attempts_ok:
  "unat n + sum_list (map (\<lambda>a. length (at_steps a)) as) < 2 ^ 64 \<Longrightarrow>
     \<exists>k. count_attempts n as = Some k \<and> unat k = unat n + sum_list (map (\<lambda>a. length (at_steps a)) as)"
proof (induction as arbitrary: n)
  case (Cons a as)
  then obtain m where m: "checked_add n (steps_len a) = Some m" "unat m = unat n + length (at_steps a)"
    using checked_sum [of n "length (at_steps a)"] by (auto simp: steps_len_def)
  with Cons.IH [of m] Cons.prems show ?case by (auto simp: add.assoc)
qed simp

lemma count_field_ok:
  assumes "unat n + field_events f < 2 ^ 64"
  shows "\<exists>k. count_field n f = Some k \<and> unat k = unat n + field_events f"
proof -
  let ?l = "case fp_preparation f of None \<Rightarrow> 0 | Some a \<Rightarrow> length (at_steps a)"
  have "(case fp_preparation f of None \<Rightarrow> 0 | Some a \<Rightarrow> steps_len a) = (of_nat ?l :: u64)"
    by (simp add: steps_len_def split: option.split)
  moreover obtain m where "checked_add n (of_nat ?l :: u64) = Some m" "unat m = unat n + ?l"
    using checked_sum [of n ?l] assms by (auto simp: field_events_def)
  ultimately show ?thesis
    using count_attempts_ok [of m "fp_recovery f"] assms by (auto simp: count_field_def field_events_def)
qed

lemma count_fields_ok:
  "unat n + total_events fs < 2 ^ 64 \<Longrightarrow> \<exists>k. count_fields n fs = Some k \<and> unat k = unat n + total_events fs"
proof (induction fs arbitrary: n)
  case (Cons f fs)
  then obtain m where "count_field n f = Some m" "unat m = unat n + field_events f"
    using count_field_ok [of n f] by (auto simp: total_events_def)
  with Cons.IH [of m] Cons.prems show ?case by (auto simp: total_events_def add.assoc)
qed (simp add: total_events_def)

text \<open>Validation accepts what the invariant describes.\<close>

lemma in_order_tl:
  assumes "in_order (f # fs)"
  shows "in_order fs"
  unfolding in_order_def
proof (intro allI impI)
  fix j i
  assume "j < length fs" "i < j"
  then show "(fp_preparation (fs ! j) \<noteq> None \<longrightarrow> pstat (fs ! i) = Some S_Accepted) \<and> (fp_recovery (fs ! j) \<noteq> [] \<longrightarrow> is_back (fs ! i))"
    using assms [unfolded in_order_def, rule_format, of "Suc j" "Suc i"] by simp
qed

lemma validate_fields_ok:
  assumes "\<And>f. f \<in> set fs \<Longrightarrow> field_ok f" and "in_order fs" and "unat n + total_events fs < 2 ^ 64"
    and "ps \<Longrightarrow> \<forall>f \<in> set fs. fp_preparation f = None" and "rs \<Longrightarrow> \<forall>f \<in> set fs. fp_recovery f = []"
  shows "\<exists>k. validate_fields fs ps rs n = Some (Ok k) \<and> unat k = unat n + total_events fs"
  using assms
proof (induction fs arbitrary: ps rs n)
  case (Cons f fs)
  have f: "field_ok f" "sound f" using Cons.prems(1) field_ok_sound by simp_all
  obtain m where m: "count_field n f = Some m" "unat m = unat n + field_events f"
    using count_field_ok [of n f] Cons.prems(3) by (auto simp: total_events_def)
  have later: "fp_preparation g \<noteq> None \<longrightarrow> pstat f = Some S_Accepted" "fp_recovery g \<noteq> [] \<longrightarrow> is_back f" if "g \<in> set fs" for g
  proof -
    from that obtain i where i: "i < length fs" "g = fs ! i" by (auto simp: in_set_conv_nth)
    then show "fp_preparation g \<noteq> None \<longrightarrow> pstat f = Some S_Accepted" "fp_recovery g \<noteq> [] \<longrightarrow> is_back f"
      using Cons.prems(2) [unfolded in_order_def, rule_format, of "Suc i" 0] by simp_all
  qed
  have "in_order fs" using Cons.prems(2) by (rule in_order_tl)
  then have "\<exists>k. validate_fields fs (ps \<or> pstat f \<noteq> Some S_Accepted) (rs \<or> \<not> is_back f) m = Some (Ok k) \<and> unat k = unat m + total_events fs"
    using Cons.prems m later by (intro Cons.IH) (auto simp: total_events_def)
  then show ?case
    using Cons.prems(4,5) f m by (auto simp: sound_status field_ok_def total_events_def)
qed (simp add: total_events_def)

lemma journal_inv_sound: "journal_inv p0 p \<Longrightarrow> f \<in> set (pv_fields p) \<Longrightarrow> sound f"
  by (simp add: journal_inv_def field_ok_sound)

lemma revision_small: "journal_inv p0 p \<Longrightarrow> unat (pv_revision p) < 2 ^ 60"
proof -
  assume "journal_inv p0 p"
  then have "unat (pv_revision p) \<le> unat MAX_REVISION" by (simp add: journal_inv_def word_le_nat_alt)
  then show ?thesis by (simp add: MAX_REVISION_def)
qed

lemma journal_inv_validates:
  assumes inv: "journal_inv (new_provenance digest text endpoint subject n) p"
  shows "validate_provenance digest text endpoint subject n p = Some (Ok ())"
proof -
  let ?c = "if pv_completed p then 1 else 0 :: u64"
  have head: "pv_codec p = ''obs-mcp-preparation-v2''" "pv_endpoint_hash p = digest ENDPOINT_DOMAIN endpoint"
    "pv_subject_hash p = subject_digest digest text subject" "length (pv_fields p) = n" "pv_revision p \<le> MAX_REVISION"
    using inv by (simp_all add: journal_inv_def new_provenance_def)
  have r: "unat (pv_revision p) = unat ?c + total_events (pv_fields p)" using inv by (simp add: journal_inv_def)
  obtain k where k: "validate_fields (pv_fields p) False False ?c = Some (Ok k)" "unat k = unat ?c + total_events (pv_fields p)"
    using validate_fields_ok [of "pv_fields p" ?c False False] inv revision_small [OF inv] r by (auto simp: journal_inv_def)
  then have "k = pv_revision p" using r by (simp add: word_unat_eq_iff)
  moreover have "all_opt restored (pv_fields p) = Some (\<forall>f \<in> set (pv_fields p). is_back f)"
    by (rule all_opt_pure) (rule sound_status(4), rule journal_inv_sound [OF inv])
  moreover have "prov_uncertain p = Some (\<exists>f \<in> set (pv_fields p). hazy f)"
    by (rule uncertain_pure) (rule journal_inv_sound [OF inv])
  moreover have "pv_completed p \<Longrightarrow> f \<in> set (pv_fields p) \<Longrightarrow> is_back f \<and> \<not> hazy f" for f
    using inv by (auto simp: journal_inv_def hazy_def)
  ultimately show ?thesis using head k(1) by (cases "pv_completed p") (simp_all add: validate_provenance_def not_less)
qed

section \<open>Every step keeps the invariant\<close>

lemma bump_Ok: "bump p = Ok q \<longleftrightarrow> \<not> pv_completed p \<and> (\<exists>n. checked_add (pv_revision p) 1 = Some n \<and> n \<le> MAX_REVISION \<and> q = p\<lparr>pv_revision := n\<rparr>)"
  by (auto simp: bump_def split: option.split)

lemma put_field_Ok: "put_field i g p = Ok q \<longleftrightarrow> \<not> pv_completed p \<and>
    (\<exists>n. checked_add (pv_revision p) 1 = Some n \<and> n \<le> MAX_REVISION \<and>
      q = p\<lparr>pv_revision := n, pv_fields := (pv_fields p)[i := g (pv_fields p ! i)]\<rparr>)"
  by (auto simp: put_field_def and_then_def bump_Ok split: sum.split) (auto simp: bump_def split: option.splits if_splits)

text \<open>One field takes one more step.\<close>

definition field_grows :: "FieldProvenance \<Rightarrow> FieldProvenance \<Rightarrow> bool" where
  "field_grows f g \<longleftrightarrow> field_ok g \<and> field_events g = Suc (field_events f) \<and> (pstat f = Some S_Accepted \<longrightarrow> pstat g = Some S_Accepted) \<and>
     (is_back f \<longrightarrow> is_back g)"

lemma total_update:
  "i < length fs \<Longrightarrow> field_events g = Suc (field_events (fs ! i)) \<Longrightarrow> total_events (fs[i := g]) = Suc (total_events fs)"
proof (induction fs arbitrary: i)
  case (Cons f fs)
  then show ?case by (cases i) (auto simp: total_events_def)
qed simp

lemma in_order_update:
  assumes "in_order fs" and i: "i < length fs" and "field_grows (fs ! i) g"
    and "\<And>j. fp_preparation g \<noteq> None \<Longrightarrow> j < i \<Longrightarrow> pstat (fs ! j) = Some S_Accepted"
    and "\<And>j. fp_recovery g \<noteq> [] \<Longrightarrow> j < i \<Longrightarrow> is_back (fs ! j)"
  shows "in_order (fs[i := g])"
  using assms unfolding in_order_def field_grows_def by (auto simp: nth_list_update)

lemma put_field_inv:
  assumes inv: "journal_inv p0 p" and q: "put_field i h p = Ok q" and i: "i < length (pv_fields p)"
    and g: "field_grows (pv_fields p ! i) (h (pv_fields p ! i))"
    and before: "\<And>j. fp_preparation (h (pv_fields p ! i)) \<noteq> None \<Longrightarrow> j < i \<Longrightarrow> pstat (pv_fields p ! j) = Some S_Accepted"
      "\<And>j. fp_recovery (h (pv_fields p ! i)) \<noteq> [] \<Longrightarrow> j < i \<Longrightarrow> is_back (pv_fields p ! j)"
  shows "journal_inv p0 q"
proof -
  let ?g = "h (pv_fields p ! i)"
  obtain n where n: "\<not> pv_completed p" "checked_add (pv_revision p) 1 = Some n" "n \<le> MAX_REVISION"
    and qe: "q = p\<lparr>pv_revision := n, pv_fields := (pv_fields p)[i := ?g]\<rparr>"
    using q by (auto simp: put_field_Ok)
  have "unat n = Suc (unat (pv_revision p))"
    using checked_sum [of "pv_revision p" 1] revision_small [OF inv] n(2) by auto
  moreover have "total_events ((pv_fields p)[i := ?g]) = Suc (total_events (pv_fields p))"
    using g by (intro total_update i) (simp add: field_grows_def)
  moreover have "in_order ((pv_fields p)[i := ?g])"
    using inv by (intro in_order_update i g before) (auto simp: journal_inv_def)
  moreover have "f \<in> set ((pv_fields p)[i := ?g]) \<Longrightarrow> field_ok f" for f
    using set_update_subset_insert [of "pv_fields p" i ?g] inv g by (auto simp: journal_inv_def field_grows_def)
  ultimately show ?thesis using inv n by (simp add: journal_inv_def qe)
qed

text \<open>The four ways a field field_grows.\<close>

lemma prepare_grows:
  assumes "fp_preparation f = None" "fp_recovery f = []" "fence_valid fence"
  shows "field_grows f (f\<lparr>fp_preparation := Some \<lparr>at_fence = fence, at_steps = [S_Intent]\<rparr>\<rparr>)"
  using assms by (simp add: field_grows_def field_ok_def field_shape_def attempt_valid_def field_events_def pstat_def rstat_def MAX_RECOVERY_ATTEMPTS_def)

lemma attempt_grows:
  assumes ok: "field_ok f" and "fence_valid fence" "length (fp_recovery f) < MAX_RECOVERY_ATTEMPTS"
    and r: "rstat f = None \<or> refused (rstat f)" and "\<not> unclear (pstat f)"
    and s: "s = S_Intent \<and> pstat f = Some S_Accepted \<or> s = S_ObservedBefore"
  shows "field_grows f (f\<lparr>fp_recovery := fp_recovery f @ [\<lparr>at_fence = fence, at_steps = [s]\<rparr>]\<rparr>)" (is "field_grows f ?g")
proof -
  have "list_all (\<lambda>a. refused (attempt_status a)) (fp_recovery f)"
  proof (cases "fp_recovery f" rule: rev_cases)
    case (snoc as a)
    then show ?thesis using ok r by (auto simp: field_ok_def field_shape_def rstat_def attempt_status_def attempt_valid_def)
  qed simp
  moreover have "pstat ?g = pstat f" "owns_restore ?g = owns_restore f" by (simp_all add: pstat_def owns_restore_def preparation_status_def)
  moreover have "owns_restore f = Some (pstat f = Some S_Accepted)" using sound_status field_ok_sound ok by blast
  moreover have "attempt_valid True \<lparr>at_fence = fence, at_steps = [s]\<rparr>" using assms(2) s by (auto simp: attempt_valid_def)
  ultimately show ?thesis using assms by (auto simp: field_grows_def field_ok_def field_shape_def field_events_def)
qed

lemma open_steps:
  assumes "attempt_valid r a" "step_allowed (last (at_steps a)) s"
  shows "at_steps a = [S_Intent] \<and> s \<in> {S_PossibleDispatch, S_NotDispatched} \<or>
    at_steps a = [S_Intent, S_PossibleDispatch] \<and> s \<in> {S_Accepted, S_NotDispatched, S_Rejected, S_Unknown}"
proof -
  have "at_steps a = [S_Intent] \<or> at_steps a = [S_Intent, S_PossibleDispatch]"
    using assms by (auto simp: attempt_valid_def step_allowed_def)
  then show ?thesis using assms(2) by (elim disjE) (simp_all add: step_allowed_def)
qed

lemma push_valid:
  assumes "attempt_valid r a" "step_allowed (last (at_steps a)) s"
  shows "attempt_valid r (push_step s a)" "last (at_steps a) = S_Intent \<or> last (at_steps a) = S_PossibleDispatch"
    "at_steps a \<noteq> [S_ObservedBefore]"
proof -
  have "fence_valid (at_fence a)" using assms(1) by (simp add: attempt_valid_def)
  then show "attempt_valid r (push_step s a)"
    using open_steps [OF assms] by (elim disjE conjE) (auto simp: attempt_valid_def push_step_def)
  show "last (at_steps a) = S_Intent \<or> last (at_steps a) = S_PossibleDispatch" "at_steps a \<noteq> [S_ObservedBefore]"
    using open_steps [OF assms] by (elim disjE conjE; simp)+
qed

lemma push_preparation_grows:
  assumes ok: "field_ok f" and a: "fp_preparation f = Some a" and s: "step_allowed (last (at_steps a)) s" and r: "fp_recovery f = []"
  shows "field_grows f (push_current False s f)" (is "field_grows f ?g")
proof -
  have "attempt_valid False a" using ok a by (simp add: field_ok_def field_shape_def)
  note v = push_valid [OF this s]
  have g: "fp_preparation ?g = Some (push_step s a)" "fp_recovery ?g = []" using a r by (simp_all add: push_current_def)
  moreover have "pstat f \<noteq> Some S_Accepted" using v(2) a by (auto simp: pstat_def)
  moreover have "field_events ?g = Suc (field_events f)" using a r g by (simp add: field_events_def push_step_def)
  ultimately show ?thesis using v(1) r by (simp add: field_grows_def field_ok_def field_shape_def rstat_def)
qed

lemma push_recovery_grows:
  assumes ok: "field_ok f" and r: "fp_recovery f \<noteq> []" and s: "step_allowed (last (at_steps (last (fp_recovery f)))) s"
  shows "field_grows f (push_current True s f)" (is "field_grows f ?g")
proof -
  obtain as a where as: "fp_recovery f = as @ [a]" using r by (cases "fp_recovery f" rule: rev_cases) auto
  then have "attempt_valid True a" "step_allowed (last (at_steps a)) s" using ok s by (simp_all add: field_ok_def field_shape_def)
  note v = push_valid [OF this]
  have g: "fp_preparation ?g = fp_preparation f" "fp_recovery ?g = as @ [push_step s a]" using as by (simp_all add: push_current_def)
  then have "pstat ?g = pstat f" "owns_restore ?g = owns_restore f" by (simp_all add: pstat_def owns_restore_def preparation_status_def)
  moreover have "\<not> is_back f" using v(2) as by (auto simp: rstat_def)
  moreover have "owns_restore f = Some True" using ok as v(3) by (auto simp: field_ok_def field_shape_def)
  moreover have "field_events ?g = Suc (field_events f)" using as g by (simp add: field_events_def push_step_def)
  ultimately show ?thesis using ok v(1) as g by (auto simp: field_grows_def field_ok_def field_shape_def)
qed

text \<open>On a state that satisfies the invariant no operation panics, and each is a test and an update.\<close>

lemma take_pure:
  assumes inv: "journal_inv p0 p" and t: "\<And>f. sound f \<Longrightarrow> t f = Some (g f)"
  shows "any_opt (\<lambda>f. map_option Not (t f)) (take i (pv_fields p)) = Some (\<not> (\<forall>j < min i (length (pv_fields p)). g (pv_fields p ! j)))"
proof -
  have "any_opt (\<lambda>f. map_option Not (t f)) (take i (pv_fields p)) = Some (\<exists>f \<in> set (take i (pv_fields p)). \<not> g f)"
    by (rule any_opt_pure) (use t journal_inv_sound [OF inv] in_set_takeD in \<open>metis option.map(2)\<close>)
  also have "(\<exists>f \<in> set (take i (pv_fields p)). \<not> g f) \<longleftrightarrow> \<not> (\<forall>j < min i (length (pv_fields p)). g (pv_fields p ! j))"
    using all_set_conv_all_nth [of "take i (pv_fields p)" g] by (simp add: min.commute) blast
  finally show ?thesis .
qed

lemma nth_ok: "journal_inv p0 p \<Longrightarrow> i < length (pv_fields p) \<Longrightarrow> field_ok (pv_fields p ! i) \<and> sound (pv_fields p ! i)"
  using field_ok_sound by (simp add: journal_inv_def)

lemma journal_uncertain: "journal_inv p0 p \<Longrightarrow> prov_uncertain p = Some (\<exists>f \<in> set (pv_fields p). hazy f)"
  by (rule uncertain_pure) (rule journal_inv_sound)

definition prepared_before :: "nat \<Rightarrow> FieldProvenance list \<Rightarrow> bool" where
  "prepared_before i fs \<longleftrightarrow> (\<forall>j < min i (length fs). pstat (fs ! j) = Some S_Accepted)"

definition restored_before :: "nat \<Rightarrow> FieldProvenance list \<Rightarrow> bool" where
  "restored_before i fs \<longleftrightarrow> (\<forall>j < min i (length fs). is_back (fs ! j))"

lemma take_owns: "journal_inv p0 p \<Longrightarrow>
    any_opt (\<lambda>f. map_option Not (owns_restore f)) (take i (pv_fields p)) = Some (\<not> prepared_before i (pv_fields p))"
  using take_pure [where t = owns_restore and g = "\<lambda>f. pstat f = Some S_Accepted", OF _ sound_status(3)] by (simp add: prepared_before_def)

lemma take_restored: "journal_inv p0 p \<Longrightarrow>
    any_opt (\<lambda>f. map_option Not (restored f)) (take i (pv_fields p)) = Some (\<not> restored_before i (pv_fields p))"
  using take_pure [where t = restored and g = "\<lambda>f. is_back f", OF _ sound_status(4)] by (simp add: restored_before_def)

abbreviation no_recovery :: "Provenance \<Rightarrow> bool" where
  "no_recovery p \<equiv> \<forall>f \<in> set (pv_fields p). fp_recovery f = []"

abbreviation new_attempt :: "JournalFence \<Rightarrow> JournalStep \<Rightarrow> JournalAttempt" where
  "new_attempt fence s \<equiv> \<lparr>at_fence = fence, at_steps = [s]\<rparr>"

lemma begin_preparation_pure:
  assumes "journal_inv p0 p"
  shows "begin_preparation i fence p = Some
    (if fence_valid fence \<and> no_recovery p \<and> prepared_before i (pv_fields p) \<and> i < length (pv_fields p) \<and> fp_preparation (pv_fields p ! i) = None
     then put_field i (fp_preparation_update (\<lambda>_. Some (new_attempt fence S_Intent))) p else Err P_Transition)"
  using take_owns [OF assms, of i] by (auto simp: begin_preparation_def not_le not_less)

definition may_retry :: "FieldProvenance \<Rightarrow> bool" where
  "may_retry f \<longleftrightarrow> (rstat f = None \<or> refused (rstat f)) \<and> length (fp_recovery f) < MAX_RECOVERY_ATTEMPTS"

lemma begin_recovery_pure:
  assumes inv: "journal_inv p0 p"
  shows "begin_recovery i fence p = Some
    (if fence_valid fence \<and> (\<forall>f \<in> set (pv_fields p). \<not> hazy f) \<and> restored_before i (pv_fields p) \<and> i < length (pv_fields p) \<and>
        pstat (pv_fields p ! i) = Some S_Accepted \<and> may_retry (pv_fields p ! i)
     then put_field i (\<lambda>f. f\<lparr>fp_recovery := fp_recovery f @ [new_attempt fence S_Intent]\<rparr>) p else Err P_Transition)"
proof (cases "i < length (pv_fields p)")
  case True
  note f = sound_status [OF nth_ok [OF inv True, THEN conjunct2]]
  show ?thesis
    by (simp add: begin_recovery_def journal_uncertain [OF inv] take_restored [OF inv] f True [unfolded not_le [symmetric]] True may_retry_def Let_def
        not_le [of MAX_RECOVERY_ATTEMPTS])
qed (use take_restored [OF inv, of i] in \<open>simp add: begin_recovery_def journal_uncertain [OF inv]\<close>)

lemma observed_before_pure:
  assumes inv: "journal_inv p0 p"
  shows "observed_before i fence p = Some
    (if fence_valid fence \<and> restored_before i (pv_fields p) \<and> i < length (pv_fields p) \<and>
        \<not> unclear (pstat (pv_fields p ! i)) \<and> may_retry (pv_fields p ! i)
     then put_field i (\<lambda>f. f\<lparr>fp_recovery := fp_recovery f @ [new_attempt fence S_ObservedBefore]\<rparr>) p else Err P_Transition)"
proof (cases "i < length (pv_fields p)")
  case True
  note f = sound_status [OF nth_ok [OF inv True, THEN conjunct2]]
  show ?thesis
    by (simp add: observed_before_def take_restored [OF inv] f True [unfolded not_le [symmetric]] True may_retry_def Let_def not_le [of MAX_RECOVERY_ATTEMPTS]) auto
qed (use take_restored [OF inv, of i] in \<open>simp add: observed_before_def\<close>)

lemma advance_step_pure:
  assumes inv: "journal_inv p0 p"
  shows "advance_step i recovery s p = Some
    (if (recovery \<or> no_recovery p) \<and> i < length (pv_fields p) \<and>
        (\<exists>a. current_attempt recovery (pv_fields p ! i) = Some a \<and> step_allowed (last (at_steps a)) s)
     then put_field i (push_current recovery s) p else Err P_Transition)"
proof (cases "i < length (pv_fields p)")
  case True
  have "attempt_status a = Some (last (at_steps a))" if "current_attempt recovery (pv_fields p ! i) = Some a" for a
    using nth_ok [OF inv True] that by (auto simp: current_attempt_def attempt_status_def sound_def split: if_splits)
  then show ?thesis
    using True by (auto simp: advance_step_def split: option.split)
qed (auto simp: advance_step_def)

lemma complete_provenance_pure:
  assumes inv: "journal_inv p0 p"
  shows "complete_provenance p = Some
    (if \<forall>f \<in> set (pv_fields p). \<not> hazy f \<and> is_back f then and_then (bump p) (\<lambda>q. Ok (q\<lparr>pv_completed := True\<rparr>)) else Err P_Transition)"
proof -
  have "all_opt restored (pv_fields p) = Some (\<forall>f \<in> set (pv_fields p). is_back f)"
    by (rule all_opt_pure) (rule sound_status(4), rule journal_inv_sound [OF inv])
  then show ?thesis by (auto simp: complete_provenance_def journal_uncertain [OF inv])
qed

lemmas pure_operations = begin_preparation_pure begin_recovery_pure observed_before_pure advance_step_pure complete_provenance_pure

text \<open>What one step changes: a field field_grows, or the journal is completed.\<close>

definition grown_field :: "Provenance \<Rightarrow> nat \<Rightarrow> FieldProvenance \<Rightarrow> bool" where
  "grown_field p i g \<longleftrightarrow> i < length (pv_fields p) \<and> field_grows (pv_fields p ! i) g \<and> field_extension (\<not> no_recovery p) (pv_fields p ! i) g \<and>
     (fp_preparation g \<noteq> None \<longrightarrow> prepared_before i (pv_fields p)) \<and> (fp_recovery g \<noteq> [] \<longrightarrow> restored_before i (pv_fields p))"

lemma in_order_before:
  assumes "journal_inv p0 p" "i < length (pv_fields p)"
  shows "fp_preparation (pv_fields p ! i) \<noteq> None \<Longrightarrow> prepared_before i (pv_fields p)"
    "fp_recovery (pv_fields p ! i) \<noteq> [] \<Longrightarrow> restored_before i (pv_fields p)"
  using assms by (auto simp: journal_inv_def in_order_def prepared_before_def restored_before_def)

lemma extension_refl: "list_all (\<lambda>(a, b). attempt_extension (Some a) (Some b)) (zip as as)"
  by (induction as) (simp_all add: attempt_extension_def)

lemma extension_push: "attempt_extension (Some a) (Some (push_step s a))"
  by (simp add: attempt_extension_def push_step_def)

lemma append_extension:
  assumes "fence_valid fence" "s = S_Intent \<or> s = S_ObservedBefore"
  shows "field_extension r f (f\<lparr>fp_recovery := fp_recovery f @ [new_attempt fence s]\<rparr>)"
  using assms extension_refl [of "fp_recovery f"]
  by (auto simp: field_extension_def zip_append2 attempt_valid_def attempt_extension_def split: option.split)

lemma push_extension:
  assumes "current_attempt r f = Some a" "r \<or> \<not> b"
  shows "field_extension b f (push_current r s f)"
proof (cases r)
  case True
  then obtain as where as: "fp_recovery f = as @ [a]" using assms(1)
    by (cases "fp_recovery f" rule: rev_cases) (auto simp: current_attempt_def)
  show ?thesis using True extension_refl [of as] extension_push [of a s]
    by (simp add: field_extension_def push_current_def as attempt_extension_def [of "fp_preparation f"] split: option.split)
next
  case False
  then show ?thesis using assms extension_refl [of "fp_recovery f"] extension_push [of a s]
    by (simp add: field_extension_def push_current_def current_attempt_def)
qed

lemma prepare_grown:
  assumes inv: "journal_inv p0 p" and "fence_valid fence" "no_recovery p" "prepared_before i (pv_fields p)"
    and i: "i < length (pv_fields p)" and "fp_preparation (pv_fields p ! i) = None"
  shows "grown_field p i (fp_preparation_update (\<lambda>_. Some (new_attempt fence S_Intent)) (pv_fields p ! i))"
proof -
  have "fp_recovery (pv_fields p ! i) = []" using assms(3) i by simp
  then show ?thesis using prepare_grows [of "pv_fields p ! i" fence] assms
    by (simp add: grown_field_def field_extension_def attempt_extension_def)
qed

lemma attempt_grown:
  assumes inv: "journal_inv p0 p" and "fence_valid fence" "restored_before i (pv_fields p)" and i: "i < length (pv_fields p)"
    and "\<not> unclear (pstat (pv_fields p ! i))" "may_retry (pv_fields p ! i)"
    and "s = S_Intent \<and> pstat (pv_fields p ! i) = Some S_Accepted \<or> s = S_ObservedBefore"
  shows "grown_field p i ((pv_fields p ! i)\<lparr>fp_recovery := fp_recovery (pv_fields p ! i) @ [new_attempt fence s]\<rparr>)"
proof -
  have "field_grows (pv_fields p ! i) ((pv_fields p ! i)\<lparr>fp_recovery := fp_recovery (pv_fields p ! i) @ [new_attempt fence s]\<rparr>)"
    using assms nth_ok [OF inv i] by (intro attempt_grows) (simp_all add: may_retry_def)
  then show ?thesis using assms append_extension [of fence s] in_order_before(1) [OF inv i] by (auto simp: grown_field_def)
qed

lemma push_grown:
  assumes inv: "journal_inv p0 p" and i: "i < length (pv_fields p)" and "r \<or> no_recovery p"
    and a: "current_attempt r (pv_fields p ! i) = Some a" and s: "step_allowed (last (at_steps a)) s"
  shows "grown_field p i (push_current r s (pv_fields p ! i))"
proof -
  let ?f = "pv_fields p ! i"
  have ok: "field_ok ?f" using nth_ok [OF inv i] by simp
  have "field_grows ?f (push_current r s ?f)"
  proof (cases r)
    case True
    then have "fp_recovery ?f \<noteq> []" "last (fp_recovery ?f) = a" using a by (simp_all add: current_attempt_def split: if_splits)
    then show ?thesis using push_recovery_grows [OF ok] s True by simp
  next
    case False
    then have "fp_preparation ?f = Some a" "fp_recovery ?f = []" using a assms(3) i by (simp_all add: current_attempt_def)
    then show ?thesis using push_preparation_grows [OF ok _ s] False by simp
  qed
  moreover have "field_extension (\<not> no_recovery p) ?f (push_current r s ?f)"
    using assms(3) by (intro push_extension [OF a]) simp
  moreover have "fp_preparation (push_current r s ?f) \<noteq> None \<Longrightarrow> fp_preparation ?f \<noteq> None" by (simp add: push_current_def split: if_splits)
  moreover have "fp_recovery (push_current r s ?f) \<noteq> [] \<Longrightarrow> fp_recovery ?f \<noteq> []" using a by (cases r) (simp_all add: push_current_def current_attempt_def split: if_splits)
  ultimately show ?thesis using i in_order_before [OF inv i] unfolding grown_field_def by blast
qed

definition grown_journal :: "Provenance \<Rightarrow> Provenance \<Rightarrow> bool" where
  "grown_journal p q \<longleftrightarrow> (\<exists>i h. put_field i h p = Ok q \<and> grown_field p i (h (pv_fields p ! i)))"

definition completed_journal :: "Provenance \<Rightarrow> Provenance \<Rightarrow> bool" where
  "completed_journal p q \<longleftrightarrow> (\<forall>f \<in> set (pv_fields p). \<not> hazy f \<and> is_back f) \<and>
     (\<exists>n. bump p = Ok (p\<lparr>pv_revision := n\<rparr>) \<and> q = p\<lparr>pv_revision := n, pv_completed := True\<rparr>)"

lemma journal_step_change:
  assumes inv: "journal_inv p0 p" and step: "journal_step p q"
  shows "grown_journal p q \<or> completed_journal p q"
  using step
proof cases
  case (prepares i fence)
  then have "grown_journal p q" using prepare_grown [OF inv]
    unfolding grown_journal_def begin_preparation_pure [OF inv] by (auto split: if_splits)
  then show ?thesis ..
next
  case (recovers i fence)
  then have "grown_journal p q" using attempt_grown [OF inv, where s = S_Intent]
    unfolding grown_journal_def begin_recovery_pure [OF inv] by (fastforce split: if_splits)
  then show ?thesis ..
next
  case (advances i recovery s)
  then have "grown_journal p q" using push_grown [OF inv]
    unfolding grown_journal_def advance_step_pure [OF inv] by (fastforce split: if_splits)
  then show ?thesis ..
next
  case (observes i fence)
  then have "grown_journal p q" using attempt_grown [OF inv, where s = S_ObservedBefore]
    unfolding grown_journal_def observed_before_pure [OF inv] by (fastforce split: if_splits)
  then show ?thesis ..
next
  case completes
  then have "completed_journal p q"
    unfolding completed_journal_def complete_provenance_pure [OF inv] by (auto simp: bump_def split: if_splits option.splits)
  then show ?thesis ..
qed

lemma grown_inv:
  assumes inv: "journal_inv p0 p" and "grown_journal p q"
  shows "journal_inv p0 q"
proof -
  obtain i h where ih: "put_field i h p = Ok q" "grown_field p i (h (pv_fields p ! i))"
    using assms(2) by (auto simp: grown_journal_def)
  show ?thesis
    using ih(2) by (intro put_field_inv [OF inv ih(1)]) (auto simp: grown_field_def prepared_before_def restored_before_def)
qed

lemma completed_inv:
  assumes inv: "journal_inv p0 p" and "completed_journal p q"
  shows "journal_inv p0 q"
proof -
  obtain n where n: "\<not> pv_completed p" "checked_add (pv_revision p) 1 = Some n" "n \<le> MAX_REVISION"
    and q: "q = p\<lparr>pv_revision := n, pv_completed := True\<rparr>" and all: "\<forall>f \<in> set (pv_fields p). \<not> hazy f \<and> is_back f"
    using assms(2) by (auto simp: completed_journal_def bump_Ok)
  have "unat n = Suc (unat (pv_revision p))"
    using checked_sum [of "pv_revision p" 1] revision_small [OF inv] n(2) by auto
  then show ?thesis using inv n all by (simp add: journal_inv_def q hazy_def)
qed

lemma journal_step_inv: "journal_inv p0 p \<Longrightarrow> journal_step p q \<Longrightarrow> journal_inv p0 q"
  using journal_step_change grown_inv completed_inv by blast

lemma new_provenance_inv: "journal_inv (new_provenance digest text endpoint subject n) (new_provenance digest text endpoint subject n)"
  by (auto simp: journal_inv_def new_provenance_def field_ok_def field_shape_def pstat_def in_order_def total_events_def
      field_events_def sum_list_replicate MAX_RECOVERY_ATTEMPTS_def)

lemma journal_reachable_inv:
  assumes "journal_step\<^sup>*\<^sup>* (new_provenance digest text endpoint subject n) p"
  shows "journal_inv (new_provenance digest text endpoint subject n) p"
  using assms by (induction rule: rtranclp_induct) (rule new_provenance_inv, rule journal_step_inv)

section \<open>Steps are successors\<close>

lemma journal_events:
  assumes inv: "journal_inv p0 p"
  shows "prov_events p = Some (pv_revision p)"
proof -
  let ?c = "if pv_completed p then 1 else 0 :: u64"
  have r: "unat (pv_revision p) = unat ?c + total_events (pv_fields p)" using inv by (simp add: journal_inv_def)
  then obtain k where "count_fields ?c (pv_fields p) = Some k" "unat k = unat ?c + total_events (pv_fields p)"
    using count_fields_ok [of ?c "pv_fields p"] revision_small [OF inv] by auto
  then show ?thesis using r by (simp add: prov_events_def word_unat_eq_iff)
qed

lemma extended_self: "extended_fields r fs fs = Some 0"
  by (induction fs) simp_all

lemma extended_update:
  "i < length fs \<Longrightarrow> fs ! i \<noteq> g \<Longrightarrow> field_extension r (fs ! i) g \<Longrightarrow> extended_fields r fs (fs[i := g]) = Some 1"
proof (induction fs arbitrary: i)
  case (Cons f fs)
  then show ?case by (cases i) (simp_all add: extended_self)
qed simp

lemma grown_successor:
  assumes inv: "journal_inv p0 p" and grown: "grown_journal p q"
  shows "prov_successor p q = Some (Ok ())"
proof -
  obtain i h where ih: "put_field i h p = Ok q" and g: "grown_field p i (h (pv_fields p ! i))"
    using grown by (auto simp: grown_journal_def)
  then obtain n where n: "\<not> pv_completed p" "checked_add (pv_revision p) 1 = Some n"
    and q: "q = p\<lparr>pv_revision := n, pv_fields := (pv_fields p)[i := h (pv_fields p ! i)]\<rparr>" by (auto simp: put_field_Ok)
  have "pv_fields p ! i \<noteq> h (pv_fields p ! i)" using g by (auto simp: grown_field_def field_grows_def)
  then have "extended_fields (\<not> no_recovery p) (pv_fields p) (pv_fields q) = Some 1"
    using extended_update g by (simp add: q grown_field_def)
  then show ?thesis
    using journal_events [OF inv] journal_events [OF grown_inv [OF inv grown]] n by (simp add: prov_successor_def q)
qed

lemma completed_successor:
  assumes inv: "journal_inv p0 p" and completed: "completed_journal p q"
  shows "prov_successor p q = Some (Ok ())"
proof -
  note qinv = completed_inv [OF assms]
  obtain n where n: "\<not> pv_completed p" "checked_add (pv_revision p) 1 = Some n"
    and q: "q = p\<lparr>pv_revision := n, pv_completed := True\<rparr>" and all: "\<forall>f \<in> set (pv_fields p). \<not> hazy f \<and> is_back f"
    using completed by (auto simp: completed_journal_def bump_Ok)
  have "all_opt restored (pv_fields q) = Some (\<forall>f \<in> set (pv_fields q). is_back f)"
    by (rule all_opt_pure) (rule sound_status(4), rule journal_inv_sound [OF qinv])
  moreover have "prov_uncertain q = Some False" using all journal_uncertain [OF qinv] by (simp add: q)
  ultimately show ?thesis
    using journal_events [OF inv] journal_events [OF qinv] n all by (simp add: prov_successor_def q extended_self)
qed

section \<open>An unknown outcome is final\<close>

lemma unknown_extends:
  assumes "attempt_valid r a" "last (at_steps a) = S_Unknown" "attempt_valid r b" "attempt_extension (Some a) (Some b)"
  shows "b = a"
proof -
  have "length (at_steps a) = 3" using assms(1,2) by (auto simp: attempt_valid_def)
  moreover have "length (at_steps b) \<le> 3" using assms(3) by (auto simp: attempt_valid_def)
  ultimately show ?thesis using assms(4) by (auto simp: attempt_extension_def)
qed

lemma unknown_preparation_kept:
  assumes f: "field_ok f" "pstat f = Some S_Unknown" and g: "field_ok g" "field_extension r f g"
  shows "pstat g = Some S_Unknown"
proof -
  obtain a where a: "fp_preparation f = Some a" "last (at_steps a) = S_Unknown" using f(2) by (auto simp: pstat_def)
  obtain b where b: "fp_preparation g = Some b" "attempt_extension (Some a) (Some b)"
    using g(2) a(1) by (auto simp: field_extension_def attempt_extension_def split: option.splits)
  have "b = a" using f(1) g(1) a b by (intro unknown_extends [where r = False]) (simp_all add: field_ok_def field_shape_def)
  then show ?thesis using a b by (simp add: pstat_def)
qed

lemma unknown_recovery_kept:
  assumes f: "field_ok f" "rstat f = Some S_Unknown" and g: "field_ok g" "field_extension r f g"
  shows "rstat g = Some S_Unknown"
proof -
  obtain as a where a: "fp_recovery f = as @ [a]" "last (at_steps a) = S_Unknown"
    using f(2) by (cases "fp_recovery f" rule: rev_cases) (auto simp: rstat_def)
  have ext: "list_all (\<lambda>(a, b). attempt_extension (Some a) (Some b)) (zip (fp_recovery f) (fp_recovery g))"
    "length as < length (fp_recovery g)" "length (fp_recovery g) \<le> length as + 2"
    using g(2) a(1) by (auto simp: field_extension_def)
  let ?b = "fp_recovery g ! length as"
  have "attempt_extension (Some a) (Some ?b)"
    using ext a(1) by (auto simp: list_all_length dest!: spec [of _ "length as"])
  moreover have "attempt_valid True a" "attempt_valid True ?b"
    using f(1) g(1) a(1) ext(2) by (auto simp: field_ok_def field_shape_def list_all_length)
  ultimately have b: "?b = a" using unknown_extends a(2) by blast
  have "length (fp_recovery g) = length as + 1"
  proof (rule ccontr)
    assume "length (fp_recovery g) \<noteq> length as + 1"
    then have l: "length as < length (butlast (fp_recovery g))" using ext by simp
    then have "refused (attempt_status (butlast (fp_recovery g) ! length as))"
      using g(1) by (auto simp: field_ok_def field_shape_def list_all_length)
    then show False using b a(2) l by (auto simp: nth_butlast attempt_status_def split: if_splits)
  qed
  then show ?thesis using b a(2) ext(2) by (auto simp: rstat_def last_conv_nth)
qed

lemma unknown_kept:
  assumes inv: "journal_inv p0 p" and step: "journal_step p q" and i: "i < length (pv_fields p)"
  shows "pstat (pv_fields p ! i) = Some S_Unknown \<Longrightarrow> pstat (pv_fields q ! i) = Some S_Unknown"
    "rstat (pv_fields p ! i) = Some S_Unknown \<Longrightarrow> rstat (pv_fields q ! i) = Some S_Unknown"
proof -
  have ok: "field_ok (pv_fields p ! i)" "field_ok (pv_fields q ! i)"
    using inv journal_step_inv [OF inv step] i by (simp_all add: journal_inv_def)
  have "pv_fields q ! i = pv_fields p ! i \<or> field_extension (\<not> no_recovery p) (pv_fields p ! i) (pv_fields q ! i)"
    using journal_step_change [OF inv step]
  proof
    assume "grown_journal p q"
    then obtain j h where "put_field j h p = Ok q" and g: "grown_field p j (h (pv_fields p ! j))" by (auto simp: grown_journal_def)
    then have "pv_fields q = (pv_fields p)[j := h (pv_fields p ! j)]" by (auto simp: put_field_Ok)
    then show ?thesis using g i by (cases "i = j") (simp_all add: grown_field_def)
  qed (auto simp: completed_journal_def)
  then show "pstat (pv_fields p ! i) = Some S_Unknown \<Longrightarrow> pstat (pv_fields q ! i) = Some S_Unknown"
    "rstat (pv_fields p ! i) = Some S_Unknown \<Longrightarrow> rstat (pv_fields q ! i) = Some S_Unknown"
    using unknown_preparation_kept [OF ok(1) _ ok(2)] unknown_recovery_kept [OF ok(1) _ ok(2)] by metis+
qed

lemma unknown_kept_always:
  assumes inv: "journal_inv p0 p" and steps: "journal_step\<^sup>*\<^sup>* p q" and i: "i < length (pv_fields p)"
  shows "journal_inv p0 q \<and> (pstat (pv_fields p ! i) = Some S_Unknown \<longrightarrow> pstat (pv_fields q ! i) = Some S_Unknown) \<and>
    (rstat (pv_fields p ! i) = Some S_Unknown \<longrightarrow> rstat (pv_fields q ! i) = Some S_Unknown)"
  using steps
proof (induction rule: rtranclp_induct)
  case (step q r)
  then have "journal_inv p0 q" "i < length (pv_fields q)" using inv i by (auto simp: journal_inv_def)
  then show ?case using unknown_kept [of p0 q r i] journal_step_inv step by blast
qed (simp add: inv)

section \<open>Guarantees\<close>

text \<open>A complete run of a journal with one field.\<close>

definition demo_digest :: "string \<Rightarrow> string \<Rightarrow> string" where
  "demo_digest domain bytes = domain @ bytes"

definition demo_text :: "json \<Rightarrow> string" where
  "demo_text j = ''{}''"

definition demo_fence :: JournalFence where
  "demo_fence = \<lparr>fn_generation = 1, fn_evidence = 5\<rparr>"

definition demo_journal :: "JournalStep list \<Rightarrow> JournalStep list \<Rightarrow> bool \<Rightarrow> Provenance" where
  "demo_journal ps rs completed = (new_provenance demo_digest demo_text ''ws'' JNull 1)
     \<lparr>pv_revision := of_nat (length ps + length rs + (if completed then 1 else 0)), pv_completed := completed,
      pv_fields := [\<lparr>fp_preparation = (if ps = [] then None else Some \<lparr>at_fence = demo_fence, at_steps = ps\<rparr>),
        fp_recovery = (if rs = [] then [] else [\<lparr>at_fence = demo_fence, at_steps = rs\<rparr>])\<rparr>]\<rparr>"

lemmas demo_simps = demo_journal_def demo_fence_def new_provenance_def put_field_def bump_def checked_add_def MAX_REVISION_def
  fence_valid_def MAX_RECOVERY_ATTEMPTS_def owns_restore_def restored_def preparation_status_def recovery_status_def attempt_status_def

lemma demo_new: "demo_journal [] [] False = new_provenance demo_digest demo_text ''ws'' JNull 1"
  by (simp add: demo_journal_def new_provenance_def)

lemma demo_prepares: "journal_step (demo_journal [] [] False) (demo_journal [S_Intent] [] False)"
  by (rule prepares [where i = 0 and fence = demo_fence]) (simp add: demo_simps begin_preparation_def)

lemma demo_advances:
  assumes "advance_step 0 recovery s (demo_journal ps rs False) = Some (Ok (demo_journal ps' rs' False))"
  shows "journal_step (demo_journal ps rs False) (demo_journal ps' rs' False)"
  using assms by (rule advances)

lemmas advance_simps = demo_simps advance_step_def current_attempt_def step_allowed_def push_current_def push_step_def

lemma demo_dispatches: "journal_step (demo_journal [S_Intent] [] False) (demo_journal [S_Intent, S_PossibleDispatch] [] False)"
  by (rule demo_advances [where recovery = False and s = S_PossibleDispatch]) (simp add: advance_simps)

lemma demo_accepted:
  "journal_step (demo_journal [S_Intent, S_PossibleDispatch] [] False) (demo_journal [S_Intent, S_PossibleDispatch, S_Accepted] [] False)"
  by (rule demo_advances [where recovery = False and s = S_Accepted]) (simp add: advance_simps)

lemma demo_unknown:
  "journal_step (demo_journal [S_Intent, S_PossibleDispatch] [] False) (demo_journal [S_Intent, S_PossibleDispatch, S_Unknown] [] False)"
  by (rule demo_advances [where recovery = False and s = S_Unknown]) (simp add: advance_simps)

lemma demo_observes:
  "journal_step (demo_journal [S_Intent, S_PossibleDispatch, S_Accepted] [] False)
     (demo_journal [S_Intent, S_PossibleDispatch, S_Accepted] [S_ObservedBefore] False)"
  by (rule observes [where i = 0 and fence = demo_fence]) (simp add: demo_simps observed_before_def Let_def)

lemma demo_completes:
  "journal_step (demo_journal [S_Intent, S_PossibleDispatch, S_Accepted] [S_ObservedBefore] False)
     (demo_journal [S_Intent, S_PossibleDispatch, S_Accepted] [S_ObservedBefore] True)"
  by (rule completes) (simp add: demo_simps complete_provenance_def prov_uncertain_def all_opt_def)

lemma demo_possible_run: "journal_step\<^sup>*\<^sup>* (demo_journal [] [] False) (demo_journal [S_Intent, S_PossibleDispatch] [] False)"
  using demo_prepares demo_dispatches by (meson r_into_rtranclp rtranclp_trans)

lemma demo_restored_run: "journal_step\<^sup>*\<^sup>* (demo_journal [] [] False)
    (demo_journal [S_Intent, S_PossibleDispatch, S_Accepted] [S_ObservedBefore] False)"
  using demo_possible_run demo_accepted demo_observes by (meson rtranclp.rtrancl_into_rtrancl)

text \<open>C23: every journal that the operations can produce from a new one passes the validation that is applied when it is
  read back, whatever the digest and the text of JSON values are, and no operation on it panics.\<close>

theorem journal_stays_valid:
  assumes "journal_step\<^sup>*\<^sup>* (new_provenance digest text endpoint subject n) p"
  shows "validate_provenance digest text endpoint subject n p = Some (Ok ()) \<and> begin_preparation i fence p \<noteq> None \<and>
    begin_recovery i fence p \<noteq> None \<and> advance_step i recovery s p \<noteq> None \<and> observed_before i fence p \<noteq> None \<and>
    complete_provenance p \<noteq> None"
  using journal_inv_validates [OF journal_reachable_inv [OF assms]]
  by (simp add: pure_operations [OF journal_reachable_inv [OF assms]])

theorem journal_stays_valid_witness:
  "validate_provenance demo_digest demo_text ''ws'' JNull 1
     (demo_journal [S_Intent, S_PossibleDispatch, S_Accepted] [S_ObservedBefore] True) = Some (Ok ())"
  by (rule journal_stays_valid [THEN conjunct1])
    (rule rtranclp.rtrancl_into_rtrancl [OF demo_restored_run [unfolded demo_new] demo_completes])

text \<open>C24: every step of a journal that started new is a successor of the state before it, so the check that guards the
  durable write accepts it: one event more, at most one field longer, nothing of the history rewritten.\<close>

theorem steps_are_successors:
  assumes "journal_step\<^sup>*\<^sup>* (new_provenance digest text endpoint subject n) p" and "journal_step p q"
  shows "prov_successor p q = Some (Ok ()) \<and> pv_revision q = pv_revision p + 1"
proof -
  note inv = journal_reachable_inv [OF assms(1)]
  have "pv_revision q = pv_revision p + 1"
    using journal_step_change [OF inv assms(2)]
    by (auto simp: grown_journal_def completed_journal_def put_field_Ok bump_Ok checked_add_def split: if_splits)
  then show ?thesis using journal_step_change [OF inv assms(2)] grown_successor [OF inv] completed_successor [OF inv] by blast
qed

theorem steps_are_successors_witness:
  "prov_successor (demo_journal [S_Intent, S_PossibleDispatch, S_Accepted] [S_ObservedBefore] False)
     (demo_journal [S_Intent, S_PossibleDispatch, S_Accepted] [S_ObservedBefore] True) = Some (Ok ())"
  by (rule steps_are_successors [OF demo_restored_run [unfolded demo_new] demo_completes, THEN conjunct1])

text \<open>C22: a request whose outcome is unknown keeps its field unknown for ever: no later step records it as accepted, the
  journal stays uncertain, is never completed, and starts no recovery of any field.\<close>

theorem unknown_is_final:
  assumes "journal_step\<^sup>*\<^sup>* (new_provenance digest text endpoint subject n) p" and "i < n"
    and "preparation_status (pv_fields p ! i) = Some (Some S_Unknown) \<or> recovery_status (pv_fields p ! i) = Some (Some S_Unknown)"
    and "journal_step\<^sup>*\<^sup>* p q"
  shows "(preparation_status (pv_fields p ! i) = Some (Some S_Unknown) \<longrightarrow> preparation_status (pv_fields q ! i) = Some (Some S_Unknown)) \<and>
    (recovery_status (pv_fields p ! i) = Some (Some S_Unknown) \<longrightarrow> recovery_status (pv_fields q ! i) = Some (Some S_Unknown)) \<and>
    prov_uncertain q = Some True \<and> \<not> pv_completed q \<and> complete_provenance q = Some (Err P_Transition) \<and>
    begin_recovery j fence q = Some (Err P_Transition)"
proof -
  note inv = journal_reachable_inv [OF assms(1)]
  have i: "i < length (pv_fields p)" using inv assms(2) by (simp add: journal_inv_def new_provenance_def)
  note kept = unknown_kept_always [OF inv assms(4) i]
  then have qinv: "journal_inv (new_provenance digest text endpoint subject n) q" and iq: "i < length (pv_fields q)"
    using i inv by (simp_all add: journal_inv_def)
  note f = sound_status(1,2) [OF nth_ok [OF inv i, THEN conjunct2]] and g = sound_status(1,2) [OF nth_ok [OF qinv iq, THEN conjunct2]]
  have u: "pstat (pv_fields q ! i) = Some S_Unknown \<or> rstat (pv_fields q ! i) = Some S_Unknown" using assms(3) f kept by auto
  then have h: "\<exists>f \<in> set (pv_fields q). hazy f" using iq nth_mem by (fastforce simp: hazy_def)
  have "\<not> pv_completed q"
  proof
    assume "pv_completed q"
    then have "is_back (pv_fields q ! i) \<and> \<not> unclear (pstat (pv_fields q ! i))" using qinv iq by (simp add: journal_inv_def)
    then show False using u by auto
  qed
  moreover have "prov_uncertain q = Some True" "complete_provenance q = Some (Err P_Transition)" "begin_recovery j fence q = Some (Err P_Transition)"
    using h journal_uncertain [OF qinv] complete_provenance_pure [OF qinv] begin_recovery_pure [OF qinv] by auto
  ultimately show ?thesis using kept f g by simp
qed

theorem unknown_is_final_witness:
  "complete_provenance (demo_journal [S_Intent, S_PossibleDispatch, S_Unknown] [] False) = Some (Err P_Transition)"
proof -
  have "journal_step\<^sup>*\<^sup>* (new_provenance demo_digest demo_text ''ws'' JNull 1) (demo_journal [S_Intent, S_PossibleDispatch, S_Unknown] [] False)"
    by (rule rtranclp.rtrancl_into_rtrancl [OF demo_possible_run [unfolded demo_new] demo_unknown])
  from unknown_is_final [OF this, of 0] show ?thesis by (simp add: demo_simps)
qed

text \<open>A journal read back from its file with an attempt that has no steps makes the validation panic, which it is there to refuse.\<close>

lemma empty_steps_panic:
  "validate_provenance demo_digest demo_text ''ws'' JNull 1
     ((demo_journal [] [] False)\<lparr>pv_fields := [\<lparr>fp_preparation = Some \<lparr>at_fence = demo_fence, at_steps = []\<rparr>, fp_recovery = []\<rparr>]\<rparr>) = None"
  by (simp add: validate_provenance_def demo_simps)

end
