(* ===== verification/Output_Events.thy ===== *)
theory Output_Events
  imports Json
begin

unbundle bit_operations_syntax

text \<open>
  First-terminal observations of outputs, \<open>src/native/src/output_events.rs\<close>: a caller that starts an output
  subscribes before it asks, and receives the first \<open>started\<close> or \<open>stopped\<close> event of that output that
  arrived in time, with the path it names. Subscriptions live in 32 slots of a registry that the observer
  of the connection feeds; copies of paths are charged to a pool of bytes.

  A cell is shared by a slot and its subscription, so cells are a list and both hold an index. A poisoned
  lock is a flag. \<open>receive\<close> is cut at each of its reads of shared state (\<open>receive_act\<close>), because the observer,
  the socket and the clock go on in between; \<open>out_step\<close> interleaves them all. The ghost \<open>ow_log\<close> lists every
  event the socket numbered, with the instant it was numbered at. Instants are natural numbers.
\<close>

section \<open>Kinds, terminals and errors\<close>

definition MAX_SUBSCRIPTIONS :: nat where
  "MAX_SUBSCRIPTIONS = 32"

definition PATH_BYTES :: nat where
  "PATH_BYTES = 8 * 1024 * 1024"

definition OUTPUT_EVENTS :: u64 where
  "OUTPUT_EVENTS = push_bit 6 1"

datatype OutputKind = Out_Record | Out_Stream | Out_VirtualCam | Out_ReplayBuffer

fun output_event_name :: "OutputKind \<Rightarrow> string" where
  "output_event_name Out_Record = ''RecordStateChanged''"
| "output_event_name Out_Stream = ''StreamStateChanged''"
| "output_event_name Out_VirtualCam = ''VirtualcamStateChanged''"
| "output_event_name Out_ReplayBuffer = ''ReplayBufferStateChanged''"

definition kind_from_event :: "string \<Rightarrow> OutputKind option" where
  "kind_from_event name = List.find (\<lambda>k. output_event_name k = name) [Out_Record, Out_Stream, Out_VirtualCam, Out_ReplayBuffer]"

datatype Terminal = Out_Started | Out_Stopped

datatype OutputEventError = OE_Capacity | OE_ByteCapacity | OE_PathTooLarge | OE_IdentityExhausted | OE_IncompleteEvents
  | OE_Unavailable | OE_Revoked | OE_ConfirmationExpired | OE_SettlementUnavailable

section \<open>The registry\<close>

record SeenEvent =
  ev_connection :: u64
  ev_sequence :: u64
  ev_type :: string
  ev_data :: "json option"
  ev_received :: nat

record OutputEvent =
  oe_connection :: u64
  oe_sequence :: u64
  oe_received :: nat
  oe_terminal :: Terminal
  oe_path :: "string option"

datatype CellOutcome = Pending_Cell | Ready_Cell "(OutputEventError, OutputEvent) result" | Consumed_Cell

record OutCell =
  cl_outcome :: CellOutcome
  cl_poisoned :: bool

record OutSlot =
  sl_id :: u64
  sl_kind :: OutputKind
  sl_after :: u64
  sl_registered :: nat
  sl_deadline :: nat
  sl_cell :: nat

record OutRegistry =
  rg_token :: u64
  rg_poisoned :: bool
  rg_active :: bool
  rg_next_id :: "u64 option"
  rg_slots :: "OutSlot option list"
  rg_cells :: "OutCell list"
  rg_paths :: nat
  rg_progress :: u64
  rg_version :: nat

definition new_out_registry :: "u64 \<Rightarrow> OutRegistry" where
  "new_out_registry token = \<lparr>rg_token = token, rg_poisoned = False, rg_active = True, rg_next_id = Some 1,
     rg_slots = replicate MAX_SUBSCRIPTIONS None, rg_cells = [], rg_paths = PATH_BYTES, rg_progress = 0, rg_version = 0\<rparr>"

definition set_outcome :: "nat \<Rightarrow> CellOutcome \<Rightarrow> OutRegistry \<Rightarrow> OutRegistry" where
  "set_outcome c out r = r\<lparr>rg_cells := (rg_cells r)[c := (rg_cells r ! c)\<lparr>cl_outcome := out\<rparr>]\<rparr>"

text \<open>The value of a ready cell is moved out of it.\<close>

definition cell_take :: "nat \<Rightarrow> OutRegistry \<Rightarrow>
    (OutputEventError, (OutputEventError, OutputEvent) result option) result \<times> OutRegistry" where
  "cell_take c r = (if cl_poisoned (rg_cells r ! c) then (Err OE_Unavailable, r)
     else (case cl_outcome (rg_cells r ! c) of Ready_Cell v \<Rightarrow> (Ok (Some v), set_outcome c Consumed_Cell r) | _ \<Rightarrow> (Ok None, r)))"

definition out_identity :: "OutRegistry \<Rightarrow> (OutputEventError, u64) result \<times> OutRegistry" where
  "out_identity r = (case rg_next_id r of None \<Rightarrow> (Err OE_IdentityExhausted, r)
     | Some n \<Rightarrow> (Ok n, r\<lparr>rg_next_id := checked_add n 1\<rparr>))"

record out_handle =
  oh_token :: u64
  oh_invalid :: bool
  oh_subscriptions :: u64

definition output_view :: "out_handle \<Rightarrow> OutRegistry \<Rightarrow> (OutputEventError, out_handle) result" where
  "output_view h r =
     (if oh_token h \<noteq> rg_token r \<or> oh_invalid h then Err OE_Revoked
      else if oh_subscriptions h AND OUTPUT_EVENTS \<noteq> OUTPUT_EVENTS then Err OE_IncompleteEvents
      else if rg_poisoned r then Err OE_Unavailable
      else if \<not> rg_active r then Err OE_Revoked
      else Ok h)"

section \<open>Publication\<close>

definition event_field :: "SeenEvent \<Rightarrow> string \<Rightarrow> string option" where
  "event_field ev k = Option.bind (ev_data ev) (\<lambda>d. Option.bind (get d k) as_str)"

definition event_terminal :: "SeenEvent \<Rightarrow> Terminal option" where
  "event_terminal ev = Option.bind (event_field ev ''outputState'') (\<lambda>s.
     if s = ''OBS_WEBSOCKET_OUTPUT_STARTED'' then Some Out_Started
     else if s = ''OBS_WEBSOCKET_OUTPUT_STOPPED'' then Some Out_Stopped else None)"

definition event_path :: "Terminal \<Rightarrow> SeenEvent \<Rightarrow> string option" where
  "event_path t ev = (if t = Out_Started then event_field ev ''outputPath'' else None)"

definition slot_wants :: "SeenEvent \<Rightarrow> OutputKind \<Rightarrow> OutSlot \<Rightarrow> bool" where
  "slot_wants ev k s \<longleftrightarrow> sl_kind s = k \<and> sl_after s < ev_sequence ev \<and> sl_registered s \<le> ev_received ev \<and> ev_received ev \<le> sl_deadline s"

definition lease_path :: "string option \<Rightarrow> OutRegistry \<Rightarrow> (OutputEventError, string option) result \<times> OutRegistry" where
  "lease_path path r = (case path of None \<Rightarrow> (Ok None, r)
     | Some text \<Rightarrow>
         if PATH_BYTES < length text then (Err OE_PathTooLarge, r)
         else if rg_paths r < length text then (Err OE_ByteCapacity, r)
         else (Ok (Some text), r\<lparr>rg_paths := rg_paths r - length text\<rparr>))"

definition seen_output :: "SeenEvent \<Rightarrow> Terminal \<Rightarrow> string option \<Rightarrow> OutputEvent" where
  "seen_output ev t path = \<lparr>oe_connection = ev_connection ev, oe_sequence = ev_sequence ev, oe_received = ev_received ev,
     oe_terminal = t, oe_path = path\<rparr>"

definition project_slot :: "SeenEvent \<Rightarrow> OutputKind \<Rightarrow> Terminal \<Rightarrow> OutSlot \<Rightarrow> OutRegistry \<Rightarrow> OutRegistry" where
  "project_slot ev k t s r =
     (if \<not> slot_wants ev k s \<or> cl_poisoned (rg_cells r ! sl_cell s) \<or> cl_outcome (rg_cells r ! sl_cell s) \<noteq> Pending_Cell then r
      else (case lease_path (event_path t ev) r of
          (Err e, r1) \<Rightarrow> set_outcome (sl_cell s) (Ready_Cell (Err e)) r1
        | (Ok path, r1) \<Rightarrow> set_outcome (sl_cell s) (Ready_Cell (Ok (seen_output ev t path))) r1))"

fun each_slot :: "(OutSlot \<Rightarrow> OutRegistry \<Rightarrow> OutRegistry) \<Rightarrow> OutSlot option list \<Rightarrow> OutRegistry \<Rightarrow> OutRegistry" where
  "each_slot f [] r = r"
| "each_slot f (None # ss) r = each_slot f ss r"
| "each_slot f (Some s # ss) r = each_slot f ss (f s r)"

definition announce :: "OutRegistry \<Rightarrow> OutRegistry" where
  "announce r = r\<lparr>rg_version := Suc (rg_version r)\<rparr>"

definition publish_output :: "SeenEvent \<Rightarrow> OutRegistry \<Rightarrow> OutRegistry" where
  "publish_output ev r =
     (if rg_poisoned r then announce r
      else if \<not> rg_active r \<or> ev_connection ev \<noteq> rg_token r then r
      else (let r1 = (case (kind_from_event (ev_type ev), event_terminal ev) of
                (Some k, Some t) \<Rightarrow> each_slot (project_slot ev k t) (rg_slots r) r
              | _ \<Rightarrow> r)
            in announce (r1\<lparr>rg_progress := ev_sequence ev\<rparr>)))"

definition revoke_slot :: "OutSlot \<Rightarrow> OutRegistry \<Rightarrow> OutRegistry" where
  "revoke_slot s r = (if \<not> cl_poisoned (rg_cells r ! sl_cell s) \<and> cl_outcome (rg_cells r ! sl_cell s) = Pending_Cell
     then set_outcome (sl_cell s) (Ready_Cell (Err OE_Revoked)) r else r)"

definition revoke_outputs :: "OutRegistry \<Rightarrow> OutRegistry" where
  "revoke_outputs r = announce (if rg_poisoned r then r
     else each_slot revoke_slot (rg_slots r) (r\<lparr>rg_active := False\<rparr>))"

text \<open>A freed slot also frees its cell once the subscription is gone, and with it the bytes of an event nobody took.\<close>

definition cell_bytes :: "OutCell \<Rightarrow> nat" where
  "cell_bytes c = (case cl_outcome c of Ready_Cell (Ok e) \<Rightarrow> (case oe_path e of None \<Rightarrow> 0 | Some p \<Rightarrow> length p) | _ \<Rightarrow> 0)"

definition free_cell :: "nat \<Rightarrow> OutRegistry \<Rightarrow> OutRegistry" where
  "free_cell c r = (set_outcome c Consumed_Cell r)\<lparr>rg_paths := rg_paths r + cell_bytes (rg_cells r ! c)\<rparr>"

definition unregister_output :: "nat \<Rightarrow> u64 \<Rightarrow> nat \<Rightarrow> OutRegistry \<Rightarrow> OutRegistry" where
  "unregister_output i n c r =
     (if rg_poisoned r then r
      else if map_option sl_id (rg_slots r ! i) = Some n then free_cell c (r\<lparr>rg_slots := (rg_slots r)[i := None]\<rparr>)
      else r)"

section \<open>Subscriptions\<close>

datatype receive_pc = R_Idle | R_Take | R_Alive | R_Clock | R_Cutoff nat | R_Projected nat | R_Again | R_Settle nat | R_Wait nat
  | R_Closed | R_Done "(OutputEventError, OutputEvent) result" | R_Gone "OutputEvent option"

record OutputSubscription =
  su_slot :: OutSlot
  su_index :: nat
  su_settlement :: nat
  su_seen :: nat
  su_cutoff :: "u64 option"
  su_pc :: receive_pc

text \<open>\<open>subscribe\<close>: \<open>alive\<close> tells whether the registry still exists, \<open>cursor\<close> and \<open>now\<close> are what is read under its lock.\<close>

definition subscribe_output :: "bool \<Rightarrow> out_handle \<Rightarrow> u64 \<Rightarrow> nat \<Rightarrow> OutputKind \<Rightarrow> nat \<Rightarrow> OutRegistry \<Rightarrow>
    (OutputEventError, OutputSubscription) result \<times> OutRegistry" where
  "subscribe_output alive h cursor now kind deadline r =
     (if \<not> alive then (Err OE_Revoked, r)
      else if rg_poisoned r then (Err OE_Unavailable, r)
      else if \<not> rg_active r \<or> oh_invalid h \<or> oh_token h \<noteq> rg_token r then (Err OE_Revoked, r)
      else (case position (\<lambda>s. s = None) (rg_slots r) of None \<Rightarrow> (Err OE_Capacity, r)
        | Some i \<Rightarrow> (case out_identity r of (Err e, r1) \<Rightarrow> (Err e, r1)
            | (Ok n, r1) \<Rightarrow>
                (let s = \<lparr>sl_id = n, sl_kind = kind, sl_after = cursor, sl_registered = now, sl_deadline = deadline,
                       sl_cell = length (rg_cells r1)\<rparr>
                 in (Ok \<lparr>su_slot = s, su_index = i, su_settlement = 0, su_seen = rg_version r1, su_cutoff = None, su_pc = R_Idle\<rparr>,
                     r1\<lparr>rg_slots := (rg_slots r1)[i := Some s],
                        rg_cells := rg_cells r1 @ [\<lparr>cl_outcome = Pending_Cell, cl_poisoned = False\<rparr>]\<rparr>)))))"

section \<open>The world\<close>

record out_world =
  ow_registry :: OutRegistry
  ow_alive :: bool
  ow_handle :: out_handle
  ow_cursor :: u64
  ow_now :: nat
  ow_stamped :: "(string \<times> json option \<times> nat) option"
  ow_broken :: bool
  ow_queue :: "SeenEvent list"
  ow_log :: "(SeenEvent \<times> nat) list"
  ow_subs :: "OutputSubscription list"

definition with_sub :: "nat \<Rightarrow> (OutputSubscription \<Rightarrow> OutputSubscription) \<Rightarrow> out_world \<Rightarrow> out_world" where
  "with_sub k f w = w\<lparr>ow_subs := (ow_subs w)[k := f (ow_subs w ! k)]\<rparr>"

abbreviation goto :: "nat \<Rightarrow> receive_pc \<Rightarrow> out_world \<Rightarrow> out_world" where
  "goto k pc w \<equiv> with_sub k (\<lambda>s. s\<lparr>su_pc := pc\<rparr>) w"

text \<open>A look into the cell: continue at \<open>next\<close> if there is nothing yet.\<close>

definition look_cell :: "nat \<Rightarrow> receive_pc \<Rightarrow> out_world \<Rightarrow> out_world" where
  "look_cell k next w =
     (case cell_take (sl_cell (su_slot (ow_subs w ! k))) (ow_registry w) of
        (Err e, r) \<Rightarrow> goto k (R_Done (Err e)) (w\<lparr>ow_registry := r\<rparr>)
      | (Ok None, r) \<Rightarrow> goto k next (w\<lparr>ow_registry := r\<rparr>)
      | (Ok (Some v), r) \<Rightarrow> goto k (R_Done v) (w\<lparr>ow_registry := r\<rparr>))"

definition wait_until :: "OutputSubscription \<Rightarrow> nat" where
  "wait_until s = (if su_cutoff s \<noteq> None then su_settlement s else min (sl_deadline (su_slot s)) (su_settlement s))"

text \<open>What a receive does next, up to its next read of shared state.\<close>

definition receive_act :: "nat \<Rightarrow> out_world \<Rightarrow> out_world" where
  "receive_act k w = (let s = ow_subs w ! k in case su_pc s of
     R_Take \<Rightarrow> look_cell k R_Alive w
   | R_Alive \<Rightarrow> goto k (if oh_invalid (ow_handle w) \<or> \<not> ow_alive w then R_Done (Err OE_Revoked) else R_Clock) w
   | R_Clock \<Rightarrow> goto k (if sl_deadline (su_slot s) \<le> ow_now w then R_Cutoff (ow_now w) else R_Settle (ow_now w)) w
   | R_Cutoff now \<Rightarrow> with_sub k (\<lambda>s. s\<lparr>su_cutoff := Some (case su_cutoff s of None \<Rightarrow> ow_cursor w | Some c \<Rightarrow> c), su_pc := R_Projected now\<rparr>) w
   | R_Projected now \<Rightarrow> goto k (if the (su_cutoff s) \<le> rg_progress (ow_registry w) then R_Again else R_Settle now) w
   | R_Again \<Rightarrow> look_cell k (R_Done (Err OE_ConfirmationExpired)) w
   | R_Settle now \<Rightarrow> goto k (if su_settlement s \<le> now then R_Done (Err OE_SettlementUnavailable) else R_Wait (wait_until s)) w
   | R_Wait d \<Rightarrow>
       if su_seen s \<noteq> rg_version (ow_registry w) then with_sub k (\<lambda>s. s\<lparr>su_seen := rg_version (ow_registry w), su_pc := R_Take\<rparr>) w
       else if \<not> ow_alive w then goto k R_Closed w
       else if d \<le> ow_now w then goto k R_Take w
       else w
   | R_Closed \<Rightarrow> look_cell k (R_Done (Err OE_Revoked)) w
   | _ \<Rightarrow> w)"

text \<open>The subscription is dropped: a finished receive hands its event over, anything else is abandoned.\<close>

definition drop_sub :: "nat \<Rightarrow> out_world \<Rightarrow> out_world" where
  "drop_sub k w = (let s = ow_subs w ! k;
       r = (if ow_alive w then unregister_output (su_index s) (sl_id (su_slot s)) (sl_cell (su_slot s)) (ow_registry w)
         else free_cell (sl_cell (su_slot s)) (ow_registry w))
     in goto k (R_Gone (case su_pc s of R_Done (Ok e) \<Rightarrow> Some e | _ \<Rightarrow> None)) (w\<lparr>ow_registry := r\<rparr>))"

definition event_bytes :: "OutputEvent option \<Rightarrow> nat" where
  "event_bytes e = (case Option.bind e oe_path of None \<Rightarrow> 0 | Some p \<Rightarrow> length p)"

definition drop_event :: "nat \<Rightarrow> OutputEvent \<Rightarrow> out_world \<Rightarrow> out_world" where
  "drop_event k e w = goto k (R_Gone None) (w\<lparr>ow_registry := (ow_registry w)\<lparr>rg_paths := rg_paths (ow_registry w) + event_bytes (Some e)\<rparr>\<rparr>)"

text \<open>The socket numbers the event it stamped before; \<open>kept\<close> tells whether the consumer's queue took it.\<close>

definition number_event :: "bool \<Rightarrow> out_world \<Rightarrow> out_world option" where
  "number_event kept w = (case (ow_stamped w, checked_add (ow_cursor w) 1) of
     (Some (t, d, stamp), Some n) \<Rightarrow>
       (let ev = \<lparr>ev_connection = oh_token (ow_handle w), ev_sequence = n, ev_type = t, ev_data = d, ev_received = stamp\<rparr>
        in Some (w\<lparr>ow_cursor := n, ow_stamped := None, ow_broken := ow_broken w \<or> \<not> kept, ow_log := ow_log w @ [(ev, ow_now w)],
             ow_queue := (if kept then ow_queue w @ [ev] else ow_queue w)\<rparr>))
   | _ \<Rightarrow> None)"

inductive out_step :: "out_world \<Rightarrow> out_world \<Rightarrow> bool" where
  ticks: "ow_now w \<le> t \<Longrightarrow> out_step w (w\<lparr>ow_now := t\<rparr>)"
| stamps: "ow_stamped w = None \<Longrightarrow> \<not> ow_broken w \<Longrightarrow> out_step w (w\<lparr>ow_stamped := Some (t, d, ow_now w)\<rparr>)"
| numbers: "number_event kept w = Some v \<Longrightarrow> out_step w v"
| invalidates: "out_step w (w\<lparr>ow_handle := (ow_handle w)\<lparr>oh_invalid := True\<rparr>, ow_broken := True\<rparr>)"
| projects: "ow_alive w \<Longrightarrow> ow_queue w = ev # q \<Longrightarrow> out_step w (w\<lparr>ow_queue := q, ow_registry := publish_output ev (ow_registry w)\<rparr>)"
| revokes: "ow_alive w \<Longrightarrow> out_step w (w\<lparr>ow_registry := revoke_outputs (ow_registry w)\<rparr>)"
| ends: "out_step w (w\<lparr>ow_alive := False\<rparr>)"
| poisons: "out_step w (w\<lparr>ow_registry := (ow_registry w)\<lparr>rg_poisoned := True\<rparr>\<rparr>)"
| poisons_cell: "c < length (rg_cells (ow_registry w)) \<Longrightarrow>
    out_step w (w\<lparr>ow_registry := (ow_registry w)\<lparr>rg_cells := (rg_cells (ow_registry w))[c := (rg_cells (ow_registry w) ! c)\<lparr>cl_poisoned := True\<rparr>]\<rparr>\<rparr>)"
| subscribes: "ow_now w \<le> t \<Longrightarrow> subscribe_output (ow_alive w) (ow_handle w) (ow_cursor w) t kind deadline (ow_registry w) = (Ok s, r) \<Longrightarrow>
    out_step w (w\<lparr>ow_registry := r, ow_subs := ow_subs w @ [s]\<rparr>)"
| refuses: "subscribe_output (ow_alive w) (ow_handle w) (ow_cursor w) t kind deadline (ow_registry w) = (Err e, r) \<Longrightarrow>
    out_step w (w\<lparr>ow_registry := r\<rparr>)"
| calls: "k < length (ow_subs w) \<Longrightarrow> su_pc (ow_subs w ! k) = R_Idle \<Longrightarrow>
    out_step w (with_sub k (\<lambda>s. s\<lparr>su_settlement := settlement, su_pc := R_Take\<rparr>) w)"
| acts: "k < length (ow_subs w) \<Longrightarrow> out_step w (receive_act k w)"
| drops: "k < length (ow_subs w) \<Longrightarrow> (\<forall>e. su_pc (ow_subs w ! k) \<noteq> R_Gone e) \<Longrightarrow> out_step w (drop_sub k w)"
| drops_event: "k < length (ow_subs w) \<Longrightarrow> su_pc (ow_subs w ! k) = R_Gone (Some e) \<Longrightarrow> out_step w (drop_event k e w)"

definition out_start :: "u64 \<Rightarrow> u64 \<Rightarrow> nat \<Rightarrow> out_world" where
  "out_start token subscriptions now = \<lparr>ow_registry = new_out_registry token, ow_alive = True,
     ow_handle = \<lparr>oh_token = token, oh_invalid = False, oh_subscriptions = subscriptions\<rparr>, ow_cursor = 0, ow_now = now,
     ow_stamped = None, ow_broken = False, ow_queue = [], ow_log = [], ow_subs = []\<rparr>"

end
