(* ===== verification/Output_Safety.thy ===== *)
theory Output_Safety
  imports Output_Events "HOL-Library.Sublist"
begin

text \<open>
  What a subscription to an output can rely on, over every interleaving of socket, observer, clock and
  other subscribers: the event it receives is the first one that concerns it, an expiry means that there
  was none in time, a receive ends at its settlement deadline, and retained paths stay within the pool.
\<close>

section \<open>What a slot is owed\<close>

definition wanted :: "OutSlot \<Rightarrow> SeenEvent \<Rightarrow> bool" where
  "wanted s ev \<longleftrightarrow> (\<exists>k. kind_from_event (ev_type ev) = Some k \<and> slot_wants ev k s) \<and> event_terminal ev \<noteq> None"

definition first_seen :: "SeenEvent list \<Rightarrow> OutSlot \<Rightarrow> OutputEvent \<Rightarrow> bool" where
  "first_seen evs s e \<longleftrightarrow> (\<exists>pre ev post t. evs = pre @ ev # post \<and> (\<forall>x \<in> set pre. \<not> wanted s x) \<and> wanted s ev \<and>
     event_terminal ev = Some t \<and> e = seen_output ev t (event_path t ev))"

definition cell_ok :: "SeenEvent list \<Rightarrow> OutSlot \<Rightarrow> OutCell \<Rightarrow> bool" where
  "cell_ok evs s c \<longleftrightarrow> cl_poisoned c \<or> (case cl_outcome c of
     Pending_Cell \<Rightarrow> \<forall>x \<in> set evs. \<not> wanted s x
   | Ready_Cell (Ok e) \<Rightarrow> first_seen evs s e
   | Ready_Cell (Err x) \<Rightarrow> x \<noteq> OE_ConfirmationExpired
   | Consumed_Cell \<Rightarrow> True)"

lemma first_seen_append: "first_seen evs s e \<Longrightarrow> first_seen (evs @ later) s e"
  unfolding first_seen_def by fastforce

lemma first_seen_new:
  assumes "\<forall>x \<in> set evs. \<not> wanted s x" "wanted s ev" "event_terminal ev = Some t"
  shows "first_seen (evs @ [ev]) s (seen_output ev t (event_path t ev))"
  unfolding first_seen_def using assms by (intro exI [of _ evs] exI [of _ ev] exI [of _ "[]"] exI [of _ t]) simp

lemma first_seen_map: "first_seen (map fst (take n l)) s e \<Longrightarrow> first_seen (map fst l) s e"
  using first_seen_append [of "map fst (take n l)" s e "map fst (drop n l)"] by (simp flip: map_append)

section \<open>Passing over the slots\<close>

definition cells_total :: "OutCell list \<Rightarrow> nat" where
  "cells_total cs = sum_list (map cell_bytes cs)"

lemma cells_total_update: "c < length cs \<Longrightarrow> cells_total (cs[c := x]) + cell_bytes (cs ! c) = cells_total cs + cell_bytes x"
proof (induction cs arbitrary: c)
  case (Cons y cs)
  then show ?case by (cases c) (auto simp: cells_total_def)
qed simp

definition slot_cells :: "OutSlot option list \<Rightarrow> nat list" where
  "slot_cells ss = map sl_cell (List.map_filter id ss)"

lemma slot_cells_simps [simp]: "slot_cells [] = []" "slot_cells (None # ss) = slot_cells ss" "slot_cells (Some s # ss) = sl_cell s # slot_cells ss"
  by (simp_all add: slot_cells_def map_filter_simps)

lemma slot_cells_set: "set (slot_cells ss) = {sl_cell s |s. Some s \<in> set ss}"
proof (induction ss)
  case (Cons o' ss)
  then show ?case by (cases o') auto
qed simp

lemma each_slot_cells:
  assumes step: "\<And>s r. sl_cell s < length (rg_cells r) \<Longrightarrow> \<exists>x n. f s r = r\<lparr>rg_cells := (rg_cells r)[sl_cell s := x], rg_paths := n\<rparr> \<and>
      Q s (rg_cells r ! sl_cell s) x \<and> n + cell_bytes x = rg_paths r + cell_bytes (rg_cells r ! sl_cell s)"
    and "distinct (slot_cells ss)" "\<forall>c \<in> set (slot_cells ss). c < length (rg_cells r)"
  shows "\<exists>cs n. each_slot f ss r = r\<lparr>rg_cells := cs, rg_paths := n\<rparr> \<and> length cs = length (rg_cells r) \<and>
    (\<forall>c. c \<notin> set (slot_cells ss) \<longrightarrow> cs ! c = rg_cells r ! c) \<and> (\<forall>s. Some s \<in> set ss \<longrightarrow> Q s (rg_cells r ! sl_cell s) (cs ! sl_cell s)) \<and>
    n + cells_total cs = rg_paths r + cells_total (rg_cells r)"
  using assms(2,3)
proof (induction ss arbitrary: r)
  case Nil
  show ?case by (intro exI [of _ "rg_cells r"] exI [of _ "rg_paths r"]) simp
next
  case (Cons o' ss)
  show ?case
  proof (cases o')
    case None
    then show ?thesis using Cons by simp
  next
    case (Some s)
    then have c: "sl_cell s < length (rg_cells r)" "sl_cell s \<notin> set (slot_cells ss)" using Cons.prems by simp_all
    obtain x n where x: "f s r = r\<lparr>rg_cells := (rg_cells r)[sl_cell s := x], rg_paths := n\<rparr>"
      "Q s (rg_cells r ! sl_cell s) x" "n + cell_bytes x = rg_paths r + cell_bytes (rg_cells r ! sl_cell s)"
      using step [OF c(1)] by blast
    obtain cs m where m: "each_slot f ss (f s r) = (f s r)\<lparr>rg_cells := cs, rg_paths := m\<rparr>" "length cs = length (rg_cells r)"
      "\<forall>d. d \<notin> set (slot_cells ss) \<longrightarrow> cs ! d = rg_cells (f s r) ! d"
      "\<forall>u. Some u \<in> set ss \<longrightarrow> Q u (rg_cells (f s r) ! sl_cell u) (cs ! sl_cell u)"
      "m + cells_total cs = n + cells_total ((rg_cells r)[sl_cell s := x])"
      using Cons.IH [of "f s r"] Cons.prems Some x(1) by auto
    have other: "sl_cell u \<noteq> sl_cell s" if "Some u \<in> set ss" for u
      using that c(2) by (auto simp: slot_cells_set)
    have "\<forall>u. Some u \<in> set (o' # ss) \<longrightarrow> Q u (rg_cells r ! sl_cell u) (cs ! sl_cell u)"
      using m(3,4) x(1,2) c other Some by (auto simp: nth_list_update) (metis other)+
    moreover have "m + cells_total cs = rg_paths r + cells_total (rg_cells r)"
      using m(5) x(3) cells_total_update [OF c(1), of x] by linarith
    moreover have "\<forall>d. d \<notin> set (slot_cells (o' # ss)) \<longrightarrow> cs ! d = rg_cells r ! d"
      using m(3) x(1) Some by (auto simp: nth_list_update)
    ultimately show ?thesis using m(1,2) x(1) Some by (intro exI [of _ cs] exI [of _ m]) simp
  qed
qed

text \<open>What a publication does to the cell of a slot.\<close>

definition projected_cell :: "SeenEvent \<Rightarrow> OutputKind \<Rightarrow> Terminal \<Rightarrow> OutSlot \<Rightarrow> OutCell \<Rightarrow> OutCell \<Rightarrow> bool" where
  "projected_cell ev k t s c x \<longleftrightarrow> cl_poisoned x = cl_poisoned c \<and> (cl_outcome x = cl_outcome c \<and>
       (cl_poisoned c \<or> cl_outcome c \<noteq> Pending_Cell \<or> \<not> slot_wants ev k s) \<or>
     \<not> cl_poisoned c \<and> cl_outcome c = Pending_Cell \<and> slot_wants ev k s \<and>
       (cl_outcome x = Ready_Cell (Ok (seen_output ev t (event_path t ev))) \<or>
        (\<exists>e \<in> {OE_PathTooLarge, OE_ByteCapacity}. cl_outcome x = Ready_Cell (Err e))))"

lemma project_slot_cell:
  assumes "sl_cell s < length (rg_cells r)"
  shows "\<exists>x n. project_slot ev k t s r = r\<lparr>rg_cells := (rg_cells r)[sl_cell s := x], rg_paths := n\<rparr> \<and>
      projected_cell ev k t s (rg_cells r ! sl_cell s) x \<and> n + cell_bytes x = rg_paths r + cell_bytes (rg_cells r ! sl_cell s)"
proof (cases "\<not> slot_wants ev k s \<or> cl_poisoned (rg_cells r ! sl_cell s) \<or> cl_outcome (rg_cells r ! sl_cell s) \<noteq> Pending_Cell")
  case True
  then show ?thesis
    by (intro exI [of _ "rg_cells r ! sl_cell s"] exI [of _ "rg_paths r"]) (auto simp: project_slot_def projected_cell_def)
next
  case False
  then have p: "slot_wants ev k s" "\<not> cl_poisoned (rg_cells r ! sl_cell s)" "cl_outcome (rg_cells r ! sl_cell s) = Pending_Cell" by auto
  let ?c = "rg_cells r ! sl_cell s"
  obtain a r1 where l: "lease_path (event_path t ev) r = (a, r1)" by fastforce
  show ?thesis
  proof (cases a)
    case (Inl e)
    then have "r1 = r" "e \<in> {OE_PathTooLarge, OE_ByteCapacity}" using l by (auto simp: lease_path_def split: option.splits if_splits)
    then show ?thesis using p l Inl
      by (intro exI [of _ "?c\<lparr>cl_outcome := Ready_Cell (Err e)\<rparr>"] exI [of _ "rg_paths r"])
        (auto simp: project_slot_def projected_cell_def set_outcome_def cell_bytes_def)
  next
    case (Inr path)
    then have "path = event_path t ev" "rg_paths r1 + (case path of None \<Rightarrow> 0 | Some q \<Rightarrow> length q) = rg_paths r"
      "r1 = r\<lparr>rg_paths := rg_paths r1\<rparr>"
      using l by (auto simp: lease_path_def split: option.splits if_splits)
    then show ?thesis using p l Inr
      by (intro exI [of _ "?c\<lparr>cl_outcome := Ready_Cell (Ok (seen_output ev t path))\<rparr>"] exI [of _ "rg_paths r1"])
        (cases r1, auto simp: project_slot_def projected_cell_def set_outcome_def cell_bytes_def seen_output_def)
  qed
qed

lemma projected_cell_ok:
  assumes "projected_cell ev k t s c x" "cell_ok evs s c" "kind_from_event (ev_type ev) = Some k" "event_terminal ev = Some t"
  shows "cell_ok (evs @ [ev]) s x"
proof (cases "cl_outcome x = cl_outcome c \<and> (cl_poisoned c \<or> cl_outcome c \<noteq> Pending_Cell \<or> \<not> slot_wants ev k s)")
  case True
  then have "cl_poisoned x = cl_poisoned c" "\<not> slot_wants ev k s \<Longrightarrow> \<not> wanted s ev"
    using assms by (auto simp: projected_cell_def wanted_def)
  then show ?thesis using True assms(2) first_seen_append
    by (auto simp: cell_ok_def split: CellOutcome.splits sum.splits)
next
  case False
  then have c: "\<not> cl_poisoned c" "cl_outcome c = Pending_Cell" "slot_wants ev k s" "cl_poisoned x = cl_poisoned c"
    and x: "cl_outcome x = Ready_Cell (Ok (seen_output ev t (event_path t ev))) \<or> (\<exists>e \<in> {OE_PathTooLarge, OE_ByteCapacity}. cl_outcome x = Ready_Cell (Err e))"
    using assms(1) unfolding projected_cell_def by blast+
  have "first_seen (evs @ [ev]) s (seen_output ev t (event_path t ev))"
    using assms(2-4) c by (intro first_seen_new) (auto simp: cell_ok_def wanted_def)
  then show ?thesis using x c by (auto simp: cell_ok_def)
qed

section \<open>The invariant\<close>

abbreviation live :: "OutputSubscription \<Rightarrow> bool" where
  "live s \<equiv> \<forall>e. su_pc s \<noteq> R_Gone e"

definition held_event :: "receive_pc \<Rightarrow> OutputEvent option" where
  "held_event pc = (case pc of R_Done (Ok e) \<Rightarrow> Some e | R_Gone e \<Rightarrow> e | _ \<Rightarrow> None)"

definition running :: "OutputSubscription \<Rightarrow> bool" where
  "running s \<longleftrightarrow> (case su_pc s of R_Done _ \<Rightarrow> False | R_Gone _ \<Rightarrow> False | _ \<Rightarrow> True)"

text \<open>The socket numbers events without gaps, and what is not projected yet is still queued.\<close>

definition net_inv :: "out_world \<Rightarrow> bool" where
  "net_inv w \<longleftrightarrow> unat (ow_cursor w) = length (ow_log w) \<and>
     (\<forall>i < length (ow_log w). unat (ev_sequence (fst (ow_log w ! i))) = Suc i \<and>
        ev_connection (fst (ow_log w ! i)) = rg_token (ow_registry w) \<and> snd (ow_log w ! i) \<le> ow_now w) \<and>
     unat (rg_progress (ow_registry w)) \<le> length (ow_log w) \<and> rg_token (ow_registry w) = oh_token (ow_handle w) \<and>
     (rg_active (ow_registry w) \<and> \<not> rg_poisoned (ow_registry w) \<longrightarrow>
        ow_queue w = map fst (drop (unat (rg_progress (ow_registry w))) (ow_log w)) \<or>
        ow_stamped w = None \<and> ow_broken w \<and> prefix (ow_queue w) (map fst (drop (unat (rg_progress (ow_registry w))) (ow_log w))))"

text \<open>Slots and subscriptions name each other, and the bytes of retained paths are accounted for.\<close>

definition table_inv :: "OutRegistry \<Rightarrow> OutputSubscription list \<Rightarrow> bool" where
  "table_inv r subs \<longleftrightarrow> length (rg_slots r) = MAX_SUBSCRIPTIONS \<and> length (rg_cells r) = length subs \<and>
     (\<forall>k < length subs. sl_cell (su_slot (subs ! k)) = k) \<and>
     distinct (map (\<lambda>s. sl_id (su_slot s)) subs) \<and> (\<forall>n. rg_next_id r = Some n \<longrightarrow> (\<forall>s \<in> set subs. sl_id (su_slot s) < n)) \<and>
     (\<forall>i < MAX_SUBSCRIPTIONS. \<forall>s. rg_slots r ! i = Some s \<longrightarrow> sl_cell s < length subs \<and> su_slot (subs ! sl_cell s) = s \<and> su_index (subs ! sl_cell s) = i) \<and>
     (\<forall>s \<in> set subs. su_index s < MAX_SUBSCRIPTIONS \<and> (live s \<longrightarrow> rg_slots r ! su_index s = Some (su_slot s)))"

definition bytes_inv :: "OutRegistry \<Rightarrow> OutputSubscription list \<Rightarrow> bool" where
  "bytes_inv r subs \<longleftrightarrow> rg_paths r + cells_total (rg_cells r) + sum_list (map (\<lambda>s. event_bytes (held_event (su_pc s))) subs) = PATH_BYTES"

text \<open>What one subscription knows.\<close>

definition pc_facts :: "(SeenEvent \<times> nat) list \<Rightarrow> nat \<Rightarrow> u64 \<Rightarrow> OutputSubscription \<Rightarrow> bool" where
  "pc_facts evs now progress s \<longleftrightarrow> (case su_pc s of
     R_Cutoff n \<Rightarrow> sl_deadline (su_slot s) \<le> n \<and> n \<le> now
   | R_Projected n \<Rightarrow> su_cutoff s \<noteq> None
   | R_Again \<Rightarrow> (\<exists>c. su_cutoff s = Some c \<and> c \<le> progress)
   | R_Wait d \<Rightarrow> d \<le> su_settlement s
   | R_Done (Ok e) \<Rightarrow> first_seen (map fst evs) (su_slot s) e
   | R_Done (Err x) \<Rightarrow> x = OE_ConfirmationExpired \<longrightarrow>
       (\<exists>c. su_cutoff s = Some c \<and> (\<forall>ev \<in> set (map fst (take (unat c) evs)). \<not> wanted (su_slot s) ev))
   | R_Gone (Some e) \<Rightarrow> first_seen (map fst evs) (su_slot s) e
   | _ \<Rightarrow> True)"

definition sub_facts :: "(SeenEvent \<times> nat) list \<Rightarrow> nat \<Rightarrow> u64 \<Rightarrow> OutCell \<Rightarrow> OutputSubscription \<Rightarrow> bool" where
  "sub_facts evs now progress c s \<longleftrightarrow> (live s \<longrightarrow> cell_ok (map fst (take (unat progress) evs)) (su_slot s) c) \<and>
     (running s \<longrightarrow> cl_outcome c \<noteq> Consumed_Cell) \<and>
     (\<forall>n. su_cutoff s = Some n \<longrightarrow> unat n \<le> length evs \<and> sl_deadline (su_slot s) \<le> now \<and>
        (\<forall>i < length evs. unat n \<le> i \<longrightarrow> sl_deadline (su_slot s) \<le> snd (evs ! i))) \<and>
     pc_facts evs now progress s"

definition out_inv :: "out_world \<Rightarrow> bool" where
  "out_inv w \<longleftrightarrow> net_inv w \<and> table_inv (ow_registry w) (ow_subs w) \<and> bytes_inv (ow_registry w) (ow_subs w) \<and>
     (\<forall>k < length (ow_subs w). sub_facts (ow_log w) (ow_now w) (rg_progress (ow_registry w)) (rg_cells (ow_registry w) ! k) (ow_subs w ! k))"

lemma out_start_inv: "out_inv (out_start token subscriptions now)"
  by (simp add: out_inv_def net_inv_def table_inv_def bytes_inv_def out_start_def new_out_registry_def cells_total_def MAX_SUBSCRIPTIONS_def)

lemma distinct_slot_cells:
  "(\<And>i j s u. i < length ss \<Longrightarrow> j < length ss \<Longrightarrow> ss ! i = Some s \<Longrightarrow> ss ! j = Some u \<Longrightarrow> sl_cell s = sl_cell u \<Longrightarrow> i = j) \<Longrightarrow> distinct (slot_cells ss)"
proof (induction ss)
  case (Cons o' ss)
  have "distinct (slot_cells ss)"
  proof (rule Cons.IH)
    fix i j s u
    assume "i < length ss" "j < length ss" "ss ! i = Some s" "ss ! j = Some u" "sl_cell s = sl_cell u"
    then show "i = j" using Cons.prems [of "Suc i" "Suc j" s u] by simp
  qed
  moreover have "sl_cell s \<notin> set (slot_cells ss)" if "o' = Some s" for s
  proof
    assume "sl_cell s \<in> set (slot_cells ss)"
    then obtain u j where "j < length ss" "ss ! j = Some u" "sl_cell u = sl_cell s" by (auto simp: slot_cells_set in_set_conv_nth)
    then show False using Cons.prems [of 0 "Suc j" s u] that by simp
  qed
  ultimately show ?case by (cases o') auto
qed simp

lemma table_slot:
  "table_inv r subs \<Longrightarrow> i < MAX_SUBSCRIPTIONS \<Longrightarrow> rg_slots r ! i = Some s \<Longrightarrow>
     sl_cell s < length subs \<and> su_slot (subs ! sl_cell s) = s \<and> su_index (subs ! sl_cell s) = i"
  by (simp add: table_inv_def)

lemma table_length: "table_inv r subs \<Longrightarrow> length (rg_slots r) = MAX_SUBSCRIPTIONS"
  by (simp add: table_inv_def)

lemma table_slots:
  assumes "table_inv r subs"
  shows "distinct (slot_cells (rg_slots r))" "\<forall>c \<in> set (slot_cells (rg_slots r)). c < length (rg_cells r)"
proof -
  show "distinct (slot_cells (rg_slots r))"
  proof (rule distinct_slot_cells)
    fix i j s u
    assume "i < length (rg_slots r)" "j < length (rg_slots r)" "rg_slots r ! i = Some s" "rg_slots r ! j = Some u" "sl_cell s = sl_cell u"
    then show "i = j" using table_slot [OF assms, of i s] table_slot [OF assms, of j u] table_length [OF assms] by metis
  qed
  show "\<forall>c \<in> set (slot_cells (rg_slots r)). c < length (rg_cells r)"
  proof
    fix c
    assume "c \<in> set (slot_cells (rg_slots r))"
    then obtain s i where "i < length (rg_slots r)" "rg_slots r ! i = Some s" "c = sl_cell s" by (auto simp: slot_cells_set in_set_conv_nth)
    moreover have "length (rg_cells r) = length subs" using assms by (simp add: table_inv_def)
    ultimately show "c < length (rg_cells r)" using table_slot [OF assms, of i s] table_length [OF assms] by metis
  qed
qed

text \<open>A pass over all slots, seen from the subscriptions: the cell of a subscription is treated, or it is gone.\<close>

lemma table_pass:
  assumes t: "table_inv r subs"
    and step: "\<And>s r. sl_cell s < length (rg_cells r) \<Longrightarrow> \<exists>x n. f s r = r\<lparr>rg_cells := (rg_cells r)[sl_cell s := x], rg_paths := n\<rparr> \<and>
      Q s (rg_cells r ! sl_cell s) x \<and> n + cell_bytes x = rg_paths r + cell_bytes (rg_cells r ! sl_cell s)"
  shows "\<exists>cs n. each_slot f (rg_slots r) r = r\<lparr>rg_cells := cs, rg_paths := n\<rparr> \<and> length cs = length (rg_cells r) \<and>
    n + cells_total cs = rg_paths r + cells_total (rg_cells r) \<and>
    (\<forall>k < length subs. Q (su_slot (subs ! k)) (rg_cells r ! k) (cs ! k) \<or> cs ! k = rg_cells r ! k \<and> \<not> live (subs ! k))"
proof -
  obtain cs n where r: "each_slot f (rg_slots r) r = r\<lparr>rg_cells := cs, rg_paths := n\<rparr>" "length cs = length (rg_cells r)"
    "n + cells_total cs = rg_paths r + cells_total (rg_cells r)"
    and cs: "\<forall>c. c \<notin> set (slot_cells (rg_slots r)) \<longrightarrow> cs ! c = rg_cells r ! c"
      "\<forall>s. Some s \<in> set (rg_slots r) \<longrightarrow> Q s (rg_cells r ! sl_cell s) (cs ! sl_cell s)"
    using each_slot_cells [of f Q "rg_slots r" r, OF step table_slots [OF t]] by blast
  have "Q (su_slot (subs ! k)) (rg_cells r ! k) (cs ! k) \<or> cs ! k = rg_cells r ! k \<and> \<not> live (subs ! k)" if k: "k < length subs" for k
  proof (cases "k \<in> set (slot_cells (rg_slots r))")
    case True
    then obtain s i where s: "i < MAX_SUBSCRIPTIONS" "rg_slots r ! i = Some s" "sl_cell s = k" "Some s \<in> set (rg_slots r)"
      using table_length [OF t] by (auto simp: slot_cells_set in_set_conv_nth)
    then show ?thesis using table_slot [OF t, of i s] cs(2) by metis
  next
    case False
    have "\<not> live (subs ! k)"
    proof
      assume "live (subs ! k)"
      then have "rg_slots r ! su_index (subs ! k) = Some (su_slot (subs ! k))" "su_index (subs ! k) < length (rg_slots r)"
        "sl_cell (su_slot (subs ! k)) = k" using t k by (simp_all add: table_inv_def)
      then show False using False by (force simp: slot_cells_set in_set_conv_nth)
    qed
    then show ?thesis using cs(1) False by blast
  qed
  then show ?thesis using r by blast
qed

text \<open>Time passes, the evs grows, the projection advances.\<close>

lemma sub_facts_now: "sub_facts evs now progress c s \<Longrightarrow> now \<le> later \<Longrightarrow> sub_facts evs later progress c s"
  by (fastforce simp: sub_facts_def pc_facts_def split: receive_pc.splits sum.splits option.splits)

lemma sub_facts_log:
  assumes "sub_facts evs now progress c s" "unat progress \<le> length evs"
  shows "sub_facts (evs @ [(ev, now)]) now progress c s"
proof -
  have cut: "\<And>n. su_cutoff s = Some n \<Longrightarrow> unat n \<le> length evs" using assms(1) by (simp add: sub_facts_def)
  then have "pc_facts (evs @ [(ev, now)]) now progress s"
    using assms(1) first_seen_append [of "map fst evs" "su_slot s"]
    by (fastforce simp: sub_facts_def pc_facts_def split: receive_pc.splits sum.splits option.splits)
  then show ?thesis using assms by (auto simp: sub_facts_def nth_append)
qed

lemma sub_facts_published:
  assumes "sub_facts evs now progress c s" "cell_ok (map fst (take (Suc (unat progress)) evs)) (su_slot s) x"
    "cl_outcome x = Consumed_Cell \<longrightarrow> cl_outcome c = Consumed_Cell" "unat n = Suc (unat progress)"
  shows "sub_facts evs now n x s"
proof -
  have "progress \<le> n" using assms(4) by (simp add: word_le_nat_alt)
  then have "pc_facts evs now n s"
    using assms(1) by (fastforce simp: sub_facts_def pc_facts_def split: receive_pc.splits sum.splits option.splits)
  then show ?thesis using assms by (auto simp: sub_facts_def)
qed

lemma sub_facts_cell:
  assumes "sub_facts evs now progress c s" "live s \<Longrightarrow> cell_ok (map fst (take (unat progress) evs)) (su_slot s) x"
    "cl_outcome x = Consumed_Cell \<longrightarrow> cl_outcome c = Consumed_Cell"
  shows "sub_facts evs now progress x s"
  using assms by (auto simp: sub_facts_def)

section \<open>Publication and revocation keep it\<close>

definition revoked_cell :: "OutSlot \<Rightarrow> OutCell \<Rightarrow> OutCell \<Rightarrow> bool" where
  "revoked_cell s c x \<longleftrightarrow> cl_poisoned x = cl_poisoned c \<and>
     (cl_outcome x = cl_outcome c \<or> cl_outcome c = Pending_Cell \<and> cl_outcome x = Ready_Cell (Err OE_Revoked))"

lemma revoke_slot_cell:
  assumes "sl_cell s < length (rg_cells r)"
  shows "\<exists>x n. revoke_slot s r = r\<lparr>rg_cells := (rg_cells r)[sl_cell s := x], rg_paths := n\<rparr> \<and>
      revoked_cell s (rg_cells r ! sl_cell s) x \<and> n + cell_bytes x = rg_paths r + cell_bytes (rg_cells r ! sl_cell s)"
proof (cases "\<not> cl_poisoned (rg_cells r ! sl_cell s) \<and> cl_outcome (rg_cells r ! sl_cell s) = Pending_Cell")
  case True
  then show ?thesis
    by (intro exI [of _ "(rg_cells r ! sl_cell s)\<lparr>cl_outcome := Ready_Cell (Err OE_Revoked)\<rparr>"] exI [of _ "rg_paths r"])
      (simp add: revoke_slot_def revoked_cell_def set_outcome_def cell_bytes_def)
next
  case False
  then show ?thesis
    by (intro exI [of _ "rg_cells r ! sl_cell s"] exI [of _ "rg_paths r"]) (auto simp: revoke_slot_def revoked_cell_def)
qed

lemma revoked_cell_ok: "revoked_cell s c x \<Longrightarrow> cell_ok evs s c \<Longrightarrow> cell_ok evs s x"
  by (auto simp: revoked_cell_def cell_ok_def split: CellOutcome.splits sum.splits)

lemma table_inv_cong:
  assumes "table_inv r subs" "rg_slots r' = rg_slots r" "length (rg_cells r') = length (rg_cells r)" "rg_next_id r' = rg_next_id r"
  shows "table_inv r' subs"
  using assms by (simp add: table_inv_def)

lemma bytes_inv_cong:
  "bytes_inv r subs \<Longrightarrow> rg_paths r' + cells_total (rg_cells r') = rg_paths r + cells_total (rg_cells r) \<Longrightarrow> bytes_inv r' subs"
  by (simp add: bytes_inv_def)

lemma revokes_inv:
  assumes inv: "out_inv w"
  shows "out_inv (w\<lparr>ow_registry := revoke_outputs (ow_registry w)\<rparr>)"
proof (cases "rg_poisoned (ow_registry w)")
  case True
  then show ?thesis using inv by (simp add: out_inv_def net_inv_def table_inv_def bytes_inv_def revoke_outputs_def announce_def)
next
  case False
  let ?r = "(ow_registry w)\<lparr>rg_active := False\<rparr>"
  have t: "table_inv ?r (ow_subs w)" using inv by (simp add: out_inv_def table_inv_def)
  obtain cs n where r: "each_slot revoke_slot (rg_slots ?r) ?r = ?r\<lparr>rg_cells := cs, rg_paths := n\<rparr>"
    and cs: "length cs = length (rg_cells ?r)" "n + cells_total cs = rg_paths ?r + cells_total (rg_cells ?r)"
      "\<forall>k < length (ow_subs w). revoked_cell (su_slot (ow_subs w ! k)) (rg_cells ?r ! k) (cs ! k) \<or>
         cs ! k = rg_cells ?r ! k \<and> \<not> live (ow_subs w ! k)"
    using table_pass [OF t revoke_slot_cell] by blast
  have cell: "revoked_cell (su_slot (ow_subs w ! k)) (rg_cells ?r ! k) (cs ! k)" if "k < length (ow_subs w)" for k
    using cs(3) that by (auto simp: revoked_cell_def)
  have "sub_facts (ow_log w) (ow_now w) (rg_progress ?r) (cs ! k) (ow_subs w ! k)" if "k < length (ow_subs w)" for k
  proof (rule sub_facts_cell)
    show f: "sub_facts (ow_log w) (ow_now w) (rg_progress ?r) (rg_cells ?r ! k) (ow_subs w ! k)" using inv that by (simp add: out_inv_def)
    show "live (ow_subs w ! k) \<Longrightarrow> cell_ok (map fst (take (unat (rg_progress ?r)) (ow_log w))) (su_slot (ow_subs w ! k)) (cs ! k)"
      using f revoked_cell_ok [OF cell [OF that]] by (simp add: sub_facts_def)
    show "cl_outcome (cs ! k) = Consumed_Cell \<longrightarrow> cl_outcome (rg_cells ?r ! k) = Consumed_Cell"
      using cell [OF that] by (auto simp: revoked_cell_def)
  qed
  moreover have "table_inv (announce (?r\<lparr>rg_cells := cs, rg_paths := n\<rparr>)) (ow_subs w)"
    using t cs(1) by (simp add: table_inv_def announce_def)
  moreover have "bytes_inv (announce (?r\<lparr>rg_cells := cs, rg_paths := n\<rparr>)) (ow_subs w)"
    using inv cs(2) by (simp add: out_inv_def bytes_inv_def announce_def)
  ultimately show ?thesis using inv False r by (simp add: out_inv_def net_inv_def revoke_outputs_def announce_def)
qed

lemma published_one:
  assumes inv: "out_inv w" and live: "rg_active (ow_registry w)" "\<not> rg_poisoned (ow_registry w)" and q: "ow_queue w = ev # q"
  shows "unat (ev_sequence ev) = Suc (unat (rg_progress (ow_registry w)))" "ev_connection ev = rg_token (ow_registry w)"
    "map fst (take (Suc (unat (rg_progress (ow_registry w)))) (ow_log w)) = map fst (take (unat (rg_progress (ow_registry w))) (ow_log w)) @ [ev]"
    "unat (rg_progress (ow_registry w)) < length (ow_log w)"
proof -
  let ?n = "unat (rg_progress (ow_registry w))"
  have "prefix (ow_queue w) (map fst (drop ?n (ow_log w)))" using inv live by (auto simp: out_inv_def net_inv_def)
  then obtain more where d: "map fst (drop ?n (ow_log w)) = ev # more" using q by (auto simp: prefix_def)
  then show n: "?n < length (ow_log w)" by (cases "?n < length (ow_log w)") auto
  then have "fst (ow_log w ! ?n) = ev" using d by (simp add: Cons_nth_drop_Suc [symmetric])
  then show "unat (ev_sequence ev) = Suc ?n" "ev_connection ev = rg_token (ow_registry w)"
    "map fst (take (Suc ?n) (ow_log w)) = map fst (take ?n (ow_log w)) @ [ev]"
    using inv n by (auto simp: out_inv_def net_inv_def take_Suc_conv_app_nth)
qed

lemma publish_cells:
  assumes inv: "out_inv w" and live: "rg_active (ow_registry w)" "\<not> rg_poisoned (ow_registry w)" and q: "ow_queue w = ev # q"
  shows "\<exists>cs n. publish_output ev (ow_registry w) = announce ((ow_registry w)\<lparr>rg_cells := cs, rg_paths := n, rg_progress := ev_sequence ev\<rparr>) \<and>
    length cs = length (rg_cells (ow_registry w)) \<and> n + cells_total cs = rg_paths (ow_registry w) + cells_total (rg_cells (ow_registry w)) \<and>
    (\<forall>k < length (ow_subs w). (live (ow_subs w ! k) \<longrightarrow>
       cell_ok (map fst (take (Suc (unat (rg_progress (ow_registry w)))) (ow_log w))) (su_slot (ow_subs w ! k)) (cs ! k)) \<and>
       (cl_outcome (cs ! k) = Consumed_Cell \<longrightarrow> cl_outcome (rg_cells (ow_registry w) ! k) = Consumed_Cell))"
proof -
  let ?r = "ow_registry w" and ?P = "map fst (take (unat (rg_progress (ow_registry w))) (ow_log w))"
  note one = published_one [OF inv live q]
  have t: "table_inv ?r (ow_subs w)" using inv by (simp add: out_inv_def)
  have old: "live (ow_subs w ! k) \<Longrightarrow> cell_ok ?P (su_slot (ow_subs w ! k)) (rg_cells ?r ! k)" if "k < length (ow_subs w)" for k
    using inv that by (simp add: out_inv_def sub_facts_def)
  show ?thesis
  proof (cases "\<exists>k t. kind_from_event (ev_type ev) = Some k \<and> event_terminal ev = Some t")
    case True
    then obtain k t where kt: "kind_from_event (ev_type ev) = Some k" "event_terminal ev = Some t" by blast
    obtain cs n where r: "each_slot (project_slot ev k t) (rg_slots ?r) ?r = ?r\<lparr>rg_cells := cs, rg_paths := n\<rparr>"
      and cs: "length cs = length (rg_cells ?r)" "n + cells_total cs = rg_paths ?r + cells_total (rg_cells ?r)"
        "\<forall>i < length (ow_subs w). projected_cell ev k t (su_slot (ow_subs w ! i)) (rg_cells ?r ! i) (cs ! i) \<or>
           cs ! i = rg_cells ?r ! i \<and> \<not> live (ow_subs w ! i)"
      using table_pass [OF t, of "project_slot ev k t" "projected_cell ev k t", OF project_slot_cell] by blast
    have "publish_output ev ?r = announce (?r\<lparr>rg_cells := cs, rg_paths := n, rg_progress := ev_sequence ev\<rparr>)"
      using live kt r one(2) by (simp add: publish_output_def)
    moreover have "\<forall>i < length (ow_subs w). (live (ow_subs w ! i) \<longrightarrow> cell_ok (?P @ [ev]) (su_slot (ow_subs w ! i)) (cs ! i)) \<and>
       (cl_outcome (cs ! i) = Consumed_Cell \<longrightarrow> cl_outcome (rg_cells ?r ! i) = Consumed_Cell)"
    proof (intro allI impI)
      fix i assume i: "i < length (ow_subs w)"
      from cs(3) i have "projected_cell ev k t (su_slot (ow_subs w ! i)) (rg_cells ?r ! i) (cs ! i) \<or> cs ! i = rg_cells ?r ! i \<and> \<not> live (ow_subs w ! i)"
        by blast
      then show "(live (ow_subs w ! i) \<longrightarrow> cell_ok (?P @ [ev]) (su_slot (ow_subs w ! i)) (cs ! i)) \<and>
          (cl_outcome (cs ! i) = Consumed_Cell \<longrightarrow> cl_outcome (rg_cells ?r ! i) = Consumed_Cell)"
      proof
        assume p: "projected_cell ev k t (su_slot (ow_subs w ! i)) (rg_cells ?r ! i) (cs ! i)"
        then have "cl_outcome (cs ! i) = Consumed_Cell \<longrightarrow> cl_outcome (rg_cells ?r ! i) = Consumed_Cell"
          by (auto simp: projected_cell_def)
        then show ?thesis using projected_cell_ok [OF p _ kt] old [OF i] by blast
      qed auto
    qed
    ultimately show ?thesis using cs(1,2) one(3) by (intro exI [of _ cs] exI [of _ n]) simp
  next
    case False
    then have nope: "\<not> wanted s ev" for s by (auto simp: wanted_def)
    have "cell_ok (?P @ [ev]) s c" if "cell_ok ?P s c" for s c
      using that nope first_seen_append by (auto simp: cell_ok_def split: CellOutcome.splits sum.splits)
    moreover have "publish_output ev ?r = announce (?r\<lparr>rg_cells := rg_cells ?r, rg_paths := rg_paths ?r, rg_progress := ev_sequence ev\<rparr>)"
      using live False one(2) by (auto simp: publish_output_def Let_def split: option.splits)
    ultimately show ?thesis using old one(3) by (intro exI [of _ "rg_cells ?r"] exI [of _ "rg_paths ?r"]) simp
  qed
qed

lemma projects_inv:
  assumes inv: "out_inv w" and q: "ow_queue w = ev # q"
  shows "out_inv (w\<lparr>ow_queue := q, ow_registry := publish_output ev (ow_registry w)\<rparr>)"
proof (cases "rg_active (ow_registry w) \<and> \<not> rg_poisoned (ow_registry w)")
  case False
  then have "publish_output ev (ow_registry w) = ow_registry w \<or> publish_output ev (ow_registry w) = announce (ow_registry w)"
    by (auto simp: publish_output_def)
  then show ?thesis using inv False by (auto simp: out_inv_def net_inv_def table_inv_def bytes_inv_def announce_def)
next
  case True
  then have live: "rg_active (ow_registry w)" "\<not> rg_poisoned (ow_registry w)" by simp_all
  obtain cs n where r: "publish_output ev (ow_registry w) = announce ((ow_registry w)\<lparr>rg_cells := cs, rg_paths := n, rg_progress := ev_sequence ev\<rparr>)"
    and cs: "length cs = length (rg_cells (ow_registry w))" "n + cells_total cs = rg_paths (ow_registry w) + cells_total (rg_cells (ow_registry w))"
      "\<forall>k < length (ow_subs w). (live (ow_subs w ! k) \<longrightarrow>
         cell_ok (map fst (take (Suc (unat (rg_progress (ow_registry w)))) (ow_log w))) (su_slot (ow_subs w ! k)) (cs ! k)) \<and>
         (cl_outcome (cs ! k) = Consumed_Cell \<longrightarrow> cl_outcome (rg_cells (ow_registry w) ! k) = Consumed_Cell)"
    using publish_cells [OF inv live q] by blast
  note one = published_one [OF inv live q]
  have "sub_facts (ow_log w) (ow_now w) (ev_sequence ev) (cs ! k) (ow_subs w ! k)" if "k < length (ow_subs w)" for k
  proof -
    have f: "sub_facts (ow_log w) (ow_now w) (rg_progress (ow_registry w)) (rg_cells (ow_registry w) ! k) (ow_subs w ! k)"
      using inv that by (simp add: out_inv_def)
    show ?thesis
    proof (cases "live (ow_subs w ! k)")
      case True
      then show ?thesis using cs(3) that by (intro sub_facts_published [OF f]) (auto simp: one(1))
    next
      case False
      then show ?thesis using f cs(3) that by (auto simp: sub_facts_def pc_facts_def running_def)
    qed
  qed
  moreover have "net_inv (w\<lparr>ow_queue := q, ow_registry := announce ((ow_registry w)\<lparr>rg_cells := cs, rg_paths := n, rg_progress := ev_sequence ev\<rparr>)\<rparr>)"
  proof -
    have "drop (unat (rg_progress (ow_registry w))) (ow_log w) = (ow_log w ! unat (rg_progress (ow_registry w))) # drop (Suc (unat (rg_progress (ow_registry w)))) (ow_log w)"
      using one(4) by (rule Cons_nth_drop_Suc [symmetric])
    then show ?thesis using inv one live q by (auto simp: out_inv_def net_inv_def announce_def)
  qed
  ultimately show ?thesis using inv cs(1,2) r
    by (simp add: out_inv_def table_inv_def bytes_inv_def announce_def)
qed

section \<open>The subscriber's steps keep it\<close>

lemma held_update:
  "k < length xs \<Longrightarrow> sum_list (map f (xs[k := x])) + f (xs ! k) = sum_list (map f xs) + (f x :: nat)"
proof (induction xs arbitrary: k)
  case (Cons y xs)
  then show ?case by (cases k) auto
qed simp

definition same_net :: "OutRegistry \<Rightarrow> OutRegistry \<Rightarrow> bool" where
  "same_net r r' \<longleftrightarrow> rg_token r' = rg_token r \<and> rg_poisoned r' = rg_poisoned r \<and> rg_active r' = rg_active r \<and> rg_next_id r' = rg_next_id r \<and>
     rg_progress r' = rg_progress r"

lemma table_inv_sub:
  assumes t: "table_inv r subs" and k: "k < length subs" and r: "rg_slots r' = rg_slots r" "rg_next_id r' = rg_next_id r" "length (rg_cells r') = length (rg_cells r)"
    and s: "su_slot s = su_slot (subs ! k)" "su_index s = su_index (subs ! k)" "live s \<Longrightarrow> live (subs ! k)"
  shows "table_inv r' (subs[k := s])"
proof -
  have m: "map (\<lambda>s. sl_id (su_slot s)) (subs[k := s]) = map (\<lambda>s. sl_id (su_slot s)) subs"
    using k s(1) by (simp add: map_update list_update_same_conv)
  have f: "su_slot ((subs[k := s]) ! j) = su_slot (subs ! j)" "su_index ((subs[k := s]) ! j) = su_index (subs ! j)" if "j < length subs" for j
    using that k s(1,2) by (simp_all add: nth_list_update)
  have u: "u \<in> set (subs[k := s]) \<Longrightarrow> \<exists>v \<in> set subs. su_slot u = su_slot v \<and> su_index u = su_index v \<and> (live u \<longrightarrow> live v)" for u
    using set_update_subset_insert [of subs k s] s k nth_mem [OF k] by blast
  have "\<forall>v \<in> set (subs[k := s]). su_index v < MAX_SUBSCRIPTIONS \<and> (live v \<longrightarrow> rg_slots r' ! su_index v = Some (su_slot v))"
    using u t r(1) unfolding table_inv_def by metis
  moreover have "\<forall>n. rg_next_id r' = Some n \<longrightarrow> (\<forall>v \<in> set (subs[k := s]). sl_id (su_slot v) < n)"
    using u t r(2) unfolding table_inv_def by metis
  ultimately show ?thesis using t r m f unfolding table_inv_def by simp
qed

lemma sub_update_inv:
  assumes inv: "out_inv w" and k: "k < length (ow_subs w)"
    and r: "same_net (ow_registry w) r'" "rg_slots r' = rg_slots (ow_registry w)" "rg_cells r' = (rg_cells (ow_registry w))[k := x]"
    and s: "su_slot s = su_slot (ow_subs w ! k)" "su_index s = su_index (ow_subs w ! k)" "live s \<Longrightarrow> live (ow_subs w ! k)"
    and b: "rg_paths r' + cell_bytes x + event_bytes (held_event (su_pc s)) =
      rg_paths (ow_registry w) + cell_bytes (rg_cells (ow_registry w) ! k) + event_bytes (held_event (su_pc (ow_subs w ! k)))"
    and f: "sub_facts (ow_log w) (ow_now w) (rg_progress (ow_registry w)) x s"
  shows "out_inv (w\<lparr>ow_registry := r', ow_subs := (ow_subs w)[k := s]\<rparr>)"
proof -
  have t: "table_inv (ow_registry w) (ow_subs w)" and c: "k < length (rg_cells (ow_registry w))"
    using inv k by (auto simp: out_inv_def table_inv_def)
  have "table_inv r' ((ow_subs w)[k := s])"
    by (rule table_inv_sub [OF t k]) (use r s in \<open>simp_all add: same_net_def\<close>)
  moreover have "bytes_inv r' ((ow_subs w)[k := s])"
    using inv b r(3) cells_total_update [OF c, of x] held_update [OF k, of "\<lambda>s. event_bytes (held_event (su_pc s))" s]
    by (simp add: out_inv_def bytes_inv_def)
  moreover have "sub_facts (ow_log w) (ow_now w) (rg_progress r') (rg_cells r' ! j) ((ow_subs w)[k := s] ! j)" if "j < length (ow_subs w)" for j
    using inv that f r k c by (auto simp: out_inv_def same_net_def nth_list_update)
  moreover have "net_inv (w\<lparr>ow_registry := r', ow_subs := (ow_subs w)[k := s]\<rparr>)"
    using inv r(1) by (simp add: out_inv_def net_inv_def same_net_def)
  ultimately show ?thesis by (simp add: out_inv_def)
qed

text \<open>A step of control alone.\<close>

lemma with_sub_inv:
  assumes inv: "out_inv w" and k: "k < length (ow_subs w)"
    and s: "su_slot (g (ow_subs w ! k)) = su_slot (ow_subs w ! k)" "su_index (g (ow_subs w ! k)) = su_index (ow_subs w ! k)"
      "live (ow_subs w ! k)" "held_event (su_pc (g (ow_subs w ! k))) = held_event (su_pc (ow_subs w ! k))"
    and f: "sub_facts (ow_log w) (ow_now w) (rg_progress (ow_registry w)) (rg_cells (ow_registry w) ! k) (g (ow_subs w ! k))"
  shows "out_inv (with_sub k g w)"
  using sub_update_inv [OF inv k, of "ow_registry w" "rg_cells (ow_registry w) ! k" "g (ow_subs w ! k)"] s f
  by (simp add: with_sub_def same_net_def)

lemma own_facts:
  assumes "out_inv w" "k < length (ow_subs w)"
  shows "sub_facts (ow_log w) (ow_now w) (rg_progress (ow_registry w)) (rg_cells (ow_registry w) ! k) (ow_subs w ! k)"
    "sl_cell (su_slot (ow_subs w ! k)) = k" "k < length (rg_cells (ow_registry w))" "unat (ow_cursor w) = length (ow_log w)"
    "unat (rg_progress (ow_registry w)) \<le> length (ow_log w)"
  using assms by (simp_all add: out_inv_def table_inv_def net_inv_def)

lemma look_cell_inv:
  assumes inv: "out_inv w" and k: "k < length (ow_subs w)" and pc: "running (ow_subs w ! k)"
    and go: "live ((ow_subs w ! k)\<lparr>su_pc := pc'\<rparr>)" "held_event pc' = None"
    and f: "cl_outcome (rg_cells (ow_registry w) ! k) = Pending_Cell \<Longrightarrow> \<not> cl_poisoned (rg_cells (ow_registry w) ! k) \<Longrightarrow>
      pc_facts (ow_log w) (ow_now w) (rg_progress (ow_registry w)) ((ow_subs w ! k)\<lparr>su_pc := pc'\<rparr>)"
  shows "out_inv (look_cell k pc' w)"
proof -
  let ?s = "ow_subs w ! k" and ?c = "rg_cells (ow_registry w) ! k"
  note own = own_facts [OF inv k]
  have s: "live ?s" "held_event (su_pc ?s) = None" using pc by (auto simp: running_def held_event_def split: receive_pc.splits)
  have ok: "cell_ok (map fst (take (unat (rg_progress (ow_registry w))) (ow_log w))) (su_slot ?s) ?c" "cl_outcome ?c \<noteq> Consumed_Cell"
    using own(1) s pc by (simp_all add: sub_facts_def)
  show ?thesis
  proof (cases "cl_poisoned ?c")
    case True
    then have "look_cell k pc' w = goto k (R_Done (Err OE_Unavailable)) w" by (simp add: look_cell_def cell_take_def own(2))
    then show ?thesis using with_sub_inv [OF inv k] own(1) s
      by (simp add: sub_facts_def pc_facts_def running_def held_event_def)
  next
    case False
    show ?thesis
    proof (cases "cl_outcome ?c")
      case Pending_Cell
      then have "look_cell k pc' w = goto k pc' w" using False by (simp add: look_cell_def cell_take_def own(2))
      then show ?thesis using with_sub_inv [OF inv k] own(1) s go f Pending_Cell False
        by (simp add: sub_facts_def)
    next
      case (Ready_Cell v)
      let ?x = "?c\<lparr>cl_outcome := Consumed_Cell\<rparr>"
      have "look_cell k pc' w = w\<lparr>ow_registry := set_outcome k Consumed_Cell (ow_registry w), ow_subs := (ow_subs w)[k := ?s\<lparr>su_pc := R_Done v\<rparr>]\<rparr>"
        using False Ready_Cell by (simp add: look_cell_def cell_take_def own(2) with_sub_def)
      moreover have "sub_facts (ow_log w) (ow_now w) (rg_progress (ow_registry w)) ?x (?s\<lparr>su_pc := R_Done v\<rparr>)"
      proof -
        have "pc_facts (ow_log w) (ow_now w) (rg_progress (ow_registry w)) (?s\<lparr>su_pc := R_Done v\<rparr>)"
          using ok(1) Ready_Cell False first_seen_map by (auto simp: pc_facts_def cell_ok_def split: sum.splits)
        then show ?thesis using own(1) by (auto simp: sub_facts_def running_def cell_ok_def)
      qed
      moreover have "cell_bytes ?x + event_bytes (held_event (R_Done v)) = cell_bytes ?c"
        using Ready_Cell by (auto simp: cell_bytes_def held_event_def event_bytes_def split: sum.splits option.splits)
      ultimately show ?thesis
        using s by (auto intro!: sub_update_inv [OF inv k, where x = ?x] simp: same_net_def set_outcome_def event_bytes_def)
    next
      case Consumed_Cell
      then show ?thesis using ok(2) by simp
    qed
  qed
qed

lemma goto_inv:
  assumes inv: "out_inv w" and k: "k < length (ow_subs w)" and run: "running (ow_subs w ! k)"
    and pc: "held_event pc = None" "live ((ow_subs w ! k)\<lparr>su_pc := pc\<rparr>)"
    and f: "pc_facts (ow_log w) (ow_now w) (rg_progress (ow_registry w)) ((ow_subs w ! k)\<lparr>su_pc := pc\<rparr>)"
  shows "out_inv (goto k pc w)"
proof -
  have "live (ow_subs w ! k)" "held_event (su_pc (ow_subs w ! k)) = None"
    using run by (auto simp: running_def held_event_def split: receive_pc.splits)
  then show ?thesis using own_facts(1) [OF inv k] run pc f by (intro with_sub_inv [OF inv k]) (simp_all add: sub_facts_def)
qed

lemma receive_act_inv:
  assumes inv: "out_inv w" and k: "k < length (ow_subs w)"
  shows "out_inv (receive_act k w)"
proof -
  let ?s = "ow_subs w ! k"
  note own = own_facts [OF inv k]
  have facts: "pc_facts (ow_log w) (ow_now w) (rg_progress (ow_registry w)) ?s" using own(1) by (simp add: sub_facts_def)
  have trivial: "out_inv (goto k pc w)" if "running ?s" "pc \<in> {R_Take, R_Clock, R_Closed, R_Done (Err OE_Revoked), R_Done (Err OE_SettlementUnavailable)} \<or> (\<exists>n. pc = R_Settle n) \<or> pc = R_Wait (wait_until ?s)" for pc
    using that by (intro goto_inv [OF inv k]) (auto simp: held_event_def pc_facts_def wait_until_def)
  show ?thesis
  proof (cases "su_pc ?s")
    case R_Take
    then have "out_inv (look_cell k R_Alive w)" by (intro look_cell_inv [OF inv k]) (simp_all add: running_def held_event_def pc_facts_def)
    then show ?thesis using R_Take by (simp add: receive_act_def)
  next
    case R_Alive
    then show ?thesis using trivial by (simp add: receive_act_def running_def)
  next
    case R_Clock
    then have "out_inv (goto k (R_Cutoff (ow_now w)) w)" if "sl_deadline (su_slot ?s) \<le> ow_now w"
      using that by (intro goto_inv [OF inv k]) (simp_all add: running_def held_event_def pc_facts_def)
    then show ?thesis using R_Clock trivial by (simp add: receive_act_def running_def)
  next
    case (R_Cutoff n)
    then have d: "sl_deadline (su_slot ?s) \<le> ow_now w" using facts by (simp add: pc_facts_def)
    let ?g = "\<lambda>s. s\<lparr>su_cutoff := Some (case su_cutoff s of None \<Rightarrow> ow_cursor w | Some c \<Rightarrow> c), su_pc := R_Projected n\<rparr>"
    have "sub_facts (ow_log w) (ow_now w) (rg_progress (ow_registry w)) (rg_cells (ow_registry w) ! k) (?g ?s)"
      using own R_Cutoff d by (auto simp: sub_facts_def pc_facts_def running_def split: option.splits)
    then have "out_inv (with_sub k ?g w)" using R_Cutoff by (intro with_sub_inv [OF inv k]) (simp_all add: held_event_def)
    then show ?thesis using R_Cutoff by (simp add: receive_act_def)
  next
    case (R_Projected n)
    then have "out_inv (goto k R_Again w)" if "the (su_cutoff ?s) \<le> rg_progress (ow_registry w)"
      using that facts by (intro goto_inv [OF inv k]) (auto simp: running_def held_event_def pc_facts_def)
    then show ?thesis using R_Projected trivial by (simp add: receive_act_def running_def)
  next
    case R_Again
    then obtain c where c: "su_cutoff ?s = Some c" "c \<le> rg_progress (ow_registry w)" using facts by (auto simp: pc_facts_def)
    have "out_inv (look_cell k (R_Done (Err OE_ConfirmationExpired)) w)"
    proof (rule look_cell_inv [OF inv k])
      assume "cl_outcome (rg_cells (ow_registry w) ! k) = Pending_Cell" "\<not> cl_poisoned (rg_cells (ow_registry w) ! k)"
      then have "\<forall>x \<in> set (map fst (take (unat (rg_progress (ow_registry w))) (ow_log w))). \<not> wanted (su_slot ?s) x"
        using own(1) R_Again by (simp add: sub_facts_def cell_ok_def)
      moreover have "set (take (unat c) (ow_log w)) \<subseteq> set (take (unat (rg_progress (ow_registry w))) (ow_log w))"
        using c(2) by (intro set_take_subset_set_take) (simp add: word_le_nat_alt)
      ultimately show "pc_facts (ow_log w) (ow_now w) (rg_progress (ow_registry w)) (?s\<lparr>su_pc := R_Done (Err OE_ConfirmationExpired)\<rparr>)"
        using c(1) by (auto simp: pc_facts_def)
    qed (use R_Again in \<open>simp_all add: running_def held_event_def\<close>)
    then show ?thesis using R_Again by (simp add: receive_act_def)
  next
    case (R_Settle n)
    then show ?thesis using trivial by (simp add: receive_act_def running_def Let_def)
  next
    case (R_Wait d)
    let ?g = "\<lambda>s. s\<lparr>su_seen := rg_version (ow_registry w), su_pc := R_Take\<rparr>"
    have "sub_facts (ow_log w) (ow_now w) (rg_progress (ow_registry w)) (rg_cells (ow_registry w) ! k) (?g ?s)"
      using own R_Wait by (auto simp: sub_facts_def pc_facts_def running_def)
    then have "out_inv (with_sub k ?g w)" using R_Wait by (intro with_sub_inv [OF inv k]) (simp_all add: held_event_def)
    then show ?thesis using R_Wait trivial inv by (simp add: receive_act_def running_def)
  next
    case R_Closed
    then have "out_inv (look_cell k (R_Done (Err OE_Revoked)) w)" by (intro look_cell_inv [OF inv k]) (simp_all add: running_def held_event_def pc_facts_def)
    then show ?thesis using R_Closed by (simp add: receive_act_def)
  qed (use inv in \<open>simp_all add: receive_act_def\<close>)
qed

lemma free_cell_bytes:
  "c < length (rg_cells r) \<Longrightarrow> rg_paths (free_cell c r) + cells_total (rg_cells (free_cell c r)) = rg_paths r + cells_total (rg_cells r)"
  using cells_total_update [of c "rg_cells r" "(rg_cells r ! c)\<lparr>cl_outcome := Consumed_Cell\<rparr>"]
  by (simp add: free_cell_def set_outcome_def cell_bytes_def)

lemma free_cell_fields [simp]:
  "rg_slots (free_cell c r) = rg_slots r" "rg_next_id (free_cell c r) = rg_next_id r" "length (rg_cells (free_cell c r)) = length (rg_cells r)"
  "same_net r (free_cell c r)" "d \<noteq> c \<Longrightarrow> rg_cells (free_cell c r) ! d = rg_cells r ! d"
  by (simp_all add: free_cell_def set_outcome_def same_net_def)

text \<open>What is left of the registry when a subscription is dropped.\<close>

definition dropped_registry :: "nat \<Rightarrow> OutputSubscription \<Rightarrow> OutRegistry \<Rightarrow> OutRegistry \<Rightarrow> bool" where
  "dropped_registry k s r r' \<longleftrightarrow> same_net r r' \<and> length (rg_cells r') = length (rg_cells r) \<and>
     rg_paths r' + cells_total (rg_cells r') = rg_paths r + cells_total (rg_cells r) \<and> (\<forall>d. d \<noteq> k \<longrightarrow> rg_cells r' ! d = rg_cells r ! d) \<and>
     (rg_slots r' = rg_slots r \<or> rg_slots r' = (rg_slots r)[su_index s := None])"

lemma drop_sub_registry:
  assumes inv: "out_inv w" and k: "k < length (ow_subs w)"
  shows "\<exists>r'. drop_sub k w = goto k (R_Gone (case su_pc (ow_subs w ! k) of R_Done (Ok e) \<Rightarrow> Some e | _ \<Rightarrow> None)) (w\<lparr>ow_registry := r'\<rparr>) \<and>
    dropped_registry k (ow_subs w ! k) (ow_registry w) r'"
proof -
  note own = own_facts [OF inv k]
  let ?s = "ow_subs w ! k" and ?r = "ow_registry w"
  let ?r' = "if ow_alive w then unregister_output (su_index ?s) (sl_id (su_slot ?s)) k ?r else free_cell k ?r"
  have "dropped_registry k ?s ?r (free_cell k ?r)" using free_cell_bytes [OF own(3)] by (simp add: dropped_registry_def)
  moreover have "dropped_registry k ?s ?r (free_cell k (?r\<lparr>rg_slots := (rg_slots ?r)[su_index ?s := None]\<rparr>))"
    using free_cell_bytes [of k "?r\<lparr>rg_slots := (rg_slots ?r)[su_index ?s := None]\<rparr>"] own(3)
    by (simp add: dropped_registry_def same_net_def free_cell_def set_outcome_def)
  moreover have "dropped_registry k ?s ?r ?r" by (simp add: dropped_registry_def same_net_def)
  ultimately have "dropped_registry k ?s ?r ?r'" by (simp add: unregister_output_def)
  then show ?thesis by (intro exI [of _ ?r']) (simp add: drop_sub_def Let_def own(2))
qed

lemma table_inv_drop:
  assumes t: "table_inv r subs" and k: "k < length subs" and live: "live (subs ! k)" and d: "dropped_registry k (subs ! k) r r'"
  shows "table_inv r' (subs[k := (subs ! k)\<lparr>su_pc := R_Gone e\<rparr>])"
proof -
  let ?s = "(subs ! k)\<lparr>su_pc := R_Gone e\<rparr>" and ?i = "su_index (subs ! k)"
  have i: "?i < MAX_SUBSCRIPTIONS" "rg_slots r ! ?i = Some (su_slot (subs ! k))" using t k live by (auto simp: table_inv_def)
  have a: "table_inv (r'\<lparr>rg_slots := rg_slots r\<rparr>) (subs[k := ?s])"
    using d by (intro table_inv_sub [OF t k]) (simp_all add: dropped_registry_def same_net_def)
  have other: "su_index u \<noteq> ?i" if u: "u \<in> set (subs[k := ?s])" "live u" for u
  proof
    assume e: "su_index u = ?i"
    obtain j where j: "j < length subs" "u = subs[k := ?s] ! j" using u(1) by (metis in_set_conv_nth length_list_update)
    then have "j \<noteq> k" using u(2) k by auto
    then have uj: "u = subs ! j" using j by simp
    then have "rg_slots r ! su_index u = Some (su_slot u)" using t j(1) u(2) by (simp add: table_inv_def)
    then have "su_slot u = su_slot (subs ! k)" using i(2) e by simp
    moreover have "sl_cell (su_slot (subs ! j)) = j" "sl_cell (su_slot (subs ! k)) = k" using t j(1) k by (simp_all add: table_inv_def)
    ultimately have "j = k" using uj by metis
    then show False using \<open>j \<noteq> k\<close> by simp
  qed
  from d have "rg_slots r' = rg_slots r \<or> rg_slots r' = (rg_slots r)[?i := None]" by (simp add: dropped_registry_def)
  then show ?thesis
  proof
    assume "rg_slots r' = rg_slots r"
    then show ?thesis using a by (simp add: table_inv_def)
  next
    assume s: "rg_slots r' = (rg_slots r)[?i := None]"
    have "rg_slots r' ! su_index u = Some (su_slot u)" if "u \<in> set (subs[k := ?s])" "live u" for u
      using a that other [OF that] unfolding table_inv_def s by simp
    moreover have "rg_slots r' ! j = Some u \<Longrightarrow> rg_slots r ! j = Some u" for j u
      using s i(1) table_length [OF t] by (cases "j = ?i") simp_all
    ultimately show ?thesis using a s unfolding table_inv_def by simp
  qed
qed

lemma drops_inv:
  assumes inv: "out_inv w" and k: "k < length (ow_subs w)" and live: "live (ow_subs w ! k)"
  shows "out_inv (drop_sub k w)"
proof -
  let ?s = "ow_subs w ! k"
  let ?e = "case su_pc ?s of R_Done (Ok e) \<Rightarrow> Some e | _ \<Rightarrow> None"
  obtain r' where d: "drop_sub k w = goto k (R_Gone ?e) (w\<lparr>ow_registry := r'\<rparr>)" and r: "dropped_registry k ?s (ow_registry w) r'"
    using drop_sub_registry [OF inv k] by blast
  note own = own_facts [OF inv k]
  have h: "held_event (R_Gone ?e) = held_event (su_pc ?s)"
    using live by (auto simp: held_event_def split: receive_pc.splits sum.splits)
  have t: "table_inv r' ((ow_subs w)[k := ?s\<lparr>su_pc := R_Gone ?e\<rparr>])"
    using inv by (intro table_inv_drop [OF _ k live r]) (simp add: out_inv_def)
  have b: "bytes_inv r' ((ow_subs w)[k := ?s\<lparr>su_pc := R_Gone ?e\<rparr>])"
    using inv r h held_update [OF k, of "\<lambda>s. event_bytes (held_event (su_pc s))" "?s\<lparr>su_pc := R_Gone ?e\<rparr>"]
    by (simp add: out_inv_def bytes_inv_def dropped_registry_def)
  have "sub_facts (ow_log w) (ow_now w) (rg_progress r') (rg_cells r' ! j) ((ow_subs w)[k := ?s\<lparr>su_pc := R_Gone ?e\<rparr>] ! j)"
    if j: "j < length (ow_subs w)" for j
  proof (cases "j = k")
    case True
    have "pc_facts (ow_log w) (ow_now w) (rg_progress r') (?s\<lparr>su_pc := R_Gone ?e\<rparr>)"
      using own(1) by (auto simp: sub_facts_def pc_facts_def split: receive_pc.splits sum.splits)
    then show ?thesis using own(1) True k by (simp add: sub_facts_def running_def)
  next
    case False
    then show ?thesis using inv j r by (simp add: out_inv_def dropped_registry_def same_net_def)
  qed
  moreover have "net_inv (w\<lparr>ow_registry := r', ow_subs := (ow_subs w)[k := ?s\<lparr>su_pc := R_Gone ?e\<rparr>]\<rparr>)"
    using inv r by (simp add: out_inv_def net_inv_def dropped_registry_def same_net_def)
  ultimately show ?thesis using t b d by (simp add: out_inv_def with_sub_def)
qed

lemma drops_event_inv:
  assumes inv: "out_inv w" and k: "k < length (ow_subs w)" and e: "su_pc (ow_subs w ! k) = R_Gone (Some e)"
  shows "out_inv (drop_event k e w)"
proof -
  let ?r = "(ow_registry w)\<lparr>rg_paths := rg_paths (ow_registry w) + event_bytes (Some e)\<rparr>"
  let ?s = "(ow_subs w ! k)\<lparr>su_pc := R_Gone None\<rparr>"
  have "out_inv (w\<lparr>ow_registry := ?r, ow_subs := (ow_subs w)[k := ?s]\<rparr>)"
    using own_facts(1) [OF inv k] e
    by (intro sub_update_inv [OF inv k, where x = "rg_cells (ow_registry w) ! k"])
      (simp_all add: same_net_def held_event_def event_bytes_def sub_facts_def pc_facts_def running_def)
  then show ?thesis by (simp add: drop_event_def with_sub_def)
qed

section \<open>Subscribing and receiving from the socket keep it\<close>

lemma subscribes_inv:
  assumes inv: "out_inv w" and t: "ow_now w \<le> t"
    and sub: "subscribe_output (ow_alive w) (ow_handle w) (ow_cursor w) t kind deadline (ow_registry w) = (Ok s, r)"
  shows "out_inv (w\<lparr>ow_registry := r, ow_subs := ow_subs w @ [s]\<rparr>)"
proof -
  let ?r = "ow_registry w" and ?n = "length (ow_subs w)"
  have tab: "table_inv ?r (ow_subs w)" and len: "length (rg_cells ?r) = ?n" using inv by (simp_all add: out_inv_def table_inv_def)
  obtain i n where i: "position (\<lambda>s. s = None) (rg_slots ?r) = Some i" and n: "rg_next_id ?r = Some n"
    using sub by (auto simp: subscribe_output_def out_identity_def Let_def split: if_splits option.splits)
  define sl where "sl = \<lparr>sl_id = n, sl_kind = kind, sl_after = ow_cursor w, sl_registered = t, sl_deadline = deadline, sl_cell = ?n\<rparr>"
  have s: "s = \<lparr>su_slot = sl, su_index = i, su_settlement = 0, su_seen = rg_version ?r, su_cutoff = None, su_pc = R_Idle\<rparr>"
    and r: "r = ?r\<lparr>rg_next_id := checked_add n 1, rg_slots := (rg_slots ?r)[i := Some sl],
        rg_cells := rg_cells ?r @ [\<lparr>cl_outcome = Pending_Cell, cl_poisoned = False\<rparr>]\<rparr>"
    using sub i n len by (auto simp: subscribe_output_def out_identity_def Let_def sl_def split: if_splits)
  have free: "i < MAX_SUBSCRIPTIONS" "rg_slots ?r ! i = None" using position_Some [OF i] table_length [OF tab] by simp_all
  have ids: "\<And>u. u \<in> set (ow_subs w) \<Longrightarrow> sl_id (su_slot u) < n" using tab n by (simp add: table_inv_def)
  have "sl_after sl = ow_cursor w" by (simp add: sl_def)
  have idx: "su_index u \<noteq> i" if "u \<in> set (ow_subs w)" "live u" for u
  proof
    assume "su_index u = i"
    moreover have "rg_slots ?r ! su_index u = Some (su_slot u)" using tab that by (simp add: table_inv_def)
    ultimately show False using free(2) by simp
  qed
  have "table_inv r (ow_subs w @ [s])"
    unfolding table_inv_def
  proof (intro conjI)
    show "distinct (map (\<lambda>s. sl_id (su_slot s)) (ow_subs w @ [s]))"
      using tab ids by (auto simp: table_inv_def s sl_def)
    show "\<forall>m. rg_next_id r = Some m \<longrightarrow> (\<forall>u \<in> set (ow_subs w @ [s]). sl_id (su_slot u) < m)"
      using ids by (fastforce simp: r s sl_def checked_add_Some_iff word_less_nat_alt)
    show "\<forall>j < MAX_SUBSCRIPTIONS. \<forall>u. rg_slots r ! j = Some u \<longrightarrow> sl_cell u < length (ow_subs w @ [s]) \<and>
        su_slot ((ow_subs w @ [s]) ! sl_cell u) = u \<and> su_index ((ow_subs w @ [s]) ! sl_cell u) = j"
    proof (intro allI impI)
      fix j u
      assume j: "j < MAX_SUBSCRIPTIONS" and u: "rg_slots r ! j = Some u"
      show "sl_cell u < length (ow_subs w @ [s]) \<and> su_slot ((ow_subs w @ [s]) ! sl_cell u) = u \<and> su_index ((ow_subs w @ [s]) ! sl_cell u) = j"
      proof (cases "j = i")
        case True
        then have "u = sl" using u free table_length [OF tab] by (simp add: r)
        then show ?thesis using True by (simp add: s sl_def)
      next
        case False
        then have "rg_slots ?r ! j = Some u" using u by (simp add: r)
        then have "sl_cell u < ?n \<and> su_slot (ow_subs w ! sl_cell u) = u \<and> su_index (ow_subs w ! sl_cell u) = j" using table_slot [OF tab j] by blast
        then show ?thesis by (auto simp: nth_append)
      qed
    qed
    show "\<forall>u \<in> set (ow_subs w @ [s]). su_index u < MAX_SUBSCRIPTIONS \<and> (live u \<longrightarrow> rg_slots r ! su_index u = Some (su_slot u))"
    proof
      fix u assume "u \<in> set (ow_subs w @ [s])"
      then consider "u = s" | "u \<in> set (ow_subs w)" by auto
      then show "su_index u < MAX_SUBSCRIPTIONS \<and> (live u \<longrightarrow> rg_slots r ! su_index u = Some (su_slot u))"
      proof cases
        case 1
        then show ?thesis using free table_length [OF tab] by (simp add: s r)
      next
        case 2
        then show ?thesis using tab idx [OF 2] by (auto simp: table_inv_def r)
      qed
    qed
  qed (use tab in \<open>auto simp: table_inv_def r s sl_def nth_append\<close>)
  moreover have "bytes_inv r (ow_subs w @ [s])"
    using inv by (simp add: out_inv_def bytes_inv_def r s cells_total_def cell_bytes_def held_event_def event_bytes_def)
  moreover have "sub_facts (ow_log w) (ow_now w) (rg_progress r) (rg_cells r ! j) ((ow_subs w @ [s]) ! j)" if "j < Suc ?n" for j
  proof (cases "j = ?n")
    case True
    have "\<not> wanted sl ev" if ev: "ev \<in> set (map fst (ow_log w))" for ev
    proof -
      obtain m where "m < length (ow_log w)" "ev = fst (ow_log w ! m)" using ev by (auto simp: in_set_conv_nth)
      then have "unat (ev_sequence ev) \<le> unat (ow_cursor w)" using inv by (auto simp: out_inv_def net_inv_def)
      then show ?thesis by (auto simp: wanted_def slot_wants_def sl_def word_less_nat_alt)
    qed
    then have "cell_ok (map fst (take (unat (rg_progress ?r)) (ow_log w))) sl \<lparr>cl_outcome = Pending_Cell, cl_poisoned = False\<rparr>"
      by (auto simp: cell_ok_def dest!: in_set_takeD)
    then show ?thesis using True len by (simp add: sub_facts_def pc_facts_def running_def r s nth_append)
  next
    case False
    then show ?thesis using inv that len by (simp add: out_inv_def r nth_append)
  qed
  moreover have "net_inv (w\<lparr>ow_registry := r, ow_subs := ow_subs w @ [s]\<rparr>)" using inv by (simp add: out_inv_def net_inv_def r)
  ultimately show ?thesis by (simp add: out_inv_def)
qed

lemma refused_registry:
  assumes "subscribe_output alive h cursor t kind deadline r = (Err e, r')"
  shows "r' = r"
  using assms by (auto simp: subscribe_output_def out_identity_def Let_def split: if_splits option.splits)

lemma numbers_inv:
  assumes inv: "out_inv w" and num: "number_event kept w = Some v"
  shows "out_inv v"
proof -
  obtain t d stamp n where st: "ow_stamped w = Some (t, d, stamp)" and n: "checked_add (ow_cursor w) 1 = Some n"
    using num by (auto simp: number_event_def split: option.splits)
  define ev where "ev = \<lparr>ev_connection = oh_token (ow_handle w), ev_sequence = n, ev_type = t, ev_data = d, ev_received = stamp\<rparr>"
  have v: "v = w\<lparr>ow_cursor := n, ow_stamped := None, ow_broken := ow_broken w \<or> \<not> kept, ow_log := ow_log w @ [(ev, ow_now w)],
      ow_queue := (if kept then ow_queue w @ [ev] else ow_queue w)\<rparr>"
    using num st n by (auto simp: number_event_def ev_def Let_def)
  have len: "unat n = Suc (length (ow_log w))" "unat (rg_progress (ow_registry w)) \<le> length (ow_log w)"
    using n inv by (simp_all add: checked_add_Some_iff out_inv_def net_inv_def)
  have "net_inv v"
  proof -
    have "rg_active (ow_registry w) \<and> \<not> rg_poisoned (ow_registry w) \<Longrightarrow> ow_queue w = map fst (drop (unat (rg_progress (ow_registry w))) (ow_log w))"
      using inv st by (auto simp: out_inv_def net_inv_def)
    then show ?thesis using inv len by (auto simp: out_inv_def net_inv_def v ev_def nth_append less_Suc_eq)
  qed
  moreover have "\<forall>k < length (ow_subs w). sub_facts (ow_log w @ [(ev, ow_now w)]) (ow_now w) (rg_progress (ow_registry w)) (rg_cells (ow_registry w) ! k) (ow_subs w ! k)"
    using inv len(2) sub_facts_log by (simp add: out_inv_def)
  ultimately show ?thesis using inv by (simp add: out_inv_def v)
qed

lemma out_step_inv:
  assumes "out_step w v" "out_inv w"
  shows "out_inv v"
  using assms
proof cases
  case (ticks t)
  have "net_inv v" using assms(2) ticks by (auto simp: out_inv_def net_inv_def)
  then show ?thesis using assms(2) ticks sub_facts_now by (auto simp: out_inv_def)
next
  case (poisons_cell c)
  let ?x = "(rg_cells (ow_registry w) ! c)\<lparr>cl_poisoned := True\<rparr>"
  have b: "cells_total ((rg_cells (ow_registry w))[c := ?x]) = cells_total (rg_cells (ow_registry w))"
    using cells_total_update [OF poisons_cell(2), of ?x] by (simp add: cell_bytes_def)
  have "sub_facts (ow_log w) (ow_now w) (rg_progress (ow_registry w)) ((rg_cells (ow_registry w))[c := ?x] ! k) (ow_subs w ! k)"
    if "k < length (ow_subs w)" for k
  proof -
    have f: "sub_facts (ow_log w) (ow_now w) (rg_progress (ow_registry w)) (rg_cells (ow_registry w) ! k) (ow_subs w ! k)"
      using assms(2) that by (simp add: out_inv_def)
    then show ?thesis using poisons_cell(2) by (cases "k = c") (auto simp: sub_facts_def cell_ok_def)
  qed
  then show ?thesis using assms(2) b by (simp add: out_inv_def net_inv_def table_inv_def bytes_inv_def poisons_cell(1))
next
  case (calls k settlement)
  have "out_inv (with_sub k (\<lambda>s. s\<lparr>su_settlement := settlement, su_pc := R_Take\<rparr>) w)"
    using own_facts(1) [OF assms(2) calls(2)] calls(3)
    by (intro with_sub_inv [OF assms(2) calls(2)]) (simp_all add: held_event_def sub_facts_def pc_facts_def running_def)
  then show ?thesis using calls by simp
next
  case (refuses t kind deadline e r)
  then show ?thesis using assms(2) refused_registry [OF refuses(2)] by simp
next
  case (projects ev q)
  then show ?thesis using projects_inv [OF assms(2) projects(3)] by simp
next
  case revokes
  then show ?thesis using revokes_inv [OF assms(2)] by simp
next
  case (subscribes t kind deadline s r)
  then show ?thesis using subscribes_inv [OF assms(2) subscribes(2,3)] by simp
next
  case (numbers kept)
  then show ?thesis by (rule numbers_inv [OF assms(2)])
next
  case (acts k)
  then show ?thesis using receive_act_inv [OF assms(2)] by simp
next
  case (drops k)
  then show ?thesis using drops_inv [OF assms(2)] by simp
next
  case (drops_event k e)
  then show ?thesis using drops_event_inv [OF assms(2)] by simp
qed (use assms(2) in \<open>auto simp: out_inv_def net_inv_def table_inv_def bytes_inv_def\<close>)

lemma out_reachable_inv: "out_step\<^sup>*\<^sup>* (out_start token subscriptions now) w \<Longrightarrow> out_inv w"
  by (induction rule: rtranclp_induct) (rule out_start_inv, rule out_step_inv)

section \<open>A receive ends\<close>

text \<open>How many of its own steps a receive still takes once its settlement deadline has passed.\<close>

definition receive_rank :: "nat \<Rightarrow> out_world \<Rightarrow> nat" where
  "receive_rank k w = (let s = ow_subs w ! k; fresh = (\<lambda>n. su_settlement s \<le> n) in case su_pc s of
     R_Closed \<Rightarrow> 1 | R_Again \<Rightarrow> 1 | R_Settle n \<Rightarrow> if fresh n then 2 else 9 | R_Projected n \<Rightarrow> if fresh n then 3 else 10
   | R_Cutoff n \<Rightarrow> if fresh n then 4 else 11 | R_Clock \<Rightarrow> 5 | R_Alive \<Rightarrow> 6 | R_Take \<Rightarrow> 7 | R_Wait _ \<Rightarrow> 8 | _ \<Rightarrow> 0)"

definition due :: "nat \<Rightarrow> out_world \<Rightarrow> bool" where
  "due k w \<longleftrightarrow> out_inv w \<and> k < length (ow_subs w) \<and> running (ow_subs w ! k) \<and> su_pc (ow_subs w ! k) \<noteq> R_Idle \<and> su_settlement (ow_subs w ! k) \<le> ow_now w"

lemma look_cell_pc:
  assumes "k < length (ow_subs w)"
  shows "su_pc (ow_subs (look_cell k pc w) ! k) = pc \<or> (\<exists>v. su_pc (ow_subs (look_cell k pc w) ! k) = R_Done v)"
    "su_settlement (ow_subs (look_cell k pc w) ! k) = su_settlement (ow_subs w ! k)" "ow_now (look_cell k pc w) = ow_now w"
    "length (ow_subs (look_cell k pc w)) = length (ow_subs w)"
  using assms by (auto simp: look_cell_def with_sub_def split: prod.splits sum.splits option.splits)

lemma act_rank:
  assumes d: "due k w"
  shows "(\<exists>v. su_pc (ow_subs (receive_act k w) ! k) = R_Done v) \<or> due k (receive_act k w) \<and> receive_rank k (receive_act k w) < receive_rank k w"
proof -
  let ?s = "ow_subs w ! k"
  have k: "k < length (ow_subs w)" and inv: "out_inv w" and now: "su_settlement ?s \<le> ow_now w" and run: "running ?s" "su_pc ?s \<noteq> R_Idle"
    using d by (simp_all add: due_def)
  have inv': "out_inv (receive_act k w)" by (rule receive_act_inv [OF inv k])
  have wait: "su_pc ?s = R_Wait n \<Longrightarrow> n \<le> ow_now w" for n
    using own_facts(1) [OF inv k] now by (simp add: sub_facts_def pc_facts_def)
  show ?thesis
  proof (cases "su_pc ?s")
    case R_Take
    then have a: "receive_act k w = look_cell k R_Alive w" by (simp add: receive_act_def)
    show ?thesis using look_cell_pc [OF k, of R_Alive] inv' k now R_Take
      by (auto simp: a due_def running_def receive_rank_def Let_def)
  next
    case R_Again
    then have a: "receive_act k w = look_cell k (R_Done (Err OE_ConfirmationExpired)) w" by (simp add: receive_act_def)
    show ?thesis using look_cell_pc [OF k, of "R_Done (Err OE_ConfirmationExpired)"] by (auto simp: a)
  next
    case R_Closed
    then have a: "receive_act k w = look_cell k (R_Done (Err OE_Revoked)) w" by (simp add: receive_act_def)
    show ?thesis using look_cell_pc [OF k, of "R_Done (Err OE_Revoked)"] by (auto simp: a)
  next
    case (R_Wait n)
    then show ?thesis using k now wait [OF R_Wait] inv'
      by (auto simp: receive_act_def with_sub_def due_def running_def receive_rank_def Let_def)
  qed (use k now inv' run in \<open>auto simp: receive_act_def with_sub_def due_def running_def receive_rank_def Let_def\<close>)
qed

lemma due_ends: "due k w \<Longrightarrow> \<exists>n \<le> receive_rank k w. \<exists>v. su_pc (ow_subs ((receive_act k ^^ n) w) ! k) = R_Done v"
proof (induction "receive_rank k w" arbitrary: w rule: less_induct)
  case less
  from act_rank [OF less.prems] show ?case
  proof
    assume a: "\<exists>v. su_pc (ow_subs (receive_act k w) ! k) = R_Done v"
    have "receive_rank k w \<noteq> 0" using less.prems by (auto simp: due_def running_def receive_rank_def Let_def split: receive_pc.splits)
    then show ?thesis using a by (intro exI [of _ 1]) simp
  next
    assume a: "due k (receive_act k w) \<and> receive_rank k (receive_act k w) < receive_rank k w"
    then obtain n v where "n \<le> receive_rank k (receive_act k w)" "su_pc (ow_subs ((receive_act k ^^ n) (receive_act k w)) ! k) = R_Done v"
      using less.hyps by blast
    then show ?thesis using a by (intro exI [of _ "Suc n"]) (simp add: funpow_swap1)
  qed
qed

section \<open>A run\<close>

definition record_started :: json where
  "record_started = JObject [(''outputPath'', JString ''/v/a.mkv''), (''outputState'', JString ''OBS_WEBSOCKET_OUTPUT_STARTED'')]"

definition watch_slot :: OutSlot where
  "watch_slot = \<lparr>sl_id = 1, sl_kind = Out_Record, sl_after = 0, sl_registered = 100, sl_deadline = 105, sl_cell = 0\<rparr>"

definition watch_sub :: "receive_pc \<Rightarrow> u64 option \<Rightarrow> OutputSubscription" where
  "watch_sub pc c = \<lparr>su_slot = watch_slot, su_index = 0, su_settlement = (if pc = R_Idle then 0 else 120), su_seen = 0, su_cutoff = c, su_pc = pc\<rparr>"

definition watch_world :: "nat \<Rightarrow> OutputSubscription \<Rightarrow> out_world" where
  "watch_world t s = (out_start 1 OUTPUT_EVENTS t)\<lparr>ow_subs := [s], ow_registry := (new_out_registry 1)
     \<lparr>rg_next_id := Some 2, rg_slots := Some watch_slot # replicate 31 None, rg_cells := [\<lparr>cl_outcome = Pending_Cell, cl_poisoned = False\<rparr>]\<rparr>\<rparr>"

definition started_event :: "nat \<Rightarrow> SeenEvent" where
  "started_event t = \<lparr>ev_connection = 1, ev_sequence = 1, ev_type = ''RecordStateChanged'', ev_data = Some record_started, ev_received = t\<rparr>"

lemma slots_free: "replicate 32 None = None # replicate 31 (None :: OutSlot option)"
  by (simp add: numeral_eq_Suc)

lemma watch_subscribes: "out_step\<^sup>*\<^sup>* (out_start 1 OUTPUT_EVENTS 100) (watch_world 100 (watch_sub R_Idle None))"
proof -
  have "subscribe_output True (ow_handle (out_start 1 OUTPUT_EVENTS 100)) 0 100 Out_Record 105 (new_out_registry 1) =
      (Ok (watch_sub R_Idle None), ow_registry (watch_world 100 (watch_sub R_Idle None)))"
    by (simp add: subscribe_output_def out_start_def new_out_registry_def MAX_SUBSCRIPTIONS_def slots_free out_identity_def
        watch_sub_def watch_slot_def watch_world_def checked_add_def Let_def)
  then have "out_step (out_start 1 OUTPUT_EVENTS 100) (watch_world 100 (watch_sub R_Idle None))"
    using subscribes [of "out_start 1 OUTPUT_EVENTS 100" 100 Out_Record 105] by (simp add: out_start_def watch_world_def)
  then show ?thesis by (rule r_into_rtranclp)
qed

lemma watch_calls: "out_step\<^sup>*\<^sup>* (watch_world t (watch_sub R_Idle None)) (watch_world t (watch_sub R_Take None))"
  using calls [of 0 "watch_world t (watch_sub R_Idle None)" 120] by (intro r_into_rtranclp) (simp add: watch_world_def with_sub_def watch_sub_def out_start_def)

lemma watch_waits: "out_step\<^sup>*\<^sup>* (watch_world 100 s) (watch_world 105 s)"
  using ticks [of "watch_world 100 s" 105] by (intro r_into_rtranclp) (simp add: watch_world_def out_start_def)

text \<open>One step of the receive.\<close>

lemma watch_acts:
  assumes "k < length (ow_subs w)" "receive_act k w = v"
  shows "out_step\<^sup>*\<^sup>* w v"
  using acts [OF assms(1)] assms(2) by auto

lemmas watch_simps = receive_act_def look_cell_def cell_take_def with_sub_def watch_world_def watch_sub_def watch_slot_def out_start_def new_out_registry_def

lemma watch_expires: "out_step\<^sup>*\<^sup>* (watch_world 105 (watch_sub R_Take None)) (watch_world 105 (watch_sub (R_Done (Err OE_ConfirmationExpired)) (Some 0)))"
proof -
  let ?w = "\<lambda>pc c. watch_world 105 (watch_sub pc c)"
  have "out_step\<^sup>*\<^sup>* (?w R_Take None) (?w R_Alive None)" by (rule watch_acts [of 0]) (simp_all add: watch_simps)
  moreover have "out_step\<^sup>*\<^sup>* (?w R_Alive None) (?w R_Clock None)" by (rule watch_acts [of 0]) (simp_all add: watch_simps)
  moreover have "out_step\<^sup>*\<^sup>* (?w R_Clock None) (?w (R_Cutoff 105) None)" by (rule watch_acts [of 0]) (simp_all add: watch_simps)
  moreover have "out_step\<^sup>*\<^sup>* (?w (R_Cutoff 105) None) (?w (R_Projected 105) (Some 0))" by (rule watch_acts [of 0]) (simp_all add: watch_simps)
  moreover have "out_step\<^sup>*\<^sup>* (?w (R_Projected 105) (Some 0)) (?w R_Again (Some 0))" by (rule watch_acts [of 0]) (simp_all add: watch_simps)
  moreover have "out_step\<^sup>*\<^sup>* (?w R_Again (Some 0)) (?w (R_Done (Err OE_ConfirmationExpired)) (Some 0))"
    by (rule watch_acts [of 0]) (simp_all add: watch_simps)
  ultimately show ?thesis by (meson rtranclp_trans)
qed

definition with_started :: "nat \<Rightarrow> out_world \<Rightarrow> out_world" where
  "with_started t w = w\<lparr>ow_cursor := 1, ow_log := [(started_event t, t)], ow_queue := [started_event t]\<rparr>"

lemma watch_event: "out_step\<^sup>*\<^sup>* (watch_world t s) (with_started t (watch_world t s))"
proof -
  let ?v = "(watch_world t s)\<lparr>ow_stamped := Some (''RecordStateChanged'', Some record_started, t)\<rparr>"
  have "out_step (watch_world t s) ?v"
    using stamps [of "watch_world t s" "''RecordStateChanged''" "Some record_started"] by (simp add: watch_world_def out_start_def)
  moreover have "out_step ?v (with_started t (watch_world t s))"
    by (rule numbers [of True]) (simp add: number_event_def watch_world_def out_start_def checked_add_def with_started_def started_event_def Let_def)
  ultimately show ?thesis by (meson r_into_rtranclp rtranclp_trans)
qed

definition watch_seen :: "receive_pc \<Rightarrow> CellOutcome \<Rightarrow> out_world" where
  "watch_seen pc out = (with_started 100 (watch_world 100 (watch_sub pc None)))\<lparr>ow_queue := [],
     ow_registry := (ow_registry (watch_world 100 (watch_sub pc None)))\<lparr>rg_cells := [\<lparr>cl_outcome = out, cl_poisoned = False\<rparr>],
       rg_paths := PATH_BYTES - 8, rg_progress := 1, rg_version := 1\<rparr>\<rparr>"

definition watch_result :: OutputEvent where
  "watch_result = \<lparr>oe_connection = 1, oe_sequence = 1, oe_received = 100, oe_terminal = Out_Started, oe_path = Some ''/v/a.mkv''\<rparr>"

lemma each_none: "each_slot f (replicate n None) r = r"
  by (induction n) simp_all

lemma watch_projects: "out_step\<^sup>*\<^sup>* (with_started 100 (watch_world 100 (watch_sub R_Take None))) (watch_seen R_Take (Ready_Cell (Ok watch_result)))"
proof -
  let ?w = "with_started 100 (watch_world 100 (watch_sub R_Take None))"
  have "publish_output (started_event 100) (ow_registry ?w) = ow_registry (watch_seen R_Take (Ready_Cell (Ok watch_result)))"
    by (simp add: publish_output_def with_started_def watch_world_def new_out_registry_def started_event_def kind_from_event_def event_terminal_def
        event_field_def record_started_def project_slot_def slot_wants_def watch_slot_def lease_path_def event_path_def PATH_BYTES_def
        set_outcome_def seen_output_def each_none announce_def watch_seen_def watch_result_def)
  then show ?thesis using projects [of ?w "started_event 100" "[]"]
    by (intro r_into_rtranclp) (simp add: with_started_def watch_world_def watch_seen_def out_start_def)
qed

lemma watch_receives: "out_step\<^sup>*\<^sup>* (watch_seen R_Take (Ready_Cell (Ok watch_result))) (watch_seen (R_Done (Ok watch_result)) Consumed_Cell)"
  by (rule watch_acts [of 0]) (simp_all add: watch_seen_def with_started_def set_outcome_def watch_simps)

section \<open>Guarantees\<close>

text \<open>C17: a subscription is told that its confirmation expired only if no event it waits for was numbered before its deadline:
  whatever the observer's delay and the interleaving of socket, observer and subscribers, every started or stopped event of
  its output that the socket received for it was given its number when the clock had already reached the deadline.\<close>

theorem expiry_is_true:
  assumes "out_step\<^sup>*\<^sup>* (out_start token subscriptions now) w" and "k < length (ow_subs w)"
    and "su_pc (ow_subs w ! k) = R_Done (Err OE_ConfirmationExpired)"
    and "(ev, numbered) \<in> set (ow_log w)" and "wanted (su_slot (ow_subs w ! k)) ev"
  shows "sl_deadline (su_slot (ow_subs w ! k)) \<le> numbered"
proof -
  let ?s = "ow_subs w ! k"
  have f: "sub_facts (ow_log w) (ow_now w) (rg_progress (ow_registry w)) (rg_cells (ow_registry w) ! k) ?s"
    by (rule own_facts(1) [OF out_reachable_inv [OF assms(1)] assms(2)])
  then obtain c where c: "su_cutoff ?s = Some c" "\<forall>x \<in> set (map fst (take (unat c) (ow_log w))). \<not> wanted (su_slot ?s) x"
    using assms(3) by (auto simp: sub_facts_def pc_facts_def)
  obtain i where i: "i < length (ow_log w)" "ow_log w ! i = (ev, numbered)" using assms(4) by (auto simp: in_set_conv_nth)
  have "unat c \<le> i"
  proof (rule ccontr)
    assume "\<not> unat c \<le> i"
    then have "(ev, numbered) \<in> set (take (unat c) (ow_log w))" using i by (auto simp: in_set_conv_nth intro!: exI [of _ i])
    then show False using c(2) assms(5) by force
  qed
  then show ?thesis using f c(1) i by (force simp: sub_facts_def)
qed

theorem expiry_is_true_witness:
  "wanted watch_slot (started_event 105) \<and> sl_deadline watch_slot \<le> 105"
proof -
  let ?w = "with_started 105 (watch_world 105 (watch_sub (R_Done (Err OE_ConfirmationExpired)) (Some 0)))"
  have run: "out_step\<^sup>*\<^sup>* (out_start 1 OUTPUT_EVENTS 100) ?w"
    using watch_subscribes watch_waits watch_calls watch_expires watch_event by (meson rtranclp_trans)
  have w: "wanted watch_slot (started_event 105)"
    by (simp add: wanted_def started_event_def kind_from_event_def slot_wants_def watch_slot_def event_terminal_def event_field_def record_started_def)
  have "sl_deadline (su_slot (ow_subs ?w ! 0)) \<le> 105"
    using w by (intro expiry_is_true [OF run, of 0 "started_event 105"]) (simp_all add: with_started_def watch_world_def watch_sub_def)
  then show ?thesis using w by (simp add: with_started_def watch_world_def watch_sub_def)
qed

text \<open>The event a subscription receives is the first one of its output that was numbered after it registered and received
  between its registration and its deadline, with exactly that event's connection, number, instant, state and path.\<close>

lemma first_terminal_wins:
  assumes "out_step\<^sup>*\<^sup>* (out_start token subscriptions now) w" and "k < length (ow_subs w)"
    and "su_pc (ow_subs w ! k) = R_Done (Ok e) \<or> su_pc (ow_subs w ! k) = R_Gone (Some e)"
  shows "first_seen (map fst (ow_log w)) (su_slot (ow_subs w ! k)) e"
  using own_facts(1) [OF out_reachable_inv [OF assms(1)] assms(2)] assms(3) by (auto simp: sub_facts_def pc_facts_def)

text \<open>C34: a receive ends: once the clock has reached its settlement deadline it returns after at most eleven of its own steps,
  whatever state the observer, the registry and its cell are in.\<close>

theorem receive_ends:
  assumes "out_step\<^sup>*\<^sup>* (out_start token subscriptions now) w" and "k < length (ow_subs w)" and "running (ow_subs w ! k)"
    and "su_pc (ow_subs w ! k) \<noteq> R_Idle" and "su_settlement (ow_subs w ! k) \<le> ow_now w"
  shows "\<exists>n \<le> 11. \<exists>v. su_pc (ow_subs ((receive_act k ^^ n) w) ! k) = R_Done v"
proof -
  have "due k w" using assms out_reachable_inv by (simp add: due_def)
  moreover have "receive_rank k w \<le> 11" by (simp add: receive_rank_def Let_def split: receive_pc.split)
  ultimately show ?thesis using due_ends by (meson le_trans)
qed

theorem receive_ends_witness:
  "\<exists>n \<le> 11. \<exists>v. su_pc (ow_subs ((receive_act 0 ^^ n) ((watch_world 100 (watch_sub R_Take None))\<lparr>ow_now := 120\<rparr>)) ! 0) = R_Done v"
proof (rule receive_ends)
  have "out_step (watch_world 100 (watch_sub R_Take None)) ((watch_world 100 (watch_sub R_Take None))\<lparr>ow_now := 120\<rparr>)"
    by (rule ticks) (simp add: watch_world_def out_start_def)
  then show "out_step\<^sup>*\<^sup>* (out_start 1 OUTPUT_EVENTS 100) ((watch_world 100 (watch_sub R_Take None))\<lparr>ow_now := 120\<rparr>)"
    using watch_subscribes watch_calls by (meson r_into_rtranclp rtranclp_trans)
qed (simp_all add: watch_world_def watch_sub_def running_def)

lemma live_slots: "table_inv r subs \<Longrightarrow> length (filter live subs) \<le> MAX_SUBSCRIPTIONS"
proof -
  assume t: "table_inv r subs"
  have inj: "s = u" if "s \<in> set subs" "u \<in> set subs" "live s" "live u" "su_index s = su_index u" for s u
  proof -
    from that(1) obtain i where i: "i < length subs" "s = subs ! i" by (auto simp: in_set_conv_nth)
    from that(2) obtain j where j: "j < length subs" "u = subs ! j" by (auto simp: in_set_conv_nth)
    have "rg_slots r ! su_index s = Some (su_slot s)" "rg_slots r ! su_index u = Some (su_slot u)" using t that(1-4) by (simp_all add: table_inv_def)
    then have "su_slot s = su_slot u" using that(5) by simp
    moreover have "sl_cell (su_slot (subs ! i)) = i" "sl_cell (su_slot (subs ! j)) = j" using t i j by (simp_all add: table_inv_def)
    ultimately show ?thesis using i j by metis
  qed
  have "distinct (map (\<lambda>s. sl_id (su_slot s)) subs)" using t by (simp add: table_inv_def)
  then have "distinct (filter live subs)" by (simp add: distinct_map)
  then have "length (filter live subs) = card (set (filter live subs))" by (rule distinct_card [symmetric])
  also have "\<dots> = card (su_index ` set (filter live subs))"
    by (rule card_image [symmetric], rule inj_onI, rule inj) auto
  also have "\<dots> \<le> card {..<MAX_SUBSCRIPTIONS}"
    using t by (intro card_mono) (auto simp: table_inv_def)
  finally show ?thesis by simp
qed

text \<open>The observation of outputs is bounded: at most 32 subscriptions are registered at any time, and the bytes of all paths
  that cells and receivers retain, with those still free, are always exactly the pool of 8 MiB.\<close>

lemma observation_bounded:
  assumes "out_step\<^sup>*\<^sup>* (out_start token subscriptions now) w"
  shows "length (filter live (ow_subs w)) \<le> MAX_SUBSCRIPTIONS \<and>
    rg_paths (ow_registry w) + sum_list (map cell_bytes (rg_cells (ow_registry w))) +
      sum_list (map (\<lambda>s. event_bytes (held_event (su_pc s))) (ow_subs w)) = PATH_BYTES"
  using out_reachable_inv [OF assms] live_slots [of "ow_registry w" "ow_subs w"] by (simp add: out_inv_def bytes_inv_def cells_total_def)

end
