(* ===== verification/Output_Start.thy ===== *)
theory Output_Start
  imports Output_Safety
begin

text \<open>
  Starting an output and confirming it, \<open>src/native/src/output_start.rs\<close> and \<open>output_start_v2.rs\<close>: register, ask
  OBS once, record the acknowledgement, wait for the first terminal event, and fall back to one status request.
  \<open>execute_output\<close> takes what its environment answers at each await as the record \<open>start_io\<close> and returns the
  calls it made, in order, with its result. The addition of instants (which fails beyond the range of the
  platform) and the text of a number of seconds are arguments; durations are natural numbers of nanoseconds.
\<close>

section \<open>Definitions of outputs\<close>

record OutputDefinition =
  df_label :: string
  df_request :: string
  df_status :: string
  df_event :: string
  df_timeout :: nat

definition secs :: "nat \<Rightarrow> nat" where
  "secs n = n * 1000000000"

fun output_definition :: "OutputKind \<Rightarrow> OutputDefinition" where
  "output_definition Out_Record = \<lparr>df_label = ''Recording'', df_request = ''StartRecord'', df_status = ''GetRecordStatus'',
     df_event = ''RecordStateChanged'', df_timeout = secs 5\<rparr>"
| "output_definition Out_Stream = \<lparr>df_label = ''Streaming'', df_request = ''StartStream'', df_status = ''GetStreamStatus'',
     df_event = ''StreamStateChanged'', df_timeout = secs 15\<rparr>"
| "output_definition Out_VirtualCam = \<lparr>df_label = ''Virtual camera'', df_request = ''StartVirtualCam'', df_status = ''GetVirtualCamStatus'',
     df_event = ''VirtualcamStateChanged'', df_timeout = secs 5\<rparr>"
| "output_definition Out_ReplayBuffer = \<lparr>df_label = ''Replay buffer'', df_request = ''StartReplayBuffer'', df_status = ''GetReplayBufferStatus'',
     df_event = ''ReplayBufferStateChanged'', df_timeout = secs 5\<rparr>"

definition output_body :: "string \<Rightarrow> bool \<Rightarrow> json" where
  "output_body text is_error = mk_object ([(''content'', JArray [mk_object [(''type'', JString ''text''), (''text'', JString text)]])] @
     (if is_error then [(''isError'', JBool True)] else []))"

definition started_text :: "OutputDefinition \<Rightarrow> string option \<Rightarrow> string" where
  "started_text d path = (case path of Some p \<Rightarrow> if p \<noteq> [] then df_label d @ '' started, writing to: '' @ p else df_label d @ '' started''
     | None \<Rightarrow> df_label d @ '' started'')"

definition not_active_text :: "OutputDefinition \<Rightarrow> string \<Rightarrow> string" where
  "not_active_text d why = ''OBS accepted '' @ df_request d @ '', but '' @ why @ ''. OBS may be showing an error dialog that blocks further output requests until it is dismissed. If output settings were changed with obs-set-profile-parameter, restart OBS so it rebuilds its outputs.''"

definition status_active :: "json \<Rightarrow> bool" where
  "status_active status \<longleftrightarrow> as_object status \<noteq> None \<and> get status ''outputActive'' = Some (JBool True)"

section \<open>The first version\<close>

record ObservedEvent =
  ob_at :: nat
  ob_data :: json

datatype StartOutcome = SO_Started "string option" | SO_Stopped | SO_Timeout

text \<open>The events the subscription yields before its deadline, in order; the end of the list is a timeout or its end.\<close>

fun first_outcome :: "nat \<Rightarrow> ObservedEvent list \<Rightarrow> StartOutcome" where
  "first_outcome deadline [] = SO_Timeout"
| "first_outcome deadline (e # es) =
     (if deadline < ob_at e then SO_Timeout
      else (case Option.bind (get (ob_data e) ''outputState'') as_str of
          Some s \<Rightarrow> if s = ''OBS_WEBSOCKET_OUTPUT_STARTED'' then SO_Started (Option.bind (get (ob_data e) ''outputPath'') as_str)
            else if s = ''OBS_WEBSOCKET_OUTPUT_STOPPED'' then SO_Stopped else first_outcome deadline es
        | None \<Rightarrow> first_outcome deadline es))"

definition start_output_and_confirm :: "(nat \<Rightarrow> string) \<Rightarrow> OutputDefinition \<Rightarrow> nat \<Rightarrow> (string, json) result \<Rightarrow> (string, unit) result \<Rightarrow>
    ObservedEvent list \<Rightarrow> (string, json) result \<Rightarrow> json" where
  "start_output_and_confirm seconds d now request hook events status =
     (case and_then request (\<lambda>_. hook) of
        Err message \<Rightarrow> output_body (df_label d @ '' failed to start: '' @ message) True
      | Ok _ \<Rightarrow> (let outcome = first_outcome (now + df_timeout d) events in case outcome of
          SO_Started path \<Rightarrow> output_body (started_text d path) False
        | _ \<Rightarrow> if (case status of Err _ \<Rightarrow> False | Ok s \<Rightarrow> status_active s) then output_body (df_label d @ '' started'') False
            else output_body (not_active_text d (if outcome = SO_Stopped then ''OBS stopped the output immediately after starting it''
              else ''the output did not become active within '' @ seconds (df_timeout d) @ ''s'')) True))"

section \<open>The second version\<close>

datatype RpcFate = Rpc_NotDispatched | Rpc_Rejected u64 | Rpc_Unknown

datatype TransportFate = TF_NotDispatched | TF_Rejected u64 | TF_Unknown | TF_Accepted

fun transport_fate :: "RpcFate \<Rightarrow> TransportFate" where
  "transport_fate Rpc_NotDispatched = TF_NotDispatched"
| "transport_fate (Rpc_Rejected code) = TF_Rejected code"
| "transport_fate Rpc_Unknown = TF_Unknown"

record RpcFailure =
  rf_fate :: RpcFate
  rf_message :: string

record StartTiming =
  tm_operation_deadline :: nat
  tm_confirmation :: nat
  tm_rpc :: nat

definition source_timing :: "OutputKind \<Rightarrow> nat \<Rightarrow> StartTiming" where
  "source_timing k deadline = \<lparr>tm_operation_deadline = deadline, tm_confirmation = df_timeout (output_definition k), tm_rpc = secs 10\<rparr>"

datatype Unconfirmed = UC_Stopped | UC_Expired

datatype StartDetail = SD_InvalidTiming | SD_OperationDeadline | SD_Registration OutputEventError | SD_RequestFailed RpcFate | SD_AckHookFailed
  | SD_ObservationUnavailable OutputEventError | SD_StartedEvent | SD_ActiveStatus | SD_Unconfirmed Unconfirmed "RpcFate option"

record StartExecution =
  ex_fate :: TransportFate
  ex_detail :: StartDetail
  ex_result :: json

fun output_error_name :: "OutputEventError \<Rightarrow> string" where
  "output_error_name OE_Capacity = ''Capacity''"
| "output_error_name OE_ByteCapacity = ''ByteCapacity''"
| "output_error_name OE_PathTooLarge = ''PathTooLarge''"
| "output_error_name OE_IdentityExhausted = ''IdentityExhausted''"
| "output_error_name OE_IncompleteEvents = ''IncompleteEvents''"
| "output_error_name OE_Unavailable = ''Unavailable''"
| "output_error_name OE_Revoked = ''Revoked''"
| "output_error_name OE_ConfirmationExpired = ''ConfirmationExpired''"
| "output_error_name OE_SettlementUnavailable = ''SettlementUnavailable''"

definition output_error_text :: "OutputEventError \<Rightarrow> string" where
  "output_error_text e = ''Output observation '' @ output_error_name e"

definition execution :: "TransportFate \<Rightarrow> StartDetail \<Rightarrow> string \<Rightarrow> bool \<Rightarrow> StartExecution" where
  "execution fate detail text is_error = \<lparr>ex_fate = fate, ex_detail = detail, ex_result = output_body text is_error\<rparr>"

definition rpc_deadline :: "(nat \<Rightarrow> nat \<Rightarrow> nat option) \<Rightarrow> nat \<Rightarrow> StartTiming \<Rightarrow> nat option" where
  "rpc_deadline add now tm = (if tm_operation_deadline tm \<le> now then None
     else Some (case add now (tm_rpc tm) of None \<Rightarrow> tm_operation_deadline tm | Some d \<Rightarrow> min d (tm_operation_deadline tm)))"

definition observation_unavailable :: "OutputDefinition \<Rightarrow> OutputEventError \<Rightarrow> StartExecution" where
  "observation_unavailable d e = execution TF_Accepted (SD_ObservationUnavailable e)
     (''OBS accepted '' @ df_request d @ '', but native output confirmation is unavailable ('' @ output_error_text e @ ''). Inspect current output state before any further production change; do not automatically retry the start.'') True"

datatype start_call = Call_Subscribe nat | Call_Start nat | Call_Hook | Call_Receive nat | Call_Status nat

record start_io =
  io_now :: nat
  io_subscribed :: "(OutputEventError, unit) result"
  io_now_start :: nat
  io_start :: "(RpcFailure, unit) result"
  io_hook :: "(string, unit) result"
  io_received :: "(OutputEventError, OutputEvent) result"
  io_now_status :: nat
  io_status :: "(RpcFailure, json) result"

definition unconfirmed_text :: "(nat \<Rightarrow> string) \<Rightarrow> StartTiming \<Rightarrow> Unconfirmed \<Rightarrow> string" where
  "unconfirmed_text seconds tm r = (case r of UC_Stopped \<Rightarrow> ''OBS stopped the output immediately after starting it''
     | UC_Expired \<Rightarrow> ''the output did not become active within '' @ seconds (tm_confirmation tm) @ ''s'')"

definition fallback_status :: "(nat \<Rightarrow> nat \<Rightarrow> nat option) \<Rightarrow> (nat \<Rightarrow> string) \<Rightarrow> OutputDefinition \<Rightarrow> StartTiming \<Rightarrow> start_io \<Rightarrow> Unconfirmed \<Rightarrow>
    start_call list \<times> StartExecution" where
  "fallback_status add seconds d tm io reason =
     (case rpc_deadline add (io_now_status io) tm of
        None \<Rightarrow> ([], execution TF_Accepted SD_OperationDeadline (''OBS accepted '' @ df_request d @ '', but the native operation deadline ended before fallback status could be inspected. Inspect current output state; do not automatically retry the start.'') True)
      | Some deadline \<Rightarrow> ([Call_Status deadline],
          if (case io_status io of Err _ \<Rightarrow> False | Ok s \<Rightarrow> status_active s) then execution TF_Accepted SD_ActiveStatus (df_label d @ '' started'') False
          else execution TF_Accepted (SD_Unconfirmed reason (case io_status io of Err f \<Rightarrow> Some (rf_fate f) | Ok _ \<Rightarrow> None))
            (not_active_text d (unconfirmed_text seconds tm reason)) True))"

definition after_start :: "(nat \<Rightarrow> nat \<Rightarrow> nat option) \<Rightarrow> (nat \<Rightarrow> string) \<Rightarrow> OutputDefinition \<Rightarrow> StartTiming \<Rightarrow> start_io \<Rightarrow> start_call list \<times> StartExecution" where
  "after_start add seconds d tm io =
     (case io_hook io of Err message \<Rightarrow> ([Call_Hook], execution TF_Accepted SD_AckHookFailed (df_label d @ '' failed to start: '' @ message) True)
      | Ok _ \<Rightarrow> (case io_received io of
          Ok e \<Rightarrow> if oe_terminal e = Out_Started
            then ([Call_Hook, Call_Receive (tm_operation_deadline tm)], execution TF_Accepted SD_StartedEvent (started_text d (oe_path e)) False)
            else apfst ((@) [Call_Hook, Call_Receive (tm_operation_deadline tm)]) (fallback_status add seconds d tm io UC_Stopped)
        | Err x \<Rightarrow> if x = OE_ConfirmationExpired
            then apfst ((@) [Call_Hook, Call_Receive (tm_operation_deadline tm)]) (fallback_status add seconds d tm io UC_Expired)
            else ([Call_Hook, Call_Receive (tm_operation_deadline tm)], observation_unavailable d x)))"

definition execute_output :: "(nat \<Rightarrow> nat \<Rightarrow> nat option) \<Rightarrow> (nat \<Rightarrow> string) \<Rightarrow> OutputKind \<Rightarrow> StartTiming \<Rightarrow> start_io \<Rightarrow> start_call list \<times> StartExecution" where
  "execute_output add seconds kind tm io = (let d = output_definition kind in
     if tm_operation_deadline tm \<le> io_now io
     then ([], execution TF_NotDispatched SD_OperationDeadline (df_label d @ '' failed to start: Operation deadline expired before dispatch'') True)
     else (case (if tm_confirmation tm = 0 \<or> tm_rpc tm = 0 then None else add (io_now io) (tm_confirmation tm)) of
         None \<Rightarrow> ([], execution TF_NotDispatched SD_InvalidTiming (df_label d @ '' failed to start: Invalid native output timing'') True)
       | Some confirmation \<Rightarrow> (case io_subscribed io of
           Err e \<Rightarrow> ([Call_Subscribe confirmation], execution TF_NotDispatched (SD_Registration e)
             (df_label d @ '' failed to start: Native output observation registration unavailable ('' @ output_error_text e @ '')'') True)
         | Ok _ \<Rightarrow> (case rpc_deadline add (io_now_start io) tm of
             None \<Rightarrow> ([Call_Subscribe confirmation], execution TF_NotDispatched SD_OperationDeadline
               (df_label d @ '' failed to start: Operation deadline expired before dispatch'') True)
           | Some deadline \<Rightarrow> apfst ((@) [Call_Subscribe confirmation, Call_Start deadline])
               (case io_start io of
                  Err f \<Rightarrow> ([], execution (transport_fate (rf_fate f)) (SD_RequestFailed (rf_fate f)) (df_label d @ '' failed to start: '' @ rf_message f) True)
                | Ok _ \<Rightarrow> after_start add seconds d tm io)))))"

section \<open>Guarantees\<close>

definition is_error_body :: "json \<Rightarrow> bool" where
  "is_error_body b \<longleftrightarrow> get b ''isError'' = Some (JBool True)"

lemma output_body_error [simp]: "is_error_body (output_body t b) \<longleftrightarrow> b"
  by (simp add: is_error_body_def output_body_def mk_object_def mk_fields_def)

lemma execution_fields [simp]:
  "ex_fate (execution f d t b) = f" "ex_detail (execution f d t b) = d" "is_error_body (ex_result (execution f d t b)) \<longleftrightarrow> b"
  "ex_result (execution f d t b) = output_body t b"
  by (simp_all add: execution_def)

lemma transport_fate_not_accepted [simp]: "transport_fate f \<noteq> TF_Accepted"
  by (cases f) simp_all

lemma rpc_deadline_le: "rpc_deadline add now tm = Some d \<Longrightarrow> d \<le> tm_operation_deadline tm"
  by (auto simp: rpc_deadline_def split: if_splits option.splits)

abbreviation event_confirmed :: "start_io \<Rightarrow> bool" where
  "event_confirmed io \<equiv> \<exists>e. io_received io = Ok e \<and> oe_terminal e = Out_Started"

abbreviation status_confirmed :: "start_io \<Rightarrow> bool" where
  "status_confirmed io \<equiv> \<exists>s. io_status io = Ok s \<and> status_active s"

text \<open>What follows the acknowledged start.\<close>

lemma fallback_facts:
  assumes "fallback_status add seconds d tm io reason = (calls, ex)"
  shows "ex_fate ex = TF_Accepted" "set calls \<subseteq> {Call_Status n |n. n \<le> tm_operation_deadline tm}" "ex_detail ex \<noteq> SD_StartedEvent"
    "\<not> is_error_body (ex_result ex) \<Longrightarrow> status_confirmed io"
  using assms rpc_deadline_le by (auto simp: fallback_status_def split: option.splits sum.splits if_splits)

lemma after_start_facts:
  assumes "after_start add seconds d tm io = (calls, ex)"
  shows "ex_fate ex = TF_Accepted" "\<exists>cs. calls = Call_Hook # cs \<and> set cs \<subseteq> {Call_Receive (tm_operation_deadline tm)} \<union> {Call_Status n |n. n \<le> tm_operation_deadline tm}"
    "\<not> is_error_body (ex_result ex) \<Longrightarrow> event_confirmed io \<or> status_confirmed io"
    "ex_detail ex = SD_StartedEvent \<Longrightarrow> event_confirmed io"
proof -
  obtain c1 e1 where f1: "fallback_status add seconds d tm io UC_Stopped = (c1, e1)" by fastforce
  obtain c2 e2 where f2: "fallback_status add seconds d tm io UC_Expired = (c2, e2)" by fastforce
  note facts = fallback_facts [OF f1] fallback_facts [OF f2]
  show "ex_fate ex = TF_Accepted"
    using assms facts f1 f2 by (auto simp: after_start_def observation_unavailable_def split: sum.splits if_splits)
  show "\<exists>cs. calls = Call_Hook # cs \<and> set cs \<subseteq> {Call_Receive (tm_operation_deadline tm)} \<union> {Call_Status n |n. n \<le> tm_operation_deadline tm}"
    using assms facts(2,6) f1 f2 by (auto simp: after_start_def observation_unavailable_def split: sum.splits if_splits)
  show "\<not> is_error_body (ex_result ex) \<Longrightarrow> event_confirmed io \<or> status_confirmed io"
    using assms facts(4,8) f1 f2 by (auto simp: after_start_def observation_unavailable_def split: sum.splits if_splits)
  show "ex_detail ex = SD_StartedEvent \<Longrightarrow> event_confirmed io"
    using assms facts(3,7) f1 f2 by (auto simp: after_start_def observation_unavailable_def split: sum.splits if_splits)
qed

lemma execute_cases:
  assumes "execute_output add seconds kind tm io = (calls, ex)"
  obtains (early) "ex_fate ex = TF_NotDispatched" "is_error_body (ex_result ex)" "ex_detail ex \<noteq> SD_StartedEvent" "calls = [] \<or> (\<exists>c. calls = [Call_Subscribe c])"
  | (failed) c n f where "n \<le> tm_operation_deadline tm" "io_start io = Err f" "calls = [Call_Subscribe c, Call_Start n]" "ex_fate ex = transport_fate (rf_fate f)"
      "is_error_body (ex_result ex)" "ex_detail ex \<noteq> SD_StartedEvent"
  | (accepted) c n cs where "n \<le> tm_operation_deadline tm" "io_start io = Ok ()" "calls = Call_Subscribe c # Call_Start n # cs"
      "after_start add seconds (output_definition kind) tm io = (cs, ex)"
proof (cases "\<exists>c n. tm_operation_deadline tm > io_now io \<and> io_subscribed io = Ok () \<and> rpc_deadline add (io_now_start io) tm = Some n \<and>
    tm_confirmation tm \<noteq> 0 \<and> tm_rpc tm \<noteq> 0 \<and> add (io_now io) (tm_confirmation tm) = Some c")
  case True
  then obtain c n where b: "tm_operation_deadline tm > io_now io" "io_subscribed io = Ok ()" "rpc_deadline add (io_now_start io) tm = Some n"
    "tm_confirmation tm \<noteq> 0" "tm_rpc tm \<noteq> 0" "add (io_now io) (tm_confirmation tm) = Some c" by blast
  show thesis
  proof (cases "io_start io")
    case (Inl f)
    then show thesis using assms b rpc_deadline_le [OF b(3)] by (intro failed [of n f c]) (auto simp: execute_output_def Let_def)
  next
    case (Inr u)
    obtain cs ex' where "after_start add seconds (output_definition kind) tm io = (cs, ex')" by fastforce
    then show thesis using Inr assms b rpc_deadline_le [OF b(3)] by (intro accepted [of n c cs]) (auto simp: execute_output_def Let_def)
  qed
next
  case False
  then show thesis using assms by (intro early) (auto simp: execute_output_def Let_def split: if_splits option.splits sum.splits)
qed



lemma started_result:
  assumes "execute_output add seconds kind tm io = (calls, ex)" "ex_detail ex = SD_StartedEvent"
  shows "\<exists>e. io_received io = Ok e \<and> oe_terminal e = Out_Started \<and> ex_result ex = output_body (started_text (output_definition kind) (oe_path e)) False"
  using assms
proof (cases rule: execute_cases)
  case (accepted c n cs)
  obtain c1 e1 where f1: "fallback_status add seconds (output_definition kind) tm io UC_Stopped = (c1, e1)" by fastforce
  obtain c2 e2 where f2: "fallback_status add seconds (output_definition kind) tm io UC_Expired = (c2, e2)" by fastforce
  show ?thesis using accepted(4) assms(2) fallback_facts(3) [OF f1] fallback_facts(3) [OF f2] f1 f2
    by (auto simp: after_start_def observation_unavailable_def split: sum.splits if_splits)
qed simp_all

text \<open>C19: from the socket to the answer: when a start is reported as confirmed by an event, the first event of its output that
  the socket received after the registration and within the confirmation time is a \<open>started\<close> event, and the answer names exactly
  the path of that event.\<close>

theorem start_confirmed_by_event:
  assumes "out_step\<^sup>*\<^sup>* (out_start token subscriptions now) w" and "k < length (ow_subs w)"
    and "su_pc (ow_subs w ! k) = R_Done (io_received io)"
    and "execute_output add seconds kind tm io = (calls, ex)" and "ex_detail ex = SD_StartedEvent"
  shows "\<exists>pre ev post. map fst (ow_log w) = pre @ ev # post \<and> (\<forall>x \<in> set pre. \<not> wanted (su_slot (ow_subs w ! k)) x) \<and>
    wanted (su_slot (ow_subs w ! k)) ev \<and> event_terminal ev = Some Out_Started \<and>
    ex_result ex = output_body (started_text (output_definition kind) (event_field ev ''outputPath'')) False"
proof -
  obtain e where e: "io_received io = Ok e" "oe_terminal e = Out_Started"
    and r: "ex_result ex = output_body (started_text (output_definition kind) (oe_path e)) False"
    using started_result [OF assms(4,5)] by blast
  have "first_seen (map fst (ow_log w)) (su_slot (ow_subs w ! k)) e"
    using own_facts(1) [OF out_reachable_inv [OF assms(1)] assms(2)] assms(3) e(1) by (simp add: sub_facts_def pc_facts_def)
  then obtain pre ev post t where f: "map fst (ow_log w) = pre @ ev # post" "\<forall>x \<in> set pre. \<not> wanted (su_slot (ow_subs w ! k)) x"
    "wanted (su_slot (ow_subs w ! k)) ev" "event_terminal ev = Some t" "e = seen_output ev t (event_path t ev)"
    unfolding first_seen_def by blast
  then have "t = Out_Started" "oe_path e = event_field ev ''outputPath''" using e(2) by (auto simp: seen_output_def event_path_def)
  then have "ex_result ex = output_body (started_text (output_definition kind) (event_field ev ''outputPath'')) False"
    "event_terminal ev = Some Out_Started" using r f(4) by simp_all
  then show ?thesis using f(1-3) by (intro exI [of _ pre] exI [of _ ev] exI [of _ post]) simp
qed

theorem start_confirmed_by_event_witness:
  "\<exists>pre ev post. [started_event 100] = pre @ ev # post \<and> event_terminal ev = Some Out_Started \<and>
     event_field ev ''outputPath'' = Some ''/v/a.mkv''"
proof -
  let ?io = "\<lparr>io_now = 0, io_subscribed = Ok (), io_now_start = 1, io_start = Ok (), io_hook = Ok (), io_received = Ok watch_result, io_now_status = 2,
    io_status = Ok JNull\<rparr>"
  let ?ex = "execution TF_Accepted SD_StartedEvent ''Recording started, writing to: /v/a.mkv'' False"
  have run: "out_step\<^sup>*\<^sup>* (out_start 1 OUTPUT_EVENTS 100) (watch_seen (R_Done (Ok watch_result)) Consumed_Cell)"
    using watch_subscribes watch_calls watch_event watch_projects watch_receives by (meson rtranclp_trans)
  have ex: "execute_output (\<lambda>a b. Some (a + b)) (\<lambda>_. ''5'') Out_Record (source_timing Out_Record (secs 60)) ?io =
      ([Call_Subscribe (secs 5), Call_Start (secs 10 + 1), Call_Hook, Call_Receive (secs 60)], ?ex)"
    by (simp add: execute_output_def source_timing_def secs_def rpc_deadline_def after_start_def watch_result_def started_text_def)
  have "\<exists>pre ev post. [started_event 100] = pre @ ev # post \<and> event_terminal ev = Some Out_Started"
    using start_confirmed_by_event [OF run _ _ ex, of 0] by (auto simp: watch_seen_def with_started_def watch_world_def watch_sub_def)
  then show ?thesis by (auto simp: Cons_eq_append_conv started_event_def event_field_def record_started_def intro!: exI [of _ "[]"])
qed

text \<open>What the two versions see of one start.\<close>

definition same_answers :: "(string, json) result \<Rightarrow> (string, unit) result \<Rightarrow> StartOutcome \<Rightarrow> (string, json) result \<Rightarrow> start_io \<Rightarrow> bool" where
  "same_answers request hook outcome status io \<longleftrightarrow> io_subscribed io = Ok () \<and> io_hook io = hook \<and>
     (case request of Err m \<Rightarrow> \<exists>f. io_start io = Err f \<and> rf_message f = m | Ok _ \<Rightarrow> io_start io = Ok ()) \<and>
     (case status of Err _ \<Rightarrow> \<exists>f. io_status io = Err f | Ok v \<Rightarrow> io_status io = Ok v) \<and>
     (case outcome of SO_Started path \<Rightarrow> \<exists>e. io_received io = Ok e \<and> oe_terminal e = Out_Started \<and> oe_path e = path
      | SO_Stopped \<Rightarrow> \<exists>e. io_received io = Ok e \<and> oe_terminal e = Out_Stopped
      | SO_Timeout \<Rightarrow> io_received io = Err OE_ConfirmationExpired)"



end
