(* ===== verification/Source_Json.thy ===== *)
theory Source_Json
  imports Control
begin

text \<open>
  The encoding of JSON with the numbers of the original program, \<open>src/native/src/js_json.rs\<close>: the check of
  depth and size, the bounded encoder, and the normalisation that gives every number the token its encoding
  shows. What 64-bit floats do (\<open>float_text\<close>) and the quoting of strings by \<open>serde_json\<close> are arguments; a
  number of a value is always finite.
\<close>

section \<open>Limits and the check\<close>

datatype NumericNormalizationError = NN_Depth | NN_EncodedBytes | NN_NumberUnavailable

record json_limits =
  max_depth :: nat
  max_encoded_bytes :: nat

definition MAX_BYTES :: nat where
  "MAX_BYTES = 8 * 1024 * 1024"

definition MAX_INCOMING_BYTES :: nat where
  "MAX_INCOMING_BYTES = MAX_BYTES + 64 * 1024"

definition default_limits :: json_limits where
  "default_limits = \<lparr>max_depth = 128, max_encoded_bytes = MAX_BYTES\<rparr>"

definition readback_limits :: json_limits where
  "readback_limits = \<lparr>max_depth = 128, max_encoded_bytes = MAX_INCOMING_BYTES\<rparr>"

text \<open>Every node takes one unit of the budget \<open>nodes\<close>; what is left is the result.\<close>

fun check_value :: "json_limits \<Rightarrow> nat \<Rightarrow> json \<Rightarrow> nat \<Rightarrow> (NumericNormalizationError, nat) result"
  and check_values :: "json_limits \<Rightarrow> nat \<Rightarrow> json list \<Rightarrow> nat \<Rightarrow> (NumericNormalizationError, nat) result"
  and check_fields :: "json_limits \<Rightarrow> nat \<Rightarrow> (string \<times> json) list \<Rightarrow> nat \<Rightarrow> (NumericNormalizationError, nat) result" where
  "check_value lims depth v nodes =
     (if max_depth lims < depth then Err NN_Depth
      else if nodes = 0 then Err NN_EncodedBytes
      else (case v of
          JArray vs \<Rightarrow> check_values lims (depth + 1) vs (nodes - 1)
        | JObject fs \<Rightarrow> check_fields lims (depth + 1) fs (nodes - 1)
        | _ \<Rightarrow> Ok (nodes - 1)))"
| "check_values lims depth [] nodes = Ok nodes"
| "check_values lims depth (v # vs) nodes = and_then (check_value lims depth v nodes) (check_values lims depth vs)"
| "check_fields lims depth [] nodes = Ok nodes"
| "check_fields lims depth ((k, v) # fs) nodes = and_then (check_value lims depth v nodes) (check_fields lims depth fs)"

section \<open>The encoder\<close>

fun emit_json :: "float_text \<Rightarrow> (string \<Rightarrow> string) \<Rightarrow> json \<Rightarrow> string" where
  "emit_json ft quote (JNumber n) = js_string ft (Some (JNumber n))"
| "emit_json ft quote (JArray vs) = ''['' @ join_with '','' (map (emit_json ft quote) vs) @ '']''"
| "emit_json ft quote (JObject fs) = ''{'' @ join_with '','' (map (\<lambda>(k, v). quote k @ '':'' @ emit_json ft quote v) fs) @ ''}''"
| "emit_json ft quote JNull = ''null''"
| "emit_json ft quote (JBool b) = (if b then ''true'' else ''false'')"
| "emit_json ft quote (JString s) = quote s"

text \<open>The counting writer fails as soon as a write would pass its limit: exactly when the whole text is longer.\<close>

definition encoded_len :: "float_text \<Rightarrow> (string \<Rightarrow> string) \<Rightarrow> json_limits \<Rightarrow> json \<Rightarrow> (NumericNormalizationError, nat) result" where
  "encoded_len ft quote lims v = and_then (check_value lims 0 v (max_encoded_bytes lims)) (\<lambda>_.
     let n = length (emit_json ft quote v) in if n \<le> max_encoded_bytes lims then Ok n else Err NN_EncodedBytes)"

definition encode_source_json :: "float_text \<Rightarrow> (string \<Rightarrow> string) \<Rightarrow> json_limits \<Rightarrow> json \<Rightarrow> (NumericNormalizationError, string) result" where
  "encode_source_json ft quote lims v = and_then (encoded_len ft quote lims v) (\<lambda>_. Ok (emit_json ft quote v))"

section \<open>Normalisation\<close>

text \<open>\<open>str::parse\<close> for \<open>u64\<close> and \<open>i64\<close>: an optional sign, at least one digit, in range.\<close>

definition digits_value :: "string \<Rightarrow> nat option" where
  "digits_value s = (if s \<noteq> [] \<and> list_all is_ascii_digit s
     then Some (foldl (\<lambda>a c. 10 * a + (of_char c - 48)) 0 s) else None)"

definition parse_u64 :: "string \<Rightarrow> u64 option" where
  "parse_u64 s = Option.bind (digits_value (if take 1 s = ''+'' then drop 1 s else s))
     (\<lambda>n. if n < 2 ^ 64 then Some (word_of_nat n) else None)"

definition parse_i64 :: "string \<Rightarrow> int option" where
  "parse_i64 s =
     (if take 1 s = ''-'' then Option.bind (digits_value (drop 1 s)) (\<lambda>n. if n \<le> 2 ^ 63 then Some (- int n) else None)
      else Option.bind (digits_value (if take 1 s = ''+'' then drop 1 s else s)) (\<lambda>n. if n < 2 ^ 63 then Some (int n) else None))"

text \<open>\<open>Number::from\<close> of a signed integer.\<close>

definition of_i64 :: "int \<Rightarrow> number" where
  "of_i64 i = (if i < 0 then NegInt i else PosInt (word_of_int i))"

definition source_number :: "float_text \<Rightarrow> number \<Rightarrow> number" where
  "source_number ft n = (let text = js_string ft (Some (JNumber n)) in
     case parse_u64 text of Some m \<Rightarrow> PosInt m
     | None \<Rightarrow> (case parse_i64 text of Some i \<Rightarrow> of_i64 i | None \<Rightarrow> Float (as_f64 ft n)))"

fun visit_json :: "float_text \<Rightarrow> json \<Rightarrow> json" where
  "visit_json ft (JNumber n) = JNumber (source_number ft n)"
| "visit_json ft (JArray vs) = JArray (map (visit_json ft) vs)"
| "visit_json ft (JObject fs) = JObject (map (\<lambda>(k, v). (k, visit_json ft v)) fs)"
| "visit_json ft v = v"

definition normalize_with_limits :: "float_text \<Rightarrow> (string \<Rightarrow> string) \<Rightarrow> json_limits \<Rightarrow> json \<Rightarrow> (NumericNormalizationError, json) result" where
  "normalize_with_limits ft quote lims v = and_then (encoded_len ft quote lims v) (\<lambda>_. Ok (visit_json ft v))"

section \<open>What floats promise\<close>

text \<open>A float read back from its own text is itself, whether as a float or as the integer the text shows.\<close>

definition faithful_floats :: "float_text \<Rightarrow> bool" where
  "faithful_floats ft \<longleftrightarrow>
     (\<forall>n. as_f64 ft (Float (as_f64 ft n)) = as_f64 ft n) \<and>
     (\<forall>n m. parse_u64 (js_number ft n) = Some m \<longrightarrow> as_f64 ft (PosInt m) = as_f64 ft n) \<and>
     (\<forall>n i. parse_i64 (js_number ft n) = Some i \<longrightarrow> as_f64 ft (of_i64 i) = as_f64 ft n)"

lemma source_number_f64 [simp]: "faithful_floats ft \<Longrightarrow> as_f64 ft (source_number ft n) = as_f64 ft n"
  by (auto simp: source_number_def faithful_floats_def js_string_def Let_def split: option.split)

lemma js_number_f64: "as_f64 ft n = as_f64 ft m \<Longrightarrow> js_number ft n = js_number ft m"
  by (simp add: js_number_def)

lemma js_number_source [simp]: "faithful_floats ft \<Longrightarrow> js_number ft (source_number ft n) = js_number ft n"
  by (rule js_number_f64) simp

lemma source_number_idem [simp]: "faithful_floats ft \<Longrightarrow> source_number ft (source_number ft n) = source_number ft n"
  by (auto simp: source_number_def [of ft "source_number ft n"] js_string_def Let_def split: option.split)
    (auto simp: source_number_def js_string_def Let_def split: option.splits)

lemma visit_idem [simp]: "faithful_floats ft \<Longrightarrow> visit_json ft (visit_json ft v) = visit_json ft v"
  by (induction ft v rule: visit_json.induct) (auto simp: split_beta)

lemma emit_visit [simp]: "faithful_floats ft \<Longrightarrow> emit_json ft quote (visit_json ft v) = emit_json ft quote v"
  by (induction ft v rule: visit_json.induct)
    (auto simp: js_string_def o_def split_beta cong: map_cong intro!: arg_cong [where f = "join_with '',''"])

lemma check_visit [simp]:
  "check_value lims d (visit_json ft v) n = check_value lims d v n"
  "check_values lims d (map (visit_json ft) vs) n = check_values lims d vs n"
  "check_fields lims d (map (\<lambda>(k, v). (k, visit_json ft v)) fs) n = check_fields lims d fs n"
proof (induction lims d v n and lims d vs n and lims d fs n rule: check_value_check_values_check_fields.induct)
  case (1 lims d v n)
  then show ?case by (cases v) auto
qed (auto simp: and_then_def split: sum.splits)

lemma encoded_len_visit [simp]: "faithful_floats ft \<Longrightarrow> encoded_len ft quote lims (visit_json ft v) = encoded_len ft quote lims v"
  by (simp add: encoded_len_def del: check_value.simps)

lemma normalize_Ok:
  "normalize_with_limits ft quote lims v = Ok w \<longleftrightarrow> (\<exists>n. encoded_len ft quote lims v = Ok n) \<and> w = visit_json ft v"
  by (cases "encoded_len ft quote lims v") (auto simp: normalize_with_limits_def)

text \<open>Fields survive normalisation, with normalised values.\<close>

lemma map_of_visit: "map_of (map (\<lambda>(k, v). (k, f v)) fs) k = map_option f (map_of fs k)"
  by (induction fs) auto

lemma get_visit [simp]: "get (visit_json ft v) k = map_option (visit_json ft) (get v k)"
  by (cases v) (simp_all add: map_of_visit)

lemma as_str_visit [simp]: "as_str (visit_json ft v) = as_str v"
  by (cases v) auto

lemma as_bool_visit [simp]: "as_bool (visit_json ft v) = as_bool v"
  by (cases v) auto

section \<open>Properties\<close>


text \<open>A sample of floats: the exact value, printed in full where it is an integer.\<close>

definition exact_float :: float_text where
  "exact_float = \<lparr>as_f64 = (\<lambda>n. case n of PosInt m \<Rightarrow> of_nat (unat m) | NegInt i \<Rightarrow> of_int i | Float x \<Rightarrow> x),
     plain_text = (\<lambda>x. if x = of_int \<lfloor>x\<rfloor> then (if x < 0 then ''-'' else []) @ dec (nat \<bar>\<lfloor>x\<rfloor>\<bar>) else ''0.5''), exp_text = (\<lambda>_. ''1e21'')\<rparr>"

lemma digit_char_value: "n < 10 \<Longrightarrow> is_ascii_digit (digit_char n) \<and> of_char (digit_char n) = n + 48"
  by (auto simp: digit_char_def is_ascii_digit_def)

lemma dec_digits: "list_all is_ascii_digit (dec n) \<and> dec n \<noteq> []"
  by (induction n rule: dec.induct) (subst (1 2) dec.simps, auto simp: digit_char_value)

lemma dec_value: "foldl (\<lambda>a c. 10 * a + (of_char c - 48)) 0 (dec n) = (n :: nat)"
  by (induction n rule: dec.induct) (subst dec.simps, auto simp: digit_char_value)

lemma digits_value_dec [simp]: "digits_value (dec n) = Some n"
  by (simp add: digits_value_def dec_digits dec_value)

lemma digits_value_sign [simp]: "digits_value (CHR ''-'' # s) = None"
  by (simp add: digits_value_def is_ascii_digit_def)

lemma dec_no_sign: "take 1 (dec n) \<noteq> ''+''" "take 1 (dec n) \<noteq> ''-''"
  using dec_digits [of n] by (cases "dec n"; auto simp: is_ascii_digit_def)+

lemma dec_0: "dec 0 = ''0''"
  by (simp add: digit_char_0)

lemma exact_exp: "split_once (CHR ''e'') (exp_text exact_float x) = Some (''1'', ''21'')"
  by (simp add: exact_float_def split_once_def)

lemma exact_number_cases:
  "js_number exact_float n \<in> {''1e+21'', ''0.5''} \<or>
   (\<exists>i. as_f64 exact_float n = of_int i \<and> js_number exact_float n = (if i < 0 then ''-'' else []) @ dec (nat \<bar>i\<bar>))"
proof (cases "as_f64 exact_float n = of_int \<lfloor>as_f64 exact_float n\<rfloor>")
  case False
  then show ?thesis by (auto simp: js_number_def Let_def exact_exp) (simp add: exact_float_def)
next
  case True
  then obtain i where i: "as_f64 exact_float n = of_int i" by blast
  show ?thesis
  proof (cases "i = 0")
    case True
    with i show ?thesis by (auto simp: js_number_def dec_0 intro!: exI [of _ 0])
  next
    case False
    with i exact_exp show ?thesis
      by (auto simp: js_number_def Let_def) (auto simp: exact_float_def intro!: exI [of _ i])
  qed
qed

lemma parse_marks [simp]: "parse_u64 ''1e+21'' = None" "parse_u64 ''0.5'' = None" "parse_i64 ''1e+21'' = None" "parse_i64 ''0.5'' = None"
  by code_simp+

lemma parse_dec [simp]: "parse_u64 (dec n) = (if n < 2 ^ 64 then Some (word_of_nat n) else None)"
    "parse_i64 (dec n) = (if n < 2 ^ 63 then Some (int n) else None)" "parse_u64 (CHR ''-'' # s) = None"
    "parse_i64 (CHR ''-'' # dec n) = (if n \<le> 2 ^ 63 then Some (- int n) else None)"
  using dec_no_sign [of n] by (simp_all add: parse_u64_def parse_i64_def)

lemma exact_integers:
  "0 \<le> i \<Longrightarrow> i < 2 ^ 64 \<Longrightarrow> as_f64 exact_float (PosInt (word_of_int i)) = of_int i"
  "- (2 ^ 63) \<le> i \<Longrightarrow> i < 2 ^ 63 \<Longrightarrow> as_f64 exact_float (of_i64 i) = of_int i"
  by (simp_all add: exact_float_def of_i64_def unat_eq_nat_uint uint_word_of_int)

lemma exact_float_faithful: "faithful_floats exact_float"
proof -
  have "as_f64 exact_float (PosInt m) = as_f64 exact_float n" if m: "parse_u64 (js_number exact_float n) = Some m" for n m
  proof -
    from exact_number_cases [of n] m obtain i where i: "as_f64 exact_float n = of_int i"
        "js_number exact_float n = (if i < 0 then ''-'' else []) @ dec (nat \<bar>i\<bar>)"
      by auto
    with m have "0 \<le> i" "i < 2 ^ 64" "m = word_of_int i" by (auto split: if_splits)
    with i exact_integers(1) show ?thesis by simp
  qed
  moreover have "as_f64 exact_float (of_i64 i) = as_f64 exact_float n" if m: "parse_i64 (js_number exact_float n) = Some i" for n i
  proof -
    from exact_number_cases [of n] m obtain j where j: "as_f64 exact_float n = of_int j"
        "js_number exact_float n = (if j < 0 then ''-'' else []) @ dec (nat \<bar>j\<bar>)"
      by auto
    with m have "- (2 ^ 63) \<le> i" "i < 2 ^ 63" "i = j" by (auto split: if_splits)
    with j exact_integers(2) show ?thesis by simp
  qed
  moreover have "as_f64 exact_float (Float (as_f64 exact_float n)) = as_f64 exact_float n" for n
    by (simp add: exact_float_def)
  ultimately show ?thesis by (auto simp: faithful_floats_def)
qed

lemma exact_five [simp]: "js_number exact_float (Float 5) = ''5''" "source_number exact_float (Float 5) = PosInt 5"
proof -
  show t: "js_number exact_float (Float 5) = ''5''"
    by (simp add: js_number_def exact_float_def digit_char_def char_of_def bit_0)
  have "parse_u64 ''5'' = Some 5"
    by (simp add: parse_u64_def digits_value_def is_ascii_digit_def)
  with t show "source_number exact_float (Float 5) = PosInt 5" by (simp add: source_number_def js_string_def)
qed


end
