(* ===== verification/Generic_Call.thy ===== *)
theory Generic_Call
  imports Source_Json Toolset
begin

text \<open>
  The closed set of changing calls, \<open>Call::parse\<close> and its parsers of \<open>src/native/src/generic_requests.rs\<close>, with those of
  \<open>opaque_commands.rs\<close>, \<open>custom_mutations.rs\<close> and \<open>scene_item_transform_mutation.rs\<close>: which tools exist, which arguments
  each accepts, and the request a call sends. Every parser reads one field after the other from the arguments into a new
  object (\<open>read_steps\<close>); the first field that is missing or has a wrong value refuses the call.
\<close>

section \<open>Calls\<close>

datatype InputMutation = IM_CreateInput | IM_InputSettings

datatype FollowUp = FU_Input InputMutation "bool option" | FU_Transform

record Call =
  call_kind :: GenericKind
  call_name :: string
  call_title :: string
  call_arguments :: json
  call_follow_up :: "FollowUp option"

definition is_opaque :: "Call \<Rightarrow> bool" where
  "is_opaque c \<longleftrightarrow> is_opaque_kind (call_kind c)"

definition requires_readback :: "Call \<Rightarrow> bool" where
  "requires_readback c \<longleftrightarrow> call_follow_up c \<noteq> None \<or> is_opaque c"

section \<open>Reading fields\<close>

text \<open>A field that must be there, one that may be missing, and one with a default; the function gives the value kept.\<close>

datatype field_step = Need string "json \<Rightarrow> json option" | May string "json \<Rightarrow> json option"
  | Or_Default string json "json \<Rightarrow> json option"

primrec step_key :: "field_step \<Rightarrow> string" where
  "step_key (Need k f) = k"
| "step_key (May k f) = k"
| "step_key (Or_Default k x f) = k"

text \<open>\<open>None\<close> refuses; \<open>Some None\<close> leaves the field out.\<close>

primrec kept_value :: "field_step \<Rightarrow> json \<Rightarrow> json option option" where
  "kept_value (Need k f) source = (case get source k of None \<Rightarrow> None | Some v \<Rightarrow> map_option Some (f v))"
| "kept_value (May k f) source = (case get source k of None \<Rightarrow> Some None | Some v \<Rightarrow> map_option Some (f v))"
| "kept_value (Or_Default k x f) source = (case get source k of None \<Rightarrow> Some (Some x) | Some v \<Rightarrow> map_option Some (f v))"

definition keep_field :: "string \<Rightarrow> json option \<Rightarrow> (string \<times> json) list \<Rightarrow> (string \<times> json) list" where
  "keep_field k v data = (case v of None \<Rightarrow> data | Some x \<Rightarrow> jput k x data)"

primrec read_steps :: "field_step list \<Rightarrow> json \<Rightarrow> (string \<times> json) list \<Rightarrow> (string \<times> json) list option" where
  "read_steps [] source data = Some data"
| "read_steps (s # ss) source data = Option.bind (kept_value s source) (\<lambda>v. read_steps ss source (keep_field (step_key s) v data))"

definition read_object :: "field_step list \<Rightarrow> json \<Rightarrow> json option" where
  "read_object ss v = (if as_object v = None then None else map_option JObject (read_steps ss v []))"

definition text_value :: "json \<Rightarrow> json option" where
  "text_value v = map_option JString (as_str v)"

definition bool_value :: "json \<Rightarrow> json option" where
  "bool_value v = map_option JBool (as_bool v)"

definition text_where :: "(string \<Rightarrow> bool) \<Rightarrow> json \<Rightarrow> json option" where
  "text_where ok v = Option.bind (as_str v) (\<lambda>s. if ok s then Some (JString s) else None)"

definition text_or_null :: "json \<Rightarrow> json option" where
  "text_or_null v = (if v = JNull \<or> as_str v \<noteq> None then Some v else None)"

text \<open>A record loses its own prototype key.\<close>

definition record_value :: "json \<Rightarrow> json option" where
  "record_value v = map_option (\<lambda>fs. JObject (del ''__proto__'' fs)) (as_object v)"

definition number_where :: "float_text \<Rightarrow> (rat \<Rightarrow> bool) \<Rightarrow> json \<Rightarrow> json option" where
  "number_where ft ok v = (case v of JNumber n \<Rightarrow> if ok (as_f64 ft n) then Some v else None | _ \<Rightarrow> None)"

definition number_or_null :: "float_text \<Rightarrow> (rat \<Rightarrow> bool) \<Rightarrow> json \<Rightarrow> json option" where
  "number_or_null ft ok v = (if v = JNull then Some v else number_where ft ok v)"

definition whole :: "rat \<Rightarrow> bool" where
  "whole x \<longleftrightarrow> x = of_int \<lfloor>x\<rfloor>"

definition index_number :: "rat \<Rightarrow> bool" where
  "index_number x \<longleftrightarrow> 0 \<le> x \<and> x \<le> 9007199254740991 \<and> whole x"

definition between :: "rat \<Rightarrow> rat \<Rightarrow> rat \<Rightarrow> bool" where
  "between low high x \<longleftrightarrow> low \<le> x \<and> x \<le> high"

definition texts :: "(string \<times> bool) list \<Rightarrow> field_step list" where
  "texts fds = map (\<lambda>(k, required). if required then Need k text_value else May k text_value) fds"

definition source_numbers :: "float_text \<Rightarrow> (string \<Rightarrow> string) \<Rightarrow> Call \<Rightarrow> Call option" where
  "source_numbers ft quote c = (case normalize_with_limits ft quote default_limits (call_arguments c) of
     Err _ \<Rightarrow> None | Ok a \<Rightarrow> Some (c\<lparr>call_arguments := a\<rparr>))"

definition plain_call :: "GenericKind \<Rightarrow> string \<Rightarrow> string \<Rightarrow> json \<Rightarrow> Call" where
  "plain_call k name title args = \<lparr>call_kind = k, call_name = name, call_title = title, call_arguments = args, call_follow_up = None\<rparr>"

definition read_call :: "float_text \<Rightarrow> (string \<Rightarrow> string) \<Rightarrow> field_step list option \<Rightarrow> GenericKind \<Rightarrow> string \<Rightarrow> string \<Rightarrow> json \<Rightarrow> Call option" where
  "read_call ft quote steps k name title args = Option.bind steps (\<lambda>ss. Option.bind (read_object ss args) (\<lambda>a.
     source_numbers ft quote (plain_call k name title a)))"

section \<open>Opaque commands\<close>

definition single_steps :: "field_step list" where
  "single_steps = [Need ''requestType'' text_value, May ''requestData'' record_value]"

fun all_some :: "'a option list \<Rightarrow> 'a list option" where
  "all_some [] = Some []"
| "all_some (x # xs) = Option.bind x (\<lambda>y. map_option ((#) y) (all_some xs))"

definition batch_value :: "json \<Rightarrow> json option" where
  "batch_value v = Option.bind (as_array v) (\<lambda>rs. if rs = [] \<or> 100 < length rs then None
     else map_option JArray (all_some (map (read_object single_steps) rs)))"

definition opaque_command :: "string \<Rightarrow> (GenericKind \<times> string \<times> field_step list) option" where
  "opaque_command name =
     (if name = ''obs-call-request'' then Some (OpaqueRequest, ''Call OBS Request'', single_steps)
      else if name = ''obs-batch'' then Some (OpaqueBatch, ''Run OBS Requests in a Batch'',
        [Need ''requests'' batch_value,
         Or_Default ''executionType'' (JString ''serial-realtime'') (text_where (\<lambda>s. s = ''serial-realtime'' \<or> s = ''serial-frame'')),
         Or_Default ''haltOnFailure'' (JBool False) bool_value])
      else if name = ''obs-call-vendor-request'' then Some (VendorRequest, ''Call Vendor Request'',
        [Need ''vendorName'' text_value, Need ''requestType'' text_value, May ''requestData'' record_value])
      else if name = ''obs-trigger-hotkey-by-name'' then Some (HotkeyName, ''Trigger Hotkey by Name'',
        texts [(''hotkeyName'', True), (''contextName'', False)])
      else if name = ''obs-trigger-hotkey-by-key-sequence'' then Some (HotkeySequence, ''Trigger Hotkey by Key Sequence'',
        [May ''keyId'' text_value, May ''keyModifiers'' (read_object (map (\<lambda>k. May k bool_value) [''shift'', ''control'', ''alt'', ''command'']))])
      else None)"

text \<open>\<open>opaque_commands::parse\<close>.\<close>

definition parse_opaque_command :: "string \<Rightarrow> json \<Rightarrow> (GenericKind \<times> string \<times> string \<times> json) option" where
  "parse_opaque_command name args = Option.bind (opaque_command name) (\<lambda>(k, title, ss).
     map_option (\<lambda>a. (k, name, title, a)) (read_object ss args))"

section \<open>Manual commands\<close>

primrec command_title :: "AdvancedCommand \<Rightarrow> string" where
  "command_title Cmd_RecordStart = ''Start Recording''"
| "command_title Cmd_RecordToggle = ''Toggle Recording''"
| "command_title (Cmd_OutputStart n) = ''Start Output''"
| "command_title (Cmd_OutputStop n) = ''Stop Output''"
| "command_title (Cmd_OutputToggle n) = ''Toggle Output''"

section \<open>Scene item transforms\<close>

definition SELECTORS :: "string list" where
  "SELECTORS = [''canvasUuid'', ''sceneName'', ''sceneUuid'']"

definition NUMBERS :: "string list" where
  "NUMBERS = [''positionX'', ''positionY'', ''rotation'', ''scaleX'', ''scaleY'', ''cropTop'', ''cropBottom'', ''cropLeft'', ''cropRight'']"

definition transform_steps :: "float_text \<Rightarrow> field_step list" where
  "transform_steps ft = Need ''sceneItemId'' (number_where ft index_number) # map (\<lambda>k. May k text_value) SELECTORS @
     map (\<lambda>k. May k (number_where ft (\<lambda>_. True))) NUMBERS @ [May ''sceneItemTransform'' record_value]"

definition parse_transform :: "float_text \<Rightarrow> (string \<Rightarrow> string) \<Rightarrow> json \<Rightarrow> json option" where
  "parse_transform ft quote args = Option.bind (read_object (transform_steps ft) args) (\<lambda>a.
     case normalize_with_limits ft quote default_limits a of Err _ \<Rightarrow> None | Ok b \<Rightarrow> Some b)"

text \<open>The transform on the wire: both fields of a pair are replaced when either is given.\<close>

definition put_opt :: "string \<Rightarrow> json option \<Rightarrow> (string \<times> json) list \<Rightarrow> (string \<times> json) list" where
  "put_opt k v fs = (case v of None \<Rightarrow> fs | Some x \<Rightarrow> jput k x fs)"

definition put_pair :: "json \<Rightarrow> string list \<Rightarrow> (string \<times> json) list \<Rightarrow> (string \<times> json) list" where
  "put_pair args pair fs = (if list_ex (\<lambda>k. get args k \<noteq> None) pair
     then fold (\<lambda>k gs. put_opt k (get args k) (del k gs)) pair fs else fs)"

definition transform_request_data :: "json \<Rightarrow> json" where
  "transform_request_data args =
     (let start = (case Option.bind (get args ''sceneItemTransform'') as_object of None \<Rightarrow> [] | Some fs \<Rightarrow> fs);
          paired = put_pair args [''scaleX'', ''scaleY''] (put_pair args [''positionX'', ''positionY''] start);
          transform = fold (\<lambda>k fs. put_opt k (get args k) fs) [''rotation'', ''cropTop'', ''cropBottom'', ''cropLeft'', ''cropRight''] paired;
          wire = fold (\<lambda>k fs. put_opt k (get args k) fs) (SELECTORS @ [''sceneItemId'']) []
      in JObject (jput ''sceneItemTransform'' (JObject transform) wire))"

section \<open>Inputs\<close>

definition input_mutation :: "string \<Rightarrow> InputMutation option" where
  "input_mutation name = (if name = ''obs-create-input'' then Some IM_CreateInput
     else if name = ''obs-set-input-settings'' then Some IM_InputSettings else None)"

primrec input_mutation_kind :: "InputMutation \<Rightarrow> GenericKind" where
  "input_mutation_kind IM_CreateInput = CreateInput"
| "input_mutation_kind IM_InputSettings = InputSettings"

primrec input_mutation_title :: "InputMutation \<Rightarrow> string" where
  "input_mutation_title IM_CreateInput = ''Create Input''"
| "input_mutation_title IM_InputSettings = ''Set Input Settings''"

primrec input_mutation_steps :: "InputMutation \<Rightarrow> field_step list" where
  "input_mutation_steps IM_CreateInput = texts [(''canvasUuid'', False), (''sceneName'', True), (''inputName'', True), (''inputKind'', True)] @
     [May ''inputSettings'' record_value, May ''sceneItemEnabled'' bool_value]"
| "input_mutation_steps IM_InputSettings = [Need ''inputName'' text_value, Need ''inputSettings'' record_value, May ''overlay'' bool_value]"

definition screenshot_flag :: "json \<Rightarrow> bool option option" where
  "screenshot_flag args = (case get args ''includeScreenshot'' of None \<Rightarrow> Some None | Some v \<Rightarrow> map_option Some (as_bool v))"

definition parse_input_mutation :: "float_text \<Rightarrow> (string \<Rightarrow> string) \<Rightarrow> string \<Rightarrow> json \<Rightarrow> (InputMutation \<times> json \<times> bool option) option" where
  "parse_input_mutation ft quote name args = Option.bind (input_mutation name) (\<lambda>k.
     Option.bind (read_object (input_mutation_steps k) args) (\<lambda>a. Option.bind (screenshot_flag args) (\<lambda>shot.
       case normalize_with_limits ft quote default_limits a of Err _ \<Rightarrow> None
       | Ok b \<Rightarrow> Some (k, (case shot of None \<Rightarrow> b | Some flag \<Rightarrow> set_key ''includeScreenshot'' (JBool flag) b), shot))))"

section \<open>Windows of OBS\<close>

definition ui_definition :: "string \<Rightarrow> (GenericKind \<times> string) option" where
  "ui_definition = map_of [
      (''obs-set-studio-mode'', (StudioModeEnabled, ''Set Studio Mode'')),
      (''obs-open-input-properties'', (InputPropertiesDialog, ''Open Input Properties'')),
      (''obs-open-input-filters'', (InputFiltersDialog, ''Open Input Filters'')),
      (''obs-open-input-interact'', (InputInteractDialog, ''Open Input Interact'')),
      (''obs-open-video-mix-projector'', (VideoMixProjector, ''Open Video Mix Projector'')),
      (''obs-open-source-projector'', (SourceProjector, ''Open Source Projector''))]"

definition ui_strings :: "GenericKind \<Rightarrow> string list option" where
  "ui_strings k = (if k = StudioModeEnabled then Some []
     else if k \<in> {InputPropertiesDialog, InputFiltersDialog, InputInteractDialog} then Some [''inputName'', ''inputUuid'']
     else if k = VideoMixProjector then Some [''projectorGeometry'']
     else if k = SourceProjector then Some [''canvasUuid'', ''sourceName'', ''sourceUuid'', ''projectorGeometry'']
     else None)"

definition ui_steps :: "float_text \<Rightarrow> GenericKind \<Rightarrow> field_step list option" where
  "ui_steps ft k = map_option (\<lambda>strings. map (\<lambda>x. May x text_value) strings @
     (if k = StudioModeEnabled then [Need ''studioModeEnabled'' bool_value] else []) @
     (if k = VideoMixProjector then [Need ''videoMixType'' (text_where (\<lambda>s. s \<in> {''OBS_WEBSOCKET_VIDEO_MIX_TYPE_PREVIEW'',
        ''OBS_WEBSOCKET_VIDEO_MIX_TYPE_PROGRAM'', ''OBS_WEBSOCKET_VIDEO_MIX_TYPE_MULTIVIEW''}))] else []) @
     (if k \<in> {VideoMixProjector, SourceProjector} then [May ''monitorIndex'' (number_where ft (\<lambda>_. True))] else [])) (ui_strings k)"

section \<open>Plugins and remote files\<close>

definition opaque_definition :: "string \<Rightarrow> (GenericKind \<times> string) option" where
  "opaque_definition = map_of [
      (''obs-broadcast-custom-event'', (BroadcastCustomEvent, ''Broadcast Custom Event'')),
      (''obs-set-transition-settings'', (CurrentSceneTransitionSettings, ''Set Transition Settings'')),
      (''obs-create-source-filter'', (CreateSourceFilter, ''Create Source Filter'')),
      (''obs-set-source-filter-settings'', (SourceFilterSettings, ''Set Source Filter Settings'')),
      (''obs-press-input-property-button'', (InputPropertiesButton, ''Press Input Property Button'')),
      (''obs-save-source-screenshot'', (SaveSourceScreenshot, ''Save Source Screenshot''))]"

definition opaque_fields :: "GenericKind \<Rightarrow> (string \<times> bool) list option" where
  "opaque_fields k = (if k \<in> {BroadcastCustomEvent, CurrentSceneTransitionSettings} then Some []
     else if k = CreateSourceFilter then Some [(''canvasUuid'', False), (''sourceName'', True), (''filterName'', True), (''filterKind'', True)]
     else if k = SourceFilterSettings then Some [(''canvasUuid'', False), (''sourceName'', True), (''filterName'', True)]
     else if k = InputPropertiesButton then Some [(''inputName'', False), (''inputUuid'', False), (''propertyName'', True)]
     else if k = SaveSourceScreenshot then Some [(''canvasUuid'', False), (''sourceName'', False), (''sourceUuid'', False),
       (''imageFormat'', True), (''imageFilePath'', True)]
     else None)"

definition opaque_record :: "GenericKind \<Rightarrow> field_step list" where
  "opaque_record k = (if k = BroadcastCustomEvent then [Need ''eventData'' record_value]
     else if k = CurrentSceneTransitionSettings then [Need ''transitionSettings'' record_value]
     else if k = CreateSourceFilter then [May ''filterSettings'' record_value]
     else if k = SourceFilterSettings then [Need ''filterSettings'' record_value]
     else [])"

definition opaque_steps :: "float_text \<Rightarrow> GenericKind \<Rightarrow> field_step list option" where
  "opaque_steps ft k = map_option (\<lambda>fds. texts fds @ opaque_record k @
     (if k = SourceFilterSettings then [May ''overlay'' bool_value] else []) @
     (if k = SaveSourceScreenshot then map (\<lambda>x. May x (number_where ft (\<lambda>_. True)))
        [''imageWidth'', ''imageHeight'', ''imageCompressionQuality''] else [])) (opaque_fields k)"

section \<open>Configuration\<close>

definition configuration_definition :: "string \<Rightarrow> (GenericKind \<times> string) option" where
  "configuration_definition = map_of [
      (''obs-set-persistent-data'', (PersistentData, ''Set Persistent Data'')),
      (''obs-set-current-scene-collection'', (CurrentSceneCollection, ''Set Current Scene Collection'')),
      (''obs-create-scene-collection'', (CreateSceneCollection, ''Create Scene Collection'')),
      (''obs-set-current-profile'', (CurrentProfile, ''Set Current Profile'')),
      (''obs-create-profile'', (CreateProfile, ''Create Profile'')),
      (''obs-remove-profile'', (RemoveProfile, ''Remove Profile'')),
      (''obs-set-stream-service-settings'', (StreamServiceSettings, ''Set Stream Service Settings'')),
      (''obs-set-record-directory'', (RecordDirectory, ''Set Record Directory'')),
      (''obs-set-output-settings'', (OutputSettings, ''Set Output Settings'')),
      (''obs-set-video-settings'', (VideoSettings, ''Set Video Settings'')),
      (''obs-set-profile-parameter'', (ProfileParameter, ''Set Profile Parameter''))]"

definition configuration_strings :: "GenericKind \<Rightarrow> string list option" where
  "configuration_strings k = (if k = PersistentData then Some [''realm'', ''slotName'']
     else if k \<in> {CurrentSceneCollection, CreateSceneCollection} then Some [''sceneCollectionName'']
     else if k \<in> {CurrentProfile, CreateProfile, RemoveProfile} then Some [''profileName'']
     else if k = StreamServiceSettings then Some [''streamServiceType'']
     else if k = RecordDirectory then Some [''recordDirectory'']
     else if k = OutputSettings then Some [''outputName'']
     else if k = VideoSettings then Some []
     else if k = ProfileParameter then Some [''parameterCategory'', ''parameterName'']
     else None)"

definition video_keys :: "string list" where
  "video_keys = [''fpsNumerator'', ''fpsDenominator'', ''baseWidth'', ''baseHeight'', ''outputWidth'', ''outputHeight'']"

definition configuration_steps :: "float_text \<Rightarrow> GenericKind \<Rightarrow> field_step list option" where
  "configuration_steps ft k = map_option (\<lambda>strings. map (\<lambda>x. Need x text_value) strings @
     (if k = PersistentData then [Need ''slotValue'' Some]
      else if k = StreamServiceSettings then [Need ''streamServiceSettings'' record_value]
      else if k = OutputSettings then [Need ''outputSettings'' record_value]
      else if k = VideoSettings then map (\<lambda>x. May x (number_where ft (\<lambda>n. 1 \<le> n \<and> (take 3 x = ''fps'' \<or> n \<le> 4096)))) video_keys
      else if k = ProfileParameter then [Need ''parameterValue'' text_or_null]
      else [])) (configuration_strings k)"

section \<open>Everything else\<close>

definition extra_definition :: "string \<Rightarrow> (GenericKind \<times> string) option" where
  "extra_definition = map_of [
      (''obs-toggle-stream'', (StreamToggle, ''Toggle Stream'')),
      (''obs-toggle-virtual-cam'', (VirtualCamToggle, ''Toggle Virtual Camera'')),
      (''obs-toggle-replay-buffer'', (ReplayBufferToggle, ''Toggle Replay Buffer'')),
      (''obs-start-stream'', (StreamStart, ''Start Stream'')),
      (''obs-start-virtual-cam'', (VirtualCamStart, ''Start Virtual Camera'')),
      (''obs-start-replay-buffer'', (ReplayBufferStart, ''Start Replay Buffer'')),
      (''obs-stop-stream'', (StreamStop, ''Stop Stream'')),
      (''obs-stop-virtual-cam'', (VirtualCamStop, ''Stop Virtual Camera'')),
      (''obs-stop-replay-buffer'', (ReplayBufferStop, ''Stop Replay Buffer'')),
      (''obs-pause-record'', (RecordPause, ''Pause Recording'')),
      (''obs-resume-record'', (RecordResume, ''Resume Recording'')),
      (''obs-toggle-record-pause'', (RecordPauseToggle, ''Toggle Record Pause'')),
      (''obs-split-record-file'', (RecordFileSplit, ''Split Record File'')),
      (''obs-create-record-chapter'', (RecordChapter, ''Create Record Chapter'')),
      (''obs-set-media-input-cursor'', (MediaInputCursor, ''Set Media Input Cursor'')),
      (''obs-offset-media-input-cursor'', (MediaInputCursorOffset, ''Offset Media Input Cursor'')),
      (''obs-trigger-media-input-action'', (MediaInputAction, ''Trigger Media Input Action'')),
      (''obs-set-input-audio-tracks'', (InputAudioTracks, ''Set Input Audio Tracks'')),
      (''obs-toggle-input-mute'', (InputMuteToggle, ''Toggle Input Mute'')),
      (''obs-set-input-volume'', (InputVolume, ''Set Input Volume'')),
      (''obs-send-stream-caption'', (StreamCaption, ''Send Stream Caption'')),
      (''obs-save-replay-buffer'', (SaveReplayBuffer, ''Save Replay Buffer'')),
      (''obs-create-scene'', (CreateScene, ''Create Scene'')),
      (''obs-remove-scene'', (RemoveScene, ''Remove Scene'')),
      (''obs-remove-scene-item'', (RemoveSceneItem, ''Remove Scene Item'')),
      (''obs-remove-source-filter'', (RemoveSourceFilter, ''Remove Source Filter'')),
      (''obs-set-source-filter-name'', (SourceFilterName, ''Rename Source Filter'')),
      (''obs-set-source-filter-index'', (SourceFilterIndex, ''Set Source Filter Index'')),
      (''obs-remove-input'', (RemoveInput, ''Remove Input'')),
      (''obs-set-input-name'', (InputName, ''Rename Input'')),
      (''obs-duplicate-scene-item'', (DuplicateSceneItem, ''Duplicate Scene Item'')),
      (''obs-set-scene-name'', (SceneName, ''Set Scene Name'')),
      (''obs-create-scene-item'', (CreateSceneItem, ''Create Scene Item'')),
      (''obs-set-scene-item-enabled'', (SceneItemEnabled, ''Set Scene Item Visibility'')),
      (''obs-set-current-scene'', (CurrentProgramScene, ''Set Current Scene'')),
      (''obs-set-preview-scene'', (CurrentPreviewScene, ''Set Preview Scene'')),
      (''obs-trigger-studio-transition'', (TriggerStudioModeTransition, ''Trigger Studio Transition'')),
      (''obs-trigger-transition'', (TriggerStudioModeTransition, ''Trigger Transition'')),
      (''obs-set-current-transition'', (CurrentSceneTransition, ''Set Current Transition'')),
      (''obs-set-scene-transition-override'', (SceneSceneTransitionOverride, ''Set Scene Transition Override'')),
      (''obs-set-tbar-position'', (TBarPosition, ''Set T-Bar Position'')),
      (''obs-set-transition-duration'', (CurrentSceneTransitionDuration, ''Set Transition Duration''))]"

definition bare_kinds :: "GenericKind list" where
  "bare_kinds = [StreamToggle, VirtualCamToggle, ReplayBufferToggle, StreamStart, VirtualCamStart, ReplayBufferStart, StreamStop,
     VirtualCamStop, ReplayBufferStop, TriggerStudioModeTransition, SaveReplayBuffer, RecordPause, RecordResume, RecordPauseToggle,
     RecordFileSplit]"

definition extra_fields :: "GenericKind \<Rightarrow> (string \<times> bool) list option" where
  "extra_fields k =
     (if k \<in> {MediaInputCursor, MediaInputCursorOffset, MediaInputAction, InputMuteToggle, InputVolume} then Some [(''inputName'', True)]
      else if k = InputAudioTracks then Some [(''inputName'', False), (''inputUuid'', False)]
      else if k = StreamCaption then Some [(''captionText'', True)]
      else if k = RecordChapter then Some [(''chapterName'', False)]
      else if k \<in> {CreateScene, RemoveScene} then Some [(''canvasUuid'', False), (''sceneName'', True)]
      else if k \<in> {RemoveSceneItem, DuplicateSceneItem, SceneName, SceneItemEnabled, SceneSceneTransitionOverride}
        then Some [(''canvasUuid'', False), (''sceneName'', False), (''sceneUuid'', False)]
      else if k = CreateSceneItem then Some [(''canvasUuid'', False), (''sceneName'', False), (''sceneUuid'', False),
        (''sourceName'', False), (''sourceUuid'', False)]
      else if k \<in> {RemoveSourceFilter, SourceFilterName, SourceFilterIndex}
        then Some [(''canvasUuid'', False), (''sourceName'', True), (''filterName'', True)]
      else if k \<in> {RemoveInput, InputName} then Some [(''inputName'', True)]
      else if k \<in> {CurrentProgramScene, CurrentPreviewScene} then Some [(''sceneName'', True)]
      else if k = CurrentSceneTransition then Some [(''transitionName'', True)]
      else if k \<in> {TBarPosition, CurrentSceneTransitionDuration} then Some []
      else None)"

definition extra_texts :: "GenericKind \<Rightarrow> field_step list" where
  "extra_texts k = (if k = DuplicateSceneItem then texts [(''destinationSceneName'', False), (''destinationSceneUuid'', False)]
     else if k = SceneName then [Need ''newSceneName'' (text_where (\<lambda>s. s \<noteq> []))]
     else if k = InputName then [Need ''newInputName'' text_value]
     else if k = SourceFilterName then [Need ''newFilterName'' text_value]
     else [])"

definition media_actions :: "string list" where
  "media_actions = map ((@) ''OBS_WEBSOCKET_MEDIA_INPUT_ACTION_'') [''PLAY'', ''PAUSE'', ''STOP'', ''RESTART'', ''NEXT'', ''PREVIOUS'']"

text \<open>Exactly the tracks 1 to 6, each a boolean.\<close>

definition tracks_value :: "json \<Rightarrow> json option" where
  "tracks_value v = Option.bind (as_object v) (\<lambda>tracks.
     if length tracks = 6 \<and> list_all (\<lambda>k. \<exists>b. map_of tracks k = Some (JBool b)) [''1'', ''2'', ''3'', ''4'', ''5'', ''6'']
     then Some v else None)"

definition extra_values :: "float_text \<Rightarrow> GenericKind \<Rightarrow> field_step list" where
  "extra_values ft k =
     (if k = MediaInputCursor then [Need ''mediaCursor'' (number_where ft (\<lambda>n. 0 \<le> n))]
      else if k = MediaInputCursorOffset then [Need ''mediaCursorOffset'' (number_where ft (\<lambda>_. True))]
      else if k = MediaInputAction then [Need ''mediaAction'' (text_where (\<lambda>s. s \<in> set media_actions))]
      else if k = InputAudioTracks then [Need ''inputAudioTracks'' tracks_value]
      else if k = InputVolume then [May ''inputVolumeMul'' (number_where ft (between 0 20)), May ''inputVolumeDb'' (number_where ft (between (- 100) 26))]
      else if k = SourceFilterIndex then [Need ''filterIndex'' (number_where ft (\<lambda>n. 0 \<le> n))]
      else if k = CurrentSceneTransitionDuration then [Need ''duration'' (number_where ft (\<lambda>n. 0 \<le> n))]
      else if k = TBarPosition then [Need ''position'' (number_where ft (between 0 1)), Or_Default ''release'' (JBool True) bool_value]
      else if k = CreateSceneItem then [Or_Default ''enabled'' (JBool True) bool_value]
      else if k = SceneItemEnabled then [Need ''enabled'' bool_value]
      else if k = SceneSceneTransitionOverride then [May ''transitionName'' text_or_null,
        May ''transitionDuration'' (number_or_null ft (\<lambda>n. between 50 20000 n \<and> whole n))]
      else [])"

definition extra_steps :: "float_text \<Rightarrow> GenericKind \<Rightarrow> field_step list option" where
  "extra_steps ft k = map_option (\<lambda>fds. texts fds @ extra_texts k @
     (if k \<in> {RemoveSceneItem, DuplicateSceneItem, SceneItemEnabled} then [Need ''sceneItemId'' (number_where ft index_number)] else []) @
     extra_values ft k) (extra_fields k)"

definition parse_extra :: "float_text \<Rightarrow> (string \<Rightarrow> string) \<Rightarrow> GenericKind \<Rightarrow> string \<Rightarrow> string \<Rightarrow> json \<Rightarrow> Call option" where
  "parse_extra ft quote k name title args =
     (if as_object args = None then None
      else if k \<in> set bare_kinds then Some (plain_call k name title (JObject []))
      else read_call ft quote (extra_steps ft k) k name title args)"

section \<open>Literal setters\<close>

definition literal_definition :: "string \<Rightarrow> (GenericKind \<times> string) option" where
  "literal_definition = map_of [
      (''obs-set-input-mute'', (InputMute, ''Set Input Mute'')),
      (''obs-set-input-audio-balance'', (InputAudioBalance, ''Set Input Audio Balance'')),
      (''obs-set-input-audio-sync-offset'', (InputAudioSyncOffset, ''Set Input Audio Sync Offset'')),
      (''obs-set-input-audio-monitor-type'', (InputAudioMonitorType, ''Set Input Audio Monitor Type'')),
      (''obs-set-input-deinterlace-field-order'', (InputDeinterlaceFieldOrder, ''Set Input Deinterlace Field Order'')),
      (''obs-set-input-deinterlace-mode'', (InputDeinterlaceMode, ''Set Input Deinterlace Mode'')),
      (''obs-set-scene-item-index'', (SceneItemIndex, ''Set Scene Item Index'')),
      (''obs-set-scene-item-locked'', (SceneItemLocked, ''Set Scene Item Locked'')),
      (''obs-set-scene-item-blend-mode'', (SceneItemBlendMode, ''Set Scene Item Blend Mode'')),
      (''obs-set-source-filter-enabled'', (SourceFilterEnabled, ''Set Source Filter Enabled''))]"

definition literal_strings :: "GenericKind \<Rightarrow> (string \<times> bool) list option" where
  "literal_strings k =
     (if k \<in> {InputMute, InputAudioBalance, InputAudioSyncOffset, InputAudioMonitorType} then Some [(''inputName'', True)]
      else if k \<in> {InputDeinterlaceFieldOrder, InputDeinterlaceMode} then Some [(''inputName'', False), (''inputUuid'', False)]
      else if k \<in> {SceneItemIndex, SceneItemLocked, SceneItemBlendMode}
        then Some [(''canvasUuid'', False), (''sceneName'', False), (''sceneUuid'', False)]
      else if k = SourceFilterEnabled then Some [(''canvasUuid'', False), (''sourceName'', True), (''filterName'', True)]
      else None)"

definition deinterlace_modes :: "string list" where
  "deinterlace_modes = map ((@) ''OBS_DEINTERLACE_MODE_'') [''DISABLE'', ''DISCARD'', ''RETRO'', ''BLEND'', ''BLEND_2X'', ''LINEAR'',
     ''LINEAR_2X'', ''YADIF'', ''YADIF_2X'']"

definition blend_modes :: "string list" where
  "blend_modes = map ((@) ''OBS_BLEND_'') [''NORMAL'', ''ADDITIVE'', ''SUBTRACT'', ''SCREEN'', ''MULTIPLY'', ''LIGHTEN'', ''DARKEN'']"

definition literal_values :: "float_text \<Rightarrow> GenericKind \<Rightarrow> field_step list option" where
  "literal_values ft k =
     (if k = InputMute then Some [Need ''inputMuted'' bool_value]
      else if k = InputAudioBalance then Some [Need ''inputAudioBalance'' (number_where ft (between 0 1))]
      else if k = InputAudioSyncOffset then Some [Need ''inputAudioSyncOffset'' (number_where ft (between (- 950) 20000))]
      else if k = InputAudioMonitorType then Some [Need ''monitorType'' text_value]
      else if k = InputDeinterlaceFieldOrder then Some [Need ''inputDeinterlaceFieldOrder''
        (text_where (\<lambda>s. s = ''OBS_DEINTERLACE_FIELD_ORDER_TOP'' \<or> s = ''OBS_DEINTERLACE_FIELD_ORDER_BOTTOM''))]
      else if k = InputDeinterlaceMode then Some [Need ''inputDeinterlaceMode'' (text_where (\<lambda>s. s \<in> set deinterlace_modes))]
      else if k = SceneItemIndex then Some [Need ''sceneItemId'' (number_where ft index_number), Need ''sceneItemIndex'' (number_where ft index_number)]
      else if k = SceneItemLocked then Some [Need ''sceneItemId'' (number_where ft index_number), Need ''sceneItemLocked'' bool_value]
      else if k = SceneItemBlendMode then Some [Need ''sceneItemId'' (number_where ft index_number),
        Need ''sceneItemBlendMode'' (text_where (\<lambda>s. s \<in> set blend_modes))]
      else if k = SourceFilterEnabled then Some [Need ''filterEnabled'' bool_value]
      else None)"

definition literal_steps :: "float_text \<Rightarrow> GenericKind \<Rightarrow> field_step list option" where
  "literal_steps ft k = Option.bind (literal_strings k) (\<lambda>fds. map_option ((@) (texts fds)) (literal_values ft k))"

section \<open>Parsing a call\<close>

definition parse_call :: "float_text \<Rightarrow> (string \<Rightarrow> string) \<Rightarrow> string \<Rightarrow> json \<Rightarrow> Call option" where
  "parse_call ft quote name args =
     (case parse_opaque_command name args of
        Some (k, n, title, a) \<Rightarrow> source_numbers ft quote (plain_call k n title a)
      | None \<Rightarrow> (case parse_command name args of
          Some cmd \<Rightarrow> Some (plain_call (command_kind cmd) (command_name cmd) (command_title cmd) (command_arguments cmd))
        | None \<Rightarrow>
            if name = ''obs-set-scene-item-transform''
            then map_option (\<lambda>a. (plain_call SceneItemTransform name ''Set Scene Item Transform'' a)\<lparr>call_follow_up := Some FU_Transform\<rparr>)
              (parse_transform ft quote args)
            else (case parse_input_mutation ft quote name args of
              Some (k, a, shot) \<Rightarrow> Some ((plain_call (input_mutation_kind k) name (input_mutation_title k) a)\<lparr>call_follow_up := Some (FU_Input k shot)\<rparr>)
            | None \<Rightarrow> (case ui_definition name of Some (k, title) \<Rightarrow> read_call ft quote (ui_steps ft k) k name title args
            | None \<Rightarrow> (case opaque_definition name of Some (k, title) \<Rightarrow> read_call ft quote (opaque_steps ft k) k name title args
            | None \<Rightarrow> (case configuration_definition name of Some (k, title) \<Rightarrow> read_call ft quote (configuration_steps ft k) k name title args
            | None \<Rightarrow> (case extra_definition name of Some (k, title) \<Rightarrow> parse_extra ft quote k name title args
            | None \<Rightarrow> (case literal_definition name of Some (k, title) \<Rightarrow> read_call ft quote (literal_steps ft k) k name title args
            | None \<Rightarrow> None))))))))"

section \<open>The request of a call\<close>

text \<open>Requests without data.\<close>

definition empty_kinds :: "GenericKind list" where
  "empty_kinds = [ManualRecordStart, ManualRecordToggle, StreamToggle, VirtualCamToggle, ReplayBufferToggle, StreamStart, VirtualCamStart,
     ReplayBufferStart, StreamStop, VirtualCamStop, ReplayBufferStop, TriggerStudioModeTransition, SaveReplayBuffer, RecordPause,
     RecordResume, RecordPauseToggle, RecordFileSplit]"

definition rename_field :: "string \<Rightarrow> string \<Rightarrow> json \<Rightarrow> json" where
  "rename_field from to v = (case v of JObject fs \<Rightarrow> (case map_of fs from of None \<Rightarrow> v | Some x \<Rightarrow> JObject (jput to x (del from fs))) | _ \<Rightarrow> v)"

definition request_data :: "Call \<Rightarrow> json" where
  "request_data c =
     (if call_follow_up c = Some FU_Transform then transform_request_data (call_arguments c)
      else if call_kind c \<in> set empty_kinds then JNull
      else (let d = (case call_follow_up c of Some (FU_Input k shot) \<Rightarrow> remove_key ''includeScreenshot'' (call_arguments c) | _ \<Rightarrow> call_arguments c)
        in if call_kind c \<in> {CreateSceneItem, SceneItemEnabled} then rename_field ''enabled'' ''sceneItemEnabled'' d
           else if call_kind c = CurrentSceneTransitionDuration then rename_field ''duration'' ''transitionDuration'' d
           else d))"

end
