(* ===== verification/Generic_Parse.thy ===== *)
theory Generic_Parse
  imports Generic_Call
begin

text \<open>
  What parsing a changing call guarantees: the arguments that are kept are canonical, so that the same call is parsed
  from them again, however often it is queued, confirmed and asked for.
\<close>

section \<open>Reading fields again\<close>

abbreviation ordered :: "(string \<times> json) list \<Rightarrow> bool" where
  "ordered fs \<equiv> sorted_wrt (<) (map fst fs)"

lemma map_of_keep_field: "map_of (keep_field k v d) = (case v of None \<Rightarrow> map_of d | Some x \<Rightarrow> (map_of d)(k \<mapsto> x))"
  by (simp add: keep_field_def split: option.split)

lemma ordered_keep_field: "ordered d \<Longrightarrow> ordered (keep_field k v d)"
  by (simp add: keep_field_def sorted_jput split: option.split)

lemma ordered_unique:
  assumes "ordered xs" and "ordered ys" and "map_of xs = map_of ys"
  shows "xs = ys"
proof -
  have d: "distinct (map fst xs)" "distinct (map fst ys)"
    using assms(1,2) strict_sorted_iff by blast+
  then have "set xs = set ys"
    using assms(3) by (metis map_of_inject_set)
  moreover from this assms(1,2) d have "map fst xs = map fst ys"
    by (metis list.set_map strict_sorted_equal)
  ultimately show ?thesis
    using d by (metis map_of_eqI assms(3) map_fst_zip map_snd_zip zip_map_fst_snd map_of_zip_inject list.set_map length_map)
qed

lemma read_steps_fields:
  assumes "read_steps ss source d = Some d'" and "distinct (map step_key ss)" and "\<forall>s \<in> set ss. map_of d (step_key s) = None"
  shows "(\<forall>s \<in> set ss. kept_value s source = Some (map_of d' (step_key s))) \<and>
    (\<forall>k. k \<notin> step_key ` set ss \<longrightarrow> map_of d' k = map_of d k) \<and> (ordered d \<longrightarrow> ordered d')"
  using assms
proof (induction ss arbitrary: d)
  case (Cons s ss)
  from Cons.prems(1) obtain v where v: "kept_value s source = Some v" "read_steps ss source (keep_field (step_key s) v d) = Some d'"
    by (auto simp: bind_eq_Some_conv)
  have "\<forall>t \<in> set ss. map_of (keep_field (step_key s) v d) (step_key t) = None"
    using Cons.prems(2,3) by (auto simp: map_of_keep_field split: option.split) (metis imageI)
  from Cons.IH [OF v(2) _ this] Cons.prems(2)
  have ih: "(\<forall>t \<in> set ss. kept_value t source = Some (map_of d' (step_key t)))"
      "\<forall>k. k \<notin> step_key ` set ss \<longrightarrow> map_of d' k = map_of (keep_field (step_key s) v d) k"
      "ordered (keep_field (step_key s) v d) \<longrightarrow> ordered d'"
    by auto
  from Cons.prems(2,3) ih(2) have "map_of d' (step_key s) = v"
    by (auto simp: map_of_keep_field split: option.split)
  with v(1) ih ordered_keep_field show ?case
    by (auto simp: map_of_keep_field split: option.splits)
qed simp

lemma read_steps_defined: "\<forall>s \<in> set ss. kept_value s source \<noteq> None \<Longrightarrow> \<exists>d'. read_steps ss source d = Some d'"
  by (induction ss arbitrary: d) auto

text \<open>A value that was kept is kept as it is when it is read again.\<close>

definition stable :: "float_text \<Rightarrow> (json \<Rightarrow> json option) \<Rightarrow> bool" where
  "stable ft f \<longleftrightarrow> (\<forall>v x. f v = Some x \<longrightarrow> f (visit_json ft x) = Some (visit_json ft x))"

primrec stable_step :: "float_text \<Rightarrow> field_step \<Rightarrow> bool" where
  "stable_step ft (Need k f) = stable ft f"
| "stable_step ft (May k f) = stable ft f"
| "stable_step ft (Or_Default k x f) = (stable ft f \<and> f (visit_json ft x) = Some (visit_json ft x))"

definition stable_steps :: "float_text \<Rightarrow> field_step list \<Rightarrow> bool" where
  "stable_steps ft ss \<longleftrightarrow> distinct (map step_key ss) \<and> list_all (stable_step ft) ss"

lemma step_again:
  assumes "stable_step ft s" and "kept_value s source = Some v" and "get source' (step_key s) = map_option (visit_json ft) v"
  shows "kept_value s source' = Some (map_option (visit_json ft) v)"
  using assms by (cases s) (auto simp: stable_def split: option.splits)

abbreviation visit_fields :: "float_text \<Rightarrow> (string \<times> json) list \<Rightarrow> (string \<times> json) list" where
  "visit_fields ft fs \<equiv> map (\<lambda>(k, v). (k, visit_json ft v)) fs"

lemma ordered_visit [simp]: "ordered (visit_fields ft fs) \<longleftrightarrow> ordered fs"
  by (simp add: o_def split_beta)

lemma read_steps_again:
  assumes "stable_steps ft ss" and "read_steps ss source [] = Some d"
    and "\<forall>s \<in> set ss. get source' (step_key s) = map_option (visit_json ft) (map_of d (step_key s))"
  shows "read_steps ss source' [] = Some (visit_fields ft d)"
proof -
  from assms(1) have distinct: "distinct (map step_key ss)" by (simp add: stable_steps_def)
  from read_steps_fields [OF assms(2) distinct]
  have d: "\<forall>s \<in> set ss. kept_value s source = Some (map_of d (step_key s))" "\<forall>k. k \<notin> step_key ` set ss \<longrightarrow> map_of d k = None" "ordered d"
    by auto
  have again: "\<forall>s \<in> set ss. kept_value s source' = Some (map_option (visit_json ft) (map_of d (step_key s)))"
    using assms(1,3) d(1) step_again by (auto simp: stable_steps_def list_all_iff)
  then obtain e where e: "read_steps ss source' [] = Some e"
    using read_steps_defined [of ss source' "[]"] by auto
  from read_steps_fields [OF e distinct]
  have e': "\<forall>s \<in> set ss. kept_value s source' = Some (map_of e (step_key s))" "\<forall>k. k \<notin> step_key ` set ss \<longrightarrow> map_of e k = None" "ordered e"
    by auto
  have "map_of e k = map_of (visit_fields ft d) k" for k
    using again e'(1,2) d(2) by (cases "k \<in> step_key ` set ss") (auto simp: map_of_visit)
  with e'(3) d(3) have "e = visit_fields ft d"
    by (intro ordered_unique ext) (simp_all only: ordered_visit)
  with e show ?thesis by simp
qed

lemma read_object_again:
  assumes "stable_steps ft ss" and "read_object ss v = Some a"
    and "as_object w \<noteq> None" and "\<forall>s \<in> set ss. get w (step_key s) = get (visit_json ft a) (step_key s)"
  shows "read_object ss w = Some (visit_json ft a)"
proof -
  from assms(2) obtain d where d: "read_steps ss v [] = Some d" "a = JObject d"
    by (auto simp: read_object_def split: if_splits)
  with assms(3,4) read_steps_again [OF assms(1) d(1), of w] show ?thesis
    by (auto simp: read_object_def map_of_visit)
qed

lemma stable_read_object: "stable_steps ft ss \<Longrightarrow> stable ft (read_object ss)"
  unfolding stable_def
proof (intro allI impI)
  fix v x
  assume ok: "stable_steps ft ss" and x: "read_object ss v = Some x"
  then obtain d where "x = JObject d" by (auto simp: read_object_def split: if_splits)
  then show "read_object ss (visit_json ft x) = Some (visit_json ft x)"
    by (intro read_object_again [OF ok x]) auto
qed

section \<open>The values that are kept\<close>

lemma stable_texts [simp]: "stable ft text_value" "stable ft bool_value" "stable ft (text_where ok)" "stable ft text_or_null" "stable ft Some"
  by (auto simp: stable_def text_value_def bool_value_def text_where_def text_or_null_def bind_eq_Some_conv split: if_splits)

lemma kept_constants [simp]: "bool_value (JBool b) = Some (JBool b)" "text_where ok (JString s) = (if ok s then Some (JString s) else None)"
  by (simp_all add: bool_value_def text_where_def)

lemma del_visit: "del k (visit_fields ft fs) = visit_fields ft (del k fs)"
  by (induction fs) (auto simp: del_def)

lemma stable_record [simp]: "stable ft record_value"
  by (auto simp: stable_def record_value_def del_visit) (simp add: del_def)

lemma visit_eq_simps [simp]: "visit_json ft v = JNull \<longleftrightarrow> v = JNull" "visit_json ft v = JBool b \<longleftrightarrow> v = JBool b"
  by (cases v; simp)+

lemma stable_numbers [simp]:
  assumes "faithful_floats ft"
  shows "stable ft (number_where ft ok)" "stable ft (number_or_null ft ok)"
  using assms by (auto simp: stable_def number_where_def number_or_null_def split: json.splits if_splits)

lemma stable_tracks [simp]: "stable ft tracks_value"
proof -
  have "tracks_value (visit_json ft v) = Some (visit_json ft v)" if "tracks_value v = Some v" for v
    using that by (cases v) (auto simp: tracks_value_def map_of_visit split: if_splits)
  moreover have "x = v" if "tracks_value v = Some x" for v x
    using that by (auto simp: tracks_value_def bind_eq_Some_conv split: if_splits)
  ultimately show ?thesis by (auto simp: stable_def)
qed

lemma stable_texts_steps [simp]: "list_all (stable_step ft) (texts fds)"
  by (auto simp: texts_def list_all_iff)

lemma keys_texts [simp]: "map step_key (texts fds) = map fst fds"
  by (auto simp: texts_def)

lemma all_some_Some: "all_some xs = Some ys \<longleftrightarrow> map Some ys = xs"
  by (induction xs arbitrary: ys) (auto simp: bind_eq_Some_conv)

lemma stable_single: "stable_steps ft single_steps"
  by (simp add: stable_steps_def single_steps_def)

lemma stable_batch [simp]: "stable ft batch_value"
  unfolding stable_def
proof (intro allI impI)
  fix v x
  assume "batch_value v = Some x"
  then obtain rs ys where r: "as_array v = Some rs" "rs \<noteq> []" "length rs \<le> 100" "x = JArray ys" "map Some ys = map (read_object single_steps) rs"
    by (auto simp: batch_value_def bind_eq_Some_conv all_some_Some split: if_splits)
  have "read_object single_steps (visit_json ft y) = Some (visit_json ft y)" if "y \<in> set ys" for y
  proof -
    from that r(5) have "Some y \<in> set (map (read_object single_steps) rs)" by (metis image_eqI list.set_map)
    then obtain u where "read_object single_steps u = Some y" by auto
    with stable_read_object [OF stable_single] show ?thesis by (auto simp: stable_def)
  qed
  then have "all_some (map (read_object single_steps) (map (visit_json ft) ys)) = Some (map (visit_json ft) ys)"
    by (simp add: all_some_Some)
  moreover from r have "ys \<noteq> []" "length ys \<le> 100" by (auto dest: arg_cong [where f = length])
  ultimately show "batch_value (visit_json ft x) = Some (visit_json ft x)"
    by (simp add: batch_value_def r(4))
qed

lemma stable_modifiers [simp]:
  "stable ft (read_object [May ''shift'' bool_value, May ''control'' bool_value, May ''alt'' bool_value, May ''command'' bool_value])"
  by (rule stable_read_object) (simp add: stable_steps_def)

section \<open>Every table of fields\<close>

lemma stable_opaque_command: "opaque_command name = Some (k, title, ss) \<Longrightarrow> stable_steps ft ss"
  using stable_single stable_modifiers
  by (auto simp: opaque_command_def stable_steps_def split: if_splits)

lemma stable_transform: "faithful_floats ft \<Longrightarrow> stable_steps ft (transform_steps ft)"
  by (simp add: stable_steps_def transform_steps_def SELECTORS_def NUMBERS_def)

lemma stable_input_mutation: "stable_steps ft (input_mutation_steps k)"
  by (cases k) (simp_all add: stable_steps_def)

lemma stable_ui: "faithful_floats ft \<Longrightarrow> ui_steps ft k = Some ss \<Longrightarrow> stable_steps ft ss"
  by (auto simp: ui_steps_def ui_strings_def stable_steps_def split: if_splits)

lemma stable_opaque: "faithful_floats ft \<Longrightarrow> opaque_steps ft k = Some ss \<Longrightarrow> stable_steps ft ss"
  by (auto simp: opaque_steps_def opaque_fields_def opaque_record_def stable_steps_def split: if_splits)

lemma stable_configuration: "faithful_floats ft \<Longrightarrow> configuration_steps ft k = Some ss \<Longrightarrow> stable_steps ft ss"
  by (auto simp: configuration_steps_def configuration_strings_def video_keys_def stable_steps_def split: if_splits)

lemma stable_literal: "faithful_floats ft \<Longrightarrow> literal_steps ft k = Some ss \<Longrightarrow> stable_steps ft ss"
  by (auto simp: literal_steps_def literal_strings_def literal_values_def stable_steps_def bind_eq_Some_conv split: if_splits)

lemma stable_extra: "faithful_floats ft \<Longrightarrow> extra_steps ft k = Some ss \<Longrightarrow> stable_steps ft ss"
  by (auto simp: extra_steps_def extra_fields_def extra_texts_def extra_values_def stable_steps_def split: if_splits)

section \<open>The families of tools are apart\<close>

definition early_names :: "string list" where
  "early_names = [''obs-call-request'', ''obs-batch'', ''obs-call-vendor-request'', ''obs-trigger-hotkey-by-name'',
     ''obs-trigger-hotkey-by-key-sequence'', ''obs-start-record'', ''obs-toggle-record'', ''obs-start-output'', ''obs-stop-output'',
     ''obs-toggle-output'', ''obs-set-scene-item-transform'', ''obs-create-input'', ''obs-set-input-settings'']"

abbreviation early_name :: "string \<Rightarrow> bool" where
  "early_name name \<equiv> name \<in> set early_names"

lemma early_families:
  "is_advanced_name name \<Longrightarrow> opaque_command name = None"
  "opaque_command ''obs-set-scene-item-transform'' = None" "\<not> is_advanced_name ''obs-set-scene-item-transform''"
  "input_mutation name = Some k \<Longrightarrow> opaque_command name = None \<and> \<not> is_advanced_name name \<and> name \<noteq> ''obs-set-scene-item-transform''"
  by (auto simp: opaque_command_def is_advanced_name_def input_mutation_def split: if_splits)

lemma not_early:
  assumes "\<not> early_name name"
  shows "opaque_command name = None" "\<not> is_advanced_name name" "name \<noteq> ''obs-set-scene-item-transform''" "input_mutation name = None"
  using assms by (auto simp: early_names_def opaque_command_def is_advanced_name_def input_mutation_def)

lemma late_tables:
  "list_all (\<lambda>n. ui_definition n = None \<and> opaque_definition n = None \<and> configuration_definition n = None \<and>
     extra_definition n = None \<and> literal_definition n = None) early_names"
  by code_simp

lemma late_names:
  assumes "ui_definition name \<noteq> None \<or> opaque_definition name \<noteq> None \<or> configuration_definition name \<noteq> None \<or>
    extra_definition name \<noteq> None \<or> literal_definition name \<noteq> None"
  shows "\<not> early_name name"
  using assms late_tables [unfolded list_all_iff, THEN bspec, of name] by metis

lemma parse_opaque_None: "opaque_command name = None \<Longrightarrow> parse_opaque_command name args = None"
  by (simp add: parse_opaque_command_def)

lemma parse_command_None: "\<not> is_advanced_name name \<Longrightarrow> parse_command name args = None"
  by (auto simp: parse_command_def is_advanced_name_def Let_def)

lemma parse_input_None: "input_mutation name = None \<Longrightarrow> parse_input_mutation ft quote name args = None"
  by (simp add: parse_input_mutation_def)

lemma parse_command_again:
  assumes "parse_command name args = Some cmd"
  shows "command_name cmd = name" "is_advanced_name name" "parse_command name (command_arguments cmd) = Some cmd"
  using assms by (auto simp: parse_command_def is_advanced_name_def Let_def mk_object_def mk_fields_def split: if_splits)

lemma late_parse:
  assumes "\<not> early_name name"
  shows "parse_call ft quote name args =
    (case ui_definition name of Some (k, title) \<Rightarrow> read_call ft quote (ui_steps ft k) k name title args
      | None \<Rightarrow> (case opaque_definition name of Some (k, title) \<Rightarrow> read_call ft quote (opaque_steps ft k) k name title args
      | None \<Rightarrow> (case configuration_definition name of Some (k, title) \<Rightarrow> read_call ft quote (configuration_steps ft k) k name title args
      | None \<Rightarrow> (case extra_definition name of Some (k, title) \<Rightarrow> parse_extra ft quote k name title args
      | None \<Rightarrow> (case literal_definition name of Some (k, title) \<Rightarrow> read_call ft quote (literal_steps ft k) k name title args
      | None \<Rightarrow> None)))))"
  using not_early [OF assms] by (simp add: parse_call_def parse_opaque_None parse_command_None parse_input_None)

section \<open>Reading a call again\<close>

lemma normalize_case:
  "(case normalize_with_limits ft quote default_limits v of Err e \<Rightarrow> None | Ok b \<Rightarrow> g b) = Some c \<longleftrightarrow>
     (\<exists>n. encoded_len ft quote default_limits v = Ok n) \<and> g (visit_json ft v) = Some c"
  by (cases "encoded_len ft quote default_limits v") (simp_all add: normalize_with_limits_def)

lemma source_numbers_Some:
  "source_numbers ft quote c = Some d \<longleftrightarrow> (\<exists>n. encoded_len ft quote default_limits (call_arguments c) = Ok n) \<and>
     d = c\<lparr>call_arguments := visit_json ft (call_arguments c)\<rparr>"
  by (auto simp: source_numbers_def normalize_case)

lemma plain_call_simps [simp]:
  "call_kind (plain_call k name title a) = k" "call_name (plain_call k name title a) = name" "call_title (plain_call k name title a) = title"
  "call_arguments (plain_call k name title a) = a" "call_follow_up (plain_call k name title a) = None"
  "(plain_call k name title a)\<lparr>call_arguments := b\<rparr> = plain_call k name title b"
  by (simp_all add: plain_call_def)

lemma read_call_Some:
  "read_call ft quote steps k name title args = Some c \<longleftrightarrow>
     (\<exists>ss a n. steps = Some ss \<and> read_object ss args = Some a \<and> encoded_len ft quote default_limits a = Ok n \<and>
        c = plain_call k name title (visit_json ft a))"
  by (auto simp: read_call_def bind_eq_Some_conv source_numbers_Some)

lemma read_call_again:
  assumes "faithful_floats ft" and "\<And>ss. steps = Some ss \<Longrightarrow> stable_steps ft ss"
    and "read_call ft quote steps k name title args = Some c"
  shows "call_name c = name \<and> read_call ft quote steps k name title (call_arguments c) = Some c"
proof -
  from assms(3) obtain ss a n where a: "steps = Some ss" "read_object ss args = Some a" "encoded_len ft quote default_limits a = Ok n"
      "c = plain_call k name title (visit_json ft a)"
    by (auto simp: read_call_Some)
  from stable_read_object [OF assms(2) [OF a(1)]] a(2) have "read_object ss (visit_json ft a) = Some (visit_json ft a)"
    by (auto simp: stable_def)
  with a assms(1) show ?thesis by (auto simp: read_call_Some)
qed

lemma parse_extra_again:
  assumes "faithful_floats ft" and "parse_extra ft quote k name title args = Some c"
  shows "call_name c = name \<and> parse_extra ft quote k name title (call_arguments c) = Some c"
proof (cases "k \<in> set bare_kinds")
  case True
  with assms(2) show ?thesis by (auto simp: parse_extra_def split: if_splits)
next
  case False
  with assms(2) have c: "read_call ft quote (extra_steps ft k) k name title args = Some c"
    by (auto simp: parse_extra_def split: if_splits)
  then have "as_object (call_arguments c) \<noteq> None"
    by (auto simp: read_call_Some read_object_def split: if_splits)
  with False read_call_again [OF assms(1) stable_extra [OF assms(1)] c] show ?thesis
    by (simp add: parse_extra_def)
qed

lemma late_cases [consumes 2, case_names ui opaque configuration extra literal]:
  assumes "\<not> early_name name" and "parse_call ft quote name args = Some c"
  obtains (ui) k title where "read_call ft quote (ui_steps ft k) k name title args = Some c" "\<And>v. parse_call ft quote name v = read_call ft quote (ui_steps ft k) k name title v"
    | (opaque) k title where "read_call ft quote (opaque_steps ft k) k name title args = Some c" "\<And>v. parse_call ft quote name v = read_call ft quote (opaque_steps ft k) k name title v"
    | (configuration) k title where "read_call ft quote (configuration_steps ft k) k name title args = Some c" "\<And>v. parse_call ft quote name v = read_call ft quote (configuration_steps ft k) k name title v"
    | (extra) k title where "parse_extra ft quote k name title args = Some c" "\<And>v. parse_call ft quote name v = parse_extra ft quote k name title v"
    | (literal) k title where "read_call ft quote (literal_steps ft k) k name title args = Some c" "\<And>v. parse_call ft quote name v = read_call ft quote (literal_steps ft k) k name title v"
  using assms(2) unfolding late_parse [OF assms(1)]
  by (cases "ui_definition name"; cases "opaque_definition name"; cases "configuration_definition name";
      cases "extra_definition name"; cases "literal_definition name") (auto simp: late_parse [OF assms(1)] split: prod.splits)

lemma late_again:
  assumes "faithful_floats ft" and "\<not> early_name name" and "parse_call ft quote name args = Some c"
  shows "call_name c = name \<and> parse_call ft quote name (call_arguments c) = Some c"
  using assms(2,3)
proof (cases rule: late_cases)
  case (ui k title)
  from read_call_again [OF assms(1) stable_ui [OF assms(1)] ui(1)] show ?thesis by (simp add: ui(2))
next
  case (opaque k title)
  from read_call_again [OF assms(1) stable_opaque [OF assms(1)] opaque(1)] show ?thesis by (simp add: opaque(2))
next
  case (configuration k title)
  from read_call_again [OF assms(1) stable_configuration [OF assms(1)] configuration(1)] show ?thesis by (simp add: configuration(2))
next
  case (extra k title)
  from parse_extra_again [OF assms(1) extra(1)] show ?thesis by (simp add: extra(2))
next
  case (literal k title)
  from read_call_again [OF assms(1) stable_literal [OF assms(1)] literal(1)] show ?thesis by (simp add: literal(2))
qed

lemma opaque_again:
  assumes "faithful_floats ft" and "parse_opaque_command name args = Some (k, n, title, a)" and "source_numbers ft quote (plain_call k n title a) = Some c"
  shows "call_name c = name \<and> parse_call ft quote name (call_arguments c) = Some c"
proof -
  from assms(2) obtain ss where ss: "opaque_command name = Some (k, title, ss)" "read_object ss args = Some a" "n = name"
    by (auto simp: parse_opaque_command_def bind_eq_Some_conv)
  from stable_read_object [OF stable_opaque_command [OF ss(1)]] ss(2) have "read_object ss (visit_json ft a) = Some (visit_json ft a)"
    by (auto simp: stable_def)
  with assms(1,3) ss show ?thesis
    by (auto simp: source_numbers_Some parse_call_def parse_opaque_command_def)
qed

lemma transform_again:
  assumes "faithful_floats ft" and "parse_transform ft quote args = Some a"
  shows "parse_transform ft quote a = Some a"
proof -
  from assms(2) obtain b n where b: "read_object (transform_steps ft) args = Some b" "encoded_len ft quote default_limits b = Ok n" "a = visit_json ft b"
    by (auto simp: parse_transform_def bind_eq_Some_conv normalize_case)
  from stable_read_object [OF stable_transform [OF assms(1)]] b(1) have "read_object (transform_steps ft) a = Some a"
    by (auto simp: stable_def b(3))
  with assms(1) b show ?thesis by (simp add: parse_transform_def normalize_with_limits_def)
qed

lemma screenshot_apart: "s \<in> set (input_mutation_steps k) \<Longrightarrow> step_key s \<noteq> ''includeScreenshot''"
  by (cases k) (auto simp: texts_def)

lemma input_again:
  assumes "faithful_floats ft" and "parse_input_mutation ft quote name args = Some (k, a, shot)"
  shows "parse_input_mutation ft quote name a = Some (k, a, shot)"
proof -
  from assms(2) obtain b n where b: "input_mutation name = Some k" "read_object (input_mutation_steps k) args = Some b" "screenshot_flag args = Some shot"
      "encoded_len ft quote default_limits b = Ok n"
      "a = (case shot of None \<Rightarrow> visit_json ft b | Some flag \<Rightarrow> set_key ''includeScreenshot'' (JBool flag) (visit_json ft b))"
    by (auto simp: parse_input_mutation_def bind_eq_Some_conv normalize_case)
  from b(2) obtain d where d: "b = JObject d" "read_steps (input_mutation_steps k) args [] = Some d"
    by (auto simp: read_object_def split: if_splits)
  have "''includeScreenshot'' \<notin> step_key ` set (input_mutation_steps k)"
  proof
    assume "''includeScreenshot'' \<in> step_key ` set (input_mutation_steps k)"
    then obtain s where s: "s \<in> set (input_mutation_steps k)" "''includeScreenshot'' = step_key s" by (rule imageE)
    from screenshot_apart [OF s(1)] s(2) [symmetric] show False by (rule notE)
  qed
  with read_steps_fields [OF d(2)] stable_input_mutation [of ft k] have none: "map_of d ''includeScreenshot'' = None"
    by (auto simp: stable_steps_def)
  have "read_object (input_mutation_steps k) a = Some (visit_json ft b)"
    using screenshot_apart [of _ k]
    by (intro read_object_again [OF stable_input_mutation b(2)]) (auto simp: b(5) d(1) split: option.split)
  moreover have "screenshot_flag a = Some shot"
    using none by (auto simp: screenshot_flag_def b(5) d(1) map_of_visit split: option.split)
  ultimately show ?thesis
    using b(1,4,5) assms(1) by (simp add: parse_input_mutation_def normalize_with_limits_def)
qed

lemma early_cases [consumes 2, case_names opaque manual transform input]:
  assumes "parse_call ft quote name args = Some c" and "early_name name"
  obtains (opaque) k n title a where "parse_opaque_command name args = Some (k, n, title, a)" "source_numbers ft quote (plain_call k n title a) = Some c"
    | (manual) cmd where "parse_opaque_command name args = None" "parse_command name args = Some cmd"
        "c = plain_call (command_kind cmd) (command_name cmd) (command_title cmd) (command_arguments cmd)"
    | (transform) a where "name = ''obs-set-scene-item-transform''" "parse_transform ft quote args = Some a"
        "c = (plain_call SceneItemTransform name ''Set Scene Item Transform'' a)\<lparr>call_follow_up := Some FU_Transform\<rparr>"
    | (input) k a shot where "parse_input_mutation ft quote name args = Some (k, a, shot)"
        "c = (plain_call (input_mutation_kind k) name (input_mutation_title k) a)\<lparr>call_follow_up := Some (FU_Input k shot)\<rparr>"
  using assms late_names [of name]
  by (auto simp: parse_call_def split: option.splits if_splits)

section \<open>Property\<close>

text \<open>C21: a changing call is canonical. Whatever arguments a tool is called with, the call that is parsed from them has the
  tool's name, and the arguments it keeps are parsed again to exactly the same call: numbers, defaults, dropped fields and
  follow-up included.\<close>

theorem call_is_canonical:
  assumes "faithful_floats ft" and "parse_call ft quote name args = Some c"
  shows "call_name c = name \<and> parse_call ft quote (call_name c) (call_arguments c) = Some c"
proof (cases "early_name name")
  case False
  then show ?thesis using late_again [OF assms(1) _ assms(2)] by auto
next
  case True
  from assms(2) True show ?thesis
  proof (cases rule: early_cases)
    case (opaque k n title a)
    then show ?thesis using opaque_again [OF assms(1)] by metis
  next
    case (manual cmd)
    then show ?thesis
      using parse_command_again [OF manual(2)] early_families(1) by (simp add: parse_call_def parse_opaque_None)
  next
    case (transform a)
    then show ?thesis
      using transform_again [OF assms(1) transform(2)] early_families(2,3)
      by (simp add: parse_call_def parse_opaque_None parse_command_None)
  next
    case (input k a shot)
    from input(1) have "input_mutation name = Some k" by (auto simp: parse_input_mutation_def bind_eq_Some_conv normalize_case)
    with input show ?thesis
      using input_again [OF assms(1) input(1)] early_families(4)
      by (simp add: parse_call_def parse_opaque_None parse_command_None)
  qed
qed

theorem call_is_canonical_witness:
  "\<exists>c. parse_call exact_float (\<lambda>s. s) ''obs-set-tbar-position'' (JObject [(''extra'', JNull), (''position'', JNumber (Float 0))]) = Some c \<and>
     call_arguments c = JObject [(''position'', JNumber (PosInt 0)), (''release'', JBool True)] \<and>
     parse_call exact_float (\<lambda>s. s) ''obs-set-tbar-position'' (call_arguments c) = Some c"
proof -
  have "js_number exact_float (Float 0) = ''0''" by (simp add: js_number_def exact_float_def)
  moreover have "parse_u64 ''0'' = Some 0" by (simp add: parse_u64_def digits_value_def is_ascii_digit_def)
  ultimately have zero: "js_number exact_float (Float 0) = ''0''" "source_number exact_float (Float 0) = PosInt 0"
    by (simp_all add: source_number_def js_string_def)
  have kind: "extra_definition ''obs-set-tbar-position'' = Some (TBarPosition, ''Set T-Bar Position'')" by code_simp
  have "\<not> early_name ''obs-set-tbar-position''" using late_names kind by simp
  moreover have "ui_definition ''obs-set-tbar-position'' = None" "opaque_definition ''obs-set-tbar-position'' = None"
      "configuration_definition ''obs-set-tbar-position'' = None"
    by code_simp+
  ultimately have "parse_call exact_float (\<lambda>s. s) ''obs-set-tbar-position'' (JObject [(''extra'', JNull), (''position'', JNumber (Float 0))]) =
      Some (plain_call TBarPosition ''obs-set-tbar-position'' ''Set T-Bar Position'' (JObject [(''position'', JNumber (PosInt 0)), (''release'', JBool True)]))"
    using kind zero
    by (simp add: late_parse parse_extra_def bare_kinds_def read_call_def read_object_def extra_steps_def extra_fields_def
        extra_texts_def extra_values_def texts_def number_where_def between_def keep_field_def source_numbers_def
        normalize_with_limits_def encoded_len_def default_limits_def MAX_BYTES_def js_string_def)
      (simp add: exact_float_def)
  with call_is_canonical [OF exact_float_faithful this] show ?thesis by simp
qed

end
