(* ===== verification/Js_Text.thy ===== *)
theory Js_Text
  imports Source_Json
begin

text \<open>
  The bounded text of a JSON value as the original program prints it, \<open>append_js_string\<close> of
  \<open>src/native/src/generic_requests.rs\<close>, and its user \<open>src/native/src/output_stop_result.rs\<close>. The code walks nested arrays
  with an explicit stack; the reference is the recursive projection \<open>js_string\<close>.
\<close>

section \<open>The walk\<close>

datatype JsStringError = ToPrimitive | JS_ByteCapacity

definition append_string_piece :: "nat \<Rightarrow> string \<Rightarrow> string \<Rightarrow> (JsStringError, string) result" where
  "append_string_piece max_bytes piece out = (if max_bytes < length out + length piece then Err JS_ByteCapacity else Ok (out @ piece))"

definition number_text :: "float_text \<Rightarrow> rat \<Rightarrow> string" where
  "number_text ft x = js_string ft (Some (JNumber (Float x)))"

text \<open>What a value that is not a non-empty array adds.\<close>

definition js_leaf :: "float_text \<Rightarrow> nat \<Rightarrow> json option \<Rightarrow> bool \<Rightarrow> string \<Rightarrow> (JsStringError, string) result" where
  "js_leaf ft max_bytes value element out = (case value of
     None \<Rightarrow> append_string_piece max_bytes ''undefined'' out
   | Some JNull \<Rightarrow> if \<not> element then append_string_piece max_bytes ''null'' out else Ok out
   | Some (JBool b) \<Rightarrow> append_string_piece max_bytes (if b then ''true'' else ''false'') out
   | Some (JNumber n) \<Rightarrow> append_string_piece max_bytes (number_text ft (as_f64 ft n)) out
   | Some (JString s) \<Rightarrow> append_string_piece max_bytes s out
   | Some (JObject fs) \<Rightarrow> if map_of fs ''toString'' \<noteq> None then Err ToPrimitive else append_string_piece max_bytes ''[object Object]'' out
   | Some (JArray vs) \<Rightarrow> Ok out)"

fun json_weight :: "json \<Rightarrow> nat" where
  "json_weight (JArray vs) = 2 + sum_list (map json_weight vs)"
| "json_weight v = 1"

definition stack_weight :: "json list list \<Rightarrow> nat" where
  "stack_weight ps = sum_list (map (\<lambda>vs. 1 + sum_list (map json_weight vs)) ps)"

lemma json_weight_pos: "0 < json_weight v"
  by (cases v) auto

text \<open>\<open>js_walk\<close> is the outer loop, \<open>js_next\<close> the inner one: the rest of the innermost array that has one.\<close>

function (sequential) js_walk :: "float_text \<Rightarrow> nat \<Rightarrow> json list list \<Rightarrow> json option \<Rightarrow> bool \<Rightarrow> string \<Rightarrow> (JsStringError, string) result"
  and js_next :: "float_text \<Rightarrow> nat \<Rightarrow> json list list \<Rightarrow> string \<Rightarrow> (JsStringError, string) result" where
  "js_walk ft max_bytes parents (Some (JArray (v # vs))) element out = js_walk ft max_bytes (vs # parents) (Some v) True out"
| "js_walk ft max_bytes parents value element out = and_then (js_leaf ft max_bytes value element out) (js_next ft max_bytes parents)"
| "js_next ft max_bytes [] out = Ok out"
| "js_next ft max_bytes ([] # parents) out = js_next ft max_bytes parents out"
| "js_next ft max_bytes ((v # vs) # parents) out =
     and_then (append_string_piece max_bytes '','' out) (js_walk ft max_bytes (vs # parents) (Some v) True)"
  by pat_completeness auto
termination
  by (relation "measure (\<lambda>x. case x of
      Inl (ft, m, parents, value, element, out) \<Rightarrow> 2 * ((case value of None \<Rightarrow> 1 | Some v \<Rightarrow> json_weight v) + stack_weight parents)
    | Inr (ft, m, parents, out) \<Rightarrow> 2 * stack_weight parents + 1)")
    (auto simp: stack_weight_def json_weight_pos split: option.split intro: add_strict_mono)

text \<open>On failure the output is truncated to what it was.\<close>

definition append_js_string :: "float_text \<Rightarrow> nat \<Rightarrow> json option \<Rightarrow> string \<Rightarrow> (JsStringError, unit) result \<times> string" where
  "append_js_string ft max_bytes value out =
     (if max_bytes < length out then (Err JS_ByteCapacity, out)
      else (case js_walk ft max_bytes [] value False out of Err e \<Rightarrow> (Err e, out) | Ok out' \<Rightarrow> (Ok (), out')))"

section \<open>Results of stopping an output\<close>

definition RECORD_TEXT_BYTES :: nat where
  "RECORD_TEXT_BYTES = 8 * 1024 * 1024"

definition RECORD_PREFIX :: string where
  "RECORD_PREFIX = ''Recording stopped, saved to: ''"

definition TO_PRIMITIVE :: string where
  "TO_PRIMITIVE = ''Cannot convert object to primitive value''"

definition stop_success :: "string \<Rightarrow> json" where
  "stop_success text = mk_object [(''content'', JArray [mk_object [(''type'', JString ''text''), (''text'', JString text)]]),
     (''structuredContent'', mk_object [(''message'', JString text)])]"

definition record_error :: "string \<Rightarrow> json" where
  "record_error message = text_result (''Error stopping recording: '' @ message) True"

definition record_ack_with_limit :: "float_text \<Rightarrow> nat \<Rightarrow> json \<Rightarrow> json" where
  "record_ack_with_limit ft max_bytes response = (case append_js_string ft max_bytes (get response ''outputPath'') RECORD_PREFIX of
     (Ok _, text) \<Rightarrow> stop_success text
   | (Err ToPrimitive, text) \<Rightarrow> record_error TO_PRIMITIVE
   | (Err JS_ByteCapacity, text) \<Rightarrow> record_error (''StopRecord was acknowledged, but its response text exceeds the native '' @ dec max_bytes @ ''-byte limit''))"

definition record_ack :: "float_text \<Rightarrow> json \<Rightarrow> json" where
  "record_ack ft response = record_ack_with_limit ft RECORD_TEXT_BYTES response"

definition named_ack :: "string \<Rightarrow> json" where
  "named_ack name = stop_success (''Output '' @ [CHR 0x27] @ name @ [CHR 0x27] @ '' stopped'')"

definition named_error :: "string \<Rightarrow> json" where
  "named_error message = text_result (''Stop Output failed: '' @ message) True"

section \<open>The reference\<close>

text \<open>A value that has a text: no object whose own field shadows the conversion.\<close>

fun convertible :: "json \<Rightarrow> bool" where
  "convertible (JArray vs) \<longleftrightarrow> list_all convertible vs"
| "convertible (JObject fs) \<longleftrightarrow> map_of fs ''toString'' = None"
| "convertible v \<longleftrightarrow> True"

definition element_text :: "float_text \<Rightarrow> json \<Rightarrow> string" where
  "element_text ft v = (if v = JNull then [] else js_value ft v)"

definition rest_text :: "float_text \<Rightarrow> json list list \<Rightarrow> string" where
  "rest_text ft parents = concat (map (\<lambda>vs. concat (map (\<lambda>v. '','' @ element_text ft v) vs)) parents)"

text \<open>What appending a text to \<open>out\<close> gives.\<close>

definition appends :: "nat \<Rightarrow> string \<Rightarrow> bool \<Rightarrow> string \<Rightarrow> (JsStringError, string) result \<Rightarrow> bool" where
  "appends m out ok text r \<longleftrightarrow>
     (if ok \<and> length out + length text \<le> m then r = Ok (out @ text)
      else \<exists>e. r = Err e \<and> (ok \<longrightarrow> e = JS_ByteCapacity) \<and> (length out + length text \<le> m \<longrightarrow> e = ToPrimitive))"

lemma appends_piece: "appends m out True text (append_string_piece m text out)"
  by (simp add: appends_def append_string_piece_def)

lemma appends_none: "length out \<le> m \<Longrightarrow> appends m out True [] (Ok out)"
  by (simp add: appends_def)

lemma appends_then:
  assumes "appends m out ok text r" and "\<And>o'. length o' \<le> m \<Longrightarrow> appends m o' ok' text' (f o')"
  shows "appends m out (ok \<and> ok') (text @ text') (and_then r f)"
proof (cases "ok \<and> length out + length text \<le> m")
  case True
  with assms(1) assms(2) [of "out @ text"] show ?thesis by (auto simp: appends_def)
next
  case False
  with assms(1) show ?thesis by (auto simp: appends_def)
qed

lemma number_text_js: "faithful_floats ft \<Longrightarrow> number_text ft (as_f64 ft n) = js_number ft n"
  by (simp add: number_text_def js_string_def) (rule js_number_f64, simp add: faithful_floats_def)

definition value_text :: "float_text \<Rightarrow> json option \<Rightarrow> bool \<Rightarrow> string" where
  "value_text ft v element = (case v of None \<Rightarrow> ''undefined'' | Some x \<Rightarrow> if element then element_text ft x else js_value ft x)"

lemma leaf_appends:
  assumes "faithful_floats ft" and "length out \<le> m" and "\<And>v vs. value \<noteq> Some (JArray (v # vs))"
  shows "appends m out (case value of None \<Rightarrow> True | Some x \<Rightarrow> convertible x) (value_text ft value element) (js_leaf ft m value element out)"
proof (cases "value")
  case None
  then show ?thesis by (simp add: js_leaf_def value_text_def appends_piece)
next
  case (Some x)
  note defs = js_leaf_def value_text_def element_text_def
  show ?thesis
  proof (cases x)
    case JNull
    with Some assms(2) show ?thesis by (simp add: defs appends_piece appends_none)
  next
    case (JArray vs)
    with Some assms(2,3) show ?thesis by (cases vs) (simp_all add: defs appends_none)
  next
    case (JObject fs)
    show ?thesis
    proof (cases "map_of fs ''toString''")
      case None
      with Some JObject show ?thesis by (simp add: defs appends_piece)
    next
      case (Some t)
      with \<open>value = Some x\<close> JObject show ?thesis by (simp add: defs appends_def)
    qed
  qed (use Some assms(1) in \<open>simp_all add: defs appends_piece number_text_js\<close>)
qed

lemma join_rest: "join_with '','' (map f (v # vs)) = f v @ concat (map (\<lambda>v. '','' @ f v) vs)"
  by (induction vs arbitrary: v) auto

lemma js_value_array: "js_value ft (JArray (v # vs)) = element_text ft v @ concat (map (\<lambda>v. '','' @ element_text ft v) vs)"
proof -
  have "(\<lambda>v. if v = JNull then [] else js_value ft v) = element_text ft" by (simp add: fun_eq_iff element_text_def)
  with join_rest [of "element_text ft" v vs] show ?thesis by (simp del: list.map)
qed

abbreviation all_convertible :: "json list list \<Rightarrow> bool" where
  "all_convertible parents \<equiv> list_all (list_all convertible) parents"

lemma rest_simps [simp]: "rest_text ft [] = []" "rest_text ft ([] # ps) = rest_text ft ps"
    "rest_text ft ((v # vs) # ps) = '','' @ element_text ft v @ rest_text ft (vs # ps)"
    "rest_text ft (vs # ps) = concat (map (\<lambda>v. '','' @ element_text ft v) vs) @ rest_text ft ps"
  by (simp_all add: rest_text_def)

lemma walk_leaf:
  assumes "faithful_floats ft" and "length out \<le> m" and "\<And>v vs. value \<noteq> Some (JArray (v # vs))"
    and "\<And>o'. length o' \<le> m \<Longrightarrow> appends m o' (all_convertible parents) (rest_text ft parents) (js_next ft m parents o')"
  shows "appends m out ((case value of None \<Rightarrow> True | Some x \<Rightarrow> convertible x) \<and> all_convertible parents)
    (value_text ft value element @ rest_text ft parents) (and_then (js_leaf ft m value element out) (js_next ft m parents))"
  by (rule appends_then [OF leaf_appends [OF assms(1-3)] assms(4)])

lemma walk_appends:
  "faithful_floats ft \<Longrightarrow> length out \<le> m \<Longrightarrow>
     appends m out ((case value of None \<Rightarrow> True | Some x \<Rightarrow> convertible x) \<and> all_convertible parents)
       (value_text ft value element @ rest_text ft parents) (js_walk ft m parents value element out)"
  "faithful_floats ft \<Longrightarrow> length out \<le> m \<Longrightarrow> appends m out (all_convertible parents) (rest_text ft parents) (js_next ft m parents out)"
proof (induction ft m parents "value" element out and ft m parents out rule: js_walk_js_next.induct)
  case (1 ft m parents v vs element out)
  then show ?case
    using js_value_array [of ft v vs] by (simp add: value_text_def element_text_def conj_ac)
next
  case (5 ft m v vs parents out)
  have "appends m out (True \<and> convertible v \<and> all_convertible (vs # parents)) ('','' @ element_text ft v @ rest_text ft (vs # parents))
      (and_then (append_string_piece m '','' out) (js_walk ft m (vs # parents) (Some v) True))"
    using 5 by (intro appends_then [OF appends_piece]) (simp add: value_text_def)
  then show ?case by (simp add: conj_ac)
next
  case (3 ft m out)
  then show ?case by (simp add: appends_none)
next
  case (4 ft m parents out)
  then show ?case by simp
qed (simp only: js_walk.simps, rule walk_leaf, assumption, assumption, simp, simp)+

section \<open>Properties\<close>

text \<open>C29: the walk with its explicit stack prints exactly the recursive projection of the original program, for arrays nested
  as deep as they are: the text is appended in full when it fits the limit and every object in it can be converted; otherwise
  the output is left as it was and the error is true.\<close>

theorem walk_is_projection:
  assumes "faithful_floats ft"
  shows "let text = js_string ft v; fits = length out + length text \<le> m; ok = (case v of None \<Rightarrow> True | Some x \<Rightarrow> convertible x) in
    if ok \<and> fits then append_js_string ft m v out = (Ok (), out @ text)
    else \<exists>e. append_js_string ft m v out = (Err e, out) \<and> (e = JS_ByteCapacity \<longrightarrow> \<not> fits) \<and> (e = ToPrimitive \<longrightarrow> \<not> ok)"
proof (cases "length out \<le> m")
  case True
  have "value_text ft v False = js_string ft v" by (simp add: value_text_def js_string_def split: option.split)
  with walk_appends(1) [OF assms True, of v "[]" False] True show ?thesis
    by (auto simp: append_js_string_def appends_def Let_def split: if_splits)
next
  case False
  then show ?thesis by (auto simp: append_js_string_def Let_def)
qed

theorem walk_is_projection_witness:
  "append_js_string exact_float 20 (Some (JArray [JString ''a'', JNull, JArray [JString ''x'', JNull]])) ''to: '' = (Ok (), ''to: a,,x,'') \<and>
   append_js_string exact_float 8 (Some (JArray [JString ''a'', JNull, JArray [JString ''x'', JNull]])) ''to: '' = (Err JS_ByteCapacity, ''to: '')"
proof -
  let ?v = "Some (JArray [JString ''a'', JNull, JArray [JString ''x'', JNull]])"
  have "js_string exact_float ?v = ''a,,x,''" by (simp add: js_string_def)
  with walk_is_projection [OF exact_float_faithful, where v = ?v and out = "''to: ''" and m = 20]
  have "append_js_string exact_float 20 ?v ''to: '' = (Ok (), ''to: a,,x,'')" by (simp add: Let_def)
  moreover from \<open>js_string exact_float ?v = ''a,,x,''\<close>
    walk_is_projection [OF exact_float_faithful, where v = ?v and out = "''to: ''" and m = 8]
  obtain e where "append_js_string exact_float 8 ?v ''to: '' = (Err e, ''to: '')" "e \<noteq> ToPrimitive" by (auto simp: Let_def)
  moreover from this have "e = JS_ByteCapacity" by (cases e) auto
  ultimately show ?thesis by simp
qed

end
