(* ===== verification/Generic_Result.thy ===== *)
theory Generic_Result
  imports Generic_Parse Js_Text Output_Events Session_Reply
begin

text \<open>
  What a changing call answers, \<open>failure\<close>, \<open>success\<close> and the refusals of \<open>Call\<close> in
  \<open>src/native/src/generic_requests.rs\<close>. Formatting an accepted request unwraps the arguments of the call: a panic is
  the value \<open>None\<close>. The check of a response against the catalog's output schema and the pretty printer of
  \<open>serde_json\<close> are arguments.
\<close>

section \<open>Refusals and failures\<close>

definition generic_error :: "string \<Rightarrow> json" where
  "generic_error message = text_result message True"

definition failure_prefix :: "GenericKind \<Rightarrow> string option" where
  "failure_prefix k = map_of [
      (ManualRecordToggle, ''Error toggling recording''), (NamedOutputToggle, ''Error toggling output''),
      (ManualRecordStart, ''Recording failed to start''), (StreamToggle, ''Error toggling stream''),
      (VirtualCamToggle, ''Error toggling virtual camera''), (ReplayBufferToggle, ''Error toggling replay buffer''),
      (StreamStart, ''Streaming failed to start''), (VirtualCamStart, ''Virtual camera failed to start''),
      (ReplayBufferStart, ''Replay buffer failed to start''), (InputPropertiesDialog, ''Error opening input properties dialog''),
      (InputFiltersDialog, ''Error opening input filters dialog''), (InputInteractDialog, ''Error opening input interact dialog''),
      (VideoMixProjector, ''Error opening video mix projector''), (SourceProjector, ''Error opening source projector''),
      (RecordChapter, ''Error creating record chapter''), (CreateSourceFilter, ''Error creating source filter''),
      (SourceFilterSettings, ''Error setting source filter settings''), (CreateInput, ''Error creating input''),
      (InputSettings, ''Error setting input settings''), (SceneItemTransform, ''Error setting scene item transform''),
      (CreateSceneItem, ''Error creating scene item''), (SceneItemEnabled, ''Error setting scene item visibility''),
      (CurrentSceneTransitionDuration, ''Error setting transition duration''), (InputMuteToggle, ''Error toggling input mute state''),
      (InputVolume, ''Error setting input volume''), (VideoSettings, ''Error setting video settings''),
      (ProfileParameter, ''Error setting profile parameter'')] k"

definition failure :: "Call \<Rightarrow> string \<Rightarrow> json" where
  "failure c message = (case failure_prefix (call_kind c) of
     Some pre \<Rightarrow> generic_error (pre @ '': '' @ message)
   | None \<Rightarrow> generic_error (call_title c @ '' failed: '' @ message))"

definition output_settings_ack :: "Call \<Rightarrow> bool" where
  "output_settings_ack c \<longleftrightarrow> call_kind c = ProfileParameter \<and>
     as_str (idx (call_arguments c) ''parameterCategory'') \<in> {Some ''Output'', Some ''SimpleOutput'', Some ''AdvOut''}"

definition toggle_kinds :: "GenericKind list" where
  "toggle_kinds = [ManualRecordToggle, NamedOutputToggle, StreamToggle, VirtualCamToggle, ReplayBufferToggle]"

text \<open>For calls that are not opaque.\<close>

definition cancelled_or_expired :: "Call \<Rightarrow> json" where
  "cancelled_or_expired c = (if call_kind c \<in> set toggle_kinds then failure c ''Operation cancelled or expired before dispatch''
     else generic_error (call_title c @ '' failed: Operation cancelled or expired before dispatch''))"

definition business_refusal :: "Call \<Rightarrow> json option" where
  "business_refusal c = (if call_kind c = InputVolume \<and> get (call_arguments c) ''inputVolumeMul'' = None \<and> get (call_arguments c) ''inputVolumeDb'' = None
     then Some (failure c ''Either inputVolumeMul or inputVolumeDb must be provided'') else None)"

definition unsupported :: "Call \<Rightarrow> json" where
  "unsupported c = (case business_refusal c of Some r \<Rightarrow> r
     | None \<Rightarrow> failure c (''OBS WebSocket does not advertise support for request '' @ [CHR 0x27] @ request_type (call_kind c) @ [CHR 0x27]))"

section \<open>Answers\<close>

fun js_truthy :: "float_text \<Rightarrow> json option \<Rightarrow> bool" where
  "js_truthy ft None = False"
| "js_truthy ft (Some JNull) = False"
| "js_truthy ft (Some (JBool b)) = b"
| "js_truthy ft (Some (JNumber n)) = (as_f64 ft n \<noteq> 0)"
| "js_truthy ft (Some (JString s)) = (s \<noteq> [])"
| "js_truthy ft (Some (JArray vs)) = True"
| "js_truthy ft (Some (JObject fs)) = True"

definition active_text :: "float_text \<Rightarrow> json \<Rightarrow> string" where
  "active_text ft reply = (if js_truthy ft (get reply ''outputActive'') then ''active'' else ''inactive'')"

definition toggle_prefix :: "GenericKind \<Rightarrow> string option" where
  "toggle_prefix k = map_of [(ManualRecordToggle, ''Recording toggled, now ''),
      (StreamToggle, ''Successfully toggled streaming state. Stream is now ''),
      (VirtualCamToggle, ''Virtual camera toggled, now ''), (ReplayBufferToggle, ''Replay buffer toggled, now '')] k"

text \<open>The unwrapped string and number arguments, and the two kinds of optional names.\<close>

definition arg_text :: "Call \<Rightarrow> string \<Rightarrow> string option" where
  "arg_text c k = as_str (idx (call_arguments c) k)"

definition arg_number :: "float_text \<Rightarrow> Call \<Rightarrow> string \<Rightarrow> string option" where
  "arg_number ft c k = (case idx (call_arguments c) k of JNumber n \<Rightarrow> Some (number_text ft (as_f64 ft n)) | _ \<Rightarrow> None)"

definition optional_text :: "Call \<Rightarrow> string \<Rightarrow> string" where
  "optional_text c k = (case Option.bind (get (call_arguments c) k) as_str of None \<Rightarrow> ''undefined'' | Some s \<Rightarrow> s)"

definition name_or_uuid :: "Call \<Rightarrow> string \<Rightarrow> string \<Rightarrow> string" where
  "name_or_uuid c name uuid = (case opt_or (opt_filter (\<lambda>s. s \<noteq> []) (Option.bind (get (call_arguments c) name) as_str))
       (Option.bind (get (call_arguments c) uuid) as_str) of None \<Rightarrow> ''undefined'' | Some s \<Rightarrow> s)"

definition say :: "string option list \<Rightarrow> string option" where
  "say parts = map_option concat (all_some parts)"

abbreviation tick :: "string option" where
  "tick \<equiv> Some [CHR 0x27]"

abbreviation flag_text :: "Call \<Rightarrow> string \<Rightarrow> string \<Rightarrow> string \<Rightarrow> string option" where
  "flag_text c k yes no \<equiv> Some (if idx (call_arguments c) k = JBool True then yes else no)"

definition success_message :: "float_text \<Rightarrow> Call \<Rightarrow> json \<Rightarrow> string option" where
  "success_message ft c reply = (let k = call_kind c; s = arg_text c; n = arg_number ft c in
     if k = StreamStop then say [Some ''Successfully stopped streaming'']
     else if k = VirtualCamStop then say [Some ''Virtual camera stopped'']
     else if k = ReplayBufferStop then say [Some ''Replay buffer stopped'']
     else if k = StudioModeEnabled then say [Some ''Studio Mode has been '', flag_text c ''studioModeEnabled'' ''enabled'' ''disabled'']
     else if k = InputPropertiesDialog then say [Some ''Properties dialog opened for input: '', Some (name_or_uuid c ''inputName'' ''inputUuid'')]
     else if k = InputFiltersDialog then say [Some ''Filters dialog opened for input: '', Some (name_or_uuid c ''inputName'' ''inputUuid'')]
     else if k = InputInteractDialog then say [Some ''Interact dialog opened for input: '', Some (name_or_uuid c ''inputName'' ''inputUuid'')]
     else if k = VideoMixProjector then say [Some ''Video mix projector opened for: '', s ''videoMixType'']
     else if k = SourceProjector then say [Some ''Source projector opened for: '', Some (name_or_uuid c ''sourceName'' ''sourceUuid'')]
     else if k = NamedOutputStart then say [Some ''Output '', tick, s ''outputName'', tick, Some '' started'']
     else if k = NamedOutputStop then say [Some ''Output '', tick, s ''outputName'', tick, Some '' stopped'']
     else if k \<in> {ManualRecordStart, ManualRecordToggle, NamedOutputToggle} then None
     else if k = RecordPause then say [Some ''Recording paused'']
     else if k = RecordResume then say [Some ''Recording resumed'']
     else if k = RecordPauseToggle then say [Some ''Recording pause toggled'']
     else if k = RecordFileSplit then say [Some ''Recording file split'']
     else if k = RecordChapter then say [Some (case opt_filter (\<lambda>x. x \<noteq> []) (Option.bind (get (call_arguments c) ''chapterName'') as_str) of
         None \<Rightarrow> ''Record chapter created'' | Some x \<Rightarrow> ''Record chapter '' @ [CHR 0x22] @ x @ [CHR 0x22] @ '' created'')]
     else if k = BroadcastCustomEvent then say [Some ''Custom event broadcast successfully'']
     else if k = CurrentSceneTransitionSettings then say [Some ''Successfully updated current transition settings'']
     else if k = CreateSourceFilter then say [Some ''Successfully created filter '', tick, s ''filterName'', tick, Some '' of kind '', tick,
       s ''filterKind'', tick, Some '' on source '', tick, s ''sourceName'', tick]
     else if k = SourceFilterSettings then say [Some ''Successfully updated settings for filter '', tick, s ''filterName'', tick,
       Some '' on source '', tick, s ''sourceName'', tick]
     else if k = SaveSourceScreenshot then say [Some ''Successfully saved screenshot to: '', s ''imageFilePath'']
     else if k = PersistentData then say [Some ''Successfully set value for slot '', tick, s ''slotName'', tick, Some '' in realm '', tick, s ''realm'', tick]
     else if k = CurrentSceneCollection then say [Some ''Successfully switched to scene collection: '', s ''sceneCollectionName'']
     else if k = CreateSceneCollection then say [Some ''Successfully created and switched to scene collection: '', s ''sceneCollectionName'']
     else if k = CurrentProfile then say [Some ''Successfully switched to profile: '', s ''profileName'']
     else if k = CreateProfile then say [Some ''Successfully created and switched to profile: '', s ''profileName'']
     else if k = RemoveProfile then say [Some ''Successfully removed profile: '', s ''profileName'']
     else if k = StreamServiceSettings then say [Some ''Successfully updated stream service settings to type: '', s ''streamServiceType'']
     else if k = RecordDirectory then say [Some ''Successfully set record directory to: '', s ''recordDirectory'']
     else if k = OutputSettings then say [Some ''Settings updated for output '', tick, s ''outputName'', tick]
     else if k = VideoSettings then say [Some ''Successfully updated video settings'']
     else if k = ProfileParameter then say [Some ''Successfully set parameter '', tick, s ''parameterName'', tick, Some '' in category '', tick,
       s ''parameterCategory'', tick, Some (if output_settings_ack c
         then ''. Warning: OBS applies output settings only when it rebuilds its outputs; restart OBS before starting an output'' else [])]
     else if k = MediaInputCursor then say [Some ''Successfully set media cursor position to '', n ''mediaCursor'', Some ''ms for input: '', s ''inputName'']
     else if k = MediaInputCursorOffset then say [Some ''Successfully offset media cursor position by '', n ''mediaCursorOffset'', Some ''ms for input: '', s ''inputName'']
     else if k = MediaInputAction then say [Some ''Successfully triggered media action '', tick, s ''mediaAction'', tick, Some '' for input: '', s ''inputName'']
     else if k = InputMuteToggle then say [Some ''Successfully toggled mute state for input '', tick, s ''inputName'', tick, Some '', now '',
       Some (if js_truthy ft (get reply ''inputMuted'') then ''muted'' else ''unmuted'')]
     else if k = InputVolume then say [Some ''Successfully set volume for input: '', s ''inputName'']
     else if k = StreamCaption then say [Some ''Successfully sent stream caption'']
     else if k = SaveReplayBuffer then say [Some ''Replay buffer save requested; file completion has not been observed'']
     else if k = InputMute then say [Some ''Successfully '', flag_text c ''inputMuted'' ''muted'' ''unmuted'', Some '' input: '', s ''inputName'']
     else if k = InputAudioBalance then say [Some ''Successfully set audio balance to '', n ''inputAudioBalance'', Some '' for input: '', s ''inputName'']
     else if k = InputAudioSyncOffset then say [Some ''Successfully set audio sync offset to '', n ''inputAudioSyncOffset'', Some ''ms for input: '', s ''inputName'']
     else if k = InputAudioMonitorType then say [Some ''Successfully set audio monitor type to '', s ''monitorType'', Some '' for input: '', s ''inputName'']
     else if k = SourceFilterEnabled then say [Some ''Successfully '', flag_text c ''filterEnabled'' ''enabled'' ''disabled'', Some '' filter '', tick,
       s ''filterName'', tick, Some '' on source '', tick, s ''sourceName'', tick]
     else if k = CreateScene then say [Some ''Successfully created scene: '', s ''sceneName'']
     else if k = RemoveScene then say [Some ''Successfully removed scene: '', s ''sceneName'']
     else if k = RemoveSceneItem then say [Some ''Successfully removed item with ID '', n ''sceneItemId'', Some '' from '', Some (optional_text c ''sceneName'')]
     else if k = RemoveSourceFilter then say [Some ''Successfully removed filter '', tick, s ''filterName'', tick, Some '' from source '', tick, s ''sourceName'', tick]
     else if k = SourceFilterName then say [Some ''Successfully renamed filter '', tick, s ''filterName'', tick, Some '' to '', tick, s ''newFilterName'', tick,
       Some '' on source '', tick, s ''sourceName'', tick]
     else if k = SourceFilterIndex then say [Some ''Successfully set filter '', tick, s ''filterName'', tick, Some '' to index '', n ''filterIndex'',
       Some '' on source '', tick, s ''sourceName'', tick]
     else if k = RemoveInput then say [Some ''Successfully removed input: '', s ''inputName'']
     else if k = InputName then say [Some ''Successfully renamed input '', tick, s ''inputName'', tick, Some '' to '', tick, s ''newInputName'', tick]
     else if k = CurrentProgramScene then say [Some ''Successfully switched to scene: '', s ''sceneName'']
     else if k = CurrentPreviewScene then say [Some ''Successfully set preview scene to: '', s ''sceneName'']
     else if k = TriggerStudioModeTransition then say [Some ''Successfully triggered studio mode transition'']
     else if k = CurrentSceneTransition then say [Some ''Successfully set current transition to: '', s ''transitionName'']
     else if k = SceneItemEnabled then say [Some ''Successfully '', flag_text c ''enabled'' ''showed'' ''hid'', Some '' item with ID '', n ''sceneItemId'',
       Some '' in '', Some (optional_text c ''sceneName'')]
     else if k = CurrentSceneTransitionDuration then say [Some ''Successfully set transition duration to: '', n ''duration'', Some ''ms'']
     else say [Some (call_title c @ '' completed successfully'')])"

datatype ProjectionUnavailable = UnknownTool | SchemaMismatch | UnsupportedSchema | InputLimit | OutputLimit | NoIssues

definition message_result :: "string \<Rightarrow> json" where
  "message_result m = mk_object [(''content'', JArray [mk_object [(''type'', JString ''text''), (''text'', JString m)]]),
     (''structuredContent'', mk_object [(''message'', JString m)])]"

text \<open>\<open>js_string\<close> of this module: the walk without a limit; here without the bytes of the address space.\<close>

definition js_text :: "float_text \<Rightarrow> json option \<Rightarrow> string option" where
  "js_text ft v = (case append_js_string ft (2 ^ 64 - 1) v [] of (Ok _, out) \<Rightarrow> Some out | (Err _, out) \<Rightarrow> None)"

definition duplicate_result :: "(string \<Rightarrow> json \<Rightarrow> (ProjectionUnavailable, json) result) \<Rightarrow> (json \<Rightarrow> string) \<Rightarrow> Call \<Rightarrow> json \<Rightarrow> json" where
  "duplicate_result output_error pretty c reply = (let r = (if as_object reply = None then JObject [] else reply) in
     case output_error (call_name c) r of
       Ok e \<Rightarrow> e
     | Err why \<Rightarrow> if why = NoIssues then set_key ''structuredContent'' r (text_result (pretty r) False)
         else generic_error ''Native output validation projection unavailable; request acceptance is retained without an observed postcondition'')"

definition success :: "float_text \<Rightarrow> (string \<Rightarrow> json \<Rightarrow> (ProjectionUnavailable, json) result) \<Rightarrow> (json \<Rightarrow> string) \<Rightarrow> Call \<Rightarrow> json \<Rightarrow> json option" where
  "success ft output_error pretty c reply =
     (if call_kind c = NamedOutputToggle
      then map_option (\<lambda>t. text_result t False)
        (say [Some ''Output '', tick, arg_text c ''outputName'', tick, Some '' toggled, now '', Some (active_text ft reply)])
      else (case toggle_prefix (call_kind c) of
        Some pre \<Rightarrow> Some (text_result (pre @ active_text ft reply) False)
      | None \<Rightarrow>
          if call_kind c = DuplicateSceneItem then Some (duplicate_result output_error pretty c reply)
          else if call_kind c = CreateSceneItem
          then (case js_text ft (Option.bind (as_object reply) (\<lambda>fs. map_of fs ''sceneItemId'')) of
              None \<Rightarrow> Some (failure c ''Cannot convert object to primitive value'')
            | Some i \<Rightarrow> Some (message_result (''Successfully added '' @ optional_text c ''sourceName'' @ '' to '' @ optional_text c ''sceneName'' @ '' with ID: '' @ i)))
          else map_option message_result (success_message ft c reply)))"

section \<open>Kinds\<close>

definition confirmed_output_kind :: "Call \<Rightarrow> OutputKind option" where
  "confirmed_output_kind c = map_of [(ManualRecordStart, Out_Record), (StreamStart, Out_Stream), (VirtualCamStart, Out_VirtualCam),
     (ReplayBufferStart, Out_ReplayBuffer)] (call_kind c)"

definition call_safety_stop :: "Call \<Rightarrow> SafetyStopRequest option" where
  "call_safety_stop c = map_of [(StreamStop, Stream), (VirtualCamStop, VirtualCam), (ReplayBufferStop, ReplayBuffer)] (call_kind c)"

text \<open>Limits in seconds; \<open>batch\<close> is the budget of a batch.\<close>

definition operation_limit :: "nat option \<Rightarrow> Call \<Rightarrow> nat" where
  "operation_limit batch c = (if call_kind c = OpaqueBatch then (case batch of None \<Rightarrow> 10 | Some n \<Rightarrow> n)
     else if call_kind c = StreamStart then 30
     else if call_kind c \<in> {ManualRecordStart, VirtualCamStart, ReplayBufferStart} then 25
     else 10)"

definition execution_budget :: "nat option \<Rightarrow> nat \<Rightarrow> Call \<Rightarrow> nat" where
  "execution_budget batch configured c = (if call_kind c = OpaqueBatch then operation_limit batch c else min configured (operation_limit batch c))"

section \<open>No answer panics\<close>

lemma say_defined [simp]: "(\<exists>t. say parts = Some t) \<longleftrightarrow> list_all (\<lambda>p. p \<noteq> None) parts"
proof -
  have "(\<exists>ys. all_some parts = Some ys) \<longleftrightarrow> list_all (\<lambda>p. p \<noteq> None) parts"
    by (induction parts) (auto simp: bind_eq_Some_conv)
  then show ?thesis by (simp add: say_def)
qed

lemma needed_values:
  "kept_value (Need k text_value) source = Some v \<longleftrightarrow> (\<exists>s. get source k = Some (JString s) \<and> v = Some (JString s))"
  "kept_value (Need k (text_where ok)) source = Some v \<longleftrightarrow> (\<exists>s. get source k = Some (JString s) \<and> ok s \<and> v = Some (JString s))"
  "kept_value (Need k (number_where ft okn)) source = Some v \<longleftrightarrow> (\<exists>n. get source k = Some (JNumber n) \<and> okn (as_f64 ft n) \<and> v = Some (JNumber n))"
proof -
  have str: "as_str x = Some s \<longleftrightarrow> x = JString s" for x s by (cases x) auto
  show "kept_value (Need k text_value) source = Some v \<longleftrightarrow> (\<exists>s. get source k = Some (JString s) \<and> v = Some (JString s))"
    by (auto simp: text_value_def str split: option.splits)
  show "kept_value (Need k (text_where ok)) source = Some v \<longleftrightarrow> (\<exists>s. get source k = Some (JString s) \<and> ok s \<and> v = Some (JString s))"
    by (auto simp: text_where_def str bind_eq_Some_conv split: option.splits if_splits)
  show "kept_value (Need k (number_where ft okn)) source = Some v \<longleftrightarrow> (\<exists>n. get source k = Some (JNumber n) \<and> okn (as_f64 ft n) \<and> v = Some (JNumber n))"
    by (auto simp: number_where_def split: option.splits json.splits if_splits)
qed

lemma arg_text_read [simp]: "arg_text (plain_call k name title (visit_json ft (JObject d))) x = Option.bind (map_of d x) as_str"
  by (auto simp: arg_text_def idx_def map_of_visit split: option.split)

lemma arg_number_read [simp]:
  "(\<exists>t. arg_number ft (plain_call k name title (visit_json ft (JObject d))) x = Some t) \<longleftrightarrow> (\<exists>n. map_of d x = Some (JNumber n))"
  by (auto simp: arg_number_def idx_def map_of_visit split: option.split json.split) (metis visit_json.simps json.exhaust json.distinct)+

definition formats :: "float_text \<Rightarrow> Call \<Rightarrow> bool" where
  "formats ft c \<longleftrightarrow> (\<forall>reply. success_message ft c reply \<noteq> None)"

lemma read_fields:
  assumes "stable_steps ft ss" and "read_object ss args = Some a"
  obtains d where "a = JObject d" and "\<forall>s \<in> set ss. kept_value s args = Some (map_of d (step_key s))"
proof -
  from assms(2) obtain d where "read_steps ss args [] = Some d" "a = JObject d"
    by (auto simp: read_object_def split: if_splits)
  with that assms(1) read_steps_fields [of ss args "[]" d] show thesis by (auto simp: stable_steps_def)
qed

lemmas format_simps = formats_def success_message_def needed_values Let_def

text \<open>The fields each family has read are those its answer prints.\<close>

lemma ui_formats:
  "ui_steps ft k = Some ss \<Longrightarrow> \<forall>s \<in> set ss. kept_value s args = Some (map_of d (step_key s)) \<Longrightarrow>
     formats ft (plain_call k name title (visit_json ft (JObject d)))"
  by (cases k; hypsubst; clarsimp simp: ui_steps_def ui_strings_def format_simps simp del: kept_value.simps visit_json.simps)

lemma opaque_formats:
  "opaque_steps ft k = Some ss \<Longrightarrow> \<forall>s \<in> set ss. kept_value s args = Some (map_of d (step_key s)) \<Longrightarrow>
     formats ft (plain_call k name title (visit_json ft (JObject d)))"
  by (cases k; hypsubst; clarsimp simp: opaque_steps_def opaque_fields_def opaque_record_def texts_def format_simps simp del: kept_value.simps visit_json.simps)

lemma configuration_formats:
  "configuration_steps ft k = Some ss \<Longrightarrow> \<forall>s \<in> set ss. kept_value s args = Some (map_of d (step_key s)) \<Longrightarrow>
     formats ft (plain_call k name title (visit_json ft (JObject d)))"
  by (cases k; hypsubst; clarsimp simp: configuration_steps_def configuration_strings_def video_keys_def format_simps simp del: kept_value.simps visit_json.simps)

lemma literal_formats:
  "literal_steps ft k = Some ss \<Longrightarrow> \<forall>s \<in> set ss. kept_value s args = Some (map_of d (step_key s)) \<Longrightarrow>
     formats ft (plain_call k name title (visit_json ft (JObject d)))"
  by (cases k; hypsubst; clarsimp simp: literal_steps_def literal_strings_def literal_values_def texts_def format_simps simp del: kept_value.simps visit_json.simps)

lemma extra_formats:
  "extra_steps ft k = Some ss \<Longrightarrow> \<forall>s \<in> set ss. kept_value s args = Some (map_of d (step_key s)) \<Longrightarrow>
     formats ft (plain_call k name title (visit_json ft (JObject d)))"
  by (cases k; hypsubst; clarsimp simp: extra_steps_def extra_fields_def extra_texts_def extra_values_def texts_def format_simps simp del: kept_value.simps visit_json.simps)

lemma read_call_formats:
  assumes "read_call ft quote steps k name title args = Some c" and "\<And>ss. steps = Some ss \<Longrightarrow> stable_steps ft ss"
    and "\<And>ss d. steps = Some ss \<Longrightarrow> \<forall>s \<in> set ss. kept_value s args = Some (map_of d (step_key s)) \<Longrightarrow>
      formats ft (plain_call k name title (visit_json ft (JObject d)))"
  shows "formats ft c"
proof -
  from assms(1) obtain ss a where a: "steps = Some ss" "read_object ss args = Some a" "c = plain_call k name title (visit_json ft a)"
    by (auto simp: read_call_Some)
  obtain d where "a = JObject d" "\<forall>s \<in> set ss. kept_value s args = Some (map_of d (step_key s))"
    using read_fields [OF assms(2) [OF a(1)] a(2)] .
  with assms(3) [OF a(1)] a(3) show ?thesis by simp
qed

lemma bare_formats: "k \<in> set bare_kinds \<Longrightarrow> formats ft (plain_call k name title a)"
  by (cases k; hypsubst; clarsimp simp: bare_kinds_def format_simps)

lemma extra_call_formats:
  assumes "faithful_floats ft" and "parse_extra ft quote k name title args = Some c"
  shows "formats ft c"
proof (cases "k \<in> set bare_kinds")
  case True
  with assms(2) have "c = plain_call k name title (JObject [])" by (auto simp: parse_extra_def split: if_splits)
  with True bare_formats show ?thesis by simp
next
  case False
  with assms(2) have "read_call ft quote (extra_steps ft k) k name title args = Some c"
    by (auto simp: parse_extra_def split: if_splits)
  from read_call_formats [OF this stable_extra [OF assms(1)] extra_formats] show ?thesis .
qed

lemma late_formats:
  assumes "faithful_floats ft" and "\<not> early_name name" and "parse_call ft quote name args = Some c"
  shows "formats ft c"
  using assms(2,3)
proof (cases rule: late_cases)
  case (ui k title)
  show ?thesis by (rule read_call_formats [OF ui(1) stable_ui [OF assms(1)] ui_formats])
next
  case (opaque k title)
  show ?thesis by (rule read_call_formats [OF opaque(1) stable_opaque [OF assms(1)] opaque_formats])
next
  case (configuration k title)
  show ?thesis by (rule read_call_formats [OF configuration(1) stable_configuration [OF assms(1)] configuration_formats])
next
  case (extra k title)
  show ?thesis by (rule extra_call_formats [OF assms(1) extra(1)])
next
  case (literal k title)
  show ?thesis by (rule read_call_formats [OF literal(1) stable_literal [OF assms(1)] literal_formats])
qed

text \<open>Manual commands carry their name; opaque commands and those with a follow-up print only their title.\<close>

lemma title_formats: "is_opaque_kind (call_kind c) \<or> call_kind c \<in> {SceneItemTransform, CreateInput, InputSettings} \<Longrightarrow> formats ft c"
  by (cases c; rename_tac k n t a f; case_tac k; hypsubst; clarsimp simp: is_opaque_kind_def format_simps)

lemma manual_answers:
  assumes "parse_command name args = Some cmd"
    and "c = plain_call (command_kind cmd) (command_name cmd) (command_title cmd) (command_arguments cmd)" and "confirmed_output_kind c = None"
  shows "success ft output_error pretty c reply \<noteq> None"
  using assms
  by (cases cmd) (auto simp: success_def success_message_def confirmed_output_kind_def toggle_prefix_def arg_text_def idx_def mk_object_def mk_fields_def
      Let_def simp flip: not_None_eq)

lemma formats_answers: "formats ft c \<Longrightarrow> call_kind c \<noteq> NamedOutputToggle \<Longrightarrow> success ft output_error pretty c reply \<noteq> None"
  by (auto simp: success_def formats_def split: option.splits)

lemma formats_kind: "formats ft c \<Longrightarrow> call_kind c \<noteq> NamedOutputToggle"
  by (rule notI) (simp add: format_simps)

text \<open>The answer to an accepted request never panics. Whatever arguments a tool was called with and whatever OBS responded,
  every call that reaches the formatting of its answer has one: each argument the text unwraps was read and checked when the call
  was parsed.\<close>

lemma answer_never_panics:
  assumes "faithful_floats ft" and "parse_call ft quote name args = Some c" and "confirmed_output_kind c = None"
  shows "\<exists>result. success ft output_error pretty c reply = Some result"
proof -
  have "success ft output_error pretty c reply \<noteq> None"
  proof (cases "early_name name")
    case False
    from late_formats [OF assms(1) False assms(2)] formats_answers formats_kind show ?thesis by blast
  next
    case True
    from assms(2) True show ?thesis
    proof (cases rule: early_cases)
      case (manual cmd)
      from manual_answers [OF manual(2,3) assms(3)] show ?thesis .
    next
      case (opaque k n title a)
      then have "is_opaque_kind (call_kind c)"
        by (auto simp: source_numbers_Some parse_opaque_command_def opaque_command_def is_opaque_kind_def bind_eq_Some_conv split: if_splits)
      with title_formats formats_answers formats_kind show ?thesis by blast
    next
      case (transform a)
      then have "formats ft c" by (intro title_formats) simp
      with formats_answers formats_kind show ?thesis by blast
    next
      case (input k a shot)
      then have "formats ft c" by (intro title_formats) (cases k, simp_all)
      with formats_answers formats_kind show ?thesis by blast
    qed
  qed
  then show ?thesis by blast
qed

end
