(* ===== verification/Generic_Workflow.thy ===== *)
theory Generic_Workflow
  imports Generic_Result Custody
begin

text \<open>
  The execution of a changing call, \<open>execute_with_dispatch_hook\<close> of \<open>src/native/src/generic_requests.rs\<close>, for calls that
  are not opaque: custody of other receipts, policy, services and deadline are checked, the receipt is prepared and moved
  to its dispatching phase, the guard asks everything again at the moment of sending, and the response settles the
  receipt before it is answered. The three parts are separated by the session: \<open>generic_begin\<close> ends with the request in
  its queue, \<open>generic_guard\<close> runs at the socket, \<open>generic_finish\<close> has its reply. What the read-back of a follow-up answers is an
  argument.
\<close>

section \<open>Services and state\<close>

text \<open>The client's flag of pending output settings, and of the read-back whether the screenshot policy is bound.\<close>

record GenericServices =
  pending_output_settings :: "bool option"
  readback_input_limit :: "bool option"

record generic_pending =
  gp_call :: Call
  gp_receipt :: GenericRecord
  gp_safety :: "SafetyStopRequest option"
  gp_refusal :: "Disposition option"

definition generic_policy :: "float_text \<Rightarrow> Call \<Rightarrow> string \<Rightarrow> u64 \<Rightarrow> ControlDomain \<Rightarrow> Disposition \<times> ControlDomain" where
  "generic_policy ft c who now ctl = evaluate ft \<lparr>tool_name = call_name c, arguments = call_arguments c, read_only_hint = False, caller = who,
     confirmation = \<lparr>enabled = False, can_elicit = False, input_responses = None\<rparr>\<rparr> now ctl"

section \<open>Beginning\<close>

primrec fence_safety :: "'b operation_store \<Rightarrow> (StoreError, SafetyStopRequest option) result" where
  "fence_safety (Direct b) = Ok None"
| "fence_safety (Scoped br n) = safety_stop_kind n br"

primrec start_admission :: "'b text_codec \<Rightarrow> 'b ios \<Rightarrow> bool \<Rightarrow> 'b operation_store \<Rightarrow> (StoreError, admission) result \<times> 'b operation_store" where
  "start_admission tx ios safety (Direct b) = (view_admission tx (ios 0) b, Direct b)"
| "start_admission tx ios safety (Scoped br n) =
     (if safety then scoped n (fence_admission tx ios n br) else (view_admission tx (ios 0) (store br), Scoped br n))"

text \<open>What a beginning meets: whether its deadline can be formed, the clock, the lock of the policy, the views and writes of
  the store, and whether the deadline or a cancellation has come in between.\<close>

record 'b generic_io =
  ge_deadline_ok :: bool
  ge_admission_views :: "'b ios"
  ge_lock_ok :: bool
  ge_ms :: u64
  ge_late :: bool
  ge_prepare_utc :: string
  ge_prepare_views :: "'b ios"
  ge_prepare_write :: "'b persist_io"
  ge_intent_utc :: string
  ge_intent_views :: "'b ios"
  ge_intent_write :: "'b persist_io"
  ge_no_time :: bool
  ge_drop_utc :: string
  ge_drop_views :: "'b ios"
  ge_drop_write :: "'b persist_io"

definition unpersisted :: json where
  "unpersisted = generic_error ''Operation receipt could not be persisted or inspected; inspect obs-observe before any further production change''"

definition blocked_by_custody :: json where
  "blocked_by_custody = generic_error ''Unresolved receipt custody prevents dispatch''"

text \<open>The checks of the call itself, in order, with the services it needs.\<close>

definition service_refusal :: "GenericServices \<Rightarrow> Call \<Rightarrow> json option" where
  "service_refusal sv c =
     (if confirmed_output_kind c \<noteq> None
      then Some (failure c ''Native output confirmation services are unavailable; no OBS request was dispatched'')
      else (case business_refusal c of Some r \<Rightarrow> Some r
        | None \<Rightarrow>
            if output_settings_ack c \<and> pending_output_settings sv = None
            then Some (generic_error ''Native output-settings state is unavailable; no OBS request was dispatched'')
            else if (\<exists>k shot. call_follow_up c = Some (FU_Input k shot)) \<and> readback_input_limit sv \<noteq> Some True
            then Some (generic_error ''Native input readback services are unavailable; no OBS request was dispatched'')
            else if call_follow_up c = Some FU_Transform \<and> readback_input_limit sv = None
            then Some (generic_error ''Native transform readback services are unavailable; no OBS request was dispatched'')
            else None))"

definition generic_intent :: "'b text_codec \<Rightarrow> 'b generic_io \<Rightarrow> Call \<Rightarrow> SafetyStopRequest option \<Rightarrow> u64 \<Rightarrow> string \<Rightarrow> 'b operation_store \<Rightarrow>
    (json, generic_pending) result \<times> 'b operation_store" where
  "generic_intent tx io c safety gen oid st =
     (case os_prepare_generic tx (ge_prepare_views io) (ge_prepare_write io) oid (call_kind c) gen (ge_prepare_utc io) st of
        (Err e, st1) \<Rightarrow> (Err unpersisted, st1)
      | (Ok prepared, st1) \<Rightarrow>
          (case os_update_generic tx (ge_intent_views io) (ge_intent_write io) prepared G_Dispatching (ge_intent_utc io) st1 of
             (Err e, st2) \<Rightarrow> (Err unpersisted, st2)
           | (Ok receipt, st2) \<Rightarrow>
               if ge_no_time io
               then (Err (generic_error ''Operation deadline expired before dispatch''),
                 snd (os_update_generic tx (ge_drop_views io) (ge_drop_write io) receipt G_NotDispatched (ge_drop_utc io) st2))
               else (Ok \<lparr>gp_call = c, gp_receipt = receipt, gp_safety = safety, gp_refusal = None\<rparr>, st2)))"

definition generic_begin :: "'b text_codec \<Rightarrow> float_text \<Rightarrow> 'b generic_io \<Rightarrow> GenericServices \<Rightarrow> Call \<Rightarrow> string \<Rightarrow> u64 \<Rightarrow> string \<Rightarrow>
    'b operation_store \<Rightarrow> ControlDomain \<Rightarrow> (json, generic_pending) result \<times> 'b operation_store \<times> ControlDomain" where
  "generic_begin tx ft io sv c who gen oid st ctl =
     (if \<not> ge_deadline_ok io then (Err (generic_error ''Invalid operation deadline''), st, ctl)
      else (case fence_safety st of
        Err e \<Rightarrow> (Err blocked_by_custody, st, ctl)
      | Ok safety \<Rightarrow>
          if safety \<noteq> None \<and> safety \<noteq> call_safety_stop c
          then (Err (generic_error ''Safety Stop receipt binding is unavailable''), st, ctl)
          else (case start_admission tx (ge_admission_views io) (safety \<noteq> None) st of (adm, st1) \<Rightarrow>
            if (case adm of Err e \<Rightarrow> True | Ok a \<Rightarrow> blocking a) then (Err blocked_by_custody, st1, ctl)
            else if \<not> ge_lock_ok io then (Err (generic_error ''Control policy is unavailable''), st1, ctl)
            else (case generic_policy ft c who (ge_ms io) ctl of (d, ctl1) \<Rightarrow>
              if d \<noteq> Allow
              then (Err (case disposition_result d of None \<Rightarrow> generic_error ''Control policy refused dispatch'' | Some r \<Rightarrow> r), st1, ctl1)
              else (case service_refusal sv c of Some r \<Rightarrow> (Err r, st1, ctl1)
                | None \<Rightarrow>
                    if ge_late io then (Err (cancelled_or_expired c), st1, ctl1)
                    else (case generic_intent tx io c safety gen oid st1 of (out, st2) \<Rightarrow> (out, st2, ctl1)))))))"

section \<open>The guard\<close>

record 'b generic_guard_io =
  gg_lock_ok :: bool
  gg_ms :: u64
  gg_refusal_lock_ok :: bool
  gg_late :: bool
  gg_views :: "'b ios"
  gg_observation :: "(string, unit) result option"

primrec generic_permitted :: "'b text_codec \<Rightarrow> 'b ios \<Rightarrow> string \<Rightarrow> 'b operation_store \<Rightarrow> bool \<times> 'b operation_store" where
  "generic_permitted tx ios own (Direct b) =
     (is_dispatching tx (ios 0) b own = Ok True \<and>
      (case admission_except tx (ios 1) b (Some own) of Err e \<Rightarrow> False | Ok a \<Rightarrow> \<not> blocking a), Direct b)"
| "generic_permitted tx ios own (Scoped br n) = (let out = permits tx ios n own br in (fst out = Ok True, Scoped (snd out) n))"

definition generic_guard :: "'b text_codec \<Rightarrow> float_text \<Rightarrow> 'b generic_guard_io \<Rightarrow> string \<Rightarrow> generic_pending \<Rightarrow> 'b operation_store \<Rightarrow>
    ControlDomain \<Rightarrow> (string, unit) result \<times> generic_pending \<times> 'b operation_store \<times> ControlDomain" where
  "generic_guard tx ft io who p st ctl =
     (if \<not> gg_lock_ok io then (Err ''Control policy unavailable'', p, st, ctl)
      else (case generic_policy ft (gp_call p) who (gg_ms io) ctl of (d, ctl1) \<Rightarrow>
        if d \<noteq> Allow
        then (Err ''Control policy changed before dispatch'', if gg_refusal_lock_ok io then p\<lparr>gp_refusal := Some d\<rparr> else p, st, ctl1)
        else if gg_late io then (Err ''Operation cancelled or expired before dispatch'', p, st, ctl1)
        else (case generic_permitted tx (gg_views io) (operation_id (gp_receipt p)) st of (ok, st1) \<Rightarrow>
          if \<not> ok then (Err ''Unresolved receipt custody prevents dispatch'', p, st1, ctl1)
          else (case gg_observation io of None \<Rightarrow> (Ok (), p, st1, ctl1) | Some seen \<Rightarrow> (seen, p, st1, ctl1)))))"

section \<open>Finishing\<close>

definition response_phase :: "(RequestError, json) result \<Rightarrow> GenericPhase" where
  "response_phase reply = (case reply of
     Ok v \<Rightarrow> G_Accepted
   | Err (BeforeDispatch why) \<Rightarrow> G_NotDispatched
   | Err e \<Rightarrow> if rejection_code e \<noteq> None then G_Rejected else G_Unknown)"

text \<open>\<open>authorized_disconnect_message\<close> of the session, with the reason the peer gave.\<close>

definition authorized_disconnect_message :: "string option \<Rightarrow> RequestError \<Rightarrow> string option" where
  "authorized_disconnect_message why_closed e = (if e \<noteq> Req_Unknown Disconnected then None
     else Some (''WebSocket connection why_closed: '' @ (case opt_filter (\<lambda>r. r \<noteq> []) why_closed of None \<Rightarrow> ''No reason provided'' | Some r \<Rightarrow> r)))"

definition before_dispatch_text :: "BeforeDispatch \<Rightarrow> string" where
  "before_dispatch_text why = (case why of
     GuardRefused text \<Rightarrow> text
   | Capacity \<Rightarrow> ''OBS request was not sent: request capacity or encoded-byte policy unavailable''
   | ByteCapacity \<Rightarrow> ''OBS request was not sent: request capacity or encoded-byte policy unavailable''
   | InvalidRequest \<Rightarrow> ''OBS request was not sent: native request or encoding policy refused it''
   | Deadline \<Rightarrow> ''OBS request was not sent: original operation deadline expired''
   | BD_Cancelled \<Rightarrow> ''OBS request was not sent: cancelled before dispatch''
   | StaleConnection \<Rightarrow> ''OBS request was not sent: connection identity changed''
   | Closed _ \<Rightarrow> ''OBS request was not sent: admitted connection is unavailable''
   | BD_IdentityExhausted \<Rightarrow> ''OBS request was not sent: request identity exhausted'')"

definition error_message :: "nat \<Rightarrow> string option \<Rightarrow> Call \<Rightarrow> RequestError \<Rightarrow> string" where
  "error_message timeout_ms why_closed c e =
     (case opt_or (obs_failure_message e (request_type (call_kind c))) (authorized_disconnect_message why_closed e) of
        Some m \<Rightarrow> m
      | None \<Rightarrow> (case e of
          Req_Unknown DeadlineAfterDispatch \<Rightarrow> ''Request '' @ request_type (call_kind c) @ '' timed out after '' @ dec timeout_ms @ ''ms''
        | BeforeDispatch why \<Rightarrow> before_dispatch_text why
        | _ \<Rightarrow> ''OBS request outcome is uncertain; inspect obs-observe before another change''))"

text \<open>An accepted request is answered by its follow-up, if it has one and the services are there, or formatted.\<close>

definition accepted_answer :: "float_text \<Rightarrow> (string \<Rightarrow> json \<Rightarrow> (ProjectionUnavailable, json) result) \<Rightarrow> (json \<Rightarrow> string) \<Rightarrow> (FollowUp \<Rightarrow> json) \<Rightarrow>
    GenericServices \<Rightarrow> Call \<Rightarrow> json \<Rightarrow> json option" where
  "accepted_answer ft output_error pretty read_back sv c v = (case call_follow_up c of
     Some (FU_Input k shot) \<Rightarrow> if readback_input_limit sv = Some True then Some (read_back (FU_Input k shot)) else None
   | Some FU_Transform \<Rightarrow> if readback_input_limit sv = None then None else Some (read_back FU_Transform)
   | None \<Rightarrow> success ft output_error pretty c v)"

definition uncertain_receipt :: json where
  "uncertain_receipt = generic_error ''Operation receipt outcome is uncertain; inspect obs-observe before any further production change''"

record generic_finish_io =
  gf_timeout_ms :: nat
  gf_closed :: "string option"
  gf_utc :: string
  gf_refusal_lock_ok :: bool

definition generic_finish :: "'b text_codec \<Rightarrow> float_text \<Rightarrow> (string \<Rightarrow> json \<Rightarrow> (ProjectionUnavailable, json) result) \<Rightarrow> (json \<Rightarrow> string) \<Rightarrow>
    (FollowUp \<Rightarrow> json) \<Rightarrow> 'b ios \<Rightarrow> 'b persist_io \<Rightarrow> generic_finish_io \<Rightarrow> (RequestError, json) result \<Rightarrow> generic_pending \<Rightarrow> GenericServices \<Rightarrow>
    'b operation_store \<Rightarrow> json option \<times> GenericServices \<times> 'b operation_store" where
  "generic_finish tx ft output_error pretty read_back ios pio io reply p sv st =
     (let c = gp_call p;
          sv1 = (if is_ok reply \<and> output_settings_ack c then sv\<lparr>pending_output_settings := map_option (\<lambda>_. True) (pending_output_settings sv)\<rparr> else sv)
      in case os_update_generic tx ios pio (gp_receipt p) (response_phase reply) (gf_utc io) st of
           (Err e, st1) \<Rightarrow> (Some uncertain_receipt, sv1, st1)
         | (Ok r, st1) \<Rightarrow>
             ((case reply of
                 Ok v \<Rightarrow> accepted_answer ft output_error pretty read_back sv1 c v
               | Err e \<Rightarrow> (case Option.bind (if gf_refusal_lock_ok io then gp_refusal p else None) disposition_result of
                   Some result \<Rightarrow> Some result
                 | None \<Rightarrow> Some (failure c (error_message (gf_timeout_ms io) (gf_closed io) c e)))), sv1, st1))"

section \<open>The store behind it\<close>

lemma os_update_generic_Ok:
  assumes "os_update_generic tx ios pio r ph t st = (Ok r', st')"
  shows "update_generic tx (ios 0) pio r ph t (backend_of st) = (Ok r', backend_of st')"
proof (cases st)
  case (Direct b)
  with assms show ?thesis by (auto simp: directly_def prod_eq_iff)
next
  case (Scoped br n)
  with assms have out: "fst (port_update_generic tx ios pio n r ph t br) = Ok r'"
      "st' = Scoped (snd (port_update_generic tx ios pio n r ph t br)) n"
    by (auto simp: scoped_def)
  then have "port_update_generic tx ios pio n r ph t br = port_store br (update_generic tx (ios 0) pio r ph t (store br))"
    by (auto simp: port_update_generic_def port_apply_Ok split: if_splits)
  with out Scoped show ?thesis by (simp add: port_store_def prod_eq_iff)
qed

lemma updated_generic_fields:
  "updated_generic r ph t = Ok r' \<Longrightarrow> g_phase r' = ph \<and> operation_id r' = operation_id r \<and> g_request_type r' = g_request_type r \<and>
     g_request_dispatched r' = fst (generic_disposition ph) \<and> g_request_accepted r' = snd (generic_disposition ph)"
  by (auto simp: updated_generic_def split: if_splits)

lemma os_update_generic_ledger:
  assumes "faithful_text tx" and "quiet (ios 0)" and "os_update_generic tx ios pio r ph t st = (Ok r', st')"
  shows "ledger tx (backend_of st') (operation_id r) = Some (Generic r')" and "updated_generic r ph t = Ok r'"
proof -
  from assms(2) have quiet: "disturbed (ios 0) = (\<lambda>_. None)" by (simp add: quiet_def)
  note up = os_update_generic_Ok [OF assms(3)]
  from generic.update_outcome [OF assms(1) quiet up]
  show "ledger tx (backend_of st') (operation_id r) = Some (Generic r')" by auto
  from up show "updated_generic r ph t = Ok r'"
    by (cases "updated_generic r ph t") (auto simp: update_generic_def returning_def split: sum.splits)
qed

lemma port_prepare_generic_record:
  assumes "fst (port_prepare_generic tx ios pio n oid k gen t br) = Ok r"
  shows "operation_id r = oid \<and> g_request_type r = k \<and> g_phase r = G_Prepared"
  using assms
  by (auto simp: port_prepare_generic_def port_apply_def in_store_def prepare_generic_def returning_def prepared_generic_def
      split: if_splits sum.splits option.splits prod.splits)

lemma os_prepare_generic_record:
  assumes "os_prepare_generic tx ios pio oid k gen t st = (Ok r, st')"
  shows "operation_id r = oid \<and> g_request_type r = k"
proof (cases st)
  case (Direct b)
  with assms show ?thesis
    by (auto simp: directly_def prepare_generic_def returning_def prepared_generic_def split: sum.splits prod.splits)
next
  case (Scoped br n)
  with assms have "fst (port_prepare_generic tx ios pio n oid k gen t br) = Ok r" by (simp add: scoped_def)
  from port_prepare_generic_record [OF this] show ?thesis by simp
qed

lemma ledger_mark [simp]: "ledger tx (mark_uncertain b) = ledger tx b"
  by (intro ledger_cong) (simp add: mark_uncertain_def)

lemma start_admission_ledger [simp]: "ledger tx (backend_of (snd (start_admission tx ios safety st))) = ledger tx (backend_of st)"
  by (cases st) (auto simp: scoped_def fence_admission_def safety_admission_def poison_def split: sum.splits)

lemma generic_intent_Ok:
  assumes "generic_intent tx io c safety gen oid st = (Ok p, st2)"
  obtains r1 st1 r2 where "os_prepare_generic tx (ge_prepare_views io) (ge_prepare_write io) oid (call_kind c) gen (ge_prepare_utc io) st = (Ok r1, st1)"
    and "os_update_generic tx (ge_intent_views io) (ge_intent_write io) r1 G_Dispatching (ge_intent_utc io) st1 = (Ok r2, st2)"
    and "p = \<lparr>gp_call = c, gp_receipt = r2, gp_safety = safety, gp_refusal = None\<rparr>"
proof -
  obtain o1 st1 where a: "os_prepare_generic tx (ge_prepare_views io) (ge_prepare_write io) oid (call_kind c) gen (ge_prepare_utc io) st = (o1, st1)"
    by fastforce
  with assms obtain r1 where r1: "o1 = Ok r1" by (cases o1) (auto simp: generic_intent_def)
  obtain o2 st3 where b: "os_update_generic tx (ge_intent_views io) (ge_intent_write io) r1 G_Dispatching (ge_intent_utc io) st1 = (o2, st3)"
    by fastforce
  with assms a r1 obtain r2 where "o2 = Ok r2" by (cases o2) (auto simp: generic_intent_def)
  with assms a b r1 that show thesis by (auto simp: generic_intent_def split: if_splits)
qed

lemma generic_begin_cases:
  assumes "generic_begin tx ft io sv c who gen oid st ctl = (out, st', ctl')"
  shows "(\<exists>r. out = Err r) \<and> ledger tx (backend_of st') = ledger tx (backend_of st) \<or>
    fst (generic_policy ft c who (ge_ms io) ctl) = Allow \<and> service_refusal sv c = None \<and> \<not> ge_late io \<and>
      (\<exists>safety st1. generic_intent tx io c safety gen oid st1 = (out, st'))"
proof (cases "fence_safety st")
  case (Inl e)
  with assms show ?thesis by (auto simp: generic_begin_def split: if_splits)
next
  case (Inr safety)
  obtain adm st1 where a: "start_admission tx (ge_admission_views io) (safety \<noteq> None) st = (adm, st1)" by fastforce
  obtain d ctl1 where d: "generic_policy ft c who (ge_ms io) ctl = (d, ctl1)" by fastforce
  obtain out' st2 where r: "generic_intent tx io c safety gen oid st1 = (out', st2)" by fastforce
  have led: "ledger tx (backend_of st1) = ledger tx (backend_of st)"
    by (metis a snd_conv start_admission_ledger)
  show ?thesis
  proof (cases "\<not> ge_deadline_ok io \<or> safety \<noteq> None \<and> safety \<noteq> call_safety_stop c \<or> (case adm of Err e \<Rightarrow> True | Ok a \<Rightarrow> blocking a) \<or> \<not> ge_lock_ok io")
    case True
    with assms Inr a d led show ?thesis
      by (auto simp: generic_begin_def split: if_splits)
  next
    case False
    then have begins: "generic_begin tx ft io sv c who gen oid st ctl = (if d \<noteq> Allow
        then (Err (case disposition_result d of None \<Rightarrow> generic_error ''Control policy refused dispatch'' | Some r \<Rightarrow> r), st1, ctl1)
        else (case service_refusal sv c of Some r \<Rightarrow> (Err r, st1, ctl1)
          | None \<Rightarrow> if ge_late io then (Err (cancelled_or_expired c), st1, ctl1) else (out', st2, ctl1)))"
      unfolding generic_begin_def Inr sum.case a prod.case d r by auto
    from assms [unfolded begins] led d r show ?thesis by (auto split: if_splits option.splits)
  qed
qed

section \<open>A sample call\<close>

text \<open>The sample store with a generic receipt on disk, after \<open>n\<close> publications.\<close>

definition generic_holding :: "u64 \<Rightarrow> GenericRecord \<Rightarrow> json backend" where
  "generic_holding n r = (sample_store_with r)\<lparr>sequence := n\<rparr>"

lemma generic_holding_ledger:
  assumes "checked_generic r = Ok r" and "operation_id r = sample_uuid"
  shows "ledger sample_text (generic_holding n r) sample_uuid = Some (Generic r)"
  using sample_ledger [OF assms] ledger_cong [of "generic_holding n r" "sample_store_with r" sample_text]
  by (simp add: generic_holding_def)

lemma generic_holding_update:
  assumes "checked_generic r = Ok r" and "operation_id r = sample_uuid" and "endpoint_hash r = sample_hash"
    and "updated_generic r ph t = Ok r'" and "checked_add n 1 = Some m"
  shows "update_generic sample_text sample_view sample_persist r ph t (generic_holding n r) = (Ok r', generic_holding m r')"
proof -
  have r': "operation_id r' = sample_uuid" using updated_generic_fields [OF assms(4)] assms(2) by simp
  have "seen_file sample_view (generic_holding n r) (receipt_name sample_uuid) =
      undisturbed (Some \<lparr>meta = sample_regular, contents = generic_value r\<rparr>)"
    by (simp add: generic_holding_def sample_store_with_def sample_store_def seen_file_def sample_view_def)
  moreover have "b_endpoint (generic_holding n r) = sample_hash"
    by (simp add: generic_holding_def sample_store_with_def sample_store_def)
  ultimately have current: "current_receipt sample_text sample_view (generic_holding n r) (Generic r) = Ok ()"
    using sample_read [OF assms(1)] assms(2,3) by (simp add: current_receipt_def)
  have "healthy_persist sample_persist (generic_holding n r) sample_directory sample_directory"
    using sample_healthy by (simp add: healthy_persist_def generic_holding_def sample_store_with_def)
  note p = persist_healthy [OF this, of sample_text "generic_value r'" "generic_value r'" m sample_uuid True]
  have "persist_value sample_text sample_persist sample_uuid (generic_value r') True (generic_holding n r) = (Ok (), generic_holding m r')"
    using p assms(5) sample_regular_ok temporary_name_other
    by (simp add: generic_holding_def sample_store_with_def sample_text_def sample_store_def sample_persist_def MAX_RECEIPT_BYTES_def
        del: validate_regular_Ok)
  with current assms(4) r' show ?thesis by (simp add: update_generic_def returning_def)
qed

definition sample_call :: Call where
  "sample_call = plain_call RemoveProfile ''obs-remove-profile'' ''Remove Profile'' (JObject [(''profileName'', JString ''p'')])"

definition call_prepared :: GenericRecord where
  "call_prepared = prepared_generic sample_hash sample_uuid RemoveProfile 7 ''2026-01-02T03:04:05.678Z''"

definition call_phase :: "GenericPhase \<Rightarrow> GenericRecord" where
  "call_phase ph = call_prepared\<lparr>g_phase := ph, g_request_dispatched := fst (generic_disposition ph),
     g_request_accepted := snd (generic_disposition ph)\<rparr>"

definition sample_generic_io :: "json generic_io" where
  "sample_generic_io = \<lparr>ge_deadline_ok = True, ge_admission_views = (\<lambda>_. sample_view), ge_lock_ok = True, ge_ms = 2000, ge_late = False,
     ge_prepare_utc = ''2026-01-02T03:04:05.678Z'', ge_prepare_views = (\<lambda>_. sample_view), ge_prepare_write = sample_persist,
     ge_intent_utc = ''2026-01-02T03:04:05.678Z'', ge_intent_views = (\<lambda>_. sample_view), ge_intent_write = sample_persist,
     ge_no_time = False, ge_drop_utc = [], ge_drop_views = (\<lambda>_. sample_view), ge_drop_write = sample_persist\<rparr>"

definition no_services :: GenericServices where
  "no_services = \<lparr>pending_output_settings = None, readback_input_limit = None\<rparr>"

lemma call_phase_head [simp]: "operation_id (call_phase ph) = sample_uuid" "endpoint_hash (call_phase ph) = sample_hash"
    "operation_id call_prepared = sample_uuid" "endpoint_hash call_prepared = sample_hash"
  by (simp_all add: call_phase_def call_prepared_def prepared_generic_def)

lemma call_prepared_ok: "checked_generic call_prepared = Ok call_prepared"
  using sample by (simp add: checked_generic_def workflow_head_ok_def head_ok_def call_prepared_def prepared_generic_def MAX_SAFE_INTEGER_def)

lemma call_phase_ok: "checked_generic (call_phase ph) = Ok (call_phase ph)"
  using sample by (simp add: checked_generic_def workflow_head_ok_def head_ok_def call_phase_def call_prepared_def prepared_generic_def MAX_SAFE_INTEGER_def)

lemma call_updates:
  "updated_generic call_prepared G_Dispatching ''2026-01-02T03:04:05.678Z'' = Ok (call_phase G_Dispatching)"
  "ph \<in> {G_Accepted, G_Rejected, G_NotDispatched, G_Unknown} \<Longrightarrow>
     updated_generic (call_phase G_Dispatching) ph ''2026-01-02T03:04:05.678Z'' = Ok (call_phase ph)"
proof -
  show "updated_generic call_prepared G_Dispatching ''2026-01-02T03:04:05.678Z'' = Ok (call_phase G_Dispatching)"
    using call_phase_ok [of G_Dispatching]
    by (simp add: updated_generic_def generic_transition_def call_phase_def call_prepared_def prepared_generic_def del: checked_generic_Ok_iff)
  assume "ph \<in> {G_Accepted, G_Rejected, G_NotDispatched, G_Unknown}"
  then show "updated_generic (call_phase G_Dispatching) ph ''2026-01-02T03:04:05.678Z'' = Ok (call_phase ph)"
    using call_phase_ok [of ph]
    by (simp add: updated_generic_def generic_transition_def call_phase_def call_prepared_def prepared_generic_def del: checked_generic_Ok_iff)
qed

lemma sample_generic_intent:
  "generic_intent sample_text sample_generic_io sample_call None 7 sample_uuid (Direct sample_store) =
     (Ok \<lparr>gp_call = sample_call, gp_receipt = call_phase G_Dispatching, gp_safety = None, gp_refusal = None\<rparr>,
      Direct (generic_holding 2 (call_phase G_Dispatching)))"
proof -
  have "prepared_generic (b_endpoint sample_store) sample_uuid RemoveProfile 7 ''2026-01-02T03:04:05.678Z'' = call_prepared"
    by (simp add: call_prepared_def sample_store_def)
  with call_prepared_ok have "prepare_generic sample_text sample_persist sample_uuid RemoveProfile 7 ''2026-01-02T03:04:05.678Z'' sample_store =
      (Ok call_prepared, generic_holding 1 call_prepared)"
    by (simp add: prepare_generic_def returning_def sample_persisted generic_holding_def sample_store_with_def del: checked_generic_Ok_iff)
  moreover have "update_generic sample_text sample_view sample_persist call_prepared G_Dispatching ''2026-01-02T03:04:05.678Z''
      (generic_holding 1 call_prepared) = (Ok (call_phase G_Dispatching), generic_holding 2 (call_phase G_Dispatching))"
    by (rule generic_holding_update [OF call_prepared_ok _ _ call_updates(1)]) (simp_all add: checked_add_def)
  ultimately show ?thesis
    by (simp add: generic_intent_def sample_generic_io_def sample_call_def directly_def)
qed

lemma sample_generic_begin:
  "generic_begin sample_text sample_float sample_generic_io no_services sample_call ''codex'' 7 sample_uuid (Direct sample_store) new_control =
     (Ok \<lparr>gp_call = sample_call, gp_receipt = call_phase G_Dispatching, gp_safety = None, gp_refusal = None\<rparr>,
      Direct (generic_holding 2 (call_phase G_Dispatching)), new_control)"
proof -
  have "view_layout sample_store (layout_start sample_view) = Ok True" "view_layout sample_store (layout_end sample_view) = Ok True"
      "list_opens sample_view" "seen_names sample_view sample_store = []"
    by (simp_all add: sample_view_def view_layout_def sample_store_def seen_names_def keys_def)
  moreover have "\<not> poisoned sample_store" by (simp add: sample_store_def)
  ultimately have "inventory sample_text sample_view sample_store = Ok []" by (simp add: inventory_def sort_by_def)
  then have "view_admission sample_text sample_view sample_store = Ok \<lparr>blocking = False, generic_v2_present = False, total = 0\<rparr>"
    by (simp add: view_admission_def admission_except_def)
  moreover have "generic_policy sample_float sample_call ''codex'' 2000 new_control = (Allow, new_control)"
    by code_simp
  moreover have "service_refusal no_services sample_call = None"
    by (simp add: service_refusal_def sample_call_def confirmed_output_kind_def business_refusal_def output_settings_ack_def)
  ultimately show ?thesis
    using sample_generic_intent by (simp add: generic_begin_def sample_generic_io_def)
qed

section \<open>Properties\<close>



text \<open>C36: every changing call that is begun is answered. Whatever the guard refused, whatever the session replied and whatever the
  store made of it, finishing a call that was parsed and begun gives a result and no panic.\<close>

theorem generic_call_answered:
  assumes "faithful_floats ft" and "parse_call ft quote name args = Some c"
    and "generic_begin tx ft io sv c who gen oid st ctl = (Ok p, st', ctl')"
  shows "\<exists>result. fst (generic_finish tx ft output_error pretty read_back ios pio fio reply (p\<lparr>gp_refusal := refusal\<rparr>) sv st'') = Some result"
proof -
  from generic_begin_cases [OF assms(3)] have sv: "service_refusal sv c = None" and "\<exists>safety st1. generic_intent tx io c safety gen oid st1 = (Ok p, st')"
    by auto
  then have call: "gp_call p = c"
    by (elim exE generic_intent_Ok) simp
  from sv have "confirmed_output_kind c = None" by (auto simp: service_refusal_def split: if_splits)
  from answer_never_panics [OF assms(1,2) this] have answer: "success ft output_error pretty c v \<noteq> None" for v by blast
  have "accepted_answer ft output_error pretty read_back sv1 c v \<noteq> None" if "readback_input_limit sv1 = readback_input_limit sv" for sv1 v
    using sv answer [of v] that
    by (auto simp: accepted_answer_def service_refusal_def split: if_splits option.splits FollowUp.splits)
  then show ?thesis
    using call by (auto simp: generic_finish_def Let_def split: sum.splits prod.splits option.split)
qed

lemma sample_float_faithful: "faithful_floats sample_float"
proof -
  have "js_number sample_float n = ''0''" for n by (simp add: js_number_def sample_float_def)
  then show ?thesis by (simp add: faithful_floats_def) (simp add: sample_float_def)
qed

lemma sample_call_parsed: "parse_call sample_float (\<lambda>s. s) ''obs-remove-profile'' (JObject [(''profileName'', JString ''p'')]) = Some sample_call"
proof -
  have kind: "configuration_definition ''obs-remove-profile'' = Some (RemoveProfile, ''Remove Profile'')"
      "ui_definition ''obs-remove-profile'' = None" "opaque_definition ''obs-remove-profile'' = None"
    by code_simp+
  then have "\<not> early_name ''obs-remove-profile''" using late_names by simp
  with kind show ?thesis
    by (simp add: late_parse read_call_def read_object_def configuration_steps_def configuration_strings_def keep_field_def sample_call_def
        text_value_def source_numbers_def normalize_with_limits_def encoded_len_def default_limits_def MAX_BYTES_def)
qed

theorem generic_call_answered_witness:
  "\<exists>result. fst (generic_finish sample_text sample_float (\<lambda>_ _. Err NoIssues) (\<lambda>_. []) (\<lambda>_. JNull) (\<lambda>_. sample_view) sample_persist
       \<lparr>gf_timeout_ms = 10000, gf_closed = None, gf_utc = ''2026-01-02T03:04:05.678Z'', gf_refusal_lock_ok = True\<rparr> (Ok JNull)
       \<lparr>gp_call = sample_call, gp_receipt = call_phase G_Dispatching, gp_safety = None, gp_refusal = None\<rparr> no_services
       (Direct (generic_holding 2 (call_phase G_Dispatching)))) = Some result"
  using generic_call_answered [OF sample_float_faithful sample_call_parsed sample_generic_begin, where refusal = None] by simp

end
