(* ===== verification/Spec2Isabelle.thy ===== *)
theory Spec2Isabelle
  imports Broker_Safety Session_Safety Custody Confirmation Visibility Take_Guarantees Journal_Safety Output_Start
    Generic_Workflow
begin

text \<open>
  OBS MCP, the native runtime (\<open>src/native/src\<close>, Rust): a server that lets clients control OBS
  Studio over its WebSocket while recordings and streams run. Everything that changes OBS must be
  allowed by a policy, recorded durably before it is sent, sent at most once, and never reported
  better than it is known. This development models the parts that carry these promises and proves
  them.

  \<^bold>\<open>Parts and theories\<close>

  \<^item> \<open>Prelude\<close>, \<open>Rust_Text\<close>, \<open>Json\<close>: results, checked arithmetic, association lists, decimal
    printing, trimming, and the values of \<open>serde_json\<close> with derived (de)serialisation. Objects are
    key-value lists in key order; numbers are unsigned, negative or (rational) floating values.
  \<^item> \<open>Clock\<close>: \<open>clock.rs\<close> (\<open>from_epoch_duration\<close>) and the timestamp check of the store.
  \<^item> \<open>Receipt_Types\<close>, \<open>Receipt_Family\<close>, \<open>Receipts\<close>, \<open>Apply_Receipt\<close>, \<open>Capture_Receipt\<close>,
    \<open>Receipt_Json\<close>: the five families of operation receipts of \<open>operation_store.rs\<close> (\<open>Record\<close>,
    \<open>GenericRecord\<close>, \<open>RestoreRecord\<close>, \<open>ApplyRecord\<close>, \<open>CaptureRecord\<close>): validity (\<open>checked\<close>),
    transitions (\<open>updated\<close>) and the JSON they are stored as. The locales \<open>receipt_family\<close> and
    \<open>workflow_family\<close> state what every family promises and are interpreted for all five.
  \<^item> \<open>Namespace\<close>, \<open>Store\<close>: the private directory and \<open>BackendStore\<close> / \<open>OperationView\<close>: layout
    validation, reading, the inventory, admission, and publication by staged file, rename and sync.
    What the file system answers is an argument of each operation (records \<open>view_io\<close>,
    \<open>persist_io\<close>), so the theorems hold for every sequence of answers; the text of a JSON value is
    an abstract codec that is faithful on valid receipts.
  \<^item> \<open>Ledger\<close>, \<open>Inventory\<close>: the abstract specification, a partial map from operation identifiers to
    receipts that only grows and moves forward, and that the store refines it (locales
    \<open>store_family\<close>, \<open>forward_family\<close>, interpreted for the operations of all five families).
  \<^item> \<open>Broker\<close>, \<open>Broker_Safety\<close>, \<open>Operation_Store\<close>: \<open>receipt_broker.rs\<close>, the shared writer with
    its scopes, ports and dispatch fences, and the facade workflows hold.
  \<^item> \<open>Control\<close>: \<open>control.rs\<close>, the control lease, the Take lock, live confirmations and the gate.
  \<^item> \<open>Confirmation\<close>: \<open>confirmation.rs\<close>, the bounded table of calls that wait for consent.
  \<^item> \<open>Session_Reply\<close>, \<open>Session\<close>, \<open>Session_Safety\<close>: \<open>session.rs\<close>, replies and batches, and the
    socket actor with its clients as a step relation (\<open>session_step\<close>): admission into three lanes,
    the atomic dispatch state of each command, the guard, routing of replies, retirement and
    draining. The choice among ready events and all clock readings are left open.
  \<^item> \<open>Custody\<close>: \<open>custody.rs\<close>, one operation from policy through durable intent, dispatch guard and
    final receipt.
  \<^item> \<open>Record_Impact\<close>: \<open>record_impact.rs\<close>, the veto that manual calls on a recording have over a Take.
  \<^item> \<open>Take_Monitor\<close>: \<open>take_monitor.rs\<close>, what is observed of a running recording and its summary.
  \<^item> \<open>Toolset\<close>, \<open>Visibility\<close>: \<open>tool_filter.rs\<close>, \<open>native_profile.rs\<close>, \<open>advanced_commands.rs\<close>,
    \<open>dynamic_visibility.rs\<close> and the values of \<open>config.rs\<close>: which tools a server offers.
  \<^item> \<open>Take_Report\<close>, \<open>Takes\<close>, \<open>Take_Stop\<close>: \<open>takes.rs\<close>, the supervisor of a recording: its state, the
    reservation of a start, the guard of every request, OBS events, deadlines, the report of a Take, and
    the stop workflow (\<open>stop_take\<close>, \<open>stop_once\<close>, \<open>monitor_stop\<close>) as jobs that move from wait to wait
    while everything else goes on (\<open>stop_step\<close>). Float arithmetic is the record \<open>f64\<close>, an argument.
  \<^item> \<open>Take_Safety\<close>, \<open>Take_Guarantees\<close>: the invariant of all stops, the guarantees, and a complete run.

  \<^item> \<open>Journal\<close>, \<open>Journal_Safety\<close>: \<open>preparation_journal.rs\<close>, the durable provenance of a preparation and
    its recovery: validation, transitions, the successor check; a panic is the value \<open>None\<close>.
  \<^item> \<open>Output_Events\<close>, \<open>Output_Safety\<close>: \<open>output_events.rs\<close>, the registry that lets a start wait for the first
    event of its output, with the numbering of events by the socket (\<open>Publisher::publish\<close>). A receive moves
    from one read of shared state to the next (\<open>receive_act\<close>), so \<open>out_step\<close> has every interleaving with
    socket, observer and other subscribers; a poisoned lock is a flag.
  \<^item> \<open>Output_Start\<close>: \<open>output_start.rs\<close> and \<open>output_start_v2.rs\<close>, the confirmed start of an output, with the
    calls it makes; what each call answers is the record \<open>start_io\<close>.
  \<^item> \<open>Source_Json\<close>: \<open>js_json.rs\<close>, the projection of numbers to those of JavaScript and the bounded encoder; the
    rounding of a value to a 64-bit float and its text are the argument \<open>float_text\<close>, with the laws \<open>faithful_floats\<close>.
  \<^item> \<open>Generic_Call\<close>, \<open>Generic_Parse\<close>: the parsing of \<open>generic_requests.rs\<close> (\<open>Call::parse\<close> with \<open>parse_ui\<close>, \<open>parse_opaque\<close>,
    \<open>parse_configuration\<close>, \<open>parse_extra\<close>), of \<open>opaque_commands.rs\<close>, \<open>custom_mutations.rs\<close> and
    \<open>scene_item_transform_mutation.rs\<close>, and the data sent to OBS (\<open>request_data\<close>). A parser is a list of fields to
    keep (\<open>field_step\<close>), in the order the code inserts them.
  \<^item> \<open>Js_Text\<close>: \<open>append_js_string\<close> with its stack of iterators, and \<open>output_stop_result.rs\<close>.
  \<^item> \<open>Generic_Result\<close>: the texts of failures, refusals and successes of every kind of call; an \<open>unwrap\<close> that would panic
    is the value \<open>None\<close>.
  \<^item> \<open>Generic_Workflow\<close>: \<open>execute_with_dispatch_hook\<close>, cut where it hands the request to the session: \<open>generic_begin\<close>
    (checks, policy, durable intent), \<open>generic_guard\<close> (run by the session at the moment of sending) and
    \<open>generic_finish\<close> (recorded outcome and answer). The readback after a change and the validation of an output schema are
    arguments.

  \<^bold>\<open>How the parts interact\<close>

  A workflow asks the gate (\<open>evaluate\<close>), prepares a receipt through its port of the broker, moves it
  to its dispatching phase, queues the request in the session with a guard that asks gate and broker
  again, and settles the receipt with what the session reports (\<open>custody_begin\<close>, \<open>dispatch_guard\<close>,
  \<open>custody_finish\<close>). A receipt that stays dispatching or becomes unknown blocks later admissions.
  The supervisor of Takes does the same for its recording, with a ticket of the impact registry that
  its guard checks at the moment of sending (\<open>guard\<close>, \<open>take_impact\<close>). A generic call takes the same way with a receipt of
  the second version, after its arguments were parsed and their numbers normalised.

  \<^bold>\<open>What is shown\<close>

  The receipt tells the truth about the wire (this theory), what a client is told is true of its
  frame and no command is left hanging (\<open>Session_Safety\<close>); nothing is sent before it is on record
  (\<open>Custody\<close>); a publication is atomic and succeeds on a healthy file system (\<open>Store\<close>); store and
  broker refine the ledger, history is append-only, the inventory is exact, unknown outcomes block
  for ever (\<open>Ledger\<close>, \<open>Inventory\<close>, \<open>Broker_Safety\<close>); the broker stays within its bounds and keeps
  the place of every reserved stop; leases are not stolen and stops never blocked (\<open>Control\<close>);
  consent is used once (\<open>Confirmation\<close>); receipts round-trip through JSON, steps of workflows are
  sent in order and workflows end (\<open>Receipt_Json\<close>, \<open>Apply_Receipt\<close>, \<open>Capture_Receipt\<close>, this theory);
  replies are matched to requests (\<open>Session_Reply\<close>); visibility grants nothing and agrees with the
  static filter (\<open>Visibility\<close>); a ticket of a Take reads what happened since it was reserved and a
  revocation is final (\<open>Record_Impact\<close>); the monitor of a Take is bounded, cannot fail, and its
  report is final once stopped (\<open>Take_Monitor\<close>); a stop of a Take is never replayed, is sent only for a
  recording that no manual call touched, and is confirmed only when it happened
  (\<open>Take_Guarantees\<close>); a journal of a preparation stays valid, its steps are successors, and an unknown
  outcome in it is final (\<open>Journal_Safety\<close>); a start of an output is told the first event the socket saw for it, an
  expiry is true, waiting ends and is bounded (\<open>Output_Safety\<close>), and what is reported of the start is true and the
  same in both versions (\<open>Output_Start\<close>); normalising numbers leaves what is sent as it was (\<open>Source_Json\<close>), a parsed call
  is parsed again to itself (\<open>Generic_Parse\<close>), the iterative text of a value is the recursive one (\<open>Js_Text\<close>), a generic call
  begins on record, is always answered (\<open>Generic_Workflow\<close>) and its receipt is true of the wire (this theory); the clock prints the civil date (\<open>Clock\<close>).

  \<^bold>\<open>Bounds\<close>

  No operation needs fuel: loops over data are structural recursion, the loops of the clock and of
  trimming have measures. Counters are 64-bit words with their overflow checks; sizes of texts are
  natural numbers where the code only compares them. Bounds of the code (1024 receipts, 34 scopes,
  64 KiB receipts, 16 confirmations and 8 MiB, 512 bytes per reserved stop, 32 subscriptions
  and 8 MiB of paths) are the definitions'
  constants.

  \<^bold>\<open>Not modelled\<close>

  Sockets, TLS and the connection handshake, the file system itself, process and platform code, the
  JSON text syntax, MCP transports (standard streams and HTTP) and the JSON-RPC plumbing around the
  components, generated catalogs, and the TypeScript reference. Of Takes: the checks before a start, clips,
  status texts and the command loop, which only put the modelled steps in sequence or format OBS data. Of generic requests: the
  execution of opaque requests, which forwards what a client sent, and the readback after a change. The workflows of scene
  plans, snapshots and window capture are modelled by their receipts and their preparation journal; what they decide depends on
  scene data of OBS. Trimming and replay files run external programs on media files.
\<close>

section \<open>Properties that span components\<close>

text \<open>What the reply a client got says about its request.\<close>

lemma request_result_told:
  "request_result reply = Err (BeforeDispatch b) \<Longrightarrow> before_dispatch reply"
  "request_result reply = Ok v \<Longrightarrow> answer reply"
  "request_result reply = Err e \<Longrightarrow> rejection_code e \<noteq> None \<Longrightarrow> answer reply"
  by (auto simp: request_result_def before_dispatch_def answer_def rejection_code_def split: sum.splits ReplyData.splits)

text \<open>C1: the receipt on disk tells the truth about the wire. When custody finishes an operation with
  the reply its client got from the session, whatever the interleaving of clients and actor was, the
  receipt that is in the ledger says \<open>not dispatched\<close> only if the frame was never handed to the
  socket and never will be, and \<open>accepted\<close> or \<open>rejected\<close> only if it was sent after its guard
  passed.\<close>

theorem receipt_tells_truth:
  assumes "(session_step capture parse_text encode)\<^sup>*\<^sup>* (connected token bytes pb) s"
    and "i < length (commands s)" and "cmd_result (cmd s i) = Some reply"
    and "(session_step capture parse_text encode)\<^sup>*\<^sup>* s s'"
    and "faithful_text tx" and "quiet (ios 0)" and "cu_pending cu = Some p"
    and "custody_finish tx ios pio stamp (request_result reply) cu = (Ok out, cu')"
  shows "\<exists>r. ledger tx (backend_of (cu_store cu')) (operation_id (p_receipt p)) = Some (V1 r) \<and>
    (request_dispatched r = Some False \<longrightarrow> \<not> cmd_sent (cmd s' i)) \<and>
    (phase r = NotDispatched \<longrightarrow> \<not> cmd_sent (cmd s' i)) \<and>
    (phase r = Accepted \<longrightarrow> cmd_sent (cmd s i) \<and> cmd_guarded (cmd s i)) \<and>
    (request_accepted r = Some False \<longrightarrow> cmd_sent (cmd s i) \<and> cmd_guarded (cmd s i))"
proof -
  note told = told_true [OF assms(1-4)]
  note fin = finish_Ok [where ios = ios, OF assms(5-8)]
  note fields = final_fields [OF fin [THEN conjunct2, THEN conjunct2]]
  show ?thesis
    using told fin fields request_result_told [of reply] by blast
qed

theorem receipt_tells_truth_witness:
  "ledger sample_text (holding 3 (settled_sample NotDispatched (Some False))) sample_uuid =
       Some (V1 (settled_sample NotDispatched (Some False))) \<and>
     \<not> cmd_sent (cmd (client_times_out 0 sample_queued) 0)"
proof -
  let ?reply = "Err (BeforeDispatch Deadline) :: (RequestError, unit ReplyData) result"
  let ?r = "settled_sample NotDispatched (Some False)"
  have fin: "custody_finish sample_text (\<lambda>_. sample_view) sample_persist ''2026-01-02T03:04:06.000Z'' (request_result ?reply)
      sample_pending = (Ok (outcome_of (Err (BeforeDispatch Deadline)) ?r None),
        sample_pending\<lparr>cu_store := Direct (holding 3 ?r), cu_pending := None\<rparr>)"
    using sample_finish [of "Err (BeforeDispatch Deadline)" ?r] sample_settles(2)
    by (simp add: request_result_def transport_of_def)
  have quiet: "quiet ((\<lambda>_. sample_view) 0)" using sample_quiet by simp
  have pend: "cu_pending sample_pending = Some \<lparr>p_receipt = sample_intent, p_request = sample_tracked, policy_refusal = None\<rparr>"
    by (simp add: sample_pending_def)
  from receipt_tells_truth [where ios = "\<lambda>_. sample_view", OF sample_timeout rtranclp.rtrancl_refl sample_text_faithful quiet pend fin]
    finish_Ok [where ios = "\<lambda>_. sample_view", OF sample_text_faithful quiet pend fin]
  show ?thesis by (simp add: sample_intent_ok) (auto simp: settled_sample_def)
qed

text \<open>C3: the receipt of a changing call tells the truth about the wire. When the call is finished with the reply its client got from
  the session and is not answered with an uncertain receipt, the receipt in the ledger says \<open>not dispatched\<close> only if the frame was never
  handed to the socket and never will be, \<open>accepted\<close> or \<open>rejected\<close> only if it was sent after its guard passed, and \<open>accepted\<close> exactly
  when OBS accepted it.\<close>

theorem generic_receipt_true:
  assumes "(session_step capture parse_text encode)\<^sup>*\<^sup>* (connected token bytes pb) s"
    and "i < length (commands s)" and "cmd_result (cmd s i) = Some reply"
    and "(session_step capture parse_text encode)\<^sup>*\<^sup>* s s'"
    and "faithful_text tx" and "quiet (ios 0)"
    and "generic_finish tx ft output_error pretty read_back ios pio io (request_result reply) p sv st = (result, sv', st')"
    and "result \<noteq> Some uncertain_receipt"
  shows "\<exists>r. ledger tx (backend_of st') (operation_id (gp_receipt p)) = Some (Generic r) \<and>
    (g_phase r = G_NotDispatched \<longrightarrow> \<not> cmd_sent (cmd s' i)) \<and>
    (g_phase r = G_Accepted \<or> g_phase r = G_Rejected \<longrightarrow> cmd_sent (cmd s i) \<and> cmd_guarded (cmd s i)) \<and>
    (g_phase r = G_Accepted \<longleftrightarrow> (\<exists>v. request_result reply = Ok v))"
proof -
  note told = told_true [OF assms(1-4)]
  obtain out st1 where up: "os_update_generic tx ios pio (gp_receipt p) (response_phase (request_result reply)) (gf_utc io) st = (out, st1)"
    by fastforce
  with assms(7,8) obtain r where r: "out = Ok r" "st' = st1"
    by (cases out) (auto simp: generic_finish_def Let_def)
  note led = os_update_generic_ledger [where tx = tx and ios = ios, OF assms(5,6) up [unfolded r(1)]]
  have phase: "g_phase r = response_phase (request_result reply)" using updated_generic_fields [OF led(2)] by simp
  have phases: "response_phase x = G_NotDispatched \<Longrightarrow> \<exists>b. x = Err (BeforeDispatch b)"
      "response_phase x = G_Rejected \<Longrightarrow> \<exists>e. x = Err e \<and> rejection_code e \<noteq> None"
      "response_phase x = G_Accepted \<longleftrightarrow> (\<exists>v. x = Ok v)" for x
    by (auto simp: response_phase_def split: sum.splits RequestError.splits if_splits)
  have "before_dispatch reply" if "g_phase r = G_NotDispatched"
    using phases(1) [of "request_result reply"] request_result_told(1) [of reply] that phase by auto
  moreover have "answer reply" if "g_phase r = G_Accepted \<or> g_phase r = G_Rejected"
    using phases(2,3) [of "request_result reply"] request_result_told(2,3) [of reply] that phase by metis
  ultimately show ?thesis
    using told led(1) r(2) phases(3) [of "request_result reply"] phase by (intro exI [of _ r]) simp
qed

theorem generic_receipt_true_witness:
  "ledger sample_text (generic_holding 3 (call_phase G_NotDispatched)) sample_uuid = Some (Generic (call_phase G_NotDispatched)) \<and>
   \<not> cmd_sent (cmd (client_times_out 0 sample_queued) 0)"
proof -
  let ?reply = "Err (BeforeDispatch Deadline) :: (RequestError, unit ReplyData) result"
  let ?p = "\<lparr>gp_call = sample_call, gp_receipt = call_phase G_Dispatching, gp_safety = None, gp_refusal = None\<rparr>"
  let ?io = "\<lparr>gf_timeout_ms = 10000, gf_closed = None, gf_utc = ''2026-01-02T03:04:05.678Z'', gf_refusal_lock_ok = True\<rparr>"
  let ?out = "failure sample_call ''OBS request was not sent: original operation deadline expired''"
  have "update_generic sample_text sample_view sample_persist (call_phase G_Dispatching) G_NotDispatched ''2026-01-02T03:04:05.678Z''
      (generic_holding 2 (call_phase G_Dispatching)) = (Ok (call_phase G_NotDispatched), generic_holding 3 (call_phase G_NotDispatched))"
    by (rule generic_holding_update [OF call_phase_ok _ _ call_updates(2)]) (simp_all add: checked_add_def)
  then have fin: "generic_finish sample_text sample_float (\<lambda>_ _. Err NoIssues) (\<lambda>_. []) (\<lambda>_. JNull) (\<lambda>_. sample_view) sample_persist ?io
      (request_result ?reply) ?p no_services (Direct (generic_holding 2 (call_phase G_Dispatching))) =
      (Some ?out, no_services, Direct (generic_holding 3 (call_phase G_NotDispatched)))"
    by (simp add: generic_finish_def request_result_def response_phase_def directly_def error_message_def obs_failure_message_def
        rejection_code_def authorized_disconnect_message_def before_dispatch_text_def opt_or_def is_ok_def)
  have quiet: "quiet ((\<lambda>_. sample_view) 0)" using sample_quiet by simp
  have "Some ?out \<noteq> Some uncertain_receipt"
    by (simp add: failure_def failure_prefix_def sample_call_def uncertain_receipt_def generic_error_def text_result_def mk_object_def mk_fields_def)
  from generic_receipt_true [where ios = "\<lambda>_. sample_view", OF sample_timeout rtranclp.rtrancl_refl sample_text_faithful quiet fin this]
    generic_holding_ledger [OF call_phase_ok, of G_NotDispatched 3]
  show ?thesis by (auto simp: call_phase_def)
qed

text \<open>C32: a recorded workflow ends. No receipt of a generic request, a restore, an Apply Scene or a
  Capture Window workflow accepts more than 2, 2, 4 or 8 updates, whatever they are, and every
  receipt on the way is valid.\<close>

theorem workflows_end:
  "(checked_generic g = Ok g \<longrightarrow> run_updates updated_generic g gs = Ok g' \<longrightarrow>
      length gs \<le> 2 \<and> checked_generic g' = Ok g') \<and>
   (checked_restore r = Ok r \<longrightarrow> run_updates updated_restore r rs = Ok r' \<longrightarrow>
      length rs \<le> 2 \<and> checked_restore r' = Ok r') \<and>
   (checked_apply a = Ok a \<longrightarrow> run_updates updated_apply a as = Ok a' \<longrightarrow>
      length as \<le> 4 \<and> checked_apply a' = Ok a') \<and>
   (checked_capture c = Ok c \<longrightarrow> run_updates updated_capture c cs = Ok c' \<longrightarrow>
      length cs \<le> 8 \<and> checked_capture c' = Ok c')"
  using v2.run_length [of g gs g'] v2.run_checked [of g gs g'] v3.run_length [of r rs r'] v3.run_checked [of r rs r']
    v4.run_length [of a as a'] v4.run_checked [of a as a'] v5.run_length [of c cs c'] v5.run_checked [of c cs c']
  by (auto intro: order_trans)

theorem workflows_end_witness:
  "\<exists>r. run_updates updated_capture
       (prepared_capture sample_hash sample_uuid 7 sample_plan ''2026-01-02T03:04:05.678Z'')
       sample_capture_updates = Ok r \<and> length sample_capture_updates \<le> 8 \<and> checked_capture r = Ok r"
proof -
  let ?r = "prepared_capture sample_hash sample_uuid 7 sample_plan ''2026-01-02T03:04:05.678Z''"
  have valid: "checked_capture ?r = Ok ?r"
    using sample by (simp add: capture_defs)
  have "is_ok (run_updates updated_capture ?r sample_capture_updates)" by code_simp
  then obtain r where "run_updates updated_capture ?r sample_capture_updates = Ok r" by (auto simp: is_ok_iff)
  with workflows_end [of _ _ _ _ _ _ _ _ _ ?r sample_capture_updates r] valid show ?thesis by blast
qed

end
